(* ===== verification/Chwell_Prelude.thy ===== *)
theory Chwell_Prelude
  imports Main "HOL-Library.Word" "HOL-Library.Char_ord" "HOL-Library.List_Lexorder"
begin

unbundle bit_operations_syntax

text \<open>
  Shared vocabulary of the development: the C++ scalar types, the memory layout of
  fixed-width integers on a little-endian host, the byte-order conversions of
  \<^verbatim>\<open>include/chwell/core/endian.h\<close>, the error values that stand for undefined behaviour,
  and the generic list and word lemmas the component theories rest on.

  Conventions of the whole library.
  \<^item> \<^verbatim>\<open>std::vector<char>\<close>, \<^verbatim>\<open>std::string_view\<close> and \<^verbatim>\<open>std::string\<close> payloads are byte
    lists (type \<open>bytes\<close>).
  \<^item> \<^verbatim>\<open>uint16_t\<close>, \<^verbatim>\<open>uint32_t\<close> and \<^verbatim>\<open>uint64_t\<close> are words wherever the code converts, packs
    or wraps them; \<^verbatim>\<open>std::size_t\<close> positions are \<open>nat\<close>, with every subtraction shown not
    to underflow by an invariant.
  \<^item> \<^verbatim>\<open>int\<close> and \<^verbatim>\<open>int64_t\<close> arithmetic is \<open>int\<close>: overflow of a signed type is undefined
    behaviour in C++ and is outside the model.
  \<^item> One call of a member function that takes the object's mutex for its whole body is
    one atomic step on the object's state. A second acquisition of a mutex the same
    thread holds is the error value \<open>SelfDeadlock\<close>.
\<close>

section \<open>Types\<close>

type_synonym byte = "8 word"
type_synonym bytes = "8 word list"

text \<open>Failures of the C++ abstract machine that the modelled code can run into.\<close>

datatype cpp_error =
    OutOfBounds   \<comment> \<open>a read or write past the end of a container\<close>
  | SelfDeadlock  \<comment> \<open>\<^verbatim>\<open>std::mutex\<close> locked twice by the same thread\<close>
  | NonTermination \<comment> \<open>a loop that never leaves\<close>
  | UseAfterFree  \<comment> \<open>a pointer to an object that no longer exists\<close>
  | InvalidArgument \<comment> \<open>\<^verbatim>\<open>std::invalid_argument\<close>\<close>
  | OutOfRange    \<comment> \<open>\<^verbatim>\<open>std::out_of_range\<close>\<close>
  | SignedOverflow \<comment> \<open>a signed integer result that its type cannot hold\<close>
  | DivisionByZero
  | InvalidCast   \<comment> \<open>a \<^verbatim>\<open>double\<close> cast to an integer type that cannot hold its integral part\<close>
  | Terminate     \<comment> \<open>\<^verbatim>\<open>std::terminate\<close>\<close>

named_theorems codec_defs \<open>definitions of the byte-level codecs\<close>

section \<open>Memory layout and byte order\<close>

text \<open>
  \<open>store16\<close> and \<open>load16\<close> are \<^verbatim>\<open>memcpy\<close> between a \<^verbatim>\<open>uint16_t\<close> and the two bytes it
  occupies on a little-endian host; \<open>host_to_net16\<close> is \<^verbatim>\<open>htons\<close> on such a host, a swap
  of the two bytes. The 32-bit versions are analogous.
\<close>

definition store16 :: "16 word \<Rightarrow> bytes" where
  "store16 v = [ucast v, ucast (drop_bit 8 v)]"

definition load16 :: "byte \<Rightarrow> byte \<Rightarrow> 16 word" where
  "load16 b0 b1 = ucast b0 OR push_bit 8 (ucast b1)"

definition host_to_net16 :: "16 word \<Rightarrow> 16 word" where
  "host_to_net16 v = load16 (store16 v ! 1) (store16 v ! 0)"

definition net_to_host16 :: "16 word \<Rightarrow> 16 word" where
  "net_to_host16 v = load16 (store16 v ! 1) (store16 v ! 0)"

definition store32 :: "32 word \<Rightarrow> bytes" where
  "store32 v = [ucast v, ucast (drop_bit 8 v), ucast (drop_bit 16 v), ucast (drop_bit 24 v)]"

definition load32 :: "byte \<Rightarrow> byte \<Rightarrow> byte \<Rightarrow> byte \<Rightarrow> 32 word" where
  "load32 b0 b1 b2 b3 =
     ucast b0 OR push_bit 8 (ucast b1) OR push_bit 16 (ucast b2) OR push_bit 24 (ucast b3)"

definition host_to_net32 :: "32 word \<Rightarrow> 32 word" where
  "host_to_net32 v =
     load32 (store32 v ! 3) (store32 v ! 2) (store32 v ! 1) (store32 v ! 0)"

definition net_to_host32 :: "32 word \<Rightarrow> 32 word" where
  "net_to_host32 v =
     load32 (store32 v ! 3) (store32 v ! 2) (store32 v ! 1) (store32 v ! 0)"

lemma length_store16 [simp]: "length (store16 v) = 2"
  by (simp add: store16_def)

lemma length_store32 [simp]: "length (store32 v) = 4"
  by (simp add: store32_def)

text \<open>A byte has no bit at position 8 or above.\<close>

lemma byte_bit_high: "bit (b :: byte) (k + n) \<Longrightarrow> k + n < 8"
  using bit_imp_le_length by fastforce

lemma store_load16 [simp]: "store16 (load16 b0 b1) = [b0, b1]"
  unfolding load16_def store16_def
  by (auto simp: bit_simps intro!: bit_word_eqI dest!: byte_bit_high)

lemma load_store16 [simp]: "load16 (ucast v) (ucast (drop_bit 8 v)) = (v :: 16 word)"
  unfolding load16_def by (rule bit_word_eqI) (auto simp: bit_simps)

lemma store_load32 [simp]: "store32 (load32 b0 b1 b2 b3) = [b0, b1, b2, b3]"
  unfolding load32_def store32_def
  by (auto simp: bit_simps intro!: bit_word_eqI dest!: byte_bit_high)

lemma load_store32 [simp]:
  "load32 (ucast v) (ucast (drop_bit 8 v)) (ucast (drop_bit 16 v)) (ucast (drop_bit 24 v))
     = (v :: 32 word)"
proof (rule bit_word_eqI)
  fix n :: nat
  assume "n < LENGTH(32)"
  then consider "n < 8" | "8 \<le> n" "n < 16" | "16 \<le> n" "n < 24" | "24 \<le> n" "n < 32"
    by fastforce
  then show "bit (load32 (ucast v) (ucast (drop_bit 8 v)) (ucast (drop_bit 16 v))
    (ucast (drop_bit 24 v))) n = bit v n"
    by cases (auto simp: load32_def bit_simps)
qed

text \<open>
  The idiom \<^verbatim>\<open>uint16_t n = host_to_net16(v); append(&n, 2)\<close> and its inverse
  \<^verbatim>\<open>memcpy(&n, data + i, 2); v = net_to_host16(n)\<close>, used by every wire format of the code.
\<close>

definition put_be16 :: "16 word \<Rightarrow> bytes" where
  "put_be16 v = store16 (host_to_net16 v)"

definition get_be16 :: "bytes \<Rightarrow> nat \<Rightarrow> 16 word" where
  "get_be16 data i = net_to_host16 (load16 (data ! i) (data ! (i + 1)))"

definition put_be32 :: "32 word \<Rightarrow> bytes" where
  "put_be32 v = store32 (host_to_net32 v)"

definition get_be32 :: "bytes \<Rightarrow> nat \<Rightarrow> 32 word" where
  "get_be32 data i =
     net_to_host32 (load32 (data ! i) (data ! (i + 1)) (data ! (i + 2)) (data ! (i + 3)))"

lemma put_be16_eq: "put_be16 v = [ucast (drop_bit 8 v), ucast v]"
  by (simp add: put_be16_def host_to_net16_def) (simp add: store16_def)

lemma get_be16_eq: "get_be16 data i = load16 (data ! (i + 1)) (data ! i)"
  by (simp add: get_be16_def net_to_host16_def)

lemma put_be32_eq:
  "put_be32 v = [ucast (drop_bit 24 v), ucast (drop_bit 16 v), ucast (drop_bit 8 v), ucast v]"
  by (simp add: put_be32_def host_to_net32_def) (simp add: store32_def)

lemma get_be32_eq:
  "get_be32 data i = load32 (data ! (i + 3)) (data ! (i + 2)) (data ! (i + 1)) (data ! i)"
  by (simp add: get_be32_def net_to_host32_def)

lemma length_put_be16 [simp]: "length (put_be16 v) = 2"
  by (simp add: put_be16_def)

lemma length_put_be32 [simp]: "length (put_be32 v) = 4"
  by (simp add: put_be32_def)

text \<open>Reading at the position where the writer wrote gives the value back.\<close>

lemma get_put_be16 [simp]: "get_be16 (xs @ put_be16 v @ ys) (length xs) = v"
  by (simp add: get_be16_eq put_be16_eq nth_append)

lemma get_put_be32 [simp]: "get_be32 (xs @ put_be32 v @ ys) (length xs) = v"
  by (simp add: get_be32_eq put_be32_eq nth_append)

text \<open>Reads depend only on the bytes at the position.\<close>

lemma get_be16_append: "i + 2 \<le> length xs \<Longrightarrow> get_be16 (xs @ ys) i = get_be16 xs i"
  by (simp add: get_be16_eq nth_append)

lemma get_be32_append: "i + 4 \<le> length xs \<Longrightarrow> get_be32 (xs @ ys) i = get_be32 xs i"
  by (simp add: get_be32_eq nth_append)

lemma get_be16_drop: "h + i + 2 \<le> length xs \<Longrightarrow> get_be16 (drop h xs) i = get_be16 xs (h + i)"
  by (simp add: get_be16_eq ac_simps)

lemma get_be32_drop: "h + i + 4 \<le> length xs \<Longrightarrow> get_be32 (drop h xs) i = get_be32 xs (h + i)"
  by (simp add: get_be32_eq ac_simps)

lemma unat_16_lt: "unat (w :: 16 word) < 65536"
  using unsigned_less [of w] by simp

lemma unat_32_lt: "unat (w :: 32 word) < 4294967296"
  using unsigned_less [of w] by simp

lemma unat_of_nat16: "n < 65536 \<Longrightarrow> unat (of_nat n :: 16 word) = n"
  by (simp add: unat_of_nat take_bit_nat_eq_self)

lemma unat_of_nat32: "n < 4294967296 \<Longrightarrow> unat (of_nat n :: 32 word) = n"
  by (simp add: unat_of_nat take_bit_nat_eq_self)

lemma unat_of_nat64: "n < 18446744073709551616 \<Longrightarrow> unat (of_nat n :: 64 word) = n"
  by (simp add: unat_of_nat take_bit_nat_eq_self)

lemma unat_ucast_32_64: "unat (ucast (w :: 32 word) :: 64 word) = unat w"
  using unat_32_lt [of w] by (simp add: unsigned_ucast_eq take_bit_nat_eq_self)

section \<open>Lists\<close>

lemma drop_take_append_exact: "take (length ys) (drop (length xs) (xs @ ys @ zs)) = ys"
  by simp

text \<open>What one step of a loop establishes and every step keeps holds at its end.\<close>

lemma foldl_keeps: "Q g \<Longrightarrow> (\<And>g y. Q g \<Longrightarrow> Q (f g y)) \<Longrightarrow> Q (foldl f g xs)"
  by (induction xs arbitrary: g) auto

lemma foldl_establishes:
  assumes "x \<in> set xs" and "\<And>g. Q (f g x)" and "\<And>g y. Q g \<Longrightarrow> Q (f g y)"
  shows "Q (foldl f g xs)"
proof -
  obtain ys zs where "xs = ys @ x # zs" using assms(1) by (meson split_list)
  then have "foldl f g xs = foldl f (f (foldl f g ys) x) zs" by simp
  with assms(2,3) show ?thesis by (metis foldl_keeps)
qed

section \<open>Iteration over hash containers\<close>

text \<open>
  The order in which the code walks an \<^verbatim>\<open>unordered_map\<close> or \<^verbatim>\<open>unordered_set\<close> is unspecified: it is
  a parameter \<open>order\<close> of the operations that do so, constrained to enumerate finite sets.
\<close>

definition enumerates :: "('a set \<Rightarrow> 'a list) \<Rightarrow> bool" where
  "enumerates order \<longleftrightarrow> (\<forall>S. finite S \<longrightarrow> set (order S) = S \<and> distinct (order S))"

lemma enumerates_sorted_list: "enumerates (sorted_list_of_set :: 'a :: linorder set \<Rightarrow> 'a list)"
  by (simp add: enumerates_def)

end
