(* ===== verification/Framing.thy ===== *)
theory Framing
  imports Chwell_Prelude
begin

text \<open>
  The contract shared by the four incremental decoders of the code
  (\<^verbatim>\<open>protocol::Parser\<close>, \<^verbatim>\<open>LengthHeaderCodec\<close>, \<^verbatim>\<open>JsonCodec\<close>, \<^verbatim>\<open>ProtobufCodec\<close>).
  \<^item> \<open>frame_format\<close>: a format is a function \<open>step\<close> that takes the first complete frame off
    a byte string, and a predicate \<open>good\<close> for headers the decoder can process. \<open>drain\<close>
    is the specification of a decoder: take frames off until none is complete.
  \<^item> \<open>frame_codec\<close> adds an encoder whose output \<open>step\<close> takes off again.
  \<^item> \<open>buffered_decoder\<close> adds a decoder object that keeps pending bytes between calls.
    The theorems proved here once (independence of how the stream is cut into reads, and
    the round trip through any cut) are inherited by every decoder that is interpreted.
\<close>

section \<open>Formats\<close>

locale frame_format =
  fixes step :: "bytes \<Rightarrow> ('m \<times> bytes) option"
    and good :: "bytes \<Rightarrow> bool"
  assumes step_shrinks: "step bs = Some (m, r) \<Longrightarrow> length r < length bs"
    and step_extends: "step bs = Some (m, r) \<Longrightarrow> step (bs @ ext) = Some (m, r @ ext)"
    and good_prefix: "good (bs @ ext) \<Longrightarrow> good bs"
begin

function drain :: "bytes \<Rightarrow> 'm list \<times> bytes" where
  "drain bs = (case step bs of
      None \<Rightarrow> ([], bs)
    | Some (m, r) \<Rightarrow> (case drain r of (ms, r') \<Rightarrow> (m # ms, r')))"
  by pat_completeness auto
termination
  by (relation "measure length") (auto dest: step_shrinks)

text \<open>Every header met while draining is acceptable.\<close>

function safe :: "bytes \<Rightarrow> bool" where
  "safe bs = (good bs \<and> (case step bs of None \<Rightarrow> True | Some (m, r) \<Rightarrow> safe r))"
  by pat_completeness auto
termination
  by (relation "measure length") (auto dest: step_shrinks)

declare drain.simps [simp del] safe.simps [simp del]

lemma drain_None: "step bs = None \<Longrightarrow> drain bs = ([], bs)"
  by (subst drain.simps) simp

lemma drain_Some: "step bs = Some (m, r) \<Longrightarrow> drain r = (ms, r') \<Longrightarrow> drain bs = (m # ms, r')"
  by (subst drain.simps) simp

text \<open>Induction over the frames of a byte string.\<close>

lemma frame_induct [case_names incomplete frame]:
  assumes "\<And>bs. step bs = None \<Longrightarrow> P bs"
    and "\<And>bs m r. step bs = Some (m, r) \<Longrightarrow> P r \<Longrightarrow> P bs"
  shows "P bs"
proof (induction bs rule: measure_induct_rule [of length])
  case (less bs)
  show ?case
    by (metis assms less.IH step_shrinks option.exhaust surj_pair)
qed

lemma drain_rest: "drain bs = (ms, r) \<Longrightarrow> step r = None"
proof (induction bs arbitrary: ms rule: frame_induct)
  case (incomplete bs)
  then show ?case by (simp add: drain_None)
next
  case (frame bs m r0)
  obtain ms0 r1 where "drain r0 = (ms0, r1)" by fastforce
  with frame show ?case by (auto simp: drain_Some)
qed

text \<open>Draining a longer stream: first drain the part at hand, then what is left with the rest.\<close>

lemma drain_append:
  "drain a = (ms, r) \<Longrightarrow> drain (r @ b) = (ms', r') \<Longrightarrow> drain (a @ b) = (ms @ ms', r')"
proof (induction a arbitrary: ms rule: frame_induct)
  case (incomplete a)
  then show ?case by (simp add: drain_None)
next
  case (frame a m r0)
  obtain ms0 r1 where "drain r0 = (ms0, r1)" by fastforce
  with frame show ?case by (auto simp: drain_Some [OF step_extends] drain_Some)
qed

lemma safe_good: "safe bs \<Longrightarrow> good bs"
  by (subst (asm) safe.simps) simp

lemma safe_step: "safe bs \<Longrightarrow> step bs = Some (m, r) \<Longrightarrow> safe r"
  by (subst (asm) safe.simps) simp

lemma safe_None: "step bs = None \<Longrightarrow> good bs \<Longrightarrow> safe bs"
  by (subst safe.simps) simp

lemma safe_Some: "step bs = Some (m, r) \<Longrightarrow> good bs \<Longrightarrow> safe r \<Longrightarrow> safe bs"
  by (subst safe.simps) simp

lemma safe_prefix: "safe (a @ b) \<Longrightarrow> safe a"
proof (induction a rule: frame_induct)
  case (incomplete a)
  then show ?case by (blast intro: safe_None good_prefix safe_good)
next
  case (frame a m r)
  then have "safe (r @ b)" by (blast intro: safe_step step_extends)
  with frame show ?case by (blast intro: safe_Some good_prefix safe_good)
qed

lemma safe_drain: "safe (a @ b) \<Longrightarrow> drain a = (ms, r) \<Longrightarrow> safe (r @ b)"
proof (induction a arbitrary: ms rule: frame_induct)
  case (incomplete a)
  then show ?case by (simp add: drain_None)
next
  case (frame a m r0)
  obtain ms0 r1 where "drain r0 = (ms0, r1)" by fastforce
  moreover from frame.hyps frame.prems(1) have "safe (r0 @ b)"
    by (blast intro: safe_step step_extends)
  ultimately show ?case using frame by (auto simp: drain_Some)
qed

end

section \<open>Formats with an encoder\<close>

locale frame_codec = frame_format step good
  for step :: "bytes \<Rightarrow> ('m \<times> bytes) option" and good :: "bytes \<Rightarrow> bool" +
  fixes enc :: "'m \<Rightarrow> bytes"
    and valid :: "'m \<Rightarrow> bool"
  assumes step_enc: "valid m \<Longrightarrow> step (enc m @ rest) = Some (m, rest)"
    and good_enc: "valid m \<Longrightarrow> good (enc m @ rest)"
    and step_empty: "step [] = None"
    and good_empty: "good []"
begin

lemma drain_encoded: "list_all valid ms \<Longrightarrow> drain (concat (map enc ms)) = (ms, [])"
proof (induction ms)
  case Nil
  show ?case by (simp add: drain_None step_empty)
next
  case (Cons m ms)
  then show ?case by (simp add: drain_Some [OF step_enc])
qed

lemma safe_encoded: "list_all valid ms \<Longrightarrow> safe (concat (map enc ms))"
proof (induction ms)
  case Nil
  show ?case by (simp add: safe_None step_empty good_empty)
next
  case (Cons m ms)
  then show ?case by (simp add: safe_Some [OF step_enc] good_enc)
qed

end

section \<open>Decoder objects\<close>

text \<open>
  \<open>feed d data\<close> is the member function that takes one read; \<open>pending d\<close> are the bytes not
  yet delivered. \<open>feed_all\<close> hands a sequence of reads to the decoder, collecting the
  messages, and stops at the first error.
\<close>

locale buffered_decoder = frame_codec step good enc valid
  for step :: "bytes \<Rightarrow> ('m \<times> bytes) option" and good :: "bytes \<Rightarrow> bool"
    and enc :: "'m \<Rightarrow> bytes" and valid :: "'m \<Rightarrow> bool" +
  fixes feed :: "'d \<Rightarrow> bytes \<Rightarrow> cpp_error + 'm list \<times> 'd"
    and pending :: "'d \<Rightarrow> bytes"
    and inv :: "'d \<Rightarrow> bool"
  assumes feed_drains:
      "inv d \<Longrightarrow> safe (pending d @ data) \<Longrightarrow>
        \<exists>ms d'. feed d data = Inr (ms, d') \<and> inv d' \<and> drain (pending d @ data) = (ms, pending d')"
begin

fun feed_all :: "'d \<Rightarrow> bytes list \<Rightarrow> cpp_error + 'm list \<times> 'd" where
  "feed_all d [] = Inr ([], d)"
| "feed_all d (c # cs) = (case feed d c of
      Inl e \<Rightarrow> Inl e
    | Inr (ms, d') \<Rightarrow> (case feed_all d' cs of
          Inl e \<Rightarrow> Inl e
        | Inr (ms', d'') \<Rightarrow> Inr (ms @ ms', d'')))"

lemma feed_all_drains:
  assumes "inv d" and "step (pending d) = None" and "safe (pending d @ concat cs)"
  shows "\<exists>ms d'. feed_all d cs = Inr (ms, d') \<and> inv d' \<and> step (pending d') = None \<and>
           drain (pending d @ concat cs) = (ms, pending d')"
  using assms
proof (induction cs arbitrary: d)
  case Nil
  then show ?case by (simp add: drain_None)
next
  case (Cons c cs)
  have s: "safe ((pending d @ c) @ concat cs)" using Cons.prems(3) by simp
  then have "safe (pending d @ c)" by (rule safe_prefix)
  with Cons.prems(1) obtain ms1 d1 where 1: "feed d c = Inr (ms1, d1)" "inv d1"
    "drain (pending d @ c) = (ms1, pending d1)"
    using feed_drains by blast
  have "step (pending d1) = None" using 1(3) by (rule drain_rest)
  moreover have "safe (pending d1 @ concat cs)" using s 1(3) by (rule safe_drain)
  ultimately obtain ms2 d2 where 2: "feed_all d1 cs = Inr (ms2, d2)" "inv d2"
    "step (pending d2) = None" "drain (pending d1 @ concat cs) = (ms2, pending d2)"
    using Cons.IH 1(2) by blast
  have "drain ((pending d @ c) @ concat cs) = (ms1 @ ms2, pending d2)"
    using 1(3) 2(4) by (rule drain_append)
  then show ?case using 1(1) 2(1-3) by simp
qed

text \<open>How the stream is cut into reads does not matter.\<close>

lemma feed_all_cut_independent:
  assumes "inv d" and "step (pending d) = None" and "safe (pending d @ concat cs)"
    and "concat cs = concat cs'"
  shows "map_sum id (\<lambda>(ms, d'). (ms, pending d')) (feed_all d cs) =
         map_sum id (\<lambda>(ms, d'). (ms, pending d')) (feed_all d cs')"
proof -
  have s': "safe (pending d @ concat cs')" using assms(3,4) by simp
  show ?thesis
    using feed_all_drains [OF assms(1-3)] feed_all_drains [OF assms(1,2) s'] assms(4)
    by auto
qed

text \<open>Encoded messages come out again, whatever the reads.\<close>

lemma feed_all_roundtrip:
  assumes "inv d" and "pending d = []" and "list_all valid ms"
    and "concat cs = concat (map enc ms)"
  shows "\<exists>d'. feed_all d cs = Inr (ms, d') \<and> inv d' \<and> pending d' = []"
proof -
  have "safe (pending d @ concat cs)"
    using assms(2-4) by (simp add: safe_encoded)
  moreover have "step (pending d) = None" using assms(2) by (simp add: step_empty)
  ultimately show ?thesis
    using feed_all_drains [OF assms(1)] assms(2-4) by (fastforce simp: drain_encoded)
qed

end

end
