(* ===== verification/Codec.thy ===== *)
theory Codec
  imports Framing
begin

text \<open>
  \<^verbatim>\<open>src/codec/codec.cpp\<close>: the three stream codecs behind the \<^verbatim>\<open>Codec\<close> interface. The
  length-header and JSON codecs use a four-byte big-endian length, the Protobuf codec a
  varint. All arithmetic on the announced length is done at the width the code uses.
\<close>

section \<open>LengthHeaderCodec\<close>

record codec =
  c_buffer :: bytes
  c_head :: nat

definition codec_init :: codec where
  "codec_init = \<lparr>c_buffer = [], c_head = 0\<rparr>"

definition codec_reset :: "codec \<Rightarrow> codec" where
  "codec_reset c = c\<lparr>c_buffer := [], c_head := 0\<rparr>"

definition codec_compact_prefix :: "codec \<Rightarrow> codec" where
  "codec_compact_prefix c =
     (if c_head c = 0 then c
      else if 4096 \<le> c_head c \<and> length (c_buffer c) \<le> c_head c * 2
      then c\<lparr>c_buffer := drop (c_head c) (c_buffer c), c_head := 0\<rparr>
      else c)"

definition lh_encode :: "bytes \<Rightarrow> bytes" where
  "lh_encode message = put_be32 (of_nat (length message)) @ message"

text \<open>
  The decoding loop. \<^verbatim>\<open>4 + body_len\<close> is an addition of an \<^verbatim>\<open>int\<close> constant and a
  \<^verbatim>\<open>uint32_t\<close>, so it wraps at 32 bits; \<^verbatim>\<open>emplace_back(ptr, body_len)\<close> copies \<open>body_len\<close>
  bytes, which is a read out of bounds when the buffer is shorter. \<open>None\<close> is a loop that
  does not end: with a wrapped sum of 0 the read position stays where it is.
\<close>

partial_function (option) lh_decode_loop ::
    "bytes \<Rightarrow> nat \<Rightarrow> bytes list \<Rightarrow> (cpp_error + bytes list \<times> nat) option" where
  "lh_decode_loop buf head msgs =
     (let avail = length buf - head
      in if avail < 4 then Some (Inr (msgs, head))
         else let body_len = get_be32 buf head; need = 4 + body_len
              in if avail < unat need then Some (Inr (msgs, head))
                 else if length buf < head + 4 + unat body_len then Some (Inl OutOfBounds)
                 else lh_decode_loop buf (head + unat need)
                        (msgs @ [take (unat body_len) (drop (head + 4) buf)]))"

definition lh_decode :: "codec \<Rightarrow> bytes \<Rightarrow> (cpp_error + bytes list \<times> codec) option" where
  "lh_decode c data =
     (let buf = c_buffer c @ data
      in map_option (map_sum id (\<lambda>(msgs, head).
           (msgs, codec_compact_prefix (c\<lparr>c_buffer := buf, c_head := head\<rparr>))))
           (lh_decode_loop buf (c_head c) []))"

section \<open>JsonCodec\<close>

text \<open>The JSON codec is a second copy of the same code on its own class.\<close>

definition json_encode :: "bytes \<Rightarrow> bytes" where
  "json_encode message = put_be32 (of_nat (length message)) @ message"

partial_function (option) json_decode_loop ::
    "bytes \<Rightarrow> nat \<Rightarrow> bytes list \<Rightarrow> (cpp_error + bytes list \<times> nat) option" where
  "json_decode_loop buf head msgs =
     (let avail = length buf - head
      in if avail < 4 then Some (Inr (msgs, head))
         else let body_len = get_be32 buf head; need = 4 + body_len
              in if avail < unat need then Some (Inr (msgs, head))
                 else if length buf < head + 4 + unat body_len then Some (Inl OutOfBounds)
                 else json_decode_loop buf (head + unat need)
                        (msgs @ [take (unat body_len) (drop (head + 4) buf)]))"

definition json_decode :: "codec \<Rightarrow> bytes \<Rightarrow> (cpp_error + bytes list \<times> codec) option" where
  "json_decode c data =
     (let buf = c_buffer c @ data
      in map_option (map_sum id (\<lambda>(msgs, head).
           (msgs, codec_compact_prefix (c\<lparr>c_buffer := buf, c_head := head\<rparr>))))
           (json_decode_loop buf (c_head c) []))"

section \<open>ProtobufCodec\<close>

lemma unat_drop_bit_7: "unat (drop_bit 7 (v :: 32 word)) = unat v div 128"
  by (simp add: drop_bit_eq_div unat_div)

function append_varint32 :: "bytes \<Rightarrow> 32 word \<Rightarrow> bytes" where
  "append_varint32 out val =
     (if 0x80 \<le> val
      then append_varint32 (out @ [ucast ((val AND 0x7F) OR 0x80)]) (drop_bit 7 val)
      else out @ [ucast (val AND 0x7F)])"
  by pat_completeness auto
termination
proof (relation "measure (\<lambda>(out, val). unat val)")
  fix val :: "32 word" and out :: bytes
  assume "0x80 \<le> val"
  then have "128 \<le> unat val" by (simp add: word_le_nat_alt)
  then have "unat val div 128 < unat val" by simp
  then show "((out @ [ucast ((val AND 0x7F) OR 0x80)], drop_bit 7 val), (out, val))
      \<in> measure (\<lambda>(out, val). unat val)"
    by (simp add: unat_drop_bit_7)
qed simp

declare append_varint32.simps [simp del]

function parse_varint32_loop :: "bytes \<Rightarrow> nat \<Rightarrow> nat \<Rightarrow> 32 word \<Rightarrow> (32 word \<times> nat) option" where
  "parse_varint32_loop buf pos shift result =
     (if pos < length buf \<and> shift \<le> 28
      then let byte = buf ! pos;
               result' = result OR push_bit shift (ucast (byte AND 0x7F))
           in if byte AND 0x80 = 0 then Some (result', pos + 1)
              else parse_varint32_loop buf (pos + 1) (shift + 7) result'
      else None)"
  by pat_completeness auto
termination
  by (relation "measure (\<lambda>(buf, pos, shift, result). length buf - pos)") auto

declare parse_varint32_loop.simps [simp del]

definition parse_varint32 :: "bytes \<Rightarrow> nat \<Rightarrow> (32 word \<times> nat) option" where
  "parse_varint32 buf pos = parse_varint32_loop buf pos 0 0"

definition pb_encode :: "bytes \<Rightarrow> bytes" where
  "pb_encode message = append_varint32 [] (of_nat (length message)) @ message"

lemma parse_varint32_loop_pos:
  "parse_varint32_loop buf pos shift result = Some (n, p) \<Longrightarrow> pos < p \<and> p \<le> length buf"
proof (induction buf pos shift result rule: parse_varint32_loop.induct)
  case (1 buf pos shift result)
  show ?case
    using "1.prems" "1.IH" [OF _ refl refl]
    by (fastforce simp: parse_varint32_loop.simps [of buf pos] Let_def split: if_splits)
qed

lemma parse_varint32_pos: "parse_varint32 buf pos = Some (n, p) \<Longrightarrow> pos < p \<and> p \<le> length buf"
  by (simp add: parse_varint32_def parse_varint32_loop_pos)

function pb_decode_loop :: "bytes \<Rightarrow> nat \<Rightarrow> bytes list \<Rightarrow> bytes list \<times> nat" where
  "pb_decode_loop buf pos msgs =
     (if pos < length buf
      then (case parse_varint32 buf pos of
          None \<Rightarrow> (msgs, pos)
        | Some (len, pos') \<Rightarrow>
            if length buf - pos' < unat len then (msgs, pos)
            else pb_decode_loop buf (pos' + unat len)
                   (msgs @ [take (unat len) (drop pos' buf)]))
      else (msgs, pos))"
  by pat_completeness auto
termination
  by (relation "measure (\<lambda>(buf, pos, msgs). length buf - pos)")
    (auto dest!: parse_varint32_pos)

declare pb_decode_loop.simps [simp del]

definition pb_decode :: "codec \<Rightarrow> bytes \<Rightarrow> bytes list \<times> codec" where
  "pb_decode c data =
     (let buf = c_buffer c @ data;
          (result, pos) = pb_decode_loop buf (c_head c) []
      in (result, codec_compact_prefix (c\<lparr>c_buffer := buf, c_head := pos\<rparr>)))"

section \<open>The length-header format\<close>

text \<open>
  The intended format, with the length read as an unbounded number, and the headers for
  which the code's 32-bit sum does not wrap.
\<close>

definition lh_step :: "bytes \<Rightarrow> (bytes \<times> bytes) option" where
  "lh_step bs =
     (if length bs < 4 then None
      else let n = unat (get_be32 bs 0)
           in if length bs < 4 + n then None else Some (take n (drop 4 bs), drop (4 + n) bs))"

definition lh_good :: "bytes \<Rightarrow> bool" where
  "lh_good bs \<longleftrightarrow> (4 \<le> length bs \<longrightarrow> unat (get_be32 bs 0) < 4294967292)"

definition lh_valid :: "bytes \<Rightarrow> bool" where
  "lh_valid m \<longleftrightarrow> length m < 4294967292"

definition codec_inv :: "codec \<Rightarrow> bool" where
  "codec_inv c \<longleftrightarrow> c_head c \<le> length (c_buffer c)"

definition codec_pending :: "codec \<Rightarrow> bytes" where
  "codec_pending c = drop (c_head c) (c_buffer c)"

lemma codec_compact_prefix_keeps:
  "codec_inv c \<Longrightarrow> codec_inv (codec_compact_prefix c) \<and>
     codec_pending (codec_compact_prefix c) = codec_pending c"
  by (auto simp: codec_compact_prefix_def codec_inv_def codec_pending_def)

lemma codec_init_facts [simp]: "codec_inv codec_init" "codec_pending codec_init = []"
  by (simp_all add: codec_init_def codec_inv_def codec_pending_def)

lemma lh_step_SomeD:
  "lh_step bs = Some (m, r) \<Longrightarrow>
     4 + unat (get_be32 bs 0) \<le> length bs \<and> r = drop (4 + unat (get_be32 bs 0)) bs"
  by (auto simp: lh_step_def Let_def split: if_splits)

lemma lh_step_encode:
  assumes "length m < 4294967296"
  shows "lh_step (lh_encode m @ rest) = Some (m, rest)"
proof -
  have "get_be32 (lh_encode m @ rest) 0 = of_nat (length m)"
    using get_put_be32 [of "[]"] by (simp add: lh_encode_def)
  with assms show ?thesis
    by (simp add: lh_step_def unat_of_nat32) (simp add: lh_encode_def)
qed

interpretation lhf: frame_format lh_step lh_good
proof unfold_locales
  fix bs m r
  assume "lh_step bs = Some (m, r)"
  from lh_step_SomeD [OF this] show "length r < length bs" by auto
next
  fix bs m r ext
  assume a: "lh_step bs = Some (m, r)"
  with lh_step_SomeD [OF a] show "lh_step (bs @ ext) = Some (m, r @ ext)"
    by (auto simp: lh_step_def Let_def get_be32_append split: if_splits)
next
  fix bs ext
  assume "lh_good (bs @ ext)"
  then show "lh_good bs" by (auto simp: lh_good_def get_be32_append)
qed

lemma lh_good_encode: "lh_valid m \<Longrightarrow> lh_good (lh_encode m @ rest)"
proof -
  assume v: "lh_valid m"
  have "get_be32 (lh_encode m @ rest) 0 = of_nat (length m)"
    using get_put_be32 [of "[]"] by (simp add: lh_encode_def)
  with v show ?thesis by (simp add: lh_good_def lh_valid_def unat_of_nat32)
qed

interpretation lhf: frame_codec lh_step lh_good lh_encode lh_valid
  by unfold_locales
    (auto simp: lh_step_encode lh_valid_def lh_good_encode lh_step_def [of "[]"] lh_good_def [of "[]"])

lemma lh_loop_stop:
  "length buf - head < 4 \<or> length buf - head < unat (4 + get_be32 buf head) \<Longrightarrow>
     lh_decode_loop buf head msgs = Some (Inr (msgs, head))"
  by (subst lh_decode_loop.simps) (auto simp: Let_def)

lemma lh_loop_oob:
  "\<lbrakk>4 \<le> length buf - head; unat (4 + get_be32 buf head) \<le> length buf - head;
    length buf < head + 4 + unat (get_be32 buf head)\<rbrakk> \<Longrightarrow>
     lh_decode_loop buf head msgs = Some (Inl OutOfBounds)"
  by (subst lh_decode_loop.simps) (auto simp: Let_def)

lemma lh_loop_go:
  "\<lbrakk>4 \<le> length buf - head; unat (4 + get_be32 buf head) \<le> length buf - head;
    head + 4 + unat (get_be32 buf head) \<le> length buf\<rbrakk> \<Longrightarrow>
     lh_decode_loop buf head msgs = lh_decode_loop buf (head + unat (4 + get_be32 buf head))
       (msgs @ [take (unat (get_be32 buf head)) (drop (head + 4) buf)])"
  by (subst lh_decode_loop.simps) (auto simp: Let_def)

lemma unat_4_plus: "unat w < 4294967292 \<Longrightarrow> unat (4 + w :: 32 word) = 4 + unat w"
  by (subst unat_add_lem [THEN iffD1]) auto

lemma lh_loop_drain:
  assumes "head \<le> length buf" and "lhf.safe (drop head buf)"
  shows "\<exists>ms head'. lh_decode_loop buf head msgs = Some (Inr (msgs @ ms, head')) \<and>
    head' \<le> length buf \<and> lhf.drain (drop head buf) = (ms, drop head' buf)"
  using assms
proof (induction "length buf - head" arbitrary: head msgs rule: less_induct)
  case less
  let ?n = "unat (get_be32 buf head)"
  have good: "lh_good (drop head buf)" using less.prems(2) by (rule lhf.safe_good)
  show ?case
  proof (cases "length buf - head < 4 + ?n")
    case True
    have "lh_step (drop head buf) = None"
      using True by (auto simp: lh_step_def Let_def get_be32_drop)
    moreover have "length buf - head < 4 \<or> length buf - head < unat (4 + get_be32 buf head)"
      using True good by (auto simp: lh_good_def get_be32_drop unat_4_plus)
    ultimately show ?thesis using less.prems by (simp add: lh_loop_stop lhf.drain_None)
  next
    case False
    then have h: "head + (4 + ?n) \<le> length buf" by linarith
    have g: "get_be32 (drop head buf) 0 = get_be32 buf head"
      using h by (simp add: get_be32_drop)
    have n: "unat (4 + get_be32 buf head) = 4 + ?n"
      using good h by (simp add: lh_good_def g unat_4_plus)
    let ?m = "take ?n (drop (head + 4) buf)"
    have step: "lh_step (drop head buf) = Some (?m, drop (head + (4 + ?n)) buf)"
      using h by (simp add: lh_step_def Let_def g ac_simps)
    have "lhf.safe (drop (head + (4 + ?n)) buf)" using less.prems(2) step by (rule lhf.safe_step)
    moreover have "length buf - (head + (4 + ?n)) < length buf - head" using h by linarith
    ultimately obtain ms head' where
      "lh_decode_loop buf (head + (4 + ?n)) (msgs @ [?m]) = Some (Inr ((msgs @ [?m]) @ ms, head'))"
      "head' \<le> length buf" "lhf.drain (drop (head + (4 + ?n)) buf) = (ms, drop head' buf)"
      using less.hyps h by blast
    moreover from this have "lhf.drain (drop head buf) = (?m # ms, drop head' buf)"
      using lhf.drain_Some [OF step] by blast
    moreover have "lh_decode_loop buf head msgs =
        lh_decode_loop buf (head + (4 + ?n)) (msgs @ [?m])"
      using h by (subst lh_loop_go) (auto simp: n)
    ultimately show ?thesis by simp
  qed
qed

definition run_or :: "(cpp_error + 'a) option \<Rightarrow> cpp_error + 'a" where
  "run_or r = (case r of None \<Rightarrow> Inl NonTermination | Some x \<Rightarrow> x)"

lemma lh_decode_drain:
  assumes "codec_inv c" and "lhf.safe (codec_pending c @ data)"
  shows "\<exists>ms c'. lh_decode c data = Some (Inr (ms, c')) \<and> codec_inv c' \<and>
    lhf.drain (codec_pending c @ data) = (ms, codec_pending c')"
proof -
  let ?buf = "c_buffer c @ data"
  have d: "codec_pending c @ data = drop (c_head c) ?buf"
    using assms(1) by (simp add: codec_inv_def codec_pending_def)
  have "c_head c \<le> length ?buf" using assms(1) by (simp add: codec_inv_def)
  moreover have "lhf.safe (drop (c_head c) ?buf)" using assms(2) d by simp
  ultimately obtain ms head where
    l: "lh_decode_loop ?buf (c_head c) [] = Some (Inr ([] @ ms, head))" "head \<le> length ?buf"
      "lhf.drain (drop (c_head c) ?buf) = (ms, drop head ?buf)"
    using lh_loop_drain by blast
  let ?c = "c\<lparr>c_buffer := ?buf, c_head := head\<rparr>"
  have "codec_inv ?c" "codec_pending ?c = drop head ?buf"
    using l(2) by (simp_all add: codec_inv_def codec_pending_def)
  with l d show ?thesis
    using codec_compact_prefix_keeps [of ?c] by (simp add: lh_decode_def)
qed

interpretation lh: buffered_decoder lh_step lh_good lh_encode lh_valid
  "\<lambda>c data. run_or (lh_decode c data)" codec_pending codec_inv
proof unfold_locales
  fix d data
  assume "codec_inv d" "lhf.safe (codec_pending d @ data)"
  from lh_decode_drain [OF this]
  show "\<exists>ms d'. run_or (lh_decode d data) = Inr (ms, d') \<and> codec_inv d' \<and>
      lhf.drain (codec_pending d @ data) = (ms, codec_pending d')"
    by (auto simp: run_or_def)
qed

text \<open>The JSON codec runs the same loop, hence satisfies the same contract.\<close>

lemma json_loop_le:
  assumes "json_decode_loop buf head msgs = Some r"
  shows "lh_decode_loop buf head msgs = Some r"
proof (rule json_decode_loop.raw_induct [OF _ assms])
  fix f buf head msgs r
  assume "\<And>buf head msgs y. f buf head msgs = Some y \<Longrightarrow> lh_decode_loop buf head msgs = Some y"
    "(let avail = length buf - head
      in if avail < 4 then Some (Inr (msgs, head))
         else let body_len = get_be32 buf head; need = 4 + body_len
              in if avail < unat need then Some (Inr (msgs, head))
                 else if length buf < head + 4 + unat body_len then Some (Inl OutOfBounds)
                 else f buf (head + unat need)
                        (msgs @ [take (unat body_len) (drop (head + 4) buf)])) = Some r"
  then show "lh_decode_loop buf head msgs = Some r"
    by (subst lh_decode_loop.simps) (auto simp: Let_def split: if_splits)
qed

lemma lh_loop_le:
  assumes "lh_decode_loop buf head msgs = Some r"
  shows "json_decode_loop buf head msgs = Some r"
proof (rule lh_decode_loop.raw_induct [OF _ assms])
  fix f buf head msgs r
  assume "\<And>buf head msgs y. f buf head msgs = Some y \<Longrightarrow> json_decode_loop buf head msgs = Some y"
    "(let avail = length buf - head
      in if avail < 4 then Some (Inr (msgs, head))
         else let body_len = get_be32 buf head; need = 4 + body_len
              in if avail < unat need then Some (Inr (msgs, head))
                 else if length buf < head + 4 + unat body_len then Some (Inl OutOfBounds)
                 else f buf (head + unat need)
                        (msgs @ [take (unat body_len) (drop (head + 4) buf)])) = Some r"
  then show "json_decode_loop buf head msgs = Some r"
    by (subst json_decode_loop.simps) (auto simp: Let_def split: if_splits)
qed

lemma json_decode_loop_eq: "json_decode_loop buf head msgs = lh_decode_loop buf head msgs"
  by (metis json_loop_le lh_loop_le option.exhaust)

lemma json_decode_eq: "json_decode = lh_decode"
  by (simp add: fun_eq_iff json_decode_def lh_decode_def json_decode_loop_eq)

lemma json_encode_eq: "json_encode = lh_encode"
  by (simp add: fun_eq_iff json_encode_def lh_encode_def)

interpretation json: buffered_decoder lh_step lh_good json_encode lh_valid
  "\<lambda>c data. run_or (json_decode c data)" codec_pending codec_inv
  unfolding json_encode_eq json_decode_eq by unfold_locales

section \<open>Varints\<close>

lemma append_varint32_last:
  "\<not> 0x80 \<le> val \<Longrightarrow> append_varint32 out val = out @ [ucast (val AND 0x7F)]"
  by (subst append_varint32.simps) simp

lemma append_varint32_more:
  "0x80 \<le> val \<Longrightarrow> append_varint32 out val =
     append_varint32 (out @ [ucast ((val AND 0x7F) OR 0x80)]) (drop_bit 7 val)"
  by (subst append_varint32.simps) simp

lemma append_varint32_out: "append_varint32 (out @ out') val = out @ append_varint32 out' val"
proof (induction out' val rule: append_varint32.induct)
  case (1 out' val)
  show ?case
  proof (cases "0x80 \<le> val")
    case True
    then show ?thesis using 1 [OF True] by (simp only: append_varint32_more append_assoc)
  next
    case False
    then show ?thesis by (simp add: append_varint32_last)
  qed
qed

lemma append_varint32_Cons:
  "0x80 \<le> val \<Longrightarrow> append_varint32 [] val =
     ucast ((val AND 0x7F) OR 0x80) # append_varint32 [] (drop_bit 7 val)"
  using append_varint32_out [of "[ucast ((val AND 0x7F) OR 0x80)]" "[]"]
  by (simp only: append_varint32_more append.simps append_Nil2)

lemma parse_last:
  "\<lbrakk>pos < length buf; shift \<le> 28; buf ! pos AND 0x80 = 0\<rbrakk> \<Longrightarrow>
     parse_varint32_loop buf pos shift result =
       Some (result OR push_bit shift (ucast (buf ! pos AND 0x7F)), pos + 1)"
  by (subst parse_varint32_loop.simps) (simp add: Let_def)

lemma parse_more:
  "\<lbrakk>pos < length buf; shift \<le> 28; buf ! pos AND 0x80 \<noteq> 0\<rbrakk> \<Longrightarrow>
     parse_varint32_loop buf pos shift result =
       parse_varint32_loop buf (pos + 1) (shift + 7)
         (result OR push_bit shift (ucast (buf ! pos AND 0x7F)))"
  by (subst parse_varint32_loop.simps) (simp add: Let_def)

lemma parse_stop:
  "length buf \<le> pos \<or> 28 < shift \<Longrightarrow> parse_varint32_loop buf pos shift result = None"
  by (subst parse_varint32_loop.simps) auto

text \<open>The two masks, bit by bit.\<close>

lemma x7F_mask: "(0x7F :: 32 word) = mask 7" "(0x7F :: byte) = mask 7" "(0x7F :: int) = mask 7"
  by (simp_all add: mask_eq_exp_minus_1)

lemma bit_x7F: "bit (0x7F :: int) n \<longleftrightarrow> n < 7"
  unfolding x7F_mask by (auto simp only: bit_mask_iff possible_bit_int)

lemma bit_x80: "bit (0x80 :: int) n \<longleftrightarrow> n = 7"
proof -
  have "(0x80 :: int) = 2 ^ 7" by simp
  then show ?thesis by (auto simp only: bit_exp_iff possible_bit_int)
qed

lemma varint_byte_more: "(ucast ((v AND 0x7F) OR 0x80 :: 32 word) :: byte) AND 0x80 \<noteq> 0"
proof -
  have "bit ((ucast ((v AND 0x7F) OR 0x80 :: 32 word) :: byte) AND 0x80) 7"
    by (simp add: bit_simps bit_x80)
  then show ?thesis by (metis bit_0_eq bot_apply bot_bool_def)
qed

lemma varint_byte_last: "(ucast (v AND 0x7F :: 32 word) :: byte) AND 0x80 = 0"
  by (rule bit_word_eqI) (auto simp: bit_simps bit_x7F bit_x80)

lemma varint_low:
  "(ucast ((ucast ((v AND 0x7F) OR 0x80 :: 32 word) :: byte) AND 0x7F) :: 32 word) = v AND 0x7F"
  by (rule bit_word_eqI) (auto simp: bit_simps bit_x7F bit_x80)

lemma varint_low_last:
  "(ucast ((ucast (v AND 0x7F :: 32 word) :: byte) AND 0x7F) :: 32 word) = v AND 0x7F"
  by (rule bit_word_eqI) (auto simp: bit_simps bit_x7F bit_x80)

lemma varint_glue:
  "push_bit s (v AND 0x7F) OR push_bit (s + 7) (drop_bit 7 v) = push_bit s (v :: 32 word)"
proof (rule bit_word_eqI)
  fix n
  assume "n < LENGTH(32)"
  then show "bit (push_bit s (v AND 0x7F) OR push_bit (s + 7) (drop_bit 7 v)) n =
      bit (push_bit s v) n"
  proof (cases "s + 7 \<le> n")
    case True
    then have "7 + (n - (s + 7)) = n - s" by linarith
    with True show ?thesis by (auto simp: bit_simps bit_x7F)
  next
    case False
    then show ?thesis by (auto simp: bit_simps bit_x7F)
  qed
qed

lemma varint_small: "\<not> 0x80 \<le> v \<Longrightarrow> v AND 0x7F = (v :: 32 word)"
proof -
  assume "\<not> 0x80 \<le> v"
  then have "v < 2 ^ 7" by (simp add: not_le)
  then show ?thesis unfolding x7F_mask by (rule less_mask_eq)
qed

text \<open>
  Parsing an encoded varint at shift \<open>s\<close> adds the value shifted by \<open>s\<close>; the shifts are
  0, 7, 14, 21, 28, and at 28 at most four bits are left, so five bytes are enough.
\<close>

lemma varint_parse:
  assumes "unat v < 2 ^ (32 - s)" and "s \<le> 28" and "7 dvd s"
  shows "parse_varint32_loop (pre @ append_varint32 [] v @ rest) (length pre) s result =
    Some (result OR push_bit s v, length pre + length (append_varint32 [] v))"
  using assms
proof (induction "unat v" arbitrary: v s pre result rule: less_induct)
  case less
  show ?case
  proof (cases "0x80 \<le> v")
    case True
    let ?b = "ucast ((v AND 0x7F) OR 0x80) :: byte" and ?w = "drop_bit 7 v"
    have v: "128 \<le> unat v" using True by (simp add: word_le_nat_alt)
    have s: "s \<le> 21"
    proof (rule ccontr)
      assume "\<not> s \<le> 21"
      with less.prems(2,3) have "s = 28" by (auto elim!: dvdE)
      with less.prems(1) v show False by simp
    qed
    have "unat ?w < unat v" using v by (simp add: unat_drop_bit_7)
    moreover have "unat ?w < 2 ^ (32 - (s + 7))"
    proof -
      have "(2 :: nat) ^ (32 - s) = 2 ^ (32 - (s + 7)) * 128"
        using s power_add [of "2 :: nat" "32 - (s + 7)" 7] by simp
      with less.prems(1) show ?thesis
        by (simp add: unat_drop_bit_7 less_mult_imp_div_less)
    qed
    moreover have "s + 7 \<le> 28" "7 dvd s + 7" using s less.prems(3) by auto
    ultimately have "parse_varint32_loop ((pre @ [?b]) @ append_varint32 [] ?w @ rest)
        (length (pre @ [?b])) (s + 7) (result OR push_bit s (v AND 0x7F)) =
      Some ((result OR push_bit s (v AND 0x7F)) OR push_bit (s + 7) ?w,
        length (pre @ [?b]) + length (append_varint32 [] ?w))"
      by (rule less.hyps)
    then show ?thesis
      using less.prems(2) varint_glue [of s v]
      by (simp add: append_varint32_Cons [OF True] parse_more varint_byte_more varint_low or.assoc)
  next
    case False
    then show ?thesis
      using less.prems(2) varint_byte_last [of v] varint_low_last [of v]
      by (simp add: append_varint32_last parse_last varint_small)
  qed
qed

lemma parse_varint32_append_varint32:
  "parse_varint32 (pre @ append_varint32 [] v @ rest) (length pre) =
     Some (v, length pre + length (append_varint32 [] v))"
  unfolding parse_varint32_def
  using varint_parse [of v 0 pre rest 0] unat_32_lt [of v] by simp

lemma parse_loop_append:
  "parse_varint32_loop buf pos shift result = Some r \<Longrightarrow>
     parse_varint32_loop (buf @ ext) pos shift result = Some r"
proof (induction buf pos shift result rule: parse_varint32_loop.induct)
  case (1 buf pos shift result)
  show ?case
  proof (cases "pos < length buf \<and> shift \<le> 28")
    case True
    then show ?thesis
      using 1 by (cases "buf ! pos AND 0x80 = 0")
        (simp_all add: parse_last parse_more nth_append)
  next
    case False
    with 1 show ?thesis by (auto simp: parse_stop)
  qed
qed

lemma parse_loop_drop:
  assumes "h \<le> length buf"
  shows "parse_varint32_loop buf (h + pos) shift result =
     map_option (map_prod id ((+) h)) (parse_varint32_loop (drop h buf) pos shift result)"
proof (induction "drop h buf" pos shift result rule: parse_varint32_loop.induct)
  case (1 pos shift result)
  show ?case
  proof (cases "pos < length (drop h buf) \<and> shift \<le> 28")
    case True
    have n: "drop h buf ! pos = buf ! (h + pos)" using assms by simp
    have IH: "buf ! (h + pos) AND 0x80 \<noteq> 0 \<Longrightarrow>
        parse_varint32_loop buf (Suc (h + pos)) (shift + 7)
          (result OR push_bit shift (ucast (buf ! (h + pos) AND 0x7F))) =
        map_option (map_prod id ((+) h)) (parse_varint32_loop (drop h buf) (Suc pos) (shift + 7)
          (result OR push_bit shift (ucast (buf ! (h + pos) AND 0x7F))))"
      using "1" [OF True refl refl] by (simp add: n)
    have p: "h + pos < length buf" using True by auto
    show ?thesis
      using True IH p by (cases "buf ! (h + pos) AND 0x80 = 0")
        (simp_all add: parse_last parse_more n)
  next
    case False
    then have "length buf \<le> h + pos \<or> 28 < shift" by auto
    moreover from False have "length (drop h buf) \<le> pos \<or> 28 < shift" by auto
    ultimately show ?thesis by (simp only: parse_stop option.map)
  qed
qed

section \<open>The Protobuf format\<close>

definition pb_step :: "bytes \<Rightarrow> (bytes \<times> bytes) option" where
  "pb_step bs =
     (case parse_varint32 bs 0 of
        None \<Rightarrow> None
      | Some (len, p) \<Rightarrow>
          if length bs - p < unat len then None
          else Some (take (unat len) (drop p bs), drop (p + unat len) bs))"

definition pb_valid :: "bytes \<Rightarrow> bool" where
  "pb_valid m \<longleftrightarrow> length m < 4294967296"

lemma pb_step_encode: "pb_valid m \<Longrightarrow> pb_step (pb_encode m @ rest) = Some (m, rest)"
  using parse_varint32_append_varint32 [of "[]" "of_nat (length m)" "m @ rest"]
  by (simp add: pb_step_def pb_encode_def pb_valid_def unat_of_nat32)

interpretation pbf: frame_format pb_step "\<lambda>_. True"
proof unfold_locales
  fix bs m r
  assume "pb_step bs = Some (m, r)"
  then show "length r < length bs"
    by (auto simp: pb_step_def split: option.splits if_splits dest!: parse_varint32_pos)
next
  fix bs m r ext
  assume "pb_step bs = Some (m, r)"
  then obtain len p where p: "parse_varint32 bs 0 = Some (len, p)"
    "\<not> length bs - p < unat len" "m = take (unat len) (drop p bs)" "r = drop (p + unat len) bs"
    by (auto simp: pb_step_def split: option.splits if_splits)
  moreover have "p \<le> length bs" using parse_varint32_pos [OF p(1)] by simp
  moreover have "parse_varint32 (bs @ ext) 0 = Some (len, p)"
    using p(1) by (simp add: parse_varint32_def parse_loop_append)
  ultimately show "pb_step (bs @ ext) = Some (m, r @ ext)"
    by (auto simp: pb_step_def)
qed simp

interpretation pbf: frame_codec pb_step "\<lambda>_. True" pb_encode pb_valid
  by unfold_locales
    (auto simp: pb_step_encode pb_step_def [of "[]"] parse_varint32_def parse_stop)

lemma parse_varint32_drop:
  "h \<le> length buf \<Longrightarrow> parse_varint32 buf h =
     map_option (map_prod id ((+) h)) (parse_varint32 (drop h buf) 0)"
  using parse_loop_drop [of h buf 0] by (simp add: parse_varint32_def)

lemma pb_loop_stop:
  "pos \<le> length buf \<Longrightarrow> pb_step (drop pos buf) = None \<Longrightarrow> pb_decode_loop buf pos msgs = (msgs, pos)"
  by (subst pb_decode_loop.simps)
    (auto simp: pb_step_def parse_varint32_drop [of pos buf] split: option.splits if_splits)

lemma pb_loop_go:
  assumes "pos \<le> length buf" and "pb_step (drop pos buf) = Some (m, r)"
  shows "\<exists>pos'. pb_decode_loop buf pos msgs = pb_decode_loop buf pos' (msgs @ [m]) \<and>
    r = drop pos' buf \<and> pos < pos' \<and> pos' \<le> length buf"
proof -
  obtain len p where p: "parse_varint32 (drop pos buf) 0 = Some (len, p)"
    "unat len \<le> length buf - (pos + p)" "m = take (unat len) (drop (pos + p) buf)"
    "r = drop (pos + (p + unat len)) buf"
    using assms(2) by (auto simp: pb_step_def ac_simps split: option.splits if_splits)
  have "0 < p" "p \<le> length buf - pos" using parse_varint32_pos [OF p(1)] by simp_all
  moreover from this have "pos < length buf" by linarith
  moreover have "pb_decode_loop buf pos msgs =
      pb_decode_loop buf (pos + (p + unat len)) (msgs @ [m])"
    using calculation p(2,3)
    by (subst pb_decode_loop.simps) (simp add: parse_varint32_drop [OF assms(1)] p(1) ac_simps)
  ultimately show ?thesis
    using p(2,4) by (intro exI [of _ "pos + (p + unat len)"]) auto
qed

lemma pb_loop_drain:
  "pos \<le> length buf \<Longrightarrow> \<exists>ms pos'. pb_decode_loop buf pos msgs = (msgs @ ms, pos') \<and>
     pos' \<le> length buf \<and> pbf.drain (drop pos buf) = (ms, drop pos' buf)"
proof (induction "length buf - pos" arbitrary: pos msgs rule: less_induct)
  case less
  show ?case
  proof (cases "pb_step (drop pos buf)")
    case None
    with less.prems show ?thesis by (simp add: pb_loop_stop pbf.drain_None)
  next
    case (Some mr)
    then obtain m r where mr: "pb_step (drop pos buf) = Some (m, r)" by (cases mr) auto
    from pb_loop_go [OF less.prems mr, of msgs] obtain pos' where g:
      "pb_decode_loop buf pos msgs = pb_decode_loop buf pos' (msgs @ [m])"
      "r = drop pos' buf" "pos < pos'" "pos' \<le> length buf"
      by blast
    then have "length buf - pos' < length buf - pos" by linarith
    from less.hyps [OF this g(4), of "msgs @ [m]"] g(1,2) show ?thesis
      using pbf.drain_Some [OF mr] by fastforce
  qed
qed

lemma pb_decode_drain:
  assumes "codec_inv c"
  shows "\<exists>ms c'. pb_decode c data = (ms, c') \<and> codec_inv c' \<and>
    pbf.drain (codec_pending c @ data) = (ms, codec_pending c')"
proof -
  let ?buf = "c_buffer c @ data"
  have "c_head c \<le> length ?buf" using assms by (simp add: codec_inv_def)
  from pb_loop_drain [OF this] obtain ms head where
    l: "pb_decode_loop ?buf (c_head c) [] = ([] @ ms, head)" "head \<le> length ?buf"
      "pbf.drain (drop (c_head c) ?buf) = (ms, drop head ?buf)"
    by blast
  let ?c = "c\<lparr>c_buffer := ?buf, c_head := head\<rparr>"
  have "codec_inv ?c" "codec_pending ?c = drop head ?buf"
    using l(2) by (simp_all add: codec_inv_def codec_pending_def)
  with l assms show ?thesis
    using codec_compact_prefix_keeps [of ?c]
    by (simp add: pb_decode_def codec_pending_def codec_inv_def)
qed

interpretation pb: buffered_decoder pb_step "\<lambda>_. True" pb_encode pb_valid
  "\<lambda>c data. Inr (pb_decode c data)" codec_pending codec_inv
proof unfold_locales
  fix d data
  assume "codec_inv d"
  then show "\<exists>ms d'. Inr (pb_decode d data) = Inr (ms, d') \<and> codec_inv d' \<and>
      pbf.drain (codec_pending d @ data) = (ms, codec_pending d')"
    using pb_decode_drain by simp
qed

section \<open>Sequences of reads\<close>

text \<open>A connection hands its reads to \<^verbatim>\<open>decode\<close> one after the other.\<close>

fun decode_reads ::
    "(codec \<Rightarrow> bytes \<Rightarrow> cpp_error + bytes list \<times> codec) \<Rightarrow> codec \<Rightarrow> bytes list \<Rightarrow>
     cpp_error + bytes list \<times> codec" where
  "decode_reads dec c [] = Inr ([], c)"
| "decode_reads dec c (r # rs) = (case dec c r of
      Inl e \<Rightarrow> Inl e
    | Inr (ms, c') \<Rightarrow> (case decode_reads dec c' rs of
          Inl e \<Rightarrow> Inl e
        | Inr (ms', c'') \<Rightarrow> Inr (ms @ ms', c'')))"

definition lh_reads :: "codec \<Rightarrow> bytes list \<Rightarrow> cpp_error + bytes list \<times> codec" where
  "lh_reads = decode_reads (\<lambda>c data. run_or (lh_decode c data))"

definition json_reads :: "codec \<Rightarrow> bytes list \<Rightarrow> cpp_error + bytes list \<times> codec" where
  "json_reads = decode_reads (\<lambda>c data. run_or (json_decode c data))"

definition pb_reads :: "codec \<Rightarrow> bytes list \<Rightarrow> cpp_error + bytes list \<times> codec" where
  "pb_reads = decode_reads (\<lambda>c data. Inr (pb_decode c data))"

lemma lh_feed_all: "lh.feed_all c rs = lh_reads c rs"
  by (induction rs arbitrary: c) (auto simp: lh_reads_def split: sum.splits)

lemma json_feed_all: "json.feed_all c rs = json_reads c rs"
  by (induction rs arbitrary: c) (auto simp: json_reads_def split: sum.splits)

lemma pb_feed_all: "pb.feed_all c rs = pb_reads c rs"
  by (induction rs arbitrary: c) (auto simp: pb_reads_def split: sum.splits)

text \<open>Five bytes with the continuation bit set are no varint, whatever follows.\<close>

definition overlong :: "bytes \<Rightarrow> bool" where
  "overlong bs \<longleftrightarrow> 5 \<le> length bs \<and> list_all (\<lambda>b. b AND 0x80 \<noteq> 0) (take 5 bs)"

lemma overlong_append: "overlong bs \<Longrightarrow> overlong (bs @ ext)"
  by (simp add: overlong_def)

lemma parse_overlong:
  assumes "overlong bs"
  shows "parse_varint32 bs 0 = None"
proof -
  have l: "5 \<le> length bs" and "\<forall>i<5. bs ! i AND 0x80 \<noteq> 0"
    using assms by (auto simp: overlong_def list_all_length)
  then have b: "bs ! 0 AND 0x80 \<noteq> 0" "bs ! 1 AND 0x80 \<noteq> 0" "bs ! 2 AND 0x80 \<noteq> 0"
    "bs ! 3 AND 0x80 \<noteq> 0" "bs ! 4 AND 0x80 \<noteq> 0"
    by simp_all
  have "parse_varint32_loop bs 4 28 r = None" for r
    using l b by (simp add: parse_more parse_stop)
  then have "parse_varint32_loop bs 2 14 r = None" for r
    using l b by (simp add: parse_more)
  then have "parse_varint32_loop bs 1 7 r = None" for r
    using l b by (subst parse_more) (simp_all add: numeral_2_eq_2)
  then show ?thesis
    unfolding parse_varint32_def using l b by (subst parse_more) auto
qed

section \<open>Properties\<close>

text \<open>
  Length-header and JSON codec: the encodings of any messages shorter than 2^32 - 4
  bytes, cut into reads in any way, are decoded to exactly those messages in order, with no
  error and nothing left over.
\<close>

lemma length_codecs_roundtrip:
  assumes "list_all lh_valid ms"
    and "concat rs = concat (map lh_encode ms)" and "concat rs' = concat (map json_encode ms)"
  shows "\<exists>c c'. lh_reads codec_init rs = Inr (ms, c) \<and> codec_pending c = [] \<and>
           json_reads codec_init rs' = Inr (ms, c') \<and> codec_pending c' = []"
  using lh.feed_all_roundtrip [OF codec_init_facts assms(1,2)]
    json.feed_all_roundtrip [OF codec_init_facts assms(1,3)]
  by (auto simp: lh_feed_all json_feed_all)

text \<open>
  C2. Protobuf codec: the encodings of any messages shorter than 2^32 bytes, cut into reads
  in any way, are decoded to exactly those messages; the five-byte bound of the varint
  parser never rejects an encoded length.
\<close>

theorem protobuf_roundtrip:
  assumes "list_all pb_valid ms" and "concat rs = concat (map pb_encode ms)"
  shows "\<exists>c. pb_reads codec_init rs = Inr (ms, c) \<and> codec_pending c = []"
  using pb.feed_all_roundtrip [OF codec_init_facts assms] by (auto simp: pb_feed_all)

theorem protobuf_roundtrip_witness:
  "\<exists>c. pb_reads codec_init [[2, 65], [66, 0], []] = Inr ([[65, 66], []], c) \<and> codec_pending c = []"
  using protobuf_roundtrip [of "[[65, 66], []]" "[[2, 65], [66, 0], []]"]
  by (simp add: pb_valid_def pb_encode_def append_varint32_last)

text \<open>
  A length field of 2^32 - 4 or more breaks the length-header and JSON decoders: the sum
  \<^verbatim>\<open>4 + body_len\<close> wraps to at most 3, the completeness test passes on the four header
  bytes alone, and the message is built from memory past the buffer.
\<close>

lemma length_codecs_overread:
  assumes "0xFFFFFFFC \<le> len" and "length rest < 0xFFFFFFFC"
  shows "lh_decode codec_init (put_be32 len @ rest) = Some (Inl OutOfBounds) \<and>
         json_decode codec_init (put_be32 len @ rest) = Some (Inl OutOfBounds)"
proof -
  let ?buf = "put_be32 len @ rest"
  have g: "get_be32 ?buf 0 = len" using get_put_be32 [of "[]"] by simp
  have len: "4294967292 \<le> unat len" using assms(1) by (simp add: word_le_nat_alt)
  then have "unat (4 + len) = unat len - 4294967292"
    using unat_32_lt [of len] by (simp add: unat_word_ariths mod_if)
  then have "lh_decode_loop ?buf 0 [] = Some (Inl OutOfBounds)"
    using len assms(2) unat_32_lt [of len] by (subst lh_loop_oob) (simp_all add: g)
  then show ?thesis by (simp add: json_decode_eq) (simp add: lh_decode_def codec_init_def)
qed

text \<open>
  A malformed length (five bytes with the continuation bit) wedges the Protobuf decoder
  for good: no later read ever delivers a message, and every byte received stays buffered.
\<close>

lemma protobuf_stuck:
  assumes "codec_inv c" and "overlong (codec_pending c)"
  shows "\<exists>c'. pb_reads c rs = Inr ([], c') \<and> codec_pending c' = codec_pending c @ concat rs"
proof -
  have none: "pb_step (codec_pending c @ ext) = None" for ext
    using parse_overlong [OF overlong_append [OF assms(2)]] by (simp add: pb_step_def)
  have "pbf.safe bs" for bs
    by (induction bs rule: pbf.frame_induct) (auto intro: pbf.safe_None pbf.safe_Some)
  from pb.feed_all_drains [OF assms(1) _ this, of rs] show ?thesis
    using none [of "[]"] none [of "concat rs"] by (auto simp: pbf.drain_None pb_feed_all)
qed

end
