(* ===== verification/RateLimiter.thy ===== *)
theory RateLimiter
  imports Complex_Main Chwell_Prelude
begin

text \<open>
  \<^verbatim>\<open>src/ratelimit/rate_limiter.cpp\<close>: the token bucket, leaky bucket and fixed window
  limiters behind the \<^verbatim>\<open>RateLimiter\<close> interface.

  Every locked member function is one step on the limiter's state. The readings of
  \<^verbatim>\<open>current_timestamp_ms()\<close> inside one call are an argument: \<open>clk i\<close> is the value returned
  at the \<open>i\<close>-th place of the function that reads the clock. Floating point: \<open>rnd\<close> is the
  rounding of the \<^verbatim>\<open>double\<close> arithmetic, applied after every operation of the source; the
  theorems assume the usual error bound with unit roundoff \<open>u\<close> (exact arithmetic is
  \<open>u = 0\<close>, \<open>rnd = id\<close>).
\<close>

section \<open>Floating point\<close>

definition fp_rounding :: "real \<Rightarrow> (real \<Rightarrow> real) \<Rightarrow> bool" where
  "fp_rounding u rnd \<longleftrightarrow> 0 \<le> u \<and> (\<forall>x\<ge>0. 0 \<le> rnd x \<and> rnd x \<le> (1 + u) * x)"

text \<open>\<^verbatim>\<open>static_cast<int64_t>\<close> of a \<^verbatim>\<open>double\<close> truncates towards zero.\<close>

definition trunc_to_int :: "real \<Rightarrow> int" where
  "trunc_to_int x = (if 0 \<le> x then \<lfloor>x\<rfloor> else \<lceil>x\<rceil>)"

definition tokens_for :: "(real \<Rightarrow> real) \<Rightarrow> real \<Rightarrow> int \<Rightarrow> int" where
  "tokens_for rnd rate elapsed_ms =
     trunc_to_int (rnd (rnd (rnd (of_int elapsed_ms) / 1000) * rate))"

section \<open>TokenBucketRateLimiter\<close>

type_synonym clock = "nat \<Rightarrow> int"

record rate_limit_result =
  allowed :: bool
  remaining :: int
  wait_time_ms :: int
  reason :: string

definition default_result :: rate_limit_result where
  "default_result = \<lparr>allowed = True, remaining = 0, wait_time_ms = 0, reason = ''''\<rparr>"

record bucket =
  tokens :: int
  last_refill_time_ms :: int

record token_bucket =
  tb_capacity :: int
  refill_rate_per_second :: real
  buckets :: "string \<rightharpoonup> bucket"

definition tb_init :: "int \<Rightarrow> real \<Rightarrow> token_bucket" where
  "tb_init capacity rate =
     \<lparr>tb_capacity = capacity, refill_rate_per_second = rate, buckets = Map.empty\<rparr>"

definition refill_tokens :: "(real \<Rightarrow> real) \<Rightarrow> token_bucket \<Rightarrow> int \<Rightarrow> bucket \<Rightarrow> bucket" where
  "refill_tokens rnd l now b =
     (let elapsed_ms = now - last_refill_time_ms b
      in if 0 < elapsed_ms
         then b\<lparr>tokens := min (tb_capacity l)
                  (tokens b + tokens_for rnd (refill_rate_per_second l) elapsed_ms),
                last_refill_time_ms := now\<rparr>
         else b)"

definition tb_consume ::
    "(real \<Rightarrow> real) \<Rightarrow> token_bucket \<Rightarrow> clock \<Rightarrow> string \<Rightarrow> int \<Rightarrow> bool \<times> token_bucket" where
  "tb_consume rnd l clk key count =
     (let b0 = (case buckets l key of
                  None \<Rightarrow> \<lparr>tokens = tb_capacity l, last_refill_time_ms = clk 0\<rparr>
                | Some b \<Rightarrow> b);
          b = refill_tokens rnd l (clk 1) b0
      in if count \<le> tokens b
         then (True, l\<lparr>buckets := (buckets l)(key \<mapsto> b\<lparr>tokens := tokens b - count\<rparr>)\<rparr>)
         else (False, l\<lparr>buckets := (buckets l)(key \<mapsto> b)\<rparr>))"

definition tb_reset :: "token_bucket \<Rightarrow> clock \<Rightarrow> string \<Rightarrow> token_bucket" where
  "tb_reset l clk key =
     (case buckets l key of
        None \<Rightarrow> l
      | Some b \<Rightarrow> l\<lparr>buckets := (buckets l)
          (key \<mapsto> b\<lparr>tokens := tb_capacity l, last_refill_time_ms := clk 0\<rparr>)\<rparr>)"

text \<open>The clock is read once per bucket, in the unspecified order of the hash map.\<close>

definition tb_reset_all :: "token_bucket \<Rightarrow> (string \<Rightarrow> int) \<Rightarrow> token_bucket" where
  "tb_reset_all l now =
     l\<lparr>buckets := (\<lambda>key. map_option
         (\<lambda>b. b\<lparr>tokens := tb_capacity l, last_refill_time_ms := now key\<rparr>) (buckets l key))\<rparr>"

definition tb_get_remaining ::
    "(real \<Rightarrow> real) \<Rightarrow> token_bucket \<Rightarrow> clock \<Rightarrow> string \<Rightarrow> int \<times> token_bucket" where
  "tb_get_remaining rnd l clk key =
     (case buckets l key of
        None \<Rightarrow> (tb_capacity l, l)
      | Some b0 \<Rightarrow> let b = refill_tokens rnd l (clk 0) b0
                  in (tokens b, l\<lparr>buckets := (buckets l)(key \<mapsto> b)\<rparr>))"

definition tb_check ::
    "(real \<Rightarrow> real) \<Rightarrow> token_bucket \<Rightarrow> clock \<Rightarrow> string \<Rightarrow> rate_limit_result \<times> token_bucket" where
  "tb_check rnd l clk key =
     (let (ok, l1) = tb_consume rnd l clk key 1;
          (rem, l2) = tb_get_remaining rnd l1 (\<lambda>i. clk (i + 2)) key
      in (default_result\<lparr>allowed := ok, remaining := rem\<rparr>, l2))"

section \<open>LeakyBucketRateLimiter\<close>

record lbucket =
  lb_tokens :: int
  last_leak_time_ms :: int

record leaky_bucket =
  lb_capacity :: int
  leak_rate_per_second :: real
  lb_buckets :: "string \<rightharpoonup> lbucket"

definition lb_init :: "int \<Rightarrow> real \<Rightarrow> leaky_bucket" where
  "lb_init capacity rate =
     \<lparr>lb_capacity = capacity, leak_rate_per_second = rate, lb_buckets = Map.empty\<rparr>"

definition leak_tokens :: "(real \<Rightarrow> real) \<Rightarrow> leaky_bucket \<Rightarrow> int \<Rightarrow> lbucket \<Rightarrow> lbucket" where
  "leak_tokens rnd l now b =
     (let elapsed_ms = now - last_leak_time_ms b
      in if 0 < elapsed_ms
         then b\<lparr>lb_tokens := min (lb_capacity l)
                  (lb_tokens b + tokens_for rnd (leak_rate_per_second l) elapsed_ms),
                last_leak_time_ms := now\<rparr>
         else b)"

definition lb_consume ::
    "(real \<Rightarrow> real) \<Rightarrow> leaky_bucket \<Rightarrow> clock \<Rightarrow> string \<Rightarrow> int \<Rightarrow> bool \<times> leaky_bucket" where
  "lb_consume rnd l clk key count =
     (let b0 = (case lb_buckets l key of
                  None \<Rightarrow> \<lparr>lb_tokens = lb_capacity l, last_leak_time_ms = clk 0\<rparr>
                | Some b \<Rightarrow> b);
          b = leak_tokens rnd l (clk 1) b0
      in if count \<le> lb_tokens b
         then (True, l\<lparr>lb_buckets := (lb_buckets l)(key \<mapsto> b\<lparr>lb_tokens := lb_tokens b - count\<rparr>)\<rparr>)
         else (False, l\<lparr>lb_buckets := (lb_buckets l)(key \<mapsto> b)\<rparr>))"

definition lb_reset :: "leaky_bucket \<Rightarrow> clock \<Rightarrow> string \<Rightarrow> leaky_bucket" where
  "lb_reset l clk key =
     (case lb_buckets l key of
        None \<Rightarrow> l
      | Some b \<Rightarrow> l\<lparr>lb_buckets := (lb_buckets l)
          (key \<mapsto> b\<lparr>lb_tokens := lb_capacity l, last_leak_time_ms := clk 0\<rparr>)\<rparr>)"

definition lb_reset_all :: "leaky_bucket \<Rightarrow> (string \<Rightarrow> int) \<Rightarrow> leaky_bucket" where
  "lb_reset_all l now =
     l\<lparr>lb_buckets := (\<lambda>key. map_option
         (\<lambda>b. b\<lparr>lb_tokens := lb_capacity l, last_leak_time_ms := now key\<rparr>) (lb_buckets l key))\<rparr>"

definition lb_get_remaining ::
    "(real \<Rightarrow> real) \<Rightarrow> leaky_bucket \<Rightarrow> clock \<Rightarrow> string \<Rightarrow> int \<times> leaky_bucket" where
  "lb_get_remaining rnd l clk key =
     (case lb_buckets l key of
        None \<Rightarrow> (lb_capacity l, l)
      | Some b0 \<Rightarrow> let b = leak_tokens rnd l (clk 0) b0
                  in (lb_tokens b, l\<lparr>lb_buckets := (lb_buckets l)(key \<mapsto> b)\<rparr>))"

definition lb_check ::
    "(real \<Rightarrow> real) \<Rightarrow> leaky_bucket \<Rightarrow> clock \<Rightarrow> string \<Rightarrow> rate_limit_result \<times> leaky_bucket" where
  "lb_check rnd l clk key =
     (let (ok, l1) = lb_consume rnd l clk key 1;
          (rem, l2) = lb_get_remaining rnd l1 (\<lambda>i. clk (i + 2)) key
      in (default_result\<lparr>allowed := ok, remaining := rem\<rparr>, l2))"

section \<open>FixedWindowRateLimiter\<close>

record window =
  w_count :: int
  start_time_ms :: int

record fixed_window =
  max_requests :: int
  window_size_ms :: int
  windows :: "string \<rightharpoonup> window"

definition fw_init :: "int \<Rightarrow> int \<Rightarrow> fixed_window" where
  "fw_init n size_ms = \<lparr>max_requests = n, window_size_ms = size_ms, windows = Map.empty\<rparr>"

definition should_reset_window :: "fixed_window \<Rightarrow> int \<Rightarrow> window \<Rightarrow> bool" where
  "should_reset_window l now w \<longleftrightarrow> window_size_ms l \<le> now - start_time_ms w"

definition fw_check :: "fixed_window \<Rightarrow> clock \<Rightarrow> string \<Rightarrow> rate_limit_result \<times> fixed_window" where
  "fw_check l clk key =
     (let w0 = (case windows l key of
                  None \<Rightarrow> \<lparr>w_count = 0, start_time_ms = clk 0\<rparr>
                | Some w \<Rightarrow> w);
          w = (if should_reset_window l (clk 1) w0
               then w0\<lparr>w_count := 0, start_time_ms := clk 2\<rparr> else w0)
      in if w_count w < max_requests l
         then let w' = w\<lparr>w_count := w_count w + 1\<rparr>
              in (default_result\<lparr>allowed := True, remaining := max_requests l - w_count w'\<rparr>,
                  l\<lparr>windows := (windows l)(key \<mapsto> w')\<rparr>)
         else (default_result\<lparr>allowed := False, remaining := 0,
                 reason := ''Fixed window limit exceeded'',
                 wait_time_ms := window_size_ms l - (clk 3 - start_time_ms w)\<rparr>,
               l\<lparr>windows := (windows l)(key \<mapsto> w)\<rparr>))"

definition fw_consume :: "fixed_window \<Rightarrow> clock \<Rightarrow> string \<Rightarrow> int \<Rightarrow> bool \<times> fixed_window" where
  "fw_consume l clk key count = (let (r, l') = fw_check l clk key in (allowed r, l'))"

definition fw_reset :: "fixed_window \<Rightarrow> clock \<Rightarrow> string \<Rightarrow> fixed_window" where
  "fw_reset l clk key =
     (case windows l key of
        None \<Rightarrow> l
      | Some w \<Rightarrow> l\<lparr>windows := (windows l)(key \<mapsto> w\<lparr>w_count := 0, start_time_ms := clk 0\<rparr>)\<rparr>)"

definition fw_reset_all :: "fixed_window \<Rightarrow> (string \<Rightarrow> int) \<Rightarrow> fixed_window" where
  "fw_reset_all l now =
     l\<lparr>windows := (\<lambda>key. map_option (\<lambda>w. w\<lparr>w_count := 0, start_time_ms := now key\<rparr>)
                     (windows l key))\<rparr>"

definition fw_get_remaining :: "fixed_window \<Rightarrow> clock \<Rightarrow> string \<Rightarrow> int \<times> fixed_window" where
  "fw_get_remaining l clk key =
     (case windows l key of
        None \<Rightarrow> (max_requests l, l)
      | Some w0 \<Rightarrow>
          let w = (if should_reset_window l (clk 0) w0
                   then w0\<lparr>w_count := 0, start_time_ms := clk 1\<rparr> else w0)
          in (max_requests l - w_count w, l\<lparr>windows := (windows l)(key \<mapsto> w)\<rparr>))"

section \<open>The admission contract\<close>

text \<open>
  What a client of \<^verbatim>\<open>RateLimiter\<close> relies on: over any sequence of calls, what was granted to
  one key is covered by the budget of that key. \<open>budget s k\<close> is a potential that \<^verbatim>\<open>consume\<close> and
  \<^verbatim>\<open>get_remaining\<close> never increase and that a grant lowers by its cost; a reset sets it to at most \<open>full\<close>,
  and \<open>least\<close> bounds it from below while the invariant holds. (\<^verbatim>\<open>check\<close> is a \<^verbatim>\<open>consume\<close> of 1 and a
  \<^verbatim>\<open>get_remaining\<close>.)
\<close>

datatype ('c, 'k) limiter_op = Consume 'c 'k int | Query 'c 'k | Reset 'c 'k | ResetAll "'k \<Rightarrow> int"

definition clk_ok :: "int \<Rightarrow> int \<Rightarrow> clock \<Rightarrow> bool" where
  "clk_ok T0 T1 clk \<longleftrightarrow> mono clk \<and> (\<forall>i. T0 \<le> clk i \<and> clk i \<le> T1)"

fun granted ::
    "('s \<Rightarrow> 'c \<Rightarrow> 'k \<Rightarrow> int \<Rightarrow> bool \<times> 's) \<Rightarrow> ('s \<Rightarrow> 'c \<Rightarrow> 'k \<Rightarrow> int \<times> 's) \<Rightarrow> ('s \<Rightarrow> 'c \<Rightarrow> 'k \<Rightarrow> 's) \<Rightarrow>
     ('s \<Rightarrow> ('k \<Rightarrow> int) \<Rightarrow> 's) \<Rightarrow> (int \<Rightarrow> int) \<Rightarrow> 's \<Rightarrow> 'k \<Rightarrow> ('c, 'k) limiter_op list \<Rightarrow> int" where
  "granted cons que res res_all cost s k [] = 0"
| "granted cons que res res_all cost s k (Consume c k' n # ops) =
     (if fst (cons s c k' n) \<and> k' = k then cost n else 0)
     + granted cons que res res_all cost (snd (cons s c k' n)) k ops"
| "granted cons que res res_all cost s k (Query c k' # ops) =
     granted cons que res res_all cost (snd (que s c k')) k ops"
| "granted cons que res res_all cost s k (Reset c k' # ops) =
     granted cons que res res_all cost (res s c k') k ops"
| "granted cons que res res_all cost s k (ResetAll now # ops) =
     granted cons que res res_all cost (res_all s now) k ops"

fun ops_ok :: "int \<Rightarrow> int \<Rightarrow> (clock, 'k) limiter_op list \<Rightarrow> bool" where
  "ops_ok T0 T1 [] \<longleftrightarrow> True"
| "ops_ok T0 T1 (Consume c k n # ops) \<longleftrightarrow> clk_ok T0 T1 c \<and> 0 \<le> n \<and> ops_ok T0 T1 ops"
| "ops_ok T0 T1 (Query c k # ops) \<longleftrightarrow> clk_ok T0 T1 c \<and> ops_ok T0 T1 ops"
| "ops_ok T0 T1 (Reset c k # ops) \<longleftrightarrow> clk_ok T0 T1 c \<and> ops_ok T0 T1 ops"
| "ops_ok T0 T1 (ResetAll now # ops) \<longleftrightarrow> (\<forall>k. T0 \<le> now k \<and> now k \<le> T1) \<and> ops_ok T0 T1 ops"

text \<open>How often a key is reset.\<close>

fun resets :: "'k \<Rightarrow> ('c, 'k) limiter_op list \<Rightarrow> nat" where
  "resets k [] = 0"
| "resets k (Reset c k' # ops) = (if k' = k then 1 else 0) + resets k ops"
| "resets k (ResetAll now # ops) = 1 + resets k ops"
| "resets k (op # ops) = resets k ops"

locale admission =
  fixes consume :: "'s \<Rightarrow> clock \<Rightarrow> string \<Rightarrow> int \<Rightarrow> bool \<times> 's"
    and query :: "'s \<Rightarrow> clock \<Rightarrow> string \<Rightarrow> int \<times> 's"
    and reset :: "'s \<Rightarrow> clock \<Rightarrow> string \<Rightarrow> 's"
    and reset_all :: "'s \<Rightarrow> (string \<Rightarrow> int) \<Rightarrow> 's"
    and cost :: "int \<Rightarrow> int"
    and T0 :: int
    and T1 :: int
    and inv :: "'s \<Rightarrow> bool"
    and budget :: "'s \<Rightarrow> string \<Rightarrow> real"
    and full :: real
    and least :: real
  assumes consume_law: "\<lbrakk>inv s; clk_ok T0 T1 c; 0 \<le> n\<rbrakk> \<Longrightarrow>
      inv (snd (consume s c k n)) \<and>
      budget (snd (consume s c k n)) k +
        (if fst (consume s c k n) then of_int (cost n) else 0) \<le> budget s k"
    and consume_frame: "k' \<noteq> k \<Longrightarrow> budget (snd (consume s c k n)) k' = budget s k'"
    and query_law: "\<lbrakk>inv s; clk_ok T0 T1 c\<rbrakk> \<Longrightarrow>
      inv (snd (query s c k)) \<and> budget (snd (query s c k)) k' \<le> budget s k'"
    and reset_law: "\<lbrakk>inv s; clk_ok T0 T1 c\<rbrakk> \<Longrightarrow> inv (reset s c k) \<and> budget (reset s c k) k \<le> full"
    and reset_frame: "k' \<noteq> k \<Longrightarrow> budget (reset s c k) k' = budget s k'"
    and reset_all_law: "\<lbrakk>inv s; \<forall>k. T0 \<le> now k \<and> now k \<le> T1\<rbrakk> \<Longrightarrow>
      inv (reset_all s now) \<and> budget (reset_all s now) k \<le> full"
    and budget_least: "inv s \<Longrightarrow> least \<le> budget s k"
begin

lemma granted_bound:
  "\<lbrakk>inv s; ops_ok T0 T1 ops\<rbrakk> \<Longrightarrow> of_int (granted consume query reset reset_all cost s k ops)
     \<le> budget s k - least + of_nat (resets k ops) * (full - least)"
proof (induction ops arbitrary: s)
  case Nil
  then show ?case by (simp add: budget_least)
next
  case (Cons p ops)
  have gain: "budget t k - least + of_nat n * (full - least) \<le> budget s k - least + of_nat (Suc n) * (full - least)"
    if "budget t k \<le> full" for t n
    using that budget_least [OF Cons.prems(1), of k] by (simp add: algebra_simps)
  show ?case
  proof (cases p)
    case (Consume c k' n)
    let ?s = "snd (consume s c k' n)"
    have law: "inv ?s" "budget ?s k' + (if fst (consume s c k' n) then of_int (cost n) else 0) \<le> budget s k'"
      using Cons.prems Consume consume_law by simp_all
    have "of_int (granted consume query reset reset_all cost ?s k ops) \<le> budget ?s k - least + of_nat (resets k ops) * (full - least)"
      using Cons law(1) Consume by simp
    then show ?thesis
      using law(2) consume_frame [of k k' s c n] Consume by (cases "k = k'") auto
  next
    case (Query c k')
    with Cons.prems query_law [of s c k' k] Cons.IH [of "snd (query s c k')"] show ?thesis by simp
  next
    case (Reset c k')
    with Cons.prems reset_law [of s c k'] Cons.IH [of "reset s c k'"] reset_frame [of k k' s c]
      gain [of "reset s c k'" "resets k ops"]
    show ?thesis by (cases "k' = k") auto
  next
    case (ResetAll now)
    with Cons.prems reset_all_law [of s now k] Cons.IH [of "reset_all s now"] gain [of "reset_all s now" "resets k ops"]
    show ?thesis by auto
  qed
qed

text \<open>From a full budget: each reset of the key is worth one more.\<close>

lemma granted_bound_full:
  assumes "inv s" and "ops_ok T0 T1 ops" and "budget s k = full"
  shows "of_int (granted consume query reset reset_all cost s k ops) \<le> of_nat (1 + resets k ops) * (full - least)"
  using granted_bound [OF assms(1,2), of k] assms(3) by (simp add: algebra_simps)

end

section \<open>Token and leaky bucket meet the contract\<close>

lemma fp_rounding_scale:
  assumes "fp_rounding u rnd" and "0 \<le> x" and "x \<le> c" and "0 \<le> d"
  shows "0 \<le> rnd x * d" and "rnd x * d \<le> (1 + u) * c * d"
proof -
  have "0 \<le> rnd x" "rnd x \<le> (1 + u) * x" "0 \<le> u"
    using assms(1,2) by (auto simp: fp_rounding_def)
  moreover have "(1 + u) * x \<le> (1 + u) * c" using assms(3) calculation(3) by (simp add: mult_left_mono)
  ultimately have "0 \<le> rnd x" "rnd x \<le> (1 + u) * c" by linarith+
  then show "0 \<le> rnd x * d" "rnd x * d \<le> (1 + u) * c * d"
    using assms(4) by (auto intro: mult_right_mono)
qed

definition ms_rate :: "real \<Rightarrow> real \<Rightarrow> real" where
  "ms_rate u r = (1 + u) ^ 3 * r / 1000"

lemma tokens_for_bounds:
  assumes "fp_rounding u rnd" and "0 \<le> r" and "0 \<le> e"
  shows "0 \<le> tokens_for rnd r e" and "of_int (tokens_for rnd r e) \<le> ms_rate u r * of_int e"
proof -
  let ?e = "of_int e :: real"
  have 1: "0 \<le> rnd ?e * (1 / 1000)" "rnd ?e * (1 / 1000) \<le> (1 + u) * ?e * (1 / 1000)"
    using fp_rounding_scale [OF assms(1), of ?e ?e "1 / 1000"] assms(3) by auto
  have 2: "0 \<le> rnd (rnd ?e / 1000) * r" "rnd (rnd ?e / 1000) * r \<le> (1 + u) * ((1 + u) * ?e / 1000) * r"
    using fp_rounding_scale [OF assms(1), of "rnd ?e / 1000" "(1 + u) * ?e / 1000" r] 1 assms(2)
    by auto
  have 3: "0 \<le> rnd (rnd (rnd ?e / 1000) * r)"
    "rnd (rnd (rnd ?e / 1000) * r) \<le> (1 + u) * ((1 + u) * ((1 + u) * ?e / 1000) * r)"
    using fp_rounding_scale [OF assms(1) 2, of 1] by simp_all
  show "0 \<le> tokens_for rnd r e" using 3(1) by (simp add: tokens_for_def trunc_to_int_def)
  have "of_int (tokens_for rnd r e) \<le> rnd (rnd (rnd ?e / 1000) * r)"
    using 3(1) by (simp add: tokens_for_def trunc_to_int_def)
  also have "\<dots> \<le> ms_rate u r * ?e"
    using 3(2) by (simp add: ms_rate_def power3_eq_cube algebra_simps)
  finally show "of_int (tokens_for rnd r e) \<le> ms_rate u r * ?e" .
qed

definition tb_inv :: "real \<Rightarrow> (real \<Rightarrow> real) \<Rightarrow> int \<Rightarrow> real \<Rightarrow> int \<Rightarrow> int \<Rightarrow> token_bucket \<Rightarrow> bool" where
  "tb_inv u rnd cap r T0 T1 l \<longleftrightarrow>
     fp_rounding u rnd \<and> 0 \<le> cap \<and> 0 \<le> r \<and> T0 \<le> T1 \<and> tb_capacity l = cap \<and> refill_rate_per_second l = r \<and>
     (\<forall>k b. buckets l k = Some b \<longrightarrow>
        0 \<le> tokens b \<and> tokens b \<le> cap \<and> last_refill_time_ms b \<le> T1)"

definition bucket_budget :: "real \<Rightarrow> bucket \<Rightarrow> real" where
  "bucket_budget \<rho> b = of_int (tokens b) - \<rho> * of_int (last_refill_time_ms b)"

definition tb_budget :: "real \<Rightarrow> int \<Rightarrow> token_bucket \<Rightarrow> string \<Rightarrow> real" where
  "tb_budget u T0 l k =
     (let \<rho> = ms_rate u (refill_rate_per_second l) in
      case buckets l k of
        None \<Rightarrow> of_int (tb_capacity l) - \<rho> * of_int T0
      | Some b \<Rightarrow> bucket_budget \<rho> b)"

lemma ms_rate_nonneg: "0 \<le> u \<Longrightarrow> 0 \<le> r \<Longrightarrow> 0 \<le> ms_rate u r"
  by (simp add: ms_rate_def)

text \<open>A refill keeps the bucket within its capacity and does not raise its budget.\<close>

lemma refill_tokens_law:
  assumes "fp_rounding u rnd" and "0 \<le> refill_rate_per_second l"
    and "0 \<le> tokens b" and "tokens b \<le> tb_capacity l" and "last_refill_time_ms b \<le> T1" and "now \<le> T1"
  shows "let b' = refill_tokens rnd l now b in
    0 \<le> tokens b' \<and> tokens b' \<le> tb_capacity l \<and> last_refill_time_ms b' \<le> T1 \<and>
    bucket_budget (ms_rate u (refill_rate_per_second l)) b'
      \<le> bucket_budget (ms_rate u (refill_rate_per_second l)) b"
proof (cases "0 < now - last_refill_time_ms b")
  case True
  let ?r = "refill_rate_per_second l" and ?e = "now - last_refill_time_ms b"
  have n: "0 \<le> tokens_for rnd ?r ?e"
    and "of_int (tokens_for rnd ?r ?e) \<le> ms_rate u ?r * of_int ?e"
    using tokens_for_bounds [OF assms(1,2), of ?e] True by simp_all
  then have "of_int (tokens b + tokens_for rnd ?r ?e)
      \<le> of_int (tokens b) + ms_rate u ?r * (of_int now - of_int (last_refill_time_ms b))"
    by simp
  moreover have "of_int (min (tb_capacity l) (tokens b + tokens_for rnd ?r ?e))
      \<le> (of_int (tokens b + tokens_for rnd ?r ?e) :: real)"
    by simp
  ultimately have "of_int (min (tb_capacity l) (tokens b + tokens_for rnd ?r ?e))
      \<le> of_int (tokens b) + ms_rate u ?r * (of_int now - of_int (last_refill_time_ms b))"
    by linarith
  then have "bucket_budget (ms_rate u ?r) (refill_tokens rnd l now b) \<le> bucket_budget (ms_rate u ?r) b"
    using True by (simp add: refill_tokens_def bucket_budget_def right_diff_distrib)
  then show ?thesis
    using True assms(3-6) n by (simp add: refill_tokens_def Let_def)
qed (use assms in \<open>simp add: refill_tokens_def Let_def\<close>)

text \<open>The bucket a call works on: the stored one, or a full one created on the spot.\<close>

definition tb_bucket :: "token_bucket \<Rightarrow> int \<Rightarrow> string \<Rightarrow> bucket" where
  "tb_bucket l t k = (case buckets l k of
      None \<Rightarrow> \<lparr>tokens = tb_capacity l, last_refill_time_ms = t\<rparr> | Some b \<Rightarrow> b)"

lemma tb_bucket_law:
  assumes "tb_inv u rnd cap r T0 T1 l" and "T0 \<le> t" and "t \<le> T1"
  shows "0 \<le> tokens (tb_bucket l t k) \<and> tokens (tb_bucket l t k) \<le> cap \<and>
    last_refill_time_ms (tb_bucket l t k) \<le> T1 \<and>
    bucket_budget (ms_rate u r) (tb_bucket l t k) \<le> tb_budget u T0 l k"
  using assms ms_rate_nonneg [of u r]
  by (auto simp: tb_bucket_def tb_inv_def tb_budget_def bucket_budget_def fp_rounding_def
      intro: mult_left_mono split: option.splits)

lemma tb_consume_eq:
  "tb_consume rnd l clk k n =
     (let b = refill_tokens rnd l (clk 1) (tb_bucket l (clk 0) k); ok = (n \<le> tokens b)
      in (ok, l\<lparr>buckets := (buckets l)(k \<mapsto> if ok then b\<lparr>tokens := tokens b - n\<rparr> else b)\<rparr>))"
  by (simp add: tb_consume_def tb_bucket_def Let_def)

lemma tb_inv_update:
  "\<lbrakk>tb_inv u rnd cap r T0 T1 l; 0 \<le> tokens b; tokens b \<le> cap; last_refill_time_ms b \<le> T1\<rbrakk> \<Longrightarrow>
     tb_inv u rnd cap r T0 T1 (l\<lparr>buckets := (buckets l)(k \<mapsto> b)\<rparr>)"
  by (simp add: tb_inv_def)

lemma tb_budget_update [simp]:
  "tb_budget u T0 (l\<lparr>buckets := (buckets l)(k \<mapsto> b)\<rparr>) k' =
     (if k' = k then bucket_budget (ms_rate u (refill_rate_per_second l)) b else tb_budget u T0 l k')"
  by (auto simp: tb_budget_def Let_def split: option.split)

lemma tb_refilled:
  assumes "tb_inv u rnd cap r T0 T1 l" and "T0 \<le> t0" and "t0 \<le> T1" and "t1 \<le> T1"
    and b: "b = refill_tokens rnd l t1 (tb_bucket l t0 k)"
  shows "0 \<le> tokens b \<and> tokens b \<le> cap \<and> last_refill_time_ms b \<le> T1 \<and>
    bucket_budget (ms_rate u (refill_rate_per_second l)) b \<le> tb_budget u T0 l k"
proof -
  have i: "fp_rounding u rnd" "0 \<le> refill_rate_per_second l" "tb_capacity l = cap"
    "refill_rate_per_second l = r"
    using assms(1) by (auto simp: tb_inv_def)
  have "tokens (tb_bucket l t0 k) \<le> tb_capacity l" "0 \<le> tokens (tb_bucket l t0 k)"
    "last_refill_time_ms (tb_bucket l t0 k) \<le> T1"
    "bucket_budget (ms_rate u r) (tb_bucket l t0 k) \<le> tb_budget u T0 l k"
    using tb_bucket_law [OF assms(1-3), of k] i(3) by auto
  with refill_tokens_law [OF i(1,2) this(2,1,3) assms(4)] show ?thesis
    unfolding b by (simp add: Let_def i(3,4))
qed

lemma full_budget_bound:
  "tb_inv u rnd cap r T0 T1 l \<Longrightarrow> T0 \<le> t \<Longrightarrow>
     bucket_budget (ms_rate u r) \<lparr>tokens = cap, last_refill_time_ms = t\<rparr> \<le> of_int cap - ms_rate u r * of_int T0"
  using ms_rate_nonneg [of u r]
  by (auto simp: tb_inv_def bucket_budget_def fp_rounding_def intro: mult_left_mono)

lemma full_bucket: "b\<lparr>tokens := x, last_refill_time_ms := t\<rparr> = \<lparr>tokens = x, last_refill_time_ms = t\<rparr>" for b :: bucket
  by simp

interpretation tb: admission "tb_consume rnd" "tb_get_remaining rnd" tb_reset tb_reset_all "\<lambda>n. n" T0 T1
  "tb_inv u rnd cap r T0 T1" "tb_budget u T0" "of_int cap - ms_rate u r * of_int T0" "- ms_rate u r * of_int T1"
proof unfold_locales
  fix s c n and k :: string
  assume s: "tb_inv u rnd cap r T0 T1 s" "clk_ok T0 T1 c" "0 \<le> (n :: int)"
  let ?b = "refill_tokens rnd s (c 1) (tb_bucket s (c 0) k)"
  have "T0 \<le> c 0" "c 0 \<le> T1" "c 1 \<le> T1" using s(2) by (auto simp: clk_ok_def)
  from tb_refilled [OF s(1) this refl, of k]
  show "tb_inv u rnd cap r T0 T1 (snd (tb_consume rnd s c k n)) \<and>
     tb_budget u T0 (snd (tb_consume rnd s c k n)) k +
       (if fst (tb_consume rnd s c k n) then of_int n else 0) \<le> tb_budget u T0 s k"
    using s(3) tb_inv_update [OF s(1), of "?b\<lparr>tokens := tokens ?b - n\<rparr>" k]
      tb_inv_update [OF s(1), of ?b k]
    by (auto simp: tb_consume_eq Let_def) (auto simp: bucket_budget_def)
next
  fix k' k :: string and s c n
  assume "k' \<noteq> k"
  then show "tb_budget u T0 (snd (tb_consume rnd s c k n)) k' = tb_budget u T0 s k'"
    by (simp add: tb_consume_eq Let_def)
next
  fix s c and k k' :: string
  assume s: "tb_inv u rnd cap r T0 T1 s" "clk_ok T0 T1 c"
  have "T0 \<le> c 0" "c 0 \<le> T1" using s(2) by (auto simp: clk_ok_def)
  from tb_refilled [OF s(1) this(1,2) this(2) refl, of k]
  show "tb_inv u rnd cap r T0 T1 (snd (tb_get_remaining rnd s c k)) \<and>
     tb_budget u T0 (snd (tb_get_remaining rnd s c k)) k' \<le> tb_budget u T0 s k'"
    using s(1) tb_inv_update [OF s(1)]
    by (auto simp: tb_get_remaining_def Let_def tb_bucket_def split: option.split)
next
  fix s c and k :: string
  assume s: "tb_inv u rnd cap r T0 T1 s" "clk_ok T0 T1 c"
  have t: "T0 \<le> c 0" "c 0 \<le> T1" using s(2) by (auto simp: clk_ok_def)
  show "tb_inv u rnd cap r T0 T1 (tb_reset s c k) \<and> tb_budget u T0 (tb_reset s c k) k \<le> of_int cap - ms_rate u r * of_int T0"
  proof (cases "buckets s k")
    case None
    with s(1) show ?thesis by (simp add: tb_reset_def) (simp add: tb_budget_def tb_inv_def)
  next
    case (Some b)
    have "tb_capacity s = cap" "refill_rate_per_second s = r" "0 \<le> cap" using s(1) by (auto simp: tb_inv_def)
    with Some show ?thesis
      using full_budget_bound [OF s(1) t(1)] t(2) tb_inv_update [OF s(1), of "\<lparr>tokens = cap, last_refill_time_ms = c 0\<rparr>" k]
      by (simp add: tb_reset_def full_bucket)
  qed
next
  fix k' k :: string and s c
  assume "k' \<noteq> k"
  then show "tb_budget u T0 (tb_reset s c k) k' = tb_budget u T0 s k'" by (simp add: tb_reset_def split: option.split)
next
  fix s and now :: "string \<Rightarrow> int" and k :: string
  assume s: "tb_inv u rnd cap r T0 T1 s" "\<forall>k. T0 \<le> now k \<and> now k \<le> T1"
  then have "tb_capacity s = cap" "refill_rate_per_second s = r" "0 \<le> cap" by (auto simp: tb_inv_def)
  then show "tb_inv u rnd cap r T0 T1 (tb_reset_all s now) \<and> tb_budget u T0 (tb_reset_all s now) k \<le> of_int cap - ms_rate u r * of_int T0"
    using s full_budget_bound [OF s(1), of "now k"]
    by (auto simp: tb_reset_all_def tb_budget_def tb_inv_def full_bucket Let_def split: option.split)
next
  fix s and k :: string
  assume i: "tb_inv u rnd cap r T0 T1 s"
  then have "0 \<le> ms_rate u r" by (auto simp: tb_inv_def fp_rounding_def ms_rate_nonneg)
  then have "ms_rate u r * of_int t \<le> ms_rate u r * of_int T1" if "t \<le> T1" for t
    using that by (simp add: mult_left_mono)
  note le = this
  show "- ms_rate u r * of_int T1 \<le> tb_budget u T0 s k"
  proof (cases "buckets s k")
    case None
    with i le [of T0] show ?thesis by (auto simp: tb_inv_def tb_budget_def)
  next
    case (Some b)
    with i have "0 \<le> tokens b" "last_refill_time_ms b \<le> T1" "refill_rate_per_second s = r"
      by (auto simp: tb_inv_def)
    with Some le [of "last_refill_time_ms b"] show ?thesis
      by (simp add: tb_budget_def bucket_budget_def)
  qed
qed

text \<open>
  The leaky bucket is the token bucket under other names: \<open>lb_as_tb\<close> is an isomorphism of
  states that commutes with every operation.
\<close>

definition lb_as_tb :: "leaky_bucket \<Rightarrow> token_bucket" where
  "lb_as_tb l = \<lparr>tb_capacity = lb_capacity l, refill_rate_per_second = leak_rate_per_second l,
     buckets = (\<lambda>k. map_option
       (\<lambda>b. \<lparr>tokens = lb_tokens b, last_refill_time_ms = last_leak_time_ms b\<rparr>) (lb_buckets l k))\<rparr>"

lemma leak_tokens_as_refill:
  "\<lparr>tokens = lb_tokens (leak_tokens rnd l t b), last_refill_time_ms = last_leak_time_ms (leak_tokens rnd l t b)\<rparr>
   = refill_tokens rnd (lb_as_tb l) t \<lparr>tokens = lb_tokens b, last_refill_time_ms = last_leak_time_ms b\<rparr>"
  by (simp add: leak_tokens_def refill_tokens_def lb_as_tb_def Let_def)

lemma lb_consume_as_tb:
  "tb_consume rnd (lb_as_tb l) c k n = map_prod id lb_as_tb (lb_consume rnd l c k n)"
proof -
  let ?b = "case lb_buckets l k of None \<Rightarrow> \<lparr>lb_tokens = lb_capacity l, last_leak_time_ms = c 0\<rparr>
    | Some b \<Rightarrow> b"
  have "tb_bucket (lb_as_tb l) (c 0) k =
      \<lparr>tokens = lb_tokens ?b, last_refill_time_ms = last_leak_time_ms ?b\<rparr>"
    by (simp add: tb_bucket_def lb_as_tb_def split: option.split)
  then show ?thesis
    using leak_tokens_as_refill [of rnd l "c 1" ?b]
    by (simp add: tb_consume_eq Let_def lb_consume_def flip: leak_tokens_as_refill)
      (auto simp: lb_as_tb_def fun_eq_iff)
qed

lemma lb_get_remaining_as_tb:
  "tb_get_remaining rnd (lb_as_tb l) c k = map_prod id lb_as_tb (lb_get_remaining rnd l c k)"
proof (cases "lb_buckets l k")
  case None
  then show ?thesis by (simp add: tb_get_remaining_def lb_get_remaining_def) (simp add: lb_as_tb_def)
next
  case (Some b)
  then have "buckets (lb_as_tb l) k = Some \<lparr>tokens = lb_tokens b, last_refill_time_ms = last_leak_time_ms b\<rparr>"
    by (simp add: lb_as_tb_def)
  with Some show ?thesis
    by (simp add: tb_get_remaining_def lb_get_remaining_def Let_def flip: leak_tokens_as_refill)
      (auto simp: lb_as_tb_def fun_eq_iff)
qed

lemma lb_resets_as_tb:
  "lb_as_tb (lb_reset l c k) = tb_reset (lb_as_tb l) c k" "lb_as_tb (lb_reset_all l now) = tb_reset_all (lb_as_tb l) now"
  by (auto simp: lb_as_tb_def lb_reset_def tb_reset_def lb_reset_all_def tb_reset_all_def fun_eq_iff option.map_comp comp_def
      split: option.split intro!: map_option_cong)

interpretation lb: admission "lb_consume rnd" "lb_get_remaining rnd" lb_reset lb_reset_all "\<lambda>n. n" T0 T1
  "\<lambda>l. tb_inv u rnd cap r T0 T1 (lb_as_tb l)" "\<lambda>l. tb_budget u T0 (lb_as_tb l)"
  "of_int cap - ms_rate u r * of_int T0" "- ms_rate u r * of_int T1"
proof unfold_locales
  have [simp]: "lb_as_tb (snd (lb_consume rnd s c k n)) = snd (tb_consume rnd (lb_as_tb s) c k n)"
    "fst (lb_consume rnd s c k n) = fst (tb_consume rnd (lb_as_tb s) c k n)"
    "lb_as_tb (snd (lb_get_remaining rnd s c k)) = snd (tb_get_remaining rnd (lb_as_tb s) c k)"
    for s c k n
    by (simp_all add: lb_consume_as_tb lb_get_remaining_as_tb)
  fix s c n and k k' :: string
  show "\<lbrakk>tb_inv u rnd cap r T0 T1 (lb_as_tb s); clk_ok T0 T1 c; 0 \<le> (n :: int)\<rbrakk> \<Longrightarrow>
     tb_inv u rnd cap r T0 T1 (lb_as_tb (snd (lb_consume rnd s c k n))) \<and>
     tb_budget u T0 (lb_as_tb (snd (lb_consume rnd s c k n))) k +
       (if fst (lb_consume rnd s c k n) then of_int n else 0) \<le> tb_budget u T0 (lb_as_tb s) k"
    using tb.consume_law by simp
  show "k' \<noteq> k \<Longrightarrow> tb_budget u T0 (lb_as_tb (snd (lb_consume rnd s c k n))) k' =
      tb_budget u T0 (lb_as_tb s) k'"
    using tb.consume_frame by simp
  show "\<lbrakk>tb_inv u rnd cap r T0 T1 (lb_as_tb s); clk_ok T0 T1 c\<rbrakk> \<Longrightarrow>
     tb_inv u rnd cap r T0 T1 (lb_as_tb (snd (lb_get_remaining rnd s c k))) \<and>
     tb_budget u T0 (lb_as_tb (snd (lb_get_remaining rnd s c k))) k' \<le> tb_budget u T0 (lb_as_tb s) k'"
    using tb.query_law by simp
  show "\<lbrakk>tb_inv u rnd cap r T0 T1 (lb_as_tb s); clk_ok T0 T1 c\<rbrakk> \<Longrightarrow>
     tb_inv u rnd cap r T0 T1 (lb_as_tb (lb_reset s c k)) \<and>
     tb_budget u T0 (lb_as_tb (lb_reset s c k)) k \<le> of_int cap - ms_rate u r * of_int T0"
    unfolding lb_resets_as_tb by (rule tb.reset_law)
  show "k' \<noteq> k \<Longrightarrow> tb_budget u T0 (lb_as_tb (lb_reset s c k)) k' = tb_budget u T0 (lb_as_tb s) k'"
    unfolding lb_resets_as_tb by (rule tb.reset_frame)
  show "\<lbrakk>tb_inv u rnd cap r T0 T1 (lb_as_tb s); \<forall>k. T0 \<le> now k \<and> now k \<le> T1\<rbrakk> \<Longrightarrow>
     tb_inv u rnd cap r T0 T1 (lb_as_tb (lb_reset_all s now)) \<and>
     tb_budget u T0 (lb_as_tb (lb_reset_all s now)) k \<le> of_int cap - ms_rate u r * of_int T0" for now
    unfolding lb_resets_as_tb by (rule tb.reset_all_law)
  show "tb_inv u rnd cap r T0 T1 (lb_as_tb s) \<Longrightarrow>
      - ms_rate u r * of_int T1 \<le> tb_budget u T0 (lb_as_tb s) k"
    by (rule tb.budget_least)
qed

section \<open>The fixed window meets the contract\<close>

definition fw_inv :: "int \<Rightarrow> int \<Rightarrow> int \<Rightarrow> int \<Rightarrow> fixed_window \<Rightarrow> bool" where
  "fw_inv n win T0 T1 l \<longleftrightarrow>
     0 \<le> n \<and> 0 < win \<and> T0 \<le> T1 \<and> max_requests l = n \<and> window_size_ms l = win \<and>
     (\<forall>k w. windows l k = Some w \<longrightarrow> 0 \<le> w_count w \<and> w_count w \<le> n \<and> start_time_ms w \<le> T1)"

definition window_budget :: "int \<Rightarrow> int \<Rightarrow> window \<Rightarrow> real" where
  "window_budget n win w = of_int (n - w_count w) - of_int n / of_int win * of_int (start_time_ms w)"

definition fw_budget :: "int \<Rightarrow> fixed_window \<Rightarrow> string \<Rightarrow> real" where
  "fw_budget T0 l k = window_budget (max_requests l) (window_size_ms l)
     (case windows l k of None \<Rightarrow> \<lparr>w_count = 0, start_time_ms = T0\<rparr> | Some w \<Rightarrow> w)"

text \<open>The window a call works on, after creation and reset.\<close>

definition fw_window :: "fixed_window \<Rightarrow> int \<Rightarrow> int \<Rightarrow> int \<Rightarrow> string \<Rightarrow> window" where
  "fw_window l t0 t1 t2 k =
     (let w0 = (case windows l k of None \<Rightarrow> \<lparr>w_count = 0, start_time_ms = t0\<rparr> | Some w \<Rightarrow> w)
      in if should_reset_window l t1 w0 then w0\<lparr>w_count := 0, start_time_ms := t2\<rparr> else w0)"

lemma window_budget_reset:
  assumes "0 < win" and "win \<le> t - start_time_ms w" and "w_count w \<le> n" and "0 \<le> n"
  shows "window_budget n win \<lparr>w_count = 0, start_time_ms = t\<rparr> \<le> window_budget n win w"
proof -
  have "of_int n = of_int n / of_int win * (of_int win :: real)" using assms(1) by simp
  also have "\<dots> \<le> of_int n / of_int win * of_int (t - start_time_ms w)"
    using assms by (intro mult_left_mono) (simp_all del: of_int_diff)
  finally show ?thesis using assms(3) by (simp add: window_budget_def right_diff_distrib)
qed

lemma fw_window_law:
  assumes "fw_inv n win T0 T1 l" and "T0 \<le> t0" "t0 \<le> T1" "t1 \<le> t2" "t2 \<le> T1"
  shows "0 \<le> w_count (fw_window l t0 t1 t2 k) \<and> w_count (fw_window l t0 t1 t2 k) \<le> n \<and>
    start_time_ms (fw_window l t0 t1 t2 k) \<le> T1 \<and>
    window_budget n win (fw_window l t0 t1 t2 k) \<le> fw_budget T0 l k"
proof -
  let ?w0 = "case windows l k of None \<Rightarrow> \<lparr>w_count = 0, start_time_ms = t0\<rparr> | Some w \<Rightarrow> w"
  have i: "0 \<le> n" "0 < win" "max_requests l = n" "window_size_ms l = win"
    using assms(1) by (auto simp: fw_inv_def)
  have "of_int n / of_int win * of_int T0 \<le> (of_int n / of_int win * of_int t0 :: real)"
    using i assms(2) by (intro mult_left_mono) auto
  then have w0: "0 \<le> w_count ?w0 \<and> w_count ?w0 \<le> n \<and> start_time_ms ?w0 \<le> T1 \<and>
      window_budget n win ?w0 \<le> fw_budget T0 l k"
    using assms(1-3) i
    by (auto simp: fw_inv_def fw_budget_def window_budget_def split: option.split)
  show ?thesis
  proof (cases "should_reset_window l t1 ?w0")
    case True
    then have "win \<le> t2 - start_time_ms ?w0" using assms(4) i by (simp add: should_reset_window_def)
    from window_budget_reset [OF i(2) this _ i(1)] w0 True assms(5) i(1) show ?thesis
      by (simp add: fw_window_def Let_def) (simp add: window_budget_def)
  next
    case False
    with w0 show ?thesis by (simp add: fw_window_def Let_def)
  qed
qed

lemma fw_inv_update:
  "\<lbrakk>fw_inv n win T0 T1 l; 0 \<le> w_count w; w_count w \<le> n; start_time_ms w \<le> T1\<rbrakk> \<Longrightarrow>
     fw_inv n win T0 T1 (l\<lparr>windows := (windows l)(k \<mapsto> w)\<rparr>)"
  by (simp add: fw_inv_def)

lemma fw_budget_update [simp]:
  "fw_budget T0 (l\<lparr>windows := (windows l)(k \<mapsto> w)\<rparr>) k' =
     (if k' = k then window_budget (max_requests l) (window_size_ms l) w else fw_budget T0 l k')"
  by (simp add: fw_budget_def)

lemma fw_consume_eq:
  "fw_consume l c k n =
     (let w = fw_window l (c 0) (c 1) (c 2) k; ok = (w_count w < max_requests l)
      in (ok, l\<lparr>windows := (windows l)(k \<mapsto> if ok then w\<lparr>w_count := w_count w + 1\<rparr> else w)\<rparr>))"
  by (simp add: fw_consume_def fw_check_def fw_window_def Let_def default_result_def)

lemma full_window_bound:
  "fw_inv n win T0 T1 l \<Longrightarrow> T0 \<le> t \<Longrightarrow>
     window_budget n win \<lparr>w_count = 0, start_time_ms = t\<rparr> \<le> of_int n - of_int n / of_int win * of_int T0"
  by (auto simp: fw_inv_def window_budget_def intro!: divide_right_mono mult_left_mono)

lemma fresh_window: "w\<lparr>w_count := x, start_time_ms := t\<rparr> = \<lparr>w_count = x, start_time_ms = t\<rparr>" for w :: window
  by simp

interpretation fw: admission fw_consume fw_get_remaining fw_reset fw_reset_all "\<lambda>_. 1" T0 T1
  "fw_inv n win T0 T1" "fw_budget T0" "of_int n - of_int n / of_int win * of_int T0" "- (of_int n / of_int win * of_int T1)"
proof unfold_locales
  fix s c m and k :: string
  assume s: "fw_inv n win T0 T1 s" "clk_ok T0 T1 c"
  let ?w = "fw_window s (c 0) (c 1) (c 2) k"
  have "T0 \<le> c 0" "c 0 \<le> T1" "c 1 \<le> c 2" "c 2 \<le> T1" using s(2) by (auto simp: clk_ok_def mono_def)
  from fw_window_law [OF s(1) this, of k]
  show "fw_inv n win T0 T1 (snd (fw_consume s c k m)) \<and>
     fw_budget T0 (snd (fw_consume s c k m)) k +
       (if fst (fw_consume s c k m) then of_int 1 else 0) \<le> fw_budget T0 s k"
    using s(1) fw_inv_update [OF s(1), of "?w\<lparr>w_count := w_count ?w + 1\<rparr>" k]
      fw_inv_update [OF s(1), of ?w k]
    by (auto simp: fw_consume_eq Let_def fw_inv_def) (auto simp: window_budget_def)
next
  fix k' k :: string and s c n
  assume "k' \<noteq> k"
  then show "fw_budget T0 (snd (fw_consume s c k n)) k' = fw_budget T0 s k'"
    by (simp add: fw_consume_eq Let_def)
next
  fix s c and k k' :: string
  assume s: "fw_inv n win T0 T1 s" "clk_ok T0 T1 c"
  have "T0 \<le> c 0" "c 0 \<le> T1" "c 0 \<le> c 1" "c 1 \<le> T1" using s(2) by (auto simp: clk_ok_def mono_def)
  from fw_window_law [OF s(1) this, of k]
  show "fw_inv n win T0 T1 (snd (fw_get_remaining s c k)) \<and>
     fw_budget T0 (snd (fw_get_remaining s c k)) k' \<le> fw_budget T0 s k'"
    using s(1) fw_inv_update [OF s(1), of "fw_window s (c 0) (c 0) (c 1) k" k]
    by (cases "windows s k") (auto simp: fw_get_remaining_def Let_def fw_window_def fw_inv_def)
next
  fix s c and k :: string
  assume s: "fw_inv n win T0 T1 s" "clk_ok T0 T1 c"
  have t: "T0 \<le> c 0" "c 0 \<le> T1" using s(2) by (auto simp: clk_ok_def)
  show "fw_inv n win T0 T1 (fw_reset s c k) \<and> fw_budget T0 (fw_reset s c k) k \<le> of_int n - of_int n / of_int win * of_int T0"
  proof (cases "windows s k")
    case None
    with s(1) show ?thesis by (simp add: fw_reset_def) (simp add: fw_budget_def fw_inv_def window_budget_def)
  next
    case (Some w)
    have "max_requests s = n" "window_size_ms s = win" "0 \<le> n" using s(1) by (auto simp: fw_inv_def)
    with Some show ?thesis
      using full_window_bound [OF s(1) t(1)] t(2) fw_inv_update [OF s(1), of "\<lparr>w_count = 0, start_time_ms = c 0\<rparr>" k]
      by (simp add: fw_reset_def fresh_window)
  qed
next
  fix k' k :: string and s c
  assume "k' \<noteq> k"
  then show "fw_budget T0 (fw_reset s c k) k' = fw_budget T0 s k'" by (simp add: fw_reset_def split: option.split)
next
  fix s and now :: "string \<Rightarrow> int" and k :: string
  assume s: "fw_inv n win T0 T1 s" "\<forall>k. T0 \<le> now k \<and> now k \<le> T1"
  then have "max_requests s = n" "window_size_ms s = win" "0 \<le> n" by (auto simp: fw_inv_def)
  then show "fw_inv n win T0 T1 (fw_reset_all s now) \<and> fw_budget T0 (fw_reset_all s now) k \<le> of_int n - of_int n / of_int win * of_int T0"
    using s full_window_bound [OF s(1), of "now k"]
    by (auto simp: fw_reset_all_def fw_budget_def fw_inv_def fresh_window window_budget_def split: option.split)
next
  fix s and k :: string
  assume i: "fw_inv n win T0 T1 s"
  let ?w = "case windows s k of None \<Rightarrow> \<lparr>w_count = 0, start_time_ms = T0\<rparr> | Some w \<Rightarrow> w"
  have "of_int n / of_int win * of_int (start_time_ms ?w) \<le> (of_int n / of_int win * of_int T1 :: real)"
    using i by (intro mult_left_mono) (auto simp: fw_inv_def split: option.split)
  moreover have "w_count ?w \<le> n" "max_requests s = n" "window_size_ms s = win"
    using i by (auto simp: fw_inv_def split: option.split)
  ultimately show "- (of_int n / of_int win * of_int T1) \<le> fw_budget T0 s k"
    by (simp add: fw_budget_def window_budget_def)
qed

section \<open>Polling the token bucket\<close>

fun tb_polls :: "(real \<Rightarrow> real) \<Rightarrow> token_bucket \<Rightarrow> string \<Rightarrow> (clock \<times> int) list \<Rightarrow> bool list" where
  "tb_polls rnd l k [] = []"
| "tb_polls rnd l k ((c, n) # ps) =
     (let (ok, l') = tb_consume rnd l c k n in ok # tb_polls rnd l' k ps)"

text \<open>Each poll comes too early for a whole token since the poll before it.\<close>

fun too_early :: "(real \<Rightarrow> real) \<Rightarrow> real \<Rightarrow> int \<Rightarrow> (clock \<times> int) list \<Rightarrow> bool" where
  "too_early rnd r t [] \<longleftrightarrow> True"
| "too_early rnd r t ((c, n) # ps) \<longleftrightarrow>
     t < c 1 \<and> tokens_for rnd r (c 1 - t) = 0 \<and> 0 < n \<and> too_early rnd r (c 1) ps"

section \<open>Properties\<close>

text \<open>
  C9. Rate bound of the token bucket (and, the code being the same, of the leaky bucket): for
  any sequence of \<^verbatim>\<open>consume\<close>, \<^verbatim>\<open>get_remaining\<close>, \<^verbatim>\<open>reset\<close> and \<^verbatim>\<open>reset_all\<close> calls on any keys, with
  non-negative counts and clock readings in \<open>[T0, T1]\<close>, the tokens granted to one key never exceed the
  capacity plus the refill rate times the elapsed time, up to three roundings of the \<^verbatim>\<open>double\<close>
  arithmetic; every reset of the key is worth that amount once more.
\<close>

theorem bucket_admission_bound:
  assumes "fp_rounding u rnd" and "0 \<le> cap" and "0 \<le> r" and "T0 \<le> T1" and "ops_ok T0 T1 ops"
  shows "of_int (granted (tb_consume rnd) (tb_get_remaining rnd) tb_reset tb_reset_all (\<lambda>n. n) (tb_init cap r) k ops)
           \<le> of_nat (1 + resets k ops) * (of_int cap + (1 + u) ^ 3 * r * of_int (T1 - T0) / 1000) \<and>
         of_int (granted (lb_consume rnd) (lb_get_remaining rnd) lb_reset lb_reset_all (\<lambda>n. n) (lb_init cap r) k ops)
           \<le> of_nat (1 + resets k ops) * (of_int cap + (1 + u) ^ 3 * r * of_int (T1 - T0) / 1000)"
proof -
  have i: "tb_inv u rnd cap r T0 T1 (tb_init cap r)" "lb_as_tb (lb_init cap r) = tb_init cap r"
      "tb_budget u T0 (tb_init cap r) k = of_int cap - ms_rate u r * of_int T0"
    using assms(1-4) by (auto simp: tb_inv_def tb_init_def lb_as_tb_def lb_init_def tb_budget_def)
  have "of_int cap - ms_rate u r * of_int T0 - (- ms_rate u r * of_int T1) =
      of_int cap + (1 + u) ^ 3 * r * of_int (T1 - T0) / 1000"
    by (simp add: ms_rate_def right_diff_distrib diff_divide_distrib)
  note eq = this
  show ?thesis
    using tb.granted_bound_full [OF i(1) assms(5) i(3)] lb.granted_bound_full [of u rnd cap r T0 T1 "lb_init cap r" ops k]
      i assms(5) unfolding eq by metis
qed

theorem bucket_admission_bound_witness:
  "of_int (granted (tb_consume id) (tb_get_remaining id) tb_reset tb_reset_all (\<lambda>n. n) (tb_init 2 1) ''u''
     [Consume (\<lambda>_. 0) ''u'' 2, Query (\<lambda>_. 500) ''u'', Reset (\<lambda>_. 600) ''v'', Consume (\<lambda>_. 1000) ''u'' 1]) \<le> (2 :: real) + 1"
  using bucket_admission_bound [of 0 id 2 1 0 1000 "[Consume (\<lambda>_. 0) ''u'' 2,
      Query (\<lambda>_. 500) ''u'', Reset (\<lambda>_. 600) ''v'', Consume (\<lambda>_. 1000) ''u'' 1]" "''u''"]
  by (simp add: fp_rounding_def clk_ok_def mono_def)

text \<open>
  Rate bound of the fixed window: with clock readings in \<open>[T0, T1]\<close>, at most
  \<^verbatim>\<open>max_requests\<close> plus \<^verbatim>\<open>max_requests\<close> per elapsed window are allowed for one key, however
  the calls fall around the window boundaries, and as much again for every reset of the key.
\<close>

lemma fixed_window_admission_bound:
  assumes "0 \<le> n" and "0 < win" and "T0 \<le> T1" and "ops_ok T0 T1 ops"
  shows "of_int (granted fw_consume fw_get_remaining fw_reset fw_reset_all (\<lambda>_. 1) (fw_init n win) k ops)
           \<le> of_nat (1 + resets k ops) * (of_int n + of_int n * of_int (T1 - T0) / (of_int win :: real))"
proof -
  have "fw_inv n win T0 T1 (fw_init n win)" using assms(1-3) by (simp add: fw_inv_def fw_init_def)
  moreover have "fw_budget T0 (fw_init n win) k = of_int n - of_int n / of_int win * of_int T0"
    by (simp add: fw_budget_def fw_init_def window_budget_def)
  moreover have eq: "of_int n - of_int n / of_int win * of_int T0 - - (of_int n / of_int win * of_int T1) =
      of_int n + of_int n * of_int (T1 - T0) / (of_int win :: real)"
    by (simp add: diff_divide_distrib right_diff_distrib)
  ultimately show ?thesis using fw.granted_bound_full [of n win T0 T1 "fw_init n win" ops k] assms(4) unfolding eq by metis
qed

text \<open>
  Starvation: \<^verbatim>\<open>refill_tokens\<close> moves \<^verbatim>\<open>last_refill_time_ms\<close> to the present even when the
  elapsed time was worth no whole token, so a client that polls an empty bucket more often
  than one token interval is refused for ever, however much time passes in total.
\<close>

lemma token_bucket_starves:
  assumes "buckets l k = Some b" and "tokens b = 0" and "0 \<le> tb_capacity l"
    and "too_early rnd (refill_rate_per_second l) (last_refill_time_ms b) ps"
  shows "tb_polls rnd l k ps = replicate (length ps) False"
  using assms
proof (induction ps arbitrary: l b)
  case (Cons p ps)
  obtain c n where p: "p = (c, n)" by fastforce
  let ?b = "b\<lparr>last_refill_time_ms := c 1\<rparr>"
  have "refill_tokens rnd l (c 1) b = ?b"
    using Cons.prems p by (simp add: refill_tokens_def Let_def min_absorb2)
  then have "tb_consume rnd l c k n = (False, l\<lparr>buckets := (buckets l)(k \<mapsto> ?b)\<rparr>)"
    using Cons.prems p by (simp add: tb_consume_def Let_def)
  then show ?case using p Cons.prems Cons.IH [of "l\<lparr>buckets := (buckets l)(k \<mapsto> ?b)\<rparr>" ?b] by simp
qed simp

end
