(* ===== verification/CircuitBreaker.thy ===== *)
theory CircuitBreaker
  imports Complex_Main Chwell_Prelude
begin

text \<open>
  \<^verbatim>\<open>src/circuitbreaker/circuit_breaker.cpp\<close> and the template in
  \<^verbatim>\<open>include/chwell/circuitbreaker/circuit_breaker.h\<close>.

  The breaker's fields are atomics and \<^verbatim>\<open>execute\<close> holds no lock while the protected function
  runs, so the function is a state transformer \<open>func\<close>: it yields an outcome and the breaker as
  other threads (or the function itself) left it. Counters keep their C++ widths. The failure
  rate is a \<^verbatim>\<open>double\<close> quotient, rounded by the parameter \<open>rnd\<close>.
\<close>

section \<open>State and configuration\<close>

datatype circuit_state = CLOSED | OPEN | HALF_OPEN

datatype trip_strategy = FAILURE_COUNT | FAILURE_RATE | FAILURE_COUNT_OR_RATE

record cb_config =
  strategy :: trip_strategy
  failure_threshold :: "32 word"
  failure_rate_threshold :: real
  timeout_ms :: "64 word"
  half_open_calls :: "64 word"

definition default_config :: cb_config where
  "default_config = \<lparr>strategy = FAILURE_COUNT_OR_RATE, failure_threshold = 5,
     failure_rate_threshold = 1 / 2, timeout_ms = 60000, half_open_calls = 3\<rparr>"

record breaker =
  cb_state :: circuit_state
  failure_count :: "64 word"
  success_count :: "64 word"
  half_open_count :: "32 word"
  last_failure_time_ms :: "64 word"

text \<open>The constructor leaves \<^verbatim>\<open>last_failure_time_ms_\<close> uninitialised: any value \<open>t\<close>.\<close>

definition cb_init :: "64 word \<Rightarrow> breaker" where
  "cb_init t = \<lparr>cb_state = CLOSED, failure_count = 0, success_count = 0,
     half_open_count = 0, last_failure_time_ms = t\<rparr>"

record cb_result =
  success :: bool
  res_state :: circuit_state
  cb_reason :: string
  duration_ms :: "64 word"

datatype 'a outcome = Returns 'a | Throws string | ThrowsOther

section \<open>Operations\<close>

text \<open>
  \<^verbatim>\<open>duration_cast<milliseconds>\<close> of a nanosecond count truncates towards zero, and the result is
  stored in a \<^verbatim>\<open>uint64_t\<close>.
\<close>

definition cast_ms :: "int \<Rightarrow> 64 word" where
  "cast_ms ns = of_int (if 0 \<le> ns then ns div 1000000 else - (- ns div 1000000))"

definition get_failure_rate :: "(real \<Rightarrow> real) \<Rightarrow> breaker \<Rightarrow> real" where
  "get_failure_rate rnd b =
     (let total = failure_count b + success_count b
      in if total = 0 then 0
         else rnd (rnd (of_nat (unat (failure_count b))) / rnd (of_nat (unat total))))"

definition should_trip :: "(real \<Rightarrow> real) \<Rightarrow> cb_config \<Rightarrow> breaker \<Rightarrow> bool" where
  "should_trip rnd cfg b =
     (let failures = failure_count b; total = failures + success_count b
      in case strategy cfg of
        FAILURE_COUNT \<Rightarrow> ucast (failure_threshold cfg) \<le> failures
      | FAILURE_RATE \<Rightarrow>
          if total < ucast (failure_threshold cfg) then False
          else failure_rate_threshold cfg \<le> get_failure_rate rnd b
      | FAILURE_COUNT_OR_RATE \<Rightarrow>
          ucast (failure_threshold cfg) \<le> failures \<or>
          (0 < total \<and> failure_rate_threshold cfg \<le> get_failure_rate rnd b))"

definition should_attempt_reset :: "cb_config \<Rightarrow> 64 word \<Rightarrow> breaker \<Rightarrow> bool" where
  "should_attempt_reset cfg now b \<longleftrightarrow>
     cb_state b = OPEN \<and> timeout_ms cfg \<le> now - last_failure_time_ms b"

text \<open>The three parts of \<^verbatim>\<open>execute\<close>: the entry checks, and the two accounting branches.\<close>

definition exec_enter :: "cb_config \<Rightarrow> breaker \<Rightarrow> string option \<times> breaker" where
  "exec_enter cfg b =
     (case cb_state b of
        OPEN \<Rightarrow> (Some ''Circuit breaker is OPEN'', b)
      | HALF_OPEN \<Rightarrow>
          let count = half_open_count b; b' = b\<lparr>half_open_count := count + 1\<rparr>
          in if half_open_calls cfg \<le> ucast count then (Some ''Half-open calls exceeded'', b')
             else (None, b')
      | CLOSED \<Rightarrow> (None, b))"

definition exec_succeed :: "breaker \<Rightarrow> breaker" where
  "exec_succeed b =
     (let st = cb_state b; b1 = b\<lparr>success_count := success_count b + 1\<rparr>
      in if st = HALF_OPEN then b1\<lparr>cb_state := CLOSED\<rparr> else b1)"

definition exec_fail :: "(real \<Rightarrow> real) \<Rightarrow> cb_config \<Rightarrow> 64 word \<Rightarrow> breaker \<Rightarrow> breaker" where
  "exec_fail rnd cfg now b =
     (let b1 = b\<lparr>failure_count := failure_count b + 1, last_failure_time_ms := now\<rparr>
      in if should_trip rnd cfg b1 then b1\<lparr>cb_state := OPEN\<rparr> else b1)"

text \<open>
  \<open>None\<close> is an exception that is not a \<^verbatim>\<open>std::exception\<close>: it leaves \<^verbatim>\<open>execute\<close> without any
  accounting. \<open>clk 0\<close>, \<open>clk 1\<close> and \<open>clk 2\<close> are the readings of the system clock, in nanoseconds,
  at the start and the end of the function and when a failure is recorded.
\<close>

definition execute ::
    "(real \<Rightarrow> real) \<Rightarrow> cb_config \<Rightarrow> (nat \<Rightarrow> int) \<Rightarrow> (breaker \<Rightarrow> unit outcome \<times> breaker) \<Rightarrow>
     breaker \<Rightarrow> cb_result option \<times> breaker" where
  "execute rnd cfg clk func b =
     (case exec_enter cfg b of
        (Some why, b1) \<Rightarrow>
          (Some \<lparr>success = False, res_state = cb_state b, cb_reason = why, duration_ms = 0\<rparr>, b1)
      | (None, b1) \<Rightarrow>
          (case func b1 of
             (Returns _, b2) \<Rightarrow>
               (Some \<lparr>success = True, res_state = cb_state b2, cb_reason = '''',
                      duration_ms = cast_ms (clk 1 - clk 0)\<rparr>, exec_succeed b2)
           | (Throws e, b2) \<Rightarrow>
               (Some \<lparr>success = False, res_state = cb_state b2, cb_reason = ''Exception: '' @ e,
                      duration_ms = cast_ms (clk 1 - clk 0)\<rparr>, exec_fail rnd cfg (cast_ms (clk 2)) b2)
           | (ThrowsOther, b2) \<Rightarrow> (None, b2)))"

definition record_success :: "breaker \<Rightarrow> breaker" where
  "record_success b =
     (let b1 = b\<lparr>success_count := success_count b + 1\<rparr>
      in if cb_state b1 = HALF_OPEN then b1\<lparr>cb_state := CLOSED\<rparr> else b1)"

definition record_failure :: "(real \<Rightarrow> real) \<Rightarrow> cb_config \<Rightarrow> 64 word \<Rightarrow> breaker \<Rightarrow> breaker" where
  "record_failure rnd cfg now b =
     (let b1 = b\<lparr>failure_count := failure_count b + 1, last_failure_time_ms := now\<rparr>
      in if should_trip rnd cfg b1 then b1\<lparr>cb_state := OPEN\<rparr> else b1)"

definition execute_with_result ::
    "(real \<Rightarrow> real) \<Rightarrow> cb_config \<Rightarrow> (nat \<Rightarrow> int) \<Rightarrow> (breaker \<Rightarrow> 'a outcome \<times> breaker) \<Rightarrow>
     breaker \<Rightarrow> 'a \<Rightarrow> cb_result option \<times> 'a \<times> breaker" where
  "execute_with_result rnd cfg clk func b out =
     (if cb_state b = OPEN
      then (Some \<lparr>success = False, res_state = OPEN, cb_reason = ''Circuit breaker is OPEN'',
                  duration_ms = 0\<rparr>, out, b)
      else (case func b of
          (Returns v, b1) \<Rightarrow>
            (let b2 = record_success b1
             in (Some \<lparr>success = True, res_state = cb_state b2, cb_reason = '''',
                       duration_ms = cast_ms (clk 1 - clk 0)\<rparr>, v, b2))
        | (Throws e, b1) \<Rightarrow>
            (let b2 = record_failure rnd cfg (cast_ms (clk 2)) b1
             in (Some \<lparr>success = False, res_state = cb_state b2,
                       cb_reason = ''Exception: '' @ e, duration_ms = cast_ms (clk 1 - clk 0)\<rparr>, out, b2))
        | (ThrowsOther, b1) \<Rightarrow> (None, out, b1)))"

definition trip :: "64 word \<Rightarrow> breaker \<Rightarrow> breaker" where
  "trip now b = b\<lparr>cb_state := OPEN, last_failure_time_ms := now\<rparr>"

definition recover :: "breaker \<Rightarrow> breaker" where
  "recover b = b\<lparr>cb_state := CLOSED\<rparr>"

definition cb_reset :: "breaker \<Rightarrow> breaker" where
  "cb_reset b = b\<lparr>cb_state := CLOSED, failure_count := 0, success_count := 0,
     half_open_count := 0, last_failure_time_ms := 0\<rparr>"

section \<open>Interleaved runs\<close>

text \<open>
  Any number of threads use one breaker. Each event is one of the atomic parts above; a call
  of \<^verbatim>\<open>execute\<close> is an \<open>Enter\<close> that admits, followed later by \<open>Succeed\<close> or \<open>Fail\<close>, with
  arbitrary events of other threads in between.
\<close>

datatype cb_event = Enter | Succeed | Fail "64 word" | RecordSuccess | RecordFailure "64 word"
  | Trip "64 word" | Recover | Reset

inductive cb_step :: "(real \<Rightarrow> real) \<Rightarrow> cb_config \<Rightarrow> breaker \<Rightarrow> cb_event \<Rightarrow> breaker \<Rightarrow> bool"
  for rnd cfg where
  enter: "cb_step rnd cfg b Enter (snd (exec_enter cfg b))"
| succeed: "cb_step rnd cfg b Succeed (exec_succeed b)"
| failed: "cb_step rnd cfg b (Fail t) (exec_fail rnd cfg t b)"
| rec_success: "cb_step rnd cfg b RecordSuccess (record_success b)"
| rec_failure: "cb_step rnd cfg b (RecordFailure t) (record_failure rnd cfg t b)"
| tripped: "cb_step rnd cfg b (Trip t) (trip t b)"
| recovered: "cb_step rnd cfg b Recover (recover b)"
| resetted: "cb_step rnd cfg b Reset (cb_reset b)"

inductive cb_run :: "(real \<Rightarrow> real) \<Rightarrow> cb_config \<Rightarrow> breaker \<Rightarrow> cb_event list \<Rightarrow> breaker \<Rightarrow> bool"
  for rnd cfg where
  nil: "cb_run rnd cfg b [] b"
| cons: "cb_step rnd cfg b e b' \<Longrightarrow> cb_run rnd cfg b' es b'' \<Longrightarrow> cb_run rnd cfg b (e # es) b''"

inductive_cases cb_stepE: "cb_step rnd cfg b e b'"
inductive_simps cb_run_simps: "cb_run rnd cfg b [] b'" "cb_run rnd cfg b (e # es) b'"

lemma cb_step_not_half_open:
  "cb_step rnd cfg b e b' \<Longrightarrow> cb_state b \<noteq> HALF_OPEN \<Longrightarrow> cb_state b' \<noteq> HALF_OPEN"
  by (erule cb_stepE)
    (auto simp: exec_enter_def exec_succeed_def exec_fail_def record_success_def record_failure_def
      trip_def recover_def cb_reset_def Let_def split: circuit_state.splits)

lemma cb_step_open:
  "cb_step rnd cfg b e b' \<Longrightarrow> cb_state b = OPEN \<Longrightarrow> e \<noteq> Recover \<Longrightarrow> e \<noteq> Reset \<Longrightarrow> cb_state b' = OPEN"
  by (erule cb_stepE)
    (auto simp: exec_enter_def exec_succeed_def exec_fail_def record_success_def record_failure_def
      trip_def Let_def)

lemma cb_run_not_half_open:
  "cb_run rnd cfg b es b' \<Longrightarrow> cb_state b \<noteq> HALF_OPEN \<Longrightarrow> cb_state b' \<noteq> HALF_OPEN"
  by (induction rule: cb_run.induct) (auto dest: cb_step_not_half_open)

lemma cb_run_open:
  "cb_run rnd cfg b es b' \<Longrightarrow> cb_state b = OPEN \<Longrightarrow> Recover \<notin> set es \<Longrightarrow> Reset \<notin> set es \<Longrightarrow>
     cb_state b' = OPEN"
  by (induction rule: cb_run.induct) (auto dest: cb_step_open)

lemma execute_open:
  "cb_state b = OPEN \<Longrightarrow> execute rnd cfg clk func b =
     (Some \<lparr>success = False, res_state = OPEN, cb_reason = ''Circuit breaker is OPEN'', duration_ms = 0\<rparr>, b)"
  by (simp add: execute_def exec_enter_def)

text \<open>One thread calling \<^verbatim>\<open>execute\<close> with one function after the other.\<close>

fun run_executes :: "(real \<Rightarrow> real) \<Rightarrow> cb_config \<Rightarrow> (nat \<Rightarrow> int) \<Rightarrow>
    (breaker \<Rightarrow> unit outcome \<times> breaker) list \<Rightarrow> breaker \<Rightarrow> breaker" where
  "run_executes rnd cfg clk [] b = b"
| "run_executes rnd cfg clk (f # fs) b = run_executes rnd cfg clk fs (snd (execute rnd cfg clk f b))"

definition failing :: "string \<Rightarrow> breaker \<Rightarrow> unit outcome \<times> breaker" where
  "failing e b = (Throws e, b)"

definition succeeding :: "breaker \<Rightarrow> unit outcome \<times> breaker" where
  "succeeding b = (Returns (), b)"

lemma execute_failing:
  "cb_state b = CLOSED \<Longrightarrow> snd (execute rnd cfg clk (failing e) b) = exec_fail rnd cfg (cast_ms (clk 2)) b"
  by (simp add: execute_def exec_enter_def failing_def)

lemma execute_succeeding:
  "cb_state b = CLOSED \<Longrightarrow> snd (execute rnd cfg clk succeeding b) = b\<lparr>success_count := success_count b + 1\<rparr>"
  by (simp add: execute_def exec_enter_def succeeding_def exec_succeed_def)

lemma run_executes_append:
  "run_executes rnd cfg clk (fs @ gs) b = run_executes rnd cfg clk gs (run_executes rnd cfg clk fs b)"
  by (induction fs arbitrary: b) auto

lemma run_executes_open: "cb_state b = OPEN \<Longrightarrow> run_executes rnd cfg clk fs b = b"
  by (induction fs) (simp_all add: execute_open)

text \<open>One thread's calls, \<open>True\<close> for a function that returns and \<open>False\<close> for one that throws.\<close>

definition calls :: "string \<Rightarrow> bool list \<Rightarrow> (breaker \<Rightarrow> unit outcome \<times> breaker) list" where
  "calls e ss = map (\<lambda>s. if s then succeeding else failing e) ss"

text \<open>While the breaker is closed, the failure counter is the number of failures so far.\<close>

lemma run_calls_count:
  assumes "strategy cfg = FAILURE_COUNT" and "0 < failure_threshold cfg"
  shows "let b = run_executes rnd cfg clk (calls e ss) (cb_init t); n = count_list ss False in
    if unat (failure_threshold cfg) \<le> n then cb_state b = OPEN
    else cb_state b = CLOSED \<and> failure_count b = of_nat n"
proof (induction ss rule: rev_induct)
  case Nil
  have "0 < unat (failure_threshold cfg)" using assms(2) by (simp add: word_gt_0 unat_gt_0)
  then show ?case by (simp add: calls_def cb_init_def)
next
  case (snoc s ss)
  let ?thr = "failure_threshold cfg" and ?n = "count_list ss False"
  let ?b = "run_executes rnd cfg clk (calls e ss) (cb_init t)"
  have step: "run_executes rnd cfg clk (calls e (ss @ [s])) (cb_init t) =
      snd (execute rnd cfg clk (if s then succeeding else failing e) ?b)"
    by (simp add: calls_def run_executes_append)
  show ?case
  proof (cases "unat ?thr \<le> ?n")
    case True
    with snoc have "cb_state ?b = OPEN" by (simp add: Let_def)
    with True step show ?thesis by (simp add: execute_open Let_def)
  next
    case False
    with snoc have b: "cb_state ?b = CLOSED" "failure_count ?b = of_nat ?n" by (simp_all add: Let_def)
    have "unat (of_nat (?n + 1) :: 64 word) = ?n + 1"
      using False unat_32_lt [of ?thr] by (intro unat_of_nat64) simp
    then have "ucast ?thr \<le> (of_nat ?n + 1 :: 64 word) \<longleftrightarrow> unat ?thr \<le> ?n + 1"
      by (simp add: word_le_nat_alt unat_ucast_32_64 add.commute)
    with b False step assms(1) show ?thesis
      by (cases s) (auto simp: execute_succeeding execute_failing exec_fail_def should_trip_def Let_def)
  qed
qed

section \<open>Properties\<close>

text \<open>
  \<^verbatim>\<open>HALF_OPEN\<close> is unreachable: no interleaving of calls, from any number of threads,
  takes a new breaker into that state, so the trial calls after a timeout that the
  configuration describes never happen (\<^verbatim>\<open>should_attempt_reset\<close> has no caller).
\<close>

lemma half_open_unreachable:
  "cb_run rnd cfg (cb_init t) es b \<Longrightarrow> cb_state b \<noteq> HALF_OPEN"
  by (drule cb_run_not_half_open) (simp_all add: cb_init_def)

text \<open>
  An open breaker stays open and refuses every protected call without running it, whatever
  else happens and however long it waits, until someone calls \<^verbatim>\<open>recover\<close> or \<^verbatim>\<open>reset\<close>.
\<close>

lemma open_until_manual_recovery:
  assumes "cb_run rnd cfg b es b'" and "cb_state b = OPEN"
    and "Recover \<notin> set es" and "Reset \<notin> set es"
  shows "cb_state b' = OPEN \<and>
    execute rnd cfg clk func b' =
      (Some \<lparr>success = False, res_state = OPEN, cb_reason = ''Circuit breaker is OPEN'',
             duration_ms = 0\<rparr>, b') \<and>
    execute_with_result rnd cfg clk func' b' out =
      (Some \<lparr>success = False, res_state = OPEN, cb_reason = ''Circuit breaker is OPEN'',
             duration_ms = 0\<rparr>, out, b')"
  using cb_run_open [OF assms] by (simp add: execute_open execute_with_result_def)

text \<open>
  The failure-count strategy counts all failures since the last reset, not consecutive
  ones: after any sequence of returning and throwing calls the breaker is open exactly when
  at least \<^verbatim>\<open>failure_threshold\<close> of them threw.
\<close>

lemma failure_count_trips:
  assumes "strategy cfg = FAILURE_COUNT" and "0 < failure_threshold cfg"
  shows "cb_state (run_executes rnd cfg clk (calls e ss) (cb_init t)) =
    (if unat (failure_threshold cfg) \<le> count_list ss False then OPEN else CLOSED)"
  using run_calls_count [OF assms, of rnd clk e ss t] by (simp add: Let_def split: if_splits)

text \<open>
  With the default configuration (count or rate, threshold 5, rate 0.5) the threshold of
  five failures does not protect the first calls: the very first failing call of a new breaker
  has failure rate 1 and opens it.
\<close>

lemma default_opens_on_first_failure:
  assumes "rnd 1 = 1"
  shows "cb_state (snd (execute rnd default_config clk (failing e) (cb_init t))) = OPEN"
  using assms by (subst execute_failing)
    (simp_all add: cb_init_def exec_fail_def should_trip_def default_config_def
      get_failure_rate_def Let_def)

end
