(* ===== verification/ConsistentHash.thy ===== *)
theory ConsistentHash
  imports Chwell_Prelude "HOL-Library.Multiset"
begin

text \<open>
  \<^verbatim>\<open>src/loadbalance/consistent_hash.cpp\<close> and \<^verbatim>\<open>include/chwell/cluster/node_registry.h\<close>: the
  hash ring with virtual nodes and the cluster's node registry that rests on it.

  \<^verbatim>\<open>std::sort\<close> promises a sorted permutation and nothing about equal elements, so it is the
  parameter \<open>srt\<close> with the contract \<open>std_sort\<close>. \<^verbatim>\<open>std::lower_bound\<close> is the bisection the
  library runs, proved equal to a linear search on a sorted ring.
\<close>

section \<open>Library routines\<close>

function lower_bound_loop :: "('a \<Rightarrow> bool) \<Rightarrow> 'a list \<Rightarrow> nat \<Rightarrow> nat \<Rightarrow> nat" where
  "lower_bound_loop lt xs lo len =
     (if len = 0 then lo
      else let half = len div 2; mid = lo + half
           in if lt (xs ! mid) then lower_bound_loop lt xs (mid + 1) (len - half - 1)
              else lower_bound_loop lt xs lo half)"
  by pat_completeness auto
termination
  by (relation "measure (\<lambda>(lt, xs, lo, len). len)") auto

declare lower_bound_loop.simps [simp del]

definition lower_bound :: "('a \<Rightarrow> bool) \<Rightarrow> 'a list \<Rightarrow> nat" where
  "lower_bound lt xs = lower_bound_loop lt xs 0 (length xs)"

fun to_string :: "nat \<Rightarrow> string" where
  "to_string n = (if n < 10 then [char_of (48 + n)] else to_string (n div 10) @ [char_of (48 + n mod 10)])"

declare to_string.simps [simp del]

section \<open>ConsistentHashLoadBalancer\<close>

record vnode =
  vn_service :: string
  vn_instance :: string
  vn_node_id :: string
  hash_value :: "32 word"

record hash_ring =
  virtual_nodes :: int
  service_instances :: "string \<rightharpoonup> vnode list"
  service_ring :: "string \<rightharpoonup> vnode list"

definition ring_init :: "int \<Rightarrow> hash_ring" where
  "ring_init n = \<lparr>virtual_nodes = n, service_instances = Map.empty, service_ring = Map.empty\<rparr>"

definition fnv_hash :: "string \<Rightarrow> 32 word" where
  "fnv_hash key = foldl (\<lambda>h c. (h XOR of_char c) * 16777619) 2166136261 key"

definition get_virtual_node_id :: "string \<Rightarrow> nat \<Rightarrow> string" where
  "get_virtual_node_id iid index = iid @ ''#'' @ to_string index"

definition make_vnode :: "string \<Rightarrow> string \<Rightarrow> nat \<Rightarrow> vnode" where
  "make_vnode sid iid i =
     (let virtual_id = get_virtual_node_id iid i
      in \<lparr>vn_service = sid, vn_instance = iid, vn_node_id = virtual_id, hash_value = fnv_hash virtual_id\<rparr>)"

definition entry :: "(string \<rightharpoonup> 'a list) \<Rightarrow> string \<Rightarrow> 'a list" where
  "entry m k = (case m k of None \<Rightarrow> [] | Some xs \<Rightarrow> xs)"

text \<open>
  \<^verbatim>\<open>operator[]\<close> creates the list of virtual nodes only when the loop runs, the ring always
  (the sort touches it).
\<close>

definition add_instance ::
    "(vnode list \<Rightarrow> vnode list) \<Rightarrow> hash_ring \<Rightarrow> string \<Rightarrow> string \<Rightarrow> int \<Rightarrow> hash_ring" where
  "add_instance srt r sid iid weight =
     (let node_count = virtual_nodes r * weight;
          vnodes = map (make_vnode sid iid) [0..<nat node_count]
      in r\<lparr>service_instances := (if vnodes = [] then service_instances r
             else (service_instances r)(sid \<mapsto> entry (service_instances r) sid @ vnodes)),
           service_ring := (service_ring r)(sid \<mapsto> srt (entry (service_ring r) sid @ vnodes))\<rparr>)"

definition remove_instance :: "hash_ring \<Rightarrow> string \<Rightarrow> string \<Rightarrow> hash_ring" where
  "remove_instance r sid iid =
     (case service_instances r sid of
        None \<Rightarrow> r
      | Some insts \<Rightarrow>
          r\<lparr>service_instances := (service_instances r)(sid \<mapsto> filter (\<lambda>v. vn_instance v \<noteq> iid) insts),
            service_ring := (case service_ring r sid of
                None \<Rightarrow> service_ring r
              | Some ring \<Rightarrow> (service_ring r)(sid \<mapsto> filter (\<lambda>v. vn_instance v \<noteq> iid) ring))\<rparr>)"

definition select_instance :: "hash_ring \<Rightarrow> string \<Rightarrow> string \<Rightarrow> string option" where
  "select_instance r sid key =
     (case service_ring r sid of
        None \<Rightarrow> None
      | Some ring \<Rightarrow>
          if ring = [] then None
          else let h = fnv_hash key;
                   i = lower_bound (\<lambda>v. hash_value v < h) ring;
                   j = (if i = length ring then 0 else i)
               in Some (vn_instance (ring ! j)))"

definition get_all_instances :: "hash_ring \<Rightarrow> string \<Rightarrow> vnode list" where
  "get_all_instances r sid = entry (service_instances r) sid"

definition ring_clear :: "hash_ring \<Rightarrow> hash_ring" where
  "ring_clear r = r\<lparr>service_instances := Map.empty, service_ring := Map.empty\<rparr>"

section \<open>NodeRegistry\<close>

record node_info =
  node_id :: string
  listen_addr :: string
  listen_port :: "16 word"
  node_type :: string
  online :: bool

record registry =
  nodes :: "string \<rightharpoonup> node_info"
  ch_balancer :: hash_ring

definition registry_init :: registry where
  "registry_init = \<lparr>nodes = Map.empty, ch_balancer = ring_init 160\<rparr>"

definition register_node ::
    "(vnode list \<Rightarrow> vnode list) \<Rightarrow> registry \<Rightarrow> string \<Rightarrow> string \<Rightarrow> 16 word \<Rightarrow> string \<Rightarrow> registry" where
  "register_node srt g nid addr port ty =
     g\<lparr>nodes := (nodes g)(nid \<mapsto> \<lparr>node_id = nid, listen_addr = addr, listen_port = port,
                                   node_type = ty, online = True\<rparr>),
       ch_balancer := add_instance srt (ch_balancer g) ty nid 1\<rparr>"

definition unregister_node :: "registry \<Rightarrow> string \<Rightarrow> registry" where
  "unregister_node g nid =
     (case nodes g nid of
        None \<Rightarrow> g
      | Some info \<Rightarrow> g\<lparr>nodes := (nodes g)(nid \<mapsto> info\<lparr>online := False\<rparr>),
                       ch_balancer := remove_instance (ch_balancer g) (node_type info) nid\<rparr>)"

definition find_node :: "registry \<Rightarrow> string \<Rightarrow> node_info option" where
  "find_node g nid = (case nodes g nid of
      None \<Rightarrow> None | Some info \<Rightarrow> if online info then Some info else None)"

text \<open>The result vector follows the unspecified iteration order of the hash map: a set here.\<close>

definition find_nodes_by_type :: "registry \<Rightarrow> string \<Rightarrow> node_info set" where
  "find_nodes_by_type g ty =
     {info \<in> ran (nodes g). online info \<and> (ty = [] \<or> node_type info = ty)}"

definition select_node_by_hash :: "registry \<Rightarrow> string \<Rightarrow> string \<Rightarrow> node_info option" where
  "select_node_by_hash g key ty =
     (let service_group = (if ty = [] then ''__all__'' else ty)
      in case select_instance (ch_balancer g) service_group key of
           None \<Rightarrow> None
         | Some nid \<Rightarrow> (case nodes g nid of
               None \<Rightarrow> None
             | Some info \<Rightarrow> if online info then Some info else None))"

text \<open>The node list as \<^verbatim>\<open>yaml-cpp\<close> delivers it; \<open>None\<close> is a document without \<^verbatim>\<open>nodes\<close>.\<close>

fun load_nodes :: "(vnode list \<Rightarrow> vnode list) \<Rightarrow> registry \<Rightarrow> node_info list \<Rightarrow> registry" where
  "load_nodes srt g [] = g"
| "load_nodes srt g (n # ns) =
     (let info = n\<lparr>online := True\<rparr>
      in load_nodes srt
           (if node_id info \<noteq> [] \<and> listen_port info \<noteq> 0
            then g\<lparr>nodes := (nodes g)(node_id info \<mapsto> info),
                   ch_balancer := add_instance srt
                     (add_instance srt (ch_balancer g) (node_type info) (node_id info) 1)
                     ''__all__'' (node_id info) 1\<rparr>
            else g) ns)"

definition load_from_yaml_node ::
    "(vnode list \<Rightarrow> vnode list) \<Rightarrow> registry \<Rightarrow> node_info list option \<Rightarrow> bool \<times> registry" where
  "load_from_yaml_node srt g doc =
     (case doc of
        None \<Rightarrow> (False, g)
      | Some ns \<Rightarrow>
          let g' = load_nodes srt (g\<lparr>nodes := Map.empty, ch_balancer := ring_clear (ch_balancer g)\<rparr>) ns
          in (nodes g' \<noteq> Map.empty, g'))"

section \<open>Bisection finds the partition point\<close>

lemma lower_bound_loop_zero: "lower_bound_loop lt xs lo 0 = lo"
  by (subst lower_bound_loop.simps) simp

lemma lower_bound_loop_right:
  "0 < len \<Longrightarrow> lt (xs ! (lo + len div 2)) \<Longrightarrow>
     lower_bound_loop lt xs lo len = lower_bound_loop lt xs (Suc (lo + len div 2)) (len - len div 2 - 1)"
  by (subst lower_bound_loop.simps) (simp add: Let_def)

lemma lower_bound_loop_left:
  "0 < len \<Longrightarrow> \<not> lt (xs ! (lo + len div 2)) \<Longrightarrow>
     lower_bound_loop lt xs lo len = lower_bound_loop lt xs lo (len div 2)"
  by (subst lower_bound_loop.simps) simp

lemma lower_bound_loop_partition:
  assumes "\<forall>i<lo. lt (xs ! i)" and "\<forall>i. lo + len \<le> i \<longrightarrow> i < length xs \<longrightarrow> \<not> lt (xs ! i)"
    and "lo + len \<le> length xs"
    and mono: "\<And>i j. i \<le> j \<Longrightarrow> j < length xs \<Longrightarrow> lt (xs ! j) \<Longrightarrow> lt (xs ! i)"
  shows "lower_bound_loop lt xs lo len \<le> length xs \<and>
    (\<forall>i<lower_bound_loop lt xs lo len. lt (xs ! i)) \<and>
    (\<forall>i. lower_bound_loop lt xs lo len \<le> i \<longrightarrow> i < length xs \<longrightarrow> \<not> lt (xs ! i))"
  using assms(1-3)
proof (induction len arbitrary: lo rule: less_induct)
  case (less len)
  let ?mid = "lo + len div 2"
  consider "len = 0" | "0 < len" "lt (xs ! ?mid)" | "0 < len" "\<not> lt (xs ! ?mid)" by blast
  then show ?case
  proof cases
    case 1
    with less.prems show ?thesis by (simp add: lower_bound_loop_zero)
  next
    case 2
    have "?mid < length xs" using 2 less.prems(3) by simp
    then have "\<forall>i<Suc ?mid. lt (xs ! i)" using mono 2(2) by (simp add: less_Suc_eq_le)
    moreover have "Suc ?mid + (len - len div 2 - 1) = lo + len" "len - len div 2 - 1 < len"
      using 2(1) by linarith+
    ultimately show ?thesis
      unfolding lower_bound_loop_right [of len lt, OF 2]
      using less.prems by (intro less.IH) (simp_all only:)
  next
    case 3
    have "\<forall>i. ?mid \<le> i \<longrightarrow> i < length xs \<longrightarrow> \<not> lt (xs ! i)" using mono 3(2) by blast
    then show ?thesis
      unfolding lower_bound_loop_left [of len lt, OF 3]
      using less.prems 3(1) by (intro less.IH) auto
  qed
qed

lemma lower_bound_sorted:
  assumes "sorted (map f xs)"
  shows "lower_bound (\<lambda>v. f v < h) xs = length (takeWhile (\<lambda>v. f v < h) xs)"
proof -
  let ?less = "\<lambda>v. f v < h" and ?r = "lower_bound (\<lambda>v. f v < h) xs"
  have "?less (xs ! i)" if "i \<le> j" "j < length xs" "?less (xs ! j)" for i j
    using assms that by (auto simp: sorted_iff_nth_mono dest: le_less_trans)
  from lower_bound_loop_partition [of 0 ?less xs "length xs", OF _ _ _ this]
  have "?r \<le> length xs" "\<forall>i<?r. ?less (xs ! i)" "?r < length xs \<Longrightarrow> \<not> ?less (xs ! ?r)"
    by (auto simp: lower_bound_def)
  then have "takeWhile ?less xs = take ?r xs" by (intro takeWhile_eq_take_P_nth) auto
  with \<open>?r \<le> length xs\<close> show ?thesis by simp
qed

section \<open>The owner of a key\<close>

definition owns :: "vnode list \<Rightarrow> 32 word \<Rightarrow> vnode \<Rightarrow> bool" where
  "owns ring h n \<longleftrightarrow> n \<in> set ring \<and>
     (if \<exists>m\<in>set ring. h \<le> hash_value m
      then h \<le> hash_value n \<and> (\<forall>m\<in>set ring. h \<le> hash_value m \<longrightarrow> hash_value n \<le> hash_value m)
      else \<forall>m\<in>set ring. hash_value n \<le> hash_value m)"

definition ring_owner :: "32 word \<Rightarrow> vnode list \<Rightarrow> vnode" where
  "ring_owner h ring =
     (let rest = dropWhile (\<lambda>v. hash_value v < h) ring in if rest = [] then hd ring else hd rest)"

definition ring_sorted :: "vnode list \<Rightarrow> bool" where
  "ring_sorted ring \<longleftrightarrow> sorted (map hash_value ring)"

lemma select_owner:
  assumes "service_ring r sid = Some ring" and "ring \<noteq> []" and "ring_sorted ring"
  shows "select_instance r sid key = Some (vn_instance (ring_owner (fnv_hash key) ring))"
proof -
  let ?P = "\<lambda>v. hash_value v < fnv_hash key"
  let ?i = "length (takeWhile ?P ring)"
  have i: "lower_bound ?P ring = ?i"
    using assms(3) by (intro lower_bound_sorted) (simp add: ring_sorted_def)
  have le: "?i \<le> length ring" by (rule length_takeWhile_le)
  have d: "dropWhile ?P ring = drop ?i ring" by (rule dropWhile_eq_drop)
  have "ring ! (if ?i = length ring then 0 else ?i) = ring_owner (fnv_hash key) ring"
    using le assms(2) unfolding ring_owner_def d
    by (simp add: hd_drop_conv_nth hd_conv_nth Let_def)
  with assms(1,2) i show ?thesis by (simp add: select_instance_def Let_def split: if_splits)
qed

lemma ring_owner_owns:
  assumes "ring \<noteq> []" and "ring_sorted ring"
  shows "owns ring h (ring_owner h ring)"
proof (cases "dropWhile (\<lambda>v. hash_value v < h) ring")
  case Nil
  then have "\<forall>m\<in>set ring. hash_value m < h" by (simp add: dropWhile_eq_Nil_conv)
  moreover have "\<forall>m\<in>set ring. hash_value (hd ring) \<le> hash_value m"
    using assms by (cases ring) (auto simp: ring_sorted_def)
  ultimately show ?thesis
    using Nil assms(1) by (auto simp: owns_def ring_owner_def Let_def)
next
  case (Cons n rest)
  let ?P = "\<lambda>v. hash_value v < h"
  have split: "ring = takeWhile ?P ring @ n # rest" using Cons takeWhile_dropWhile_id [of ?P ring] by simp
  have n: "h \<le> hash_value n" using Cons hd_dropWhile [of ?P ring] by simp
  have "sorted (map hash_value (n # rest))"
    using assms(2) split unfolding ring_sorted_def by (metis map_append sorted_append)
  moreover have "m \<in> set (n # rest)" if "m \<in> set ring" "h \<le> hash_value m" for m
    using that split set_takeWhileD [of m ?P ring] by (metis Un_iff linorder_not_le set_append)
  ultimately have "hash_value n \<le> hash_value m" if "m \<in> set ring" "h \<le> hash_value m" for m
    using that by fastforce
  moreover have "n \<in> set ring" using split by (metis in_set_conv_decomp)
  ultimately show ?thesis
    using n Cons by (auto simp: owns_def ring_owner_def Let_def)
qed

text \<open>Taking out nodes that do not own the key leaves its owner in place.\<close>

lemma ring_owner_filter:
  assumes "Q (ring_owner h ring)" and "ring \<noteq> []"
  shows "ring_owner h (filter Q ring) = ring_owner h ring" and "filter Q ring \<noteq> []"
proof -
  let ?P = "\<lambda>v. hash_value v < h"
  have split: "ring = takeWhile ?P ring @ dropWhile ?P ring" by simp
  have drop: "dropWhile ?P (filter Q ring) = dropWhile ?P (filter Q (dropWhile ?P ring))"
    by (subst split, subst filter_append, rule dropWhile_append2) (auto dest: set_takeWhileD)
  have "hd (dropWhile ?P ring) \<in> set ring" if "dropWhile ?P ring \<noteq> []"
    using hd_in_set [OF that] set_dropWhileD by metis
  then have "ring_owner h ring \<in> set ring" using assms(2) by (simp add: ring_owner_def Let_def)
  then show "filter Q ring \<noteq> []" using assms(1) by (auto simp: filter_empty_conv)
  show "ring_owner h (filter Q ring) = ring_owner h ring"
  proof (cases "dropWhile ?P ring")
    case Nil
    with assms drop show ?thesis by (cases ring) (simp_all add: ring_owner_def)
  next
    case (Cons n rest)
    then have "\<not> ?P n" using hd_dropWhile [of ?P ring] by simp
    with assms Cons drop show ?thesis by (simp add: ring_owner_def)
  qed
qed

section \<open>Contract of the sort, invariant of the ring\<close>

locale std_sort =
  fixes srt :: "vnode list \<Rightarrow> vnode list"
  assumes sort_permutes: "mset (srt xs) = mset xs"
    and sort_sorts: "ring_sorted (srt xs)"
begin

lemma set_sort: "set (srt xs) = set xs"
  using sort_permutes by (rule mset_eq_setD)

end

interpretation key_sort: std_sort "sort_key hash_value"
  by unfold_locales (simp_all add: ring_sorted_def)

definition ring_inv :: "hash_ring \<Rightarrow> bool" where
  "ring_inv r \<longleftrightarrow> (\<forall>sid. ring_sorted (entry (service_ring r) sid) \<and>
     mset (entry (service_ring r) sid) = mset (entry (service_instances r) sid))"

inductive ring_reachable :: "(vnode list \<Rightarrow> vnode list) \<Rightarrow> hash_ring \<Rightarrow> bool" for srt where
  init: "ring_reachable srt (ring_init n)"
| add: "ring_reachable srt r \<Longrightarrow> ring_reachable srt (add_instance srt r sid iid w)"
| remove: "ring_reachable srt r \<Longrightarrow> ring_reachable srt (remove_instance r sid iid)"
| clear: "ring_reachable srt r \<Longrightarrow> ring_reachable srt (ring_clear r)"

lemma entry_upd [simp]: "entry (m(k \<mapsto> xs)) k' = (if k' = k then xs else entry m k')"
  by (simp add: entry_def)

lemma entry_empty [simp]: "entry Map.empty k = []"
  by (simp add: entry_def)

lemma ring_sorted_filter: "ring_sorted ring \<Longrightarrow> ring_sorted (filter Q ring)"
  by (simp add: ring_sorted_def sorted_filter)

context std_sort
begin

lemma add_inv: "ring_inv r \<Longrightarrow> ring_inv (add_instance srt r sid iid w)"
  by (auto simp: ring_inv_def add_instance_def Let_def sort_permutes sort_sorts)

lemma remove_entry:
  assumes "ring_inv r"
  shows "entry (service_ring (remove_instance r sid iid)) sid' =
     (if sid' = sid then filter (\<lambda>v. vn_instance v \<noteq> iid) (entry (service_ring r) sid)
      else entry (service_ring r) sid')" (is ?ring)
    and "entry (service_instances (remove_instance r sid iid)) sid' =
     (if sid' = sid then filter (\<lambda>v. vn_instance v \<noteq> iid) (entry (service_instances r) sid)
      else entry (service_instances r) sid')" (is ?insts)
proof -
  have "?ring \<and> ?insts"
  proof (cases "service_instances r sid")
    case None
    then have i: "entry (service_instances r) sid = []" by (simp add: entry_def)
    moreover have "mset (entry (service_ring r) sid) = mset (entry (service_instances r) sid)"
      using assms by (simp add: ring_inv_def)
    ultimately show ?thesis using None by (simp add: remove_instance_def)
  next
    case (Some insts)
    then show ?thesis
      by (cases "service_ring r sid") (simp_all add: remove_instance_def, simp_all add: entry_def)
  qed
  then show ?ring ?insts by blast+
qed

lemma remove_inv: "ring_inv r \<Longrightarrow> ring_inv (remove_instance r sid iid)"
  by (simp add: ring_inv_def [of "remove_instance r sid iid"] remove_entry)
    (simp add: ring_inv_def ring_sorted_filter)

lemma ring_reachable_inv: "ring_reachable srt r \<Longrightarrow> ring_inv r"
proof (induction rule: ring_reachable.induct)
  case (init n)
  then show ?case by (simp add: ring_inv_def ring_init_def ring_sorted_def)
next
  case (clear r)
  then show ?case by (simp add: ring_inv_def ring_clear_def ring_sorted_def)
qed (simp_all add: add_inv remove_inv)

lemma add_entry:
  "entry (service_ring (add_instance srt r sid iid w)) sid' =
     (if sid' = sid
      then srt (entry (service_ring r) sid @ map (make_vnode sid iid) [0..<nat (virtual_nodes r * w)])
      else entry (service_ring r) sid')"
  by (simp add: add_instance_def Let_def)

lemma set_add_entry:
  "set (entry (service_ring (add_instance srt r sid iid w)) sid') =
     (if sid' = sid
      then set (entry (service_ring r) sid) \<union> make_vnode sid iid ` {0..<nat (virtual_nodes r * w)}
      else set (entry (service_ring r) sid'))"
  by (simp add: add_entry set_sort)

end

lemma make_vnode_instance [simp]: "vn_instance (make_vnode sid iid i) = iid"
  by (simp add: make_vnode_def Let_def)

lemma select_entry:
  assumes "ring_inv r"
  shows "select_instance r sid key =
    (let ring = entry (service_ring r) sid
     in if ring = [] then None else Some (vn_instance (ring_owner (fnv_hash key) ring)))"
proof (cases "service_ring r sid")
  case None
  then show ?thesis by (simp add: select_instance_def entry_def)
next
  case (Some ring)
  have "ring_sorted (entry (service_ring r) sid)" using assms by (simp add: ring_inv_def)
  with Some have "ring_sorted ring" by (simp add: entry_def)
  with Some select_owner [OF Some] show ?thesis
    by (cases "ring = []") (simp_all add: entry_def, simp add: select_instance_def)
qed

lemma owns_subset: "owns R' h n \<Longrightarrow> n \<in> set R \<Longrightarrow> set R \<subseteq> set R' \<Longrightarrow> owns R h n"
  by (auto simp: owns_def split: if_splits)

lemma owns_hash_unique: "owns R h m \<Longrightarrow> owns R h n \<Longrightarrow> hash_value m = hash_value n"
  by (auto simp: owns_def split: if_splits intro: order.antisym)

text \<open>No two instances of the ring have virtual nodes with the same hash.\<close>

definition collision_free :: "vnode list \<Rightarrow> bool" where
  "collision_free ring \<longleftrightarrow>
     (\<forall>m\<in>set ring. \<forall>n\<in>set ring. hash_value m = hash_value n \<longrightarrow> vn_instance m = vn_instance n)"

lemma collision_freeD:
  "collision_free ring \<Longrightarrow> m \<in> set ring \<Longrightarrow> n \<in> set ring \<Longrightarrow> hash_value m = hash_value n \<Longrightarrow>
     vn_instance m = vn_instance n"
  unfolding collision_free_def by blast

context std_sort
begin

lemma add_monotone:
  assumes inv: "ring_inv r"
    and cf: "collision_free (entry (service_ring (add_instance srt r sid iid w)) sid)"
    and sel: "select_instance (add_instance srt r sid iid w) sid key = Some j"
  shows "j = iid \<or> select_instance r sid key = Some j"
proof -
  let ?R = "entry (service_ring r) sid" and ?h = "fnv_hash key"
  let ?R' = "entry (service_ring (add_instance srt r sid iid w)) sid"
  let ?n = "ring_owner ?h ?R'"
  have inv': "ring_inv (add_instance srt r sid iid w)" using inv by (rule add_inv)
  have ne: "?R' \<noteq> []" and j: "vn_instance ?n = j"
    using sel unfolding select_entry [OF inv'] Let_def by (simp_all split: if_splits)
  have own: "owns ?R' ?h ?n" using ne inv' by (intro ring_owner_owns) (auto simp: ring_inv_def)
  show ?thesis
  proof (cases "?n \<in> set ?R")
    case True
    have sub: "set ?R \<subseteq> set ?R'" by (simp add: set_add_entry)
    have ne': "?R \<noteq> []" using True by auto
    have o: "owns ?R ?h (ring_owner ?h ?R)"
      using ne' inv by (intro ring_owner_owns) (auto simp: ring_inv_def)
    moreover have "owns ?R ?h ?n" using own True sub by (rule owns_subset)
    ultimately have "hash_value (ring_owner ?h ?R) = hash_value ?n" by (rule owns_hash_unique)
    moreover have "ring_owner ?h ?R \<in> set ?R" using o by (simp add: owns_def)
    ultimately have "vn_instance (ring_owner ?h ?R) = vn_instance ?n"
      using sub True by (intro collision_freeD [OF cf]) auto
    with ne' j show ?thesis unfolding select_entry [OF inv] Let_def by simp
  next
    case False
    moreover have "?n \<in> set ?R'" using own by (simp add: owns_def)
    ultimately have "?n \<in> make_vnode sid iid ` {0..<nat (virtual_nodes r * w)}"
      unfolding set_add_entry by simp
    then have "vn_instance ?n = iid" by auto
    with j show ?thesis by simp
  qed
qed

lemma remove_stable:
  assumes inv: "ring_inv r" and sel: "select_instance r sid key = Some j" and "j \<noteq> iid"
  shows "select_instance (remove_instance r sid iid) sid key = Some j"
proof -
  let ?R = "entry (service_ring r) sid" and ?h = "fnv_hash key"
  have ne: "?R \<noteq> []" and j: "vn_instance (ring_owner ?h ?R) = j"
    using sel unfolding select_entry [OF inv] Let_def by (simp_all split: if_splits)
  have "ring_owner ?h (filter (\<lambda>v. vn_instance v \<noteq> iid) ?R) = ring_owner ?h ?R"
    "filter (\<lambda>v. vn_instance v \<noteq> iid) ?R \<noteq> []"
    using ring_owner_filter [of "\<lambda>v. vn_instance v \<noteq> iid" ?h, OF _ ne] j assms(3) by simp_all
  then show ?thesis
    using j by (simp add: select_entry [OF remove_inv [OF inv]] remove_entry [OF inv] Let_def)
qed

end

section \<open>The node registry\<close>

definition reg_inv :: "registry \<Rightarrow> bool" where
  "reg_inv g \<longleftrightarrow> ring_inv (ch_balancer g) \<and> virtual_nodes (ch_balancer g) = 160 \<and>
     (\<forall>sid v. v \<in> set (entry (service_ring (ch_balancer g)) sid) \<longrightarrow>
        (\<exists>info. nodes g (vn_instance v) = Some info \<and> online info \<and> node_type info = sid)) \<and>
     (\<forall>nid info. nodes g nid = Some info \<and> online info \<longrightarrow>
        (\<exists>v\<in>set (entry (service_ring (ch_balancer g)) (node_type info)). vn_instance v = nid))"

text \<open>Registrations and removals in which a node never changes its type.\<close>

inductive reg_stable :: "(vnode list \<Rightarrow> vnode list) \<Rightarrow> registry \<Rightarrow> bool" for srt where
  init: "reg_stable srt registry_init"
| register: "reg_stable srt g \<Longrightarrow> (\<And>info. nodes g nid = Some info \<Longrightarrow> node_type info = ty) \<Longrightarrow>
    reg_stable srt (register_node srt g nid addr port ty)"
| unregister: "reg_stable srt g \<Longrightarrow> reg_stable srt (unregister_node g nid)"

context std_sort
begin

lemma register_node_inv:
  assumes inv: "reg_inv g" and ty: "\<And>info. nodes g nid = Some info \<Longrightarrow> node_type info = ty"
  shows "reg_inv (register_node srt g nid addr port ty)"
proof -
  let ?r = "ch_balancer g" and ?r' = "add_instance srt (ch_balancer g) ty nid 1"
  have r: "ring_inv ?r" "virtual_nodes ?r = 160" using inv by (simp_all add: reg_inv_def)
  have new: "make_vnode ty nid 0 \<in> set (entry (service_ring ?r') ty)"
    by (simp add: set_add_entry r(2))
  have old: "set (entry (service_ring ?r) sid) \<subseteq> set (entry (service_ring ?r') sid)" for sid
    by (simp add: set_add_entry)
  have "\<exists>info. (nodes (register_node srt g nid addr port ty)) (vn_instance v) = Some info \<and>
      online info \<and> node_type info = sid"
    if v: "v \<in> set (entry (service_ring ?r') sid)" for v sid
  proof (cases "v \<in> set (entry (service_ring ?r) sid)")
    case True
    then obtain info where "nodes g (vn_instance v) = Some info" "online info" "node_type info = sid"
      using inv by (auto simp: reg_inv_def)
    with ty show ?thesis by (auto simp: register_node_def)
  next
    case False
    with v show ?thesis by (auto simp: set_add_entry register_node_def split: if_splits)
  qed
  moreover have "\<exists>v\<in>set (entry (service_ring ?r') (node_type info)). vn_instance v = n"
    if "nodes (register_node srt g nid addr port ty) n = Some info" "online info" for n info
  proof (cases "n = nid")
    case True
    with that have "node_type info = ty" by (auto simp: register_node_def)
    with new True show ?thesis by (metis make_vnode_instance)
  next
    case False
    with that have "nodes g n = Some info" by (simp add: register_node_def)
    with inv that(2) old show ?thesis unfolding reg_inv_def by blast
  qed
  moreover have "ch_balancer (register_node srt g nid addr port ty) = ?r'"
    by (simp add: register_node_def)
  moreover have "virtual_nodes ?r' = 160" using r(2) by (simp add: add_instance_def Let_def)
  ultimately show ?thesis
    using add_inv [OF r(1)] unfolding reg_inv_def by presburger
qed

lemma remove_virtual_nodes [simp]: "virtual_nodes (remove_instance r sid iid) = virtual_nodes r"
  by (simp add: remove_instance_def split: option.split)

lemma unregister_node_inv:
  assumes inv: "reg_inv g"
  shows "reg_inv (unregister_node g nid)"
proof (cases "nodes g nid")
  case (Some info)
  have r: "ring_inv (ch_balancer g)" using inv by (simp add: reg_inv_def)
  let ?r' = "remove_instance (ch_balancer g) (node_type info) nid"
  have un: "ch_balancer (unregister_node g nid) = ?r'"
    "nodes (unregister_node g nid) = (nodes g)(nid \<mapsto> info\<lparr>online := False\<rparr>)"
    using Some by (simp_all add: unregister_node_def)
  note rem = remove_entry(1) [OF r]
  have "\<exists>i. nodes (unregister_node g nid) (vn_instance v) = Some i \<and> online i \<and> node_type i = sid"
    if v: "v \<in> set (entry (service_ring ?r') sid)" for v sid
  proof -
    have "v \<in> set (entry (service_ring (ch_balancer g)) sid)"
      using v by (auto simp: rem split: if_splits)
    then obtain i where i: "nodes g (vn_instance v) = Some i" "online i" "node_type i = sid"
      using inv unfolding reg_inv_def by blast
    moreover have "vn_instance v \<noteq> nid"
      using v i Some by (auto simp: rem split: if_splits)
    ultimately show ?thesis by (simp add: un)
  qed
  moreover have "\<exists>v\<in>set (entry (service_ring ?r') (node_type i)). vn_instance v = n"
    if n: "nodes (unregister_node g nid) n = Some i" "online i" for n i
  proof -
    have "n \<noteq> nid" "nodes g n = Some i" using n by (auto simp: un split: if_splits)
    moreover from this(2) n(2) obtain v where
      "v \<in> set (entry (service_ring (ch_balancer g)) (node_type i))" "vn_instance v = n"
      using inv unfolding reg_inv_def by blast
    ultimately show ?thesis by (auto simp: rem)
  qed
  moreover have "virtual_nodes ?r' = 160" using inv by (simp add: reg_inv_def)
  ultimately show ?thesis
    using remove_inv [OF r] un(1) unfolding reg_inv_def by presburger
qed (use inv in \<open>simp add: unregister_node_def\<close>)

lemma reg_stable_inv: "reg_stable srt g \<Longrightarrow> reg_inv g"
proof (induction rule: reg_stable.induct)
  case init
  have "ring_inv (ring_init 160)" by (rule ring_reachable_inv) (rule ring_reachable.init)
  then show ?case by (simp add: reg_inv_def registry_init_def) (simp add: ring_init_def)
qed (simp_all add: register_node_inv unregister_node_inv)

end

text \<open>Any use of the registry that does not name the group \<^verbatim>\<open>__all__\<close> as a node type.\<close>

inductive reg_registered :: "(vnode list \<Rightarrow> vnode list) \<Rightarrow> registry \<Rightarrow> bool" for srt where
  init: "reg_registered srt registry_init"
| register: "reg_registered srt g \<Longrightarrow> ty \<noteq> ''__all__'' \<Longrightarrow>
    reg_registered srt (register_node srt g nid addr port ty)"
| unregister: "reg_registered srt g \<Longrightarrow> reg_registered srt (unregister_node g nid)"

lemma add_other_ring: "sid' \<noteq> sid \<Longrightarrow>
    service_ring (add_instance srt r sid iid w) sid' = service_ring r sid'"
  by (simp add: add_instance_def Let_def)

lemma remove_other_ring: "sid' \<noteq> sid \<Longrightarrow>
    service_ring (remove_instance r sid iid) sid' = service_ring r sid'"
  by (simp add: remove_instance_def split: option.split)

lemma reg_registered_no_all:
  "reg_registered srt g \<Longrightarrow> service_ring (ch_balancer g) ''__all__'' = None \<and>
     (\<forall>nid info. nodes g nid = Some info \<longrightarrow> node_type info \<noteq> ''__all__'')"
proof (induction rule: reg_registered.induct)
  case init
  show ?case by (simp add: registry_init_def ring_init_def)
next
  case (register g ty nid addr port)
  then have "service_ring (add_instance srt (ch_balancer g) ty nid 1) ''__all__'' = None"
    by (metis add_other_ring)
  with register show ?case by (simp add: register_node_def)
next
  case (unregister g nid)
  have "service_ring (remove_instance (ch_balancer g) (node_type info) nid) ''__all__'' = None"
    if "nodes g nid = Some info" for info
    using unregister.IH that remove_other_ring by metis
  with unregister.IH show ?case by (cases "nodes g nid") (auto simp: unregister_node_def)
qed

lemma reg_select:
  assumes "reg_inv g" and "ty \<noteq> []"
  shows "(select_node_by_hash g key ty = None \<longleftrightarrow> find_nodes_by_type g ty = {}) \<and>
    (\<forall>info. select_node_by_hash g key ty = Some info \<longrightarrow> info \<in> find_nodes_by_type g ty)"
proof -
  let ?R = "entry (service_ring (ch_balancer g)) ty"
  have r: "ring_inv (ch_balancer g)"
    and fwd: "\<And>v. v \<in> set ?R \<Longrightarrow> \<exists>info. nodes g (vn_instance v) = Some info \<and> online info \<and> node_type info = ty"
    and bwd: "\<And>nid info. nodes g nid = Some info \<Longrightarrow> online info \<Longrightarrow> node_type info = ty \<Longrightarrow> ?R \<noteq> []"
    using assms(1) unfolding reg_inv_def by fastforce+
  show ?thesis
  proof (cases "?R = []")
    case True
    then have "select_node_by_hash g key ty = None"
      using assms(2) by (simp add: select_node_by_hash_def select_entry [OF r])
    moreover have "find_nodes_by_type g ty = {}"
      using bwd True assms(2) by (auto simp: find_nodes_by_type_def ran_def)
    ultimately show ?thesis by simp
  next
    case False
    let ?n = "ring_owner (fnv_hash key) ?R"
    have "owns ?R (fnv_hash key) ?n"
      using False r by (intro ring_owner_owns) (auto simp: ring_inv_def)
    then obtain info where info: "nodes g (vn_instance ?n) = Some info" "online info" "node_type info = ty"
      using fwd unfolding owns_def by blast
    then have "select_node_by_hash g key ty = Some info"
      using False assms(2) by (simp add: select_node_by_hash_def select_entry [OF r] Let_def)
    moreover have "info \<in> find_nodes_by_type g ty"
      using info by (auto simp: find_nodes_by_type_def ran_def)
    ultimately show ?thesis by auto
  qed
qed

definition example_ring :: hash_ring where
  "example_ring = add_instance (sort_key hash_value)
     (add_instance (sort_key hash_value) (ring_init 1) ''s'' ''a'' 1) ''s'' ''b'' 1"

lemma example_ring_reachable: "ring_reachable (sort_key hash_value) example_ring"
  unfolding example_ring_def by (intro ring_reachable.intros)

section \<open>Properties\<close>

text \<open>
  C17. Selection on the ring: in every reachable ring and for every key, the bisection picks the
  first virtual node clockwise from the key's hash (the least hash not below it, or the least
  hash of all when there is none), and selection fails only on an empty ring.
\<close>

theorem ring_select_first_clockwise:
  assumes "std_sort srt" and "ring_reachable srt r"
  shows "if entry (service_ring r) sid = [] then select_instance r sid key = None
    else \<exists>n. owns (entry (service_ring r) sid) (fnv_hash key) n \<and>
           select_instance r sid key = Some (vn_instance n)"
proof -
  have r: "ring_inv r" using assms by (rule std_sort.ring_reachable_inv)
  then have "ring_sorted (entry (service_ring r) sid)" by (simp add: ring_inv_def)
  then show ?thesis
    using ring_owner_owns by (auto simp: select_entry [OF r] Let_def)
qed

theorem ring_select_first_clockwise_witness:
  "\<exists>n. owns (entry (service_ring example_ring) ''s'') (fnv_hash ''k'') n \<and>
     select_instance example_ring ''s'' ''k'' = Some (vn_instance n)"
proof -
  have "entry (service_ring example_ring) ''s'' \<noteq> []" by code_simp
  then show ?thesis
    using ring_select_first_clockwise [OF key_sort.std_sort_axioms example_ring_reachable,
        of "''s''" "''k''"] by simp
qed

text \<open>
  C18. Minimal disruption on removal: a key that was not served by the removed instance keeps
  its instance, hash collisions included.
\<close>

theorem ring_remove_stable:
  assumes "std_sort srt" and "ring_reachable srt r"
    and "select_instance r sid key = Some j" and "j \<noteq> iid"
  shows "select_instance (remove_instance r sid iid) sid key = Some j"
  using std_sort.remove_stable [OF assms(1) std_sort.ring_reachable_inv [OF assms(1,2)] assms(3,4)] .

theorem ring_remove_stable_witness:
  "select_instance (remove_instance example_ring ''s'' ''b'') ''s'' ''k'' = Some ''a''"
proof (rule ring_remove_stable [OF key_sort.std_sort_axioms example_ring_reachable])
  show "select_instance example_ring ''s'' ''k'' = Some ''a''" by code_simp
qed simp

text \<open>
  Minimal disruption on addition: when no two instances collide on a hash, adding an
  instance moves keys only to that instance, for any weight and any sort that \<^verbatim>\<open>std::sort\<close>'s
  contract allows.
\<close>

lemma ring_add_monotone:
  assumes "std_sort srt" and "ring_reachable srt r"
    and "collision_free (entry (service_ring (add_instance srt r sid iid w)) sid)"
    and "select_instance (add_instance srt r sid iid w) sid key = Some j"
  shows "j = iid \<or> select_instance r sid key = Some j"
  using std_sort.add_monotone [OF assms(1) std_sort.ring_reachable_inv [OF assms(1,2)] assms(3,4)] .

text \<open>
  Node selection by type: as long as no node is re-registered under another type, hashing
  over a node type fails exactly when the type has no online node and otherwise returns an
  online node of that type, through any registrations and removals.
\<close>

lemma registry_select_by_type:
  assumes "std_sort srt" and "reg_stable srt g" and "ty \<noteq> []"
  shows "(select_node_by_hash g key ty = None \<longleftrightarrow> find_nodes_by_type g ty = {}) \<and>
    (\<forall>info. select_node_by_hash g key ty = Some info \<longrightarrow> info \<in> find_nodes_by_type g ty)"
  using reg_select [OF std_sort.reg_stable_inv [OF assms(1,2)] assms(3)] .

text \<open>
  Selection over all nodes does not see registered nodes: with an empty type the code looks
  in the group \<^verbatim>\<open>__all__\<close>, which \<^verbatim>\<open>register_node\<close> never fills, so it fails whatever nodes were
  registered (only the YAML loader fills the group).
\<close>

lemma registry_select_all_fails:
  assumes "reg_registered srt g"
  shows "select_node_by_hash g key [] = None"
  using reg_registered_no_all [OF assms] by (simp add: select_node_by_hash_def select_instance_def)

end
