(* ===== verification/Discovery.thy ===== *)
theory Discovery
  imports Chwell_Prelude
begin

text \<open>
  \<^verbatim>\<open>src/discovery/service_discovery.cpp\<close>: the in-memory service registry with its secondary
  index from services to instances, heartbeats and the expiry sweep of the cleanup thread.

  Hash containers are maps and sets; where the code walks one, the order is unspecified and is
  the parameter \<open>order\<close>, an enumeration of a finite set. Listener callbacks are opaque values:
  an operation returns the calls it makes.
\<close>

section \<open>State\<close>

record service_instance =
  service_id :: string
  instance_id :: string
  host :: string
  port :: "16 word"
  metadata :: "string \<rightharpoonup> string"
  register_time :: int
  heartbeat_time :: int
  is_alive_flag :: bool

record 'l discovery =
  instances :: "string \<rightharpoonup> service_instance"
  service_index :: "string \<rightharpoonup> string set"
  listeners :: "string \<rightharpoonup> 'l list"
  heartbeat_timeout_ms :: int
  cleanup_interval_ms :: int

definition disc_init :: "int \<Rightarrow> int \<Rightarrow> 'l discovery" where
  "disc_init timeout interval = \<lparr>instances = Map.empty, service_index = Map.empty,
     listeners = Map.empty, heartbeat_timeout_ms = timeout, cleanup_interval_ms = interval\<rparr>"

section \<open>Operations\<close>

definition index_insert :: "(string \<rightharpoonup> string set) \<Rightarrow> string \<Rightarrow> string \<Rightarrow> (string \<rightharpoonup> string set)" where
  "index_insert idx sid iid = idx(sid \<mapsto> insert iid (case idx sid of None \<Rightarrow> {} | Some s \<Rightarrow> s))"

definition index_erase :: "(string \<rightharpoonup> string set) \<Rightarrow> string \<Rightarrow> string \<Rightarrow> (string \<rightharpoonup> string set)" where
  "index_erase idx sid iid =
     (case idx sid of
        None \<Rightarrow> idx
      | Some s \<Rightarrow> if s - {iid} = {} then idx(sid := None) else idx(sid \<mapsto> s - {iid}))"

definition register_service ::
    "'l discovery \<Rightarrow> int \<Rightarrow> service_instance \<Rightarrow>
     bool \<times> ('l \<times> string \<times> service_instance) list \<times> 'l discovery" where
  "register_service d now inst =
     (let iid = instance_id inst
      in if iid = [] then (False, [], d)
         else if instances d iid \<noteq> None then (False, [], d)
         else let new = inst\<lparr>register_time := now, heartbeat_time := now, is_alive_flag := True\<rparr>;
                  d' = d\<lparr>instances := (instances d)(iid \<mapsto> new),
                         service_index := index_insert (service_index d) (service_id new) iid\<rparr>;
                  calls = (case listeners d (service_id new) of
                             None \<Rightarrow> []
                           | Some ls \<Rightarrow> map (\<lambda>l. (l, service_id new, new)) ls)
              in (True, calls, d'))"

text \<open>The erase sequence shared by \<^verbatim>\<open>deregister_service\<close> and the expiry sweep.\<close>

definition erase_instance :: "'l discovery \<Rightarrow> string \<Rightarrow> 'l discovery" where
  "erase_instance d iid =
     (case instances d iid of
        None \<Rightarrow> d
      | Some inst \<Rightarrow>
          d\<lparr>instances := (instances d)(iid := None),
            service_index := index_erase (service_index d) (service_id inst) iid\<rparr>)"

definition deregister_service :: "'l discovery \<Rightarrow> string \<Rightarrow> bool \<times> 'l discovery" where
  "deregister_service d iid =
     (if instances d iid = None then (False, d) else (True, erase_instance d iid))"

definition heartbeat :: "'l discovery \<Rightarrow> int \<Rightarrow> string \<Rightarrow> bool \<times> 'l discovery" where
  "heartbeat d now iid =
     (case instances d iid of
        None \<Rightarrow> (False, d)
      | Some inst \<Rightarrow> (True, d\<lparr>instances := (instances d)
            (iid \<mapsto> inst\<lparr>heartbeat_time := now, is_alive_flag := True\<rparr>)\<rparr>))"

definition discover_services ::
    "(string set \<Rightarrow> string list) \<Rightarrow> 'l discovery \<Rightarrow> string \<Rightarrow> service_instance list" where
  "discover_services order d sid =
     (case service_index d sid of
        None \<Rightarrow> []
      | Some ids \<Rightarrow>
          concat (map (\<lambda>iid. case instances d iid of
                          None \<Rightarrow> []
                        | Some inst \<Rightarrow> if is_alive_flag inst then [inst] else []) (order ids)))"

definition get_service_instance :: "'l discovery \<Rightarrow> string \<Rightarrow> service_instance option" where
  "get_service_instance d iid = instances d iid"

definition add_listener :: "'l discovery \<Rightarrow> string \<Rightarrow> 'l \<Rightarrow> 'l discovery" where
  "add_listener d sid l = d\<lparr>listeners := (listeners d)
     (sid \<mapsto> (case listeners d sid of None \<Rightarrow> [] | Some ls \<Rightarrow> ls) @ [l])\<rparr>"

definition remove_listener :: "'l discovery \<Rightarrow> string \<Rightarrow> 'l discovery" where
  "remove_listener d sid = d\<lparr>listeners := (listeners d)(sid := None)\<rparr>"

definition get_all_services :: "(string set \<Rightarrow> string list) \<Rightarrow> 'l discovery \<Rightarrow> string list" where
  "get_all_services order d = order (dom (service_index d))"

definition is_alive :: "'l discovery \<Rightarrow> string \<Rightarrow> bool" where
  "is_alive d iid = (case instances d iid of None \<Rightarrow> False | Some inst \<Rightarrow> is_alive_flag inst)"

definition expired :: "'l discovery \<Rightarrow> int \<Rightarrow> string \<Rightarrow> bool" where
  "expired d now iid =
     (case instances d iid of
        None \<Rightarrow> False
      | Some inst \<Rightarrow> is_alive_flag inst \<and> heartbeat_timeout_ms d < now - heartbeat_time inst)"

definition cleanup_expired_instances ::
    "(string set \<Rightarrow> string list) \<Rightarrow> 'l discovery \<Rightarrow> int \<Rightarrow> 'l discovery" where
  "cleanup_expired_instances order d now =
     foldl erase_instance d (filter (expired d now) (order (dom (instances d))))"

section \<open>The index invariant\<close>

definition disc_inv :: "'l discovery \<Rightarrow> bool" where
  "disc_inv d \<longleftrightarrow>
     finite (dom (instances d)) \<and>
     (\<forall>iid inst. instances d iid = Some inst \<longrightarrow> instance_id inst = iid \<and> is_alive_flag inst) \<and>
     (\<forall>sid. service_index d sid =
        (let ids = {iid. \<exists>inst. instances d iid = Some inst \<and> service_id inst = sid}
         in if ids = {} then None else Some ids))"

text \<open>The set of instances of one service, read off the instance table.\<close>

definition registered :: "'l discovery \<Rightarrow> string \<Rightarrow> service_instance set" where
  "registered d sid = {inst. \<exists>iid. instances d iid = Some inst \<and> service_id inst = sid}"

lemma disc_inv_init: "disc_inv (disc_init timeout interval)"
  by (simp add: disc_inv_def disc_init_def)

definition ids_of :: "(string \<rightharpoonup> service_instance) \<Rightarrow> string \<Rightarrow> string set" where
  "ids_of t sid = {iid. \<exists>inst. t iid = Some inst \<and> service_id inst = sid}"

definition index_of :: "(string \<rightharpoonup> service_instance) \<Rightarrow> (string \<rightharpoonup> string set)" where
  "index_of t sid = (if ids_of t sid = {} then None else Some (ids_of t sid))"

lemma disc_inv_alt:
  "disc_inv d \<longleftrightarrow> finite (dom (instances d)) \<and>
     (\<forall>iid inst. instances d iid = Some inst \<longrightarrow> instance_id inst = iid \<and> is_alive_flag inst) \<and>
     service_index d = index_of (instances d)"
  by (simp add: disc_inv_def index_of_def ids_of_def fun_eq_iff Let_def)

lemma ids_of_add:
  "t iid = None \<Longrightarrow> ids_of (t(iid \<mapsto> inst)) sid =
     (if sid = service_id inst then insert iid (ids_of t sid) else ids_of t sid)"
  by (auto simp: ids_of_def)

lemma ids_of_del:
  "t iid = Some inst \<Longrightarrow> ids_of (t(iid := None)) sid =
     (if sid = service_id inst then ids_of t sid - {iid} else ids_of t sid)"
  by (auto simp: ids_of_def)

lemma ids_of_same_service:
  "t iid = Some inst \<Longrightarrow> service_id inst' = service_id inst \<Longrightarrow>
     ids_of (t(iid \<mapsto> inst')) sid = ids_of t sid"
  by (auto simp: ids_of_def)

lemma index_insert_index_of:
  "t iid = None \<Longrightarrow> index_insert (index_of t) (service_id inst) iid = index_of (t(iid \<mapsto> inst))"
  by (rule ext) (simp add: index_insert_def index_of_def ids_of_add)

lemma index_erase_index_of:
  assumes "t iid = Some inst"
  shows "index_erase (index_of t) (service_id inst) iid = index_of (t(iid := None))"
proof -
  have "iid \<in> ids_of t (service_id inst)" using assms by (simp add: ids_of_def)
  then have "ids_of t (service_id inst) \<noteq> {}" by auto
  then show ?thesis
    by (intro ext) (simp add: index_erase_def index_of_def ids_of_del [of t, OF assms])
qed

lemma index_of_same_service:
  "t iid = Some inst \<Longrightarrow> service_id inst' = service_id inst \<Longrightarrow> index_of (t(iid \<mapsto> inst')) = index_of t"
  by (rule ext) (simp add: index_of_def ids_of_same_service)

lemma register_inv: "disc_inv d \<Longrightarrow> disc_inv (snd (snd (register_service d now inst)))"
  using index_insert_index_of [of "instances d" "instance_id inst"
      "inst\<lparr>register_time := now, heartbeat_time := now, is_alive_flag := True\<rparr>"]
  by (simp add: disc_inv_alt register_service_def Let_def)

lemma erase_instance_instances: "instances (erase_instance d iid) = (instances d)(iid := None)"
  by (auto simp: erase_instance_def split: option.split)

lemma erase_inv: "disc_inv d \<Longrightarrow> disc_inv (erase_instance d iid)"
proof (cases "instances d iid")
  case (Some inst)
  assume "disc_inv d"
  with Some index_erase_index_of [of "instances d", OF Some] show ?thesis
    by (simp add: disc_inv_alt erase_instance_def)
qed (simp add: erase_instance_def)

lemma heartbeat_inv: "disc_inv d \<Longrightarrow> disc_inv (snd (heartbeat d now iid))"
  using index_of_same_service [of "instances d" iid]
  by (auto simp: disc_inv_alt heartbeat_def split: option.split)

lemma cleanup_inv: "disc_inv d \<Longrightarrow> disc_inv (cleanup_expired_instances order d now)"
proof -
  have "disc_inv d \<Longrightarrow> disc_inv (foldl erase_instance d xs)" for d :: "'a discovery" and xs
    by (induction xs arbitrary: d) (auto intro: erase_inv)
  then show "disc_inv d \<Longrightarrow> disc_inv (cleanup_expired_instances order d now)"
    by (simp add: cleanup_expired_instances_def)
qed

lemma listener_inv:
  "disc_inv (add_listener d sid l) = disc_inv d" "disc_inv (remove_listener d sid) = disc_inv d"
  by (simp_all add: disc_inv_def add_listener_def remove_listener_def)

text \<open>The states the registry can be in, whatever its clients and the cleanup thread do.\<close>

inductive disc_reachable :: "int \<Rightarrow> int \<Rightarrow> 'l discovery \<Rightarrow> bool" for timeout interval where
  init: "disc_reachable timeout interval (disc_init timeout interval)"
| register: "disc_reachable timeout interval d \<Longrightarrow>
    disc_reachable timeout interval (snd (snd (register_service d now inst)))"
| deregister: "disc_reachable timeout interval d \<Longrightarrow>
    disc_reachable timeout interval (snd (deregister_service d iid))"
| beat: "disc_reachable timeout interval d \<Longrightarrow>
    disc_reachable timeout interval (snd (heartbeat d now iid))"
| sweep: "disc_reachable timeout interval d \<Longrightarrow>
    disc_reachable timeout interval (cleanup_expired_instances order d now)"
| listen: "disc_reachable timeout interval d \<Longrightarrow>
    disc_reachable timeout interval (add_listener d sid l)"
| unlisten: "disc_reachable timeout interval d \<Longrightarrow>
    disc_reachable timeout interval (remove_listener d sid)"

lemma disc_reachable_inv: "disc_reachable timeout interval d \<Longrightarrow> disc_inv d"
  by (induction rule: disc_reachable.induct)
    (auto simp: disc_inv_init register_inv heartbeat_inv cleanup_inv listener_inv
      deregister_service_def intro: erase_inv)

section \<open>What a lookup returns\<close>

lemma foldl_erase_instances:
  "instances (foldl erase_instance d xs) = (\<lambda>iid. if iid \<in> set xs then None else instances d iid)"
  by (induction xs arbitrary: d) (auto simp: erase_instance_instances fun_eq_iff)

lemma registered_image:
  "registered d sid = (\<lambda>iid. the (instances d iid)) ` ids_of (instances d) sid"
  by (force simp: registered_def ids_of_def image_iff)

lemma discover_set:
  assumes "enumerates order" and "disc_inv d"
  shows "set (discover_services order d sid) = registered d sid"
    and "distinct (map instance_id (discover_services order d sid))"
proof -
  let ?ids = "ids_of (instances d) sid"
  have inv: "finite (dom (instances d))" "service_index d = index_of (instances d)"
    "\<And>iid inst. instances d iid = Some inst \<Longrightarrow> instance_id inst = iid \<and> is_alive_flag inst"
    using assms(2) by (auto simp: disc_inv_alt)
  have "?ids \<subseteq> dom (instances d)" by (auto simp: ids_of_def)
  then have "finite ?ids" using inv(1) finite_subset by blast
  then have ord: "set (order ?ids) = ?ids" "distinct (order ?ids)"
    using assms(1) by (auto simp: enumerates_def)
  have "concat (map (\<lambda>iid. case instances d iid of None \<Rightarrow> []
      | Some inst \<Rightarrow> if is_alive_flag inst then [inst] else []) xs) =
      map (\<lambda>iid. the (instances d iid)) xs" if "set xs \<subseteq> ?ids" for xs
    using that inv(3) by (induction xs) (auto simp: ids_of_def)
  then have d: "discover_services order d sid =
      (if ?ids = {} then [] else map (\<lambda>iid. the (instances d iid)) (order ?ids))"
    using ord(1) by (simp add: discover_services_def inv(2) index_of_def)
  show "set (discover_services order d sid) = registered d sid"
    unfolding d by (simp add: ord registered_image)
  have "map instance_id (map (\<lambda>iid. the (instances d iid)) xs) = xs" if "set xs \<subseteq> ?ids" for xs
    using that inv(3) by (induction xs) (auto simp: ids_of_def)
  then show "distinct (map instance_id (discover_services order d sid))"
    unfolding d using ord by simp
qed

lemma sweep_instances:
  assumes "enumerates order" and "disc_inv d"
  shows "instances (cleanup_expired_instances order d now) iid =
    (if expired d now iid then None else instances d iid)"
proof -
  have "set (order (dom (instances d))) = dom (instances d)"
    using assms by (auto simp: enumerates_def disc_inv_def)
  moreover have "expired d now iid \<Longrightarrow> iid \<in> dom (instances d)"
    by (auto simp: expired_def split: option.splits)
  ultimately show ?thesis
    by (auto simp: cleanup_expired_instances_def foldl_erase_instances)
qed

lemma registered_sweep:
  assumes "enumerates order" and "disc_inv d"
  shows "registered (cleanup_expired_instances order d now) sid =
    {inst \<in> registered d sid. now - heartbeat_time inst \<le> heartbeat_timeout_ms d}"
proof -
  have "is_alive_flag inst" if "instances d iid = Some inst" for iid inst
    using assms(2) that by (simp add: disc_inv_def)
  then have "expired d now iid \<longleftrightarrow> heartbeat_timeout_ms d < now - heartbeat_time inst"
    if "instances d iid = Some inst" for iid inst
    using that by (simp add: expired_def)
  then have "(\<exists>iid. (if expired d now iid then None else instances d iid) = Some inst) \<longleftrightarrow>
      (\<exists>iid. instances d iid = Some inst) \<and> now - heartbeat_time inst \<le> heartbeat_timeout_ms d"
    for inst
    by (metis linorder_not_le option.distinct(1))
  then show ?thesis
    by (auto simp: registered_def sweep_instances [OF assms])
qed

section \<open>Properties\<close>

text \<open>
  C33. The registry and its secondary index agree in every reachable state: a lookup returns
  every registered instance of the service exactly once and nothing else, and after the expiry
  sweep at time \<open>now\<close> it returns exactly those whose last heartbeat is at most the timeout ago.
\<close>

theorem discovery_lookup_exact:
  assumes "disc_reachable timeout interval d" and "enumerates order"
  shows "set (discover_services order d sid) = registered d sid \<and>
    distinct (map instance_id (discover_services order d sid)) \<and>
    set (discover_services order (cleanup_expired_instances order d now) sid) =
      {inst \<in> registered d sid. now - heartbeat_time inst \<le> heartbeat_timeout_ms d}"
  using assms disc_reachable_inv [OF assms(1)]
  by (simp add: discover_set registered_sweep cleanup_inv)

definition example_instance :: service_instance where
  "example_instance = \<lparr>service_id = ''game'', instance_id = ''g1'', host = ''h'', port = 1,
     metadata = Map.empty, register_time = 0, heartbeat_time = 0, is_alive_flag = False\<rparr>"

theorem discovery_lookup_exact_witness:
  "set (discover_services sorted_list_of_set
     (cleanup_expired_instances sorted_list_of_set
        (snd (snd (register_service (disc_init 30000 0 :: nat discovery) 100 example_instance))) 40000)
     ''game'') = {}"
proof -
  have "enumerates (sorted_list_of_set :: string set \<Rightarrow> string list)" by (simp add: enumerates_def)
  note exact = discovery_lookup_exact [OF disc_reachable.register [OF disc_reachable.init] this]
  have "heartbeat_time inst = 100"
    if "inst \<in> registered (snd (snd (register_service (disc_init 30000 0 :: nat discovery) 100
      example_instance))) ''game''" for inst
    using that by (auto simp: registered_def register_service_def disc_init_def
        example_instance_def Let_def split: if_splits)
  moreover have "heartbeat_timeout_ms (snd (snd (register_service (disc_init 30000 0 :: nat discovery)
      100 example_instance))) = 30000"
    by (simp add: register_service_def disc_init_def example_instance_def Let_def)
  ultimately show ?thesis
    unfolding exact [of 30000 0 100 example_instance "''game''" 40000, THEN conjunct2, THEN conjunct2]
    by fastforce
qed

end
