(* ===== verification/LoadBalancer.thy ===== *)
theory LoadBalancer
  imports Discovery
begin

text \<open>
  \<^verbatim>\<open>src/loadbalance/load_balancer.cpp\<close>: round robin, random and smooth weighted round robin
  behind the \<^verbatim>\<open>LoadBalancer\<close> interface. The discovery service is the argument \<open>disc\<close>, the
  lookup a balancer makes when its instance list is empty; \<open>Discovery\<close> models the service.
\<close>

section \<open>RoundRobinLoadBalancer\<close>

datatype lb_strategy = ROUND_ROBIN | RANDOM | LEAST_CONNECTIONS | WEIGHTED_ROUND_ROBIN | WEIGHTED_RANDOM

record rr_balancer =
  rr_strategy :: lb_strategy
  current_index :: "64 word"
  rr_instances :: "service_instance list"
  rr_weights :: "string \<rightharpoonup> int"

definition rr_init :: rr_balancer where
  "rr_init = \<lparr>rr_strategy = ROUND_ROBIN, current_index = 0, rr_instances = [], rr_weights = Map.empty\<rparr>"

definition rr_select ::
    "(string \<Rightarrow> service_instance list) \<Rightarrow> rr_balancer \<Rightarrow> string \<Rightarrow>
     service_instance option \<times> rr_balancer" where
  "rr_select disc b sid =
     (let insts = (if rr_instances b = [] then disc sid else rr_instances b);
          b1 = b\<lparr>rr_instances := insts\<rparr>
      in if insts = [] then (None, b1)
         else let index = unat (current_index b1) mod length insts
              in (Some (insts ! index), b1\<lparr>current_index := current_index b1 + 1\<rparr>))"

definition rr_update_instances :: "rr_balancer \<Rightarrow> service_instance list \<Rightarrow> rr_balancer" where
  "rr_update_instances b insts = b\<lparr>rr_instances := insts\<rparr>"

definition rr_set_weight :: "rr_balancer \<Rightarrow> string \<Rightarrow> int \<Rightarrow> rr_balancer" where
  "rr_set_weight b iid w = b\<lparr>rr_weights := (rr_weights b)(iid \<mapsto> w)\<rparr>"

definition rr_get_weight :: "rr_balancer \<Rightarrow> string \<Rightarrow> int" where
  "rr_get_weight b iid = (case rr_weights b iid of None \<Rightarrow> 1 | Some w \<Rightarrow> w)"

section \<open>RandomLoadBalancer\<close>

text \<open>
  \<open>draw n\<close> is the next value of \<^verbatim>\<open>uniform_int_distribution(0, n - 1)\<close> on the generator.
\<close>

record rnd_balancer =
  rnd_strategy :: lb_strategy
  rnd_instances :: "service_instance list"
  rnd_weights :: "string \<rightharpoonup> int"

definition rnd_select ::
    "(nat \<Rightarrow> nat) \<Rightarrow> (string \<Rightarrow> service_instance list) \<Rightarrow> rnd_balancer \<Rightarrow> string \<Rightarrow>
     service_instance option \<times> rnd_balancer" where
  "rnd_select draw disc b sid =
     (let insts = (if rnd_instances b = [] then disc sid else rnd_instances b);
          b1 = b\<lparr>rnd_instances := insts\<rparr>
      in if insts = [] then (None, b1)
         else (Some (insts ! draw (length insts)), b1))"

definition rnd_update_instances :: "rnd_balancer \<Rightarrow> service_instance list \<Rightarrow> rnd_balancer" where
  "rnd_update_instances b insts = b\<lparr>rnd_instances := insts\<rparr>"

section \<open>WeightedRoundRobinLoadBalancer\<close>

record wrr_balancer =
  wrr_strategy :: lb_strategy
  wrr_instances :: "service_instance list"
  wrr_weights :: "string \<rightharpoonup> int"
  current_weights :: "string \<rightharpoonup> int"

definition wrr_init :: wrr_balancer where
  "wrr_init = \<lparr>wrr_strategy = WEIGHTED_ROUND_ROBIN, wrr_instances = [],
     wrr_weights = Map.empty, current_weights = Map.empty\<rparr>"

definition wrr_get_weight :: "wrr_balancer \<Rightarrow> string \<Rightarrow> int" where
  "wrr_get_weight b iid = (case wrr_weights b iid of None \<Rightarrow> 1 | Some w \<Rightarrow> w)"

definition wrr_set_weight :: "wrr_balancer \<Rightarrow> string \<Rightarrow> int \<Rightarrow> wrr_balancer" where
  "wrr_set_weight b iid w = b\<lparr>wrr_weights := (wrr_weights b)(iid \<mapsto> w)\<rparr>"

text \<open>The first loop: total weight, and a zero entry for instances not seen before.\<close>

fun wrr_total :: "(string \<Rightarrow> int) \<Rightarrow> service_instance list \<Rightarrow> int \<Rightarrow> (string \<rightharpoonup> int) \<Rightarrow>
    int \<times> (string \<rightharpoonup> int)" where
  "wrr_total wt [] total_w cw = (total_w, cw)"
| "wrr_total wt (inst # insts) total_w cw =
     wrr_total wt insts (total_w + wt (instance_id inst))
       (if cw (instance_id inst) = None then cw(instance_id inst \<mapsto> 0) else cw)"

text \<open>The second loop: raise every current weight, remember the first largest one.\<close>

fun wrr_scan :: "(string \<Rightarrow> int) \<Rightarrow> service_instance list \<Rightarrow> nat \<Rightarrow> (string \<rightharpoonup> int) \<Rightarrow> nat \<Rightarrow> int \<Rightarrow>
    (string \<rightharpoonup> int) \<times> nat" where
  "wrr_scan wt [] i cw best_index max_weight = (cw, best_index)"
| "wrr_scan wt (inst # insts) i cw best_index max_weight =
     (let iid = instance_id inst;
          c = (case cw iid of None \<Rightarrow> 0 | Some c \<Rightarrow> c) + wt iid;
          cw' = cw(iid \<mapsto> c)
      in if max_weight < c then wrr_scan wt insts (i + 1) cw' i c
         else wrr_scan wt insts (i + 1) cw' best_index max_weight)"

definition wrr_select ::
    "(string \<Rightarrow> service_instance list) \<Rightarrow> wrr_balancer \<Rightarrow> string \<Rightarrow>
     service_instance option \<times> wrr_balancer" where
  "wrr_select disc b sid =
     (let insts = (if wrr_instances b = [] then sort_key instance_id (disc sid) else wrr_instances b);
          b1 = b\<lparr>wrr_instances := insts\<rparr>
      in if insts = [] then (None, b1)
         else if length insts = 1 then (Some (hd insts), b1)
         else let (total_w, cw) = wrr_total (wrr_get_weight b1) insts 0 (current_weights b1)
              in if total_w \<le> 0 then (None, b1\<lparr>current_weights := cw\<rparr>)
                 else let (cw', best) = wrr_scan (wrr_get_weight b1) insts 0 cw 0 (- 2147483648);
                          bid = instance_id (insts ! best)
                      in (Some (insts ! best),
                          b1\<lparr>current_weights := cw'(bid \<mapsto> (case cw' bid of None \<Rightarrow> 0 | Some c \<Rightarrow> c) - total_w)\<rparr>))"

definition wrr_update_instances :: "wrr_balancer \<Rightarrow> service_instance list \<Rightarrow> wrr_balancer" where
  "wrr_update_instances b insts = b\<lparr>wrr_instances := insts, current_weights := Map.empty\<rparr>"

section \<open>The interface\<close>

text \<open>
  What a caller of \<^verbatim>\<open>LoadBalancer::select_instance\<close> relies on: the selected instance is one of
  the instances the balancer knows afterwards, and those are the ones it had or, when it had
  none, the ones discovery returned (in some order).
\<close>

locale load_balancer =
  fixes select :: "(string \<Rightarrow> service_instance list) \<Rightarrow> 'b \<Rightarrow> string \<Rightarrow> service_instance option \<times> 'b"
    and known :: "'b \<Rightarrow> service_instance list"
  assumes select_known: "set (known (snd (select disc b sid))) =
      set (if known b = [] then disc sid else known b)"
    and select_member: "fst (select disc b sid) = Some x \<Longrightarrow> x \<in> set (known (snd (select disc b sid)))"
begin

fun picks :: "(string \<Rightarrow> service_instance list) \<Rightarrow> 'b \<Rightarrow> string \<Rightarrow> nat \<Rightarrow> service_instance option list" where
  "picks disc b sid 0 = []"
| "picks disc b sid (Suc n) = (let (x, b') = select disc b sid in x # picks disc b' sid n)"

text \<open>Once the list is filled, the balancer never asks discovery again.\<close>

lemma picks_cached:
  "known b \<noteq> [] \<Longrightarrow> Some x \<in> set (picks disc b sid n) \<Longrightarrow> x \<in> set (known b)"
proof (induction n arbitrary: b)
  case (Suc n)
  obtain y b' where s: "select disc b sid = (y, b')" by fastforce
  have k: "set (known b') = set (known b)" using select_known [of disc b sid] Suc.prems(1) s by simp
  then have "known b' \<noteq> []" using Suc.prems(1) by auto
  with Suc s k select_member [of disc b sid x] show ?case by auto
qed simp

end

lemma sort_key_eq_Nil: "sort_key f xs = [] \<longleftrightarrow> xs = []"
  by (metis set_empty set_sort)

lemma wrr_scan_best:
  "best < i \<or> insts \<noteq> [] \<and> max_weight < (case cw (instance_id (hd insts)) of None \<Rightarrow> 0 | Some c \<Rightarrow> c)
       + wt (instance_id (hd insts)) \<or> best < i + length insts \<Longrightarrow>
     snd (wrr_scan wt insts i cw best max_weight) < i + length insts"
  by (induction wt insts i cw best max_weight rule: wrr_scan.induct) (auto simp: Let_def)

interpretation rr: load_balancer rr_select rr_instances
proof unfold_locales
  fix disc b sid x
  show "set (rr_instances (snd (rr_select disc b sid))) =
      set (if rr_instances b = [] then disc sid else rr_instances b)"
    by (simp add: rr_select_def Let_def)
  show "fst (rr_select disc b sid) = Some x \<Longrightarrow> x \<in> set (rr_instances (snd (rr_select disc b sid)))"
    by (auto simp: rr_select_def Let_def split: if_splits)
qed

text \<open>Every draw in range is of the form \<open>draw n mod n\<close>.\<close>

interpretation rnd: load_balancer "rnd_select (\<lambda>n. draw n mod n)" rnd_instances
proof unfold_locales
  fix disc b sid x
  show "set (rnd_instances (snd (rnd_select (\<lambda>n. draw n mod n) disc b sid))) =
      set (if rnd_instances b = [] then disc sid else rnd_instances b)"
    by (simp add: rnd_select_def Let_def)
  show "fst (rnd_select (\<lambda>n. draw n mod n) disc b sid) = Some x \<Longrightarrow>
      x \<in> set (rnd_instances (snd (rnd_select (\<lambda>n. draw n mod n) disc b sid)))"
    by (auto simp: rnd_select_def Let_def split: if_splits)
qed

interpretation wrr: load_balancer wrr_select wrr_instances
proof unfold_locales
  fix disc b sid x
  show "set (wrr_instances (snd (wrr_select disc b sid))) =
      set (if wrr_instances b = [] then disc sid else wrr_instances b)"
    by (simp add: wrr_select_def Let_def sort_key_eq_Nil split: prod.split)
  let ?insts = "if wrr_instances b = [] then sort_key instance_id (disc sid) else wrr_instances b"
  have "?insts \<noteq> [] \<Longrightarrow> ?insts ! snd (wrr_scan wt ?insts 0 cw 0 m) \<in> set ?insts" for wt cw m
    using wrr_scan_best [of 0 0 ?insts m cw wt] by (intro nth_mem) simp
  moreover have "wrr_instances (snd (wrr_select disc b sid)) = ?insts"
    by (simp add: wrr_select_def Let_def split: prod.split)
  moreover assume "fst (wrr_select disc b sid) = Some x"
  ultimately show "x \<in> set (wrr_instances (snd (wrr_select disc b sid)))"
    unfolding wrr_select_def Let_def
    by (simp add: case_prod_beta split: if_splits)
      (metis hd_in_set set_sort, blast, metis hd_in_set, blast)
qed

section \<open>Smooth weighted round robin is fair\<close>

definition cwv :: "(string \<rightharpoonup> int) \<Rightarrow> service_instance \<Rightarrow> int" where
  "cwv cw inst = (case cw (instance_id inst) of None \<Rightarrow> 0 | Some c \<Rightarrow> c)"

lemma wrr_total_eq:
  "fst (wrr_total wt insts t cw) = t + (\<Sum>inst\<leftarrow>insts. wt (instance_id inst))"
  "cwv (snd (wrr_total wt insts t cw)) = cwv cw"
  by (induction wt insts t cw rule: wrr_total.induct) (auto simp: cwv_def fun_eq_iff)

lemma cwv_upd:
  "cwv (cw(iid \<mapsto> c)) inst = (if instance_id inst = iid then c else cwv cw inst)"
  by (simp add: cwv_def)

lemma wrr_scan_Cons:
  "wrr_scan wt (a # insts) i cw best mx =
     (let c = cwv cw a + wt (instance_id a); cw' = cw(instance_id a \<mapsto> c)
      in if mx < c then wrr_scan wt insts (i + 1) cw' i c else wrr_scan wt insts (i + 1) cw' best mx)"
  by (simp add: cwv_def Let_def)

declare wrr_scan.simps(2) [simp del]

lemma wrr_scan_other:
  "instance_id other \<notin> instance_id ` set insts \<Longrightarrow>
     cwv (fst (wrr_scan wt insts i cw best mx)) other = cwv cw other"
  by (induction insts arbitrary: i cw best mx) (auto simp: wrr_scan_Cons Let_def cwv_upd)

lemma wrr_scan_weights:
  "distinct (map instance_id insts) \<Longrightarrow> inst \<in> set insts \<Longrightarrow>
     cwv (fst (wrr_scan wt insts i cw best mx)) inst = cwv cw inst + wt (instance_id inst)"
proof (induction insts arbitrary: i cw best mx)
  case (Cons a insts)
  show ?case
  proof (cases "inst = a")
    case True
    with Cons.prems show ?thesis by (simp add: wrr_scan_Cons Let_def wrr_scan_other cwv_upd)
  next
    case False
    with Cons.prems have "inst \<in> set insts" "instance_id inst \<noteq> instance_id a"
      by (auto simp: image_iff)
    with Cons show ?thesis by (simp add: wrr_scan_Cons Let_def cwv_upd)
  qed
qed simp

text \<open>The scan returns the position of the first largest raised weight.\<close>

lemma wrr_scan_max:
  assumes "distinct (map instance_id insts)"
    and "\<And>inst. inst \<in> set insts \<Longrightarrow> val inst = cwv cw inst + wt (instance_id inst)"
    and "snd (wrr_scan wt insts i cw best mx) = b'"
  shows "(b' = best \<and> (\<forall>inst\<in>set insts. val inst \<le> mx)) \<or>
    (\<exists>j<length insts. b' = i + j \<and> mx < val (insts ! j) \<and> (\<forall>inst\<in>set insts. val inst \<le> val (insts ! j)))"
  using assms
proof (induction insts arbitrary: i cw best mx)
  case Nil
  then show ?case by simp
next
  case (Cons a insts)
  let ?cw = "cw(instance_id a \<mapsto> val a)"
  have va: "val a = cwv cw a + wt (instance_id a)" using Cons.prems(2) by simp
  have same: "val inst = cwv ?cw inst + wt (instance_id inst)" if "inst \<in> set insts" for inst
    using Cons.prems that by (auto simp: cwv_upd image_iff)
  have d: "distinct (map instance_id insts)" using Cons.prems(1) by simp
  show ?case
  proof (cases "mx < val a")
    case True
    then have "snd (wrr_scan wt insts (i + 1) ?cw i (val a)) = b'"
      using Cons.prems(3) by (simp add: wrr_scan_Cons Let_def va)
    from Cons.IH [OF d same this]
    consider "b' = i" "\<forall>inst\<in>set insts. val inst \<le> val a"
      | j where "j < length insts" "b' = i + 1 + j" "val a < val (insts ! j)"
          "\<forall>inst\<in>set insts. val inst \<le> val (insts ! j)"
      by blast
    then show ?thesis
    proof cases
      case 1
      then show ?thesis using True by (intro disjI2 exI [of _ 0]) simp
    next
      case 2
      then show ?thesis using True by (intro disjI2 exI [of _ "Suc j"]) auto
    qed
  next
    case False
    then have "snd (wrr_scan wt insts (i + 1) ?cw best mx) = b'"
      using Cons.prems(3) by (simp add: wrr_scan_Cons Let_def va)
    from Cons.IH [OF d same this]
    consider "b' = best" "\<forall>inst\<in>set insts. val inst \<le> mx"
      | j where "j < length insts" "b' = i + 1 + j" "mx < val (insts ! j)"
          "\<forall>inst\<in>set insts. val inst \<le> val (insts ! j)"
      by blast
    then show ?thesis
    proof cases
      case 1
      then show ?thesis using False by auto
    next
      case 2
      then show ?thesis using False by (intro disjI2 exI [of _ "Suc j"]) auto
    qed
  qed
qed

text \<open>
  The invariant of the algorithm: the current weights sum to zero and none has fallen a whole
  round (the total weight) behind.
\<close>

definition wrr_inv :: "service_instance list \<Rightarrow> wrr_balancer \<Rightarrow> bool" where
  "wrr_inv insts b \<longleftrightarrow>
     (let wt = wrr_get_weight b; W = (\<Sum>inst\<in>set insts. wt (instance_id inst)) in
      wrr_instances b = insts \<and> 2 \<le> length insts \<and> distinct (map instance_id insts) \<and>
      (\<forall>inst\<in>set insts. 0 \<le> wt (instance_id inst)) \<and> 0 < W \<and> W \<le> 2147483647 \<and>
      (\<Sum>inst\<in>set insts. cwv (current_weights b) inst) = 0 \<and>
      (\<forall>inst\<in>set insts. - W < cwv (current_weights b) inst))"

definition wrr_W :: "wrr_balancer \<Rightarrow> int" where
  "wrr_W b = (\<Sum>inst\<in>set (wrr_instances b). wrr_get_weight b (instance_id inst))"

lemma wrr_select_step:
  assumes inv: "wrr_inv insts b"
  shows "\<exists>x b'. wrr_select disc b sid = (Some x, b') \<and> x \<in> set insts \<and> wrr_inv insts b' \<and>
    wrr_weights b' = wrr_weights b \<and>
    (\<forall>inst\<in>set insts. cwv (current_weights b') inst =
       cwv (current_weights b) inst + wrr_get_weight b (instance_id inst)
       - (if inst = x then wrr_W b else 0))"
proof -
  let ?wt = "wrr_get_weight b" and ?W = "wrr_W b" and ?cw0 = "current_weights b"
  let ?val = "\<lambda>inst. cwv ?cw0 inst + ?wt (instance_id inst)"
  have i: "wrr_instances b = insts" "2 \<le> length insts" "distinct (map instance_id insts)"
    "\<And>inst. inst \<in> set insts \<Longrightarrow> 0 \<le> ?wt (instance_id inst)" "0 < ?W" "?W \<le> 2147483647"
    "(\<Sum>inst\<in>set insts. cwv ?cw0 inst) = 0"
    "\<And>inst. inst \<in> set insts \<Longrightarrow> - ?W < cwv ?cw0 inst"
    using inv by (auto simp: wrr_inv_def wrr_W_def Let_def)
  have dist: "distinct insts" using i(3) by (simp add: distinct_map)
  obtain t cw where tc: "wrr_total ?wt insts 0 ?cw0 = (t, cw)" by fastforce
  have t: "t = ?W" using wrr_total_eq(1) [of ?wt insts 0 ?cw0] tc i(1) dist
    by (simp add: wrr_W_def sum_list_distinct_conv_sum_set)
  have cw: "cwv cw = cwv ?cw0" using wrr_total_eq(2) [of ?wt insts 0 ?cw0] tc by simp
  obtain cw' best where sc: "wrr_scan ?wt insts 0 cw 0 (- 2147483648) = (cw', best)" by fastforce
  have sumval: "(\<Sum>inst\<in>set insts. ?val inst) = ?W"
    using i(1,7) by (simp add: sum.distrib wrr_W_def)
  have "\<not> (\<forall>inst\<in>set insts. ?val inst \<le> 0)"
    using sumval i(5) sum_nonpos [of "set insts" ?val] by fastforce
  then obtain p where p: "p \<in> set insts" "0 < ?val p" by (auto simp: not_le)
  with wrr_scan_max [OF i(3), of ?val cw ?wt 0 0 "- 2147483648" best] sc cw
  obtain best: "best < length insts" "\<forall>inst\<in>set insts. ?val inst \<le> ?val (insts ! best)"
    by fastforce
  let ?x = "insts ! best"
  have x: "?x \<in> set insts" "0 < ?val ?x" using best p by (auto intro: less_le_trans)
  let ?b' = "b\<lparr>current_weights := cw'(instance_id ?x \<mapsto> cwv cw' ?x - ?W)\<rparr>"
  have sel: "wrr_select disc b sid = (Some ?x, ?b')"
    using i(1,2,5) tc t sc by (auto simp: wrr_select_def Let_def cwv_def)
  have val: "cwv cw' inst = ?val inst" if "inst \<in> set insts" for inst
    using wrr_scan_weights [OF i(3) that, of ?wt 0 cw 0 "- 2147483648"] sc cw by simp
  have inj: "instance_id inst = instance_id ?x \<longleftrightarrow> inst = ?x" if "inst \<in> set insts" for inst
    using i(3) that x(1) by (auto simp: distinct_map inj_on_def)
  have new: "cwv (current_weights ?b') inst = ?val inst - (if inst = ?x then ?W else 0)"
    if "inst \<in> set insts" for inst
    using that x val inj by (simp add: cwv_upd)
  have "(\<Sum>inst\<in>set insts. cwv (current_weights ?b') inst) =
      (\<Sum>inst\<in>set insts. ?val inst - (if inst = ?x then ?W else 0))"
    using new by (intro sum.cong) auto
  also have "\<dots> = 0" using sumval x(1) by (simp add: sum_subtractf)
  finally have s0: "(\<Sum>inst\<in>set insts. cwv (current_weights ?b') inst) = 0" .
  have "- ?W < cwv (current_weights ?b') inst" if "inst \<in> set insts" for inst
    using new [OF that] i(4,8) [OF that] x(2) by (auto split: if_splits)
  moreover have "wrr_get_weight ?b' = ?wt" by (simp add: wrr_get_weight_def fun_eq_iff)
  ultimately have "wrr_inv insts ?b'"
    using i(1-6) s0 unfolding wrr_inv_def wrr_W_def Let_def by simp
  then show ?thesis using sel x(1) new by (intro exI [of _ ?x] exI [of _ ?b']) simp
qed

text \<open>A sequence of selections of one service.\<close>

fun wrr_run :: "(string \<Rightarrow> service_instance list) \<Rightarrow> wrr_balancer \<Rightarrow> string \<Rightarrow> nat \<Rightarrow>
    service_instance option list \<times> wrr_balancer" where
  "wrr_run disc b sid 0 = ([], b)"
| "wrr_run disc b sid (Suc n) =
     (let (x, b1) = wrr_select disc b sid; (xs, b2) = wrr_run disc b1 sid n in (x # xs, b2))"

fun rr_run :: "(string \<Rightarrow> service_instance list) \<Rightarrow> rr_balancer \<Rightarrow> string \<Rightarrow> nat \<Rightarrow>
    service_instance option list \<times> rr_balancer" where
  "rr_run disc b sid 0 = ([], b)"
| "rr_run disc b sid (Suc n) =
     (let (x, b1) = rr_select disc b sid; (xs, b2) = rr_run disc b1 sid n in (x # xs, b2))"

lemma wrr_run_steps:
  assumes "wrr_inv insts b"
  shows "\<exists>xs b'. wrr_run disc b sid n = (map Some xs, b') \<and> length xs = n \<and> set xs \<subseteq> set insts \<and>
    wrr_inv insts b' \<and> wrr_weights b' = wrr_weights b \<and>
    (\<forall>inst\<in>set insts. cwv (current_weights b') inst =
       cwv (current_weights b) inst + int n * wrr_get_weight b (instance_id inst)
       - int (count_list xs inst) * wrr_W b)"
  using assms
proof (induction n arbitrary: b)
  case 0
  then show ?case by (intro exI [of _ "[]"] exI [of _ b]) simp
next
  case (Suc n)
  from wrr_select_step [OF Suc.prems, of disc sid] obtain x b1 where s:
    "wrr_select disc b sid = (Some x, b1)" "x \<in> set insts" "wrr_inv insts b1"
    "wrr_weights b1 = wrr_weights b"
    "\<forall>inst\<in>set insts. cwv (current_weights b1) inst = cwv (current_weights b) inst
       + wrr_get_weight b (instance_id inst) - (if inst = x then wrr_W b else 0)"
    by blast
  from Suc.IH [OF s(3)] obtain xs b' where r: "wrr_run disc b1 sid n = (map Some xs, b')"
    "length xs = n" "set xs \<subseteq> set insts" "wrr_inv insts b'" "wrr_weights b' = wrr_weights b1"
    "\<forall>inst\<in>set insts. cwv (current_weights b') inst = cwv (current_weights b1) inst
       + int n * wrr_get_weight b1 (instance_id inst) - int (count_list xs inst) * wrr_W b1"
    by blast
  have w: "wrr_get_weight b1 = wrr_get_weight b" by (simp add: wrr_get_weight_def s(4) fun_eq_iff)
  have "wrr_instances b1 = wrr_instances b" using s(3) Suc.prems by (simp add: wrr_inv_def Let_def)
  then have W: "wrr_W b1 = wrr_W b" by (simp add: wrr_W_def w)
  have "wrr_run disc b sid (Suc n) = (map Some (x # xs), b')" using s(1) r(1) by simp
  moreover have "\<forall>inst\<in>set insts. cwv (current_weights b') inst = cwv (current_weights b) inst
      + int (Suc n) * wrr_get_weight b (instance_id inst) - int (count_list (x # xs) inst) * wrr_W b"
    using s(5) r(6) by (auto simp: w W algebra_simps)
  ultimately show ?case
    using s(2,4) r(2-5) by (intro exI [of _ "x # xs"] exI [of _ b']) simp
qed

lemma sum_count_list:
  assumes "finite A" and "set xs \<subseteq> A"
  shows "(\<Sum>a\<in>A. count_list xs a) = length xs"
  using assms(2)
proof (induction xs)
  case (Cons x xs)
  have "(\<Sum>a\<in>A. count_list (x # xs) a) = (\<Sum>a\<in>A. (if a = x then 1 else 0) + count_list xs a)"
    by (intro sum.cong) auto
  also have "\<dots> = 1 + length xs" using Cons assms(1) by (simp add: sum.distrib)
  finally show ?case by simp
qed simp

text \<open>
  After a full round the weights are multiples of the total weight above minus one such
  multiple, and they sum to zero, so they are all zero again.
\<close>

lemma wrr_round:
  assumes inv: "wrr_inv insts b"
    and zero: "\<And>inst. inst \<in> set insts \<Longrightarrow> cwv (current_weights b) inst = 0"
    and run: "wrr_run disc b sid (nat (wrr_W b)) = (map Some xs, b')"
    and inst: "inst \<in> set insts"
  shows "int (count_list xs inst) = wrr_get_weight b (instance_id inst)
    \<and> cwv (current_weights b') inst = 0"
proof -
  let ?w = "\<lambda>inst. wrr_get_weight b (instance_id inst)" and ?W = "wrr_W b"
  have W: "0 < ?W" "?W = (\<Sum>inst\<in>set insts. ?w inst)"
    using inv by (auto simp: wrr_inv_def wrr_W_def Let_def)
  from wrr_run_steps [OF inv, of disc sid "nat ?W"] run have
    r: "length xs = nat ?W" "set xs \<subseteq> set insts" "wrr_inv insts b'" "wrr_weights b' = wrr_weights b"
    and cw: "\<And>inst. inst \<in> set insts \<Longrightarrow>
      cwv (current_weights b') inst = (?w inst - int (count_list xs inst)) * ?W"
    using zero W(1) by (auto simp: inj_map_eq_map algebra_simps)
  have W': "(\<Sum>inst\<in>set insts. wrr_get_weight b' (instance_id inst)) = ?W"
    using W(2) r(4) by (simp add: wrr_get_weight_def)
  have le: "int (count_list xs i) \<le> ?w i" if "i \<in> set insts" for i
  proof -
    have "- ?W < (?w i - int (count_list xs i)) * ?W"
      using r(3) that W' unfolding cw [OF that, symmetric] by (simp add: wrr_inv_def Let_def)
    then have "- 1 * ?W < (?w i - int (count_list xs i)) * ?W" by simp
    then show ?thesis using W(1) by (simp only: mult_less_cancel_right) auto
  qed
  have "(\<Sum>i\<in>set insts. ?w i - int (count_list xs i)) = 0"
    using sum_count_list [of "set insts" xs] r(1,2) W
    by (simp add: sum_subtractf flip: of_nat_sum)
  then have "?w inst - int (count_list xs inst) = 0"
    using le inst by (subst (asm) sum_nonneg_eq_0_iff) auto
  with cw [OF inst] show ?thesis by simp
qed

lemma rr_run_order:
  assumes "rr_instances b = insts" and "insts \<noteq> []"
    and "unat (current_index b) + n \<le> 18446744073709551615"
  shows "fst (rr_run disc b sid n) =
    map (\<lambda>j. Some (insts ! ((unat (current_index b) + j) mod length insts))) [0..<n]"
  using assms
proof (induction n arbitrary: b)
  case (Suc n)
  let ?b = "b\<lparr>current_index := current_index b + 1\<rparr>" and ?i = "unat (current_index b)"
  have sel: "rr_select disc b sid = (Some (insts ! (?i mod length insts)), ?b)"
    using Suc.prems by (simp add: rr_select_def Let_def)
  have i: "unat (current_index ?b) = ?i + 1"
    using Suc.prems(3) by (simp add: unat_word_ariths)
  have "fst (rr_run disc ?b sid n) =
      map (\<lambda>j. Some (insts ! ((?i + 1 + j) mod length insts))) [0..<n]"
    using Suc.IH [of ?b] Suc.prems i by simp
  with sel show ?case by (simp add: case_prod_beta upt_conv_Cons map_Suc_upt del: upt_Suc flip: map_Suc_upt)
qed simp

definition example_pool :: "service_instance list" where
  "example_pool = [example_instance, example_instance\<lparr>instance_id := ''g2''\<rparr>]"

definition example_wrr :: wrr_balancer where
  "example_wrr = wrr_set_weight (wrr_update_instances wrr_init example_pool) ''g1'' 2"

section \<open>Properties\<close>

text \<open>
  C19. Fairness of smooth weighted round robin: with at least two instances, distinct ids,
  non-negative weights and zeroed current weights (the state after \<^verbatim>\<open>update_instances\<close>), one
  round of as many selections as the total weight picks every instance exactly as often as its
  weight, and leaves the current weights at zero again.
\<close>

theorem wrr_fair_round:
  assumes "wrr_inv insts b" and "\<And>inst. inst \<in> set insts \<Longrightarrow> cwv (current_weights b) inst = 0"
  shows "\<exists>xs b'. wrr_run disc b sid (nat (wrr_W b)) = (map Some xs, b') \<and>
    (\<forall>inst\<in>set insts. int (count_list xs inst) = wrr_get_weight b (instance_id inst) \<and>
       cwv (current_weights b') inst = 0)"
proof -
  obtain xs b' where r: "wrr_run disc b sid (nat (wrr_W b)) = (map Some xs, b')"
    using wrr_run_steps [OF assms(1)] by blast
  with wrr_round [OF assms r] show ?thesis by blast
qed

theorem wrr_fair_round_witness:
  "\<exists>xs b'. wrr_run (\<lambda>_. []) example_wrr ''game'' 3 = (map Some xs, b') \<and>
     int (count_list xs example_instance) = 2"
proof -
  have p: "set (wrr_instances example_wrr) = {example_instance, example_instance\<lparr>instance_id := ''g2''\<rparr>}"
    "example_instance \<noteq> example_instance\<lparr>instance_id := ''g2''\<rparr>"
    by (simp_all add: example_wrr_def wrr_set_weight_def wrr_update_instances_def example_pool_def)
      (simp add: example_instance_def)
  have z: "cwv (current_weights example_wrr) inst = 0" for inst
    by (simp add: example_wrr_def wrr_set_weight_def wrr_update_instances_def cwv_def)
  have w: "wrr_get_weight example_wrr ''g1'' = 2" "wrr_get_weight example_wrr ''g2'' = 1"
    "instance_id example_instance = ''g1''"
    by (simp_all add: example_wrr_def wrr_set_weight_def wrr_update_instances_def wrr_init_def
        wrr_get_weight_def example_instance_def)
  have W: "wrr_W example_wrr = 3" unfolding wrr_W_def p(1) using p(2) w by simp
  have "wrr_inv (wrr_instances example_wrr) example_wrr"
    unfolding wrr_inv_def Let_def p(1) using p(2) w z
    by (simp add: example_wrr_def wrr_set_weight_def wrr_update_instances_def example_pool_def)
  from wrr_fair_round [OF this z, of "\<lambda>_. []" "''game''"] show ?thesis
    unfolding p(1) W by (auto simp: w)
qed

text \<open>
  Order of round robin: as long as the 64-bit counter does not wrap, the \<open>j\<close>-th of any
  number of selections is the instance at the counter plus \<open>j\<close>, modulo the number of
  instances, whatever service name is asked for.
\<close>

lemma rr_order:
  assumes "rr_instances b \<noteq> []" and "unat (current_index b) + n \<le> 18446744073709551615"
  shows "fst (rr_run disc b sid n) =
    map (\<lambda>j. Some (rr_instances b ! ((unat (current_index b) + j) mod length (rr_instances b)))) [0..<n]"
  using assms by (intro rr_run_order) simp_all

end
