(* ===== verification/GridAoi.thy ===== *)
theory GridAoi
  imports Chwell_Prelude "HOL-Library.Signed_Division"
begin

text \<open>
  \<^verbatim>\<open>src/aoi/aoi.cpp\<close>, the grid: entities are kept in cells, a query looks at the cells around
  the cell of the position, and moves produce enter, leave and move events. Entity ids are
  numbers; \<^verbatim>\<open>int\<close> division truncates (\<^verbatim>\<open>sdiv\<close>); an access to \<^verbatim>\<open>grids_\<close> outside the vector is the
  error \<open>OutOfBounds\<close>. The user callback is represented by whether one is set: operations return
  the events they pass to it.
\<close>

section \<open>State\<close>

datatype entity_type = PLAYER | NPC | MONSTER | ITEM | BUILDING | OTHER

record entity =
  e_id :: nat
  e_x :: int
  e_y :: int
  e_type :: entity_type
  user_data :: nat

datatype event_type = ENTER | LEAVE | MOVE

record aoi_event =
  ev_type :: event_type
  watcher_id :: nat
  target_id :: nat
  old_x :: int
  old_y :: int
  new_x :: int
  new_y :: int

definition default_event :: aoi_event where
  "default_event = \<lparr>ev_type = ENTER, watcher_id = 0, target_id = 0, old_x = 0, old_y = 0,
     new_x = 0, new_y = 0\<rparr>"

record aoi_config =
  map_width :: int
  map_height :: int
  grid_size :: int
  view_range :: int

definition default_aoi_config :: aoi_config where
  "default_aoi_config = \<lparr>map_width = 1000, map_height = 1000, grid_size = 50, view_range = 1\<rparr>"

definition grid_x_count :: "aoi_config \<Rightarrow> int" where
  "grid_x_count c = (map_width c + grid_size c - 1) sdiv grid_size c"

definition grid_y_count :: "aoi_config \<Rightarrow> int" where
  "grid_y_count c = (map_height c + grid_size c - 1) sdiv grid_size c"

record grid_aoi =
  config :: aoi_config
  entities :: "nat \<rightharpoonup> entity"
  grids :: "nat set list"
  entity_to_grid :: "nat \<rightharpoonup> int"
  callback :: bool

definition grid_aoi_init :: "aoi_config \<Rightarrow> grid_aoi" where
  "grid_aoi_init c = \<lparr>config = c, entities = Map.empty,
     grids = replicate (nat (grid_x_count c * grid_y_count c)) {}, entity_to_grid = Map.empty,
     callback = False\<rparr>"

section \<open>Cells\<close>

definition grid_index :: "aoi_config \<Rightarrow> int \<Rightarrow> int \<Rightarrow> int" where
  "grid_index c gx gy = gy * grid_x_count c + gx"

definition is_valid_grid :: "aoi_config \<Rightarrow> int \<Rightarrow> int \<Rightarrow> bool" where
  "is_valid_grid c gx gy \<longleftrightarrow> 0 \<le> gx \<and> gx < grid_x_count c \<and> 0 \<le> gy \<and> gy < grid_y_count c"

definition pos_to_grid :: "aoi_config \<Rightarrow> int \<Rightarrow> int \<Rightarrow> int \<times> int" where
  "pos_to_grid c x y =
     (max 0 (min (x sdiv grid_size c) (grid_x_count c - 1)),
      max 0 (min (y sdiv grid_size c) (grid_y_count c - 1)))"

definition grid_to_center :: "aoi_config \<Rightarrow> int \<Rightarrow> int \<Rightarrow> int \<times> int" where
  "grid_to_center c gx gy =
     (gx * grid_size c + grid_size c sdiv 2, gy * grid_size c + grid_size c sdiv 2)"

definition get_grids_in_view :: "aoi_config \<Rightarrow> int \<Rightarrow> int \<Rightarrow> int \<times> int \<times> int \<times> int" where
  "get_grids_in_view c x y =
     (let (cx, cy) = pos_to_grid c x y
      in (max 0 (cx - view_range c), max 0 (cy - view_range c),
          min (grid_x_count c - 1) (cx + view_range c), min (grid_y_count c - 1) (cy + view_range c)))"

text \<open>The two nested loops over a rectangle of cells, rows first.\<close>

definition cells :: "int \<times> int \<times> int \<times> int \<Rightarrow> (int \<times> int) list" where
  "cells v = (case v of (x0, y0, x1, y1) \<Rightarrow> concat (map (\<lambda>gy. map (\<lambda>gx. (gx, gy)) [x0..x1]) [y0..y1]))"

definition outside :: "int \<times> int \<times> int \<times> int \<Rightarrow> int \<times> int \<Rightarrow> bool" where
  "outside v g = (case v of (x0, y0, x1, y1) \<Rightarrow> case g of (gx, gy) \<Rightarrow>
     gx < x0 \<or> x1 < gx \<or> gy < y0 \<or> y1 < gy)"

definition in_range :: "grid_aoi \<Rightarrow> int \<Rightarrow> bool" where
  "in_range a idx \<longleftrightarrow> 0 \<le> idx \<and> idx < int (length (grids a))"

text \<open>The ids in a list of cells, in the order the loops meet them.\<close>

definition ids_in_cells ::
    "(nat set \<Rightarrow> nat list) \<Rightarrow> grid_aoi \<Rightarrow> (int \<times> int) list \<Rightarrow> cpp_error + nat list" where
  "ids_in_cells order a cs =
     (let idx = (\<lambda>(gx, gy). grid_index (config a) gx gy)
      in if list_all (\<lambda>g. in_range a (idx g)) cs
         then Inr (concat (map (\<lambda>g. order (grids a ! nat (idx g))) cs))
         else Inl OutOfBounds)"

section \<open>Operations\<close>

definition add_entity ::
    "(nat set \<Rightarrow> nat list) \<Rightarrow> grid_aoi \<Rightarrow> entity \<Rightarrow> cpp_error + bool \<times> aoi_event list \<times> grid_aoi" where
  "add_entity order a e =
     (if e_id e = 0 then Inr (False, [], a)
      else if entities a (e_id e) \<noteq> None then Inr (False, [], a)
      else let (gx, gy) = pos_to_grid (config a) (e_x e) (e_y e);
               idx = grid_index (config a) gx gy
           in if \<not> in_range a idx then Inl OutOfBounds
              else let a' = a\<lparr>entities := (entities a)(e_id e \<mapsto> e),
                              grids := (grids a)[nat idx := insert (e_id e) (grids a ! nat idx)],
                              entity_to_grid := (entity_to_grid a)(e_id e \<mapsto> idx)\<rparr>
                   in if callback a'
                      then (case ids_in_cells order a' (cells (get_grids_in_view (config a) (e_x e) (e_y e))) of
                              Inl err \<Rightarrow> Inl err
                            | Inr ids \<Rightarrow> Inr (True,
                                map (\<lambda>other. default_event\<lparr>ev_type := ENTER, watcher_id := other,
                                        target_id := e_id e, new_x := e_x e, new_y := e_y e\<rparr>)
                                  (filter (\<lambda>other. other \<noteq> e_id e) ids), a'))
                      else Inr (True, [], a'))"

text \<open>The part of \<^verbatim>\<open>remove_entity\<close> after the events.\<close>

definition erase_entity :: "grid_aoi \<Rightarrow> nat \<Rightarrow> cpp_error + grid_aoi" where
  "erase_entity a eid =
     (case entity_to_grid a eid of
        None \<Rightarrow> Inr (a\<lparr>entities := (entities a)(eid := None)\<rparr>)
      | Some idx \<Rightarrow>
          if \<not> in_range a idx then Inl OutOfBounds
          else Inr (a\<lparr>grids := (grids a)[nat idx := grids a ! nat idx - {eid}],
                      entity_to_grid := (entity_to_grid a)(eid := None),
                      entities := (entities a)(eid := None)\<rparr>))"

definition remove_entity ::
    "(nat set \<Rightarrow> nat list) \<Rightarrow> grid_aoi \<Rightarrow> nat \<Rightarrow> cpp_error + bool \<times> aoi_event list \<times> grid_aoi" where
  "remove_entity order a eid =
     (case entities a eid of
        None \<Rightarrow> Inr (False, [], a)
      | Some e \<Rightarrow>
          (case (if callback a
                 then ids_in_cells order a (cells (get_grids_in_view (config a) (e_x e) (e_y e)))
                 else Inr []) of
             Inl err \<Rightarrow> Inl err
           | Inr ids \<Rightarrow>
               (case erase_entity a eid of
                  Inl err \<Rightarrow> Inl err
                | Inr a' \<Rightarrow> Inr (True,
                    map (\<lambda>other. default_event\<lparr>ev_type := LEAVE, watcher_id := other, target_id := eid\<rparr>)
                      (filter (\<lambda>other. other \<noteq> eid) ids), a'))))"

text \<open>The events of a move that changes the cell, computed on the updated grid \<open>a\<close>.\<close>

definition move_events ::
    "(nat set \<Rightarrow> nat list) \<Rightarrow> grid_aoi \<Rightarrow> nat \<Rightarrow> int \<times> int \<Rightarrow> int \<times> int \<Rightarrow> cpp_error + aoi_event list" where
  "move_events order a eid old new =
     (let vo = get_grids_in_view (config a) (fst old) (snd old);
          vn = get_grids_in_view (config a) (fst new) (snd new);
          left = ids_in_cells order a (filter (outside vn) (cells vo));
          entered = ids_in_cells order a (filter (outside vo) (cells vn));
          both = ids_in_cells order a (case vo of (x0, y0, x1, y1) \<Rightarrow> case vn of (x0', y0', x1', y1') \<Rightarrow>
                   cells (max x0 x0', max y0 y0', min x1 x1', min y1 y1'))
      in case (left, entered, both) of
           (Inr ls, Inr es, Inr bs) \<Rightarrow> Inr (
             concat (map (\<lambda>other.
                 [default_event\<lparr>ev_type := LEAVE, watcher_id := other, target_id := eid\<rparr>,
                  default_event\<lparr>ev_type := LEAVE, watcher_id := eid, target_id := other\<rparr>])
               (filter (\<lambda>other. other \<noteq> eid) ls)) @
             concat (map (\<lambda>other.
                 default_event\<lparr>ev_type := ENTER, watcher_id := other, target_id := eid,
                    new_x := fst new, new_y := snd new\<rparr> #
                 (case entities a other of
                    None \<Rightarrow> []
                  | Some o' \<Rightarrow> [default_event\<lparr>ev_type := ENTER, watcher_id := eid, target_id := other,
                       new_x := e_x o', new_y := e_y o'\<rparr>]))
               (filter (\<lambda>other. other \<noteq> eid) es)) @
             map (\<lambda>other. default_event\<lparr>ev_type := MOVE, watcher_id := other, target_id := eid,
                    old_x := fst old, old_y := snd old, new_x := fst new, new_y := snd new\<rparr>)
               (filter (\<lambda>other. other \<noteq> eid) bs))
         | _ \<Rightarrow> Inl OutOfBounds)"

definition update_entity ::
    "(nat set \<Rightarrow> nat list) \<Rightarrow> grid_aoi \<Rightarrow> nat \<Rightarrow> int \<Rightarrow> int \<Rightarrow>
     cpp_error + bool \<times> aoi_event list \<times> grid_aoi" where
  "update_entity order a eid nx ny =
     (case entities a eid of
        None \<Rightarrow> Inr (False, [], a)
      | Some e \<Rightarrow>
          let ox = e_x e; oy = e_y e;
              og = pos_to_grid (config a) ox oy; ng = pos_to_grid (config a) nx ny;
              a1 = a\<lparr>entities := (entities a)(eid \<mapsto> e\<lparr>e_x := nx, e_y := ny\<rparr>)\<rparr>;
              oi = grid_index (config a) (fst og) (snd og); ni = grid_index (config a) (fst ng) (snd ng)
          in if og = ng
             then (if callback a1
                   then (case ids_in_cells order a1 [og] of
                           Inl err \<Rightarrow> Inl err
                         | Inr ids \<Rightarrow> Inr (True,
                             map (\<lambda>other. default_event\<lparr>ev_type := MOVE, watcher_id := other, target_id := eid,
                                     old_x := ox, old_y := oy, new_x := nx, new_y := ny\<rparr>)
                               (filter (\<lambda>other. other \<noteq> eid) ids), a1))
                   else Inr (True, [], a1))
             else if \<not> in_range a oi \<or> \<not> in_range a ni then Inl OutOfBounds
             else let gs1 = (grids a1)[nat oi := grids a1 ! nat oi - {eid}];
                      gs2 = gs1[nat ni := insert eid (gs1 ! nat ni)];
                      a2 = a1\<lparr>grids := gs2, entity_to_grid := (entity_to_grid a1)(eid \<mapsto> ni)\<rparr>
                  in if callback a2
                     then (case move_events order a2 eid (ox, oy) (nx, ny) of
                             Inl err \<Rightarrow> Inl err | Inr evs \<Rightarrow> Inr (True, evs, a2))
                     else Inr (True, [], a2))"

definition get_entity :: "grid_aoi \<Rightarrow> nat \<Rightarrow> entity option" where
  "get_entity a eid = entities a eid"

definition get_entity_ids_in_view ::
    "(nat set \<Rightarrow> nat list) \<Rightarrow> grid_aoi \<Rightarrow> int \<Rightarrow> int \<Rightarrow> cpp_error + nat list" where
  "get_entity_ids_in_view order a x y =
     ids_in_cells order a (cells (get_grids_in_view (config a) x y))"

text \<open>The ids replaced by the entities found under them.\<close>

definition found_entities :: "grid_aoi \<Rightarrow> nat list \<Rightarrow> entity list" where
  "found_entities a ids = concat (map (\<lambda>i. case entities a i of None \<Rightarrow> [] | Some e \<Rightarrow> [e]) ids)"

definition get_entities_in_view ::
    "(nat set \<Rightarrow> nat list) \<Rightarrow> grid_aoi \<Rightarrow> int \<Rightarrow> int \<Rightarrow> cpp_error + entity list" where
  "get_entities_in_view order a x y =
     map_sum id (found_entities a) (ids_in_cells order a (cells (get_grids_in_view (config a) x y)))"

definition get_entities_in_view_of ::
    "(nat set \<Rightarrow> nat list) \<Rightarrow> grid_aoi \<Rightarrow> nat \<Rightarrow> cpp_error + entity list" where
  "get_entities_in_view_of order a w =
     (case entities a w of
        None \<Rightarrow> Inr []
      | Some e \<Rightarrow> get_entities_in_view order a (e_x e) (e_y e))"

definition get_entity_ids_in_view_of ::
    "(nat set \<Rightarrow> nat list) \<Rightarrow> grid_aoi \<Rightarrow> nat \<Rightarrow> cpp_error + nat list" where
  "get_entity_ids_in_view_of order a w =
     (case entities a w of
        None \<Rightarrow> Inr []
      | Some e \<Rightarrow> get_entity_ids_in_view order a (e_x e) (e_y e))"

definition get_entity_ids_in_grid ::
    "(nat set \<Rightarrow> nat list) \<Rightarrow> grid_aoi \<Rightarrow> int \<Rightarrow> int \<Rightarrow> nat list" where
  "get_entity_ids_in_grid order a gx gy =
     (if is_valid_grid (config a) gx gy then order (grids a ! nat (grid_index (config a) gx gy)) else [])"

definition get_entities_in_grid ::
    "(nat set \<Rightarrow> nat list) \<Rightarrow> grid_aoi \<Rightarrow> int \<Rightarrow> int \<Rightarrow> entity list" where
  "get_entities_in_grid order a gx gy =
     (if is_valid_grid (config a) gx gy
      then found_entities a (order (grids a ! nat (grid_index (config a) gx gy))) else [])"

definition get_entities_in_grids ::
    "(nat set \<Rightarrow> nat list) \<Rightarrow> grid_aoi \<Rightarrow> int \<Rightarrow> int \<Rightarrow> cpp_error + entity list" where
  "get_entities_in_grids order a gx gy =
     map_sum id (found_entities a) (ids_in_cells order a (cells
       (max 0 (gx - view_range (config a)), max 0 (gy - view_range (config a)),
        min (grid_x_count (config a) - 1) (gx + view_range (config a)),
        min (grid_y_count (config a) - 1) (gy + view_range (config a)))))"

definition entity_count_in_grid :: "grid_aoi \<Rightarrow> int \<Rightarrow> int \<Rightarrow> nat" where
  "entity_count_in_grid a gx gy =
     (if is_valid_grid (config a) gx gy then card (grids a ! nat (grid_index (config a) gx gy)) else 0)"

definition total_entities :: "grid_aoi \<Rightarrow> nat" where
  "total_entities a = card (dom (entities a))"

definition set_callback :: "grid_aoi \<Rightarrow> bool \<Rightarrow> grid_aoi" where
  "set_callback a cb = a\<lparr>callback := cb\<rparr>"

section \<open>Geometry of the cells\<close>

text \<open>
  A configuration the grid is meant for: positive sizes, and small enough that none of the
  32-bit \<^verbatim>\<open>int\<close> computations on cells overflows (lemma \<open>cell_arithmetic_fits\<close>).
\<close>

definition wf_config :: "aoi_config \<Rightarrow> bool" where
  "wf_config c \<longleftrightarrow> 0 < map_width c \<and> 0 < map_height c \<and> 0 < grid_size c \<and> 0 \<le> view_range c \<and>
     map_width c + grid_size c \<le> 2 ^ 31 \<and> map_height c + grid_size c \<le> 2 ^ 31 \<and>
     grid_x_count c * grid_y_count c < 2 ^ 31 \<and>
     grid_x_count c + view_range c < 2 ^ 31 \<and> grid_y_count c + view_range c < 2 ^ 31"

definition fits_int :: "int \<Rightarrow> bool" where
  "fits_int i \<longleftrightarrow> - (2 ^ 31) \<le> i \<and> i < 2 ^ 31"

definition cell_of :: "aoi_config \<Rightarrow> entity \<Rightarrow> int \<times> int" where
  "cell_of c e = pos_to_grid c (e_x e) (e_y e)"

definition cell_idx :: "aoi_config \<Rightarrow> int \<times> int \<Rightarrow> int" where
  "cell_idx c g = grid_index c (fst g) (snd g)"

definition valid_cell :: "aoi_config \<Rightarrow> int \<times> int \<Rightarrow> bool" where
  "valid_cell c g \<longleftrightarrow> is_valid_grid c (fst g) (snd g)"

text \<open>Cells at most \<^verbatim>\<open>view_range\<close> columns and rows apart.\<close>

definition near :: "aoi_config \<Rightarrow> int \<times> int \<Rightarrow> int \<times> int \<Rightarrow> bool" where
  "near c g g' \<longleftrightarrow> \<bar>fst g - fst g'\<bar> \<le> view_range c \<and> \<bar>snd g - snd g'\<bar> \<le> view_range c"

lemma count_pos:
  assumes "wf_config c"
  shows "1 \<le> grid_x_count c" and "1 \<le> grid_y_count c"
proof -
  have "1 \<le> (w + s - 1) sdiv s" if "0 < w" "0 < s" for w s :: int
    using that zdiv_mono1 [of s "w + s - 1" s] by (simp add: signed_divide_int_def sgn_mult)
  with assms show "1 \<le> grid_x_count c" "1 \<le> grid_y_count c"
    by (simp_all add: wf_config_def grid_x_count_def grid_y_count_def)
qed

lemma pos_to_grid_valid: "wf_config c \<Longrightarrow> valid_cell c (pos_to_grid c x y)"
  using count_pos [of c] by (simp add: valid_cell_def is_valid_grid_def pos_to_grid_def) linarith

lemma cell_idx_range:
  assumes "valid_cell c g"
  shows "0 \<le> cell_idx c g" and "cell_idx c g < grid_x_count c * grid_y_count c"
proof -
  let ?nx = "grid_x_count c" and ?ny = "grid_y_count c"
  have v: "0 \<le> fst g" "fst g < ?nx" "0 \<le> snd g" "snd g \<le> ?ny - 1"
    using assms by (auto simp: valid_cell_def is_valid_grid_def)
  show "0 \<le> cell_idx c g" using v by (simp add: cell_idx_def grid_index_def)
  have "snd g * ?nx \<le> (?ny - 1) * ?nx" using v by (intro mult_right_mono) auto
  then show "cell_idx c g < ?nx * ?ny" using v(2) by (simp add: cell_idx_def grid_index_def algebra_simps)
qed

lemma cell_idx_inj:
  assumes "valid_cell c g" and "valid_cell c g'" and "cell_idx c g = cell_idx c g'"
  shows "g = g'"
proof -
  let ?nx = "grid_x_count c"
  have "cell_idx c h div ?nx = snd h \<and> cell_idx c h mod ?nx = fst h" if "valid_cell c h" for h
    using that by (auto simp: valid_cell_def is_valid_grid_def cell_idx_def grid_index_def)
  with assms show ?thesis by (metis prod_eq_iff)
qed

lemma cell_arithmetic_fits:
  assumes "wf_config c" and "valid_cell c g"
  shows "fits_int (map_width c + grid_size c - 1)" and "fits_int (map_height c + grid_size c - 1)"
    and "fits_int (cell_idx c g)" and "fits_int (snd g * grid_x_count c)"
    and "fits_int (fst g + view_range c)" and "fits_int (snd g + view_range c)"
    and "fits_int (fst g - view_range c)" and "fits_int (snd g - view_range c)"
proof -
  have v: "0 \<le> fst g" "fst g < grid_x_count c" "0 \<le> snd g" "snd g < grid_y_count c"
    using assms(2) by (auto simp: valid_cell_def is_valid_grid_def)
  then have "0 \<le> snd g * grid_x_count c" by simp
  with v cell_idx_range [OF assms(2)] assms(1) count_pos [OF assms(1)]
  show "fits_int (map_width c + grid_size c - 1)" "fits_int (map_height c + grid_size c - 1)"
    "fits_int (cell_idx c g)" "fits_int (snd g * grid_x_count c)"
    "fits_int (fst g + view_range c)" "fits_int (snd g + view_range c)"
    "fits_int (fst g - view_range c)" "fits_int (snd g - view_range c)"
    unfolding fits_int_def wf_config_def cell_idx_def grid_index_def by linarith+
qed

lemma set_cells: "set (cells (x0, y0, x1, y1)) = {(gx, gy). x0 \<le> gx \<and> gx \<le> x1 \<and> y0 \<le> gy \<and> gy \<le> y1}"
  by (auto simp: cells_def)

lemma distinct_cells: "distinct (cells v)"
proof -
  have "distinct (concat (map (\<lambda>gy. map (\<lambda>gx. (gx, gy)) xs) ys))" if "distinct xs" "distinct ys"
    for xs ys :: "int list"
    using that by (induction ys) (auto simp: distinct_map inj_on_def)
  then show ?thesis by (cases v) (simp add: cells_def)
qed

lemma view_cells:
  "wf_config c \<Longrightarrow> g \<in> set (cells (get_grids_in_view c x y)) \<longleftrightarrow>
     valid_cell c g \<and> near c (pos_to_grid c x y) g"
  using pos_to_grid_valid [of c x y]
  by (cases g, cases "pos_to_grid c x y")
    (auto simp: get_grids_in_view_def set_cells valid_cell_def is_valid_grid_def near_def)

lemma outside_view:
  "wf_config c \<Longrightarrow> valid_cell c g \<Longrightarrow>
     outside (get_grids_in_view c x y) g \<longleftrightarrow> \<not> near c (pos_to_grid c x y) g"
  using pos_to_grid_valid [of c x y]
  by (cases g, cases "pos_to_grid c x y")
    (auto simp: get_grids_in_view_def outside_def valid_cell_def is_valid_grid_def near_def)

section \<open>The grid invariant\<close>

definition aoi_inv :: "grid_aoi \<Rightarrow> bool" where
  "aoi_inv a \<longleftrightarrow> wf_config (config a) \<and> finite (dom (entities a)) \<and>
     length (grids a) = nat (grid_x_count (config a) * grid_y_count (config a)) \<and>
     (\<forall>eid e. entities a eid = Some e \<longrightarrow> e_id e = eid) \<and>
     (\<forall>eid. entity_to_grid a eid = map_option (cell_idx (config a) \<circ> cell_of (config a)) (entities a eid)) \<and>
     (\<forall>i<length (grids a). grids a ! i = {eid. entity_to_grid a eid = Some (int i)})"

lemma in_range_valid: "aoi_inv a \<Longrightarrow> valid_cell (config a) g \<Longrightarrow> in_range a (cell_idx (config a) g)"
  using cell_idx_range [of "config a" g] by (simp add: aoi_inv_def in_range_def)

lemma grids_at:
  assumes inv: "aoi_inv a" and v: "valid_cell (config a) g"
  shows "grids a ! nat (cell_idx (config a) g) = {eid. \<exists>e. entities a eid = Some e \<and> cell_of (config a) e = g}"
proof -
  let ?i = "cell_idx (config a) g"
  have r: "0 \<le> ?i" "nat ?i < length (grids a)" using in_range_valid [OF assms] by (auto simp: in_range_def)
  have "valid_cell (config a) (cell_of (config a) e)" for e
    using inv by (simp add: aoi_inv_def cell_of_def pos_to_grid_valid)
  then have "cell_idx (config a) (cell_of (config a) e) = ?i \<longleftrightarrow> cell_of (config a) e = g" for e
    using cell_idx_inj v by blast
  moreover have "grids a ! nat ?i = {eid. entity_to_grid a eid = Some ?i}"
    using inv r by (simp add: aoi_inv_def)
  moreover have "\<And>eid. entity_to_grid a eid = map_option (cell_idx (config a) \<circ> cell_of (config a)) (entities a eid)"
    using inv by (simp add: aoi_inv_def)
  ultimately show ?thesis by auto
qed

lemma ids_in_cells_set:
  assumes inv: "aoi_inv a" and ord: "enumerates order"
    and "list_all (valid_cell (config a)) cs" and "distinct cs"
  shows "\<exists>ids. ids_in_cells order a cs = Inr ids \<and> distinct ids \<and>
    set ids = {eid. \<exists>e. entities a eid = Some e \<and> cell_of (config a) e \<in> set cs}"
proof -
  let ?S = "\<lambda>g. {eid. \<exists>e. entities a eid = Some e \<and> cell_of (config a) e = g}"
  have "finite (dom (entities a))" using inv by (simp add: aoi_inv_def)
  then have fin: "finite (?S g)" for g by (rule rev_finite_subset) auto
  then have o: "set (order (?S g)) = ?S g" "distinct (order (?S g))" for g
    using ord unfolding enumerates_def by blast+
  have idx: "(case g of (gx, gy) \<Rightarrow> grid_index (config a) gx gy) = cell_idx (config a) g" for g
    by (simp add: cell_idx_def split: prod.split)
  have "list_all (\<lambda>g. in_range a (cell_idx (config a) g)) cs"
    using assms(3) in_range_valid [OF inv] by (auto simp: list_all_iff)
  moreover have "map (\<lambda>g. order (grids a ! nat (cell_idx (config a) g))) cs = map (\<lambda>g. order (?S g)) cs"
    using assms(3) grids_at [OF inv] by (auto simp: list_all_iff)
  ultimately have ids: "ids_in_cells order a cs = Inr (concat (map (\<lambda>g. order (?S g)) cs))"
    unfolding ids_in_cells_def Let_def idx by (simp only: if_True)
  have "distinct (concat (map (\<lambda>g. order (?S g)) cs))"
    using assms(4) by (induction cs) (auto simp: o)
  then show ?thesis using ids o by auto
qed

text \<open>
  One entity changes (\<open>x\<close> is its new value, \<open>None\<close> when it is removed) and the two indexes
  follow: the invariant is kept.
\<close>

lemma aoi_inv_change:
  assumes inv: "aoi_inv a"
    and "config a' = config a" and "entities a' = (entities a)(eid := x)"
    and "\<And>e. x = Some e \<Longrightarrow> e_id e = eid"
    and "entity_to_grid a' = (entity_to_grid a)(eid := map_option (cell_idx (config a) \<circ> cell_of (config a)) x)"
    and "length (grids a') = length (grids a)"
    and "\<And>i. i < length (grids a) \<Longrightarrow> grids a' ! i = (grids a ! i - {eid}) \<union>
       (if map_option (cell_idx (config a) \<circ> cell_of (config a)) x = Some (int i) then {eid} else {})"
  shows "aoi_inv a'"
  using assms unfolding aoi_inv_def by (auto split: if_splits)

lemma aoi_inv_init: "wf_config c \<Longrightarrow> aoi_inv (grid_aoi_init c)"
  by (simp add: aoi_inv_def grid_aoi_init_def)

lemma aoi_inv_callback: "aoi_inv a \<Longrightarrow> aoi_inv (set_callback a cb)"
  by (simp add: aoi_inv_def set_callback_def)

lemma cell_of_valid: "aoi_inv a \<Longrightarrow> valid_cell (config a) (cell_of (config a) e)"
  by (simp add: aoi_inv_def cell_of_def pos_to_grid_valid)

lemma aoi_inv_grid_entry:
  "aoi_inv a \<Longrightarrow> i < length (grids a) \<Longrightarrow>
     eid \<in> grids a ! i \<longleftrightarrow> map_option (cell_idx (config a) \<circ> cell_of (config a)) (entities a eid) = Some (int i)"
  by (simp add: aoi_inv_def)

text \<open>The state after the updates of \<^verbatim>\<open>add_entity\<close>, \<^verbatim>\<open>remove_entity\<close> and a cell-changing \<^verbatim>\<open>update_entity\<close>.\<close>

lemma aoi_inv_insert:
  assumes inv: "aoi_inv a" and "entities a (e_id e) = None" and i: "i = cell_idx (config a) (cell_of (config a) e)"
  shows "aoi_inv (a\<lparr>entities := (entities a)(e_id e \<mapsto> e),
      grids := (grids a)[nat i := insert (e_id e) (grids a ! nat i)],
      entity_to_grid := (entity_to_grid a)(e_id e \<mapsto> i)\<rparr>)"
proof (rule aoi_inv_change [OF inv, where eid = "e_id e" and x = "Some e"], goal_cases)
  case (6 j)
  have "0 \<le> i" using in_range_valid [OF inv cell_of_valid [OF inv]] by (simp add: i in_range_def)
  then show ?case using assms aoi_inv_grid_entry [OF inv 6, of "e_id e"] 6
    by (cases "j = nat i") (auto simp: nth_list_update)
qed (simp_all add: i)

lemma aoi_inv_move:
  assumes inv: "aoi_inv a" and e: "entities a eid = Some e" and id: "e_id e' = eid"
    and o: "oi = cell_idx (config a) (cell_of (config a) e)"
    and n: "ni = cell_idx (config a) (cell_of (config a) e')" and ne: "oi \<noteq> ni"
    and gs: "gs = (grids a)[nat oi := grids a ! nat oi - {eid}]"
  shows "aoi_inv (a\<lparr>entities := (entities a)(eid \<mapsto> e'),
      grids := gs[nat ni := insert eid (gs ! nat ni)],
      entity_to_grid := (entity_to_grid a)(eid \<mapsto> ni)\<rparr>)"
proof (rule aoi_inv_change [OF inv, where eid = eid and x = "Some e'"], goal_cases)
  case (6 j)
  have "0 \<le> oi" "0 \<le> ni"
    using in_range_valid [OF inv cell_of_valid [OF inv]] by (simp_all add: o n in_range_def)
  then show ?case using ne e aoi_inv_grid_entry [OF inv 6, of eid] 6
    by (cases "j = nat ni"; cases "j = nat oi") (auto simp: nth_list_update gs o n)
qed (simp_all add: n id gs)

lemma aoi_inv_same_cell:
  assumes inv: "aoi_inv a" and e: "entities a eid = Some e" and id: "e_id e' = eid"
    and "cell_of (config a) e' = cell_of (config a) e"
  shows "aoi_inv (a\<lparr>entities := (entities a)(eid \<mapsto> e')\<rparr>)"
proof -
  have "entity_to_grid a eid = Some (cell_idx (config a) (cell_of (config a) e'))"
    using inv e assms(4) by (simp add: aoi_inv_def)
  moreover from this have "(entity_to_grid a)(eid \<mapsto> cell_idx (config a) (cell_of (config a) e')) = entity_to_grid a"
    by auto
  ultimately show ?thesis
    using aoi_inv_grid_entry [OF inv, of _ eid] e assms(4)
    by (intro aoi_inv_change [OF inv, where eid = eid and x = "Some e'"]) (auto simp: id)
qed

lemma erase_entity_inv:
  assumes inv: "aoi_inv a" and e: "entities a eid = Some e"
  shows "\<exists>a'. erase_entity a eid = Inr a' \<and> aoi_inv a' \<and> entities a' = (entities a)(eid := None) \<and> config a' = config a"
proof -
  let ?i = "cell_idx (config a) (cell_of (config a) e)"
  have i: "entity_to_grid a eid = Some ?i" using inv e by (simp add: aoi_inv_def)
  have r: "in_range a ?i" using in_range_valid [OF inv cell_of_valid [OF inv]] .
  have "aoi_inv (a\<lparr>grids := (grids a)[nat ?i := grids a ! nat ?i - {eid}],
      entity_to_grid := (entity_to_grid a)(eid := None), entities := (entities a)(eid := None)\<rparr>)"
  proof (rule aoi_inv_change [OF inv, where eid = eid and x = None], goal_cases)
    case (6 j)
    then show ?case using r e aoi_inv_grid_entry [OF inv 6, of eid]
      by (cases "j = nat ?i") (auto simp: nth_list_update in_range_def)
  qed simp_all
  then show ?thesis using i r by (simp add: erase_entity_def)
qed

section \<open>Views\<close>

text \<open>The specification of a view: the ids of the entities whose cell is near the cell \<open>g\<close>.\<close>

definition view_set :: "grid_aoi \<Rightarrow> int \<times> int \<Rightarrow> nat set" where
  "view_set a g = {eid. \<exists>e. entities a eid = Some e \<and> near (config a) g (cell_of (config a) e)}"

lemma list_all_view_cells:
  "wf_config c \<Longrightarrow> list_all (valid_cell c) (cells (get_grids_in_view c x y))"
  using view_cells [of c _ x y] by (auto simp: list_all_iff)

lemma ids_in_view:
  assumes inv: "aoi_inv a" and ord: "enumerates order"
  shows "\<exists>ids. ids_in_cells order a (cells (get_grids_in_view (config a) x y)) = Inr ids \<and>
    distinct ids \<and> set ids = view_set a (pos_to_grid (config a) x y)"
proof -
  have wf: "wf_config (config a)" using inv by (simp add: aoi_inv_def)
  show ?thesis
    using ids_in_cells_set [OF inv ord list_all_view_cells [OF wf] distinct_cells, of x y]
      cell_of_valid [OF inv] by (simp add: view_cells [OF wf] view_set_def)
qed

text \<open>The three groups of cells a cell-changing move looks at.\<close>

lemma moved_cells:
  fixes ox oy nx ny :: int
  assumes wf: "wf_config c"
  defines "vo \<equiv> get_grids_in_view c ox oy" and "vn \<equiv> get_grids_in_view c nx ny"
  shows "g \<in> set (filter (outside vn) (cells vo)) \<longleftrightarrow>
      valid_cell c g \<and> near c (pos_to_grid c ox oy) g \<and> \<not> near c (pos_to_grid c nx ny) g"
    and "g \<in> set (case vo of (x0, y0, x1, y1) \<Rightarrow> case vn of (x0', y0', x1', y1') \<Rightarrow>
          cells (max x0 x0', max y0 y0', min x1 x1', min y1 y1')) \<longleftrightarrow>
      valid_cell c g \<and> near c (pos_to_grid c ox oy) g \<and> near c (pos_to_grid c nx ny) g"
proof -
  show "g \<in> set (filter (outside vn) (cells vo)) \<longleftrightarrow>
      valid_cell c g \<and> near c (pos_to_grid c ox oy) g \<and> \<not> near c (pos_to_grid c nx ny) g"
    using view_cells [OF wf, of g] outside_view [OF wf, of g] by (auto simp: vo_def vn_def)
  have "g \<in> set (case vo of (x0, y0, x1, y1) \<Rightarrow> case vn of (x0', y0', x1', y1') \<Rightarrow>
          cells (max x0 x0', max y0 y0', min x1 x1', min y1 y1')) \<longleftrightarrow>
      g \<in> set (cells vo) \<and> g \<in> set (cells vn)"
    by (cases vo; cases vn) (auto simp: set_cells)
  then show "g \<in> set (case vo of (x0, y0, x1, y1) \<Rightarrow> case vn of (x0', y0', x1', y1') \<Rightarrow>
          cells (max x0 x0', max y0 y0', min x1 x1', min y1 y1')) \<longleftrightarrow>
      valid_cell c g \<and> near c (pos_to_grid c ox oy) g \<and> near c (pos_to_grid c nx ny) g"
    by (auto simp: vo_def vn_def view_cells [OF wf])
qed

lemma ids_in_cells_where:
  assumes inv: "aoi_inv a" and ord: "enumerates order" and "distinct cs"
    and "\<And>g. g \<in> set cs \<longleftrightarrow> valid_cell (config a) g \<and> P g"
  shows "\<exists>ids. ids_in_cells order a cs = Inr ids \<and> distinct ids \<and>
    set ids = {eid. \<exists>e. entities a eid = Some e \<and> P (cell_of (config a) e)}"
  using ids_in_cells_set [OF inv ord _ assms(3)] assms(4) cell_of_valid [OF inv]
  by (simp add: list_all_iff)

definition watchers :: "event_type \<Rightarrow> nat \<Rightarrow> aoi_event list \<Rightarrow> nat set" where
  "watchers t eid evs = {w. \<exists>ev\<in>set evs. ev_type ev = t \<and> target_id ev = eid \<and> watcher_id ev = w}"

definition targets :: "event_type \<Rightarrow> nat \<Rightarrow> aoi_event list \<Rightarrow> nat set" where
  "targets t eid evs = {w. \<exists>ev\<in>set evs. ev_type ev = t \<and> watcher_id ev = eid \<and> target_id ev = w}"

lemma watchers_simps [simp]:
  "watchers t eid [] = {}"
  "watchers t eid (ev # evs) = (if ev_type ev = t \<and> target_id ev = eid then {watcher_id ev} else {}) \<union> watchers t eid evs"
  "watchers t eid (xs @ ys) = watchers t eid xs \<union> watchers t eid ys"
  "watchers t eid (concat evss) = (\<Union>evs\<in>set evss. watchers t eid evs)"
  by (auto simp: watchers_def)

lemma targets_simps [simp]:
  "targets t eid [] = {}"
  "targets t eid (ev # evs) = (if ev_type ev = t \<and> watcher_id ev = eid then {target_id ev} else {}) \<union> targets t eid evs"
  "targets t eid (xs @ ys) = targets t eid xs \<union> targets t eid ys"
  "targets t eid (concat evss) = (\<Union>evs\<in>set evss. targets t eid evs)"
  by (auto simp: targets_def)

lemma events_map:
  "watchers t eid (map f xs) = {watcher_id (f x) | x. x \<in> set xs \<and> ev_type (f x) = t \<and> target_id (f x) = eid}"
  "targets t eid (map f xs) = {target_id (f x) | x. x \<in> set xs \<and> ev_type (f x) = t \<and> watcher_id (f x) = eid}"
  by (auto simp: watchers_def targets_def)

lemma dist_cells_inter:
  "distinct (case vo of (x0, y0, x1, y1) \<Rightarrow> case vn of (x0', y0', x1', y1') \<Rightarrow>
     cells (max x0 x0', max y0 y0', min x1 x1', min y1 y1'))"
  by (simp add: distinct_cells split: prod.split)

lemma move_events_watchers:
  fixes ox oy nx ny :: int
  assumes inv: "aoi_inv a" and ord: "enumerates order"
  defines "old \<equiv> view_set a (pos_to_grid (config a) ox oy)"
    and "new \<equiv> view_set a (pos_to_grid (config a) nx ny)"
  shows "\<exists>evs. move_events order a eid (ox, oy) (nx, ny) = Inr evs \<and>
    watchers LEAVE eid evs = old - new - {eid} \<and> targets LEAVE eid evs = old - new - {eid} \<and>
    watchers ENTER eid evs = new - old - {eid} \<and> targets ENTER eid evs = new - old - {eid} \<and>
    watchers MOVE eid evs = old \<inter> new - {eid} \<and> targets MOVE eid evs = {}"
proof -
  have wf: "wf_config (config a)" using inv by (simp add: aoi_inv_def)
  let ?vo = "get_grids_in_view (config a) ox oy" and ?vn = "get_grids_in_view (config a) nx ny"
  have diff: "\<exists>ids. ids_in_cells order a (filter (outside (get_grids_in_view (config a) x' y'))
      (cells (get_grids_in_view (config a) x y))) = Inr ids \<and>
      set ids = view_set a (pos_to_grid (config a) x y) - view_set a (pos_to_grid (config a) x' y')"
    for x y x' y'
    using ids_in_cells_where [OF inv ord distinct_filter [OF distinct_cells] moved_cells(1) [OF wf], of x' y' x y]
    by (elim exE) (auto simp: view_set_def)
  obtain ls where ls: "ids_in_cells order a (filter (outside ?vn) (cells ?vo)) = Inr ls" "set ls = old - new"
    using diff unfolding old_def new_def by blast
  obtain es where es: "ids_in_cells order a (filter (outside ?vo) (cells ?vn)) = Inr es" "set es = new - old"
    using diff unfolding old_def new_def by blast
  obtain bs where bs: "ids_in_cells order a (case ?vo of (x0, y0, x1, y1) \<Rightarrow> case ?vn of (x0', y0', x1', y1') \<Rightarrow>
      cells (max x0 x0', max y0 y0', min x1 x1', min y1 y1')) = Inr bs"
    "set bs = {i. \<exists>e. entities a i = Some e \<and> near (config a) (pos_to_grid (config a) ox oy) (cell_of (config a) e) \<and>
        near (config a) (pos_to_grid (config a) nx ny) (cell_of (config a) e)}"
    using ids_in_cells_where [OF inv ord dist_cells_inter moved_cells(2) [OF wf], of nx ny ox oy] by blast
  have bs2: "set bs = old \<inter> new" unfolding bs(2) old_def new_def view_set_def by auto
  have ent: "other \<in> new \<Longrightarrow> entities a other \<noteq> None" for other
    by (auto simp: new_def view_set_def)
  show ?thesis
    using ls(2) es(2) bs2 ent
    by (simp add: move_events_def Let_def ls(1) es(1) bs(1) events_map)
      (auto simp: default_event_def split: option.splits if_splits)
qed

section \<open>Histories of calls\<close>

datatype aoi_call = AddEntity entity | RemoveEntity nat | UpdateEntity nat int int | SetCallback bool

definition aoi_step :: "(nat set \<Rightarrow> nat list) \<Rightarrow> grid_aoi \<Rightarrow> aoi_call \<Rightarrow> cpp_error + bool \<times> aoi_event list \<times> grid_aoi" where
  "aoi_step order a call = (case call of
     AddEntity e \<Rightarrow> add_entity order a e
   | RemoveEntity eid \<Rightarrow> remove_entity order a eid
   | UpdateEntity eid x y \<Rightarrow> update_entity order a eid x y
   | SetCallback cb \<Rightarrow> Inr (True, [], set_callback a cb))"

text \<open>What the calls mean for the table of entities, whatever the manager keeps besides it.\<close>

definition table_step :: "(nat \<rightharpoonup> entity) \<Rightarrow> aoi_call \<Rightarrow> (nat \<rightharpoonup> entity)" where
  "table_step t call = (case call of
     AddEntity e \<Rightarrow> if e_id e = 0 \<or> t (e_id e) \<noteq> None then t else t(e_id e \<mapsto> e)
   | RemoveEntity eid \<Rightarrow> t(eid := None)
   | UpdateEntity eid x y \<Rightarrow> (case t eid of None \<Rightarrow> t | Some e \<Rightarrow> t(eid \<mapsto> e\<lparr>e_x := x, e_y := y\<rparr>))
   | SetCallback cb \<Rightarrow> t)"

inductive aoi_reachable :: "(nat set \<Rightarrow> nat list) \<Rightarrow> aoi_config \<Rightarrow> grid_aoi \<Rightarrow> bool"
  for order :: "nat set \<Rightarrow> nat list" and c :: aoi_config where
  init: "aoi_reachable order c (grid_aoi_init c)"
| step: "aoi_reachable order c a \<Longrightarrow> aoi_step order a call = Inr (ok, evs, a') \<Longrightarrow> aoi_reachable order c a'"

lemma add_entity_inv:
  assumes inv: "aoi_inv a" and ord: "enumerates order"
  shows "\<exists>ok evs a'. add_entity order a e = Inr (ok, evs, a') \<and> aoi_inv a' \<and> config a' = config a \<and>
    entities a' = table_step (entities a) (AddEntity e)"
proof (cases "e_id e = 0 \<or> entities a (e_id e) \<noteq> None")
  case True
  with inv show ?thesis by (auto simp: add_entity_def table_step_def)
next
  case False
  let ?g = "pos_to_grid (config a) (e_x e) (e_y e)"
  let ?i = "grid_index (config a) (fst ?g) (snd ?g)"
  let ?a' = "a\<lparr>entities := (entities a)(e_id e \<mapsto> e), grids := (grids a)[nat ?i := insert (e_id e) (grids a ! nat ?i)],
      entity_to_grid := (entity_to_grid a)(e_id e \<mapsto> ?i)\<rparr>"
  have i: "?i = cell_idx (config a) (cell_of (config a) e)" by (simp add: cell_idx_def cell_of_def)
  have inv': "aoi_inv ?a'" using False by (intro aoi_inv_insert [OF inv _ i]) simp
  have "in_range a ?i" using in_range_valid [OF inv cell_of_valid [OF inv]] by (simp add: i)
  moreover obtain ids where "ids_in_cells order ?a' (cells (get_grids_in_view (config a) (e_x e) (e_y e))) = Inr ids"
    using ids_in_view [OF inv' ord, of "e_x e" "e_y e"] by auto
  ultimately show ?thesis using False inv' by (auto simp: add_entity_def Let_def split_beta table_step_def)
qed

lemma remove_entity_inv:
  assumes inv: "aoi_inv a" and ord: "enumerates order"
  shows "\<exists>ok evs a'. remove_entity order a eid = Inr (ok, evs, a') \<and> aoi_inv a' \<and> config a' = config a \<and>
    entities a' = table_step (entities a) (RemoveEntity eid)"
proof (cases "entities a eid")
  case None
  with inv show ?thesis by (auto simp: remove_entity_def table_step_def)
next
  case (Some e)
  then obtain a' where "erase_entity a eid = Inr a'" "aoi_inv a'" "config a' = config a" "entities a' = (entities a)(eid := None)"
    using erase_entity_inv [OF inv] by blast
  moreover obtain ids where "ids_in_cells order a (cells (get_grids_in_view (config a) (e_x e) (e_y e))) = Inr ids"
    using ids_in_view [OF inv ord, of "e_x e" "e_y e"] by auto
  ultimately show ?thesis using Some by (auto simp: remove_entity_def table_step_def)
qed

text \<open>\<^verbatim>\<open>update_entity\<close> on a known entity: the new state and, when the cell changes, the events.\<close>

lemma update_entity_moves:
  assumes inv: "aoi_inv a" and ord: "enumerates order" and e: "entities a eid = Some e"
  shows "\<exists>evs a'. update_entity order a eid nx ny = Inr (True, evs, a') \<and> aoi_inv a' \<and> config a' = config a \<and>
    callback a' = callback a \<and> entities a' = (entities a)(eid \<mapsto> e\<lparr>e_x := nx, e_y := ny\<rparr>) \<and>
    (cell_of (config a) e \<noteq> pos_to_grid (config a) nx ny \<and> callback a \<longrightarrow>
       move_events order a' eid (e_x e, e_y e) (nx, ny) = Inr evs)"
proof -
  let ?e' = "e\<lparr>e_x := nx, e_y := ny\<rparr>"
  let ?og = "pos_to_grid (config a) (e_x e) (e_y e)" and ?ng = "pos_to_grid (config a) nx ny"
  have id: "e_id ?e' = eid" using inv e by (simp add: aoi_inv_def)
  have oi: "grid_index (config a) (fst ?og) (snd ?og) = cell_idx (config a) (cell_of (config a) e)"
    and ni: "grid_index (config a) (fst ?ng) (snd ?ng) = cell_idx (config a) (cell_of (config a) ?e')"
    by (simp_all add: cell_idx_def cell_of_def)
  show ?thesis
  proof (cases "?og = ?ng")
    case True
    let ?a1 = "a\<lparr>entities := (entities a)(eid \<mapsto> ?e')\<rparr>"
    have inv1: "aoi_inv ?a1" by (rule aoi_inv_same_cell [OF inv e id]) (simp add: cell_of_def True)
    have "list_all (valid_cell (config ?a1)) [?og]" using cell_of_valid [OF inv, of e] by (simp add: cell_of_def)
    then obtain ids where "ids_in_cells order ?a1 [?og] = Inr ids"
      using ids_in_cells_set [OF inv1 ord, of "[?og]"] by auto
    then show ?thesis using True inv1 e by (auto simp: update_entity_def Let_def cell_of_def)
  next
    case False
    have r: "in_range a (grid_index (config a) (fst ?og) (snd ?og))" "in_range a (grid_index (config a) (fst ?ng) (snd ?ng))"
      unfolding oi ni by (rule in_range_valid [OF inv cell_of_valid [OF inv]])+
    have ne: "grid_index (config a) (fst ?og) (snd ?og) \<noteq> grid_index (config a) (fst ?ng) (snd ?ng)"
      unfolding oi ni using cell_idx_inj [OF cell_of_valid [OF inv, of e] cell_of_valid [OF inv, of ?e']] False
      by (auto simp: cell_of_def)
    note inv2 = aoi_inv_move [OF inv e id oi ni ne refl]
    show ?thesis
      using inv2 r False e move_events_watchers [OF inv2 ord, of eid "e_x e" "e_y e" nx ny]
      by (fastforce simp: update_entity_def Let_def cell_of_def)
  qed
qed

lemma aoi_step_inv:
  assumes "aoi_inv a" and "enumerates order"
  shows "\<exists>ok evs a'. aoi_step order a call = Inr (ok, evs, a') \<and> aoi_inv a' \<and> config a' = config a \<and>
    entities a' = table_step (entities a) call"
proof (cases call)
  case (UpdateEntity eid x y)
  then show ?thesis using update_entity_moves [OF assms, of eid] assms(1)
    by (cases "entities a eid") (fastforce simp: aoi_step_def update_entity_def table_step_def)+
qed (use add_entity_inv [OF assms] remove_entity_inv [OF assms] aoi_inv_callback [OF assms(1)] in
      \<open>auto simp: aoi_step_def set_callback_def table_step_def\<close>)

lemma aoi_reachable_inv:
  assumes "aoi_reachable order c a" and "wf_config c" and "enumerates order"
  shows "aoi_inv a \<and> config a = c"
  using assms(1)
proof induction
  case init
  show ?case using aoi_inv_init [OF assms(2)] by (simp add: grid_aoi_init_def)
next
  case (step a call ok evs a')
  then show ?case using aoi_step_inv [of a order call] assms(3) by auto
qed

section \<open>The contract of an AOI manager\<close>

text \<open>
  What a caller relies on, whichever manager it uses: for a sensible setting every call returns, and changes the
  table of entities as \<open>table_step\<close> says; and a view query returns the ids that are visible in the table,
  each once. \<open>None\<close> is a call that fails or does not return.
\<close>

primrec run_calls :: "('s \<Rightarrow> aoi_call \<Rightarrow> 's option) \<Rightarrow> 's \<Rightarrow> aoi_call list \<Rightarrow> 's option" where
  "run_calls call s [] = Some s"
| "run_calls call s (c # cs) = (case call s c of None \<Rightarrow> None | Some s' \<Rightarrow> run_calls call s' cs)"

locale aoi_manager =
  fixes sensible :: bool and initial :: 's and call :: "'s \<Rightarrow> aoi_call \<Rightarrow> 's option"
    and view :: "'s \<Rightarrow> int \<Rightarrow> int \<Rightarrow> nat list option"
    and table :: "'s \<Rightarrow> nat \<rightharpoonup> entity" and visible :: "(nat \<rightharpoonup> entity) \<Rightarrow> int \<Rightarrow> int \<Rightarrow> nat set" and ok :: "'s \<Rightarrow> bool"
  assumes ok_initial: "sensible \<Longrightarrow> ok initial" and table_initial: "table initial = Map.empty"
    and call_ok: "sensible \<Longrightarrow> ok s \<Longrightarrow> \<exists>s'. call s c = Some s' \<and> ok s' \<and> table s' = table_step (table s) c"
    and view_ok: "sensible \<Longrightarrow> ok s \<Longrightarrow> \<exists>ids. view s x y = Some ids \<and> distinct ids \<and> set ids = visible (table s) x y"
begin

lemma calls_table:
  assumes "sensible"
  shows "ok s \<Longrightarrow> \<exists>s'. run_calls call s cs = Some s' \<and> ok s' \<and> table s' = foldl table_step (table s) cs"
proof (induction cs arbitrary: s)
  case (Cons c cs)
  obtain s' where "call s c = Some s'" "ok s'" "table s' = table_step (table s) c"
    using call_ok [OF assms Cons.prems] by blast
  then show ?case using Cons.IH [of s'] by simp
qed simp

lemma calls_initial:
  assumes "sensible"
  shows "\<exists>s. run_calls call initial cs = Some s \<and> ok s \<and> table s = foldl table_step Map.empty cs \<and>
    (\<forall>x y. \<exists>ids. view s x y = Some ids \<and> distinct ids \<and> set ids = visible (foldl table_step Map.empty cs) x y)"
proof -
  obtain s where "run_calls call initial cs = Some s" "ok s" "table s = foldl table_step Map.empty cs"
    using calls_table [OF assms ok_initial [OF assms]] table_initial by auto
  then show ?thesis using view_ok [OF assms, of s] by auto
qed

lemma never_added_absent:
  assumes "sensible" and "\<And>e. AddEntity e \<in> set cs \<Longrightarrow> e_id e \<noteq> eid"
  shows "\<exists>s. run_calls call initial cs = Some s \<and> table s eid = None"
proof -
  have "foldl table_step t cs eid = None" if "t eid = None" for t
    using that assms(2)
  proof (induction cs arbitrary: t)
    case (Cons c cs)
    have "table_step t c eid = None"
      using Cons.prems by (auto simp: table_step_def split: aoi_call.split option.split)
    then show ?case using Cons by simp
  qed simp
  then show ?thesis using calls_initial [OF assms(1), of cs] by auto
qed

end

definition grid_call :: "(nat set \<Rightarrow> nat list) \<Rightarrow> grid_aoi \<Rightarrow> aoi_call \<Rightarrow> grid_aoi option" where
  "grid_call order a c = (case aoi_step order a c of Inl err \<Rightarrow> None | Inr (ok, evs, a') \<Rightarrow> Some a')"

definition grid_view :: "(nat set \<Rightarrow> nat list) \<Rightarrow> grid_aoi \<Rightarrow> int \<Rightarrow> int \<Rightarrow> nat list option" where
  "grid_view order a x y = (case get_entity_ids_in_view order a x y of Inl err \<Rightarrow> None | Inr ids \<Rightarrow> Some ids)"

text \<open>The ids whose cell is near the cell of the position.\<close>

definition grid_visible :: "aoi_config \<Rightarrow> (nat \<rightharpoonup> entity) \<Rightarrow> int \<Rightarrow> int \<Rightarrow> nat set" where
  "grid_visible c t x y = {eid. \<exists>e. t eid = Some e \<and> near c (pos_to_grid c x y) (pos_to_grid c (e_x e) (e_y e))}"

interpretation grid: aoi_manager "wf_config c \<and> enumerates order" "grid_aoi_init c" "grid_call order" "grid_view order"
  entities "grid_visible c" "\<lambda>a. aoi_inv a \<and> config a = c" for c order
proof (unfold_locales, goal_cases)
  case 1
  then show ?case using aoi_inv_init by (simp add: grid_aoi_init_def)
next
  case 2
  show ?case by (simp add: grid_aoi_init_def)
next
  case (3 s call)
  then show ?case using aoi_step_inv [of s order call] by (auto simp: grid_call_def)
next
  case (4 s x y)
  then show ?case using ids_in_view [of s order x y]
    by (auto simp: grid_view_def get_entity_ids_in_view_def view_set_def cell_of_def grid_visible_def)
qed

section \<open>Properties\<close>

text \<open>
  C20. Whatever calls were made, a view query on a grid with a sensible configuration never
  leaves the cell vector and returns, without repetition, exactly the ids of the entities whose
  cell is at most \<^verbatim>\<open>view_range\<close> columns and rows from the cell of the queried position.
\<close>

theorem grid_view_exact:
  assumes "aoi_reachable order c a" and "wf_config c" and "enumerates order"
  shows "\<exists>ids. get_entity_ids_in_view order a x y = Inr ids \<and> distinct ids \<and>
    set ids = {eid. \<exists>e. entities a eid = Some e \<and>
       near c (pos_to_grid c x y) (pos_to_grid c (e_x e) (e_y e))}"
  using ids_in_view [OF _ assms(3), of a x y] aoi_reachable_inv [OF assms]
  by (simp add: get_entity_ids_in_view_def view_set_def cell_of_def)

text \<open>
  C21. A move of a known entity succeeds, updates its position only, and, when it changes the
  cell and a callback is set, tells exactly the right observers: \<^verbatim>\<open>LEAVE\<close> to those that were in the
  old view and are not in the new one, \<^verbatim>\<open>ENTER\<close> to those in the new view only, \<^verbatim>\<open>MOVE\<close> to those in
  both; and the moving entity gets the symmetric \<^verbatim>\<open>LEAVE\<close> and \<^verbatim>\<open>ENTER\<close> events.
\<close>

theorem grid_move_events:
  assumes "aoi_reachable order c a" and "wf_config c" and "enumerates order"
    and "entities a eid = Some e"
  shows "\<exists>evs a'. update_entity order a eid nx ny = Inr (True, evs, a') \<and>
    entities a' = (entities a)(eid \<mapsto> e\<lparr>e_x := nx, e_y := ny\<rparr>) \<and>
    (pos_to_grid c (e_x e) (e_y e) \<noteq> pos_to_grid c nx ny \<and> callback a \<longrightarrow>
      (let old = view_set a' (pos_to_grid c (e_x e) (e_y e)) - {eid};
           new = view_set a' (pos_to_grid c nx ny) - {eid}
       in watchers LEAVE eid evs = old - new \<and> targets LEAVE eid evs = old - new \<and>
          watchers ENTER eid evs = new - old \<and> targets ENTER eid evs = new - old \<and>
          watchers MOVE eid evs = old \<inter> new))"
proof -
  have a: "aoi_inv a" and c: "config a = c" using aoi_reachable_inv [OF assms(1-3)] by auto
  obtain evs a' where u: "update_entity order a eid nx ny = Inr (True, evs, a')" "aoi_inv a'" "config a' = c"
    "entities a' = (entities a)(eid \<mapsto> e\<lparr>e_x := nx, e_y := ny\<rparr>)"
    "pos_to_grid c (e_x e) (e_y e) \<noteq> pos_to_grid c nx ny \<and> callback a \<longrightarrow>
       move_events order a' eid (e_x e, e_y e) (nx, ny) = Inr evs"
    using update_entity_moves [OF a assms(3,4), of nx ny] c by (auto simp: cell_of_def)
  obtain evs' where m: "move_events order a' eid (e_x e, e_y e) (nx, ny) = Inr evs'"
    "let old = view_set a' (pos_to_grid c (e_x e) (e_y e)) - {eid}; new = view_set a' (pos_to_grid c nx ny) - {eid}
     in watchers LEAVE eid evs' = old - new \<and> targets LEAVE eid evs' = old - new \<and>
        watchers ENTER eid evs' = new - old \<and> targets ENTER eid evs' = new - old \<and>
        watchers MOVE eid evs' = old \<inter> new"
    using move_events_watchers [OF u(2) assms(3), of eid "e_x e" "e_y e" nx ny] u(3)
    by (elim exE) (simp add: Let_def, blast)
  show ?thesis
  proof (intro exI conjI impI)
    show "update_entity order a eid nx ny = Inr (True, evs, a')" by (fact u(1))
    show "entities a' = (entities a)(eid \<mapsto> e\<lparr>e_x := nx, e_y := ny\<rparr>)" by (fact u(4))
    assume "pos_to_grid c (e_x e) (e_y e) \<noteq> pos_to_grid c nx ny \<and> callback a"
    then have "evs' = evs" using u(5) m(1) by simp
    with m(2) show "let old = view_set a' (pos_to_grid c (e_x e) (e_y e)) - {eid}; new = view_set a' (pos_to_grid c nx ny) - {eid}
     in watchers LEAVE eid evs = old - new \<and> targets LEAVE eid evs = old - new \<and>
        watchers ENTER eid evs = new - old \<and> targets ENTER eid evs = new - old \<and>
        watchers MOVE eid evs = old \<inter> new" by simp
  qed
qed

text \<open>A concrete map: two entities, the second moves from the first cell to the third.\<close>

definition demo_config :: aoi_config where
  "demo_config = \<lparr>map_width = 300, map_height = 100, grid_size = 100, view_range = 1\<rparr>"

definition demo_entity :: "nat \<Rightarrow> int \<Rightarrow> entity" where
  "demo_entity i x = \<lparr>e_id = i, e_x = x, e_y = 10, e_type = PLAYER, user_data = 0\<rparr>"

definition demo_aoi :: grid_aoi where
  "demo_aoi = grid_aoi_init demo_config"

definition demo_aoi2 :: grid_aoi where
  "demo_aoi2 = demo_aoi\<lparr>callback := True, entities := [1 \<mapsto> demo_entity 1 10, 2 \<mapsto> demo_entity 2 20],
     grids := [{1, 2}, {}, {}], entity_to_grid := [1 \<mapsto> 0, 2 \<mapsto> 0]\<rparr>"

lemma demo_wf: "wf_config demo_config"
  by (simp add: wf_config_def demo_config_def grid_x_count_def grid_y_count_def signed_divide_int_def)

lemmas demo_defs = demo_aoi_def demo_aoi2_def demo_config_def demo_entity_def grid_aoi_init_def
  grid_x_count_def grid_y_count_def pos_to_grid_def grid_index_def in_range_def signed_divide_int_def

lemma demo_reachable: "aoi_reachable sorted_list_of_set demo_config demo_aoi2"
proof -
  let ?a1 = "demo_aoi\<lparr>entities := [1 \<mapsto> demo_entity 1 10], grids := [{1}, {}, {}], entity_to_grid := [1 \<mapsto> 0]\<rparr>"
  let ?a2 = "?a1\<lparr>entities := [1 \<mapsto> demo_entity 1 10, 2 \<mapsto> demo_entity 2 20], grids := [{1, 2}, {}, {}],
      entity_to_grid := [1 \<mapsto> 0, 2 \<mapsto> 0]\<rparr>"
  have "aoi_reachable sorted_list_of_set demo_config demo_aoi"
    unfolding demo_aoi_def by (rule aoi_reachable.init)
  moreover have "aoi_step sorted_list_of_set demo_aoi (AddEntity (demo_entity 1 10)) = Inr (True, [], ?a1)"
    by (simp add: aoi_step_def add_entity_def demo_defs eval_nat_numeral)
  ultimately have "aoi_reachable sorted_list_of_set demo_config ?a1" by (rule aoi_reachable.step)
  moreover have "aoi_step sorted_list_of_set ?a1 (AddEntity (demo_entity 2 20)) = Inr (True, [], ?a2)"
    by (simp add: aoi_step_def add_entity_def demo_defs eval_nat_numeral insert_commute)
  ultimately have "aoi_reachable sorted_list_of_set demo_config ?a2" by (rule aoi_reachable.step)
  moreover have "aoi_step sorted_list_of_set ?a2 (SetCallback True) = Inr (True, [], demo_aoi2)"
    by (simp add: aoi_step_def set_callback_def demo_defs)
  ultimately show ?thesis by (rule aoi_reachable.step)
qed

theorem grid_view_exact_witness:
  "\<exists>ids. get_entity_ids_in_view sorted_list_of_set demo_aoi2 150 0 = Inr ids \<and> distinct ids \<and> set ids = {1, 2}"
proof -
  have "{eid. \<exists>e. entities demo_aoi2 eid = Some e \<and> near demo_config (pos_to_grid demo_config 150 0)
      (pos_to_grid demo_config (e_x e) (e_y e))} = {1, 2}"
    by (auto simp: near_def demo_defs split: if_splits)
  then show ?thesis
    using grid_view_exact [OF demo_reachable demo_wf enumerates_sorted_list, of 150 0] by simp
qed

theorem grid_move_events_witness:
  "\<exists>evs a'. update_entity sorted_list_of_set demo_aoi2 2 250 10 = Inr (True, evs, a') \<and>
     watchers LEAVE 2 evs = {1} \<and> watchers ENTER 2 evs = {} \<and> watchers MOVE 2 evs = {}"
proof -
  let ?og = "pos_to_grid demo_config 20 10" and ?ng = "pos_to_grid demo_config 250 10"
  have e: "entities demo_aoi2 2 = Some (demo_entity 2 20)" by (simp add: demo_aoi2_def)
  have g: "?og = (0, 0)" "?ng = (2, 0)" "callback demo_aoi2" by (simp_all add: demo_defs)
  have p: "e_x (demo_entity 2 20) = 20" "e_y (demo_entity 2 20) = 10" by (simp_all add: demo_entity_def)
  obtain evs a' where u: "update_entity sorted_list_of_set demo_aoi2 2 250 10 = Inr (True, evs, a')"
    "entities a' = (entities demo_aoi2)(2 \<mapsto> (demo_entity 2 20)\<lparr>e_x := 250, e_y := 10\<rparr>)"
    "let old = view_set a' (0, 0) - {2}; new = view_set a' (2, 0) - {2}
     in watchers LEAVE 2 evs = old - new \<and> watchers ENTER 2 evs = new - old \<and> watchers MOVE 2 evs = old \<inter> new"
    using grid_move_events [OF demo_reachable demo_wf enumerates_sorted_list e, of 250 10] g p
    by (elim exE conjE) (simp add: Let_def)
  have "config a' = demo_config"
    using update_entity_moves [OF _ enumerates_sorted_list e, of 250 10] u(1)
      aoi_reachable_inv [OF demo_reachable demo_wf enumerates_sorted_list] by auto
  then have "view_set a' (0, 0) - {2} = {1}" "view_set a' (2, 0) - {2} = {}"
    by (auto simp: view_set_def u(2) near_def cell_of_def demo_defs split: if_splits)
  with u show ?thesis by (auto simp: Let_def)
qed

end
