(* ===== verification/CrossListAoi.thy ===== *)
theory CrossListAoi
  imports GridAoi
begin

text \<open>
  \<^verbatim>\<open>src/aoi/aoi.cpp\<close>, the cross list: every entity is a node of two doubly linked lists, one sorted
  by x and one by y. The nodes are a heap with one field per pointer (a node is named by its
  entity id, its key in \<^verbatim>\<open>nodes_\<close>); reading a node that is not in the heap is \<open>UseAfterFree\<close>, and
  the loops along the pointers are partial functions whose value is \<open>None\<close> when they run forever.
  Coordinates plus or minus \<^verbatim>\<open>view_range\<close> are assumed to fit an \<^verbatim>\<open>int\<close>.
\<close>

section \<open>State\<close>

record links =
  lhead :: "nat option"
  next_of :: "nat \<Rightarrow> nat option"
  prev_of :: "nat \<Rightarrow> nat option"

record cross_aoi =
  xl_range :: int
  nodes :: "nat \<rightharpoonup> entity"
  x_links :: links
  y_links :: links

definition links_init :: links where
  "links_init = \<lparr>lhead = None, next_of = (\<lambda>_. None), prev_of = (\<lambda>_. None)\<rparr>"

definition cross_init :: "int \<Rightarrow> cross_aoi" where
  "cross_init r = \<lparr>xl_range = r, nodes = Map.empty, x_links = links_init, y_links = links_init\<rparr>"

section \<open>Operations\<close>

text \<open>The search loop of \<^verbatim>\<open>insert_to_x_list\<close> and \<^verbatim>\<open>insert_to_y_list\<close>; \<open>key\<close> reads the coordinate.\<close>

partial_function (option) walk ::
    "(nat \<rightharpoonup> int) \<Rightarrow> (nat \<Rightarrow> nat option) \<Rightarrow> int \<Rightarrow> nat option \<Rightarrow> nat option \<Rightarrow>
     (cpp_error + nat option \<times> nat option) option" where
  "walk key nxt k prev cur =
     (case cur of
        None \<Rightarrow> Some (Inr (prev, None))
      | Some c \<Rightarrow>
          (case key c of
             None \<Rightarrow> Some (Inl UseAfterFree)
           | Some kc \<Rightarrow> if kc < k then walk key nxt k (Some c) (nxt c) else Some (Inr (prev, Some c))))"

text \<open>The assignments after the loop.\<close>

definition link_between :: "links \<Rightarrow> nat \<Rightarrow> nat option \<Rightarrow> nat option \<Rightarrow> links" where
  "link_between l n prev cur =
     (let l1 = l\<lparr>prev_of := (prev_of l)(n := prev), next_of := (next_of l)(n := cur)\<rparr>;
          l2 = (case prev of Some p \<Rightarrow> l1\<lparr>next_of := (next_of l1)(p := Some n)\<rparr>
                           | None \<Rightarrow> l1\<lparr>lhead := Some n\<rparr>)
      in case cur of Some c \<Rightarrow> l2\<lparr>prev_of := (prev_of l2)(c := Some n)\<rparr> | None \<Rightarrow> l2)"

definition insert_to_list :: "(nat \<rightharpoonup> int) \<Rightarrow> links \<Rightarrow> nat \<Rightarrow> (cpp_error + links) option" where
  "insert_to_list key l n =
     (case lhead l of
        None \<Rightarrow> Some (Inr (l\<lparr>lhead := Some n\<rparr>))
      | Some h \<Rightarrow>
          (case key n of
             None \<Rightarrow> Some (Inl UseAfterFree)
           | Some k \<Rightarrow>
               (case walk key (next_of l) k None (Some h) of
                  None \<Rightarrow> None
                | Some (Inl err) \<Rightarrow> Some (Inl err)
                | Some (Inr (prev, cur)) \<Rightarrow> Some (Inr (link_between l n prev cur)))))"

definition remove_from_list :: "links \<Rightarrow> nat \<Rightarrow> links" where
  "remove_from_list l n =
     (let l1 = (case prev_of l n of Some p \<Rightarrow> l\<lparr>next_of := (next_of l)(p := next_of l n)\<rparr>
                                  | None \<Rightarrow> l\<lparr>lhead := next_of l n\<rparr>)
      in case next_of l1 n of Some c \<Rightarrow> l1\<lparr>prev_of := (prev_of l1)(c := prev_of l1 n)\<rparr> | None \<Rightarrow> l1)"

definition x_key :: "(nat \<rightharpoonup> entity) \<Rightarrow> nat \<rightharpoonup> int" where
  "x_key ns i = map_option e_x (ns i)"

definition y_key :: "(nat \<rightharpoonup> entity) \<Rightarrow> nat \<rightharpoonup> int" where
  "y_key ns i = map_option e_y (ns i)"

definition insert_to_lists :: "cross_aoi \<Rightarrow> nat \<Rightarrow> (cpp_error + cross_aoi) option" where
  "insert_to_lists a n =
     (case insert_to_list (x_key (nodes a)) (x_links a) n of
        None \<Rightarrow> None
      | Some (Inl err) \<Rightarrow> Some (Inl err)
      | Some (Inr lx) \<Rightarrow>
          (case insert_to_list (y_key (nodes a)) (y_links a) n of
             None \<Rightarrow> None
           | Some (Inl err) \<Rightarrow> Some (Inl err)
           | Some (Inr ly) \<Rightarrow> Some (Inr (a\<lparr>x_links := lx, y_links := ly\<rparr>))))"

definition remove_from_lists :: "cross_aoi \<Rightarrow> nat \<Rightarrow> cross_aoi" where
  "remove_from_lists a n =
     a\<lparr>x_links := remove_from_list (x_links a) n, y_links := remove_from_list (y_links a) n\<rparr>"

text \<open>A new node has four null pointers.\<close>

definition fresh_node :: "links \<Rightarrow> nat \<Rightarrow> links" where
  "fresh_node l n = l\<lparr>next_of := (next_of l)(n := None), prev_of := (prev_of l)(n := None)\<rparr>"

definition xl_add_entity :: "cross_aoi \<Rightarrow> entity \<Rightarrow> (cpp_error + bool \<times> cross_aoi) option" where
  "xl_add_entity a e =
     (if e_id e = 0 then Some (Inr (False, a))
      else if nodes a (e_id e) \<noteq> None then Some (Inr (False, a))
      else let a1 = a\<lparr>nodes := (nodes a)(e_id e \<mapsto> e),
                      x_links := fresh_node (x_links a) (e_id e), y_links := fresh_node (y_links a) (e_id e)\<rparr>
           in map_option (map_sum id (Pair True)) (insert_to_lists a1 (e_id e)))"

definition xl_remove_entity :: "cross_aoi \<Rightarrow> nat \<Rightarrow> bool \<times> cross_aoi" where
  "xl_remove_entity a eid =
     (case nodes a eid of
        None \<Rightarrow> (False, a)
      | Some e \<Rightarrow> (True, (remove_from_lists a eid)\<lparr>nodes := (nodes a)(eid := None)\<rparr>))"

definition xl_update_entity :: "cross_aoi \<Rightarrow> nat \<Rightarrow> int \<Rightarrow> int \<Rightarrow> (cpp_error + bool \<times> cross_aoi) option" where
  "xl_update_entity a eid nx ny =
     (case nodes a eid of
        None \<Rightarrow> Some (Inr (False, a))
      | Some e \<Rightarrow>
          let a1 = (remove_from_lists a eid)\<lparr>nodes := (nodes a)(eid \<mapsto> e\<lparr>e_x := nx, e_y := ny\<rparr>)\<rparr>
          in map_option (map_sum id (Pair True)) (insert_to_lists a1 eid))"

text \<open>The loop of \<^verbatim>\<open>get_entities_in_view\<close> along the x list.\<close>

partial_function (option) view_loop ::
    "(nat \<rightharpoonup> entity) \<Rightarrow> (nat \<Rightarrow> nat option) \<Rightarrow> int \<times> int \<times> int \<times> int \<Rightarrow> nat option \<Rightarrow> entity list \<Rightarrow>
     (cpp_error + entity list) option" where
  "view_loop ns nxt b cur res =
     (case cur of
        None \<Rightarrow> Some (Inr res)
      | Some c \<Rightarrow>
          (case ns c of
             None \<Rightarrow> Some (Inl UseAfterFree)
           | Some e \<Rightarrow>
               (case b of (min_x, max_x, min_y, max_y) \<Rightarrow>
                  if max_x < e_x e then Some (Inr res)
                  else view_loop ns nxt b (nxt c)
                    (if min_x \<le> e_x e \<and> min_y \<le> e_y e \<and> e_y e \<le> max_y then res @ [e] else res))))"

definition xl_get_entities_in_view :: "cross_aoi \<Rightarrow> int \<Rightarrow> int \<Rightarrow> (cpp_error + entity list) option" where
  "xl_get_entities_in_view a x y =
     view_loop (nodes a) (next_of (x_links a))
       (x - xl_range a, x + xl_range a, y - xl_range a, y + xl_range a) (lhead (x_links a)) []"

text \<open>\<^verbatim>\<open>get_entities_in_view(watcher_id)\<close>, which calls the loop while holding the lock.\<close>

definition xl_get_entities_in_view_of :: "cross_aoi \<Rightarrow> nat \<Rightarrow> (cpp_error + entity list) option" where
  "xl_get_entities_in_view_of a w =
     (case nodes a w of None \<Rightarrow> Some (Inr []) | Some e \<Rightarrow> xl_get_entities_in_view a (e_x e) (e_y e))"

definition xl_total_entities :: "cross_aoi \<Rightarrow> nat" where
  "xl_total_entities a = card (dom (nodes a))"

section \<open>Doubly linked segments\<close>

text \<open>
  The nodes \<open>xs\<close> in order, entered from \<open>p\<close> through the pointer \<open>h\<close> and left from \<open>l\<close> through the
  pointer \<open>t\<close>.
\<close>

fun seg :: "(nat \<Rightarrow> nat option) \<Rightarrow> (nat \<Rightarrow> nat option) \<Rightarrow> nat option \<Rightarrow> nat option \<Rightarrow> nat list \<Rightarrow>
    nat option \<Rightarrow> nat option \<Rightarrow> bool" where
  "seg nxt prv p h [] l t \<longleftrightarrow> p = l \<and> h = t"
| "seg nxt prv p h (x # xs) l t \<longleftrightarrow> h = Some x \<and> prv x = p \<and> seg nxt prv (Some x) (nxt x) xs l t"

definition last_opt :: "nat option \<Rightarrow> nat list \<Rightarrow> nat option" where
  "last_opt p xs = (if xs = [] then p else Some (last xs))"

definition hd_opt :: "nat list \<Rightarrow> nat option \<Rightarrow> nat option" where
  "hd_opt xs t = (if xs = [] then t else Some (hd xs))"

lemma seg_append:
  "seg nxt prv p h (xs @ ys) l t \<longleftrightarrow> (\<exists>m k. seg nxt prv p h xs m k \<and> seg nxt prv m k ys l t)"
  by (induction xs arbitrary: p h) auto

lemma seg_ends: "seg nxt prv p h xs l t \<Longrightarrow> l = last_opt p xs \<and> h = hd_opt xs t"
  by (induction xs arbitrary: p h) (auto simp: last_opt_def hd_opt_def)

lemma seg_frame:
  "\<forall>x\<in>set xs. nxt' x = nxt x \<and> prv' x = prv x \<Longrightarrow> seg nxt' prv' p h xs l t = seg nxt prv p h xs l t"
  by (induction xs arbitrary: p h) auto

lemma seg_transfer:
  "seg nxt prv p h xs l t \<Longrightarrow> \<forall>x\<in>set xs. nxt' x = nxt x \<and> prv' x = prv x \<Longrightarrow> h' = h \<Longrightarrow> seg nxt' prv' p h' xs l t"
  using seg_frame by blast

lemma seg_snoc:
  "seg nxt prv p h (xs @ [a]) l t \<longleftrightarrow> seg nxt prv p h xs (prv a) (Some a) \<and> l = Some a \<and> nxt a = t"
  by (auto simp: seg_append)

text \<open>Redirecting the last forward pointer, and the first backward pointer, of a segment.\<close>

lemma seg_set_next:
  assumes "seg nxt prv p h (xs @ [a]) l t" and "distinct (xs @ [a])"
  shows "seg (nxt(a := t')) prv p h (xs @ [a]) l t'"
  using assms seg_frame [of xs "nxt(a := t')" nxt prv prv] by (auto simp: seg_snoc)

lemma seg_set_prev:
  assumes "seg nxt prv p h (b # xs) l t" and "distinct (b # xs)"
  shows "seg nxt (prv(b := q)) q h (b # xs) l t"
  using assms seg_frame [of xs nxt nxt "prv(b := q)" prv] by auto

text \<open>A list of nodes: from the head, ending in null.\<close>

definition dlist :: "links \<Rightarrow> nat list \<Rightarrow> bool" where
  "dlist L xs \<longleftrightarrow> distinct xs \<and> seg (next_of L) (prev_of L) None (lhead L) xs (last_opt None xs) None"

lemma seg_fun_upd:
  "x \<notin> set xs \<Longrightarrow> seg (nxt(x := a)) prv p h xs l t = seg nxt prv p h xs l t"
  "x \<notin> set xs \<Longrightarrow> seg nxt (prv(x := a)) p h xs l t = seg nxt prv p h xs l t"
  by (auto intro!: seg_frame)

lemma dlist_split:
  assumes "dlist L (ys @ zs)"
  shows "seg (next_of L) (prev_of L) None (lhead L) ys (last_opt None ys) (hd_opt zs None)"
    and "seg (next_of L) (prev_of L) (last_opt None ys) (hd_opt zs None) zs (last_opt None (ys @ zs)) None"
proof -
  obtain m k where mk: "seg (next_of L) (prev_of L) None (lhead L) ys m k"
    "seg (next_of L) (prev_of L) m k zs (last_opt None (ys @ zs)) None"
    using assms by (auto simp: dlist_def seg_append)
  then have "m = last_opt None ys" "k = hd_opt zs None" using seg_ends by blast+
  with mk show "seg (next_of L) (prev_of L) None (lhead L) ys (last_opt None ys) (hd_opt zs None)"
    "seg (next_of L) (prev_of L) (last_opt None ys) (hd_opt zs None) zs (last_opt None (ys @ zs)) None" by simp_all
qed

lemma dlistI:
  assumes "distinct xs" and "seg (next_of L) (prev_of L) None (lhead L) xs l None"
  shows "dlist L xs"
  using assms seg_ends [OF assms(2)] by (simp add: dlist_def)

lemma link_between_dlist:
  assumes L: "dlist L (ys @ zs)" and n: "n \<notin> set (ys @ zs)"
  shows "dlist (link_between L n (last_opt None ys) (hd_opt zs None)) (ys @ n # zs)" (is "dlist ?L' _")
proof -
  have d: "distinct (ys @ zs)" using L by (simp add: dlist_def)
  then have last_outside: "ys \<noteq> [] \<Longrightarrow> last ys \<notin> set zs" using last_in_set [of ys] by (auto simp del: last_in_set)
  note s = dlist_split [OF L]
  have ys: "seg (next_of ?L') (prev_of ?L') None (lhead ?L') ys (last_opt None ys) (Some n)"
  proof (cases ys rule: rev_cases)
    case Nil
    then show ?thesis by (simp add: link_between_def last_opt_def Let_def split: option.split)
  next
    case (snoc ys' a)
    have "seg ((next_of L)(a := Some n)) (prev_of L) None (lhead L) ys (last_opt None ys) (Some n)"
      using seg_set_next [of "next_of L" "prev_of L"] s(1) d unfolding snoc by simp
    moreover have "\<forall>x\<in>set ys. next_of ?L' x = ((next_of L)(a := Some n)) x \<and> prev_of ?L' x = prev_of L x"
      using n d by (auto simp: link_between_def last_opt_def hd_opt_def Let_def snoc split: list.splits)
    moreover have "lhead ?L' = lhead L"
      by (simp add: link_between_def last_opt_def snoc Let_def split: option.split)
    ultimately show ?thesis by (rule seg_transfer)
  qed
  have zs: "seg (next_of ?L') (prev_of ?L') (Some n) (hd_opt zs None) zs (last_opt (Some n) zs) None"
  proof (cases zs)
    case Nil
    then show ?thesis by (simp add: last_opt_def hd_opt_def)
  next
    case (Cons b zs')
    have "seg (next_of L) ((prev_of L)(b := Some n)) (Some n) (hd_opt zs None) zs (last_opt (Some n) zs) None"
      using seg_set_prev s(2) d unfolding Cons by (fastforce simp: last_opt_def)
    moreover have "\<forall>x\<in>set zs. next_of ?L' x = next_of L x \<and> prev_of ?L' x = ((prev_of L)(b := Some n)) x"
      using n d last_outside by (auto simp: link_between_def last_opt_def hd_opt_def Let_def Cons)
    ultimately show ?thesis by (rule seg_transfer) (rule refl)
  qed
  have "prev_of ?L' n = last_opt None ys" "next_of ?L' n = hd_opt zs None"
    using n by (auto simp: link_between_def last_opt_def hd_opt_def Let_def)
  with ys zs have "seg (next_of ?L') (prev_of ?L') None (lhead ?L') (ys @ n # zs) (last_opt (Some n) zs) None"
    by (auto simp: seg_append)
  then show ?thesis using d n by (intro dlistI) auto
qed

lemma remove_from_list_dlist:
  assumes L: "dlist L (ys @ n # zs)"
  shows "dlist (remove_from_list L n) (ys @ zs)" (is "dlist ?L' _")
proof -
  have d: "distinct (ys @ n # zs)" using L by (simp add: dlist_def)
  then have last_outside: "ys \<noteq> [] \<Longrightarrow> last ys \<notin> set zs" using last_in_set [of ys] by (auto simp del: last_in_set)
  note s = dlist_split [OF L]
  have p: "prev_of L n = last_opt None ys" "next_of L n = hd_opt zs None"
    using s(2) seg_ends [of "next_of L" "prev_of L" "Some n" "next_of L n" zs] by auto
  have ys: "seg (next_of ?L') (prev_of ?L') None (lhead ?L') ys (last_opt None ys) (hd_opt zs None)"
  proof (cases ys rule: rev_cases)
    case Nil
    then show ?thesis using p by (simp add: remove_from_list_def last_opt_def Let_def split: option.split)
  next
    case (snoc ys' a)
    have "seg ((next_of L)(a := hd_opt zs None)) (prev_of L) None (lhead L) ys (last_opt None ys) (hd_opt zs None)"
      using seg_set_next [of "next_of L" "prev_of L"] s(1) d unfolding snoc by simp
    moreover have "\<forall>x\<in>set ys. next_of ?L' x = ((next_of L)(a := hd_opt zs None)) x \<and> prev_of ?L' x = prev_of L x"
      using d p by (auto simp: remove_from_list_def last_opt_def hd_opt_def Let_def snoc split: list.splits)
    moreover have "lhead ?L' = lhead L"
      using p by (simp add: remove_from_list_def last_opt_def snoc Let_def split: option.split)
    ultimately show ?thesis by (rule seg_transfer)
  qed
  have zs: "seg (next_of ?L') (prev_of ?L') (last_opt None ys) (hd_opt zs None) zs (last_opt None (ys @ zs)) None"
  proof (cases zs)
    case Nil
    then show ?thesis by (simp add: last_opt_def hd_opt_def)
  next
    case (Cons b zs')
    have "seg (next_of L) ((prev_of L)(b := last_opt None ys)) (last_opt None ys) (hd_opt zs None) zs (last_opt None (ys @ zs)) None"
      using seg_set_prev s(2) d unfolding Cons by (fastforce simp: last_opt_def hd_opt_def)
    moreover have "\<forall>x\<in>set zs. next_of ?L' x = next_of L x \<and> prev_of ?L' x = ((prev_of L)(b := last_opt None ys)) x"
      using d p last_outside by (auto simp: remove_from_list_def last_opt_def hd_opt_def Let_def Cons)
    ultimately show ?thesis by (rule seg_transfer) (rule refl)
  qed
  from ys zs have "seg (next_of ?L') (prev_of ?L') None (lhead ?L') (ys @ zs) (last_opt None (ys @ zs)) None"
    by (auto simp: seg_append)
  then show ?thesis using d by (intro dlistI) auto
qed

section \<open>The loops end at the right place\<close>

lemma walk_correct:
  assumes "seg nxt prv p h xs l None" and "set xs \<subseteq> dom key"
  shows "walk key nxt k p h =
    (let small = (\<lambda>x. the (key x) < k) in
     Some (Inr (last_opt p (takeWhile small xs), hd_opt (dropWhile small xs) None)))"
  using assms
proof (induction xs arbitrary: p h)
  case Nil
  then show ?case by (subst walk.simps) (simp add: last_opt_def hd_opt_def)
next
  case (Cons x xs)
  then obtain kx where kx: "key x = Some kx" by auto
  show ?case
  proof (cases "kx < k")
    case True
    then have "walk key nxt k p h = walk key nxt k (Some x) (nxt x)"
      using Cons.prems kx by (subst walk.simps) simp
    then show ?thesis using Cons True kx by (simp add: last_opt_def Let_def)
  next
    case False
    then show ?thesis using Cons.prems kx by (subst walk.simps) (simp add: last_opt_def hd_opt_def)
  qed
qed

text \<open>The reference for an insertion: before the first node whose coordinate is not smaller.\<close>

definition insert_at :: "(nat \<rightharpoonup> int) \<Rightarrow> nat \<Rightarrow> nat list \<Rightarrow> nat list" where
  "insert_at key n xs = (let small = (\<lambda>x. the (key x) < the (key n))
     in takeWhile small xs @ n # dropWhile small xs)"

lemma set_insert_at: "set (insert_at key n xs) = insert n (set xs)"
  unfolding insert_at_def Let_def
  using takeWhile_dropWhile_id [of "\<lambda>x. the (key x) < the (key n)" xs] set_append [of "takeWhile (\<lambda>x. the (key x) < the (key n)) xs"]
  by (metis Un_insert_right list.simps(15) set_append)

lemma sorted_insert_at:
  "sorted (map (the \<circ> key) xs) \<Longrightarrow> sorted (map (the \<circ> key) (insert_at key n xs))"
  unfolding insert_at_def Let_def
proof (induction xs)
  case (Cons x xs)
  then show ?case
    by (cases "the (key x) < the (key n)") (auto dest: set_takeWhileD set_dropWhileD)
qed simp

lemma insert_to_list_correct:
  assumes L: "dlist L xs" and n: "n \<notin> set xs" and dom: "set xs \<subseteq> dom key" "n \<in> dom key"
    and lone: "xs = [] \<Longrightarrow> next_of L n = None \<and> prev_of L n = None"
  shows "\<exists>L'. insert_to_list key L n = Some (Inr L') \<and> dlist L' (insert_at key n xs)"
proof (cases "lhead L")
  case None
  then have "xs = []" using L by (cases xs) (auto simp: dlist_def)
  then show ?thesis using None lone by (auto simp: insert_to_list_def dlist_def insert_at_def last_opt_def)
next
  case (Some h)
  let ?small = "\<lambda>x. the (key x) < the (key n)"
  have "walk key (next_of L) (the (key n)) None (lhead L) =
      Some (Inr (last_opt None (takeWhile ?small xs), hd_opt (dropWhile ?small xs) None))"
    using walk_correct [of "next_of L" "prev_of L" None "lhead L" xs _ key] L dom(1) by (auto simp: dlist_def Let_def)
  moreover have "dlist (link_between L n (last_opt None (takeWhile ?small xs)) (hd_opt (dropWhile ?small xs) None))
      (takeWhile ?small xs @ n # dropWhile ?small xs)"
    using L n by (intro link_between_dlist) simp_all
  ultimately show ?thesis using Some dom(2) by (auto simp: insert_to_list_def insert_at_def Let_def)
qed

text \<open>What the x and the y list satisfy between two calls.\<close>

definition sorted_links :: "(nat \<rightharpoonup> int) \<Rightarrow> links \<Rightarrow> nat list \<Rightarrow> bool" where
  "sorted_links key L xs \<longleftrightarrow> dlist L xs \<and> set xs = dom key \<and> sorted (map (the \<circ> key) xs)"

lemma sorted_links_insert:
  assumes L: "sorted_links key L xs" and "key n = None"
    and lone: "xs = [] \<Longrightarrow> next_of L n = None \<and> prev_of L n = None"
  shows "\<exists>L' xs'. insert_to_list (key(n \<mapsto> k)) L n = Some (Inr L') \<and> sorted_links (key(n \<mapsto> k)) L' xs'"
proof -
  have n: "n \<notin> set xs" using L assms(2) by (auto simp: sorted_links_def)
  then have "map (the \<circ> key(n \<mapsto> k)) xs = map (the \<circ> key) xs" by auto
  then have "sorted (map (the \<circ> key(n \<mapsto> k)) xs)" using L unfolding sorted_links_def by argo
  then have "sorted (map (the \<circ> key(n \<mapsto> k)) (insert_at (key(n \<mapsto> k)) n xs))" by (rule sorted_insert_at)
  moreover obtain L' where "insert_to_list (key(n \<mapsto> k)) L n = Some (Inr L')" "dlist L' (insert_at (key(n \<mapsto> k)) n xs)"
    using insert_to_list_correct [of L xs n "key(n \<mapsto> k)"] L n lone unfolding sorted_links_def by auto
  moreover have "set (insert_at (key(n \<mapsto> k)) n xs) = dom (key(n \<mapsto> k))"
    using L by (simp add: sorted_links_def set_insert_at)
  ultimately show ?thesis unfolding sorted_links_def by blast
qed

lemma sorted_links_remove:
  assumes L: "sorted_links key L xs" and "n \<in> dom key"
  shows "\<exists>xs'. sorted_links (key(n := None)) (remove_from_list L n) xs' \<and>
    (xs' = [] \<longrightarrow> next_of (remove_from_list L n) n = None \<and> prev_of (remove_from_list L n) n = None)"
proof -
  obtain ys zs where xs: "xs = ys @ n # zs" using L assms(2) by (metis sorted_links_def split_list)
  have d: "dlist L (ys @ n # zs)" "n \<notin> set (ys @ zs)" using L by (auto simp: sorted_links_def dlist_def xs)
  have "map (the \<circ> key(n := None)) (ys @ zs) = map (the \<circ> key) (ys @ zs)" using d(2) by auto
  moreover have "sorted (map (the \<circ> key) (ys @ zs))" using L by (auto simp: sorted_links_def xs sorted_append)
  ultimately have "sorted (map (the \<circ> key(n := None)) (ys @ zs))" by argo
  moreover have "set (ys @ zs) = dom (key(n := None))" using L d by (auto simp: sorted_links_def xs)
  moreover have "ys @ zs = [] \<Longrightarrow> next_of (remove_from_list L n) n = None \<and> prev_of (remove_from_list L n) n = None"
    using d(1) by (auto simp: dlist_def remove_from_list_def Let_def split: option.split)
  ultimately show ?thesis
    using remove_from_list_dlist [OF d(1)] unfolding sorted_links_def by blast
qed

lemma sorted_links_fresh:
  assumes "sorted_links key L xs" and "key n = None"
  shows "sorted_links key (fresh_node L n) xs"
proof -
  have "n \<notin> set xs" using assms by (auto simp: sorted_links_def)
  then show ?thesis using assms(1) by (simp add: sorted_links_def dlist_def fresh_node_def seg_fun_upd)
qed

section \<open>The invariant of the cross list\<close>

definition xl_inv :: "cross_aoi \<Rightarrow> bool" where
  "xl_inv a \<longleftrightarrow> (\<forall>eid e. nodes a eid = Some e \<longrightarrow> e_id e = eid) \<and>
     (\<exists>xs. sorted_links (x_key (nodes a)) (x_links a) xs) \<and> (\<exists>ys. sorted_links (y_key (nodes a)) (y_links a) ys)"

lemma key_upd [simp]:
  "x_key (ns(n \<mapsto> e)) = (x_key ns)(n \<mapsto> e_x e)" "y_key (ns(n \<mapsto> e)) = (y_key ns)(n \<mapsto> e_y e)"
  "x_key (ns(n := None)) = (x_key ns)(n := None)" "y_key (ns(n := None)) = (y_key ns)(n := None)"
  by (auto simp: x_key_def y_key_def)

lemma key_dom [simp]: "dom (x_key ns) = dom ns" "dom (y_key ns) = dom ns"
  by (auto simp: x_key_def y_key_def)

lemma key_None [simp]: "x_key ns n = None \<longleftrightarrow> ns n = None" "y_key ns n = None \<longleftrightarrow> ns n = None"
  by (simp_all add: x_key_def y_key_def)

text \<open>A list without \<open>n\<close>, ready for \<open>n\<close> to be inserted.\<close>

definition ready :: "(nat \<rightharpoonup> int) \<Rightarrow> links \<Rightarrow> nat \<Rightarrow> bool" where
  "ready key L n \<longleftrightarrow> (\<exists>xs. sorted_links key L xs \<and> (xs = [] \<longrightarrow> next_of L n = None \<and> prev_of L n = None))"

lemma ready_insert:
  assumes "ready key L n" and "key n = None"
  obtains L' xs' where "insert_to_list (key(n \<mapsto> k)) L n = Some (Inr L')" and "sorted_links (key(n \<mapsto> k)) L' xs'"
proof -
  obtain xs where "sorted_links key L xs" "xs = [] \<Longrightarrow> next_of L n = None \<and> prev_of L n = None"
    using assms(1) by (auto simp: ready_def)
  from sorted_links_insert [OF this(1) assms(2) this(2)] that show ?thesis by blast
qed

lemma insert_to_lists_inv:
  assumes "ready (x_key ns) (x_links a) n" and "ready (y_key ns) (y_links a) n" and "ns n = None"
    and a: "nodes a = ns(n \<mapsto> e)" and ids: "e_id e = n" "\<And>i e'. ns i = Some e' \<Longrightarrow> e_id e' = i"
  shows "\<exists>a'. insert_to_lists a n = Some (Inr a') \<and> xl_inv a' \<and> nodes a' = nodes a \<and> xl_range a' = xl_range a"
proof -
  obtain lx xs where "insert_to_list (x_key (nodes a)) (x_links a) n = Some (Inr lx)" "sorted_links (x_key (nodes a)) lx xs"
    using ready_insert [OF assms(1), of "e_x e"] assms(3) by (auto simp: a)
  moreover obtain ly ys where "insert_to_list (y_key (nodes a)) (y_links a) n = Some (Inr ly)" "sorted_links (y_key (nodes a)) ly ys"
    using ready_insert [OF assms(2), of "e_y e"] assms(3) by (auto simp: a)
  moreover have "\<forall>i e'. nodes a i = Some e' \<longrightarrow> e_id e' = i" using ids by (simp add: a)
  ultimately show ?thesis by (auto simp: insert_to_lists_def xl_inv_def)
qed

lemma xl_inv_init: "xl_inv (cross_init r)"
  by (auto simp: xl_inv_def cross_init_def links_init_def sorted_links_def dlist_def last_opt_def
      intro!: exI [where x = "[]"])

lemma xl_add_inv:
  assumes inv: "xl_inv a"
  shows "\<exists>ok a'. xl_add_entity a e = Some (Inr (ok, a')) \<and> xl_inv a' \<and>
    nodes a' = table_step (nodes a) (AddEntity e) \<and> xl_range a' = xl_range a"
proof (cases "e_id e = 0 \<or> nodes a (e_id e) \<noteq> None")
  case True
  then show ?thesis using inv by (auto simp: xl_add_entity_def table_step_def)
next
  case False
  let ?n = "e_id e"
  let ?a1 = "a\<lparr>nodes := (nodes a)(?n \<mapsto> e), x_links := fresh_node (x_links a) ?n, y_links := fresh_node (y_links a) ?n\<rparr>"
  have ids: "\<And>i e'. nodes a i = Some e' \<Longrightarrow> e_id e' = i" using inv by (simp add: xl_inv_def)
  have "ready (x_key (nodes a)) (x_links ?a1) ?n" "ready (y_key (nodes a)) (y_links ?a1) ?n"
    using inv False sorted_links_fresh [of "x_key (nodes a)" "x_links a" _ ?n] sorted_links_fresh [of "y_key (nodes a)" "y_links a" _ ?n]
    by (auto simp: ready_def xl_inv_def fresh_node_def)
  then obtain a' where "insert_to_lists ?a1 ?n = Some (Inr a')" "xl_inv a'" "nodes a' = nodes ?a1" "xl_range a' = xl_range ?a1"
    using insert_to_lists_inv [of "nodes a" ?a1 ?n e] False ids by auto
  then show ?thesis using False by (auto simp: xl_add_entity_def table_step_def)
qed

lemma remove_from_lists_ready:
  assumes "xl_inv a" and "nodes a n \<noteq> None"
  shows "ready ((x_key (nodes a))(n := None)) (x_links (remove_from_lists a n)) n"
    and "ready ((y_key (nodes a))(n := None)) (y_links (remove_from_lists a n)) n"
  using assms sorted_links_remove [of "x_key (nodes a)" "x_links a" _ n] sorted_links_remove [of "y_key (nodes a)" "y_links a" _ n]
  unfolding ready_def xl_inv_def remove_from_lists_def by (auto simp: domIff)

lemma xl_remove_inv:
  assumes inv: "xl_inv a"
  shows "xl_inv (snd (xl_remove_entity a eid)) \<and>
    nodes (snd (xl_remove_entity a eid)) = table_step (nodes a) (RemoveEntity eid)"
proof (cases "nodes a eid")
  case None
  then show ?thesis using inv by (auto simp: xl_remove_entity_def table_step_def)
next
  case (Some e)
  then show ?thesis using inv remove_from_lists_ready [OF inv, of eid]
    by (auto simp: xl_remove_entity_def table_step_def xl_inv_def ready_def)
qed

lemma xl_update_inv:
  assumes inv: "xl_inv a"
  shows "\<exists>ok a'. xl_update_entity a eid nx ny = Some (Inr (ok, a')) \<and> xl_inv a' \<and>
    nodes a' = table_step (nodes a) (UpdateEntity eid nx ny) \<and> xl_range a' = xl_range a"
proof (cases "nodes a eid")
  case None
  then show ?thesis using inv by (auto simp: xl_update_entity_def table_step_def)
next
  case (Some e)
  let ?e' = "e\<lparr>e_x := nx, e_y := ny\<rparr>"
  let ?a1 = "(remove_from_lists a eid)\<lparr>nodes := (nodes a)(eid \<mapsto> ?e')\<rparr>"
  have "e_id ?e' = eid" using inv Some by (simp add: xl_inv_def)
  moreover have "ready (x_key ((nodes a)(eid := None))) (x_links ?a1) eid" "ready (y_key ((nodes a)(eid := None))) (y_links ?a1) eid"
    using remove_from_lists_ready [OF inv, of eid] Some by simp_all
  moreover have "\<And>i e'. ((nodes a)(eid := None)) i = Some e' \<Longrightarrow> e_id e' = i"
    using inv by (simp add: xl_inv_def split: if_splits)
  ultimately obtain a' where "insert_to_lists ?a1 eid = Some (Inr a')" "xl_inv a'" "nodes a' = nodes ?a1" "xl_range a' = xl_range ?a1"
    using insert_to_lists_inv [of "(nodes a)(eid := None)" ?a1 eid ?e'] by auto
  then show ?thesis using Some by (auto simp: xl_update_entity_def table_step_def remove_from_lists_def)
qed

section \<open>Queries\<close>

definition in_box :: "int \<times> int \<times> int \<times> int \<Rightarrow> entity \<Rightarrow> bool" where
  "in_box b e = (case b of (min_x, max_x, min_y, max_y) \<Rightarrow>
     min_x \<le> e_x e \<and> e_x e \<le> max_x \<and> min_y \<le> e_y e \<and> e_y e \<le> max_y)"

lemma view_loop_correct:
  assumes "seg nxt prv p h xs l None" and "set xs \<subseteq> dom ns" and "sorted (map (the \<circ> x_key ns) xs)"
  shows "view_loop ns nxt b h res = Some (Inr (res @ filter (in_box b) (map (the \<circ> ns) xs)))"
  using assms
proof (induction xs arbitrary: p h res)
  case Nil
  then show ?case by (subst view_loop.simps) simp
next
  case (Cons x xs)
  obtain x0 x1 y0 y1 where b: "b = (x0, x1, y0, y1)" by (cases b)
  obtain e where e: "ns x = Some e" using Cons.prems by auto
  show ?case
  proof (cases "x1 < e_x e")
    case True
    have "\<not> in_box b (the (ns z))" if "z \<in> set (x # xs)" for z
    proof -
      have "e_x e \<le> e_x (the (ns z))" using that Cons.prems e by (force simp: x_key_def domIff)
      then show ?thesis using True by (simp add: b in_box_def)
    qed
    then have "filter (in_box b) (map (the \<circ> ns) (x # xs)) = []" by (auto simp: filter_empty_conv)
    moreover have "view_loop ns nxt b h res = Some (Inr res)"
      using True e Cons.prems by (subst view_loop.simps) (simp add: b)
    ultimately show ?thesis by (simp only: append_Nil2)
  next
    case False
    then have "view_loop ns nxt b h res = view_loop ns nxt b (nxt x) (if in_box b e then res @ [e] else res)"
      using e Cons.prems by (subst view_loop.simps) (simp add: b in_box_def)
    then show ?thesis
      using Cons.IH [of "Some x" "nxt x" "if in_box b e then res @ [e] else res"] Cons.prems e by simp
  qed
qed

lemma xl_view:
  assumes "xl_inv a"
  shows "\<exists>es. xl_get_entities_in_view a x y = Some (Inr es) \<and> distinct es \<and> sorted (map e_x es) \<and>
    set es = {e. \<exists>i. nodes a i = Some e \<and> \<bar>e_x e - x\<bar> \<le> xl_range a \<and> \<bar>e_y e - y\<bar> \<le> xl_range a}"
proof -
  let ?b = "(x - xl_range a, x + xl_range a, y - xl_range a, y + xl_range a)"
  obtain xs where xs: "dlist (x_links a) xs" "set xs = dom (nodes a)" "sorted (map (the \<circ> x_key (nodes a)) xs)"
    using assms by (auto simp: xl_inv_def sorted_links_def)
  let ?es = "filter (in_box ?b) (map (the \<circ> nodes a) xs)"
  have "xl_get_entities_in_view a x y = Some (Inr ?es)"
    unfolding xl_get_entities_in_view_def using xs
    by (subst view_loop_correct [of _ "prev_of (x_links a)" None _ xs]) (auto simp: dlist_def)
  moreover have "inj_on (the \<circ> nodes a) (set xs)"
  proof (rule inj_onI)
    fix i j assume "i \<in> set xs" "j \<in> set xs" "(the \<circ> nodes a) i = (the \<circ> nodes a) j"
    then show "i = j" using xs(2) assms unfolding xl_inv_def by (metis comp_apply domD option.sel)
  qed
  then have "distinct ?es" using xs(1) by (auto simp: dlist_def distinct_map intro: distinct_filter)
  moreover have "map e_x (map (the \<circ> nodes a) xs) = map (the \<circ> x_key (nodes a)) xs"
    using xs(2) by (auto simp: x_key_def option.map_sel)
  then have "sorted (map e_x ?es)" using xs(3) by (intro sorted_filter) (simp only: )
  moreover have "set ?es = {e. \<exists>i. nodes a i = Some e \<and> \<bar>e_x e - x\<bar> \<le> xl_range a \<and> \<bar>e_y e - y\<bar> \<le> xl_range a}"
  proof -
    have "set (map (the \<circ> nodes a) xs) = {e. \<exists>i. nodes a i = Some e}" using xs(2) by (force simp: image_iff)
    then show ?thesis by (auto simp: in_box_def)
  qed
  ultimately show ?thesis by blast
qed

section \<open>The cross list is an AOI manager\<close>

definition xl_call :: "cross_aoi \<Rightarrow> aoi_call \<Rightarrow> cross_aoi option" where
  "xl_call a c = (case c of
     AddEntity e \<Rightarrow> (case xl_add_entity a e of Some (Inr (ok, a')) \<Rightarrow> Some a' | _ \<Rightarrow> None)
   | RemoveEntity eid \<Rightarrow> Some (snd (xl_remove_entity a eid))
   | UpdateEntity eid x y \<Rightarrow> (case xl_update_entity a eid x y of Some (Inr (ok, a')) \<Rightarrow> Some a' | _ \<Rightarrow> None)
   | SetCallback cb \<Rightarrow> Some a)"

lemma xl_call_ok:
  assumes "xl_inv a"
  shows "\<exists>a'. xl_call a c = Some a' \<and> xl_inv a' \<and> nodes a' = table_step (nodes a) c \<and> xl_range a' = xl_range a"
proof (cases c)
  case (AddEntity e)
  then show ?thesis using xl_add_inv [OF assms, of e] by (auto simp: xl_call_def)
next
  case (RemoveEntity eid)
  then show ?thesis using xl_remove_inv [OF assms, of eid]
    by (auto simp: xl_call_def xl_remove_entity_def remove_from_lists_def split: option.split)
next
  case (UpdateEntity eid x y)
  then show ?thesis using xl_update_inv [OF assms, of eid x y] by (auto simp: xl_call_def)
next
  case (SetCallback cb)
  then show ?thesis using assms by (simp add: xl_call_def table_step_def)
qed

definition xl_view_ids :: "cross_aoi \<Rightarrow> int \<Rightarrow> int \<Rightarrow> nat list option" where
  "xl_view_ids a x y = (case xl_get_entities_in_view a x y of Some (Inr es) \<Rightarrow> Some (map e_id es) | _ \<Rightarrow> None)"

text \<open>The ids that are at most \<open>r\<close> away in both coordinates.\<close>

definition box_visible :: "int \<Rightarrow> (nat \<rightharpoonup> entity) \<Rightarrow> int \<Rightarrow> int \<Rightarrow> nat set" where
  "box_visible r t x y = {eid. \<exists>e. t eid = Some e \<and> \<bar>e_x e - x\<bar> \<le> r \<and> \<bar>e_y e - y\<bar> \<le> r}"

lemma xl_view_ids_exact:
  assumes "xl_inv a"
  shows "\<exists>ids. xl_view_ids a x y = Some ids \<and> distinct ids \<and> set ids = box_visible (xl_range a) (nodes a) x y"
proof -
  obtain es where es: "xl_get_entities_in_view a x y = Some (Inr es)" "distinct es"
    "set es = {e. \<exists>i. nodes a i = Some e \<and> \<bar>e_x e - x\<bar> \<le> xl_range a \<and> \<bar>e_y e - y\<bar> \<le> xl_range a}"
    using xl_view [OF assms, of x y] by blast
  have id: "nodes a i = Some e \<Longrightarrow> e_id e = i" for i e using assms by (auto simp: xl_inv_def)
  have "inj_on e_id (set es)"
  proof (rule inj_onI)
    fix e f assume ef: "e \<in> set es" "f \<in> set es" "e_id e = e_id f"
    then obtain i j where "nodes a i = Some e" "nodes a j = Some f" by (auto simp: es(3))
    then show "e = f" using id ef(3) by fastforce
  qed
  moreover have "e_id ` set es = box_visible (xl_range a) (nodes a) x y" unfolding es(3) box_visible_def image_def using id by blast
  ultimately show ?thesis using es(1,2) by (simp add: xl_view_ids_def distinct_map)
qed

interpretation cross: aoi_manager True "cross_init r" xl_call xl_view_ids nodes "box_visible r" "\<lambda>a. xl_inv a \<and> xl_range a = r" for r
proof (unfold_locales, goal_cases)
  case 1
  show ?case using xl_inv_init by (simp add: cross_init_def)
next
  case 2
  show ?case by (simp add: cross_init_def)
next
  case (3 a c)
  then show ?case using xl_call_ok [of a c] by auto
next
  case (4 a x y)
  then show ?case using xl_view_ids_exact [of a x y] by auto
qed

section \<open>Properties\<close>

text \<open>
  After any sequence of calls the view query of the cross list ends, follows no dangling
  pointer, and returns each entity at most \<^verbatim>\<open>view_range\<close> away in both coordinates exactly once, in
  the order of x.
\<close>

lemma cross_view_exact:
  assumes "run_calls xl_call (cross_init r) cs = Some a"
  shows "\<exists>es. xl_get_entities_in_view a x y = Some (Inr es) \<and> distinct es \<and> sorted (map e_x es) \<and>
    set es = {e. \<exists>i. nodes a i = Some e \<and> \<bar>e_x e - x\<bar> \<le> r \<and> \<bar>e_y e - y\<bar> \<le> r}"
  using cross.calls_initial [OF TrueI, of r cs] assms xl_view [of a x y] by auto

text \<open>
  C22. Both AOI managers implement the same table of entities: on the grid, with any sensible configuration and any
  order of its hash sets, and on the cross list, with any range, every sequence of calls returns; both then hold exactly
  the entities \<open>T\<close> that the calls, read as insertions, removals and moves in a map, leave; and at every position the
  view queries return, each id once, what is visible in \<open>T\<close>: for the grid the entities in the cells near
  the position, for the cross list those in the square around it. No call loops, follows a dangling pointer or
  leaves the cells.
\<close>

theorem aoi_managers_agree:
  assumes "wf_config c" and "enumerates order" and "T = foldl table_step Map.empty cs"
  shows "\<exists>g a. run_calls (grid_call order) (grid_aoi_init c) cs = Some g \<and> run_calls xl_call (cross_init r) cs = Some a \<and>
    entities g = T \<and> nodes a = T \<and>
    (\<forall>x y. \<exists>ids. get_entity_ids_in_view order g x y = Inr ids \<and> distinct ids \<and> set ids = grid_visible c T x y) \<and>
    (\<forall>x y. \<exists>es. xl_get_entities_in_view a x y = Some (Inr es) \<and> distinct (map e_id es) \<and> e_id ` set es = box_visible r T x y)"
proof -
  have s: "wf_config c \<and> enumerates order" using assms(1,2) by simp
  obtain g where g: "run_calls (grid_call order) (grid_aoi_init c) cs = Some g" "entities g = T"
    "\<forall>x y. \<exists>ids. grid_view order g x y = Some ids \<and> distinct ids \<and> set ids = grid_visible c T x y"
    using grid.calls_initial [OF s, of cs] assms(3) by auto
  obtain a where a: "run_calls xl_call (cross_init r) cs = Some a" "nodes a = T"
    "\<forall>x y. \<exists>ids. xl_view_ids a x y = Some ids \<and> distinct ids \<and> set ids = box_visible r T x y"
    using cross.calls_initial [OF TrueI, of r cs] assms(3) by auto
  have "\<exists>ids. get_entity_ids_in_view order g x y = Inr ids \<and> distinct ids \<and> set ids = grid_visible c T x y" for x y
    using g(3) [rule_format, of x y] by (auto simp: grid_view_def split: sum.splits)
  moreover have "\<exists>es. xl_get_entities_in_view a x y = Some (Inr es) \<and> distinct (map e_id es) \<and> e_id ` set es = box_visible r T x y" for x y
    using a(3) [rule_format, of x y] by (auto simp: xl_view_ids_def split: option.splits sum.splits)
  ultimately show ?thesis using g(1,2) a(1,2) by blast
qed

theorem aoi_managers_agree_witness:
  "\<exists>g a ids. run_calls (grid_call sorted_list_of_set) (grid_aoi_init demo_config)
      [AddEntity (demo_entity 1 10), AddEntity (demo_entity 2 250), UpdateEntity 2 20 10] = Some g \<and>
    run_calls xl_call (cross_init 5) [AddEntity (demo_entity 1 10), AddEntity (demo_entity 2 250), UpdateEntity 2 20 10] = Some a \<and>
    entities g = nodes a \<and> get_entity_ids_in_view sorted_list_of_set g 150 0 = Inr ids \<and> set ids = {1, 2}"
proof -
  let ?cs = "[AddEntity (demo_entity 1 10), AddEntity (demo_entity 2 250), UpdateEntity 2 20 10]"
  let ?T = "[1 \<mapsto> demo_entity 1 10, 2 \<mapsto> demo_entity 2 20]"
  have T: "foldl table_step Map.empty ?cs = ?T" by (auto simp: table_step_def demo_entity_def fun_eq_iff)
  have "grid_visible demo_config ?T 150 0 = {1, 2}"
    by (auto simp: grid_visible_def near_def demo_defs split: if_splits)
  then show ?thesis
    using aoi_managers_agree [OF demo_wf enumerates_sorted_list T [symmetric], of 5] by metis
qed

end
