(* ===== verification/Protocol.thy ===== *)
theory Protocol
  imports Framing
begin

text \<open>
  \<^verbatim>\<open>src/protocol/message.cpp\<close> and \<^verbatim>\<open>src/protocol/parser.cpp\<close>: the binary game protocol
  \<^verbatim>\<open>| cmd (2 bytes) | len (2 bytes) | body |\<close> and the stream parser that undoes TCP
  coalescing and splitting.
\<close>

section \<open>Messages\<close>

record message =
  cmd :: "16 word"
  body :: bytes

definition serialize :: "message \<Rightarrow> bytes" where
  "serialize msg =
     put_be16 (cmd msg) @ put_be16 (of_nat (length (body msg))) @ body msg"

text \<open>
  The out-parameter is written field by field: a header whose body is incomplete has
  already overwritten \<open>cmd\<close> when the function returns false.
\<close>

definition deserialize :: "bytes \<Rightarrow> message \<Rightarrow> bool \<times> message" where
  "deserialize data msg =
     (if length data < 4 then (False, msg)
      else let msg1 = msg\<lparr>cmd := get_be16 data 0\<rparr>;
               body_len = unat (get_be16 data 2)
           in if length data < 4 + body_len then (False, msg1)
              else (True, msg1\<lparr>body := take body_len (drop 4 data)\<rparr>))"

section \<open>The stream parser\<close>

record parser =
  p_buffer :: bytes
  p_head :: nat

definition parser_init :: parser where
  "parser_init = \<lparr>p_buffer = [], p_head = 0\<rparr>"

definition reset :: "parser \<Rightarrow> parser" where
  "reset p = p\<lparr>p_buffer := [], p_head := 0\<rparr>"

definition compact_prefix :: "parser \<Rightarrow> parser" where
  "compact_prefix p =
     (if p_head p = 0 then p
      else if 4096 \<le> p_head p \<and> length (p_buffer p) \<le> p_head p * 2
      then p\<lparr>p_buffer := drop (p_head p) (p_buffer p), p_head := 0\<rparr>
      else p)"

text \<open>The loop of \<^verbatim>\<open>Parser::feed\<close>, over the buffer, the read position and the messages so far.\<close>

function feed_loop :: "bytes \<Rightarrow> nat \<Rightarrow> message list \<Rightarrow> message list \<times> nat" where
  "feed_loop buf head msgs =
     (let avail = length buf - head
      in if avail < 4 then (msgs, head)
         else let body_len = unat (get_be16 buf (head + 2))
              in if avail < 4 + body_len then (msgs, head)
                 else feed_loop buf (head + (4 + body_len))
                        (msgs @ [\<lparr>cmd = get_be16 buf head,
                                  body = take body_len (drop (head + 4) buf)\<rparr>]))"
  by pat_completeness auto
termination
  by (relation "measure (\<lambda>(buf, head, msgs). length buf - head)") auto

declare feed_loop.simps [simp del]

definition feed :: "parser \<Rightarrow> bytes \<Rightarrow> message list \<times> parser" where
  "feed p data =
     (let buf = p_buffer p @ data;
          (msgs, head) = feed_loop buf (p_head p) []
      in (msgs, compact_prefix (p\<lparr>p_buffer := buf, p_head := head\<rparr>)))"

section \<open>Specification of the format\<close>

text \<open>The first frame of a byte string, and the bytes after it.\<close>

definition frame_step :: "bytes \<Rightarrow> (message \<times> bytes) option" where
  "frame_step bs =
     (if length bs < 4 then None
      else let n = unat (get_be16 bs 2)
           in if length bs < 4 + n then None
              else Some (\<lparr>cmd = get_be16 bs 0, body = take n (drop 4 bs)\<rparr>, drop (4 + n) bs))"

definition wire_valid :: "message \<Rightarrow> bool" where
  "wire_valid m \<longleftrightarrow> length (body m) < 65536"

definition parser_inv :: "parser \<Rightarrow> bool" where
  "parser_inv p \<longleftrightarrow> p_head p \<le> length (p_buffer p)"

definition parser_pending :: "parser \<Rightarrow> bytes" where
  "parser_pending p = drop (p_head p) (p_buffer p)"

lemma frame_step_SomeD:
  "frame_step bs = Some (m, r) \<Longrightarrow>
     4 + unat (get_be16 bs 2) \<le> length bs \<and> r = drop (4 + unat (get_be16 bs 2)) bs"
  by (auto simp: frame_step_def Let_def split: if_splits)

interpretation proto: frame_format frame_step "\<lambda>_. True"
proof unfold_locales
  fix bs m r
  assume a: "frame_step bs = Some (m, r)"
  then have "4 + unat (get_be16 bs 2) \<le> length bs" "r = drop (4 + unat (get_be16 bs 2)) bs"
    by (blast dest: frame_step_SomeD)+
  then show "length r < length bs" by simp
next
  fix bs m r ext
  assume a: "frame_step bs = Some (m, r)"
  then have "4 + unat (get_be16 bs 2) \<le> length bs" by (blast dest: frame_step_SomeD)
  with a show "frame_step (bs @ ext) = Some (m, r @ ext)"
    by (auto simp: frame_step_def Let_def get_be16_append split: if_splits)
qed simp

lemma frame_step_serialize:
  "wire_valid m \<Longrightarrow> frame_step (serialize m @ rest) = Some (m, rest)"
proof -
  assume v: "wire_valid m"
  let ?l = "put_be16 (of_nat (length (body m)))"
  have c: "get_be16 (put_be16 (cmd m) @ xs) 0 = cmd m" for xs
    using get_put_be16 [of "[]"] by simp
  have l: "get_be16 (put_be16 (cmd m) @ ?l @ xs) 2 = of_nat (length (body m))" for xs
    using get_put_be16 [of "put_be16 (cmd m)"] by simp
  show ?thesis
    using v by (simp add: frame_step_def serialize_def c l wire_valid_def unat_of_nat16)
qed

interpretation proto: frame_codec frame_step "\<lambda>_. True" serialize wire_valid
  by unfold_locales (auto simp: frame_step_serialize frame_step_def [of "[]"])

lemma feed_loop_stop:
  "length buf - head < 4 \<or> length buf - head < 4 + unat (get_be16 buf (head + 2)) \<Longrightarrow>
     feed_loop buf head msgs = (msgs, head)"
  by (subst feed_loop.simps) (auto simp: Let_def)

lemma feed_loop_go:
  "\<lbrakk>4 \<le> length buf - head; n = unat (get_be16 buf (head + 2)); 4 + n \<le> length buf - head\<rbrakk> \<Longrightarrow>
     feed_loop buf head msgs = feed_loop buf (head + (4 + n))
       (msgs @ [\<lparr>cmd = get_be16 buf head, body = take n (drop (head + 4) buf)\<rparr>])"
  by (subst feed_loop.simps) (auto simp: Let_def)

lemma feed_loop_drain:
  assumes "head \<le> length buf" and "feed_loop buf head msgs = (msgs', head')"
  shows "head' \<le> length buf \<and>
    (\<exists>ms. msgs' = msgs @ ms \<and> proto.drain (drop head buf) = (ms, drop head' buf))"
  using assms
proof (induction buf head msgs rule: feed_loop.induct)
  case (1 buf head msgs)
  let ?n = "unat (get_be16 buf (head + 2))"
  let ?m = "\<lparr>cmd = get_be16 buf head, body = take ?n (drop (head + 4) buf)\<rparr>"
  show ?case
  proof (cases "length buf - head < 4 \<or> length buf - head < 4 + ?n")
    case True
    then have "frame_step (drop head buf) = None"
      by (auto simp: frame_step_def Let_def get_be16_drop)
    with True "1.prems" show ?thesis
      by (simp add: feed_loop_stop proto.drain_None)
  next
    case False
    then have h: "head + (4 + ?n) \<le> length buf" by linarith
    have g: "get_be16 (drop head buf) 2 = get_be16 buf (head + 2)"
      "get_be16 (drop head buf) 0 = get_be16 buf head"
      using h by (simp_all add: get_be16_drop)
    have step: "frame_step (drop head buf) = Some (?m, drop (head + (4 + ?n)) buf)"
      using h by (simp add: frame_step_def Let_def g ac_simps)
    have "feed_loop buf (head + (4 + ?n)) (msgs @ [?m]) = (msgs', head')"
      using "1.prems"(2) False by (simp add: feed_loop_go [OF _ refl] not_less)
    with "1.IH" [OF refl _ refl] False h obtain ms
      where "head' \<le> length buf" "msgs' = (msgs @ [?m]) @ ms"
        "proto.drain (drop (head + (4 + ?n)) buf) = (ms, drop head' buf)"
      by (metis not_le_imp_less)
    then show ?thesis using proto.drain_Some [OF step] by auto
  qed
qed

lemma compact_prefix_keeps:
  "parser_inv p \<Longrightarrow> parser_inv (compact_prefix p) \<and>
     parser_pending (compact_prefix p) = parser_pending p"
  by (auto simp: compact_prefix_def parser_inv_def parser_pending_def)

lemma feed_drain:
  assumes "parser_inv p"
  shows "\<exists>ms p'. feed p data = (ms, p') \<and> parser_inv p' \<and>
    proto.drain (parser_pending p @ data) = (ms, parser_pending p')"
proof -
  let ?buf = "p_buffer p @ data"
  obtain ms head where fl: "feed_loop ?buf (p_head p) [] = (ms, head)" by fastforce
  have "p_head p \<le> length ?buf" using assms by (simp add: parser_inv_def)
  from feed_loop_drain [OF this fl] have h: "head \<le> length ?buf"
    "proto.drain (drop (p_head p) ?buf) = (ms, drop head ?buf)"
    by auto
  let ?p = "p\<lparr>p_buffer := ?buf, p_head := head\<rparr>"
  have "parser_inv ?p" using h(1) by (simp add: parser_inv_def)
  then have "parser_inv (compact_prefix ?p)"
    "parser_pending (compact_prefix ?p) = drop head ?buf"
    using compact_prefix_keeps [of ?p] by (auto simp: parser_pending_def)
  with h(2) fl assms show ?thesis
    by (simp add: feed_def parser_pending_def parser_inv_def)
qed

text \<open>The parser as a decoder object: it never fails, so its result is always \<open>Inr\<close>.\<close>

interpretation parser: buffered_decoder frame_step "\<lambda>_. True" serialize wire_valid
  "\<lambda>p data. Inr (feed p data)" parser_pending parser_inv
proof unfold_locales
  fix d data
  assume "parser_inv d"
  then show "\<exists>ms d'. Inr (feed d data) = Inr (ms, d') \<and> parser_inv d' \<and>
      proto.drain (parser_pending d @ data) = (ms, parser_pending d')"
    using feed_drain by simp
qed

text \<open>
  Successive reads of one connection, as \<^verbatim>\<open>ProtocolRouterComponent::on_message\<close> hands them
  to the connection's parser.
\<close>

fun feed_reads :: "parser \<Rightarrow> bytes list \<Rightarrow> message list \<times> parser" where
  "feed_reads p [] = ([], p)"
| "feed_reads p (c # cs) =
     (let (ms, p1) = feed p c; (ms', p2) = feed_reads p1 cs in (ms @ ms', p2))"

lemma feed_all_reads: "parser.feed_all p cs = Inr (feed_reads p cs)"
  by (induction cs arbitrary: p) (auto simp: Let_def split: prod.splits)

text \<open>A parser with nothing pending delivers a whole message at once and is empty again.\<close>

lemma feed_one:
  assumes "parser_inv p" "parser_pending p = []" "wire_valid m"
  obtains p' where "feed p (serialize m) = ([m], p')" "parser_inv p'" "parser_pending p' = []"
proof -
  have "proto.drain (serialize m) = ([m], [])"
    using proto.drain_encoded [of "[m]"] assms(3) by simp
  with feed_drain [OF assms(1), of "serialize m"] assms(2) show ?thesis using that by auto
qed

section \<open>Properties\<close>

text \<open>
  C1. Round trip of the game protocol over TCP: whatever way the bytes of a sequence of
  serialized messages (bodies shorter than 64 KiB) are cut into reads, the parser of a
  fresh connection delivers exactly those messages, in order, and keeps nothing back.
\<close>

theorem parser_roundtrip:
  assumes "list_all wire_valid ms" and "concat cs = concat (map serialize ms)"
  shows "fst (feed_reads parser_init cs) = ms \<and>
         parser_pending (snd (feed_reads parser_init cs)) = []"
proof -
  have "parser_inv parser_init" "parser_pending parser_init = []"
    by (simp_all add: parser_init_def parser_inv_def parser_pending_def)
  from parser.feed_all_roundtrip [OF this assms] show ?thesis
    by (auto simp: feed_all_reads)
qed

theorem parser_roundtrip_witness:
  "fst (feed_reads parser_init [[0, 7, 0], [2, 1], [2, 0, 8, 0, 0]]) =
     [\<lparr>cmd = 7, body = [1, 2]\<rparr>, \<lparr>cmd = 8, body = []\<rparr>]"
  using parser_roundtrip [of "[\<lparr>cmd = 7, body = [1, 2]\<rparr>, \<lparr>cmd = 8, body = []\<rparr>]"
      "[[0, 7, 0], [2, 1], [2, 0, 8, 0, 0]]"]
  by (simp add: wire_valid_def serialize_def put_be16_eq)

text \<open>
  C3. Cut independence for arbitrary (also malformed or incomplete) input: two ways of
  cutting the same byte stream into reads give the same messages and the same pending
  bytes, from any parser state the parser itself can leave.
\<close>

theorem parser_cut_independent:
  assumes "parser_inv p" and "frame_step (parser_pending p) = None"
    and "concat cs = concat cs'"
  shows "fst (feed_reads p cs) = fst (feed_reads p cs') \<and>
         parser_pending (snd (feed_reads p cs)) = parser_pending (snd (feed_reads p cs'))"
proof -
  have safe: "proto.safe bs" for bs
    by (induction bs rule: proto.frame_induct) (auto intro: proto.safe_None proto.safe_Some)
  from parser.feed_all_cut_independent [OF assms(1,2) safe assms(3)] show ?thesis
    by (auto simp: feed_all_reads split: prod.splits)
qed

theorem parser_cut_independent_witness:
  "fst (feed_reads parser_init [[0], [9, 0], [1, 5, 3]]) =
   fst (feed_reads parser_init [[0, 9, 0, 1], [5, 3]])"
  using parser_cut_independent [of parser_init "[[0], [9, 0], [1, 5, 3]]" "[[0, 9, 0, 1], [5, 3]]"]
  by (simp add: parser_init_def parser_inv_def parser_pending_def frame_step_def)

text \<open>
  What a receiver gets from one serialized message of any size: the length field holds
  the body size modulo 65536, so \<^verbatim>\<open>deserialize\<close> succeeds and returns the body cut to that
  length. For bodies below 64 KiB this is the identity; longer bodies lose their tail.
\<close>

lemma deserialize_serialize:
  "deserialize (serialize m) m0 =
     (True, m0\<lparr>cmd := cmd m, body := take (length (body m) mod 65536) (body m)\<rparr>)"
proof -
  let ?l = "put_be16 (of_nat (length (body m)))"
  have c: "get_be16 (serialize m) 0 = cmd m"
    using get_put_be16 [of "[]"] by (simp add: serialize_def)
  have l: "get_be16 (serialize m) 2 = of_nat (length (body m))"
    using get_put_be16 [of "put_be16 (cmd m)" _ "body m"] by (simp add: serialize_def)
  have n: "unat (of_nat (length (body m)) :: 16 word) = length (body m) mod 65536"
    by (simp add: unat_of_nat take_bit_eq_mod)
  have d: "drop 4 (serialize m) = body m" "length (serialize m) = 4 + length (body m)"
    by (simp_all add: serialize_def)
  have "length (body m) mod 65536 \<le> length (body m)" by (rule mod_less_eq_dividend)
  then show ?thesis
    by (simp add: deserialize_def Let_def c l n d not_less)
qed

end
