(* ===== verification/GameService.thy ===== *)
theory GameService
  imports Protocol
begin

text \<open>
  The game service: \<^verbatim>\<open>service/session_manager.h\<close>, \<^verbatim>\<open>service/protocol_router.cpp\<close>,
  \<^verbatim>\<open>service/service.h\<close> and \<^verbatim>\<open>game/game_components.cpp\<close>, composed as a running server: bytes of a
  connection go through its parser, each message to the handler of its command, and handlers
  change sessions and rooms and send replies.

  A connection is a number (the address of the \<^verbatim>\<open>TcpConnection\<close>); strings that travel on the
  wire are byte lists; \<open>now\<close> is the clock in seconds during one event. A service has at most
  one component of each class. What is sent is returned as a list of connection and bytes.
\<close>

section \<open>Wire helpers\<close>

definition encode_string :: "bytes \<Rightarrow> bytes" where
  "encode_string str = put_be16 (of_nat (length str)) @ str"

text \<open>A failed decode returns \<open>None\<close>; every caller gives up on the message then.\<close>

definition decode_string :: "bytes \<Rightarrow> nat \<Rightarrow> (bytes \<times> nat) option" where
  "decode_string data offset =
     (if length data < offset + 2 then None
      else let len = unat (get_be16 data offset); offset' = offset + 2
           in if length data < offset' + len then None
              else Some (take len (drop offset' data), offset' + len))"

definition encode_int64 :: "64 word \<Rightarrow> bytes" where
  "encode_int64 v = map (\<lambda>i. ucast (drop_bit (i * 8) v AND 0xFF)) [0..<8]"

definition decode_int64 :: "bytes \<Rightarrow> nat \<Rightarrow> (64 word \<times> nat) option" where
  "decode_int64 data offset =
     (if length data < offset + 8 then None
      else Some (foldl (\<lambda>v i. v OR push_bit (i * 8) (ucast (data ! (offset + i)))) 0 [0..<8],
                 offset + 8))"

definition encode_bool :: "bool \<Rightarrow> bytes" where
  "encode_bool b = [if b then 1 else 0]"

definition decode_bool :: "bytes \<Rightarrow> nat \<Rightarrow> (bool \<times> nat) option" where
  "decode_bool data offset =
     (if length data < offset + 1 then None else Some (data ! offset \<noteq> 0, offset + 1))"

definition C2S_LOGIN :: "16 word" where "C2S_LOGIN = 0x0001"
definition S2C_LOGIN :: "16 word" where "S2C_LOGIN = 0x0002"
definition C2S_CHAT :: "16 word" where "C2S_CHAT = 0x0003"
definition S2C_CHAT :: "16 word" where "S2C_CHAT = 0x0004"
definition C2S_HEARTBEAT :: "16 word" where "C2S_HEARTBEAT = 0x0005"
definition S2C_HEARTBEAT :: "16 word" where "S2C_HEARTBEAT = 0x0006"
definition C2S_JOIN_ROOM :: "16 word" where "C2S_JOIN_ROOM = 0x0007"
definition S2C_JOIN_ROOM :: "16 word" where "S2C_JOIN_ROOM = 0x0008"
definition S2C_ERROR :: "16 word" where "S2C_ERROR = 0x00FF"

lemmas cmd_defs = C2S_LOGIN_def S2C_LOGIN_def C2S_CHAT_def S2C_CHAT_def C2S_HEARTBEAT_def
  S2C_HEARTBEAT_def C2S_JOIN_ROOM_def S2C_JOIN_ROOM_def S2C_ERROR_def

definition INVALID_REQUEST :: "16 word" where "INVALID_REQUEST = 1"
definition INVALID_PLAYER_ID :: "16 word" where "INVALID_PLAYER_ID = 2"
definition INVALID_TOKEN :: "16 word" where "INVALID_TOKEN = 3"
definition NOT_LOGGED_IN :: "16 word" where "NOT_LOGGED_IN = 4"

definition ascii :: "string \<Rightarrow> bytes" where
  "ascii s = map of_char s"

section \<open>State\<close>

record session_info =
  player_id :: bytes
  room_id :: bytes
  gateway_id :: bytes
  authed :: bool
  last_active_time :: int

datatype component = Router | SessionMgr | Login | Chat | Room | Heartbeat

record game =
  components :: "component list"
  handlers :: "16 word \<rightharpoonup> component"
  parsers :: "nat \<rightharpoonup> parser"
  sessions :: "nat \<rightharpoonup> session_info"
  rooms :: "bytes \<rightharpoonup> nat set"
  connections_map :: "nat set"

type_synonym sends = "(nat \<times> bytes) list"

definition game_init :: game where
  "game_init = \<lparr>components = [], handlers = Map.empty, parsers = Map.empty,
     sessions = Map.empty, rooms = Map.empty, connections_map = {}\<rparr>"

section \<open>Service and router\<close>

definition get_component :: "game \<Rightarrow> component \<Rightarrow> bool" where
  "get_component g c \<longleftrightarrow> c \<in> set (components g)"

definition register_handler :: "game \<Rightarrow> 16 word \<Rightarrow> component \<Rightarrow> game" where
  "register_handler g c h = g\<lparr>handlers := (handlers g)(c \<mapsto> h)\<rparr>"

text \<open>\<^verbatim>\<open>on_register\<close>: a component hooks its command into the router, if there is one already.\<close>

definition on_register :: "game \<Rightarrow> component \<Rightarrow> game" where
  "on_register g c =
     (if \<not> get_component g Router then g
      else (case c of
          Login \<Rightarrow> register_handler g C2S_LOGIN Login
        | Chat \<Rightarrow> register_handler g C2S_CHAT Chat
        | Room \<Rightarrow> register_handler g C2S_JOIN_ROOM Room
        | Heartbeat \<Rightarrow> register_handler g C2S_HEARTBEAT Heartbeat
        | _ \<Rightarrow> g))"

definition add_component :: "game \<Rightarrow> component \<Rightarrow> game" where
  "add_component g c = on_register (g\<lparr>components := components g @ [c]\<rparr>) c"

definition send_message :: "nat \<Rightarrow> message \<Rightarrow> sends" where
  "send_message conn msg = [(conn, serialize msg)]"

definition send_error_response :: "nat \<Rightarrow> 16 word \<Rightarrow> string \<Rightarrow> sends" where
  "send_error_response conn code text_msg =
     send_message conn \<lparr>cmd = S2C_ERROR, body = put_be16 code @ encode_string (ascii text_msg)\<rparr>"

section \<open>SessionManager\<close>

definition default_session :: session_info where
  "default_session = \<lparr>player_id = [], room_id = [], gateway_id = [], authed = False, last_active_time = 0\<rparr>"

definition session_login :: "game \<Rightarrow> int \<Rightarrow> nat \<Rightarrow> bytes \<Rightarrow> game" where
  "session_login g now conn pid =
     (let s = (case sessions g conn of None \<Rightarrow> default_session | Some s \<Rightarrow> s)
      in g\<lparr>sessions := (sessions g)
           (conn \<mapsto> s\<lparr>player_id := pid, authed := True, last_active_time := now\<rparr>)\<rparr>)"

definition session_logout :: "game \<Rightarrow> nat \<Rightarrow> game" where
  "session_logout g conn = g\<lparr>sessions := (sessions g)(conn := None)\<rparr>"

definition session_join_room :: "game \<Rightarrow> int \<Rightarrow> nat \<Rightarrow> bytes \<Rightarrow> game" where
  "session_join_room g now conn rid =
     (case sessions g conn of
        None \<Rightarrow> g
      | Some s \<Rightarrow> g\<lparr>sessions := (sessions g)(conn \<mapsto> s\<lparr>room_id := rid, last_active_time := now\<rparr>)\<rparr>)"

definition session_leave_room :: "game \<Rightarrow> int \<Rightarrow> nat \<Rightarrow> game" where
  "session_leave_room g now conn =
     (case sessions g conn of
        None \<Rightarrow> g
      | Some s \<Rightarrow> g\<lparr>sessions := (sessions g)(conn \<mapsto> s\<lparr>room_id := [], last_active_time := now\<rparr>)\<rparr>)"

definition set_gateway :: "game \<Rightarrow> int \<Rightarrow> nat \<Rightarrow> bytes \<Rightarrow> game" where
  "set_gateway g now conn gid =
     (case sessions g conn of
        None \<Rightarrow> g
      | Some s \<Rightarrow> g\<lparr>sessions := (sessions g)(conn \<mapsto> s\<lparr>gateway_id := gid, last_active_time := now\<rparr>)\<rparr>)"

definition is_logged_in :: "game \<Rightarrow> nat \<Rightarrow> bool" where
  "is_logged_in g conn = (case sessions g conn of None \<Rightarrow> False | Some s \<Rightarrow> authed s)"

definition get_player_id :: "game \<Rightarrow> nat \<Rightarrow> bytes" where
  "get_player_id g conn =
     (case sessions g conn of None \<Rightarrow> [] | Some s \<Rightarrow> if authed s then player_id s else [])"

definition get_room_id :: "game \<Rightarrow> nat \<Rightarrow> bytes" where
  "get_room_id g conn = (case sessions g conn of None \<Rightarrow> [] | Some s \<Rightarrow> room_id s)"

definition get_players_in_room :: "(nat set \<Rightarrow> nat list) \<Rightarrow> game \<Rightarrow> bytes \<Rightarrow> bytes list" where
  "get_players_in_room order g rid =
     concat (map (\<lambda>c. case sessions g c of None \<Rightarrow> []
                     | Some s \<Rightarrow> if room_id s = rid \<and> authed s then [player_id s] else [])
       (order (dom (sessions g))))"

section \<open>LoginComponent\<close>

definition send_login_response :: "nat \<Rightarrow> bool \<Rightarrow> string \<Rightarrow> sends" where
  "send_login_response conn ok text_msg =
     send_message conn \<lparr>cmd = S2C_LOGIN, body = encode_bool ok @ encode_string (ascii text_msg)\<rparr>"

definition handle_login :: "game \<Rightarrow> int \<Rightarrow> nat \<Rightarrow> bytes \<Rightarrow> sends \<times> game" where
  "handle_login g now conn data =
     (case decode_string data 0 of
        None \<Rightarrow> (send_error_response conn INVALID_REQUEST ''Failed to decode player_id'', g)
      | Some (pid, offset) \<Rightarrow>
          (case decode_string data offset of
             None \<Rightarrow> (send_error_response conn INVALID_REQUEST ''Failed to decode token'', g)
           | Some (token, _) \<Rightarrow>
               if pid = [] then (send_error_response conn INVALID_PLAYER_ID ''Player ID cannot be empty'', g)
               else if token = [] then (send_error_response conn INVALID_TOKEN ''Token cannot be empty'', g)
               else let g1 = (if get_component g SessionMgr then session_login g now conn pid else g)
                    in (send_login_response conn True ''Login success'', g1)))"

section \<open>RoomComponent\<close>

definition join_room :: "game \<Rightarrow> nat \<Rightarrow> bytes \<Rightarrow> game" where
  "join_room g conn rid =
     (let members = (case rooms g rid of None \<Rightarrow> {} | Some cs \<Rightarrow> cs)
      in g\<lparr>rooms := (rooms g)(rid \<mapsto> insert conn members),
           connections_map := insert conn (connections_map g)\<rparr>)"

definition leave_room :: "game \<Rightarrow> int \<Rightarrow> nat \<Rightarrow> game" where
  "leave_room g now conn =
     (let g1 = (if get_component g SessionMgr then session_leave_room g now conn else g);
          left = (\<lambda>rid. map_option (\<lambda>cs. cs - {conn}) (rooms g1 rid))
      in g1\<lparr>rooms := (\<lambda>rid. if left rid = Some {} then None else left rid),
            connections_map := connections_map g1 - {conn}\<rparr>)"

definition get_connections_in_room :: "(nat set \<Rightarrow> nat list) \<Rightarrow> game \<Rightarrow> bytes \<Rightarrow> nat list" where
  "get_connections_in_room order g rid =
     (case rooms g rid of
        None \<Rightarrow> []
      | Some cs \<Rightarrow> filter (\<lambda>c. c \<in> connections_map g) (order cs))"

definition send_join_room_response :: "nat \<Rightarrow> bool \<Rightarrow> string \<Rightarrow> bytes \<Rightarrow> sends" where
  "send_join_room_response conn ok text_msg rid =
     send_message conn \<lparr>cmd = S2C_JOIN_ROOM,
       body = encode_bool ok @ encode_string (ascii text_msg) @ encode_string rid\<rparr>"

definition handle_join_room :: "game \<Rightarrow> int \<Rightarrow> nat \<Rightarrow> bytes \<Rightarrow> sends \<times> game" where
  "handle_join_room g now conn data =
     (case decode_string data 0 of
        None \<Rightarrow> (send_error_response conn INVALID_REQUEST ''Failed to decode room_id'', g)
      | Some (rid, _) \<Rightarrow>
          if rid = [] then (send_error_response conn INVALID_REQUEST ''Room ID cannot be empty'', g)
          else if get_component g SessionMgr \<and> \<not> is_logged_in g conn
          then (send_error_response conn NOT_LOGGED_IN ''Please login first'', g)
          else let g1 = join_room g conn rid;
                   g2 = (if get_component g1 SessionMgr then session_join_room g1 now conn rid else g1)
               in (send_join_room_response conn True ''Join room success'' rid, g2))"

section \<open>ChatComponent\<close>

definition send_chat_message :: "nat \<Rightarrow> bytes \<Rightarrow> bytes \<Rightarrow> sends" where
  "send_chat_message conn from_player content =
     send_message conn \<lparr>cmd = S2C_CHAT, body = encode_string from_player @ encode_string content\<rparr>"

definition broadcast_chat :: "(nat set \<Rightarrow> nat list) \<Rightarrow> game \<Rightarrow> bytes \<Rightarrow> bytes \<Rightarrow> bytes \<Rightarrow> sends" where
  "broadcast_chat order g rid from_player content =
     (if get_component g Room
      then concat (map (\<lambda>c. send_chat_message c from_player content) (get_connections_in_room order g rid))
      else [])"

definition handle_chat :: "(nat set \<Rightarrow> nat list) \<Rightarrow> game \<Rightarrow> nat \<Rightarrow> bytes \<Rightarrow> sends \<times> game" where
  "handle_chat order g conn data =
     (case decode_string data 0 of
        None \<Rightarrow> (send_error_response conn INVALID_REQUEST ''Failed to decode room_id'', g)
      | Some (rid, offset) \<Rightarrow>
          (case decode_string data offset of
             None \<Rightarrow> (send_error_response conn INVALID_REQUEST ''Failed to decode content'', g)
           | Some (content, _) \<Rightarrow>
               if get_component g SessionMgr
               then (let pid = get_player_id g conn
                     in if pid = [] then (send_error_response conn NOT_LOGGED_IN ''Please login first'', g)
                        else (broadcast_chat order g rid pid content, g))
               else (broadcast_chat order g rid (ascii ''unknown'') content, g)))"

section \<open>HeartbeatComponent\<close>

definition handle_heartbeat :: "game \<Rightarrow> nat \<Rightarrow> bytes \<Rightarrow> sends \<times> game" where
  "handle_heartbeat g conn data =
     (case decode_int64 data 0 of
        None \<Rightarrow> ([], g)
      | Some (timestamp_ms, _) \<Rightarrow>
          (send_message conn \<lparr>cmd = S2C_HEARTBEAT, body = encode_int64 timestamp_ms\<rparr>, g))"

section \<open>Dispatch\<close>

definition route :: "(nat set \<Rightarrow> nat list) \<Rightarrow> int \<Rightarrow> nat \<Rightarrow> game \<Rightarrow> message \<Rightarrow> sends \<times> game" where
  "route order now conn g msg =
     (case handlers g (cmd msg) of
        Some Login \<Rightarrow> handle_login g now conn (body msg)
      | Some Chat \<Rightarrow> handle_chat order g conn (body msg)
      | Some Room \<Rightarrow> handle_join_room g now conn (body msg)
      | Some Heartbeat \<Rightarrow> handle_heartbeat g conn (body msg)
      | _ \<Rightarrow> ([], g))"

text \<open>The handlers read the clock themselves: \<open>clk i\<close> is the reading for message \<open>i\<close> of the read.\<close>

fun route_all :: "(nat set \<Rightarrow> nat list) \<Rightarrow> (nat \<Rightarrow> int) \<Rightarrow> nat \<Rightarrow> game \<Rightarrow> message list \<Rightarrow> sends \<times> game" where
  "route_all order clk conn g [] = ([], g)"
| "route_all order clk conn g (m # ms) =
     (let (out, g1) = route order (clk 0) conn g m; (out', g2) = route_all order (\<lambda>i. clk (Suc i)) conn g1 ms
      in (out @ out', g2))"

definition on_message :: "(nat set \<Rightarrow> nat list) \<Rightarrow> (nat \<Rightarrow> int) \<Rightarrow> nat \<Rightarrow> game \<Rightarrow> bytes \<Rightarrow> sends \<times> game" where
  "on_message order clk conn g data =
     (let p = (case parsers g conn of None \<Rightarrow> parser_init | Some p \<Rightarrow> p);
          (msgs, p') = feed p data
      in route_all order clk conn (g\<lparr>parsers := (parsers g)(conn \<mapsto> p')\<rparr>) msgs)"

text \<open>Only the router handles raw messages; the other components inherit the empty default.\<close>

definition dispatch_message :: "(nat set \<Rightarrow> nat list) \<Rightarrow> (nat \<Rightarrow> int) \<Rightarrow> nat \<Rightarrow> game \<Rightarrow> bytes \<Rightarrow> sends \<times> game" where
  "dispatch_message order clk conn g data =
     (if get_component g Router then on_message order clk conn g data else ([], g))"

definition on_disconnect :: "int \<Rightarrow> nat \<Rightarrow> game \<Rightarrow> component \<Rightarrow> game" where
  "on_disconnect now conn g c =
     (case c of
        Router \<Rightarrow> g\<lparr>parsers := (parsers g)(conn := None)\<rparr>
      | SessionMgr \<Rightarrow> g\<lparr>sessions := (sessions g)(conn := None)\<rparr>
      | Room \<Rightarrow> leave_room g now conn
      | _ \<Rightarrow> g)"

definition dispatch_disconnect :: "int \<Rightarrow> nat \<Rightarrow> game \<Rightarrow> game" where
  "dispatch_disconnect now conn g = foldl (on_disconnect now conn) g (components g)"

section \<open>Frame facts\<close>

lemmas session_defs = session_login_def session_logout_def session_join_room_def
  session_leave_room_def set_gateway_def

text \<open>Handlers neither read nor write the parsers, the component list or the routing table.\<close>

definition inert :: "(game \<Rightarrow> sends \<times> game) \<Rightarrow> bool" where
  "inert f \<longleftrightarrow> (\<forall>g ps. f (g\<lparr>parsers := ps\<rparr>) = map_prod id (\<lambda>g'. g'\<lparr>parsers := ps\<rparr>) (f g)) \<and>
     (\<forall>g. components (snd (f g)) = components g \<and> handlers (snd (f g)) = handlers g \<and>
          parsers (snd (f g)) = parsers g)"

lemma session_updates_inert:
  "session_login (g\<lparr>parsers := ps\<rparr>) now conn pid = (session_login g now conn pid)\<lparr>parsers := ps\<rparr>"
  "session_join_room (g\<lparr>parsers := ps\<rparr>) now conn rid = (session_join_room g now conn rid)\<lparr>parsers := ps\<rparr>"
  "join_room (g\<lparr>parsers := ps\<rparr>) conn rid = (join_room g conn rid)\<lparr>parsers := ps\<rparr>"
  by (simp_all add: session_login_def session_join_room_def join_room_def Let_def split: option.split)

lemma session_updates_frame:
  "components (session_login g now conn pid) = components g"
  "handlers (session_login g now conn pid) = handlers g"
  "parsers (session_login g now conn pid) = parsers g"
  "components (session_join_room g now conn rid) = components g"
  "handlers (session_join_room g now conn rid) = handlers g"
  "parsers (session_join_room g now conn rid) = parsers g"
  "components (join_room g conn rid) = components g"
  "handlers (join_room g conn rid) = handlers g"
  "parsers (join_room g conn rid) = parsers g"
  by (simp_all add: session_login_def session_join_room_def join_room_def Let_def split: option.split)

lemmas inert_simps = session_updates_inert session_updates_frame get_component_def Let_def

lemma handle_login_inert: "inert (\<lambda>g. handle_login g now conn data)"
proof (cases "decode_string data 0")
  case (Some x)
  then show ?thesis
    by (cases x, cases "decode_string data (snd x)") (auto simp: inert_def handle_login_def inert_simps)
qed (simp add: inert_def handle_login_def)

lemma handle_join_room_inert: "inert (\<lambda>g. handle_join_room g now conn data)"
proof (cases "decode_string data 0")
  case (Some x)
  then show ?thesis
    by (cases x) (auto simp: inert_def handle_join_room_def inert_simps is_logged_in_def)
qed (simp add: inert_def handle_join_room_def)

lemma handle_chat_inert: "inert (\<lambda>g. handle_chat order g conn data)"
proof (cases "decode_string data 0")
  case (Some x)
  have b: "broadcast_chat order (g\<lparr>parsers := ps\<rparr>) rid p c = broadcast_chat order g rid p c" for g ps rid p c
    by (simp add: broadcast_chat_def get_connections_in_room_def get_component_def split: option.split)
  from Some show ?thesis
    by (cases x, cases "decode_string data (snd x)")
      (auto simp: inert_def handle_chat_def inert_simps get_player_id_def b)
qed (simp add: inert_def handle_chat_def)

lemma handle_heartbeat_inert: "inert (\<lambda>g. handle_heartbeat g conn data)"
  by (cases "decode_int64 data 0") (auto simp: inert_def handle_heartbeat_def)

lemmas handlers_inert = handle_login_inert handle_join_room_inert handle_chat_inert handle_heartbeat_inert

lemma route_parsers:
  "route order now conn (g\<lparr>parsers := ps\<rparr>) msg =
     map_prod id (\<lambda>g'. g'\<lparr>parsers := ps\<rparr>) (route order now conn g msg)"
  using handlers_inert unfolding route_def inert_def
  by (simp split: option.split component.split)

lemma route_frame:
  "components (snd (route order now conn g msg)) = components g"
  "handlers (snd (route order now conn g msg)) = handlers g"
  "parsers (snd (route order now conn g msg)) = parsers g"
  using handlers_inert unfolding route_def inert_def
  by (simp_all split: option.split component.split)

lemma route_all_parsers:
  "route_all order clk conn (g\<lparr>parsers := ps\<rparr>) msgs =
     map_prod id (\<lambda>g'. g'\<lparr>parsers := ps\<rparr>) (route_all order clk conn g msgs)"
  by (induction msgs arbitrary: g clk) (simp_all add: route_parsers Let_def case_prod_beta)

lemma route_all_frame:
  "components (snd (route_all order clk conn g msgs)) = components g"
  "parsers (snd (route_all order clk conn g msgs)) = parsers g"
  by (induction msgs arbitrary: g clk) (simp_all add: route_frame Let_def case_prod_beta)

lemma on_disconnect_components [simp]: "components (on_disconnect now conn g c) = components g"
  by (simp add: on_disconnect_def leave_room_def session_leave_room_def Let_def
      split: component.split option.split)

section \<open>The server as a message processor\<close>

text \<open>
  A run of the server: reads and disconnects of any connections in any order. The callbacks of
  \<^verbatim>\<open>Service\<close> run one after the other (the maps of the router have no lock); every handled
  message and every disconnect reads the clock on its own.
\<close>

datatype net_event = Arrives nat "nat \<Rightarrow> int" bytes | Leaves nat int

fun service_event :: "(nat set \<Rightarrow> nat list) \<Rightarrow> game \<Rightarrow> net_event \<Rightarrow> sends \<times> game" where
  "service_event order g (Arrives conn clk data) = dispatch_message order clk conn g data"
| "service_event order g (Leaves conn now) = ([], dispatch_disconnect now conn g)"

fun service_run :: "(nat set \<Rightarrow> nat list) \<Rightarrow> game \<Rightarrow> net_event list \<Rightarrow> sends \<times> game" where
  "service_run order g [] = ([], g)"
| "service_run order g (e # es) =
     (let (out, g1) = service_event order g e; (out', g2) = service_run order g1 es in (out @ out', g2))"

text \<open>The specification knows whole messages and no parsers.\<close>

datatype client_event = Says nat int message | Gone nat int

fun message_run :: "(nat set \<Rightarrow> nat list) \<Rightarrow> game \<Rightarrow> client_event list \<Rightarrow> sends \<times> game" where
  "message_run order g [] = ([], g)"
| "message_run order g (Says conn now m # es) =
     (let (out, g1) = route order now conn g m; (out', g2) = message_run order g1 es in (out @ out', g2))"
| "message_run order g (Gone conn now # es) = message_run order (dispatch_disconnect now conn g) es"

text \<open>
  The messages of a run of the network: \<open>sofar\<close> holds all bytes of each connection since its
  last disconnect, and a read brings the messages that the whole stream has with it and had not without it.
\<close>

definition completed :: "bytes \<Rightarrow> bytes \<Rightarrow> message list" where
  "completed old data = drop (length (fst (proto.drain old))) (fst (proto.drain (old @ data)))"

fun say_all :: "nat \<Rightarrow> (nat \<Rightarrow> int) \<Rightarrow> message list \<Rightarrow> client_event list" where
  "say_all conn clk [] = []"
| "say_all conn clk (m # ms) = Says conn (clk 0) m # say_all conn (\<lambda>i. clk (Suc i)) ms"

fun client_events :: "(nat \<Rightarrow> bytes) \<Rightarrow> net_event list \<Rightarrow> client_event list" where
  "client_events sofar [] = []"
| "client_events sofar (Arrives conn clk data # es) =
     say_all conn clk (completed (sofar conn) data) @ client_events (sofar(conn := sofar conn @ data)) es"
| "client_events sofar (Leaves conn now # es) = Gone conn now # client_events (sofar(conn := [])) es"

definition conn_parser :: "game \<Rightarrow> nat \<Rightarrow> parser" where
  "conn_parser g conn = (case parsers g conn of None \<Rightarrow> parser_init | Some p \<Rightarrow> p)"

definition forget_parsers :: "game \<Rightarrow> game" where
  "forget_parsers g = g\<lparr>parsers := Map.empty\<rparr>"

text \<open>The parsers hold what the format leaves over of each stream.\<close>

definition parsers_match :: "game \<Rightarrow> (nat \<Rightarrow> bytes) \<Rightarrow> bool" where
  "parsers_match g sofar \<longleftrightarrow>
     (\<forall>c. parser_inv (conn_parser g c) \<and> parser_pending (conn_parser g c) = snd (proto.drain (sofar c)))"

lemma dispatch_message_eq:
  "get_component g Router \<Longrightarrow> dispatch_message order clk conn g data =
     (let (ms, p) = feed (conn_parser g conn) data
      in map_prod id (\<lambda>g'. g'\<lparr>parsers := (parsers g)(conn \<mapsto> p)\<rparr>) (route_all order clk conn g ms))"
  by (simp add: dispatch_message_def on_message_def conn_parser_def route_all_parsers
      case_prod_beta Let_def)

lemma message_run_say_all:
  "message_run order g (say_all conn clk ms @ es) =
     (let (out, g1) = route_all order clk conn g ms; (out', g2) = message_run order g1 es in (out @ out', g2))"
  by (induction ms arbitrary: g clk) (simp_all add: Let_def case_prod_beta)

lemma forget_route_all:
  assumes "forget_parsers g = forget_parsers h"
  shows "fst (route_all order clk conn g ms) = fst (route_all order clk conn h ms) \<and>
    forget_parsers (snd (route_all order clk conn g ms)) = forget_parsers (snd (route_all order clk conn h ms))"
  using route_all_parsers [of order clk conn Map.empty g ms] route_all_parsers [of order clk conn Map.empty h ms] assms
  unfolding forget_parsers_def by (metis fst_map_prod snd_map_prod id_apply)

lemma leave_room_parsers: "leave_room (g\<lparr>parsers := ps\<rparr>) now conn = (leave_room g now conn)\<lparr>parsers := ps\<rparr>"
proof -
  have "session_leave_room (g\<lparr>parsers := ps\<rparr>) now conn = (session_leave_room g now conn)\<lparr>parsers := ps\<rparr>"
    by (simp add: session_leave_room_def split: option.split)
  then show ?thesis by (cases "get_component g SessionMgr") (simp_all add: leave_room_def get_component_def Let_def cong: if_cong)
qed

lemma forget_on_disconnect:
  "forget_parsers (on_disconnect now conn g c) = forget_parsers (on_disconnect now conn (forget_parsers g) c)"
  by (cases c) (simp_all add: forget_parsers_def on_disconnect_def leave_room_parsers)

lemma forget_disconnect:
  assumes "forget_parsers g = forget_parsers h"
  shows "forget_parsers (dispatch_disconnect now conn g) = forget_parsers (dispatch_disconnect now conn h)"
proof -
  have "forget_parsers (foldl (on_disconnect now conn) g cs) = forget_parsers (foldl (on_disconnect now conn) h cs)" for cs
    using assms by (induction cs arbitrary: g h) (simp, metis foldl_Cons forget_on_disconnect)
  moreover have "components g = components h" using arg_cong [OF assms, of components] by (simp add: forget_parsers_def)
  ultimately show ?thesis by (simp add: dispatch_disconnect_def)
qed

lemma parsers_on_disconnect: "c \<noteq> Router \<Longrightarrow> parsers (on_disconnect now conn g c) = parsers g"
  by (auto simp: on_disconnect_def leave_room_def session_leave_room_def Let_def split: component.split option.split)

lemma disconnect_parsers:
  assumes "get_component g Router"
  shows "parsers (dispatch_disconnect now conn g) = (parsers g)(conn := None)"
proof -
  have "parsers (foldl (on_disconnect now conn) g cs) = (if Router \<in> set cs then (parsers g)(conn := None) else parsers g)" for cs
  proof (induction cs arbitrary: g)
    case (Cons c cs)
    have "parsers (on_disconnect now conn g Router) = (parsers g)(conn := None)" by (simp add: on_disconnect_def)
    with Cons show ?case by (cases "c = Router") (simp_all add: parsers_on_disconnect fun_upd_def cong: if_cong)
  qed simp
  with assms show ?thesis by (simp add: dispatch_disconnect_def get_component_def)
qed

lemma disconnect_components: "components (dispatch_disconnect now conn g) = components g"
  unfolding dispatch_disconnect_def by (rule foldl_keeps [where Q = "\<lambda>h. components h = components g"]) simp_all

lemma drain_empty: "proto.drain [] = ([], [])"
  using proto.drain_encoded [of "[]"] by simp

text \<open>One read: the parser delivers what the format completes, and keeps what it leaves over.\<close>

lemma read_completes:
  assumes "parsers_match g sofar" and "feed (conn_parser g conn) data = (ms, p)"
  shows "ms = completed (sofar conn) data \<and> parser_inv p \<and> parser_pending p = snd (proto.drain (sofar conn @ data))"
proof -
  obtain ms0 r where d: "proto.drain (sofar conn) = (ms0, r)" by fastforce
  obtain p' ms' where "feed (conn_parser g conn) data = (ms', p')" "parser_inv p'"
      "proto.drain (parser_pending (conn_parser g conn) @ data) = (ms', parser_pending p')"
    using feed_drain [of "conn_parser g conn" data] assms(1) unfolding parsers_match_def by blast
  then have p: "parser_inv p" "proto.drain (r @ data) = (ms, parser_pending p)"
    using assms d by (simp_all add: parsers_match_def)
  from proto.drain_append [OF d p(2)] p(1) show ?thesis by (simp add: completed_def d)
qed

lemma service_run_messages:
  assumes "get_component g Router" and "parsers_match g sofar" and "forget_parsers g = forget_parsers h"
  shows "fst (service_run order g es) = fst (message_run order h (client_events sofar es)) \<and>
    forget_parsers (snd (service_run order g es)) = forget_parsers (snd (message_run order h (client_events sofar es)))"
  using assms
proof (induction es arbitrary: g h sofar)
  case (Cons e es)
  show ?case
  proof (cases e)
    case (Arrives conn clk data)
    obtain ms p where f: "feed (conn_parser g conn) data = (ms, p)" by fastforce
    note r = read_completes [OF Cons.prems(2) f]
    let ?g1 = "(snd (route_all order clk conn g ms))\<lparr>parsers := (parsers g)(conn \<mapsto> p)\<rparr>"
    let ?h1 = "snd (route_all order clk conn h ms)"
    have "dispatch_message order clk conn g data = (fst (route_all order clk conn g ms), ?g1)"
      using Cons.prems(1) f by (simp add: dispatch_message_eq map_prod_def split: prod.split)
    moreover have "get_component ?g1 Router" using Cons.prems(1) by (simp add: get_component_def route_all_frame)
    moreover have "parsers_match ?g1 (sofar(conn := sofar conn @ data))"
      using Cons.prems(2) r by (simp add: parsers_match_def conn_parser_def)
    moreover have "forget_parsers ?g1 = forget_parsers ?h1" and "fst (route_all order clk conn g ms) = fst (route_all order clk conn h ms)"
      using forget_route_all [OF Cons.prems(3), of order clk conn ms] by (simp_all add: forget_parsers_def)
    ultimately show ?thesis using Cons.IH [of ?g1] Arrives r
      by (simp del: fun_upd_apply add: message_run_say_all Let_def case_prod_beta)
  next
    case (Leaves conn now)
    let ?g1 = "dispatch_disconnect now conn g"
    have "get_component ?g1 Router" using Cons.prems(1) by (simp add: get_component_def disconnect_components)
    moreover have "parsers_match ?g1 (sofar(conn := []))"
      using Cons.prems(1,2) by (simp add: parsers_match_def conn_parser_def disconnect_parsers drain_empty parser_inv_def parser_init_def parser_pending_def)
    ultimately show ?thesis
      using Cons.IH [OF _ _ forget_disconnect [OF Cons.prems(3), of now conn], of "sofar(conn := [])"] Leaves
      by (simp add: fun_upd_def)
  qed
qed simp

text \<open>What one connection says.\<close>

fun said_by :: "nat \<Rightarrow> client_event list \<Rightarrow> message list" where
  "said_by c [] = []"
| "said_by c (Says conn now m # es) = (if conn = c then m # said_by c es else said_by c es)"
| "said_by c (Gone conn now # es) = said_by c es"

fun bytes_of :: "nat \<Rightarrow> net_event list \<Rightarrow> bytes" where
  "bytes_of c [] = []"
| "bytes_of c (Arrives conn clk data # es) = (if conn = c then data @ bytes_of c es else bytes_of c es)"
| "bytes_of c (Leaves conn now # es) = bytes_of c es"

fun stays :: "nat \<Rightarrow> net_event list \<Rightarrow> bool" where
  "stays c [] = True"
| "stays c (Arrives conn clk data # es) = stays c es"
| "stays c (Leaves conn now # es) = (conn \<noteq> c \<and> stays c es)"

lemma said_by_append: "said_by c (xs @ ys) = said_by c xs @ said_by c ys"
  by (induction c xs rule: said_by.induct) simp_all

lemma said_by_say_all: "said_by c (say_all conn clk ms) = (if conn = c then ms else [])"
  by (induction ms arbitrary: clk) auto

lemma drain_completed: "fst (proto.drain (old @ data)) = fst (proto.drain old) @ completed old data"
proof -
  obtain ms r where d: "proto.drain old = (ms, r)" by fastforce
  obtain ms' r' where "proto.drain (r @ data) = (ms', r')" by fastforce
  from proto.drain_append [OF d this] show ?thesis by (simp add: completed_def d)
qed

lemma stream_said:
  "stays c es \<Longrightarrow> fst (proto.drain (sofar c)) @ said_by c (client_events sofar es) = fst (proto.drain (sofar c @ bytes_of c es))"
proof (induction es arbitrary: sofar rule: stays.induct)
  case (2 c conn clk data es)
  from 2(1) [of "sofar(conn := sofar conn @ data)"] 2(2) show ?case
    by (cases "conn = c") (simp_all add: said_by_append said_by_say_all drain_completed fun_upd_def)
next
  case (3 c conn now es)
  from 3(1) [of "sofar(conn := [])"] 3(2) show ?case by (simp add: fun_upd_def)
qed simp

section \<open>Sessions, rooms, connections\<close>

lemma serialize_cmd: "serialize m = serialize m' \<Longrightarrow> cmd m = cmd m'"
  using get_put_be16 [of "[]" "cmd m"] get_put_be16 [of "[]" "cmd m'"]
  by (simp add: serialize_def)

lemma serialize_inj: "serialize m = serialize m' \<Longrightarrow> m = m'"
proof -
  assume eq: "serialize m = serialize m'"
  have "body m = drop 4 (serialize m)" "body m' = drop 4 (serialize m')"
    by (simp_all add: serialize_def)
  with eq serialize_cmd [OF eq] show ?thesis by simp
qed

definition members :: "game \<Rightarrow> bytes \<Rightarrow> nat set" where
  "members g rid = (case rooms g rid of None \<Rightarrow> {} | Some cs \<Rightarrow> cs)"

text \<open>Only the chat handler sends chat messages, and only for a session that is logged in.\<close>

lemma error_not_chat: "(c, serialize m) \<in> set (send_error_response conn code txt) \<Longrightarrow> cmd m \<noteq> S2C_CHAT"
  by (auto simp: send_error_response_def send_message_def dest!: serialize_inj) (simp add: cmd_defs)

definition chat_request :: "bytes \<Rightarrow> bytes \<Rightarrow> bytes \<Rightarrow> bool" where
  "chat_request data rid content \<longleftrightarrow>
     (case decode_string data 0 of
        None \<Rightarrow> False
      | Some (r, offset) \<Rightarrow> r = rid \<and> map_option fst (decode_string data offset) = Some content)"

lemma broadcast_chat_sends:
  "(c, serialize m) \<in> set (broadcast_chat order g rid p content) \<longleftrightarrow>
     get_component g Room \<and> c \<in> set (get_connections_in_room order g rid) \<and>
     m = \<lparr>cmd = S2C_CHAT, body = encode_string p @ encode_string content\<rparr>"
  by (auto simp: broadcast_chat_def send_chat_message_def send_message_def dest!: serialize_inj)

lemma get_player_id_session:
  "get_player_id g conn = p \<and> p \<noteq> [] \<longleftrightarrow> (\<exists>s. sessions g conn = Some s \<and> authed s \<and> player_id s = p \<and> p \<noteq> [])"
  by (auto simp: get_player_id_def split: option.splits if_splits)

lemma chat_sends:
  assumes "get_component g SessionMgr"
  shows "(c, serialize m) \<in> set (fst (handle_chat order g conn data)) \<and> cmd m = S2C_CHAT \<longleftrightarrow>
    (\<exists>rid content. chat_request data rid content \<and> get_player_id g conn \<noteq> [] \<and>
       (c, serialize m) \<in> set (broadcast_chat order g rid (get_player_id g conn) content))"
proof (cases "decode_string data 0")
  case (Some x)
  show ?thesis
  proof (cases "decode_string data (snd x)")
    case None
    with Some error_not_chat show ?thesis by (cases x) (auto simp: handle_chat_def chat_request_def)
  next
    case y: (Some y)
    with Some assms error_not_chat show ?thesis
      by (cases x; cases y) (auto simp: handle_chat_def chat_request_def Let_def broadcast_chat_sends split: if_splits)
  qed
qed (use error_not_chat in \<open>auto simp: handle_chat_def chat_request_def\<close>)

lemma login_not_chat:
  "(c, serialize m) \<in> set (fst (handle_login g now conn data)) \<Longrightarrow> cmd m \<noteq> S2C_CHAT"
  using error_not_chat
  by (auto simp: handle_login_def send_login_response_def send_message_def Let_def
      split: option.splits if_splits dest!: serialize_inj) (simp add: cmd_defs)+

lemma join_not_chat:
  "(c, serialize m) \<in> set (fst (handle_join_room g now conn data)) \<Longrightarrow> cmd m \<noteq> S2C_CHAT"
  using error_not_chat
  by (auto simp: handle_join_room_def send_join_room_response_def send_message_def Let_def
      split: option.splits if_splits dest!: serialize_inj) (simp add: cmd_defs)+

lemma heartbeat_not_chat:
  "(c, serialize m) \<in> set (fst (handle_heartbeat g conn data)) \<Longrightarrow> cmd m \<noteq> S2C_CHAT"
  by (auto simp: handle_heartbeat_def send_message_def split: option.splits dest!: serialize_inj)
    (simp add: cmd_defs)

text \<open>Leaving: what each component forgets stays forgotten.\<close>

lemma leave_room_facts:
  "conn \<notin> members (leave_room g now conn) rid"
  "conn \<notin> connections_map (leave_room g now conn)"
  "c \<noteq> conn \<Longrightarrow> c \<in> members (leave_room g now conn) rid \<longleftrightarrow> c \<in> members g rid"
  "c \<noteq> conn \<Longrightarrow> c \<in> connections_map (leave_room g now conn) \<longleftrightarrow> c \<in> connections_map g"
  "c \<noteq> conn \<Longrightarrow> sessions (leave_room g now conn) c = sessions g c"
  "sessions g conn = None \<Longrightarrow> sessions (leave_room g now conn) conn = None"
  "parsers (leave_room g now conn) = parsers g"
  by (auto simp: leave_room_def members_def session_leave_room_def Let_def split: option.splits if_splits)

lemma members_simps [simp]:
  "members (g\<lparr>parsers := x\<rparr>) rid = members g rid" "members (g\<lparr>sessions := y\<rparr>) rid = members g rid"
  by (simp_all add: members_def)

lemma on_disconnect_keeps:
  "parsers g conn = None \<Longrightarrow> parsers (on_disconnect now conn g c) conn = None"
  "sessions g conn = None \<Longrightarrow> sessions (on_disconnect now conn g c) conn = None"
  "(\<forall>rid. conn \<notin> members g rid) \<and> conn \<notin> connections_map g \<Longrightarrow>
     (\<forall>rid. conn \<notin> members (on_disconnect now conn g c) rid) \<and>
     conn \<notin> connections_map (on_disconnect now conn g c)"
  by (auto simp: on_disconnect_def leave_room_facts split: component.splits)

definition others_same :: "nat \<Rightarrow> game \<Rightarrow> game \<Rightarrow> bool" where
  "others_same conn g g' \<longleftrightarrow> (\<forall>c. c \<noteq> conn \<longrightarrow> parsers g' c = parsers g c \<and> sessions g' c = sessions g c \<and>
     (\<forall>rid. c \<in> members g' rid \<longleftrightarrow> c \<in> members g rid) \<and> (c \<in> connections_map g' \<longleftrightarrow> c \<in> connections_map g))"

lemma on_disconnect_others: "others_same conn g g' \<Longrightarrow> others_same conn g (on_disconnect now conn g' c)"
  by (auto simp: others_same_def on_disconnect_def leave_room_facts split: component.splits)

lemma decode_encode_string:
  assumes "length str < 65536"
  shows "decode_string (xs @ encode_string str @ ys) (length xs) = Some (str, length xs + 2 + length str)"
proof -
  have "get_be16 (xs @ encode_string str @ ys) (length xs) = of_nat (length str)"
    using get_put_be16 [of xs] by (simp add: encode_string_def)
  with assms show ?thesis
    by (simp add: decode_string_def Let_def unat_of_nat16) (simp add: encode_string_def)
qed

definition join_msg :: "bytes \<Rightarrow> message" where
  "join_msg rid = \<lparr>cmd = C2S_JOIN_ROOM, body = encode_string rid\<rparr>"

lemma route_join:
  assumes "handlers g C2S_JOIN_ROOM = Some Room" and "get_component g SessionMgr"
    and "is_logged_in g conn" and "rid \<noteq> []" and "length rid < 65536"
  shows "snd (route order now conn g (join_msg rid)) = session_join_room (join_room g conn rid) now conn rid"
  using assms decode_encode_string [of rid "[]" "[]"]
  by (simp add: route_def join_msg_def handle_join_room_def Let_def get_component_def
      session_updates_frame)

text \<open>A service with every component, in the order the examples register them.\<close>

definition example_game :: game where
  "example_game = foldl add_component game_init [Router, SessionMgr, Login, Chat, Room, Heartbeat]"

lemma example_game_facts:
  "get_component example_game Router" "get_component example_game SessionMgr"
  "parsers example_game = Map.empty" "rooms example_game = Map.empty"
  "handlers example_game C2S_JOIN_ROOM = Some Room" "handlers example_game C2S_CHAT = Some Chat"
  "components example_game = [Router, SessionMgr, Login, Chat, Room, Heartbeat]"
  by (simp_all add: example_game_def add_component_def on_register_def get_component_def
      game_init_def register_handler_def cmd_defs)

definition chat_game :: game where
  "chat_game = example_game\<lparr>sessions := [7 \<mapsto> \<lparr>player_id = [65], room_id = [82], gateway_id = [],
     authed = True, last_active_time = 0\<rparr>], rooms := [[82] \<mapsto> {7}], connections_map := {7}\<rparr>"

definition chat_in :: message where
  "chat_in = \<lparr>cmd = C2S_CHAT, body = encode_string [82] @ encode_string [72]\<rparr>"

definition chat_out :: message where
  "chat_out = \<lparr>cmd = S2C_CHAT, body = encode_string [65] @ encode_string [72]\<rparr>"

section \<open>Properties\<close>

text \<open>
  C4. The server processes messages, not reads. Take a server with a router and no parsers yet, and
  any run of reads and disconnects of any connections, interleaved, every handler with a clock
  reading of its own. Everything sent and the resulting sessions and rooms are those of handling
  whole messages, connection by connection as each stream completes them; and a connection that
  stays and whose reads together are serialized messages (bodies below 64 KiB) says exactly these.
\<close>

theorem service_refines_messages:
  assumes "get_component g Router" and "parsers g = Map.empty"
  shows "fst (service_run order g es) = fst (message_run order g (client_events (\<lambda>_. []) es)) \<and>
    forget_parsers (snd (service_run order g es)) = forget_parsers (snd (message_run order g (client_events (\<lambda>_. []) es))) \<and>
    (\<forall>c ms. stays c es \<and> list_all wire_valid ms \<and> bytes_of c es = concat (map serialize ms) \<longrightarrow>
       said_by c (client_events (\<lambda>_. []) es) = ms)"
proof -
  have "parsers_match g (\<lambda>_. [])"
    using assms(2) by (simp add: parsers_match_def conn_parser_def drain_empty parser_inv_def parser_init_def parser_pending_def)
  moreover have "said_by c (client_events (\<lambda>_. []) es) = ms"
    if "stays c es" "list_all wire_valid ms" "bytes_of c es = concat (map serialize ms)" for c ms
    using stream_said [OF that(1), of "\<lambda>_. []"] proto.drain_encoded [OF that(2)] that(3) by (simp add: drain_empty)
  ultimately show ?thesis using service_run_messages [OF assms(1), of "\<lambda>_. []" g order es] by blast
qed

text \<open>Two connections whose reads interleave; the first message arrives in two parts.\<close>

definition two_clients :: "net_event list" where
  "two_clients = [Arrives 7 int [0], Arrives 8 int [0, 5, 0], Arrives 7 (\<lambda>i. 3 + int i) [9, 0, 0], Leaves 8 4]"

theorem service_refines_messages_witness:
  "said_by 7 (client_events (\<lambda>_. []) two_clients) = [\<lparr>cmd = 9, body = []\<rparr>] \<and>
   fst (service_run sorted_list_of_set example_game two_clients) =
     fst (message_run sorted_list_of_set example_game (client_events (\<lambda>_. []) two_clients))"
proof -
  let ?ms = "[\<lparr>cmd = 9, body = []\<rparr>]"
  have "stays 7 two_clients" "bytes_of 7 two_clients = concat (map serialize ?ms)" "list_all wire_valid ?ms"
    by (simp_all add: two_clients_def wire_valid_def serialize_def put_be16_eq)
  then show ?thesis
    using service_refines_messages [OF example_game_facts(1,3), of sorted_list_of_set two_clients] by blast
qed



text \<open>
  Disconnecting forgets the connection and nothing else: with router, session manager and
  room component registered in any order, afterwards the connection has no parser, no session,
  is in no room and in no connection table, and every other connection's state is unchanged.
\<close>

lemma disconnect_forgets:
  assumes "Router \<in> set (components g)" and "SessionMgr \<in> set (components g)"
    and "Room \<in> set (components g)"
  shows "let g' = dispatch_disconnect now conn g in
    parsers g' conn = None \<and> sessions g' conn = None \<and>
    (\<forall>rid. conn \<notin> members g' rid) \<and> conn \<notin> connections_map g' \<and> others_same conn g g'"
proof -
  let ?f = "on_disconnect now conn" and ?g = "foldl (on_disconnect now conn) g (components g)"
  have "parsers ?g conn = None"
    by (rule foldl_establishes [where Q = "\<lambda>g. parsers g conn = None", OF assms(1)])
      (simp add: on_disconnect_def, rule on_disconnect_keeps)
  moreover have "sessions ?g conn = None"
    by (rule foldl_establishes [where Q = "\<lambda>g. sessions g conn = None", OF assms(2)])
      (simp add: on_disconnect_def, rule on_disconnect_keeps)
  moreover have "(\<forall>rid. conn \<notin> members ?g rid) \<and> conn \<notin> connections_map ?g"
    by (rule foldl_establishes [where Q = "\<lambda>g. (\<forall>rid. conn \<notin> members g rid) \<and> conn \<notin> connections_map g",
          OF assms(3)])
      (simp add: on_disconnect_def leave_room_facts, rule on_disconnect_keeps)
  moreover have "others_same conn g ?g"
    by (rule foldl_keeps [where Q = "others_same conn g"]) (simp add: others_same_def, rule on_disconnect_others)
  ultimately show ?thesis by (simp add: dispatch_disconnect_def Let_def)
qed

text \<open>
  Joining a second room does not leave the first: a logged-in connection that joins two
  rooms is a member of both, while its session names only the second. (The error code
  \<^verbatim>\<open>ALREADY_IN_ROOM\<close> exists and is never sent.)
\<close>

lemma join_second_room_keeps_first:
  assumes "handlers g C2S_JOIN_ROOM = Some Room" and "get_component g SessionMgr"
    and "is_logged_in g conn" and "r1 \<noteq> []" and "length r1 < 65536" and "r2 \<noteq> []" and "length r2 < 65536"
  shows "let g2 = snd (route_all order (\<lambda>i. now + int i) conn g [join_msg r1, join_msg r2]) in
    conn \<in> members g2 r1 \<and> conn \<in> members g2 r2 \<and> get_room_id g2 conn = r2"
proof -
  let ?g1 = "session_join_room (join_room g conn r1) now conn r1"
  obtain s where s: "sessions g conn = Some s" "authed s"
    using assms(3) by (auto simp: is_logged_in_def split: option.splits)
  have g1: "snd (route order now conn g (join_msg r1)) = ?g1" using assms(1-5) by (intro route_join)
  have "handlers ?g1 C2S_JOIN_ROOM = Some Room" "get_component ?g1 SessionMgr" "is_logged_in ?g1 conn"
    using assms(1,2) s
    by (simp_all add: session_updates_frame get_component_def)
      (simp add: is_logged_in_def session_join_room_def join_room_def Let_def)
  then have "snd (route order (now + 1) conn ?g1 (join_msg r2)) =
      session_join_room (join_room ?g1 conn r2) (now + 1) conn r2"
    using assms(6,7) by (intro route_join)
  with g1 s show ?thesis
    by (simp add: case_prod_beta Let_def)
      (auto simp: members_def get_room_id_def session_join_room_def join_room_def Let_def)
qed

end
