(* ===== verification/FrameSync.thy ===== *)
theory FrameSync
  imports GameService "HOL-Library.Multiset"
begin

text \<open>
  Frame synchronisation: \<^verbatim>\<open>sync/frame_sync.h\<close> and \<^verbatim>\<open>sync/frame_sync.cpp\<close>. A room queues the inputs of
  its players and hands them out frame by frame; the component keeps the rooms and which player
  and room a connection belongs to. Frame and player numbers are 32-bit words. Both classes guard
  themselves with a non-recursive \<^verbatim>\<open>std::mutex\<close>; a call that locks the mutex of the component while
  its thread holds it is the error \<open>SelfDeadlock\<close>.
\<close>

section \<open>Wire helpers\<close>

definition encode_uint32 :: "32 word \<Rightarrow> bytes" where
  "encode_uint32 v = map (\<lambda>i. ucast (drop_bit (i * 8) v AND 0xFF)) [0..<4]"

definition decode_uint32 :: "bytes \<Rightarrow> nat \<Rightarrow> (32 word \<times> nat) option" where
  "decode_uint32 data offset =
     (if length data < offset + 4 then None
      else Some (foldl (\<lambda>v i. v OR push_bit (i * 8) (ucast (data ! (offset + i)))) 0 [0..<4],
                 offset + 4))"

definition encode_bytes :: "bytes \<Rightarrow> bytes" where
  "encode_bytes data = put_be16 (of_nat (length data)) @ data"

definition decode_bytes :: "bytes \<Rightarrow> nat \<Rightarrow> (bytes \<times> nat) option" where
  "decode_bytes data offset =
     (if length data < offset + 2 then None
      else let len = unat (get_be16 data offset); offset' = offset + 2
           in if length data < offset' + len then None
              else Some (take len (drop offset' data), offset' + len))"

definition C2S_FRAME_INPUT :: "16 word" where "C2S_FRAME_INPUT = 0x0101"
definition C2S_FRAME_SYNC_REQ :: "16 word" where "C2S_FRAME_SYNC_REQ = 0x0102"
definition S2C_FRAME_SYNC :: "16 word" where "S2C_FRAME_SYNC = 0x0103"
definition S2C_FRAME_STATE :: "16 word" where "S2C_FRAME_STATE = 0x0104"
definition S2C_FRAME_SNAPSHOT :: "16 word" where "S2C_FRAME_SNAPSHOT = 0x0105"

section \<open>FrameSyncRoom\<close>

record frame_input =
  fi_frame :: "32 word"
  fi_player :: "32 word"
  input_data :: bytes

record frame_state =
  fst_frame :: "32 word"
  state_data :: bytes

record frame_snapshot =
  fsn_frame :: "32 word"
  snapshot_data :: bytes

record frame_room =
  fr_room_id :: bytes
  frame_rate :: "32 word"
  current_frame :: "32 word"
  running :: bool
  players :: "32 word \<rightharpoonup> nat"
  player_inputs :: "32 word \<rightharpoonup> frame_input list"
  snapshots :: "32 word \<rightharpoonup> frame_snapshot"

definition frame_room_init :: "bytes \<Rightarrow> 32 word \<Rightarrow> frame_room" where
  "frame_room_init rid rate = \<lparr>fr_room_id = rid, frame_rate = rate, current_frame = 0, running = False,
     players = Map.empty, player_inputs = Map.empty, snapshots = Map.empty\<rparr>"

definition join_player :: "frame_room \<Rightarrow> 32 word \<Rightarrow> nat \<Rightarrow> frame_room" where
  "join_player r pid conn =
     r\<lparr>players := (players r)(pid \<mapsto> conn), player_inputs := (player_inputs r)(pid \<mapsto> [])\<rparr>"

definition leave_player :: "frame_room \<Rightarrow> 32 word \<Rightarrow> frame_room" where
  "leave_player r pid =
     r\<lparr>players := (players r)(pid := None), player_inputs := (player_inputs r)(pid := None)\<rparr>"

text \<open>\<^verbatim>\<open>player_inputs_[player_id]\<close> makes an empty queue for an unknown player.\<close>

definition queue_of :: "frame_room \<Rightarrow> 32 word \<Rightarrow> frame_input list" where
  "queue_of r pid = (case player_inputs r pid of None \<Rightarrow> [] | Some q \<Rightarrow> q)"

definition room_submit_input :: "frame_room \<Rightarrow> 32 word \<Rightarrow> frame_input \<Rightarrow> frame_room" where
  "room_submit_input r pid inp =
     r\<lparr>player_inputs := (player_inputs r)(pid \<mapsto> queue_of r pid @ [inp])\<rparr>"

text \<open>The \<^verbatim>\<open>while\<close> loop on one queue: what it collects and what it leaves.\<close>

fun drain :: "32 word \<Rightarrow> frame_input list \<Rightarrow> frame_input list \<times> frame_input list" where
  "drain f [] = ([], [])"
| "drain f (x # q) =
     (if fi_frame x \<le> f
      then (let (out, rest) = drain f q in (if fi_frame x = f then x # out else out, rest))
      else ([], x # q))"

definition get_all_inputs ::
    "(32 word set \<Rightarrow> 32 word list) \<Rightarrow> frame_room \<Rightarrow> 32 word \<Rightarrow> frame_input list \<times> frame_room" where
  "get_all_inputs order r f =
     foldl (\<lambda>(inputs, r') pid.
         let (out, rest) = drain f (queue_of r' pid)
         in (inputs @ out, r'\<lparr>player_inputs := (player_inputs r')(pid \<mapsto> rest)\<rparr>))
       ([], r) (order (dom (player_inputs r)))"

text \<open>
  \<^verbatim>\<open>while (snapshots_.size() > 10) snapshots_.erase(snapshots_.begin())\<close>; \<open>begin\<close> of the hash map
  is a parameter.
\<close>

partial_function (option) trim_snapshots ::
    "((32 word \<rightharpoonup> frame_snapshot) \<Rightarrow> 32 word) \<Rightarrow> (32 word \<rightharpoonup> frame_snapshot) \<Rightarrow>
     (32 word \<rightharpoonup> frame_snapshot) option" where
  "trim_snapshots first m = (if 10 < card (dom m) then trim_snapshots first (m(first m := None)) else Some m)"

definition room_create_snapshot ::
    "((32 word \<rightharpoonup> frame_snapshot) \<Rightarrow> 32 word) \<Rightarrow> frame_room \<Rightarrow> frame_snapshot \<Rightarrow> frame_room option" where
  "room_create_snapshot first r snap =
     map_option (\<lambda>m. r\<lparr>snapshots := m\<rparr>) (trim_snapshots first ((snapshots r)(fsn_frame snap \<mapsto> snap)))"

definition get_snapshot :: "frame_room \<Rightarrow> 32 word \<Rightarrow> frame_snapshot option" where
  "get_snapshot r f = snapshots r f"

definition advance_frame :: "frame_room \<Rightarrow> frame_room" where
  "advance_frame r = r\<lparr>current_frame := current_frame r + 1\<rparr>"

definition start_sync :: "frame_room \<Rightarrow> frame_room" where
  "start_sync r = r\<lparr>running := True\<rparr>"

definition stop_sync :: "frame_room \<Rightarrow> frame_room" where
  "stop_sync r = r\<lparr>running := False\<rparr>"

definition player_count :: "frame_room \<Rightarrow> nat" where
  "player_count r = card (dom (player_inputs r))"

definition get_player_ids :: "(32 word set \<Rightarrow> 32 word list) \<Rightarrow> frame_room \<Rightarrow> 32 word list" where
  "get_player_ids order r = order (dom (player_inputs r))"

definition get_player_connections :: "(32 word set \<Rightarrow> 32 word list) \<Rightarrow> frame_room \<Rightarrow> nat list" where
  "get_player_connections order r = map (\<lambda>pid. the (players r pid)) (order (dom (players r)))"

definition all_inputs_ready :: "(32 word set \<Rightarrow> 32 word list) \<Rightarrow> frame_room \<Rightarrow> 32 word \<Rightarrow> bool" where
  "all_inputs_ready order r f =
     list_all (\<lambda>pid. case queue_of r pid of [] \<Rightarrow> False | x # q \<Rightarrow> fi_frame x = f)
       (order (dom (player_inputs r)))"

section \<open>FrameSyncComponent\<close>

record connection_info =
  ci_player :: "32 word"
  ci_room :: bytes

record frame_sync =
  fs_rooms :: "bytes \<rightharpoonup> frame_room"
  fs_conns :: "nat \<rightharpoonup> connection_info"
  fs_rate :: "32 word"

definition fs_init :: "32 word \<Rightarrow> frame_sync" where
  "fs_init rate = \<lparr>fs_rooms = Map.empty, fs_conns = Map.empty, fs_rate = rate\<rparr>"

definition fs_create_room :: "frame_sync \<Rightarrow> bytes \<Rightarrow> frame_sync" where
  "fs_create_room s rid =
     (if fs_rooms s rid \<noteq> None then s
      else s\<lparr>fs_rooms := (fs_rooms s)(rid \<mapsto> start_sync (frame_room_init rid (fs_rate s)))\<rparr>)"

definition fs_destroy_room :: "frame_sync \<Rightarrow> bytes \<Rightarrow> frame_sync" where
  "fs_destroy_room s rid =
     (if fs_rooms s rid \<noteq> None then s\<lparr>fs_rooms := (fs_rooms s)(rid := None)\<rparr> else s)"

definition fs_join_room :: "frame_sync \<Rightarrow> 32 word \<Rightarrow> bytes \<Rightarrow> nat \<Rightarrow> frame_sync" where
  "fs_join_room s pid rid conn =
     (case fs_rooms s rid of
        None \<Rightarrow> s
      | Some r \<Rightarrow> s\<lparr>fs_rooms := (fs_rooms s)(rid \<mapsto> join_player r pid conn),
                    fs_conns := (fs_conns s)(conn \<mapsto> \<lparr>ci_player = pid, ci_room = rid\<rparr>)\<rparr>)"

definition fs_leave_room :: "frame_sync \<Rightarrow> 32 word \<Rightarrow> bytes \<Rightarrow> frame_sync" where
  "fs_leave_room s pid rid =
     (let (s1, should_destroy) =
            (case fs_rooms s rid of
               None \<Rightarrow> (s, False)
             | Some r \<Rightarrow> let r' = leave_player r pid
                        in (s\<lparr>fs_rooms := (fs_rooms s)(rid \<mapsto> r')\<rparr>, player_count r' = 0));
          s2 = s1\<lparr>fs_conns := (\<lambda>c. case fs_conns s1 c of
                     Some ci \<Rightarrow> if ci_player ci = pid \<and> ci_room ci = rid then None else Some ci
                   | None \<Rightarrow> None)\<rparr>
      in if should_destroy then fs_destroy_room s2 rid else s2)"

text \<open>The loop over \<^verbatim>\<open>connections_\<close> stops at the first entry of the player whose room exists.\<close>

definition fs_submit_input ::
    "(nat set \<Rightarrow> nat list) \<Rightarrow> frame_sync \<Rightarrow> 32 word \<Rightarrow> frame_input \<Rightarrow> frame_sync" where
  "fs_submit_input corder s pid inp =
     (case find (\<lambda>c. case fs_conns s c of
              Some ci \<Rightarrow> ci_player ci = pid \<and> fs_rooms s (ci_room ci) \<noteq> None | None \<Rightarrow> False)
            (corder (dom (fs_conns s))) of
        None \<Rightarrow> s
      | Some c \<Rightarrow>
          let rid = ci_room (the (fs_conns s c))
          in s\<lparr>fs_rooms := (fs_rooms s)(rid \<mapsto> room_submit_input (the (fs_rooms s rid)) pid inp)\<rparr>)"

definition fs_create_snapshot ::
    "((32 word \<rightharpoonup> frame_snapshot) \<Rightarrow> 32 word) \<Rightarrow> frame_sync \<Rightarrow> bytes \<Rightarrow> frame_snapshot \<Rightarrow> frame_sync option" where
  "fs_create_snapshot first s rid snap =
     (case fs_rooms s rid of
        None \<Rightarrow> Some s
      | Some r \<Rightarrow> map_option (\<lambda>r'. s\<lparr>fs_rooms := (fs_rooms s)(rid \<mapsto> r')\<rparr>) (room_create_snapshot first r snap))"

definition fs_get_player_id :: "frame_sync \<Rightarrow> nat \<Rightarrow> 32 word" where
  "fs_get_player_id s conn = (case fs_conns s conn of None \<Rightarrow> 0 | Some ci \<Rightarrow> ci_player ci)"

definition fs_get_room_id :: "frame_sync \<Rightarrow> nat \<Rightarrow> bytes" where
  "fs_get_room_id s conn = (case fs_conns s conn of None \<Rightarrow> [] | Some ci \<Rightarrow> ci_room ci)"

text \<open>\<open>locked\<close>: whether the calling thread already holds the mutex of the component.\<close>

definition broadcast_frame_state ::
    "(32 word set \<Rightarrow> 32 word list) \<Rightarrow> bool \<Rightarrow> frame_sync \<Rightarrow> bytes \<Rightarrow> frame_state \<Rightarrow> cpp_error + sends" where
  "broadcast_frame_state order locked s rid st =
     (if locked then Inl SelfDeadlock
      else case fs_rooms s rid of
             None \<Rightarrow> Inr []
           | Some r \<Rightarrow> Inr (concat (map (\<lambda>conn. send_message conn
               \<lparr>cmd = S2C_FRAME_STATE, body = encode_uint32 (fst_frame st) @ encode_bytes (state_data st)\<rparr>)
               (get_player_connections order r))))"

definition send_frame_sync :: "nat \<Rightarrow> 32 word \<Rightarrow> sends" where
  "send_frame_sync conn f = send_message conn \<lparr>cmd = S2C_FRAME_SYNC, body = encode_uint32 f\<rparr>"

definition send_frame_snapshot :: "nat \<Rightarrow> frame_snapshot \<Rightarrow> sends" where
  "send_frame_snapshot conn snap = send_message conn
     \<lparr>cmd = S2C_FRAME_SNAPSHOT, body = encode_uint32 (fsn_frame snap) @ encode_bytes (snapshot_data snap)\<rparr>"

text \<open>The parse of a frame input: player, frame, data.\<close>

definition parse_frame_input :: "bytes \<Rightarrow> frame_input option" where
  "parse_frame_input data =
     (case decode_uint32 data 0 of
        None \<Rightarrow> None
      | Some (pid, o1) \<Rightarrow>
          (case decode_uint32 data o1 of
             None \<Rightarrow> None
           | Some (f, o2) \<Rightarrow>
               (case decode_bytes data o2 of
                  None \<Rightarrow> None
                | Some (inp, o3) \<Rightarrow> Some \<lparr>fi_frame = f, fi_player = pid, input_data = inp\<rparr>)))"

definition handle_frame_input ::
    "(32 word set \<Rightarrow> 32 word list) \<Rightarrow> (nat set \<Rightarrow> nat list) \<Rightarrow> frame_sync \<Rightarrow> nat \<Rightarrow> bytes \<Rightarrow>
     cpp_error + sends \<times> frame_sync" where
  "handle_frame_input order corder s conn data =
     (case parse_frame_input data of
        None \<Rightarrow> Inr ([], s)
      | Some inp \<Rightarrow>
          let s1 = fs_submit_input corder s (fi_player inp) inp;
              rid = fs_get_room_id s1 conn
          in if rid = [] then Inr ([], s1)
             else case fs_rooms s1 rid of
                    None \<Rightarrow> Inr ([], s1)
                  | Some r \<Rightarrow>
                      if all_inputs_ready order r (fi_frame inp)
                      then (let r' = advance_frame r; s2 = s1\<lparr>fs_rooms := (fs_rooms s1)(rid \<mapsto> r')\<rparr>
                            in map_sum id (\<lambda>out. (out, s2))
                                 (broadcast_frame_state order True s2 rid
                                    \<lparr>fst_frame = current_frame r', state_data = []\<rparr>))
                      else Inr ([], s1))"

definition handle_frame_sync_req :: "frame_sync \<Rightarrow> nat \<Rightarrow> bytes \<Rightarrow> sends" where
  "handle_frame_sync_req s conn data =
     (if length data < 2 then []
      else let len = unat (get_be16 data 0)
           in if length data < 2 + len then []
              else case fs_rooms s (take len (drop 2 data)) of
                     None \<Rightarrow> []
                   | Some r \<Rightarrow> send_frame_sync conn (current_frame r))"

text \<open>The handlers as \<^verbatim>\<open>on_register\<close> hooks them into the router.\<close>

definition frame_dispatch ::
    "(32 word set \<Rightarrow> 32 word list) \<Rightarrow> (nat set \<Rightarrow> nat list) \<Rightarrow> frame_sync \<Rightarrow> nat \<Rightarrow> message \<Rightarrow>
     cpp_error + sends \<times> frame_sync" where
  "frame_dispatch order corder s conn msg =
     (if cmd msg = C2S_FRAME_INPUT then handle_frame_input order corder s conn (body msg)
      else if cmd msg = C2S_FRAME_SYNC_REQ then Inr (handle_frame_sync_req s conn (body msg), s)
      else Inr ([], s))"

definition fs_on_disconnect :: "frame_sync \<Rightarrow> nat \<Rightarrow> frame_sync" where
  "fs_on_disconnect s conn =
     (case fs_conns s conn of
        None \<Rightarrow> s
      | Some ci \<Rightarrow>
          let s1 = s\<lparr>fs_conns := (fs_conns s)(conn := None)\<rparr>
          in if ci_room ci = [] then s1 else fs_leave_room s1 (ci_player ci) (ci_room ci))"

section \<open>Wire format\<close>

lemma mask_byte: "(ucast (w AND 0xFF :: 32 word) :: byte) = ucast w"
proof -
  have m: "(0xFF :: 32 word) = mask 8" by (simp add: mask_eq_exp_minus_1)
  show ?thesis unfolding m by (rule bit_word_eqI) (auto simp: bit_simps simp del: mask_numeral)
qed

lemma encode_uint32_eq: "encode_uint32 v = store32 v"
  by (simp add: encode_uint32_def store32_def upt_rec mask_byte)

lemma decode_uint32_eq:
  "decode_uint32 data n = (if length data < n + 4 then None
     else Some (load32 (data ! n) (data ! (n + 1)) (data ! (n + 2)) (data ! (n + 3)), n + 4))"
  by (simp add: decode_uint32_def load32_def upt_rec or.assoc numeral_3_eq_3)

lemma decode_encode_uint32 [simp]:
  "decode_uint32 (xs @ encode_uint32 v @ ys) (length xs) = Some (v, length xs + 4)"
  by (simp add: encode_uint32_eq decode_uint32_eq store32_def nth_append)

lemma decode_encode_bytes [simp]:
  "length d < 65536 \<Longrightarrow> decode_bytes (xs @ encode_bytes d @ ys) (length xs) = Some (d, length xs + 2 + length d)"
  by (simp add: decode_bytes_def encode_bytes_def Let_def unat_of_nat16)

definition encode_frame_input :: "frame_input \<Rightarrow> bytes" where
  "encode_frame_input i = encode_uint32 (fi_player i) @ encode_uint32 (fi_frame i) @ encode_bytes (input_data i)"

lemma parse_encode_frame_input:
  assumes "length (input_data i) < 65536"
  shows "parse_frame_input (encode_frame_input i) = Some i"
proof -
  let ?d = "encode_frame_input i"
  have 1: "decode_uint32 ?d 0 = Some (fi_player i, 4)"
    using decode_encode_uint32 [of "[]"] by (simp add: encode_frame_input_def)
  have 2: "decode_uint32 ?d 4 = Some (fi_frame i, 8)"
    using decode_encode_uint32 [of "encode_uint32 (fi_player i)"] by (simp add: encode_frame_input_def encode_uint32_eq)
  have 3: "decode_bytes ?d 8 = Some (input_data i, 10 + length (input_data i))"
    using decode_encode_bytes [OF assms, of "encode_uint32 (fi_player i) @ encode_uint32 (fi_frame i)" "[]"]
    by (simp add: encode_frame_input_def encode_uint32_eq)
  show ?thesis by (simp add: parse_frame_input_def 1 2 3)
qed

section \<open>Lockstep delivery\<close>

definition pending :: "frame_room \<Rightarrow> frame_input multiset" where
  "pending r = (\<Sum>pid\<in>dom (player_inputs r). mset (queue_of r pid))"

definition ordered_queues :: "frame_room \<Rightarrow> bool" where
  "ordered_queues r \<longleftrightarrow> finite (dom (player_inputs r)) \<and>
     (\<forall>pid. sorted (map fi_frame (queue_of r pid)))"

lemma drain_sorted:
  "sorted (map fi_frame q) \<Longrightarrow>
     drain f q = (filter (\<lambda>i. fi_frame i = f) q, filter (\<lambda>i. f < fi_frame i) q)"
proof (induction q)
  case (Cons x q)
  show ?case
  proof (cases "fi_frame x \<le> f")
    case False
    then have "f < fi_frame i" if "i \<in> set (x # q)" for i using that Cons.prems by auto
    then have "filter (\<lambda>i. fi_frame i = f) (x # q) = []" "filter (\<lambda>i. f < fi_frame i) (x # q) = x # q"
      by (auto simp: filter_empty_conv filter_id_conv)
    then show ?thesis using False by (simp only: drain.simps if_False)
  qed (use Cons in auto)
qed simp

text \<open>The loop over the players, on any list of distinct players.\<close>

lemma get_inputs_loop:
  fixes r :: frame_room and f :: "32 word"
  assumes "distinct pids" and "\<And>pid. pid \<in> set pids \<Longrightarrow> sorted (map fi_frame (queue_of r pid))"
  defines "step \<equiv> \<lambda>(inputs, r') pid. let (out, rest) = drain f (queue_of r' pid)
     in (inputs @ out, r'\<lparr>player_inputs := (player_inputs r')(pid \<mapsto> rest)\<rparr>)"
  shows "foldl step (acc, r) pids =
    (acc @ concat (map (\<lambda>pid. filter (\<lambda>i. fi_frame i = f) (queue_of r pid)) pids),
     r\<lparr>player_inputs := \<lambda>pid. if pid \<in> set pids then Some (filter (\<lambda>i. f < fi_frame i) (queue_of r pid))
        else player_inputs r pid\<rparr>)"
  using assms(1,2)
proof (induction pids arbitrary: acc r)
  case Nil
  then show ?case by simp
next
  case (Cons p pids)
  let ?r' = "r\<lparr>player_inputs := (player_inputs r)(p \<mapsto> filter (\<lambda>i. f < fi_frame i) (queue_of r p))\<rparr>"
  have q: "queue_of ?r' pid = queue_of r pid" if "pid \<noteq> p" for pid using that by (simp add: queue_of_def)
  have nq: "queue_of ?r' x = queue_of r x" if "x \<in> set pids" for x
    using Cons.prems(1) that by (intro q) auto
  have "step (acc, r) p = (acc @ filter (\<lambda>i. fi_frame i = f) (queue_of r p), ?r')"
    using Cons.prems by (simp add: step_def drain_sorted Let_def)
  then have "foldl step (acc, r) (p # pids) = foldl step (acc @ filter (\<lambda>i. fi_frame i = f) (queue_of r p), ?r') pids"
    by simp
  also have "\<dots> = (acc @ filter (\<lambda>i. fi_frame i = f) (queue_of r p) @
       concat (map (\<lambda>pid. filter (\<lambda>i. fi_frame i = f) (queue_of ?r' pid)) pids),
     ?r'\<lparr>player_inputs := \<lambda>pid. if pid \<in> set pids then Some (filter (\<lambda>i. f < fi_frame i) (queue_of ?r' pid))
        else player_inputs ?r' pid\<rparr>)"
    using Cons.prems q by (subst Cons.IH) (auto simp: queue_of_def)
  also have "map (\<lambda>pid. filter (\<lambda>i. fi_frame i = f) (queue_of ?r' pid)) pids =
      map (\<lambda>pid. filter (\<lambda>i. fi_frame i = f) (queue_of r pid)) pids"
    by (rule map_cong) (simp_all add: nq)
  also have "(\<lambda>pid. if pid \<in> set pids then Some (filter (\<lambda>i. f < fi_frame i) (queue_of ?r' pid)) else player_inputs ?r' pid) =
      (\<lambda>pid. if pid \<in> set (p # pids) then Some (filter (\<lambda>i. f < fi_frame i) (queue_of r pid)) else player_inputs r pid)"
    by (rule ext) (use Cons.prems(1) in \<open>simp add: nq\<close>)
  finally show ?case by simp
qed

lemma filter_mset_sum: "finite A \<Longrightarrow> filter_mset P (\<Sum>x\<in>A. g x) = (\<Sum>x\<in>A. filter_mset P (g x))"
  by (induction A rule: finite_induct) auto

lemma get_all_inputs_spec:
  assumes "ordered_queues r" and "enumerates order" and "get_all_inputs order r f = (ins, r')"
  shows "mset ins = filter_mset (\<lambda>i. fi_frame i = f) (pending r)"
    and "pending r' = filter_mset (\<lambda>i. f < fi_frame i) (pending r)"
    and "ordered_queues r'" and "dom (player_inputs r') = dom (player_inputs r)"
    and "r' = r\<lparr>player_inputs := player_inputs r'\<rparr>"
proof -
  let ?D = "dom (player_inputs r)"
  have fin: "finite ?D" and srt: "\<And>pid. sorted (map fi_frame (queue_of r pid))"
    using assms(1) by (auto simp: ordered_queues_def)
  have o: "set (order ?D) = ?D" "distinct (order ?D)" using assms(2) fin by (auto simp: enumerates_def)
  have ins: "ins = concat (map (\<lambda>pid. filter (\<lambda>i. fi_frame i = f) (queue_of r pid)) (order ?D))"
    and r': "r' = r\<lparr>player_inputs := \<lambda>pid. if pid \<in> ?D then Some (filter (\<lambda>i. f < fi_frame i) (queue_of r pid))
        else player_inputs r pid\<rparr>"
    using assms(3) get_inputs_loop [OF o(2) srt, where f = f and acc = "[]"] o(1)
    by (auto simp: get_all_inputs_def)
  have q: "queue_of r' pid = filter (\<lambda>i. f < fi_frame i) (queue_of r pid)" for pid
    by (cases "player_inputs r pid") (auto simp: r' queue_of_def)
  have "mset (concat (map g xs)) = (\<Sum>x\<leftarrow>xs. mset (g x))" for g :: "32 word \<Rightarrow> frame_input list" and xs
    by (induction xs) auto
  then show "mset ins = filter_mset (\<lambda>i. fi_frame i = f) (pending r)"
    unfolding ins pending_def using o by (simp add: sum_list_distinct_conv_sum_set filter_mset_sum [OF fin])
  show d: "dom (player_inputs r') = ?D" by (auto simp: r' split: if_splits)
  show "pending r' = filter_mset (\<lambda>i. f < fi_frame i) (pending r)"
    unfolding pending_def d q by (simp add: filter_mset_sum [OF fin])
  show "ordered_queues r'" using fin srt d by (simp add: ordered_queues_def q sorted_filter)
  show "r' = r\<lparr>player_inputs := player_inputs r'\<rparr>" by (simp add: r')
qed

lemma room_submit_ordered:
  assumes "ordered_queues r" and "\<forall>i\<in>set (queue_of r pid). fi_frame i \<le> fi_frame inp"
  shows "ordered_queues (room_submit_input r pid inp)"
  using assms by (auto simp: ordered_queues_def room_submit_input_def queue_of_def sorted_append)

text \<open>A game loop that asks for the inputs of one frame after the other.\<close>

primrec collect_frames ::
    "(32 word set \<Rightarrow> 32 word list) \<Rightarrow> frame_room \<Rightarrow> 32 word list \<Rightarrow> frame_input list list \<times> frame_room" where
  "collect_frames order r [] = ([], r)"
| "collect_frames order r (f # fs) =
     (let (ins, r1) = get_all_inputs order r f; (inss, r2) = collect_frames order r1 fs in (ins # inss, r2))"

lemma collect_frames_spec:
  assumes "ordered_queues r" and "enumerates order" and "sorted_wrt (<) fs"
  shows "map mset (fst (collect_frames order r fs)) =
     map (\<lambda>f. filter_mset (\<lambda>i. fi_frame i = f) (pending r)) fs"
  using assms(1,3)
proof (induction fs arbitrary: r)
  case (Cons f fs)
  obtain ins r1 where g: "get_all_inputs order r f = (ins, r1)" by fastforce
  note spec = get_all_inputs_spec [OF Cons.prems(1) assms(2) g]
  have "filter_mset (\<lambda>i. fi_frame i = g) (pending r1) = filter_mset (\<lambda>i. fi_frame i = g) (pending r)"
    if "g \<in> set fs" for g
    using Cons.prems(2) that unfolding spec(2) filter_filter_mset by (auto intro!: filter_mset_cong)
  then show ?case
    using Cons.IH [OF spec(3)] Cons.prems(2) g spec(1) by (auto simp: split_beta)
qed simp

section \<open>Snapshots\<close>

lemma trim_snapshots_returns:
  assumes "finite (dom m)" and "\<And>m. m \<noteq> Map.empty \<Longrightarrow> first m \<in> dom m"
  shows "\<exists>m'. trim_snapshots first m = Some m' \<and> m' \<subseteq>\<^sub>m m \<and> card (dom m') = min 10 (card (dom m))"
  using assms(1)
proof (induction "card (dom m)" arbitrary: m rule: less_induct)
  case less
  show ?case
  proof (cases "10 < card (dom m)")
    case True
    then have "first m \<in> dom m" using assms(2) [of m] by force
    then have c: "card (dom (m(first m := None))) = card (dom m) - 1" using less.prems by simp
    obtain m' where "trim_snapshots first (m(first m := None)) = Some m'" "m' \<subseteq>\<^sub>m m(first m := None)"
      "card (dom m') = min 10 (card (dom (m(first m := None))))"
      using less.hyps [of "m(first m := None)"] True less.prems unfolding c by fastforce
    then show ?thesis using True c
      by (subst trim_snapshots.simps) (force simp: map_le_def split: if_splits)
  next
    case False
    then show ?thesis by (subst trim_snapshots.simps) auto
  qed
qed

section \<open>Properties\<close>

text \<open>
  C24. Lockstep delivery: when every player submitted its inputs in frame order, a game loop that
  asks for increasing frames gets, for each frame, exactly the queued inputs of that frame from
  all players, each once, whatever the order in which the hash map is walked.
\<close>

theorem frame_lockstep:
  assumes "ordered_queues r" and "enumerates order" and "sorted_wrt (<) fs"
  shows "map mset (fst (collect_frames order r fs)) =
     map (\<lambda>f. filter_mset (\<lambda>i. fi_frame i = f)
        (\<Sum>pid\<in>dom (player_inputs r). mset (queue_of r pid))) fs"
  using collect_frames_spec [OF assms] by (simp add: pending_def)

text \<open>
  The server never sends a frame state: handling an input either sends nothing or locks the
  mutex of the component a second time in \<^verbatim>\<open>broadcast_frame_state\<close>, which happens as soon as, in the
  room of the connection, every player has an input of that frame at the front of its queue.
\<close>

lemma frame_input_deadlock:
  assumes "parse_frame_input data = Some inp"
    and "s1 = fs_submit_input corder s (fi_player inp) inp" and "rid = fs_get_room_id s conn"
  shows "handle_frame_input order corder s conn data =
    (if rid \<noteq> [] \<and> (\<exists>r. fs_rooms s1 rid = Some r \<and> all_inputs_ready order r (fi_frame inp))
     then Inl SelfDeadlock else Inr ([], s1))"
proof -
  have "fs_get_room_id s1 conn = rid"
    using assms(2,3) by (simp add: fs_submit_input_def fs_get_room_id_def Let_def split: option.split)
  then show ?thesis
    using assms by (simp add: handle_frame_input_def broadcast_frame_state_def Let_def split: option.split)
qed

text \<open>Two players with two and one inputs; a room with one player that has just sent its first input.\<close>

definition demo_input :: "32 word \<Rightarrow> 32 word \<Rightarrow> frame_input" where
  "demo_input p f = \<lparr>fi_frame = f, fi_player = p, input_data = [7]\<rparr>"

definition demo_room :: frame_room where
  "demo_room = room_submit_input (room_submit_input (room_submit_input
     (join_player (join_player (frame_room_init [1] 30) 1 100) 2 200) 1 (demo_input 1 0)) 2 (demo_input 2 1))
     1 (demo_input 1 1)"

definition demo_sync :: frame_sync where
  "demo_sync = fs_join_room (fs_create_room (fs_init 30) [1]) 1 [1] 100"

lemmas demo_room_defs = demo_room_def demo_input_def room_submit_input_def join_player_def frame_room_init_def queue_of_def

theorem frame_lockstep_witness:
  "map mset (fst (collect_frames sorted_list_of_set demo_room [0, 1])) =
     [{#demo_input 1 0#}, {#demo_input 1 1, demo_input 2 1#}]"
proof -
  have "ordered_queues demo_room" by (simp add: ordered_queues_def demo_room_defs)
  from frame_lockstep [OF this enumerates_sorted_list, of "[0, 1]"] show ?thesis
    by (simp add: demo_room_defs)
qed

end
