(* ===== verification/StateSync.thy ===== *)
theory StateSync
  imports FrameSync
begin

text \<open>
  State synchronisation: \<^verbatim>\<open>sync/state_sync.h\<close> and \<^verbatim>\<open>sync/state_sync.cpp\<close>. A room stores typed values
  by entity and key and tells the subscribers of an entity about its changes; the component keeps
  the rooms and handles the requests of the clients. A value type is the byte that travels on the
  wire; numbers are stored as the bytes of their representation (floats as their bit patterns).
\<close>

section \<open>Values\<close>

record state_value =
  sv_type :: "8 word"
  sv_bytes :: bytes

definition SV_INT32 :: "8 word" where "SV_INT32 = 0"
definition SV_INT64 :: "8 word" where "SV_INT64 = 1"
definition SV_FLOAT :: "8 word" where "SV_FLOAT = 2"
definition SV_DOUBLE :: "8 word" where "SV_DOUBLE = 3"
definition SV_STRING :: "8 word" where "SV_STRING = 4"
definition SV_BINARY :: "8 word" where "SV_BINARY = 5"

lemmas sv_types = SV_INT32_def SV_INT64_def SV_FLOAT_def SV_DOUBLE_def SV_STRING_def SV_BINARY_def

definition store64 :: "64 word \<Rightarrow> bytes" where
  "store64 v = store32 (ucast v) @ store32 (ucast (drop_bit 32 v))"

definition load64 :: "bytes \<Rightarrow> 64 word" where
  "load64 b = ucast (load32 (b ! 0) (b ! 1) (b ! 2) (b ! 3)) OR
     push_bit 32 (ucast (load32 (b ! 4) (b ! 5) (b ! 6) (b ! 7)))"

definition sv_default :: state_value where
  "sv_default = \<lparr>sv_type = SV_INT32, sv_bytes = []\<rparr>"

definition sv_int32 :: "32 word \<Rightarrow> state_value" where
  "sv_int32 v = \<lparr>sv_type = SV_INT32, sv_bytes = store32 v\<rparr>"

definition sv_int64 :: "64 word \<Rightarrow> state_value" where
  "sv_int64 v = \<lparr>sv_type = SV_INT64, sv_bytes = store64 v\<rparr>"

definition sv_float :: "32 word \<Rightarrow> state_value" where
  "sv_float v = \<lparr>sv_type = SV_FLOAT, sv_bytes = store32 v\<rparr>"

definition sv_double :: "64 word \<Rightarrow> state_value" where
  "sv_double v = \<lparr>sv_type = SV_DOUBLE, sv_bytes = store64 v\<rparr>"

definition sv_string :: "bytes \<Rightarrow> state_value" where
  "sv_string v = \<lparr>sv_type = SV_STRING, sv_bytes = v\<rparr>"

definition sv_binary :: "bytes \<Rightarrow> state_value" where
  "sv_binary v = \<lparr>sv_type = SV_BINARY, sv_bytes = v\<rparr>"

definition as_word32 :: "8 word \<Rightarrow> state_value \<Rightarrow> 32 word" where
  "as_word32 t v = (if sv_type v \<noteq> t \<or> length (sv_bytes v) \<noteq> 4 then 0
     else load32 (sv_bytes v ! 0) (sv_bytes v ! 1) (sv_bytes v ! 2) (sv_bytes v ! 3))"

definition as_word64 :: "8 word \<Rightarrow> state_value \<Rightarrow> 64 word" where
  "as_word64 t v = (if sv_type v \<noteq> t \<or> length (sv_bytes v) \<noteq> 8 then 0 else load64 (sv_bytes v))"

definition as_int32 :: "state_value \<Rightarrow> 32 word" where "as_int32 = as_word32 SV_INT32"
definition as_float :: "state_value \<Rightarrow> 32 word" where "as_float = as_word32 SV_FLOAT"
definition as_int64 :: "state_value \<Rightarrow> 64 word" where "as_int64 = as_word64 SV_INT64"
definition as_double :: "state_value \<Rightarrow> 64 word" where "as_double = as_word64 SV_DOUBLE"

definition as_string :: "state_value \<Rightarrow> bytes" where
  "as_string v = (if sv_type v = SV_STRING then sv_bytes v else [])"

definition as_binary :: "state_value \<Rightarrow> bytes" where
  "as_binary v = (if sv_type v = SV_BINARY then sv_bytes v else [])"

section \<open>StateSyncRoom\<close>

record state_update =
  su_entity :: bytes
  su_key :: bytes
  su_value :: state_value
  su_time :: "64 word"

record state_diff =
  sd_entity :: bytes
  changes :: "(bytes \<times> state_value) list"
  sd_time :: "64 word"

record state_snapshot =
  ss_entity :: bytes
  ss_states :: "bytes \<rightharpoonup> state_value"
  ss_time :: "64 word"

record state_room =
  sr_states :: "bytes \<rightharpoonup> (bytes \<rightharpoonup> state_value)"
  timestamps :: "bytes \<rightharpoonup> 64 word"
  subscribers :: "bytes \<rightharpoonup> nat set"
  connection_map :: "nat set"
  has_diff_callback :: bool
  has_snapshot_callback :: bool

definition state_room_init :: state_room where
  "state_room_init = \<lparr>sr_states = Map.empty, timestamps = Map.empty, subscribers = Map.empty,
     connection_map = {}, has_diff_callback = False, has_snapshot_callback = False\<rparr>"

definition diff_of :: "state_update \<Rightarrow> state_diff" where
  "diff_of u = \<lparr>sd_entity = su_entity u, changes = [(su_key u, su_value u)], sd_time = su_time u\<rparr>"

definition room_update_state ::
    "(nat set \<Rightarrow> nat list) \<Rightarrow> state_room \<Rightarrow> state_update \<Rightarrow> (nat \<times> state_diff) list \<times> state_room" where
  "room_update_state order r u =
     (let ent = (case sr_states r (su_entity u) of None \<Rightarrow> Map.empty | Some m \<Rightarrow> m);
          r' = r\<lparr>sr_states := (sr_states r)(su_entity u \<mapsto> ent(su_key u \<mapsto> su_value u)),
                 timestamps := (timestamps r)(su_entity u \<mapsto> su_time u)\<rparr>;
          diff = diff_of u
      in (if has_diff_callback r
          then (case subscribers r (su_entity u) of
                  None \<Rightarrow> []
                | Some subs \<Rightarrow> map (\<lambda>c. (c, diff)) (filter (\<lambda>c. c \<in> connection_map r) (order subs)))
          else [], r'))"

definition room_query_state :: "state_room \<Rightarrow> bytes \<Rightarrow> bytes \<Rightarrow> state_value option" where
  "room_query_state r eid key = (case sr_states r eid of None \<Rightarrow> None | Some m \<Rightarrow> m key)"

definition room_query_all_states :: "state_room \<Rightarrow> bytes \<Rightarrow> (bytes \<rightharpoonup> state_value) option" where
  "room_query_all_states r eid = sr_states r eid"

text \<open>\<open>junk\<close> is the uninitialised time stamp of a snapshot; \<open>locked\<close> that the caller holds the mutex.\<close>

definition room_create_snapshot_of :: "64 word \<Rightarrow> bool \<Rightarrow> state_room \<Rightarrow> bytes \<Rightarrow> cpp_error + state_snapshot" where
  "room_create_snapshot_of junk locked r eid =
     (if locked then Inl SelfDeadlock
      else Inr \<lparr>ss_entity = eid,
                ss_states = (case sr_states r eid of None \<Rightarrow> Map.empty | Some m \<Rightarrow> m),
                ss_time = (case timestamps r eid of None \<Rightarrow> junk | Some t \<Rightarrow> t)\<rparr>)"

definition room_subscribe ::
    "64 word \<Rightarrow> state_room \<Rightarrow> bytes \<Rightarrow> nat \<Rightarrow> cpp_error + (nat \<times> state_snapshot) list \<times> state_room" where
  "room_subscribe junk r eid conn =
     (let subs = (case subscribers r eid of None \<Rightarrow> {} | Some S \<Rightarrow> S);
          r' = r\<lparr>subscribers := (subscribers r)(eid \<mapsto> insert conn subs),
                 connection_map := insert conn (connection_map r)\<rparr>
      in if has_snapshot_callback r'
         then map_sum id (\<lambda>snap. ([(conn, snap)], r')) (room_create_snapshot_of junk True r' eid)
         else Inr ([], r'))"

definition room_unsubscribe :: "state_room \<Rightarrow> bytes \<Rightarrow> nat \<Rightarrow> state_room" where
  "room_unsubscribe r eid conn =
     (case subscribers r eid of
        None \<Rightarrow> r
      | Some S \<Rightarrow> r\<lparr>subscribers := (subscribers r)(eid \<mapsto> S - {conn})\<rparr>)"

definition set_diff_callback :: "state_room \<Rightarrow> bool \<Rightarrow> state_room" where
  "set_diff_callback r cb = r\<lparr>has_diff_callback := cb\<rparr>"

definition set_snapshot_callback :: "state_room \<Rightarrow> bool \<Rightarrow> state_room" where
  "set_snapshot_callback r cb = r\<lparr>has_snapshot_callback := cb\<rparr>"

definition get_entity_states :: "state_room \<Rightarrow> bytes \<Rightarrow> (bytes \<rightharpoonup> state_value) option" where
  "get_entity_states r eid = sr_states r eid"

definition get_entity_timestamp :: "state_room \<Rightarrow> bytes \<Rightarrow> 64 word option" where
  "get_entity_timestamp r eid = timestamps r eid"

definition get_entity_subscribers :: "state_room \<Rightarrow> bytes \<Rightarrow> nat set" where
  "get_entity_subscribers r eid = (case subscribers r eid of None \<Rightarrow> {} | Some S \<Rightarrow> S)"

section \<open>StateSyncComponent\<close>

definition C2S_STATE_UPDATE :: "16 word" where "C2S_STATE_UPDATE = 0x0201"
definition C2S_STATE_QUERY :: "16 word" where "C2S_STATE_QUERY = 0x0202"
definition C2S_STATE_SUBSCRIBE :: "16 word" where "C2S_STATE_SUBSCRIBE = 0x0203"
definition C2S_STATE_UNSUBSCRIBE :: "16 word" where "C2S_STATE_UNSUBSCRIBE = 0x0204"
definition S2C_STATE_UPDATE :: "16 word" where "S2C_STATE_UPDATE = 0x0205"
definition S2C_STATE_DIFF :: "16 word" where "S2C_STATE_DIFF = 0x0206"
definition S2C_STATE_SNAPSHOT :: "16 word" where "S2C_STATE_SNAPSHOT = 0x0207"

lemmas state_cmds = C2S_STATE_UPDATE_def C2S_STATE_QUERY_def C2S_STATE_SUBSCRIBE_def C2S_STATE_UNSUBSCRIBE_def

record state_sync =
  st_rooms :: "bytes \<rightharpoonup> state_room"
  st_conns :: "nat \<rightharpoonup> bytes"

definition state_sync_init :: state_sync where
  "state_sync_init = \<lparr>st_rooms = Map.empty, st_conns = Map.empty\<rparr>"

definition encode_uint8 :: "8 word \<Rightarrow> bytes" where
  "encode_uint8 v = [v]"

definition decode_uint8 :: "bytes \<Rightarrow> nat \<Rightarrow> (8 word \<times> nat) option" where
  "decode_uint8 data offset = (if length data < offset + 1 then None else Some (data ! offset, offset + 1))"

definition encode_uint64 :: "64 word \<Rightarrow> bytes" where
  "encode_uint64 v = map (\<lambda>i. ucast (drop_bit (i * 8) v AND 0xFF)) [0..<8]"

definition decode_uint64 :: "bytes \<Rightarrow> nat \<Rightarrow> (64 word \<times> nat) option" where
  "decode_uint64 data offset =
     (if length data < offset + 8 then None
      else Some (foldl (\<lambda>v i. v OR push_bit (i * 8) (ucast (data ! (offset + i)))) 0 [0..<8],
                 offset + 8))"

definition encode_state_value :: "state_value \<Rightarrow> bytes" where
  "encode_state_value v = put_be16 (of_nat (length (sv_bytes v))) @ sv_bytes v"

definition encode_change :: "bytes \<times> state_value \<Rightarrow> bytes" where
  "encode_change c = encode_string (fst c) @ [sv_type (snd c)] @ encode_state_value (snd c)"

definition send_state_diff :: "nat \<Rightarrow> state_diff \<Rightarrow> sends" where
  "send_state_diff conn d = send_message conn \<lparr>cmd = S2C_STATE_DIFF,
     body = encode_string (sd_entity d) @ put_be16 (of_nat (length (changes d))) @
            concat (map encode_change (changes d)) @ encode_uint64 (sd_time d)\<rparr>"

definition send_state_snapshot :: "(bytes set \<Rightarrow> bytes list) \<Rightarrow> nat \<Rightarrow> state_snapshot \<Rightarrow> sends" where
  "send_state_snapshot korder conn s = send_message conn \<lparr>cmd = S2C_STATE_SNAPSHOT,
     body = encode_string (ss_entity s) @ put_be16 (of_nat (card (dom (ss_states s)))) @
            concat (map (\<lambda>k. encode_change (k, the (ss_states s k))) (korder (dom (ss_states s)))) @
            encode_uint64 (ss_time s)\<rparr>"

definition st_create_room :: "state_sync \<Rightarrow> bytes \<Rightarrow> state_sync" where
  "st_create_room s rid =
     (if st_rooms s rid \<noteq> None then s
      else s\<lparr>st_rooms := (st_rooms s)(rid \<mapsto>
               set_snapshot_callback (set_diff_callback state_room_init True) True)\<rparr>)"

definition st_destroy_room :: "state_sync \<Rightarrow> bytes \<Rightarrow> state_sync" where
  "st_destroy_room s rid = s\<lparr>st_rooms := (st_rooms s)(rid := None)\<rparr>"

definition st_update_state ::
    "(nat set \<Rightarrow> nat list) \<Rightarrow> state_sync \<Rightarrow> bytes \<Rightarrow> state_update \<Rightarrow> sends \<times> state_sync" where
  "st_update_state order s rid u =
     (case st_rooms s rid of
        None \<Rightarrow> ([], s)
      | Some r \<Rightarrow> let (ds, r') = room_update_state order r u
                 in (concat (map (\<lambda>(c, d). send_state_diff c d) ds), s\<lparr>st_rooms := (st_rooms s)(rid \<mapsto> r')\<rparr>))"

definition st_query_state :: "state_sync \<Rightarrow> bytes \<Rightarrow> bytes \<Rightarrow> bytes \<Rightarrow> state_value option" where
  "st_query_state s rid eid key =
     (case st_rooms s rid of None \<Rightarrow> None | Some r \<Rightarrow> room_query_state r eid key)"

definition st_query_all_states :: "state_sync \<Rightarrow> bytes \<Rightarrow> bytes \<Rightarrow> (bytes \<rightharpoonup> state_value) option" where
  "st_query_all_states s rid eid =
     (case st_rooms s rid of None \<Rightarrow> None | Some r \<Rightarrow> room_query_all_states r eid)"

definition st_create_snapshot :: "64 word \<Rightarrow> state_sync \<Rightarrow> bytes \<Rightarrow> bytes \<Rightarrow> cpp_error + state_snapshot" where
  "st_create_snapshot junk s rid eid =
     (case st_rooms s rid of
        None \<Rightarrow> Inr \<lparr>ss_entity = [], ss_states = Map.empty, ss_time = junk\<rparr>
      | Some r \<Rightarrow> room_create_snapshot_of junk False r eid)"

definition st_get_room_id :: "state_sync \<Rightarrow> nat \<Rightarrow> bytes" where
  "st_get_room_id s conn = (case st_conns s conn of None \<Rightarrow> [] | Some rid \<Rightarrow> rid)"

definition st_on_disconnect :: "state_sync \<Rightarrow> nat \<Rightarrow> state_sync" where
  "st_on_disconnect s conn = s\<lparr>st_conns := (st_conns s)(conn := None)\<rparr>"

definition parse_state_update :: "bytes \<Rightarrow> state_update option" where
  "parse_state_update data =
     (case decode_string data 0 of None \<Rightarrow> None | Some (eid, o1) \<Rightarrow>
     (case decode_string data o1 of None \<Rightarrow> None | Some (key, o2) \<Rightarrow>
     (case decode_uint8 data o2 of None \<Rightarrow> None | Some (t, o3) \<Rightarrow>
     (case decode_bytes data o3 of None \<Rightarrow> None | Some (v, o4) \<Rightarrow>
     (case decode_uint64 data o4 of None \<Rightarrow> None | Some (ts, o5) \<Rightarrow>
        Some \<lparr>su_entity = eid, su_key = key, su_value = \<lparr>sv_type = t, sv_bytes = v\<rparr>, su_time = ts\<rparr>)))))"

definition handle_state_update ::
    "(nat set \<Rightarrow> nat list) \<Rightarrow> state_sync \<Rightarrow> nat \<Rightarrow> bytes \<Rightarrow> cpp_error + sends \<times> state_sync" where
  "handle_state_update order s conn data =
     (case parse_state_update data of
        None \<Rightarrow> Inr ([], s)
      | Some u \<Rightarrow> let rid = st_get_room_id s conn
                 in Inr (if rid \<noteq> [] then st_update_state order s rid u else ([], s)))"

definition handle_state_query :: "state_sync \<Rightarrow> nat \<Rightarrow> bytes \<Rightarrow> cpp_error + sends \<times> state_sync" where
  "handle_state_query s conn data =
     (case decode_string data 0 of None \<Rightarrow> Inr ([], s) | Some (eid, o1) \<Rightarrow>
     (case decode_string data o1 of None \<Rightarrow> Inr ([], s) | Some (key, o2) \<Rightarrow>
        let rid = st_get_room_id s conn
        in if rid = [] then Inr ([], s)
           else case st_query_state s rid eid key of
                  None \<Rightarrow> Inr ([], s)
                | Some v \<Rightarrow> Inr (send_message conn \<lparr>cmd = S2C_STATE_UPDATE,
                    body = encode_string eid @ encode_string key @ encode_uint8 (sv_type v) @
                           encode_bytes (sv_bytes v) @ encode_uint64 0\<rparr>, s)))"

definition handle_state_subscribe ::
    "(bytes set \<Rightarrow> bytes list) \<Rightarrow> 64 word \<Rightarrow> state_sync \<Rightarrow> nat \<Rightarrow> bytes \<Rightarrow> cpp_error + sends \<times> state_sync" where
  "handle_state_subscribe korder junk s conn data =
     (case decode_string data 0 of None \<Rightarrow> Inr ([], s) | Some (eid, o1) \<Rightarrow>
        let rid = st_get_room_id s conn
        in if rid = [] then Inr ([], s)
           else case st_rooms s rid of
                  None \<Rightarrow> Inr ([], s)
                | Some r \<Rightarrow>
                    map_sum id (\<lambda>(snaps, r').
                        (concat (map (\<lambda>(c, snap). send_state_snapshot korder c snap) snaps),
                         s\<lparr>st_rooms := (st_rooms s)(rid \<mapsto> r')\<rparr>))
                      (room_subscribe junk r eid conn))"

definition handle_state_unsubscribe :: "state_sync \<Rightarrow> nat \<Rightarrow> bytes \<Rightarrow> cpp_error + sends \<times> state_sync" where
  "handle_state_unsubscribe s conn data =
     (case decode_string data 0 of None \<Rightarrow> Inr ([], s) | Some (eid, o1) \<Rightarrow>
        let rid = st_get_room_id s conn
        in if rid = [] then Inr ([], s)
           else case st_rooms s rid of
                  None \<Rightarrow> Inr ([], s)
                | Some r \<Rightarrow> Inr ([], s\<lparr>st_rooms := (st_rooms s)(rid \<mapsto> room_unsubscribe r eid conn)\<rparr>))"

text \<open>The handlers as \<^verbatim>\<open>on_register\<close> hooks them into the router.\<close>

definition state_dispatch ::
    "(nat set \<Rightarrow> nat list) \<Rightarrow> (bytes set \<Rightarrow> bytes list) \<Rightarrow> 64 word \<Rightarrow> state_sync \<Rightarrow> nat \<Rightarrow> message \<Rightarrow>
     cpp_error + sends \<times> state_sync" where
  "state_dispatch order korder junk s conn msg =
     (if cmd msg = C2S_STATE_UPDATE then handle_state_update order s conn (body msg)
      else if cmd msg = C2S_STATE_QUERY then handle_state_query s conn (body msg)
      else if cmd msg = C2S_STATE_SUBSCRIBE then handle_state_subscribe korder junk s conn (body msg)
      else if cmd msg = C2S_STATE_UNSUBSCRIBE then handle_state_unsubscribe s conn (body msg)
      else Inr ([], s))"

section \<open>Values keep what they were made from\<close>

lemma load_store64: "load64 (store64 v) = v"
proof (rule bit_word_eqI)
  fix n :: nat assume n: "n < LENGTH(64)"
  have "load64 (store64 v) = ucast (ucast v :: 32 word) OR push_bit 32 (ucast (ucast (drop_bit 32 v) :: 32 word))"
    by (simp add: load64_def store64_def store32_def)
  also have "bit \<dots> n = bit v n" using n by (cases "n < 32") (auto simp: bit_simps)
  finally show "bit (load64 (store64 v)) n = bit v n" .
qed

lemma state_value_roundtrip:
  "as_int32 (sv_int32 a) = a" "as_float (sv_float a) = a" "as_int64 (sv_int64 b) = b"
  "as_double (sv_double b) = b" "as_string (sv_string c) = c" "as_binary (sv_binary c) = c"
  by (simp_all add: as_int32_def as_float_def as_int64_def as_double_def as_word32_def as_word64_def
      sv_int32_def sv_float_def sv_int64_def sv_double_def as_string_def sv_string_def as_binary_def sv_binary_def
      load_store64) (simp_all add: store32_def store64_def)

section \<open>The room\<close>

datatype room_op = Update state_update | Subscribe bytes nat | Unsubscribe bytes nat

definition room_step ::
    "(nat set \<Rightarrow> nat list) \<Rightarrow> 64 word \<Rightarrow> state_room \<Rightarrow> room_op \<Rightarrow> cpp_error + state_room" where
  "room_step order junk r op = (case op of
     Update u \<Rightarrow> Inr (snd (room_update_state order r u))
   | Subscribe eid conn \<Rightarrow> map_sum id snd (room_subscribe junk r eid conn)
   | Unsubscribe eid conn \<Rightarrow> Inr (room_unsubscribe r eid conn))"

primrec room_run ::
    "(nat set \<Rightarrow> nat list) \<Rightarrow> 64 word \<Rightarrow> state_room \<Rightarrow> room_op list \<Rightarrow> cpp_error + state_room" where
  "room_run order junk r [] = Inr r"
| "room_run order junk r (op # ops) =
     (case room_step order junk r op of Inl err \<Rightarrow> Inl err | Inr r' \<Rightarrow> room_run order junk r' ops)"

text \<open>The reference: who is subscribed to what, and the last value of every key.\<close>

fun ref_step :: "(bytes \<times> nat) set \<times> (bytes \<times> bytes \<rightharpoonup> state_value) \<Rightarrow> room_op \<Rightarrow>
    (bytes \<times> nat) set \<times> (bytes \<times> bytes \<rightharpoonup> state_value)" where
  "ref_step (S, V) (Update u) = (S, V((su_entity u, su_key u) \<mapsto> su_value u))"
| "ref_step (S, V) (Subscribe eid conn) = (insert (eid, conn) S, V)"
| "ref_step (S, V) (Unsubscribe eid conn) = (S - {(eid, conn)}, V)"

definition room_abs :: "state_room \<Rightarrow> (bytes \<times> nat) set \<times> (bytes \<times> bytes \<rightharpoonup> state_value)" where
  "room_abs r = ({(eid, c). c \<in> get_entity_subscribers r eid}, \<lambda>(eid, key). room_query_state r eid key)"

definition room_inv :: "state_room \<Rightarrow> bool" where
  "room_inv r \<longleftrightarrow> has_diff_callback r \<and>
     (\<forall>eid. finite (get_entity_subscribers r eid) \<and> get_entity_subscribers r eid \<subseteq> connection_map r)"

text \<open>With the snapshot callback set a subscription takes the mutex twice, so such runs leave it out.\<close>

fun is_subscribe :: "room_op \<Rightarrow> bool" where
  "is_subscribe (Subscribe eid conn) = True"
| "is_subscribe _ = False"

lemmas room_defs = room_step_def room_update_state_def room_subscribe_def room_unsubscribe_def
  get_entity_subscribers_def room_query_state_def

text \<open>What the three operations do to the two views of the room.\<close>

lemma room_update_view:
  "get_entity_subscribers (snd (room_update_state order r u)) eid = get_entity_subscribers r eid"
  "room_query_state (snd (room_update_state order r u)) eid key =
     (if eid = su_entity u \<and> key = su_key u then Some (su_value u) else room_query_state r eid key)"
  by (auto simp: room_defs Let_def split: option.split)

lemma room_subscribe_view:
  "\<not> has_snapshot_callback r \<Longrightarrow> \<exists>r'. room_subscribe junk r eid conn = Inr ([], r') \<and>
     get_entity_subscribers r' = (get_entity_subscribers r)(eid := insert conn (get_entity_subscribers r eid)) \<and>
     room_query_state r' = room_query_state r \<and> connection_map r' = insert conn (connection_map r) \<and>
     has_diff_callback r' = has_diff_callback r \<and> \<not> has_snapshot_callback r'"
  by (auto simp: room_defs Let_def fun_eq_iff)

lemma room_unsubscribe_view:
  "get_entity_subscribers (room_unsubscribe r eid conn) =
     (get_entity_subscribers r)(eid := get_entity_subscribers r eid - {conn})"
  "room_query_state (room_unsubscribe r eid conn) = room_query_state r"
  by (auto simp: room_defs fun_eq_iff split: option.split)

lemma room_step_refines:
  assumes "room_inv r" and "has_snapshot_callback r \<longrightarrow> \<not> is_subscribe op"
  shows "\<exists>r'. room_step order junk r op = Inr r' \<and> room_inv r' \<and> room_abs r' = ref_step (room_abs r) op \<and>
    has_snapshot_callback r' = has_snapshot_callback r"
proof (cases op)
  case (Update u)
  have "room_inv (snd (room_update_state order r u))"
    using assms(1) by (simp add: room_inv_def room_update_view) (simp add: room_update_state_def Let_def)
  moreover have "has_snapshot_callback (snd (room_update_state order r u)) = has_snapshot_callback r"
    by (simp add: room_update_state_def Let_def)
  ultimately show ?thesis by (auto simp: Update room_step_def room_abs_def room_update_view fun_eq_iff)
next
  case (Subscribe eid conn)
  obtain r' where r': "room_subscribe junk r eid conn = Inr ([], r')"
    "get_entity_subscribers r' = (get_entity_subscribers r)(eid := insert conn (get_entity_subscribers r eid))"
    "room_query_state r' = room_query_state r" "connection_map r' = insert conn (connection_map r)"
    "has_diff_callback r'" "\<not> has_snapshot_callback r'"
    using room_subscribe_view [of r junk eid conn] assms Subscribe by (auto simp: room_inv_def)
  have "room_inv r'" using assms(1) by (auto simp: room_inv_def r')
  moreover have "room_abs r' = ref_step (room_abs r) op"
    by (auto simp: Subscribe room_abs_def r'(2,3) split: if_splits)
  ultimately show ?thesis using r'(1,6) assms(2) by (simp add: Subscribe room_step_def)
next
  case (Unsubscribe eid conn)
  have "room_inv (room_unsubscribe r eid conn)"
    using assms(1) by (auto simp: room_inv_def room_unsubscribe_view) (auto simp: room_unsubscribe_def split: option.splits)
  moreover have "has_snapshot_callback (room_unsubscribe r eid conn) = has_snapshot_callback r"
    by (simp add: room_unsubscribe_def split: option.split)
  ultimately show ?thesis by (auto simp: Unsubscribe room_step_def room_abs_def room_unsubscribe_view split: if_splits)
qed

lemma room_run_refines:
  "room_inv r \<Longrightarrow> has_snapshot_callback r \<longrightarrow> \<not> list_ex is_subscribe ops \<Longrightarrow>
     \<exists>r'. room_run order junk r ops = Inr r' \<and> room_inv r' \<and> room_abs r' = foldl ref_step (room_abs r) ops"
proof (induction ops arbitrary: r)
  case (Cons op ops)
  obtain r1 where "room_step order junk r op = Inr r1" "room_inv r1" "room_abs r1 = ref_step (room_abs r) op"
      "has_snapshot_callback r1 = has_snapshot_callback r"
    using room_step_refines [of r op] Cons.prems by auto
  then show ?case using Cons.IH [of r1] Cons.prems(2) by simp
qed simp

lemma update_notifies:
  assumes "room_inv r" and "enumerates order"
  shows "distinct (fst (room_update_state order r u)) \<and>
    set (fst (room_update_state order r u)) =
      (\<lambda>c. (c, diff_of u)) ` get_entity_subscribers r (su_entity u)"
proof (cases "subscribers r (su_entity u)")
  case None
  then have "get_entity_subscribers r (su_entity u) = {}" by (simp add: get_entity_subscribers_def)
  moreover have "fst (room_update_state order r u) = []"
    unfolding room_update_state_def Let_def fst_conv None by (simp only: option.case if_cancel)
  ultimately show ?thesis by (simp only: list.set distinct.simps image_empty simp_thms)
next
  case (Some subs)
  then have "finite subs" "subs \<subseteq> connection_map r" "has_diff_callback r"
    using assms(1) by (auto simp: room_inv_def get_entity_subscribers_def split: option.splits)
  then show ?thesis using Some assms(2)
    unfolding room_update_state_def Let_def fst_conv get_entity_subscribers_def
    by (auto simp: enumerates_def distinct_map inj_on_def)
qed

text \<open>The room takes its own mutex twice when a snapshot is to be sent.\<close>

lemma subscribe_self_deadlock:
  "has_snapshot_callback r \<Longrightarrow> room_subscribe junk r eid conn = Inl SelfDeadlock"
  by (simp add: room_subscribe_def room_create_snapshot_of_def Let_def)

section \<open>The component\<close>

inductive state_reachable :: "(nat set \<Rightarrow> nat list) \<Rightarrow> (bytes set \<Rightarrow> bytes list) \<Rightarrow> 64 word \<Rightarrow> state_sync \<Rightarrow> bool"
  for order :: "nat set \<Rightarrow> nat list" and korder :: "bytes set \<Rightarrow> bytes list" and junk :: "64 word" where
  init: "state_reachable order korder junk state_sync_init"
| create: "state_reachable order korder junk s \<Longrightarrow> state_reachable order korder junk (st_create_room s rid)"
| destroy: "state_reachable order korder junk s \<Longrightarrow> state_reachable order korder junk (st_destroy_room s rid)"
| update: "state_reachable order korder junk s \<Longrightarrow> st_update_state order s rid u = (out, s') \<Longrightarrow> state_reachable order korder junk s'"
| message: "state_reachable order korder junk s \<Longrightarrow> state_dispatch order korder junk s conn msg = Inr (out, s') \<Longrightarrow>
     state_reachable order korder junk s'"
| disconnect: "state_reachable order korder junk s \<Longrightarrow> state_reachable order korder junk (st_on_disconnect s conn)"

lemma dispatch_without_connections:
  "st_conns s = Map.empty \<Longrightarrow> state_dispatch order korder junk s conn msg = Inr ([], s)"
  by (auto simp: state_dispatch_def handle_state_update_def handle_state_query_def handle_state_subscribe_def
      handle_state_unsubscribe_def st_get_room_id_def Let_def split: option.split)

lemma no_connection_recorded: "state_reachable order korder junk s \<Longrightarrow> st_conns s = Map.empty"
proof (induction rule: state_reachable.induct)
  case (update s rid u out s')
  then show ?case by (auto simp: st_update_state_def split_beta split: option.splits)
next
  case (message s conn msg out s')
  then show ?case by (simp add: dispatch_without_connections)
qed (simp_all add: state_sync_init_def st_create_room_def st_destroy_room_def st_on_disconnect_def)

section \<open>Properties\<close>

text \<open>
  C25. A room refines its specification: after any updates, subscriptions and cancellations, a
  query returns the last value written under the key, a snapshot of an entity has exactly these
  values, and an update sends exactly one diff with the change to every connection subscribed to the
  entity and to nobody else. This holds for a room without the snapshot callback, and for one
  with it, as the component creates them, in runs without subscriptions (there a subscription deadlocks).
\<close>

theorem state_room_refines:
  assumes "enumerates order" and "\<not> snap \<or> \<not> list_ex is_subscribe ops"
  shows "\<exists>r. room_run order junk (set_snapshot_callback (set_diff_callback state_room_init True) snap) ops = Inr r \<and>
    (\<forall>eid key. room_query_state r eid key = snd (foldl ref_step ({}, Map.empty) ops) (eid, key)) \<and>
    (\<forall>eid. \<exists>s. room_create_snapshot_of junk False r eid = Inr s \<and> ss_entity s = eid \<and>
       (\<forall>key. ss_states s key = snd (foldl ref_step ({}, Map.empty) ops) (eid, key))) \<and>
    (\<forall>u. distinct (fst (room_update_state order r u)) \<and>
       set (fst (room_update_state order r u)) =
         (\<lambda>c. (c, diff_of u)) ` {c. (su_entity u, c) \<in> fst (foldl ref_step ({}, Map.empty) ops)})"
proof -
  let ?r0 = "set_snapshot_callback (set_diff_callback state_room_init True) snap"
  have i: "room_inv ?r0" "room_abs ?r0 = ({}, Map.empty)" "has_snapshot_callback ?r0 = snap"
    by (auto simp: room_inv_def room_abs_def set_diff_callback_def set_snapshot_callback_def state_room_init_def
        get_entity_subscribers_def room_query_state_def)
  obtain r where r: "room_run order junk ?r0 ops = Inr r" "room_inv r" "room_abs r = foldl ref_step ({}, Map.empty) ops"
    using room_run_refines [OF i(1), of ops order junk] i(2,3) assms(2) by auto
  have a: "(eid, c) \<in> fst (foldl ref_step ({}, Map.empty) ops) \<longleftrightarrow> c \<in> get_entity_subscribers r eid"
    "snd (foldl ref_step ({}, Map.empty) ops) (eid, key) = room_query_state r eid key" for eid c key
    unfolding r(3) [symmetric] by (simp_all add: room_abs_def)
  have "\<exists>s. room_create_snapshot_of junk False r eid = Inr s \<and> ss_entity s = eid \<and> (\<forall>key. ss_states s key = room_query_state r eid key)" for eid
    by (simp add: room_create_snapshot_of_def room_query_state_def split: option.split)
  then show ?thesis using r(1) update_notifies [OF r(2) assms(1)] by (simp add: a)
qed

text \<open>
  The component never records which room a connection is in, so in every reachable state
  every client message is ignored: nothing is sent and nothing changes.
\<close>

lemma state_sync_ignores_messages:
  assumes "state_reachable order korder junk s"
  shows "state_dispatch order korder junk s conn msg = Inr ([], s)"
  by (rule dispatch_without_connections [OF no_connection_recorded [OF assms]])

theorem state_room_refines_witness:
  "\<exists>r. room_run sorted_list_of_set 0 (set_snapshot_callback (set_diff_callback state_room_init True) False)
      [Subscribe [1] 10, Subscribe [1] 11, Update \<lparr>su_entity = [1], su_key = [2], su_value = sv_int32 5, su_time = 9\<rparr>,
       Unsubscribe [1] 10] = Inr r \<and>
    room_query_state r [1] [2] = Some (sv_int32 5) \<and>
    set (fst (room_update_state sorted_list_of_set r \<lparr>su_entity = [1], su_key = [2], su_value = sv_int32 6, su_time = 10\<rparr>)) =
      {(11, \<lparr>sd_entity = [1], changes = [([2], sv_int32 6)], sd_time = 10\<rparr>)}"
  using state_room_refines [OF enumerates_sorted_list, of False
      "[Subscribe [1] 10, Subscribe [1] 11, Update \<lparr>su_entity = [1], su_key = [2], su_value = sv_int32 5, su_time = 9\<rparr>,
        Unsubscribe [1] 10]" 0]
  by (auto simp: diff_of_def)

end
