(* ===== verification/Document.thy ===== *)
theory Document
  imports Chwell_Prelude
begin

text \<open>
  \<^verbatim>\<open>storage/orm/document.cpp\<close>: a document is a map from field names to texts, printed as one
  \<^verbatim>\<open>key=value\<close> line per field (the build without yaml-cpp), and read back. \<^verbatim>\<open>std::map\<close> iterates in
  the order of the keys. Numbers are stored as decimal text: \<open>to_string_int\<close> and \<open>strtoll\<close> are the
  functions of the C++ library; floating-point text conversion is a parameter.
\<close>

type_synonym document = "string \<rightharpoonup> string"

section \<open>Decimal text\<close>

definition digit :: "nat \<Rightarrow> char" where
  "digit n = char_of (48 + n)"

fun dec :: "nat \<Rightarrow> string" where
  "dec n = (if n < 10 then [digit n] else dec (n div 10) @ [digit (n mod 10)])"

declare dec.simps [simp del]

definition to_string_int :: "int \<Rightarrow> string" where
  "to_string_int v = (if v < 0 then CHR ''-'' # dec (nat (- v)) else dec (nat v))"

definition is_digit :: "char \<Rightarrow> bool" where
  "is_digit c \<longleftrightarrow> 48 \<le> (of_char c :: nat) \<and> (of_char c :: nat) \<le> 57"

definition is_space :: "char \<Rightarrow> bool" where
  "is_space c \<longleftrightarrow> (of_char c :: nat) = 32 \<or> 9 \<le> (of_char c :: nat) \<and> (of_char c :: nat) \<le> 13"

definition digits_value :: "string \<Rightarrow> nat" where
  "digits_value s = foldl (\<lambda>n c. n * 10 + (of_char c - 48)) 0 (takeWhile is_digit s)"

text \<open>\<^verbatim>\<open>strtoll(s, nullptr, 10)\<close>: blanks, a sign, the longest run of digits, clamped to 64 bits.\<close>

definition strtoll :: "string \<Rightarrow> int" where
  "strtoll s =
     (let t = dropWhile is_space s;
          v = (case t of
                 [] \<Rightarrow> 0
               | c # cs \<Rightarrow> if c = CHR ''-'' then - int (digits_value cs)
                          else if c = CHR ''+'' then int (digits_value cs)
                          else int (digits_value t))
      in max (- (2 ^ 63)) (min (2 ^ 63 - 1) v))"

section \<open>Fields\<close>

definition get_string :: "document \<Rightarrow> string \<Rightarrow> string \<Rightarrow> string" where
  "get_string d key default_val = (case d key of None \<Rightarrow> default_val | Some v \<Rightarrow> v)"

definition get_int64 :: "document \<Rightarrow> string \<Rightarrow> int \<Rightarrow> int" where
  "get_int64 d key default_val = (case d key of None \<Rightarrow> default_val | Some v \<Rightarrow> strtoll v)"

text \<open>The cast to a 32-bit \<^verbatim>\<open>int\<close> keeps the low bits.\<close>

definition get_int :: "document \<Rightarrow> string \<Rightarrow> int \<Rightarrow> int" where
  "get_int d key default_val = sint (word_of_int (get_int64 d key default_val) :: 32 word)"

definition get_double :: "(string \<Rightarrow> 'r) \<Rightarrow> document \<Rightarrow> string \<Rightarrow> 'r \<Rightarrow> 'r" where
  "get_double strtod d key default_val = (case d key of None \<Rightarrow> default_val | Some v \<Rightarrow> strtod v)"

definition get_bool :: "document \<Rightarrow> string \<Rightarrow> bool \<Rightarrow> bool" where
  "get_bool d key default_val =
     (case d key of
        None \<Rightarrow> default_val
      | Some v \<Rightarrow>
          if v = ''1'' \<or> v = ''true'' \<or> v = ''yes'' then True
          else if v = ''0'' \<or> v = ''false'' \<or> v = ''no'' then False
          else default_val)"

definition set_string :: "document \<Rightarrow> string \<Rightarrow> string \<Rightarrow> document" where
  "set_string d key v = d(key \<mapsto> v)"

definition set_int64 :: "document \<Rightarrow> string \<Rightarrow> int \<Rightarrow> document" where
  "set_int64 d key v = d(key \<mapsto> to_string_int v)"

definition set_int :: "document \<Rightarrow> string \<Rightarrow> int \<Rightarrow> document" where
  "set_int d key v = d(key \<mapsto> to_string_int v)"

definition set_double :: "('r \<Rightarrow> string) \<Rightarrow> document \<Rightarrow> string \<Rightarrow> 'r \<Rightarrow> document" where
  "set_double fmt d key v = d(key \<mapsto> fmt v)"

definition set_bool :: "document \<Rightarrow> string \<Rightarrow> bool \<Rightarrow> document" where
  "set_bool d key v = d(key \<mapsto> (if v then ''1'' else ''0''))"

definition has_field :: "document \<Rightarrow> string \<Rightarrow> bool" where
  "has_field d key \<longleftrightarrow> d key \<noteq> None"

definition clear_document :: "document \<Rightarrow> document" where
  "clear_document d = Map.empty"

section \<open>Text form\<close>

definition backslash :: char where "backslash = CHR 0x5C"
definition newline :: char where "newline = CHR 0x0A"

fun escape :: "string \<Rightarrow> string" where
  "escape [] = []"
| "escape (c # s) =
     (if c = backslash then [backslash, backslash]
      else if c = newline then [backslash, CHR ''n'']
      else if c = CHR ''='' then [backslash, CHR ''='']
      else [c]) @ escape s"

fun unescape :: "string \<Rightarrow> string" where
  "unescape [] = []"
| "unescape [c] = [c]"
| "unescape (c # c' # s) =
     (if c = backslash
      then (if c' = CHR ''n'' then newline
            else if c' = CHR ''='' then CHR ''=''
            else if c' = backslash then backslash
            else c') # unescape s
      else c # unescape (c' # s))"

definition doc_line :: "string \<Rightarrow> string \<Rightarrow> string" where
  "doc_line key v = escape key @ ''='' @ escape v @ [newline]"

definition doc_to_string :: "document \<Rightarrow> string" where
  "doc_to_string d = concat (map (\<lambda>k. doc_line k (the (d k))) (sorted_list_of_set (dom d)))"

definition end_line :: "string \<Rightarrow> string \<Rightarrow> bool \<Rightarrow> document \<Rightarrow> document" where
  "end_line key cur in_key d = (if \<not> in_key \<and> key \<noteq> [] then d(unescape key \<mapsto> unescape cur) else d)"

text \<open>The character loop of \<^verbatim>\<open>from_string\<close>; past the end it sees one more line end.\<close>

fun parse_doc :: "string \<Rightarrow> string \<Rightarrow> string \<Rightarrow> bool \<Rightarrow> document \<Rightarrow> document" where
  "parse_doc [] key cur in_key d = end_line key cur in_key d"
| "parse_doc (c # cs) key cur in_key d =
     (if c = newline then parse_doc cs [] [] True (end_line key cur in_key d)
      else if c = CHR ''='' \<and> in_key then parse_doc cs cur [] False d
      else if c = backslash \<and> cs \<noteq> [] then parse_doc (tl cs) key (cur @ [backslash, hd cs]) in_key d
      else parse_doc cs key (cur @ [c]) in_key d)"

definition doc_from_string :: "string \<Rightarrow> bool \<times> document" where
  "doc_from_string s = (True, parse_doc s [] [] True Map.empty)"

section \<open>Numbers survive the text form\<close>

lemma of_char_digit: "n < 10 \<Longrightarrow> (of_char (digit n) :: nat) = 48 + n"
  by (simp add: digit_def)

lemma dec_digits: "c \<in> set (dec n) \<Longrightarrow> is_digit c"
  by (induction n rule: dec.induct, subst (asm) dec.simps)
    (auto simp: is_digit_def of_char_digit split: if_splits)

lemma dec_value: "foldl (\<lambda>n c. n * 10 + (of_char c - 48)) 0 (dec n) = n"
proof (induction n rule: dec.induct)
  case (1 n)
  show ?case
  proof (cases "n < 10")
    case True
    then show ?thesis by (subst dec.simps) (simp add: of_char_digit)
  next
    case False
    then show ?thesis using 1 by (subst dec.simps) (simp add: of_char_digit)
  qed
qed

lemma digits_value_dec: "digits_value (dec n) = n"
proof -
  have "takeWhile is_digit (dec n) = dec n" using dec_digits by (simp add: takeWhile_eq_all_conv)
  then show ?thesis unfolding digits_value_def by (simp only: dec_value)
qed

lemma dec_nonempty: "dec n \<noteq> []"
  by (subst dec.simps) simp

lemma digit_chars: "is_digit c \<Longrightarrow> \<not> is_space c \<and> c \<noteq> CHR ''-'' \<and> c \<noteq> CHR ''+''"
  by (auto simp: is_digit_def is_space_def)

lemma strtoll_to_string_int:
  assumes "- (2 ^ 63) \<le> v" and "v < 2 ^ 63"
  shows "strtoll (to_string_int v) = v"
proof (cases "v < 0")
  case True
  have "\<not> is_space (CHR ''-'')" by (simp add: is_space_def)
  then show ?thesis using True assms by (simp add: strtoll_def to_string_int_def digits_value_dec)
next
  case False
  obtain c cs where c: "dec (nat v) = c # cs" using dec_nonempty [of "nat v"] by (cases "dec (nat v)") auto
  then have "is_digit c" using dec_digits [of c "nat v"] by simp
  then have "dropWhile is_space (dec (nat v)) = dec (nat v)" "c \<noteq> CHR ''-''" "c \<noteq> CHR ''+''"
    using digit_chars [of c] c by auto
  then show ?thesis using False assms digits_value_dec [of "nat v"]
    by (simp add: strtoll_def to_string_int_def c)
qed

lemma int_field_roundtrip:
  "- (2 ^ 63) \<le> v \<Longrightarrow> v < 2 ^ 63 \<Longrightarrow> get_int64 (set_int64 d k v) k e = v"
  by (simp add: get_int64_def set_int64_def strtoll_to_string_int)

lemma bool_field_roundtrip: "get_bool (set_bool d k b) k e = b"
  by (simp add: get_bool_def set_bool_def)

section \<open>Documents survive the text form\<close>

lemma special_chars [simp]:
  "backslash \<noteq> newline" "newline \<noteq> backslash" "backslash \<noteq> CHR ''=''" "newline \<noteq> CHR ''=''"
  "CHR ''='' \<noteq> backslash" "CHR ''='' \<noteq> newline" "CHR ''n'' \<noteq> backslash" "backslash \<noteq> CHR ''n''" "CHR ''n'' \<noteq> newline"
  by (simp_all add: backslash_def newline_def)

lemma unescape_cons: "c \<noteq> backslash \<Longrightarrow> unescape (c # s) = c # unescape s"
  by (cases s) auto

lemma unescape_escape [simp]: "unescape (escape s) = s"
  by (induction s) (auto simp: unescape_cons)

lemma escape_empty [simp]: "escape s = [] \<longleftrightarrow> s = []"
  by (cases s) auto

lemma parse_doc_escape:
  "parse_doc (escape s @ rest) key cur in_key d = parse_doc rest key (cur @ escape s) in_key d"
  by (induction s arbitrary: cur) auto

lemma parse_doc_line:
  "parse_doc (doc_line k v @ rest) [] [] True d =
     parse_doc rest [] [] True (if k = [] then d else d(k \<mapsto> v))"
  by (simp add: doc_line_def parse_doc_escape end_line_def)

lemma parse_doc_lines:
  "parse_doc (concat (map (\<lambda>k. doc_line k (f k)) ks)) [] [] True d =
     foldl (\<lambda>d k. if k = [] then d else d(k \<mapsto> f k)) d ks"
proof (induction ks arbitrary: d)
  case Nil
  then show ?case by (simp add: end_line_def)
next
  case (Cons k ks)
  then show ?case by (simp add: parse_doc_line)
qed

lemma foldl_upd:
  "foldl (\<lambda>d k. if k = [] then d else d(k \<mapsto> f k)) d ks x =
     (if x \<in> set ks \<and> x \<noteq> [] then Some (f x) else d x)"
  by (induction ks arbitrary: d) auto

lemma doc_parse_print:
  assumes "finite (dom d)"
  shows "doc_from_string (doc_to_string d) = (True, d([] := None))"
proof -
  have "parse_doc (doc_to_string d) [] [] True Map.empty = d([] := None)"
    unfolding doc_to_string_def parse_doc_lines using assms
    by (intro ext) (auto simp: foldl_upd domIff)
  then show ?thesis by (simp add: doc_from_string_def)
qed

section \<open>Properties\<close>

text \<open>
  C28. Printing a document and reading it back gives the same fields, whatever characters keys
  and values contain (line ends, equal signs and backslashes included), except that a field with
  the empty name is lost; and 64-bit integers and booleans put into a field are read back
  unchanged.
\<close>

theorem document_roundtrip:
  assumes "finite (dom d)" and "- (2 ^ 63) \<le> v" and "v < 2 ^ 63" and "k \<noteq> []"
  shows "doc_from_string (doc_to_string d) = (True, d([] := None)) \<and>
    get_int64 (snd (doc_from_string (doc_to_string (set_int64 d k v)))) k e = v \<and>
    get_bool (snd (doc_from_string (doc_to_string (set_bool d k b)))) k e' = b"
proof -
  have "finite (dom (set_int64 d k v))" "finite (dom (set_bool d k b))"
    using assms(1) by (simp_all add: set_int64_def set_bool_def)
  then show ?thesis
    using assms doc_parse_print int_field_roundtrip [of v d k e] bool_field_roundtrip [of d k b e']
    by (simp add: get_int64_def get_bool_def)
qed

theorem document_roundtrip_witness:
  "get_int64 (snd (doc_from_string (doc_to_string (set_int64 [''a=b'' \<mapsto> [newline]] ''level'' (- 42))))) ''level'' 0 = - 42"
  using document_roundtrip [of "[''a=b'' \<mapsto> [newline]]" "- 42" "''level''" 0] by simp

end
