(* ===== verification/Storage.thy ===== *)
theory Storage
  imports Document "HOL-Library.Multiset" "HOL-Library.Sublist"
begin

text \<open>
  \<^verbatim>\<open>storage/storage_interface.h\<close>, \<^verbatim>\<open>storage/memory_storage.cpp\<close> and \<^verbatim>\<open>storage/orm/repository.h\<close>: the
  key-value interface as a record of its virtual functions, the in-memory back end, and
  repositories that store entities as documents through the interface. \<open>now\<close> is the clock in
  seconds at the call; \<open>order\<close> the order in which the hash map is walked.
\<close>

section \<open>Results and the interface\<close>

record storage_result =
  res_ok :: bool
  error_msg :: string
  res_value :: string

definition success :: "string \<Rightarrow> storage_result" where
  "success v = \<lparr>res_ok = True, error_msg = [], res_value = v\<rparr>"

definition failure :: "string \<Rightarrow> storage_result" where
  "failure msg = \<lparr>res_ok = False, error_msg = msg, res_value = []\<rparr>"

record storage_document =
  sdoc_key :: string
  sdoc_value :: string
  sdoc_expire_at :: int

record 'st storage_interface =
  s_get :: "int \<Rightarrow> 'st \<Rightarrow> string \<Rightarrow> storage_result \<times> 'st"
  s_put :: "int \<Rightarrow> 'st \<Rightarrow> string \<Rightarrow> string \<Rightarrow> int \<Rightarrow> storage_result \<times> 'st"
  s_remove :: "int \<Rightarrow> 'st \<Rightarrow> string \<Rightarrow> storage_result \<times> 'st"
  s_exists :: "int \<Rightarrow> 'st \<Rightarrow> string \<Rightarrow> bool \<times> 'st"
  s_keys :: "int \<Rightarrow> 'st \<Rightarrow> string \<Rightarrow> string list \<times> 'st"
  s_mget :: "int \<Rightarrow> 'st \<Rightarrow> string list \<Rightarrow> storage_result list \<times> 'st"

text \<open>\<^verbatim>\<open>put(const StorageDocument&)\<close>, and the default batch operations of the interface.\<close>

definition put_document ::
    "'st storage_interface \<Rightarrow> int \<Rightarrow> 'st \<Rightarrow> storage_document \<Rightarrow> storage_result \<times> 'st" where
  "put_document S now st doc = s_put S now st (sdoc_key doc) (sdoc_value doc) (sdoc_expire_at doc)"

fun default_mget :: "'st storage_interface \<Rightarrow> int \<Rightarrow> 'st \<Rightarrow> string list \<Rightarrow> storage_result list \<times> 'st" where
  "default_mget S now st [] = ([], st)"
| "default_mget S now st (k # ks) =
     (let (r, st1) = s_get S now st k; (rs, st2) = default_mget S now st1 ks in (r # rs, st2))"

fun default_mput :: "'st storage_interface \<Rightarrow> int \<Rightarrow> 'st \<Rightarrow> storage_document list \<Rightarrow> storage_result \<times> 'st" where
  "default_mput S now st [] = (success [], st)"
| "default_mput S now st (doc # docs) =
     (let (r, st1) = put_document S now st doc
      in if \<not> res_ok r then (r, st1) else default_mput S now st1 docs)"

section \<open>MemoryStorage\<close>

record mem_entry =
  me_value :: string
  me_expire_at :: int

type_synonym mem = "string \<rightharpoonup> mem_entry"

definition prune_expired :: "int \<Rightarrow> mem \<Rightarrow> mem" where
  "prune_expired now m k = (case m k of
     None \<Rightarrow> None
   | Some e \<Rightarrow> if 0 < me_expire_at e \<and> me_expire_at e < now then None else Some e)"

definition mem_result :: "mem \<Rightarrow> string \<Rightarrow> storage_result" where
  "mem_result m k = (case m k of None \<Rightarrow> failure ''key not found'' | Some e \<Rightarrow> success (me_value e))"

definition mem_get :: "int \<Rightarrow> mem \<Rightarrow> string \<Rightarrow> storage_result \<times> mem" where
  "mem_get now m k = (let m' = prune_expired now m in (mem_result m' k, m'))"

definition mem_put :: "int \<Rightarrow> mem \<Rightarrow> string \<Rightarrow> string \<Rightarrow> int \<Rightarrow> storage_result \<times> mem" where
  "mem_put now m k v e = (success [], m(k \<mapsto> \<lparr>me_value = v, me_expire_at = e\<rparr>))"

definition mem_remove :: "int \<Rightarrow> mem \<Rightarrow> string \<Rightarrow> storage_result \<times> mem" where
  "mem_remove now m k =
     (case m k of None \<Rightarrow> (failure ''key not found'', m) | Some e \<Rightarrow> (success [], m(k := None)))"

definition mem_exists :: "int \<Rightarrow> mem \<Rightarrow> string \<Rightarrow> bool \<times> mem" where
  "mem_exists now m k = (let m' = prune_expired now m in (m' k \<noteq> None, m'))"

definition mem_keys :: "(string set \<Rightarrow> string list) \<Rightarrow> int \<Rightarrow> mem \<Rightarrow> string \<Rightarrow> string list \<times> mem" where
  "mem_keys order now m p =
     (let m' = prune_expired now m
      in (filter (\<lambda>k. p = [] \<or> take (length p) k = p) (order (dom m')), m'))"

definition mem_mget :: "int \<Rightarrow> mem \<Rightarrow> string list \<Rightarrow> storage_result list \<times> mem" where
  "mem_mget now m ks = (let m' = prune_expired now m in (map (mem_result m') ks, m'))"

definition mem_mput :: "mem \<Rightarrow> storage_document list \<Rightarrow> storage_result \<times> mem" where
  "mem_mput m docs =
     (success [], foldl (\<lambda>m d. m(sdoc_key d \<mapsto> \<lparr>me_value = sdoc_value d, me_expire_at = sdoc_expire_at d\<rparr>)) m docs)"

definition memory_storage :: "(string set \<Rightarrow> string list) \<Rightarrow> mem storage_interface" where
  "memory_storage order = \<lparr>s_get = mem_get, s_put = mem_put, s_remove = mem_remove, s_exists = mem_exists,
     s_keys = mem_keys order, s_mget = mem_mget\<rparr>"

section \<open>Repository\<close>

text \<open>The virtual functions of an \<^verbatim>\<open>Entity\<close> class; \<open>from_document\<close> fills a default-constructed object.\<close>

record 'e entity_class =
  table_name :: "'e \<Rightarrow> string"
  ent_id :: "'e \<Rightarrow> string"
  to_document :: "'e \<Rightarrow> document"
  from_document :: "document \<Rightarrow> 'e"

definition make_key :: "string \<Rightarrow> string \<Rightarrow> string" where
  "make_key table i = table @ '':'' @ i"

definition extract_id :: "string \<Rightarrow> string \<Rightarrow> string" where
  "extract_id table key =
     (let p = table @ '':'' in if take (length p) key = p then drop (length p) key else key)"

definition repo_save ::
    "'st storage_interface \<Rightarrow> 'e entity_class \<Rightarrow> string \<Rightarrow> int \<Rightarrow> 'st \<Rightarrow> 'e \<Rightarrow> storage_result \<times> 'st" where
  "repo_save S E table now st e =
     (if table_name E e \<noteq> table
      then (failure ''ORM Repository: entity.table_name() does not match repository table_name'', st)
      else let doc = set_string (to_document E e) ''id'' (ent_id E e)
           in s_put S now st (make_key table (ent_id E e)) (doc_to_string doc) 0)"

definition repo_find ::
    "'st storage_interface \<Rightarrow> 'e entity_class \<Rightarrow> string \<Rightarrow> int \<Rightarrow> 'st \<Rightarrow> string \<Rightarrow> 'e option \<times> 'st" where
  "repo_find S E table now st i =
     (let (r, st') = s_get S now st (make_key table i)
      in if \<not> res_ok r then (None, st')
         else case doc_from_string (res_value r) of
                (False, _) \<Rightarrow> (None, st')
              | (True, doc) \<Rightarrow> (Some (from_document E doc), st'))"

definition repo_remove ::
    "'st storage_interface \<Rightarrow> string \<Rightarrow> int \<Rightarrow> 'st \<Rightarrow> string \<Rightarrow> storage_result \<times> 'st" where
  "repo_remove S table now st i = s_remove S now st (make_key table i)"

definition repo_exists :: "'st storage_interface \<Rightarrow> string \<Rightarrow> int \<Rightarrow> 'st \<Rightarrow> string \<Rightarrow> bool \<times> 'st" where
  "repo_exists S table now st i = s_exists S now st (make_key table i)"

text \<open>The per-key branch of \<^verbatim>\<open>find_all\<close>, for back ends whose \<^verbatim>\<open>mget\<close> returns too few results.\<close>

fun find_each ::
    "'st storage_interface \<Rightarrow> 'e entity_class \<Rightarrow> string \<Rightarrow> int \<Rightarrow> 'st \<Rightarrow> string list \<Rightarrow> 'e list \<times> 'st" where
  "find_each S E table now st [] = ([], st)"
| "find_each S E table now st (k # ks) =
     (let (r, st1) = repo_find S E table now st (extract_id table k);
          (es, st2) = find_each S E table now st1 ks
      in (case r of None \<Rightarrow> es | Some e \<Rightarrow> e # es, st2))"

definition decode_entity :: "'e entity_class \<Rightarrow> storage_result \<Rightarrow> 'e list" where
  "decode_entity E r =
     (if \<not> res_ok r then []
      else case doc_from_string (res_value r) of (False, _) \<Rightarrow> [] | (True, doc) \<Rightarrow> [from_document E doc])"

definition repo_find_all ::
    "'st storage_interface \<Rightarrow> 'e entity_class \<Rightarrow> string \<Rightarrow> int \<Rightarrow> 'st \<Rightarrow> 'e list \<times> 'st" where
  "repo_find_all S E table now st =
     (let (ks, st1) = s_keys S now st (table @ '':'')
      in if ks = [] then ([], st1)
         else let (rs, st2) = s_mget S now st1 ks
              in if length rs \<noteq> length ks then find_each S E table now st2 ks
                 else (concat (map (decode_entity E) rs), st2))"

section \<open>Histories of repository calls\<close>

datatype 'e repo_op = Save 'e | Remove string | Find string | Exists string | FindAll

definition repo_step :: "'st storage_interface \<Rightarrow> 'e entity_class \<Rightarrow> string \<Rightarrow> 'st \<Rightarrow> int \<times> 'e repo_op \<Rightarrow> 'st" where
  "repo_step S E table st op = (case op of (now, c) \<Rightarrow> (case c of
     Save e \<Rightarrow> snd (repo_save S E table now st e)
   | Remove i \<Rightarrow> snd (repo_remove S table now st i)
   | Find i \<Rightarrow> snd (repo_find S E table now st i)
   | Exists i \<Rightarrow> snd (repo_exists S table now st i)
   | FindAll \<Rightarrow> snd (repo_find_all S E table now st)))"

text \<open>The reference: a table of documents by id.\<close>

definition table_ref :: "'e entity_class \<Rightarrow> string \<Rightarrow> (string \<rightharpoonup> document) \<Rightarrow> 'e repo_op \<Rightarrow> (string \<rightharpoonup> document)" where
  "table_ref E table T c = (case c of
     Save e \<Rightarrow> if table_name E e = table then T(ent_id E e \<mapsto> (to_document E e)(''id'' \<mapsto> ent_id E e)) else T
   | Remove i \<Rightarrow> T(i := None)
   | _ \<Rightarrow> T)"

definition storable :: "document \<Rightarrow> bool" where
  "storable d \<longleftrightarrow> finite (dom d) \<and> d [] = None"

lemma storable_roundtrip: "storable d \<Longrightarrow> doc_from_string (doc_to_string d) = (True, d)"
  using doc_parse_print [of d] by (simp add: storable_def fun_upd_idem)

lemma make_key_inj [simp]: "make_key table i = make_key table j \<longleftrightarrow> i = j"
  by (simp add: make_key_def)

lemma prefix_make_key: "prefix (table @ '':'') k \<longleftrightarrow> (\<exists>i. k = make_key table i)"
  by (auto simp: prefix_def make_key_def)

section \<open>The contract of a storage back end\<close>

text \<open>
  \<open>content now st\<close> is the map a client sees at time \<open>now\<close>; \<open>ok\<close> the invariant of the back end; \<open>good_key\<close> and
  \<open>good_value\<close> are the keys and values it can store as they are. Reading may clean up, which a client cannot see
  at that time or later. \<open>storage_core\<close> leaves out the batch read, which most back ends inherit.
\<close>

locale storage_core =
  fixes S :: "'st storage_interface" and content :: "int \<Rightarrow> 'st \<Rightarrow> string \<rightharpoonup> string" and ok :: "'st \<Rightarrow> bool"
    and good_key :: "string \<Rightarrow> bool" and good_value :: "string \<Rightarrow> bool"
  assumes content_keys: "ok st \<Longrightarrow> content now st k \<noteq> None \<Longrightarrow> good_key k"
    and get_law: "ok st \<Longrightarrow> good_key k \<Longrightarrow> s_get S now st k = (r, st') \<Longrightarrow>
      ok st' \<and> (\<forall>t\<ge>now. content t st' = content t st) \<and>
      res_ok r = (content now st k \<noteq> None) \<and> (\<forall>v. content now st k = Some v \<longrightarrow> res_value r = v)"
    and put_law: "ok st \<Longrightarrow> good_key k \<Longrightarrow> good_value v \<Longrightarrow> s_put S now st k v 0 = (r, st') \<Longrightarrow>
      ok st' \<and> res_ok r \<and> (\<forall>t. content t st' = (content t st)(k \<mapsto> v))"
    and remove_law: "ok st \<Longrightarrow> good_key k \<Longrightarrow> s_remove S now st k = (r, st') \<Longrightarrow>
      ok st' \<and> (\<forall>t. content t st' = (content t st)(k := None)) \<and> (content now st k \<noteq> None \<longrightarrow> res_ok r)"
    and exists_law: "ok st \<Longrightarrow> good_key k \<Longrightarrow> s_exists S now st k = (b, st') \<Longrightarrow>
      ok st' \<and> (\<forall>t\<ge>now. content t st' = content t st) \<and> b = (content now st k \<noteq> None)"
    and keys_law: "ok st \<Longrightarrow> good_key p \<Longrightarrow> s_keys S now st p = (ks, st') \<Longrightarrow>
      ok st' \<and> (\<forall>t\<ge>now. content t st' = content t st) \<and> distinct ks \<and>
      set ks = {k \<in> dom (content now st). prefix p k}"
begin

lemma default_mget_law:
  "ok st \<Longrightarrow> list_all good_key ks \<Longrightarrow> default_mget S now st ks = (rs, st') \<Longrightarrow>
     ok st' \<and> (\<forall>t\<ge>now. content t st' = content t st) \<and> length rs = length ks \<and>
     (\<forall>i<length ks. res_ok (rs ! i) = (content now st (ks ! i) \<noteq> None) \<and>
        (\<forall>v. content now st (ks ! i) = Some v \<longrightarrow> res_value (rs ! i) = v))"
proof (induction ks arbitrary: st rs)
  case (Cons k ks)
  obtain r st1 rs1 where g: "s_get S now st k = (r, st1)" and m: "default_mget S now st1 ks = (rs1, st')" and "rs = r # rs1"
    using Cons.prems(3) by (auto split: prod.splits)
  then show ?case using Cons.IH [OF _ _ m] get_law [OF Cons.prems(1) _ g] Cons.prems(2) by (auto simp: nth_Cons split: nat.split)
qed auto

end

locale storage_backend = storage_core S content ok good_key good_value
  for S :: "'st storage_interface" and content :: "int \<Rightarrow> 'st \<Rightarrow> string \<rightharpoonup> string" and ok :: "'st \<Rightarrow> bool"
    and good_key :: "string \<Rightarrow> bool" and good_value :: "string \<Rightarrow> bool" +
  assumes mget_law: "ok st \<Longrightarrow> list_all good_key ks \<Longrightarrow> s_mget S now st ks = (rs, st') \<Longrightarrow>
      ok st' \<and> (\<forall>t\<ge>now. content t st' = content t st) \<and> length rs = length ks \<and>
      (\<forall>i<length ks. res_ok (rs ! i) = (content now st (ks ! i) \<noteq> None) \<and>
         (\<forall>v. content now st (ks ! i) = Some v \<longrightarrow> res_value (rs ! i) = v))"
begin

lemma find_law:
  assumes "ok st" and "good_key (make_key table i)" and "repo_find S E table now st i = (e, st')"
  shows "ok st' \<and> (\<forall>t\<ge>now. content t st' = content t st) \<and>
    e = map_option (\<lambda>v. from_document E (snd (doc_from_string v))) (content now st (make_key table i))"
proof -
  obtain r st1 where g: "s_get S now st (make_key table i) = (r, st1)" by fastforce
  show ?thesis using get_law [OF assms(1,2) g] assms(3) g
    by (cases "content now st (make_key table i)") (auto simp: repo_find_def doc_from_string_def)
qed

lemma save_law:
  assumes "ok st" and "good_key (make_key table (ent_id E e))"
    and "good_value (doc_to_string (set_string (to_document E e) ''id'' (ent_id E e)))"
    and "table_name E e = table" and "repo_save S E table now st e = (r, st')"
  shows "ok st' \<and> res_ok r \<and> (\<forall>t. content t st' = (content t st)
    (make_key table (ent_id E e) \<mapsto> doc_to_string (set_string (to_document E e) ''id'' (ent_id E e))))"
  using assms put_law [OF assms(1-3)] by (simp add: repo_save_def Let_def)

lemma find_all_law:
  assumes "ok st" and "good_key (table @ '':'')" and "repo_find_all S E table now st = (es, st')"
  shows "ok st' \<and> (\<forall>t\<ge>now. content t st' = content t st) \<and>
    mset es = image_mset (\<lambda>k. from_document E (snd (doc_from_string (the (content now st k)))))
      (mset_set {k \<in> dom (content now st). prefix (table @ '':'') k})"
proof -
  obtain ks st1 where k: "s_keys S now st (table @ '':'') = (ks, st1)" by fastforce
  obtain rs st2 where m: "s_mget S now st1 ks = (rs, st2)" by fastforce
  note kl = keys_law [OF assms(1,2) k]
  then have gk: "list_all good_key ks" using content_keys [OF assms(1)] by (fastforce simp: list_all_iff)
  have ml: "ok st2" "\<forall>t\<ge>now. content t st2 = content t st1" "length rs = length ks"
    "\<And>i. i < length ks \<Longrightarrow> res_ok (rs ! i) = (content now st1 (ks ! i) \<noteq> None) \<and>
       (\<forall>v. content now st1 (ks ! i) = Some v \<longrightarrow> res_value (rs ! i) = v)"
    using mget_law [of st1, OF _ gk m] kl by auto
  let ?f = "\<lambda>k. from_document E (snd (doc_from_string (the (content now st k))))"
  have "map (decode_entity E) rs = map (\<lambda>k. [?f k]) ks"
  proof (rule nth_equalityI)
    fix i assume "i < length (map (decode_entity E) rs)"
    then have i: "i < length ks" using ml(3) by simp
    then have "ks ! i \<in> dom (content now st)" using kl nth_mem by blast
    then obtain v where "content now st (ks ! i) = Some v" by blast
    then show "map (decode_entity E) rs ! i = map (\<lambda>k. [?f k]) ks ! i"
      using ml(3) ml(4) [OF i] i kl by (auto simp: decode_entity_def doc_from_string_def)
  qed (simp add: ml(3))
  then have es: "concat (map (decode_entity E) rs) = map ?f ks" by (simp add: concat_map_singleton)
  have "mset (map ?f ks) = image_mset ?f (mset_set {k \<in> dom (content now st). prefix (table @ '':'') k})"
    using kl mset_set_set [of ks] by (simp add: mset_set_set)
  moreover have "(es, st') = (if ks = [] then ([], st1) else (map ?f ks, st2))"
    using assms(3) k m ml(3) es by (auto simp: repo_find_all_def)
  ultimately show ?thesis using kl ml(1,2) by (auto split: if_splits)
qed

text \<open>The keys and values of a call are ones the back end can store.\<close>

definition op_ok :: "'e entity_class \<Rightarrow> string \<Rightarrow> 'e repo_op \<Rightarrow> bool" where
  "op_ok E table c = (case c of
     Save e \<Rightarrow> table_name E e = table \<longrightarrow> good_key (make_key table (ent_id E e)) \<and>
       good_value (doc_to_string ((to_document E e)(''id'' \<mapsto> ent_id E e)))
   | Remove i \<Rightarrow> good_key (make_key table i)
   | Find i \<Rightarrow> good_key (make_key table i)
   | Exists i \<Rightarrow> good_key (make_key table i)
   | FindAll \<Rightarrow> good_key (table @ '':''))"

lemma save_content:
  "ok st \<Longrightarrow> op_ok E table (Save e) \<Longrightarrow>
     ok (snd (repo_save S E table now st e)) \<and> content t (snd (repo_save S E table now st e)) =
     (if table_name E e = table then (content t st)(make_key table (ent_id E e) \<mapsto>
        doc_to_string ((to_document E e)(''id'' \<mapsto> ent_id E e))) else content t st)"
  using save_law [of st table E e now "fst (repo_save S E table now st e)" "snd (repo_save S E table now st e)"]
  by (cases "table_name E e = table") (simp_all add: set_string_def op_ok_def, simp add: repo_save_def)

lemma remove_content:
  "ok st \<Longrightarrow> op_ok E table (Remove i) \<Longrightarrow> ok (snd (repo_remove S table now st i)) \<and>
     content t (snd (repo_remove S table now st i)) = (content t st)(make_key table i := None)"
  using remove_law [of st "make_key table i" now "fst (repo_remove S table now st i)" "snd (repo_remove S table now st i)"]
  by (simp add: repo_remove_def op_ok_def)

lemma read_content:
  assumes "ok st" and "now \<le> t"
  shows "op_ok E table (Find i) \<Longrightarrow>
      ok (snd (repo_find S E table now st i)) \<and> content t (snd (repo_find S E table now st i)) = content t st"
    and "op_ok E table (Exists i) \<Longrightarrow>
      ok (snd (repo_exists S table now st i)) \<and> content t (snd (repo_exists S table now st i)) = content t st"
    and "op_ok E table FindAll \<Longrightarrow>
      ok (snd (repo_find_all S E table now st)) \<and> content t (snd (repo_find_all S E table now st)) = content t st"
  using assms find_law [OF assms(1) _ surjective_pairing] find_all_law [OF assms(1) _ surjective_pairing]
    exists_law [OF assms(1) _ surjective_pairing] unfolding repo_exists_def op_ok_def repo_op.case by blast+

text \<open>From time \<open>t0\<close> on, the storage holds the table \<open>T\<close>.\<close>

definition holds_table :: "string \<Rightarrow> int \<Rightarrow> 'st \<Rightarrow> (string \<rightharpoonup> document) \<Rightarrow> bool" where
  "holds_table table t0 st T \<longleftrightarrow> ok st \<and> (\<forall>i d. T i = Some d \<longrightarrow> storable d) \<and>
     (\<forall>t\<ge>t0. \<forall>i. content t st (make_key table i) = map_option doc_to_string (T i))"

lemma step_holds:
  assumes h: "holds_table table t0 st T" and "t0 \<le> now"
    and doc: "\<And>e. c = Save e \<Longrightarrow> storable (to_document E e)" and good: "op_ok E table c"
  shows "holds_table table now (repo_step S E table st (now, c)) (table_ref E table T c)"
proof -
  have st: "ok st" and T: "\<And>i d. T i = Some d \<Longrightarrow> storable d"
    and con: "\<And>t i. now \<le> t \<Longrightarrow> content t st (make_key table i) = map_option doc_to_string (T i)"
    using h assms(2) by (auto simp: holds_table_def)
  show ?thesis
  proof (cases c)
    case (Save e)
    have "storable ((to_document E e)(''id'' \<mapsto> ent_id E e))" using doc [OF Save] by (simp add: storable_def)
    then show ?thesis using T con good
      by (auto simp: holds_table_def repo_step_def table_ref_def Save save_content [OF st])
  next
    case (Remove i)
    then show ?thesis using T con good remove_content [OF st, of E table i now]
      by (auto simp: holds_table_def repo_step_def table_ref_def)
  next
    case (Find i)
    then show ?thesis using T con good read_content(1) [OF st, of now _ E table i] read_content(1) [OF st order_refl, of E table i]
      by (auto simp: holds_table_def repo_step_def table_ref_def)
  next
    case (Exists i)
    then show ?thesis using T con good read_content(2) [OF st, of now _ E table i] read_content(2) [OF st order_refl, of E table i]
      by (auto simp: holds_table_def repo_step_def table_ref_def)
  next
    case FindAll
    then show ?thesis using T con good read_content(3) [OF st, of now _ E table] read_content(3) [OF st order_refl, of E table]
      by (auto simp: holds_table_def repo_step_def table_ref_def)
  qed
qed

lemma run_holds:
  assumes "holds_table table t0 st T" and "sorted (map fst ops)" and "\<forall>op\<in>set ops. t0 \<le> fst op"
    and "\<And>now e. (now, Save e) \<in> set ops \<Longrightarrow> storable (to_document E e)" and "\<And>op. op \<in> set ops \<Longrightarrow> op_ok E table (snd op)"
  shows "\<exists>t1. holds_table table t1 (foldl (repo_step S E table) st ops) (foldl (table_ref E table) T (map snd ops)) \<and>
    (t1 = t0 \<or> t1 \<in> fst ` set ops)"
  using assms
proof (induction ops arbitrary: t0 st T)
  case (Cons op ops)
  obtain now c where op: "op = (now, c)" by fastforce
  have h: "holds_table table now (repo_step S E table st (now, c)) (table_ref E table T c)"
    using Cons.prems op by (intro step_holds [OF Cons.prems(1)]) force+
  have "\<exists>t1. holds_table table t1 (foldl (repo_step S E table) (repo_step S E table st (now, c)) ops)
      (foldl (table_ref E table) (table_ref E table T c) (map snd ops)) \<and> (t1 = now \<or> t1 \<in> fst ` set ops)"
    using Cons.prems(2,4,5) by (intro Cons.IH [OF h]) (auto simp: op)
  then show ?case by (auto simp: op)
qed auto

lemma find_holds:
  assumes "holds_table table t0 st T" and "t0 \<le> now" and "good_key (make_key table i)"
  shows "fst (repo_find S E table now st i) = map_option (from_document E) (T i)"
  using assms find_law [of st table i E now, OF _ assms(3) surjective_pairing]
  by (cases "T i") (auto simp: holds_table_def storable_roundtrip)

lemma find_all_holds:
  assumes "holds_table table t0 st T" and "t0 \<le> now" and "good_key (table @ '':'')"
  shows "mset (fst (repo_find_all S E table now st)) = image_mset (\<lambda>i. from_document E (the (T i))) (mset_set (dom T))"
proof -
  have st: "ok st" and con: "\<And>i. content now st (make_key table i) = map_option doc_to_string (T i)"
    using assms by (auto simp: holds_table_def)
  have K: "{k \<in> dom (content now st). prefix (table @ '':'') k} = make_key table ` dom T"
    using con by (force simp: prefix_make_key)
  have "image_mset (\<lambda>k. from_document E (snd (doc_from_string (the (content now st k))))) (mset_set (make_key table ` dom T)) =
      image_mset (\<lambda>i. from_document E (snd (doc_from_string (the (content now st (make_key table i)))))) (mset_set (dom T))"
    by (subst image_mset_mset_set [symmetric]) (auto simp: inj_on_def multiset.map_comp comp_def)
  also have "\<dots> = image_mset (\<lambda>i. from_document E (the (T i))) (mset_set (dom T))"
  proof (cases "finite (dom T)")
    case True
    then show ?thesis using assms(1) con
      by (intro image_mset_cong) (auto simp: holds_table_def storable_roundtrip)
  qed simp
  finally show ?thesis using find_all_law [OF st assms(3) surjective_pairing, of E now] by (simp add: K)
qed

text \<open>A repository over any such back end is a table.\<close>

lemma repository_table:
  assumes "holds_table table t0 st0 Map.empty" and "sorted (map fst ops)" and "\<forall>op\<in>set ops. t0 \<le> fst op \<and> fst op \<le> now"
    and "t0 \<le> now" and "\<And>t e. (t, Save e) \<in> set ops \<Longrightarrow> storable (to_document E e)"
    and "\<And>op. op \<in> set ops \<Longrightarrow> op_ok E table (snd op)"
    and "good_key (make_key table i)" and "good_key (table @ '':'')"
  shows "fst (repo_find S E table now (foldl (repo_step S E table) st0 ops) i) =
      map_option (from_document E) (foldl (table_ref E table) Map.empty (map snd ops) i) \<and>
    mset (fst (repo_find_all S E table now (foldl (repo_step S E table) st0 ops))) =
      image_mset (\<lambda>i. from_document E (the (foldl (table_ref E table) Map.empty (map snd ops) i)))
        (mset_set (dom (foldl (table_ref E table) Map.empty (map snd ops))))"
proof -
  have "\<forall>op\<in>set ops. t0 \<le> fst op" using assms(3) by blast
  from run_holds [OF assms(1,2) this, of E] assms(5,6) obtain t1 where
    h: "holds_table table t1 (foldl (repo_step S E table) st0 ops) (foldl (table_ref E table) Map.empty (map snd ops))"
    and "t1 = t0 \<or> t1 \<in> fst ` set ops" by blast
  then have "t1 \<le> now" using assms(3,4) by auto
  then show ?thesis using find_holds [OF h _ assms(7)] find_all_holds [OF h _ assms(8)] by blast
qed

end

section \<open>The memory back end meets the contract\<close>

definition mem_content :: "int \<Rightarrow> mem \<Rightarrow> string \<rightharpoonup> string" where
  "mem_content now m k = map_option me_value (prune_expired now m k)"

lemma prune_prune: "now \<le> t \<Longrightarrow> prune_expired t (prune_expired now m) = prune_expired t m"
  by (rule ext) (auto simp: prune_expired_def split: option.split)

lemma finite_prune: "finite (dom m) \<Longrightarrow> finite (dom (prune_expired now m))"
  by (rule finite_subset [of _ "dom m"]) (auto simp: prune_expired_def split: option.splits if_splits)

lemma mem_result_laws:
  "res_ok (mem_result (prune_expired now m) k) = (mem_content now m k \<noteq> None)"
  "mem_content now m k = Some v \<Longrightarrow> res_value (mem_result (prune_expired now m) k) = v"
  by (auto simp: mem_result_def mem_content_def success_def failure_def split: option.splits)

lemma mem_content_upd:
  "mem_content t (m(k \<mapsto> \<lparr>me_value = v, me_expire_at = 0\<rparr>)) = (mem_content t m)(k \<mapsto> v)"
  "mem_content t (m(k := None)) = (mem_content t m)(k := None)"
  "m k = None \<Longrightarrow> (mem_content t m)(k := None) = mem_content t m"
  by (auto simp: mem_content_def prune_expired_def fun_eq_iff)

lemma take_prefix: "p = [] \<or> take (length p) k = p \<longleftrightarrow> prefix p k"
  by (metis append_eq_conv_conj append_take_drop_id prefix_def take_Nil prefixI Nil_prefix)

lemma memory_storage_backend:
  assumes "enumerates order"
  shows "storage_backend (memory_storage order) mem_content (\<lambda>m. finite (dom m)) (\<lambda>_. True) (\<lambda>_. True)"
proof (unfold_locales, goal_cases)
  case 1
  then show ?case by simp
next
  case (2 st k now r st')
  then show ?case
    by (auto simp: memory_storage_def mem_get_def Let_def finite_prune mem_result_laws mem_content_def prune_prune)
next
  case (3 st k v now r st')
  then show ?case
    by (auto simp: memory_storage_def mem_put_def success_def mem_content_upd)
next
  case (4 st k now r st')
  then show ?case
    by (auto simp: memory_storage_def mem_remove_def success_def failure_def mem_content_upd split: option.splits)
      (simp add: mem_content_def prune_expired_def)
next
  case (5 st k now b st')
  then show ?case
    by (auto simp: memory_storage_def mem_exists_def Let_def finite_prune mem_content_def prune_prune)
next
  case (6 st p now ks st')
  then have "finite (dom (prune_expired now st))" by (simp add: finite_prune)
  then have "set (order (dom (prune_expired now st))) = dom (prune_expired now st)" "distinct (order (dom (prune_expired now st)))"
    using assms by (auto simp: enumerates_def)
  then show ?case using 6
    by (auto simp: memory_storage_def mem_keys_def Let_def finite_prune mem_content_def prune_prune take_prefix)
next
  case (7 st ks now rs st')
  then show ?case
    by (auto simp: memory_storage_def mem_mget_def Let_def finite_prune mem_result_laws mem_content_def prune_prune)
qed

text \<open>Any order of the hash map that is an enumeration.\<close>

definition lawful :: "(string set \<Rightarrow> string list) \<Rightarrow> string set \<Rightarrow> string list" where
  "lawful order = (if enumerates order then order else sorted_list_of_set)"

lemma lawful_enumerates: "enumerates (lawful order)" "enumerates order \<Longrightarrow> lawful order = order"
  by (simp_all add: lawful_def enumerates_sorted_list)

interpretation mem: storage_backend "memory_storage (lawful order)" mem_content "\<lambda>m. finite (dom m)" "\<lambda>_. True" "\<lambda>_. True" for order
  by (rule memory_storage_backend [OF lawful_enumerates(1)])

section \<open>Properties\<close>

text \<open>
  C26. A repository over the memory back end is a table of entities: after any sequence of saves,
  removals and reads at non-decreasing times, \<^verbatim>\<open>find\<close> returns exactly the last saved and not removed
  document under the id (with its \<open>id\<close> field set), and \<^verbatim>\<open>find_all\<close> returns every such document
  exactly once, whatever the fields contain. Entities of another table are refused.
\<close>

theorem repository_is_table:
  assumes "enumerates order" and "sorted (map fst ops)" and "\<forall>op\<in>set ops. 0 \<le> fst op \<and> fst op \<le> now" and "0 \<le> now"
    and "\<And>t e. (t, Save e) \<in> set ops \<Longrightarrow> finite (dom (to_document E e)) \<and> to_document E e [] = None"
    and "st = foldl (repo_step (memory_storage order) E table) Map.empty ops"
    and "T = foldl (table_ref E table) Map.empty (map snd ops)"
  shows "fst (repo_find (memory_storage order) E table now st i) = map_option (from_document E) (T i) \<and>
    mset (fst (repo_find_all (memory_storage order) E table now st)) =
      image_mset (\<lambda>i. from_document E (the (T i))) (mset_set (dom T))"
proof -
  have "mem.holds_table table 0 Map.empty Map.empty"
    by (simp add: mem.holds_table_def mem_content_def prune_expired_def)
  moreover have "mem.op_ok E table c" for c by (cases c) (simp_all add: mem.op_ok_def)
  ultimately have "mem.holds_table table 0 Map.empty Map.empty" "\<And>c. mem.op_ok E table c" by blast+
  from mem.run_holds [OF this(1) assms(2), where E = E and order = order] this(2) assms(3,5)
  obtain t1 where "mem.holds_table table t1 st T" "t1 = 0 \<or> t1 \<in> fst ` set ops"
    unfolding storable_def assms(6,7) lawful_enumerates(2) [OF assms(1)] by blast
  moreover from this(2) have "t1 \<le> now" using assms(3,4) by auto
  ultimately show ?thesis
    using mem.find_holds [where order = order] mem.find_all_holds [where order = order]
    unfolding lawful_enumerates(2) [OF assms(1)] by blast
qed

text \<open>An entity class of named players.\<close>

definition player_class :: "(string \<times> string) entity_class" where
  "player_class = \<lparr>table_name = (\<lambda>_. ''players''), ent_id = fst, to_document = (\<lambda>p. [''name'' \<mapsto> snd p]),
     from_document = (\<lambda>d. (get_string d ''id'' [], get_string d ''name'' []))\<rparr>"

theorem repository_is_table_witness:
  "fst (repo_find (memory_storage sorted_list_of_set) player_class ''players'' 9
     (foldl (repo_step (memory_storage sorted_list_of_set) player_class ''players'') Map.empty
       [(1, Save (''7'', ''a=b'')), (2, Save (''8'', ''x'')), (3, Remove ''8'')]) ''7'') = Some (''7'', ''a=b'')"
  using repository_is_table [OF enumerates_sorted_list, of "[(1, Save (''7'', ''a=b'')), (2, Save (''8'', ''x'')), (3, Remove ''8'')]"
      9 player_class _ "''players''" _ "''7''"]
  by (auto simp: player_class_def table_ref_def get_string_def)

end
