(* ===== verification/TimerWheel.thy ===== *)
theory TimerWheel
  imports Chwell_Prelude
begin

text \<open>
  \<^verbatim>\<open>core/timer_wheel.cpp\<close>: a hierarchy of wheels of slots. Every reading of the clock is a value of its own
  (milliseconds): a function of the number of the reading where a call may read it any number of
  times. Calls are not interleaved; running a callback is recorded by the id of its timer, in
  order, and callbacks do not use the wheel themselves. A task is held by exactly one slot, so the
  weak pointers of \<^verbatim>\<open>task_map_\<close> are the ids and lead to the task of that id in the slots. The
  iteration over a slot while tasks are appended to it may not end: it is a partial function.
  Numbers of ticks are assumed to fit an \<^verbatim>\<open>int\<close>.
\<close>

section \<open>State\<close>

record timer_task =
  tt_id :: nat
  expire_time :: int
  interval :: int
  rounds_left :: int
  cancelled :: bool

record wheel =
  slots :: "timer_task list list"
  current_slot :: nat
  tick_ms :: int
  wheel_size :: nat

definition total_ms :: "wheel \<Rightarrow> int" where
  "total_ms w = int (wheel_size w) * tick_ms w"

record timer_wheel =
  wheels :: "wheel list"
  wheel_running :: bool
  next_id :: nat
  task_map :: "nat set"

record timer_handle =
  th_id :: nat
  th_valid :: bool

definition null_handle :: timer_handle where
  "null_handle = \<lparr>th_id = 0, th_valid = False\<rparr>"

definition new_wheel :: "nat \<Rightarrow> int \<Rightarrow> wheel" where
  "new_wheel size_w tick = \<lparr>slots = replicate size_w [], current_slot = 0, tick_ms = tick, wheel_size = size_w\<rparr>"

definition timer_wheel_init :: "int \<Rightarrow> nat \<Rightarrow> nat \<Rightarrow> timer_wheel" where
  "timer_wheel_init tick size_w layers =
     \<lparr>wheels = map (\<lambda>i. new_wheel size_w (tick * int size_w ^ i)) [0..<layers],
      wheel_running = False, next_id = 1, task_map = {}\<rparr>"

section \<open>Operations\<close>

definition tw_start :: "timer_wheel \<Rightarrow> timer_wheel" where
  "tw_start t = (if wheel_running t then t
     else t\<lparr>wheel_running := True, wheels := map (\<lambda>w. w\<lparr>current_slot := 0\<rparr>) (wheels t)\<rparr>)"

definition tw_stop :: "timer_wheel \<Rightarrow> timer_wheel" where
  "tw_stop t = t\<lparr>wheel_running := False\<rparr>"

definition push_task :: "wheel \<Rightarrow> nat \<Rightarrow> timer_task \<Rightarrow> wheel" where
  "push_task w s task = w\<lparr>slots := (slots w)[s := slots w ! s @ [task]]\<rparr>"

text \<open>Where a task with the given delay goes in a wheel.\<close>

definition place :: "wheel \<Rightarrow> int \<Rightarrow> timer_task \<Rightarrow> wheel" where
  "place w delay task =
     (let ticks = delay div tick_ms w;
          s = nat ((int (current_slot w) + ticks) mod int (wheel_size w))
      in push_task w s (task\<lparr>rounds_left := ticks div int (wheel_size w)\<rparr>))"

text \<open>The loop over the layers: the first wheel whose range covers the delay, or the last.\<close>

fun place_in :: "wheel list \<Rightarrow> int \<Rightarrow> timer_task \<Rightarrow> wheel list" where
  "place_in [] delay task = []"
| "place_in (w # ws) delay task =
     (if delay < total_ms w \<or> ws = [] then place w delay task # ws
      else w # place_in ws delay task)"

text \<open>The delay that is left when \<^verbatim>\<open>add_task_to_wheel\<close> reads the clock, at least one millisecond.\<close>

definition delay_left :: "int \<Rightarrow> int \<Rightarrow> int" where
  "delay_left expire now = (let delay = expire - now in if delay \<le> 0 then 1 else delay)"

definition add_task_to_wheel :: "int \<Rightarrow> wheel list \<Rightarrow> timer_task \<Rightarrow> cpp_error + wheel list" where
  "add_task_to_wheel now ws task =
     (if ws = [] then Inl OutOfBounds else Inr (place_in ws (delay_left (expire_time task) now) task))"

text \<open>
  The clock is read twice: as \<open>now\<close> for the expiry, and as \<open>now'\<close> in \<^verbatim>\<open>add_task_to_wheel\<close>, when
  the mutex has been taken.
\<close>

definition add_task :: "int \<Rightarrow> int \<Rightarrow> timer_wheel \<Rightarrow> int \<Rightarrow> int \<Rightarrow> bool \<Rightarrow> cpp_error + timer_handle \<times> timer_wheel" where
  "add_task now now' t delay ivl has_callback =
     (if delay \<le> 0 \<or> \<not> has_callback then Inr (null_handle, t)
      else let task = \<lparr>tt_id = next_id t, expire_time = now + delay, interval = ivl, rounds_left = 0, cancelled = False\<rparr>
           in map_sum id (\<lambda>ws. (\<lparr>th_id = next_id t, th_valid = True\<rparr>,
                  t\<lparr>wheels := ws, next_id := next_id t + 1, task_map := insert (next_id t) (task_map t)\<rparr>))
                (add_task_to_wheel now' (wheels t) task))"

definition add_timer :: "int \<Rightarrow> int \<Rightarrow> timer_wheel \<Rightarrow> int \<Rightarrow> bool \<Rightarrow> cpp_error + timer_handle \<times> timer_wheel" where
  "add_timer now now' t delay has_callback = add_task now now' t delay 0 has_callback"

definition add_repeat_timer :: "int \<Rightarrow> int \<Rightarrow> timer_wheel \<Rightarrow> int \<Rightarrow> bool \<Rightarrow> cpp_error + timer_handle \<times> timer_wheel" where
  "add_repeat_timer now now' t ivl has_callback = add_task now now' t ivl ivl has_callback"

definition all_tasks :: "wheel list \<Rightarrow> timer_task list" where
  "all_tasks ws = concat (concat (map slots ws))"

definition cancel_timer :: "timer_wheel \<Rightarrow> timer_handle \<Rightarrow> timer_handle \<times> timer_wheel" where
  "cancel_timer t h =
     (if \<not> th_valid h then (h, t)
      else (h\<lparr>th_valid := False\<rparr>,
            if th_id h \<in> task_map t
            then t\<lparr>wheels := map (\<lambda>w. w\<lparr>slots := map (map (\<lambda>k. if tt_id k = th_id h then k\<lparr>cancelled := True\<rparr> else k))
                                             (slots w)\<rparr>) (wheels t),
                   task_map := task_map t - {th_id h}\<rparr>
            else t))"

definition is_timer_valid :: "timer_wheel \<Rightarrow> timer_handle \<Rightarrow> bool" where
  "is_timer_valid t h \<longleftrightarrow> th_valid h \<and> th_id h \<in> task_map t \<and>
     (\<exists>k\<in>set (all_tasks (wheels t)). tt_id k = th_id h \<and> \<not> cancelled k)"

text \<open>
  The loop of \<^verbatim>\<open>process_slot\<close>: \<open>i\<close> is the position of the iterator in the list of the slot; what
  has run so far is \<open>fired\<close>. A task that repeats is put back before it is erased; this reads the clock
  for the new expiry and again in \<^verbatim>\<open>add_task_to_wheel\<close>. After \<open>n\<close> callbacks these are the readings
  \<open>clk (2 * n)\<close> and \<open>clk (2 * n + 1)\<close>.
\<close>

definition slot_tasks :: "wheel list \<Rightarrow> nat \<Rightarrow> nat \<Rightarrow> timer_task list" where
  "slot_tasks ws layer s = slots (ws ! layer) ! s"

definition set_slot :: "wheel list \<Rightarrow> nat \<Rightarrow> nat \<Rightarrow> timer_task list \<Rightarrow> wheel list" where
  "set_slot ws layer s ts = ws[layer := (ws ! layer)\<lparr>slots := (slots (ws ! layer))[s := ts]\<rparr>]"

definition erase_at :: "nat \<Rightarrow> 'a list \<Rightarrow> 'a list" where
  "erase_at i xs = take i xs @ drop (Suc i) xs"

definition reinsert :: "int \<Rightarrow> int \<Rightarrow> wheel list \<Rightarrow> timer_task \<Rightarrow> wheel list" where
  "reinsert now now' ws task =
     (if 0 < interval task
      then place_in ws (delay_left (now + interval task) now') (task\<lparr>expire_time := now + interval task\<rparr>)
      else ws)"

partial_function (option) process_loop ::
    "(nat \<Rightarrow> int) \<Rightarrow> nat \<Rightarrow> nat \<Rightarrow> nat \<Rightarrow> nat list \<Rightarrow> nat set \<Rightarrow> wheel list \<Rightarrow> (nat list \<times> nat set \<times> wheel list) option" where
  "process_loop clk layer s i fired tm ws =
     (let ts = slot_tasks ws layer s
      in if length ts \<le> i then Some (fired, tm, ws)
         else let task = ts ! i
              in if cancelled task then process_loop clk layer s i fired tm (set_slot ws layer s (erase_at i ts))
                 else if 0 < rounds_left task
                 then process_loop clk layer s (Suc i) fired tm
                        (set_slot ws layer s (ts[i := task\<lparr>rounds_left := rounds_left task - 1\<rparr>]))
                 else let ws1 = reinsert (clk (2 * length fired)) (clk (2 * length fired + 1)) ws task;
                          tm1 = (if 0 < interval task then insert (tt_id task) tm else tm)
                      in process_loop clk layer s i (fired @ [tt_id task]) tm1
                           (set_slot ws1 layer s (erase_at i (slot_tasks ws1 layer s))))"

text \<open>\<^verbatim>\<open>cascade\<close>: the tasks of the current slot of an upper layer are distributed again; task \<open>i\<close> takes the
  readings \<open>clk (2 * i)\<close> and \<open>clk (2 * i + 1)\<close>.\<close>

definition cascade_task :: "int \<Rightarrow> int \<Rightarrow> wheel list \<Rightarrow> timer_task \<Rightarrow> wheel list" where
  "cascade_task now now' ws task =
     (if cancelled task then ws
      else if expire_time task - now \<le> 0
      then set_slot ws 0 (current_slot (ws ! 0)) (slot_tasks ws 0 (current_slot (ws ! 0)) @ [task])
      else place_in ws (delay_left (expire_time task) now') task)"

definition cascade :: "(nat \<Rightarrow> int) \<Rightarrow> nat \<Rightarrow> wheel list \<Rightarrow> wheel list" where
  "cascade clk layer ws =
     (if layer = 0 \<or> length ws \<le> layer then ws
      else let s = current_slot (ws ! layer); ts = slot_tasks ws layer s
           in foldl (\<lambda>ws (i, task). cascade_task (clk (2 * i)) (clk (2 * i + 1)) ws task) (set_slot ws layer s []) (enumerate 0 ts))"

definition advance :: "nat \<Rightarrow> wheel list \<Rightarrow> wheel list" where
  "advance layer ws =
     ws[layer := (ws ! layer)\<lparr>current_slot := (current_slot (ws ! layer) + 1) mod wheel_size (ws ! layer)\<rparr>]"

text \<open>The nested conditionals of \<^verbatim>\<open>tick\<close> after layer 0 has advanced; \<open>clk l\<close> are the readings while layer \<open>l\<close> is processed.\<close>

definition cascade_all :: "(nat \<Rightarrow> nat \<Rightarrow> int) \<Rightarrow> wheel list \<Rightarrow> cpp_error + wheel list" where
  "cascade_all clk ws =
     (if current_slot (ws ! 0) \<noteq> 0 then Inr ws
      else if length ws < 2 then Inl OutOfBounds
      else let ws1 = advance 1 (cascade (clk 1) 1 ws)
           in if \<not> (current_slot (ws1 ! 1) = 0 \<and> 2 < length ws1) then Inr ws1
              else let ws2 = advance 2 (cascade (clk 2) 2 ws1)
                   in if \<not> (current_slot (ws2 ! 2) = 0 \<and> 3 < length ws2) then Inr ws2
                      else Inr (advance 3 (cascade (clk 3) 3 ws2)))"

definition tick :: "(nat \<Rightarrow> nat \<Rightarrow> int) \<Rightarrow> timer_wheel \<Rightarrow> (cpp_error + nat list \<times> timer_wheel) option" where
  "tick clk t =
     (if wheels t = [] then Some (Inl OutOfBounds)
      else case process_loop (clk 0) 0 (current_slot (wheels t ! 0)) 0 [] (task_map t) (wheels t) of
             None \<Rightarrow> None
           | Some (fired, tm, ws) \<Rightarrow>
               (case cascade_all clk (advance 0 ws) of
                  Inl err \<Rightarrow> Some (Inl err)
                | Inr ws' \<Rightarrow> Some (Inr (fired, t\<lparr>wheels := ws', task_map := tm\<rparr>))))"

text \<open>\<^verbatim>\<open>get_next_expire_time\<close>: the earliest expiry in the first slot of layer 0 that has a live task.\<close>

definition slot_min :: "timer_task list \<Rightarrow> int \<Rightarrow> int" where
  "slot_min ts m = foldl (\<lambda>m k. if \<not> cancelled k \<and> (m < 0 \<or> expire_time k < m) then expire_time k else m) m ts"

fun next_expire_loop :: "wheel \<Rightarrow> int \<Rightarrow> nat list \<Rightarrow> int" where
  "next_expire_loop w m [] = m"
| "next_expire_loop w m (i # is) =
     (let m' = slot_min (slots w ! ((current_slot w + i) mod wheel_size w)) m
      in if 0 \<le> m' then m' else next_expire_loop w m' is)"

definition get_next_expire_time :: "timer_wheel \<Rightarrow> cpp_error + int" where
  "get_next_expire_time t = (if wheels t = [] then Inl OutOfBounds else Inr (next_expire_loop (wheels t ! 0) (- 1) [0..<wheel_size (wheels t ! 0)]))"

text \<open>\<^verbatim>\<open>TimerManager\<close>: the process-wide wheel, absent before \<^verbatim>\<open>init\<close> and after \<^verbatim>\<open>shutdown\<close>.\<close>

type_synonym timer_manager = "timer_wheel option"

definition tm_init :: "timer_manager \<Rightarrow> int \<Rightarrow> nat \<Rightarrow> nat \<Rightarrow> timer_manager" where
  "tm_init tm tck size_w layers =
     (case tm of None \<Rightarrow> Some (tw_start (timer_wheel_init tck size_w layers)) | Some t \<Rightarrow> Some t)"

definition tm_shutdown :: "timer_manager \<Rightarrow> timer_manager" where
  "tm_shutdown tm = None"

definition tm_add_timer :: "int \<Rightarrow> int \<Rightarrow> timer_manager \<Rightarrow> int \<Rightarrow> bool \<Rightarrow> cpp_error + timer_handle \<times> timer_manager" where
  "tm_add_timer now now' tm delay has_callback =
     (case tm of None \<Rightarrow> Inr (null_handle, None)
      | Some t \<Rightarrow> map_sum id (\<lambda>(h, t'). (h, Some t')) (add_timer now now' t delay has_callback))"

definition tm_add_repeat_timer :: "int \<Rightarrow> int \<Rightarrow> timer_manager \<Rightarrow> int \<Rightarrow> bool \<Rightarrow> cpp_error + timer_handle \<times> timer_manager" where
  "tm_add_repeat_timer now now' tm ivl has_callback =
     (case tm of None \<Rightarrow> Inr (null_handle, None)
      | Some t \<Rightarrow> map_sum id (\<lambda>(h, t'). (h, Some t')) (add_repeat_timer now now' t ivl has_callback))"

definition tm_cancel_timer :: "timer_manager \<Rightarrow> timer_handle \<Rightarrow> timer_handle \<times> timer_manager" where
  "tm_cancel_timer tm h =
     (case tm of None \<Rightarrow> (h, None) | Some t \<Rightarrow> (case cancel_timer t h of (h', t') \<Rightarrow> (h', Some t')))"

section \<open>Shape of the wheels\<close>

definition wf_wheel :: "wheel \<Rightarrow> bool" where
  "wf_wheel w \<longleftrightarrow> length (slots w) = wheel_size w \<and> current_slot w < wheel_size w \<and> 0 < tick_ms w"

definition wf_wheels :: "wheel list \<Rightarrow> bool" where
  "wf_wheels ws \<longleftrightarrow> 2 \<le> length ws \<and> list_all wf_wheel ws"

lemma wf_wheels_nonempty: "wf_wheels ws \<Longrightarrow> ws \<noteq> []"
  by (auto simp: wf_wheels_def)

lemma wf_wheels_hd: "wf_wheels ws \<Longrightarrow> wf_wheel (ws ! 0)"
  by (cases ws) (auto simp: wf_wheels_def)

lemma wf_wheels_cons: "wf_wheels ws \<Longrightarrow> \<exists>w w' ws'. ws = w # w' # ws'"
  unfolding wf_wheels_def by (cases ws; cases "tl ws") auto

text \<open>
  \<open>grows J ws ws'\<close>: only tasks were appended to slots, each a copy of a task with the identity (id
  and interval) in \<open>J\<close>; positions, sizes and tick lengths are the same. \<open>K\<close> names slots that may
  have changed otherwise.
\<close>

definition ident :: "timer_task \<Rightarrow> nat \<times> int" where
  "ident k = (tt_id k, interval k)"

definition same_wheel :: "wheel \<Rightarrow> wheel \<Rightarrow> bool" where
  "same_wheel w w' \<longleftrightarrow> current_slot w' = current_slot w \<and> tick_ms w' = tick_ms w \<and> wheel_size w' = wheel_size w \<and>
     length (slots w') = length (slots w)"

definition grows :: "(nat \<times> int) set \<Rightarrow> (nat \<times> nat) set \<Rightarrow> wheel list \<Rightarrow> wheel list \<Rightarrow> bool" where
  "grows J K ws ws' \<longleftrightarrow> length ws' = length ws \<and> (\<forall>l<length ws. same_wheel (ws ! l) (ws' ! l) \<and>
     (\<forall>x<length (slots (ws ! l)). (l, x) \<notin> K \<longrightarrow>
        (\<exists>extra. slot_tasks ws' l x = slot_tasks ws l x @ extra \<and> ident ` set extra \<subseteq> J)))"

lemma grows_refl: "grows J K ws ws"
  by (auto simp: grows_def same_wheel_def)

lemma grows_trans:
  assumes "grows J K ws ws1" and "grows J K ws1 ws2"
  shows "grows J K ws ws2"
  unfolding grows_def
proof (intro conjI allI impI)
  show "length ws2 = length ws" using assms by (simp add: grows_def)
next
  fix l assume l: "l < length ws"
  then show "same_wheel (ws ! l) (ws2 ! l)" using assms by (simp add: grows_def same_wheel_def)
  fix x assume x: "x < length (slots (ws ! l))" "(l, x) \<notin> K"
  obtain e1 where e1: "slot_tasks ws1 l x = slot_tasks ws l x @ e1" "ident ` set e1 \<subseteq> J"
    using assms(1) l x unfolding grows_def by blast
  obtain e2 where e2: "slot_tasks ws2 l x = slot_tasks ws1 l x @ e2" "ident ` set e2 \<subseteq> J"
    using assms l x unfolding grows_def same_wheel_def by metis
  show "\<exists>extra. slot_tasks ws2 l x = slot_tasks ws l x @ extra \<and> ident ` set extra \<subseteq> J"
    using e1 e2 by (intro exI [where x = "e1 @ e2"]) auto
qed

lemma grows_mono: "grows J K ws ws' \<Longrightarrow> J \<subseteq> J' \<Longrightarrow> K \<subseteq> K' \<Longrightarrow> grows J' K' ws ws'"
  unfolding grows_def by (meson subset_iff subset_trans)

lemma grows_wf: "grows J K ws ws' \<Longrightarrow> wf_wheels ws \<Longrightarrow> wf_wheels ws'"
  by (auto simp: grows_def wf_wheels_def wf_wheel_def same_wheel_def list_all_length)

lemma slot_set_slot:
  "layer < length ws \<Longrightarrow> s < length (slots (ws ! layer)) \<Longrightarrow>
     slot_tasks (set_slot ws layer s ts) l x = (if l = layer \<and> x = s then ts else slot_tasks ws l x)"
  by (auto simp: slot_tasks_def set_slot_def nth_list_update)

lemma grows_set_slot:
  assumes "layer < length ws" and "s < length (slots (ws ! layer))"
    and "(layer, s) \<in> K \<or> (\<exists>extra. ts = slot_tasks ws layer s @ extra \<and> ident ` set extra \<subseteq> J)"
  shows "grows J K ws (set_slot ws layer s ts)"
  using assms unfolding grows_def
  by (auto simp: slot_set_slot) (auto simp: set_slot_def same_wheel_def nth_list_update)

section \<open>Where a task is put\<close>

lemma place_set_slot:
  "place w delay task = w\<lparr>slots := (slots w)[nat ((int (current_slot w) + delay div tick_ms w) mod int (wheel_size w)) :=
     slots w ! nat ((int (current_slot w) + delay div tick_ms w) mod int (wheel_size w)) @
       [task\<lparr>rounds_left := delay div tick_ms w div int (wheel_size w)\<rparr>]]\<rparr>"
  by (simp add: place_def push_task_def Let_def)

lemma place_in_at:
  "ws \<noteq> [] \<Longrightarrow> \<exists>l<length ws. place_in ws delay task = ws[l := place (ws ! l) delay task] \<and>
     (\<forall>j<l. total_ms (ws ! j) \<le> delay) \<and> (delay < total_ms (ws ! l) \<or> l = length ws - 1)"
proof (induction ws)
  case (Cons w ws)
  show ?case
  proof (cases "delay < total_ms w \<or> ws = []")
    case True
    then show ?thesis by (intro exI [where x = 0]) auto
  next
    case False
    then obtain l where "l < length ws" "place_in ws delay task = ws[l := place (ws ! l) delay task]"
      "\<forall>j<l. total_ms (ws ! j) \<le> delay" "delay < total_ms (ws ! l) \<or> l = length ws - 1"
      using Cons.IH by blast
    then show ?thesis using False
      by (intro exI [where x = "Suc l"]) (auto simp: nth_Cons split: nat.split)
  qed
qed simp

lemma place_in_grows:
  assumes "wf_wheels ws" and "ident task \<in> J"
  shows "grows J K ws (place_in ws delay task)"
proof -
  obtain l where l: "l < length ws" "place_in ws delay task = ws[l := place (ws ! l) delay task]"
    using place_in_at [OF wf_wheels_nonempty [OF assms(1)]] by blast
  let ?w = "ws ! l"
  let ?s = "nat ((int (current_slot ?w) + delay div tick_ms ?w) mod int (wheel_size ?w))"
  let ?k = "task\<lparr>rounds_left := delay div tick_ms ?w div int (wheel_size ?w)\<rparr>"
  have w: "wf_wheel ?w" using assms(1) l(1) by (simp add: wf_wheels_def list_all_length)
  then have "0 < int (wheel_size ?w)" by (auto simp: wf_wheel_def)
  then have "?s < wheel_size ?w" by (metis nat_less_iff pos_mod_bound pos_mod_sign)
  then have s: "?s < length (slots ?w)" using w by (simp add: wf_wheel_def)
  have "place_in ws delay task = set_slot ws l ?s (slot_tasks ws l ?s @ [?k])"
    by (simp add: l(2) place_set_slot set_slot_def slot_tasks_def)
  moreover have "ident ?k \<in> J" using assms(2) by (simp add: ident_def)
  ultimately show ?thesis using grows_set_slot [OF l(1) s] by simp
qed

text \<open>A repeating task whose interval is at least one tick does not return to the slot being processed.\<close>

lemma place_in_leaves_current:
  assumes wf: "wf_wheels ws" and "tick_ms (ws ! 0) \<le> delay"
  shows "slot_tasks (place_in ws delay task) 0 (current_slot (ws ! 0)) = slot_tasks ws 0 (current_slot (ws ! 0))"
proof -
  obtain w ws' where ws: "ws = w # ws'" "ws' \<noteq> []"
    using wf_wheels_cons [OF wf] by blast
  have w: "wf_wheel w" "0 < tick_ms w" using wf by (auto simp: wf_wheels_def wf_wheel_def ws)
  show ?thesis
  proof (cases "delay < total_ms w")
    case True
    let ?n = "int (wheel_size w)" and ?q = "delay div tick_ms w" and ?c = "int (current_slot w)"
    have "?q * tick_ms w \<le> delay" using w(2) by (simp add: minus_mod_eq_div_mult [symmetric])
    then have "?q * tick_ms w < ?n * tick_ms w" using True by (simp add: total_ms_def)
    then have q: "1 \<le> ?q" "?q < ?n"
      using assms(2) w(2) by (auto simp: ws pos_imp_zdiv_pos_iff int_one_le_iff_zero_less)
    have c: "?c < ?n" using w(1) by (simp add: wf_wheel_def)
    have "(?c + ?q) mod ?n \<noteq> ?c"
    proof
      assume "(?c + ?q) mod ?n = ?c"
      then have "(?c + ?q) mod ?n = ?c mod ?n" using c by simp
      then have "?n dvd ?q" by (simp add: mod_eq_dvd_iff)
      then show False using q zdvd_imp_le by fastforce
    qed
    then have "nat ((?c + ?q) mod ?n) \<noteq> current_slot w" using c q
      by (metis Euclidean_Rings.pos_mod_sign int_nat_eq int_ops(1) le_less_trans not_one_le_zero of_nat_0_le_iff order.strict_iff_not pos_mod_sign)
    then show ?thesis using True by (simp add: ws slot_tasks_def place_set_slot)
  qed (simp add: ws slot_tasks_def)
qed

section \<open>Processing a slot\<close>

definition due :: "timer_task \<Rightarrow> bool" where
  "due k \<longleftrightarrow> \<not> cancelled k \<and> rounds_left k \<le> 0"

definition waiting :: "timer_task list \<Rightarrow> timer_task list" where
  "waiting ts = map (\<lambda>k. k\<lparr>rounds_left := rounds_left k - 1\<rparr>) (filter (\<lambda>k. \<not> cancelled k \<and> 0 < rounds_left k) ts)"

text \<open>Between the two readings for a task that repeats at most \<open>lag\<close> milliseconds pass.\<close>

definition prompt :: "int \<Rightarrow> (nat \<Rightarrow> int) \<Rightarrow> bool" where
  "prompt lag clk \<longleftrightarrow> (\<forall>n. clk (2 * n + 1) \<le> clk (2 * n) + lag)"

lemma delay_left_prompt: "prompt lag clk \<Longrightarrow> 0 < tck \<Longrightarrow> tck + lag \<le> ivl \<Longrightarrow> tck \<le> delay_left (clk (2 * n) + ivl) (clk (2 * n + 1))"
  unfolding prompt_def delay_left_def Let_def by (drule spec [of _ n]) simp

lemma delay_left_bounds: "now \<le> now' \<Longrightarrow> 0 < d \<Longrightarrow> 0 < delay_left (now + d) now' \<and> delay_left (now + d) now' \<le> d"
  by (simp add: delay_left_def)

definition spaced :: "int \<Rightarrow> nat \<times> int \<Rightarrow> bool" where
  "spaced tck j \<longleftrightarrow> 0 < snd j \<longrightarrow> tck \<le> snd j"

lemma erase_at_append [simp]: "erase_at (length xs) (xs @ y # ys) = xs @ ys"
  by (simp add: erase_at_def)

lemma waiting_Cons [simp]:
  "waiting [] = []"
  "waiting (k # ts) = (if \<not> cancelled k \<and> 0 < rounds_left k then [k\<lparr>rounds_left := rounds_left k - 1\<rparr>] else []) @ waiting ts"
  by (simp_all add: waiting_def)

lemma current_slot_range: "wf_wheels ws \<Longrightarrow> 0 < length ws \<and> current_slot (ws ! 0) < length (slots (ws ! 0))"
  by (cases ws) (auto simp: wf_wheels_def wf_wheel_def)

text \<open>
  One visit of the current slot of layer 0: it returns, runs exactly the due tasks in the order of
  the slot, keeps the waiting ones, and otherwise only appends copies of the tasks that repeat.
\<close>

lemma process_loop_spec:
  fixes ws :: "wheel list"
  assumes "wf_wheels ws" and "slot_tasks ws 0 s = seen @ ts" and "s = current_slot (ws ! 0)"
    and "\<forall>k\<in>set ts. spaced (tick_ms (ws ! 0) + lag) (ident k)" and "prompt lag clk" and "ident ` set ts \<subseteq> J"
  shows "\<exists>ws' tm'. process_loop clk 0 s (length seen) fired tm ws = Some (fired @ map tt_id (filter due ts), tm', ws') \<and>
    grows J {(0, s)} ws ws' \<and> slot_tasks ws' 0 s = seen @ waiting ts"
  using assms
proof (induction ts arbitrary: ws seen fired tm)
  case Nil
  then show ?case by (subst process_loop.simps) (auto simp: grows_refl Let_def)
next
  case (Cons k ts)
  have r: "0 < length ws" "s < length (slots (ws ! 0))" using current_slot_range [OF Cons.prems(1)] Cons.prems(3) by auto
  have next_ok: "\<exists>ws' tm'. process_loop clk 0 s (length seen') fired' tm1 (set_slot ws1 0 s (seen' @ ts)) =
        Some (fired' @ map tt_id (filter due ts), tm', ws') \<and> grows J {(0, s)} ws ws' \<and> slot_tasks ws' 0 s = seen' @ waiting ts"
    if g: "grows J {(0, s)} ws ws1" for seen' fired' tm1 ws1
  proof -
    have r1: "0 < length ws1" "s < length (slots (ws1 ! 0))" "current_slot (ws1 ! 0) = s" "tick_ms (ws1 ! 0) = tick_ms (ws ! 0)"
      using g r Cons.prems(3) by (auto simp: grows_def same_wheel_def)
    have g1: "grows J {(0, s)} ws1 (set_slot ws1 0 s (seen' @ ts))" by (intro grows_set_slot r1) simp
    note g2 = grows_trans [OF g g1]
    have "current_slot (set_slot ws1 0 s (seen' @ ts) ! 0) = s" "tick_ms (set_slot ws1 0 s (seen' @ ts) ! 0) = tick_ms (ws ! 0)"
      using g2 r(1) Cons.prems(3) by (auto simp: grows_def same_wheel_def)
    then have "\<exists>ws' tm'. process_loop clk 0 s (length seen') fired' tm1 (set_slot ws1 0 s (seen' @ ts)) =
        Some (fired' @ map tt_id (filter due ts), tm', ws') \<and> grows J {(0, s)} (set_slot ws1 0 s (seen' @ ts)) ws' \<and>
        slot_tasks ws' 0 s = seen' @ waiting ts"
      using Cons.prems(4-6) grows_wf [OF g2 Cons.prems(1)] r1 by (intro Cons.IH) (auto simp: slot_set_slot)
    then show ?thesis using grows_trans [OF g2] by blast
  qed
  have unfold: "process_loop clk 0 s (length seen) fired tm ws =
     (if cancelled k then process_loop clk 0 s (length seen) fired tm (set_slot ws 0 s (seen @ ts))
      else if 0 < rounds_left k
      then process_loop clk 0 s (Suc (length seen)) fired tm (set_slot ws 0 s (seen @ k\<lparr>rounds_left := rounds_left k - 1\<rparr> # ts))
      else let ws1 = reinsert (clk (2 * length fired)) (clk (2 * length fired + 1)) ws k; tm1 = (if 0 < interval k then insert (tt_id k) tm else tm)
           in process_loop clk 0 s (length seen) (fired @ [tt_id k]) tm1
                (set_slot ws1 0 s (erase_at (length seen) (slot_tasks ws1 0 s))))"
    by (subst process_loop.simps) (simp add: Cons.prems(2) Let_def)
  show ?case
  proof (cases "cancelled k \<or> 0 < rounds_left k")
    case True
    then have "\<not> due k" by (auto simp: due_def)
    then show ?thesis
      using True next_ok [OF grows_refl, of seen fired tm] next_ok [OF grows_refl, of "seen @ [k\<lparr>rounds_left := rounds_left k - 1\<rparr>]" fired tm]
      unfolding unfold by auto
  next
    case False
    let ?ws1 = "reinsert (clk (2 * length fired)) (clk (2 * length fired + 1)) ws k"
    have "ident k \<in> J" using Cons.prems(6) by simp
    then have g: "grows J {(0, s)} ws ?ws1"
      using place_in_grows [OF Cons.prems(1)] grows_refl by (auto simp: reinsert_def ident_def)
    have "slot_tasks ?ws1 0 s = seen @ k # ts"
      using place_in_leaves_current [OF Cons.prems(1) delay_left_prompt [OF Cons.prems(5)]] wf_wheels_hd [OF Cons.prems(1)] Cons.prems(2-4)
      by (auto simp: reinsert_def spaced_def ident_def wf_wheel_def)
    moreover have "due k" using False by (simp add: due_def)
    ultimately show ?thesis using next_ok [OF g, of seen "fired @ [tt_id k]"] False
      unfolding unfold by (auto simp: Let_def)
  qed
qed

section \<open>What one tick does to the slots\<close>

text \<open>
  The tasks a tick may move: those of the slot \<open>c\<close> being processed and of the upper layers. All
  other slots of layer 0 only get copies of these appended.
\<close>

definition movable :: "nat \<Rightarrow> wheel list \<Rightarrow> (nat \<times> int) set" where
  "movable c ws = {ident k | k l x. l < length ws \<and> x < length (slots (ws ! l)) \<and> k \<in> set (slot_tasks ws l x) \<and> (l = 0 \<longrightarrow> x = c)}"

definition moved :: "nat \<Rightarrow> wheel list \<Rightarrow> wheel list \<Rightarrow> bool" where
  "moved c ws0 ws \<longleftrightarrow> length ws = length ws0 \<and>
     (\<forall>l<length ws0. tick_ms (ws ! l) = tick_ms (ws0 ! l) \<and> wheel_size (ws ! l) = wheel_size (ws0 ! l) \<and>
        length (slots (ws ! l)) = length (slots (ws0 ! l)) \<and>
        (\<forall>x<length (slots (ws0 ! l)).
           if l = 0 \<and> x \<noteq> c
           then \<exists>extra. slot_tasks ws l x = slot_tasks ws0 l x @ extra \<and> ident ` set extra \<subseteq> movable c ws0
           else ident ` set (slot_tasks ws l x) \<subseteq> movable c ws0))"

lemma moved_keeps:
  assumes "moved c ws0 ws" and "ws0 \<noteq> []" and "x < length (slots (ws0 ! 0))" and "x \<noteq> c"
  obtains extra where "slot_tasks ws 0 x = slot_tasks ws0 0 x @ extra" and "ident ` set extra \<subseteq> movable c ws0"
proof -
  have "0 < length ws0" using assms(2) by simp
  with assms(1,3) have "if (0 :: nat) = 0 \<and> x \<noteq> c
      then \<exists>extra. slot_tasks ws 0 x = slot_tasks ws0 0 x @ extra \<and> ident ` set extra \<subseteq> movable c ws0
      else ident ` set (slot_tasks ws 0 x) \<subseteq> movable c ws0"
    unfolding moved_def by blast
  then show ?thesis using assms(4) that by auto
qed

lemma moved_others:
  assumes "moved c ws0 ws" and "l < length ws0" and "x < length (slots (ws0 ! l))" and "l = 0 \<longrightarrow> x = c"
  shows "ident ` set (slot_tasks ws l x) \<subseteq> movable c ws0"
proof -
  have "\<not> (l = 0 \<and> x \<noteq> c)" using assms(4) by blast
  with assms show ?thesis unfolding moved_def by presburger
qed

lemma moved_refl: "moved c ws ws"
  by (auto simp: moved_def movable_def)

lemma moved_grows:
  assumes m: "moved c ws0 ws" and g: "grows (movable c ws0) K ws ws'"
    and K: "\<And>l x. (l, x) \<in> K \<Longrightarrow> (l = 0 \<longrightarrow> x = c) \<and> ident ` set (slot_tasks ws' l x) \<subseteq> movable c ws0"
  shows "moved c ws0 ws'"
  unfolding moved_def
proof (intro conjI allI impI, goal_cases)
  case (5 l x)
  then have lx: "l < length ws" "x < length (slots (ws ! l))" using m by (auto simp: moved_def)
  show ?case
  proof (cases "(l, x) \<in> K")
    case True
    then show ?thesis using K by auto
  next
    case False
    then obtain e where e: "slot_tasks ws' l x = slot_tasks ws l x @ e" "ident ` set e \<subseteq> movable c ws0"
      using g lx unfolding grows_def by blast
    show ?thesis
    proof (cases "l = 0 \<and> x \<noteq> c")
      case True
      then obtain e0 where "slot_tasks ws l x = slot_tasks ws0 l x @ e0" "ident ` set e0 \<subseteq> movable c ws0"
        using moved_keeps [OF m, of x] 5 by auto
      then show ?thesis using True e by (auto intro!: exI [where x = "e0 @ e"])
    next
      case other: False
      then have "ident ` set (slot_tasks ws l x) \<subseteq> movable c ws0" using moved_others [OF m 5] by auto
      then show ?thesis using other e by auto
    qed
  qed
qed (use m g in \<open>auto simp: moved_def grows_def same_wheel_def\<close>)

lemma slot_tasks_advance: "layer < length ws \<Longrightarrow> slot_tasks (advance layer ws) l x = slot_tasks ws l x"
  by (auto simp: slot_tasks_def advance_def nth_list_update)

lemma moved_advance: "layer < length ws \<Longrightarrow> moved c ws0 ws \<Longrightarrow> moved c ws0 (advance layer ws)"
  unfolding moved_def by (auto simp: slot_tasks_advance) (auto simp: advance_def nth_list_update)

lemma wf_advance: "layer < length ws \<Longrightarrow> wf_wheels ws \<Longrightarrow> wf_wheels (advance layer ws)"
  by (auto simp: advance_def wf_wheels_def list_all_length wf_wheel_def nth_list_update)

lemma cascade_task_grows:
  assumes "wf_wheels ws" and "ident k \<in> J"
  shows "grows J K ws (cascade_task now now' ws k)"
  using assms place_in_grows [OF assms] grows_refl current_slot_range [OF assms(1)]
  by (auto simp: cascade_task_def intro!: grows_set_slot)

lemma cascade_tasks_grow:
  "wf_wheels ws \<Longrightarrow> ident ` set ts \<subseteq> J \<Longrightarrow>
     grows J K ws (foldl (\<lambda>ws (i, task). cascade_task (clk (2 * i)) (clk (2 * i + 1)) ws task) ws (enumerate n ts))"
proof (induction ts arbitrary: ws n)
  case (Cons k ts)
  let ?f = "\<lambda>ws (i, task). cascade_task (clk (2 * i)) (clk (2 * i + 1)) ws task"
  let ?ws1 = "cascade_task (clk (2 * n)) (clk (2 * n + 1)) ws k"
  have g: "grows J K ws ?ws1" using Cons.prems by (intro cascade_task_grows) auto
  have "grows J K ?ws1 (foldl ?f ?ws1 (enumerate (Suc n) ts))"
    using Cons.prems grows_wf [OF g] by (intro Cons.IH) auto
  then show ?case using grows_trans [OF g] by simp
qed (simp add: grows_refl)

lemma cascade_moved:
  assumes wf: "wf_wheels ws" and m: "moved c ws0 ws"
  shows "moved c ws0 (cascade clk layer ws) \<and> wf_wheels (cascade clk layer ws)"
proof (cases "layer = 0 \<or> length ws \<le> layer")
  case True
  then show ?thesis using assms by (auto simp: cascade_def)
next
  case False
  let ?s = "current_slot (ws ! layer)" and ?J = "movable c ws0"
  let ?ws1 = "set_slot ws layer ?s []" and ?f = "\<lambda>ws (i, task). cascade_task (clk (2 * i)) (clk (2 * i + 1)) ws task"
  have l: "layer < length ws" "0 < layer" using False by auto
  have s: "?s < length (slots (ws ! layer))" using wf l(1) by (simp add: wf_wheels_def list_all_length wf_wheel_def)
  have ts: "ident ` set (slot_tasks ws layer ?s) \<subseteq> ?J"
    using moved_others [OF m] m l s by (auto simp: moved_def)
  have g1: "grows ?J {(layer, ?s)} ws ?ws1" using l s by (intro grows_set_slot) auto
  have "moved c ws0 ?ws1" by (rule moved_grows [OF m g1]) (use l s in \<open>auto simp: slot_set_slot\<close>)
  moreover have "grows ?J {} ?ws1 (foldl ?f ?ws1 (enumerate 0 (slot_tasks ws layer ?s)))"
    by (rule cascade_tasks_grow [OF grows_wf [OF g1 wf] ts])
  ultimately have "moved c ws0 (foldl ?f ?ws1 (enumerate 0 (slot_tasks ws layer ?s)))"
    and "wf_wheels (foldl ?f ?ws1 (enumerate 0 (slot_tasks ws layer ?s)))"
    using moved_grows grows_wf [OF _ grows_wf [OF g1 wf]] by blast+
  then show ?thesis using False by (simp add: cascade_def Let_def)
qed

lemma moved_length: "moved c ws0 ws \<Longrightarrow> length ws = length ws0"
  by (simp add: moved_def)

lemma cascade_keeps_slot0: "wf_wheels ws \<Longrightarrow> current_slot (cascade clk layer ws ! 0) = current_slot (ws ! 0)"
proof (cases "layer = 0 \<or> length ws \<le> layer")
  case True
  then show ?thesis by (auto simp: cascade_def)
next
  case False
  assume wf: "wf_wheels ws"
  let ?s = "current_slot (ws ! layer)"
  have s: "?s < length (slots (ws ! layer))" using wf False by (simp add: wf_wheels_def list_all_length wf_wheel_def)
  have g1: "grows UNIV {(layer, ?s)} ws (set_slot ws layer ?s [])" using False s by (intro grows_set_slot) auto
  have "grows UNIV {} (set_slot ws layer ?s []) (cascade clk layer ws)"
    using cascade_tasks_grow [OF grows_wf [OF g1 wf], of "slot_tasks ws layer ?s" UNIV] False by (simp add: cascade_def Let_def)
  then show ?thesis using g1 wf_wheels_nonempty [OF wf] by (auto simp: grows_def same_wheel_def)
qed

lemma cascade_all_moved:
  assumes wf: "wf_wheels ws" and m: "moved c ws0 ws"
  shows "\<exists>ws'. cascade_all clk ws = Inr ws' \<and> moved c ws0 ws' \<and> wf_wheels ws' \<and> current_slot (ws' ! 0) = current_slot (ws ! 0)"
proof -
  have step: "moved c ws0 (advance l (cascade (clk l) l v)) \<and> wf_wheels (advance l (cascade (clk l) l v)) \<and>
      current_slot (advance l (cascade (clk l) l v) ! 0) = current_slot (v ! 0) \<and> length (advance l (cascade (clk l) l v)) = length v"
    if "wf_wheels v" "moved c ws0 v" "0 < l" "l < length v" for l v
  proof -
    have c: "moved c ws0 (cascade (clk l) l v)" "wf_wheels (cascade (clk l) l v)" using cascade_moved that by auto
    then have len: "length (cascade (clk l) l v) = length v" using moved_length that(2) by fastforce
    have "current_slot (advance l (cascade (clk l) l v) ! 0) = current_slot (cascade (clk l) l v ! 0)"
      using that(3) by (simp add: advance_def)
    moreover have "l < length (cascade (clk l) l v)" using len that(4) by simp
    ultimately show ?thesis
      using moved_advance [OF _ c(1)] wf_advance [OF _ c(2)] cascade_keeps_slot0 [OF that(1)] len
      by (simp add: advance_def)
  qed
  have two: "2 \<le> length ws" using wf by (simp add: wf_wheels_def)
  let ?w1 = "advance 1 (cascade (clk 1) 1 ws)"
  let ?w2 = "advance 2 (cascade (clk 2) 2 ?w1)"
  have 1: "moved c ws0 ?w1" "wf_wheels ?w1" "current_slot (?w1 ! 0) = current_slot (ws ! 0)" "length ?w1 = length ws"
    using step [OF wf m, of 1] two by auto
  have 2: "2 < length ?w1 \<Longrightarrow> moved c ws0 ?w2 \<and> wf_wheels ?w2 \<and> current_slot (?w2 ! 0) = current_slot (ws ! 0) \<and> length ?w2 = length ws"
    using step [OF 1(2,1), of 2] 1(3,4) by simp
  have 3: "3 < length ?w2 \<Longrightarrow> 2 < length ?w1 \<Longrightarrow> moved c ws0 (advance 3 (cascade (clk 3) 3 ?w2)) \<and> wf_wheels (advance 3 (cascade (clk 3) 3 ?w2)) \<and>
      current_slot (advance 3 (cascade (clk 3) 3 ?w2) ! 0) = current_slot (ws ! 0)"
    using step [of ?w2 3] 2 by simp
  show ?thesis using wf m two 1 2 3 unfolding cascade_all_def Let_def by auto
qed

definition idents :: "wheel list \<Rightarrow> (nat \<times> int) set" where
  "idents ws = {ident k | k l x. l < length ws \<and> x < length (slots (ws ! l)) \<and> k \<in> set (slot_tasks ws l x)}"

text \<open>No repeating timer has an interval shorter than a tick and the lag of the clock.\<close>

definition timers_ok :: "int \<Rightarrow> wheel list \<Rightarrow> bool" where
  "timers_ok lag ws \<longleftrightarrow> wf_wheels ws \<and> (\<forall>j\<in>idents ws. spaced (tick_ms (ws ! 0) + lag) j)"

lemma moved_idents:
  assumes "moved c ws0 ws" and "ws0 \<noteq> []"
  shows "idents ws \<subseteq> idents ws0"
proof
  fix j assume "j \<in> idents ws"
  then obtain k l x where k: "j = ident k" "l < length ws0" "x < length (slots (ws0 ! l))" "k \<in> set (slot_tasks ws l x)"
    using assms(1) by (auto simp: idents_def moved_def)
  have sub: "movable c ws0 \<subseteq> idents ws0" by (auto simp: movable_def idents_def)
  show "j \<in> idents ws0"
  proof (cases "l = 0 \<and> x \<noteq> c")
    case True
    then obtain e where "slot_tasks ws 0 x = slot_tasks ws0 0 x @ e" "ident ` set e \<subseteq> movable c ws0"
      using moved_keeps [OF assms(1,2), of x] k(3) by auto
    then have "k \<in> set (slot_tasks ws0 0 x) \<or> j \<in> movable c ws0" using k True by auto
    then show ?thesis using k True sub by (auto simp: idents_def)
  next
    case False
    then show ?thesis using moved_others [OF assms(1) k(2,3)] k sub by auto
  qed
qed

text \<open>A tick returns, runs exactly the due tasks of the current slot, and moves only movable tasks.\<close>

lemma tick_spec:
  assumes ok: "timers_ok lag (wheels t)" and pr: "prompt lag (clk 0)"
  defines "c \<equiv> current_slot (wheels t ! 0)"
  shows "\<exists>t'. tick clk t = Some (Inr (map tt_id (filter due (slot_tasks (wheels t) 0 c)), t')) \<and>
    moved c (wheels t) (wheels t') \<and> timers_ok lag (wheels t') \<and>
    current_slot (wheels t' ! 0) = (c + 1) mod wheel_size (wheels t ! 0)"
proof -
  let ?ws = "wheels t"
  have wf: "wf_wheels ?ws" using ok by (simp add: timers_ok_def)
  note r = current_slot_range [OF wf]
  have id: "ident ` set (slot_tasks ?ws 0 c) \<subseteq> movable c ?ws" "ident ` set (slot_tasks ?ws 0 c) \<subseteq> idents ?ws"
    using r by (auto simp: movable_def idents_def c_def)
  then have sp: "\<forall>k\<in>set (slot_tasks ?ws 0 c). spaced (tick_ms (?ws ! 0) + lag) (ident k)" using ok by (auto simp: timers_ok_def)
  obtain ws1 tm where p: "process_loop (clk 0) 0 c 0 [] (task_map t) ?ws = Some (map tt_id (filter due (slot_tasks ?ws 0 c)), tm, ws1)"
    and g: "grows (movable c ?ws) {(0, c)} ?ws ws1" and w: "slot_tasks ws1 0 c = waiting (slot_tasks ?ws 0 c)"
    using process_loop_spec [OF wf, of c "[]" "slot_tasks ?ws 0 c" lag "clk 0" "movable c ?ws" "[]" "task_map t"] sp id(1) pr
    by (auto simp: c_def)
  have "ident ` set (waiting ts) \<subseteq> ident ` set ts" for ts by (auto simp: waiting_def ident_def image_iff)
  then have m1: "moved c ?ws ws1" using id(1) w by (intro moved_grows [OF moved_refl g]) auto
  have wf1: "wf_wheels ws1" by (rule grows_wf [OF g wf])
  have l1: "0 < length ws1" using wf_wheels_nonempty [OF wf1] by simp
  have "moved c ?ws (advance 0 ws1)" "wf_wheels (advance 0 ws1)"
    using moved_advance [OF l1 m1] wf_advance [OF l1 wf1] by auto
  then obtain ws2 where c2: "cascade_all clk (advance 0 ws1) = Inr ws2" "moved c ?ws ws2" "wf_wheels ws2"
    "current_slot (ws2 ! 0) = current_slot (advance 0 ws1 ! 0)"
    using cascade_all_moved by blast
  have "current_slot (advance 0 ws1 ! 0) = (c + 1) mod wheel_size (?ws ! 0)"
    using g l1 r by (auto simp: advance_def grows_def same_wheel_def c_def)
  moreover have "tick_ms (ws2 ! 0) = tick_ms (?ws ! 0)" using c2(2) r by (auto simp: moved_def)
  moreover have "idents ws2 \<subseteq> idents ?ws" using moved_idents [OF c2(2) wf_wheels_nonempty [OF wf]] .
  ultimately show ?thesis
    using p c2 ok wf_wheels_nonempty [OF wf] unfolding tick_def c_def timers_ok_def by auto
qed

section \<open>A timer in layer 0\<close>

primrec run_ticks :: "timer_wheel \<Rightarrow> (nat \<Rightarrow> nat \<Rightarrow> int) list \<Rightarrow> (cpp_error + nat list list \<times> timer_wheel) option" where
  "run_ticks t [] = Some (Inr ([], t))"
| "run_ticks t (clk # ns) =
     (case tick clk t of
        None \<Rightarrow> None
      | Some (Inl err) \<Rightarrow> Some (Inl err)
      | Some (Inr (fired, t')) \<Rightarrow>
          (case run_ticks t' ns of
             None \<Rightarrow> None
           | Some (Inl err) \<Rightarrow> Some (Inl err)
           | Some (Inr (fs, t'')) \<Rightarrow> Some (Inr (fired # fs, t''))))"

text \<open>The only task with the id \<open>y\<close> is \<open>k\<close>, in the slot \<open>x\<close> of layer 0.\<close>

definition sole_task :: "wheel list \<Rightarrow> nat \<Rightarrow> nat \<Rightarrow> timer_task \<Rightarrow> bool" where
  "sole_task ws x y k \<longleftrightarrow> x < length (slots (ws ! 0)) \<and> filter (\<lambda>k. tt_id k = y) (slot_tasks ws 0 x) = [k] \<and>
     (\<forall>l<length ws. \<forall>x'<length (slots (ws ! l)). (l, x') \<noteq> (0, x) \<longrightarrow> y \<notin> tt_id ` set (slot_tasks ws l x'))"

lemma sole_elsewhere:
  "sole_task ws x y k \<Longrightarrow> l < length ws \<Longrightarrow> x' < length (slots (ws ! l)) \<Longrightarrow> (l, x') \<noteq> (0, x) \<Longrightarrow>
     y \<notin> tt_id ` set (slot_tasks ws l x')"
  unfolding sole_task_def by blast

lemma sole_not_movable:
  assumes sole: "sole_task ws x y k" and "c \<noteq> x"
  shows "y \<notin> fst ` movable c ws"
proof
  assume "y \<in> fst ` movable c ws"
  then obtain k' l x' where k: "tt_id k' = y" "l < length ws" "x' < length (slots (ws ! l))" "k' \<in> set (slot_tasks ws l x')" "l = 0 \<longrightarrow> x' = c"
    by (auto simp: movable_def ident_def)
  then have "(l, x') \<noteq> (0, x)" using assms(2) by auto
  then have "y \<notin> tt_id ` set (slot_tasks ws l x')" using sole k(2,3) unfolding sole_task_def by blast
  then show False using k(1,4) by blast
qed

lemma sole_task_moved:
  assumes sole: "sole_task ws x y k" and m: "moved c ws ws'" and "c \<noteq> x" and "ws \<noteq> []"
  shows "sole_task ws' x y k"
proof -
  have x: "x < length (slots (ws ! 0))" using sole by (simp add: sole_task_def)
  note y = sole_not_movable [OF sole assms(3)]
  have none: "y \<notin> tt_id ` set ks" if "ident ` set ks \<subseteq> movable c ws" for ks
    using that y by (force simp: ident_def)
  obtain e where e: "slot_tasks ws' 0 x = slot_tasks ws 0 x @ e" "ident ` set e \<subseteq> movable c ws"
    using moved_keeps [OF m assms(4) x] assms(3) by metis
  have "filter (\<lambda>k. tt_id k = y) e = []" using none [OF e(2)] by (auto simp: filter_empty_conv)
  then have f: "filter (\<lambda>k. tt_id k = y) (slot_tasks ws' 0 x) = [k]" using sole e(1) by (simp add: sole_task_def)
  have "y \<notin> tt_id ` set (slot_tasks ws' l x')"
    if l: "l < length ws" "x' < length (slots (ws ! l))" "(l, x') \<noteq> (0, x)" for l x'
  proof (cases "l = 0 \<and> x' \<noteq> c")
    case True
    then obtain e' where "slot_tasks ws' 0 x' = slot_tasks ws 0 x' @ e'" "ident ` set e' \<subseteq> movable c ws"
      using moved_keeps [OF m assms(4), of x'] l by auto
    moreover have "y \<notin> tt_id ` set (slot_tasks ws 0 x')" using sole l True by (auto simp: sole_task_def)
    ultimately show ?thesis using none [of e'] True by auto
  next
    case False
    then show ?thesis using none moved_others [OF m l(1,2)] by blast
  qed
  moreover have "length ws' = length ws" "\<forall>l<length ws. length (slots (ws' ! l)) = length (slots (ws ! l))"
    using m by (auto simp: moved_def)
  ultimately show ?thesis using f x assms(4) by (auto simp: sole_task_def)
qed

lemma run_ticks_fires:
  assumes "timers_ok lag (wheels t)" and "sole_task (wheels t) x y k" and "due k"
    and "(current_slot (wheels t ! 0) + length ns) mod wheel_size (wheels t ! 0) = x"
    and "length ns < wheel_size (wheels t ! 0)" and "list_all (\<lambda>clk. prompt lag (clk 0)) (ns @ [now])"
  shows "\<exists>fs f t'. run_ticks t (ns @ [now]) = Some (Inr (fs @ [f], t')) \<and> length fs = length ns \<and>
    (\<forall>g\<in>set fs. y \<notin> set g) \<and> count_list f y = 1"
  using assms
proof (induction ns arbitrary: t)
  case Nil
  have wf: "wf_wheels (wheels t)" using Nil.prems(1) by (simp add: timers_ok_def)
  let ?c = "current_slot (wheels t ! 0)"
  have "?c < wheel_size (wheels t ! 0)" using wf_wheels_hd [OF wf] by (simp add: wf_wheel_def)
  then have c: "?c = x" using Nil.prems(4) by simp
  have cnt: "count_list (map tt_id ts) y = length (filter (\<lambda>k. tt_id k = y) ts)" for ts by (induction ts) auto
  have "count_list (map tt_id (filter due (slot_tasks (wheels t) 0 x))) y =
      length (filter due (filter (\<lambda>k. tt_id k = y) (slot_tasks (wheels t) 0 x)))"
    by (simp only: cnt filter_filter conj_commute)
  also have "\<dots> = 1" using Nil.prems(2,3) by (simp add: sole_task_def)
  finally show ?case using tick_spec [OF Nil.prems(1), of now] Nil.prems(6) c by auto
next
  case (Cons n ns)
  have wf: "wf_wheels (wheels t)" using Cons.prems(1) by (simp add: timers_ok_def)
  let ?c = "current_slot (wheels t ! 0)" and ?n = "wheel_size (wheels t ! 0)"
  have cn: "?c < ?n" "length (slots (wheels t ! 0)) = ?n"
    using wf_wheels_hd [OF wf] by (simp_all add: wf_wheel_def)
  have ne: "?c \<noteq> x"
  proof
    assume "?c = x"
    then have "(?c + Suc (length ns)) mod ?n = ?c mod ?n" using Cons.prems(4) cn by simp
    then have "?n dvd Suc (length ns)" using mod_eq_dvd_iff_nat [of ?c "?c + Suc (length ns)" ?n] by simp
    then show False using Cons.prems(5) by (auto dest: dvd_imp_le)
  qed
  obtain t' where t': "tick n t = Some (Inr (map tt_id (filter due (slot_tasks (wheels t) 0 ?c)), t'))"
    "moved ?c (wheels t) (wheels t')" "timers_ok lag (wheels t')" "current_slot (wheels t' ! 0) = (?c + 1) mod ?n"
    using tick_spec [OF Cons.prems(1), of n] Cons.prems(6) by auto
  have sz: "wheel_size (wheels t' ! 0) = ?n" using t'(2) wf_wheels_nonempty [OF wf] by (auto simp: moved_def)
  have "sole_task (wheels t') x y k"
    using sole_task_moved [OF Cons.prems(2) t'(2) ne wf_wheels_nonempty [OF wf]] .
  moreover have "(current_slot (wheels t' ! 0) + length ns) mod wheel_size (wheels t' ! 0) = x"
    using Cons.prems(4) by (simp add: t'(4) sz mod_simps)
  ultimately obtain fs f t'' where "run_ticks t' (ns @ [now]) = Some (Inr (fs @ [f], t''))" "length fs = length ns"
    "\<forall>g\<in>set fs. y \<notin> set g" "count_list f y = 1"
    using Cons.IH [OF t'(3)] Cons.prems(3,5,6) sz by fastforce
  moreover have "y \<notin> set (map tt_id (filter due (slot_tasks (wheels t) 0 ?c)))"
    using sole_elsewhere [OF Cons.prems(2), of 0 ?c] cn ne wf_wheels_nonempty [OF wf] by auto
  ultimately show ?case using t'(1)
    by (intro exI [where x = "map tt_id (filter due (slot_tasks (wheels t) 0 ?c)) # fs"] exI [where x = f] exI [where x = t'']) auto
qed

text \<open>A new one-shot timer of less than one turn of layer 0 is the sole task with its id.\<close>

lemma add_timer_sole:
  assumes wf: "wf_wheels (wheels t)" and fresh: "\<forall>j\<in>idents (wheels t). fst j < next_id t"
    and d0: "0 < delay" and d: "0 < left" "left < total_ms (wheels t ! 0)" and left: "left = delay_left (now + delay) now'"
  defines "x \<equiv> (current_slot (wheels t ! 0) + nat (left div tick_ms (wheels t ! 0))) mod wheel_size (wheels t ! 0)"
  shows "\<exists>t' k. add_timer now now' t delay True = Inr (\<lparr>th_id = next_id t, th_valid = True\<rparr>, t') \<and>
    sole_task (wheels t') x (next_id t) k \<and> due k \<and> interval k = 0 \<and> grows {(next_id t, 0)} {} (wheels t) (wheels t')"
proof -
  let ?ws = "wheels t" and ?w = "wheels t ! 0"
  let ?q = "left div tick_ms ?w"
  let ?base = "\<lparr>tt_id = next_id t, expire_time = now + delay, interval = 0, rounds_left = 0, cancelled = False\<rparr>"
  let ?k = "?base\<lparr>rounds_left := ?q div int (wheel_size ?w)\<rparr>"
  have w: "wf_wheel ?w" "0 < tick_ms ?w" using wf_wheels_hd [OF wf] by (auto simp: wf_wheel_def)
  have q0: "0 \<le> ?q" using d(1) w(2) by (simp add: pos_imp_zdiv_nonneg_iff)
  have "?q * tick_ms ?w \<le> left" using w(2) by (simp add: minus_mod_eq_div_mult [symmetric])
  then have "?q * tick_ms ?w < int (wheel_size ?w) * tick_ms ?w" using d(2) by (simp add: total_ms_def)
  then have q: "?q < int (wheel_size ?w)" using w(2) by simp
  have xs: "nat ((int (current_slot ?w) + ?q) mod int (wheel_size ?w)) = x"
  proof -
    have "int (current_slot ?w) + ?q = int (current_slot ?w + nat ?q)" using q0 by simp
    then show ?thesis unfolding x_def by (simp only: zmod_int [symmetric] nat_int)
  qed
  have x: "x < length (slots ?w)" using w(1) by (auto simp: x_def wf_wheel_def)
  let ?ws' = "set_slot ?ws 0 x (slot_tasks ?ws 0 x @ [?k])"
  obtain w0 wr where ws: "?ws = w0 # wr" using wf_wheels_cons [OF wf] by blast
  have "place w0 left ?base = w0\<lparr>slots := (slots w0)[x := slots w0 ! x @ [?k]]\<rparr>"
    unfolding place_set_slot using xs by (simp add: ws)
  then have "place_in ?ws left ?base = ?ws'"
    using d(2) by (simp add: ws set_slot_def slot_tasks_def)
  then have add: "add_timer now now' t delay True = Inr (\<lparr>th_id = next_id t, th_valid = True\<rparr>,
      t\<lparr>wheels := ?ws', next_id := next_id t + 1, task_map := insert (next_id t) (task_map t)\<rparr>)"
    using d0 left wf_wheels_nonempty [OF wf] by (simp add: add_timer_def add_task_def add_task_to_wheel_def Let_def)
  have l0: "0 < length ?ws" using wf_wheels_nonempty [OF wf] by simp
  have old: "next_id t \<notin> tt_id ` set (slot_tasks ?ws l x')" if "l < length ?ws" "x' < length (slots (?ws ! l))" for l x'
    using fresh that by (force simp: idents_def ident_def)
  have g: "grows {(next_id t, 0)} {} ?ws ?ws'"
    by (intro grows_set_slot l0 x) (auto simp: ident_def)
  then have len: "length ?ws' = length ?ws" "\<forall>l<length ?ws. length (slots (?ws' ! l)) = length (slots (?ws ! l))"
    by (auto simp: grows_def same_wheel_def)
  have "filter (\<lambda>k. tt_id k = next_id t) (slot_tasks ?ws 0 x) = []" using old [OF l0 x] by (auto simp: filter_empty_conv image_iff)
  then have "sole_task ?ws' x (next_id t) ?k"
    using old x l0 len by (auto simp: sole_task_def slot_set_slot)
  moreover have "due ?k" using q q0 by (simp add: due_def)
  ultimately show ?thesis using add g by auto
qed

section \<open>Repeating faster than the tick\<close>

text \<open>A live task with an interval below one tick ahead of the iterator in the current slot.\<close>

definition spinning :: "wheel list \<Rightarrow> nat \<Rightarrow> nat \<Rightarrow> bool" where
  "spinning ws s i \<longleftrightarrow> wf_wheels ws \<and> s = current_slot (ws ! 0) \<and>
     (\<exists>k\<in>set (drop i (slot_tasks ws 0 s)). due k \<and> 0 < interval k \<and> interval k < tick_ms (ws ! 0))"

lemma place_in_current:
  assumes wf: "wf_wheels ws" and "0 < d" and "d < tick_ms (ws ! 0)"
  shows "place_in ws d task = set_slot ws 0 (current_slot (ws ! 0))
    (slot_tasks ws 0 (current_slot (ws ! 0)) @ [task\<lparr>rounds_left := 0\<rparr>])"
proof -
  obtain w ws' where ws: "ws = w # ws'" using wf_wheels_cons [OF wf] by blast
  have w: "current_slot w < wheel_size w" "0 < tick_ms w" using wf_wheels_hd [OF wf] by (auto simp: ws wf_wheel_def)
  have "tick_ms w \<le> int (wheel_size w) * tick_ms w" using w by (simp add: mult_le_cancel_right1)
  then have "d < total_ms w" using assms(3) by (simp add: ws total_ms_def)
  moreover have "d div tick_ms w = 0" using assms(2,3) by (simp add: ws div_pos_pos_trivial)
  ultimately show ?thesis using w by (simp add: ws place_set_slot set_slot_def slot_tasks_def)
qed

lemma spinning_set_slot:
  assumes "wf_wheels ws" and "s = current_slot (ws ! 0)"
    and "\<exists>k\<in>set (drop i ts). due k \<and> 0 < interval k \<and> interval k < tick_ms (ws ! 0)"
  shows "spinning (set_slot ws 0 s ts) s i"
proof -
  note r = current_slot_range [OF assms(1)]
  have g: "grows UNIV {(0, s)} ws (set_slot ws 0 s ts)" using r assms(2) by (intro grows_set_slot) auto
  then have "current_slot (set_slot ws 0 s ts ! 0) = s" "tick_ms (set_slot ws 0 s ts ! 0) = tick_ms (ws ! 0)"
    using r assms(2) by (auto simp: grows_def same_wheel_def)
  then show ?thesis using grows_wf [OF g assms(1)] assms(3) r by (simp add: spinning_def slot_set_slot assms(2))
qed

lemma drop_erase_at: "i < length ts \<Longrightarrow> drop i (erase_at i (ts @ e)) = drop (Suc i) ts @ e"
  by (simp add: erase_at_def)

lemma reinsert_current:
  assumes wf: "wf_wheels ws" and "s = current_slot (ws ! 0)" and "now \<le> now'"
  shows "\<exists>e. slot_tasks (reinsert now now' ws k) 0 s = slot_tasks ws 0 s @ e \<and>
    grows {ident k} {} ws (reinsert now now' ws k) \<and>
    (due k \<and> 0 < interval k \<and> interval k < tick_ms (ws ! 0) \<longrightarrow>
       (\<exists>k'\<in>set e. due k' \<and> interval k' = interval k))"
proof -
  note r = current_slot_range [OF wf]
  have g: "grows {ident k} {} ws (reinsert now now' ws k)"
    using place_in_grows [OF wf] grows_refl by (auto simp: reinsert_def ident_def)
  then obtain e where e: "slot_tasks (reinsert now now' ws k) 0 s = slot_tasks ws 0 s @ e"
    using r assms(2) unfolding grows_def by blast
  moreover have "\<exists>k'\<in>set e. due k' \<and> interval k' = interval k"
    if "due k" "0 < interval k" "interval k < tick_ms (ws ! 0)"
  proof -
    let ?k = "k\<lparr>expire_time := now + interval k\<rparr>\<lparr>rounds_left := 0\<rparr>"
    have "reinsert now now' ws k = set_slot ws 0 s (slot_tasks ws 0 s @ [?k])"
      using place_in_current [OF wf, of "delay_left (now + interval k) now'" "k\<lparr>expire_time := now + interval k\<rparr>"]
        delay_left_bounds [OF assms(3) that(2)] that(2,3) assms(2) by (simp add: reinsert_def)
    then have "e = [?k]" using e r assms(2) by (simp add: slot_set_slot)
    then show ?thesis using that(1) by (simp add: due_def)
  qed
  ultimately show ?thesis using g by blast
qed

lemma spinning_step:
  assumes sp: "spinning ws s i" and mono: "now \<le> now'"
  defines "ts \<equiv> slot_tasks ws 0 s"
  shows "i < length ts"
    and "spinning (set_slot ws 0 s (erase_at i ts)) s i \<or> \<not> cancelled (ts ! i)"
    and "spinning (set_slot ws 0 s (ts[i := k])) s (Suc i) \<or> \<not> (cancelled (ts ! i) \<or> 0 < rounds_left (ts ! i))"
    and "due (ts ! i) \<Longrightarrow> spinning (set_slot (reinsert now now' ws (ts ! i)) 0 s
           (erase_at i (slot_tasks (reinsert now now' ws (ts ! i)) 0 s))) s i"
proof -
  have wf: "wf_wheels ws" and s: "s = current_slot (ws ! 0)" using sp by (auto simp: spinning_def)
  obtain k0 where k0: "k0 \<in> set (drop i ts)" "due k0" "0 < interval k0" "interval k0 < tick_ms (ws ! 0)"
    using sp by (auto simp: spinning_def ts_def)
  show i: "i < length ts" using k0(1) by (cases "i < length ts") auto
  then have hd: "drop i ts = ts ! i # drop (Suc i) ts" by (simp add: Cons_nth_drop_Suc)
  have rest: "k0 \<in> set (drop (Suc i) ts)" if "\<not> due (ts ! i)" using k0(1,2) that by (auto simp: hd)
  have sp': "spinning (set_slot ws 0 s ts') s j" if "drop j ts' = drop (Suc i) ts" "\<not> due (ts ! i)" for ts' j
    using spinning_set_slot [OF wf s, of j ts'] rest [OF that(2)] k0 that(1) by auto
  have "\<not> due (ts ! i)" if "cancelled (ts ! i) \<or> 0 < rounds_left (ts ! i)" using that by (auto simp: due_def)
  then show "spinning (set_slot ws 0 s (erase_at i ts)) s i \<or> \<not> cancelled (ts ! i)"
    and "spinning (set_slot ws 0 s (ts[i := k])) s (Suc i) \<or> \<not> (cancelled (ts ! i) \<or> 0 < rounds_left (ts ! i))"
    using sp' [of i "erase_at i ts"] sp' [of "Suc i" "ts[i := k]"] drop_erase_at [OF i, of "[]"] by auto
  assume due: "due (ts ! i)"
  let ?ws1 = "reinsert now now' ws (ts ! i)"
  obtain e where e: "slot_tasks ?ws1 0 s = ts @ e" "grows {ident (ts ! i)} {} ws ?ws1"
    "0 < interval (ts ! i) \<and> interval (ts ! i) < tick_ms (ws ! 0) \<longrightarrow> (\<exists>k'\<in>set e. due k' \<and> interval k' = interval (ts ! i))"
    using reinsert_current [OF wf s mono, of "ts ! i"] due by (auto simp: ts_def)
  have "\<exists>k\<in>set (drop (Suc i) ts @ e). due k \<and> 0 < interval k \<and> interval k < tick_ms (ws ! 0)"
    using k0 e(3) by (auto simp: hd)
  moreover have "current_slot (?ws1 ! 0) = s" "tick_ms (?ws1 ! 0) = tick_ms (ws ! 0)"
    using e(2) s wf_wheels_nonempty [OF wf] by (auto simp: grows_def same_wheel_def)
  ultimately show "spinning (set_slot ?ws1 0 s (erase_at i (slot_tasks ?ws1 0 s))) s i"
    using grows_wf [OF e(2) wf] i by (intro spinning_set_slot) (simp_all add: e(1) drop_erase_at)
qed

lemma process_loop_returns_not_spinning:
  "process_loop clk layer s i fired tm ws = Some r \<Longrightarrow> layer = 0 \<Longrightarrow> (\<And>n. clk (2 * n) \<le> clk (2 * n + 1)) \<Longrightarrow> \<not> spinning ws s i"
proof (induction rule: process_loop.raw_induct [rotated, consumes 1, case_names step])
  case (step f clk layer s i fired tm ws r)
  show ?case
  proof
    assume sp: "spinning ws s i"
    let ?ts = "slot_tasks ws 0 s"
    let ?k = "?ts ! i"
    note st = spinning_step [OF sp step.prems(2) [of "length fired"]]
    note body = step.hyps [unfolded Let_def step.prems(1)]
    consider "cancelled ?k" | "\<not> cancelled ?k" "0 < rounds_left ?k" | "due ?k" "\<not> cancelled ?k" "\<not> 0 < rounds_left ?k"
      by (auto simp: due_def)
    then show False
    proof cases
      case 1
      then have "f clk 0 s i fired tm (set_slot ws 0 s (erase_at i ?ts)) = Some r" using body st(1) by simp
      then show False using step.IH [OF _ refl step.prems(2)] st(2) 1 by blast
    next
      case 2
      then have "f clk 0 s (Suc i) fired tm (set_slot ws 0 s (?ts[i := ?k\<lparr>rounds_left := rounds_left ?k - 1\<rparr>])) = Some r"
        using body st(1) by simp
      then show False using step.IH [OF _ refl step.prems(2)] st(3) 2 by blast
    next
      case 3
      then have "f clk 0 s i (fired @ [tt_id ?k]) (if 0 < interval ?k then insert (tt_id ?k) tm else tm)
          (set_slot (reinsert (clk (2 * length fired)) (clk (2 * length fired + 1)) ws ?k) 0 s (erase_at i (slot_tasks (reinsert (clk (2 * length fired)) (clk (2 * length fired + 1)) ws ?k) 0 s))) = Some r"
        using body st(1) by simp
      then show False using step.IH [OF _ refl step.prems(2)] st(4) 3(1) by blast
    qed
  qed
qed

section \<open>Properties\<close>

lemma grows_idents: "grows J {} ws ws' \<Longrightarrow> idents ws' \<subseteq> idents ws \<union> J"
proof
  fix j assume g: "grows J {} ws ws'" and "j \<in> idents ws'"
  then obtain k l x where k: "j = ident k" "l < length ws" "x < length (slots (ws ! l))" "k \<in> set (slot_tasks ws' l x)"
    by (auto simp: idents_def grows_def same_wheel_def)
  then obtain e where "slot_tasks ws' l x = slot_tasks ws l x @ e" "ident ` set e \<subseteq> J"
    using g unfolding grows_def by blast
  then show "j \<in> idents ws \<union> J" using k by (auto simp: idents_def)
qed

lemma timers_ok_grows:
  assumes "timers_ok lag ws" and "grows {j} {} ws ws'" and "spaced (tick_ms (ws ! 0) + lag) j"
  shows "timers_ok lag ws'"
proof -
  have "tick_ms (ws' ! 0) = tick_ms (ws ! 0)"
    using assms(1,2) by (auto simp: timers_ok_def grows_def same_wheel_def dest: wf_wheels_nonempty)
  then show ?thesis
    using assms grows_wf [OF assms(2)] grows_idents [OF assms(2)] unfolding timers_ok_def by auto
qed

lemma timers_ok_init:
  assumes "0 < tck" and "0 < n" and "2 \<le> m"
  shows "timers_ok lag (wheels (timer_wheel_init tck n m))" and "idents (wheels (timer_wheel_init tck n m)) = {}"
  using assms by (auto simp: timers_ok_def wf_wheels_def wf_wheel_def list_all_length timer_wheel_init_def new_wheel_def idents_def
      slot_tasks_def)

text \<open>A timer that was just added, with less than a turn left, under any further ticks.\<close>

lemma add_timer_fires:
  assumes "timers_ok lag (wheels t)" and "\<forall>j\<in>idents (wheels t). fst j < next_id t"
    and "0 < delay" and "delay < total_ms (wheels t ! 0)" and "now \<le> now'" and "left = delay_left (now + delay) now'"
    and "length ns = nat (left div tick_ms (wheels t ! 0))" and "list_all (\<lambda>clk. prompt lag (clk 0)) (ns @ [n'])"
  shows "\<exists>h t1 fs f t2. add_timer now now' t delay True = Inr (h, t1) \<and>
    run_ticks t1 (ns @ [n']) = Some (Inr (fs @ [f], t2)) \<and> length fs = length ns \<and>
    (\<forall>g\<in>set fs. th_id h \<notin> set g) \<and> count_list f (th_id h) = 1"
proof -
  let ?w = "wheels t ! 0"
  let ?x = "(current_slot ?w + nat (left div tick_ms ?w)) mod wheel_size ?w"
  have wf: "wf_wheels (wheels t)" using assms(1) by (simp add: timers_ok_def)
  have d: "0 < left" "left < total_ms ?w" using delay_left_bounds [OF assms(5,3)] assms(4,6) by simp_all
  obtain t1 k where t1: "add_timer now now' t delay True = Inr (\<lparr>th_id = next_id t, th_valid = True\<rparr>, t1)"
    "sole_task (wheels t1) ?x (next_id t) k" "due k" "grows {(next_id t, 0)} {} (wheels t) (wheels t1)"
    using add_timer_sole [OF wf assms(2,3) d assms(6)] by blast
  have same: "current_slot (wheels t1 ! 0) = current_slot ?w" "wheel_size (wheels t1 ! 0) = wheel_size ?w"
    using t1(4) wf_wheels_nonempty [OF wf] by (auto simp: grows_def same_wheel_def)
  have tk: "0 < tick_ms ?w" using wf_wheels_hd [OF wf] by (simp add: wf_wheel_def)
  have "(left div tick_ms ?w) * tick_ms ?w \<le> left" using tk by (simp add: minus_mod_eq_div_mult [symmetric])
  then have "left div tick_ms ?w * tick_ms ?w < int (wheel_size ?w) * tick_ms ?w" using d(2) by (simp add: total_ms_def)
  then have "nat (left div tick_ms ?w) < wheel_size ?w" using tk d(1) by (simp add: nat_less_iff pos_imp_zdiv_nonneg_iff)
  moreover have "timers_ok lag (wheels t1)" by (rule timers_ok_grows [OF assms(1) t1(4)]) (simp add: spaced_def)
  ultimately show ?thesis
    using run_ticks_fires [OF _ t1(2,3), of lag ns n'] same assms(7,8) t1(1) by fastforce
qed


text \<open>
  A repeating timer with an interval shorter than the tick of the first wheel hangs the
  wheel: the next tick never returns.
\<close>

lemma fast_repeat_hangs:
  assumes "wf_wheels (wheels t)" and "0 < ivl" and "ivl < tick_ms (wheels t ! 0)" and "now \<le> now'"
    and mono: "\<And>n. n' 0 (2 * n) \<le> n' 0 (2 * n + 1)"
  shows "\<exists>h t1. add_repeat_timer now now' t ivl True = Inr (h, t1) \<and> tick n' t1 = None"
proof -
  let ?s = "current_slot (wheels t ! 0)"
  let ?k = "\<lparr>tt_id = next_id t, expire_time = now + ivl, interval = ivl, rounds_left = 0, cancelled = False\<rparr>"
  let ?ws = "set_slot (wheels t) 0 ?s (slot_tasks (wheels t) 0 ?s @ [?k])"
  have "place_in (wheels t) (delay_left (now + ivl) now') ?k = ?ws"
    using place_in_current [OF assms(1), of "delay_left (now + ivl) now'" ?k] delay_left_bounds [OF assms(4,2)] assms(3) by simp
  then have add: "add_repeat_timer now now' t ivl True = Inr (\<lparr>th_id = next_id t, th_valid = True\<rparr>,
      t\<lparr>wheels := ?ws, next_id := next_id t + 1, task_map := insert (next_id t) (task_map t)\<rparr>)" (is "_ = Inr (?h, ?t1)")
    using assms(2) wf_wheels_nonempty [OF assms(1)]
    by (simp add: add_repeat_timer_def add_task_def add_task_to_wheel_def Let_def)
  have sp: "spinning ?ws ?s 0"
    using assms(1-3) by (intro spinning_set_slot) (auto simp: due_def)
  then have "process_loop (n' 0) 0 ?s 0 [] tm ?ws = None" for tm
    using process_loop_returns_not_spinning [of "n' 0" 0 ?s 0 "[]" tm ?ws] mono by (cases "process_loop (n' 0) 0 ?s 0 [] tm ?ws") auto
  moreover have "?ws \<noteq> []" "current_slot (?ws ! 0) = ?s" using sp wf_wheels_nonempty by (auto simp: spinning_def)
  ultimately have "tick n' ?t1 = None" by (simp add: tick_def)
  then show ?thesis using add by blast
qed

text \<open>
  An interval of exactly one tick is not safe either: when the clock moves on between the two readings, the
  task goes back into the slot that is being processed, and runs again in the same tick.
\<close>

lemma tick_repeat_runs_again:
  assumes "wf_wheels ws" and "interval k = tick_ms (ws ! 0)" and "now < now'" and "now' < now + tick_ms (ws ! 0)"
  shows "slot_tasks (reinsert now now' ws k) 0 (current_slot (ws ! 0)) =
    slot_tasks ws 0 (current_slot (ws ! 0)) @ [k\<lparr>expire_time := now + interval k, rounds_left := 0\<rparr>]"
proof -
  have "0 < tick_ms (ws ! 0)" using wf_wheels_hd [OF assms(1)] by (simp add: wf_wheel_def)
  then show ?thesis
    using place_in_current [OF assms(1), of "delay_left (now + interval k) now'" "k\<lparr>expire_time := now + interval k\<rparr>"]
      current_slot_range [OF assms(1)] assms(2-4) by (simp add: reinsert_def delay_left_def slot_set_slot)
qed

lemma timer_wheel_init_first:
  "0 < m \<Longrightarrow> wheels (timer_wheel_init tck n m) ! 0 = new_wheel n tck"
  by (simp add: timer_wheel_init_def)


end
