(* ===== verification/TaskQueue.thy ===== *)
theory TaskQueue
  imports TimerWheel "HOL-Library.Multiset"
begin

text \<open>
  \<^verbatim>\<open>task/task_queue.cpp\<close>: the queue of tasks with priorities, its worker threads, and the delayed
  queue that combines it with the timer wheel. Entries of \<^verbatim>\<open>std::priority_queue\<close> are compared by
  priority and then by the address of the task, so a task carries the address it was allocated at.
  A worker is split where it takes or releases the lock or changes a counter. The queue keeps the
  list of executed tasks, in order.
\<close>

section \<open>Tasks\<close>

datatype task_priority = LOW | NORMAL | HIGH | URGENT

fun priority_value :: "task_priority \<Rightarrow> int" where
  "priority_value LOW = 0"
| "priority_value NORMAL = 1"
| "priority_value HIGH = 2"
| "priority_value URGENT = 3"

instantiation task_priority :: linorder
begin

definition less_eq_task_priority :: "task_priority \<Rightarrow> task_priority \<Rightarrow> bool" where
  "less_eq_task_priority p q \<longleftrightarrow> priority_value p \<le> priority_value q"

definition less_task_priority :: "task_priority \<Rightarrow> task_priority \<Rightarrow> bool" where
  "less_task_priority p q \<longleftrightarrow> priority_value p < priority_value q"

instance
proof
  fix p q r :: task_priority
  show "(p < q) = (p \<le> q \<and> \<not> q \<le> p)" by (auto simp: less_eq_task_priority_def less_task_priority_def)
  show "p \<le> p" by (simp add: less_eq_task_priority_def)
  show "p \<le> q \<Longrightarrow> q \<le> r \<Longrightarrow> p \<le> r" by (simp add: less_eq_task_priority_def)
  show "p \<le> q \<Longrightarrow> q \<le> p \<Longrightarrow> p = q" by (cases p; cases q) (simp_all add: less_eq_task_priority_def)
  show "p \<le> q \<or> q \<le> p" by (auto simp: less_eq_task_priority_def)
qed

end

datatype task_status = PENDING | RUNNING | COMPLETED | FAILED | CANCELLED | TIMEOUT

record 'a task_result =
  status :: task_status
  result_value :: "'a option"
  error_text :: string

definition result_ok :: "'a task_result \<Rightarrow> bool" where
  "result_ok r \<longleftrightarrow> status r = COMPLETED"

definition result_failed :: "'a task_result \<Rightarrow> bool" where
  "result_failed r \<longleftrightarrow> status r = FAILED \<or> status r = TIMEOUT \<or> status r = CANCELLED"

text \<open>
  \<^verbatim>\<open>Task::execute\<close>: the function returns a value, throws a \<^verbatim>\<open>std::exception\<close> with a text, or throws
  something else (\<open>None\<close>).
\<close>

definition task_execute :: "string option + 'a \<Rightarrow> 'a task_result" where
  "task_execute outcome =
     (case outcome of
        Inr v \<Rightarrow> \<lparr>status = COMPLETED, result_value = Some v, error_text = []\<rparr>
      | Inl (Some what) \<Rightarrow> \<lparr>status = FAILED, result_value = None, error_text = what\<rparr>
      | Inl None \<Rightarrow> \<lparr>status = FAILED, result_value = None, error_text = ''Unknown error''\<rparr>)"

record task =
  task_id :: int
  address :: nat
  priority :: task_priority
  timeout_ms :: int
  retry_count :: int

section \<open>The queue\<close>

record tq_config =
  worker_threads :: nat
  max_queue_size :: int
  enable_priority :: bool

definition default_tq_config :: tq_config where
  "default_tq_config = \<lparr>worker_threads = 4, max_queue_size = 10000, enable_priority = True\<rparr>"

text \<open>
  A worker thread: at the test of its loop, in the wait for a task, with a task taken from the
  queue, with a counted task, after its execution, before removing it from \<^verbatim>\<open>tasks_\<close>, or ended.
\<close>

datatype worker = AtLoop | InWait | Taken task | Counted task | Executed task | Erasing task | Exited

record task_queue =
  tq_config :: tq_config
  queue :: "(int \<times> nat \<times> task) list"
  tasks :: "int set"
  workers :: "worker list"
  tq_running :: bool
  next_task_id :: int
  running_count :: int
  completed_count :: int
  executed :: "task list"

definition task_queue_init :: "tq_config \<Rightarrow> task_queue" where
  "task_queue_init c = \<lparr>tq_config = c, queue = [], tasks = {}, workers = [], tq_running = False, next_task_id = 1,
     running_count = 0, completed_count = 0, executed = []\<rparr>"

definition tq_start :: "task_queue \<Rightarrow> task_queue" where
  "tq_start q = (if tq_running q then q
     else q\<lparr>tq_running := True, workers := workers q @ replicate (worker_threads (tq_config q)) AtLoop\<rparr>)"

text \<open>\<^verbatim>\<open>stop\<close> clears the flag; it returns when all workers have ended, and forgets them.\<close>

definition tq_request_stop :: "task_queue \<Rightarrow> task_queue" where
  "tq_request_stop q = q\<lparr>tq_running := False\<rparr>"

definition tq_join_workers :: "task_queue \<Rightarrow> task_queue option" where
  "tq_join_workers q = (if list_all (\<lambda>w. w = Exited) (workers q) then Some (q\<lparr>workers := []\<rparr>) else None)"

definition submit :: "task_queue \<Rightarrow> nat \<Rightarrow> task_priority \<Rightarrow> int \<Rightarrow> int \<Rightarrow> int \<times> task_queue" where
  "submit q addr p timeout retries =
     (let t = \<lparr>task_id = next_task_id q, address = addr, priority = p, timeout_ms = timeout, retry_count = retries\<rparr>;
          q1 = q\<lparr>next_task_id := next_task_id q + 1\<rparr>
      in if max_queue_size (tq_config q) \<le> int (length (queue q)) then (- 1, q1)
         else (task_id t, q1\<lparr>tasks := insert (task_id t) (tasks q),
                 queue := queue q @ [(if enable_priority (tq_config q) then priority_value p else 0, addr, t)]\<rparr>))"

definition submit_void :: "task_queue \<Rightarrow> nat \<Rightarrow> task_priority \<Rightarrow> int \<times> task_queue" where
  "submit_void q addr p = submit q addr p 0 0"

text \<open>The entry at the top of the heap: highest priority, then highest address.\<close>

definition higher :: "int \<times> nat \<times> task \<Rightarrow> int \<times> nat \<times> task \<Rightarrow> bool" where
  "higher e f \<longleftrightarrow> fst f < fst e \<or> fst e = fst f \<and> fst (snd f) < fst (snd e)"

fun top_entry :: "int \<times> nat \<times> task \<Rightarrow> (int \<times> nat \<times> task) list \<Rightarrow> int \<times> nat \<times> task" where
  "top_entry e [] = e"
| "top_entry e (f # fs) = top_entry (if higher f e then f else e) fs"

definition worker_loop_test :: "task_queue \<Rightarrow> worker" where
  "worker_loop_test q = (if tq_running q then InWait else Exited)"

definition worker_fetch :: "task_queue \<Rightarrow> (worker \<times> task_queue) option" where
  "worker_fetch q =
     (case queue q of
        [] \<Rightarrow> if tq_running q then None else Some (Exited, q)
      | e # es \<Rightarrow> let t = top_entry e es in Some (Taken (snd (snd t)), q\<lparr>queue := remove1 t (e # es)\<rparr>))"

text \<open>One step of a worker; \<open>None\<close> when it is blocked or has ended.\<close>

fun worker_step :: "task_queue \<Rightarrow> worker \<Rightarrow> (worker \<times> task_queue) option" where
  "worker_step q AtLoop = Some (worker_loop_test q, q)"
| "worker_step q InWait = worker_fetch q"
| "worker_step q (Taken t) = Some (Counted t, q\<lparr>running_count := running_count q + 1\<rparr>)"
| "worker_step q (Counted t) = Some (Executed t, q\<lparr>executed := executed q @ [t]\<rparr>)"
| "worker_step q (Executed t) = Some (Erasing t, q\<lparr>running_count := running_count q - 1, completed_count := completed_count q + 1\<rparr>)"
| "worker_step q (Erasing t) = Some (AtLoop, q\<lparr>tasks := tasks q - {task_id t}\<rparr>)"
| "worker_step q Exited = None"

definition tq_cancel :: "task_queue \<Rightarrow> int \<Rightarrow> bool \<times> task_queue" where
  "tq_cancel q i = (if i \<in> tasks q then (True, q\<lparr>tasks := tasks q - {i}\<rparr>) else (False, q))"

definition pending_count :: "task_queue \<Rightarrow> nat" where
  "pending_count q = length (queue q)"

text \<open>The condition under which \<^verbatim>\<open>wait_all\<close> returns.\<close>

definition wait_all_done :: "task_queue \<Rightarrow> bool" where
  "wait_all_done q \<longleftrightarrow> \<not> (0 < pending_count q \<or> 0 < running_count q)"

section \<open>Delayed tasks\<close>

text \<open>
  \<^verbatim>\<open>DelayedTaskQueue\<close>: the callback of a timer submits its task with normal priority; \<open>addr\<close> gives the
  address a submission allocates, by its number.
\<close>

record delayed_queue =
  timer_wheel :: "timer_wheel option"
  task_queue :: task_queue

definition delayed_init :: delayed_queue where
  "delayed_init = \<lparr>timer_wheel = None, task_queue = task_queue_init default_tq_config\<rparr>"

definition dq_start :: "delayed_queue \<Rightarrow> int \<Rightarrow> delayed_queue" where
  "dq_start d tick_interval_ms = d\<lparr>timer_wheel := Some (tw_start (timer_wheel_init tick_interval_ms 60 4)),
     task_queue := tq_start (task_queue d)\<rparr>"

definition dq_stop :: "delayed_queue \<Rightarrow> delayed_queue" where
  "dq_stop d = d\<lparr>timer_wheel := None, task_queue := tq_request_stop (task_queue d)\<rparr>"

definition schedule :: "int \<Rightarrow> int \<Rightarrow> delayed_queue \<Rightarrow> int \<Rightarrow> cpp_error + timer_handle \<times> delayed_queue" where
  "schedule now now' d delay =
     (case timer_wheel d of
        None \<Rightarrow> Inr (null_handle, d)
      | Some t \<Rightarrow> map_sum id (\<lambda>(h, t'). (h, d\<lparr>timer_wheel := Some t'\<rparr>)) (add_timer now now' t delay True))"

definition schedule_repeat :: "int \<Rightarrow> int \<Rightarrow> delayed_queue \<Rightarrow> int \<Rightarrow> cpp_error + timer_handle \<times> delayed_queue" where
  "schedule_repeat now now' d ivl =
     (case timer_wheel d of
        None \<Rightarrow> Inr (null_handle, d)
      | Some t \<Rightarrow> map_sum id (\<lambda>(h, t'). (h, d\<lparr>timer_wheel := Some t'\<rparr>)) (add_repeat_timer now now' t ivl True))"

definition dq_cancel :: "delayed_queue \<Rightarrow> timer_handle \<Rightarrow> timer_handle \<times> delayed_queue" where
  "dq_cancel d h =
     (case timer_wheel d of
        None \<Rightarrow> (h, d)
      | Some t \<Rightarrow> (case cancel_timer t h of (h', t') \<Rightarrow> (h', d\<lparr>timer_wheel := Some t'\<rparr>)))"

definition dq_pending_count :: "delayed_queue \<Rightarrow> nat" where
  "dq_pending_count d = pending_count (task_queue d)"

definition submit_fired :: "(nat \<Rightarrow> nat) \<Rightarrow> task_queue \<Rightarrow> nat list \<Rightarrow> task_queue" where
  "submit_fired addr q fired = foldl (\<lambda>q i. snd (submit_void q (addr i) NORMAL)) q fired"

definition dq_tick :: "(nat \<Rightarrow> nat) \<Rightarrow> (nat \<Rightarrow> nat \<Rightarrow> int) \<Rightarrow> delayed_queue \<Rightarrow> (cpp_error + delayed_queue) option" where
  "dq_tick addr clk d =
     (case timer_wheel d of
        None \<Rightarrow> Some (Inr d)
      | Some t \<Rightarrow>
          (case tick clk t of
             None \<Rightarrow> None
           | Some (Inl e) \<Rightarrow> Some (Inl e)
           | Some (Inr (fired, t')) \<Rightarrow>
               Some (Inr (d\<lparr>timer_wheel := Some t', task_queue := submit_fired addr (task_queue d) fired\<rparr>))))"

section \<open>No task is lost or run twice\<close>

fun in_hand :: "worker \<Rightarrow> task list" where
  "in_hand (Taken t) = [t]"
| "in_hand (Counted t) = [t]"
| "in_hand _ = []"

fun counted :: "worker \<Rightarrow> nat" where
  "counted (Counted t) = 1"
| "counted (Executed t) = 1"
| "counted _ = 0"

text \<open>
  \<open>tq_reach c acc can q\<close>: the queue \<open>q\<close> is reached by calls and worker steps in any order, with \<open>acc\<close> the
  tasks accepted so far and \<open>can\<close> the ids for which \<^verbatim>\<open>cancel\<close> has returned true.
\<close>

inductive tq_reach :: "tq_config \<Rightarrow> task list \<Rightarrow> int set \<Rightarrow> task_queue \<Rightarrow> bool" for c where
  init: "tq_reach c [] {} (task_queue_init c)"
| submit: "tq_reach c acc can q \<Longrightarrow> submit q addr p timeout retries = (i, q') \<Longrightarrow>
    tq_reach c (if i = - 1 then acc
      else acc @ [\<lparr>task_id = i, address = addr, priority = p, timeout_ms = timeout, retry_count = retries\<rparr>]) can q'"
| cancel: "tq_reach c acc can q \<Longrightarrow> tq_cancel q i = (ok, q') \<Longrightarrow> tq_reach c acc (if ok then insert i can else can) q'"
| start: "tq_reach c acc can q \<Longrightarrow> tq_reach c acc can (tq_start q)"
| stop: "tq_reach c acc can q \<Longrightarrow> tq_reach c acc can (tq_request_stop q)"
| join: "tq_reach c acc can q \<Longrightarrow> tq_join_workers q = Some q' \<Longrightarrow> tq_reach c acc can q'"
| work: "tq_reach c acc can q \<Longrightarrow> i < length (workers q) \<Longrightarrow> worker_step q (workers q ! i) = Some (w, q') \<Longrightarrow>
    tq_reach c acc can (q'\<lparr>workers := (workers q)[i := w]\<rparr>)"

definition queued_tasks :: "task_queue \<Rightarrow> task multiset" where
  "queued_tasks q = mset (map (snd \<circ> snd) (queue q))"

definition held_tasks :: "worker list \<Rightarrow> task multiset" where
  "held_tasks ws = mset (concat (map in_hand ws))"

definition tq_inv :: "task list \<Rightarrow> task_queue \<Rightarrow> bool" where
  "tq_inv acc q \<longleftrightarrow> mset acc = queued_tasks q + held_tasks (workers q) + mset (executed q) \<and>
     distinct (map task_id acc) \<and> (\<forall>t\<in>set acc. task_id t < next_task_id q) \<and> 0 < next_task_id q \<and>
     running_count q = int (sum_list (map counted (workers q)))"

lemma held_update:
  assumes "i < length ws"
  shows "held_tasks (ws[i := w]) + mset (in_hand (ws ! i)) = held_tasks ws + mset (in_hand w)"
    and "sum_list (map counted (ws[i := w])) + counted (ws ! i) = sum_list (map counted ws) + counted w"
proof -
  have u: "ws[i := w] = take i ws @ w # drop (Suc i) ws" using assms by (simp add: upd_conv_take_nth_drop)
  have "held_tasks ws = held_tasks (take i ws @ ws ! i # drop (Suc i) ws)"
    "sum_list (map counted ws) = sum_list (map counted (take i ws @ ws ! i # drop (Suc i) ws))"
    using id_take_nth_drop [OF assms] by simp_all
  then show "held_tasks (ws[i := w]) + mset (in_hand (ws ! i)) = held_tasks ws + mset (in_hand w)"
    "sum_list (map counted (ws[i := w])) + counted (ws ! i) = sum_list (map counted ws) + counted w"
    unfolding u by (simp_all add: held_tasks_def)
qed

lemma top_entry_in: "top_entry e es \<in> set (e # es)"
proof (induction es arbitrary: e)
  case (Cons f fs)
  let ?x = "if higher f e then f else e"
  have "top_entry ?x fs \<in> set (?x # fs)" by (rule Cons)
  then show ?case by (cases "higher f e") (simp_all, blast+)
qed simp

lemma worker_fetch_queue:
  assumes "worker_fetch q = Some (w, q')"
  shows "queued_tasks q = queued_tasks q' + mset (in_hand w) \<and> counted w = 0 \<and> executed q' = executed q \<and>
    next_task_id q' = next_task_id q \<and> running_count q' = running_count q \<and> workers q' = workers q"
proof (cases "queue q")
  case (Cons e es)
  let ?t = "top_entry e es"
  have "mset (e # es) = add_mset ?t (mset (remove1 ?t (e # es)))"
    by (metis insert_DiffM mset_remove1 set_mset_mset top_entry_in)
  then have "image_mset (snd \<circ> snd) (mset (e # es)) = add_mset (snd (snd ?t)) (image_mset (snd \<circ> snd) (mset (remove1 ?t (e # es))))"
    by simp
  moreover have "w = Taken (snd (snd ?t))" and "q' = q\<lparr>queue := remove1 ?t (e # es)\<rparr>"
    using assms Cons by (simp_all add: worker_fetch_def Let_def)
  ultimately show ?thesis using Cons by (simp add: queued_tasks_def mset_map del: remove1.simps mset_remove1)
qed (use assms in \<open>auto simp: worker_fetch_def queued_tasks_def split: if_splits\<close>)

lemma worker_step_tasks:
  assumes "worker_step q w = Some (w', q')"
  shows "queued_tasks q + mset (in_hand w) + mset (executed q) = queued_tasks q' + mset (in_hand w') + mset (executed q') \<and>
    running_count q' + int (counted w) = running_count q + int (counted w') \<and> next_task_id q' = next_task_id q"
proof (cases w)
  case InWait
  then show ?thesis using assms worker_fetch_queue [of q w' q'] by simp
qed (use assms in \<open>auto simp: worker_loop_test_def queued_tasks_def\<close>)

lemma submit_cases:
  assumes "submit q addr p timeout retries = (i, q')"
  obtains "i = - 1" and "q' = q\<lparr>next_task_id := next_task_id q + 1\<rparr>"
  | "i = next_task_id q" and "next_task_id q' = next_task_id q + 1" and "workers q' = workers q" and "executed q' = executed q"
    and "running_count q' = running_count q"
    and "queued_tasks q' = add_mset \<lparr>task_id = i, address = addr, priority = p, timeout_ms = timeout, retry_count = retries\<rparr> (queued_tasks q)"
  using assms by (auto simp: submit_def Let_def queued_tasks_def split: if_splits)

lemma tq_reach_inv: "tq_reach c acc can q \<Longrightarrow> tq_inv acc q"
proof (induction rule: tq_reach.induct)
  case init
  then show ?case by (simp add: tq_inv_def task_queue_init_def queued_tasks_def held_tasks_def)
next
  case (submit acc can q addr p timeout retries i q')
  from submit.hyps(2) show ?case
  proof (cases rule: submit_cases)
    case 1
    then show ?thesis using submit.IH by (auto simp: tq_inv_def queued_tasks_def)
  next
    case 2
    then have "i \<noteq> - 1" using submit.IH by (auto simp: tq_inv_def)
    then show ?thesis using submit.IH 2 by (auto simp: tq_inv_def)
  qed
next
  case (cancel acc can q i ok q')
  then show ?case by (auto simp: tq_inv_def tq_cancel_def queued_tasks_def split: if_splits)
next
  case (start acc can q)
  have "concat (map in_hand (replicate n AtLoop)) = []" "sum_list (map counted (replicate n AtLoop)) = 0" for n
    by (induction n) auto
  then show ?case using start by (simp add: tq_inv_def tq_start_def queued_tasks_def held_tasks_def)
next
  case (stop acc can q)
  then show ?case by (simp add: tq_inv_def tq_request_stop_def queued_tasks_def)
next
  case (join acc can q q')
  have "list_all (\<lambda>w. w = Exited) ws \<Longrightarrow> concat (map in_hand ws) = [] \<and> sum_list (map counted ws) = 0" for ws
    by (induction ws) auto
  then show ?case using join
    by (auto simp: tq_inv_def tq_join_workers_def queued_tasks_def held_tasks_def split: if_splits)
next
  case (work acc can q i w q')
  let ?h = "mset (in_hand (workers q ! i))" and ?ws = "(workers q)[i := w]"
  note step = worker_step_tasks [OF work.hyps(3)]
  have "mset acc + ?h = (queued_tasks q + ?h + mset (executed q)) + held_tasks (workers q)"
    using work.IH by (simp add: tq_inv_def)
  also have "\<dots> = queued_tasks q' + mset (executed q') + (held_tasks (workers q) + mset (in_hand w))"
    using step by (simp add: ac_simps)
  also have "held_tasks (workers q) + mset (in_hand w) = held_tasks ?ws + ?h"
    using held_update(1) [OF work.hyps(2), of w] by simp
  finally have "mset acc = queued_tasks q' + held_tasks ?ws + mset (executed q')" by simp
  moreover have "running_count q' = int (sum_list (map counted ?ws))"
    using work.IH step held_update(2) [OF work.hyps(2), of w] by (simp add: tq_inv_def)
  ultimately show ?case using work.IH step by (simp add: tq_inv_def queued_tasks_def)
qed

text \<open>
  Cancelling only forgets the id: although \<^verbatim>\<open>cancel\<close> returns true, the entry stays in the queue and
  its task is executed like any other.
\<close>

lemma cancel_keeps_queue: "queue (snd (tq_cancel q i)) = queue q"
  by (simp add: tq_cancel_def)

text \<open>
  Between taking the last task and counting it as running, \<^verbatim>\<open>wait_all\<close> sees neither pending nor
  running tasks.
\<close>

lemma wait_all_misses_taken:
  assumes "queue q = [e]" and "running_count q = 0"
  shows "\<exists>q'. worker_step q InWait = Some (Taken (snd (snd e)), q') \<and> wait_all_done q' \<and> executed q' = executed q"
  using assms by (simp add: worker_fetch_def wait_all_done_def pending_count_def)

section \<open>Delayed tasks are submitted on time\<close>

primrec dq_ticks :: "(nat \<Rightarrow> nat) \<Rightarrow> delayed_queue \<Rightarrow> (nat \<Rightarrow> nat \<Rightarrow> int) list \<Rightarrow> (cpp_error + delayed_queue) option" where
  "dq_ticks addr d [] = Some (Inr d)"
| "dq_ticks addr d (clk # ns) =
     (case dq_tick addr clk d of
        None \<Rightarrow> None
      | Some (Inl e) \<Rightarrow> Some (Inl e)
      | Some (Inr d') \<Rightarrow> dq_ticks addr d' ns)"

lemma submit_fired_append: "submit_fired addr q (fs @ gs) = submit_fired addr (submit_fired addr q fs) gs"
  by (simp add: submit_fired_def)

lemma dq_ticks_run:
  "timer_wheel d = Some t \<Longrightarrow> run_ticks t ns = Some (Inr (fs, t')) \<Longrightarrow>
     dq_ticks addr d ns = Some (Inr (d\<lparr>timer_wheel := Some t', task_queue := submit_fired addr (task_queue d) (concat fs)\<rparr>))"
proof (induction ns arbitrary: d t fs)
  case Nil
  then show ?case by (simp add: submit_fired_def)
next
  case (Cons clk ns)
  obtain f t1 gs where t1: "tick clk t = Some (Inr (f, t1))" "run_ticks t1 ns = Some (Inr (gs, t'))" "fs = f # gs"
    using Cons.prems(2) by (auto split: option.splits sum.splits)
  let ?d = "d\<lparr>timer_wheel := Some t1, task_queue := submit_fired addr (task_queue d) f\<rparr>"
  have "dq_tick addr clk d = Some (Inr ?d)" using Cons.prems(1) t1(1) by (simp add: dq_tick_def)
  then show ?case using Cons.IH [of ?d t1 gs] t1(2,3) by (simp add: submit_fired_append)
qed

text \<open>
  C29. In every interleaving of submissions, cancellations, starts, stops and the steps of any number
  of workers, no task is executed twice and only accepted tasks are executed; and once the queue is
  empty and no worker holds a task, every accepted task for which no \<^verbatim>\<open>cancel\<close> returned true has been
  executed, exactly once.
\<close>

theorem tasks_run_once:
  assumes "tq_reach c acc can q"
  shows "distinct (map task_id (executed q)) \<and> set (executed q) \<subseteq> set acc \<and>
    (queue q = [] \<and> list_all (\<lambda>w. in_hand w = []) (workers q) \<longrightarrow>
       mset (filter (\<lambda>t. task_id t \<notin> can) (executed q)) = mset (filter (\<lambda>t. task_id t \<notin> can) acc))"
proof -
  let ?qs = "map (snd \<circ> snd) (queue q)" and ?hs = "concat (map in_hand (workers q))"
  have m: "mset acc = mset (?qs @ ?hs @ executed q)" and d: "distinct (map task_id acc)"
    using tq_reach_inv [OF assms] by (simp_all add: tq_inv_def queued_tasks_def held_tasks_def)
  have "mset (map task_id acc) = mset (map task_id (?qs @ ?hs @ executed q))" by (simp only: mset_map m)
  then have "distinct (map task_id (?qs @ ?hs @ executed q))" using d mset_eq_imp_distinct_iff by blast
  moreover have "set acc = set (?qs @ ?hs @ executed q)" using m by (rule mset_eq_setD)
  moreover have "list_all (\<lambda>w. in_hand w = []) ws \<Longrightarrow> concat (map in_hand ws) = []" for ws by (induction ws) auto
  moreover have "mset (filter P acc) = mset (filter P (?qs @ ?hs @ executed q))" for P by (simp only: mset_filter m)
  ultimately show ?thesis by auto
qed

text \<open>
  A task scheduled with a delay shorter than a turn of the wheel is submitted to the task queue
  exactly once, in tick number \<^verbatim>\<open>left / tick_ms + 1\<close> after it was scheduled and in no earlier one, where \<open>left\<close> is what is left of
  the delay when it is put into the wheel.
\<close>

lemma delayed_task_submitted:
  assumes "timer_wheel d = Some t" and "timers_ok lag (wheels t)" and "\<forall>j\<in>idents (wheels t). fst j < next_id t"
    and "0 < delay" and "delay < total_ms (wheels t ! 0)" and "now \<le> now'" and "left = delay_left (now + delay) now'"
    and "length ns = nat (left div tick_ms (wheels t ! 0))" and "list_all (\<lambda>clk. prompt lag (clk 0)) (ns @ [n'])"
  shows "\<exists>h d1 fs f d2. schedule now now' d delay = Inr (h, d1) \<and> dq_ticks addr d1 (ns @ [n']) = Some (Inr d2) \<and>
    task_queue d2 = submit_fired addr (submit_fired addr (task_queue d) (concat fs)) f \<and> length fs = length ns \<and>
    th_id h \<notin> set (concat fs) \<and> count_list f (th_id h) = 1"
proof -
  obtain h t1 fs f t2 where t1: "add_timer now now' t delay True = Inr (h, t1)" and
    t2: "run_ticks t1 (ns @ [n']) = Some (Inr (fs @ [f], t2))" "length fs = length ns" "\<forall>g\<in>set fs. th_id h \<notin> set g"
      "count_list f (th_id h) = 1"
    using add_timer_fires [OF assms(2-9)] by blast
  let ?d1 = "d\<lparr>timer_wheel := Some t1\<rparr>"
  have "schedule now now' d delay = Inr (h, ?d1)" using t1 assms(1) by (simp add: schedule_def)
  moreover have "dq_ticks addr ?d1 (ns @ [n']) =
      Some (Inr (?d1\<lparr>timer_wheel := Some t2, task_queue := submit_fired addr (task_queue d) (concat (fs @ [f]))\<rparr>))"
    using dq_ticks_run [OF _ t2(1), of ?d1] by simp
  ultimately show ?thesis using t2(2-4)
    by (intro exI [where x = h] exI [where x = ?d1] exI [where x = fs] exI [where x = f] exI) (auto simp: submit_fired_append)
qed

definition one_worker :: tq_config where
  "one_worker = \<lparr>worker_threads = 1, max_queue_size = 5, enable_priority = True\<rparr>"

theorem tasks_run_once_witness:
  "\<exists>acc q. tq_reach one_worker acc {} q \<and> map task_id (executed q) = [1] \<and> mset (executed q) = mset acc"
proof -
  let ?t = "\<lparr>task_id = 1, address = 100, priority = HIGH, timeout_ms = 0, retry_count = 0\<rparr>"
  let ?q = "\<lambda>ws qu rc ex. \<lparr>tq_config = one_worker, queue = qu, tasks = {1}, workers = [ws], tq_running = True, next_task_id = 2,
    running_count = rc, completed_count = 0, executed = ex\<rparr>"
  have "submit (tq_start (task_queue_init one_worker)) 100 HIGH 0 0 = (1, ?q AtLoop [(2, 100, ?t)] 0 [])"
    by (simp add: submit_def tq_start_def task_queue_init_def one_worker_def)
  from tq_reach.submit [OF tq_reach.start [OF tq_reach.init] this]
  have "tq_reach one_worker [?t] {} (?q AtLoop [(2, 100, ?t)] 0 [])" by simp
  from tq_reach.work [OF this, of 0] have "tq_reach one_worker [?t] {} (?q InWait [(2, 100, ?t)] 0 [])"
    by (simp add: worker_loop_test_def)
  from tq_reach.work [OF this, of 0] have "tq_reach one_worker [?t] {} (?q (Taken ?t) [] 0 [])" by (simp add: worker_fetch_def)
  from tq_reach.work [OF this, of 0] have "tq_reach one_worker [?t] {} (?q (Counted ?t) [] 1 [])" by simp
  from tq_reach.work [OF this, of 0] have r: "tq_reach one_worker [?t] {} (?q (Executed ?t) [] 1 [?t])" by simp
  show ?thesis using r tasks_run_once [OF r] by (intro exI [where x = "[?t]"] exI [where x = "?q (Executed ?t) [] 1 [?t]"]) simp
qed

end
