(* ===== verification/Redis.thy ===== *)
theory Redis
  imports Document "HOL-Library.Product_Lexorder"
begin

text \<open>
  \<^verbatim>\<open>redis/redis_client.cpp\<close>: the in-memory stand-in for a Redis server, its commands and the typed
  client functions on top of them. A command returns its reply or the exception it throws, and the
  state it leaves in either case. The clock (whole seconds) is an argument \<open>now\<close>. Scores are of any
  ordered type \<open>'d\<close>: reading and printing floating-point numbers and the order in which a hash
  container is walked are the fields of \<open>lib\<close>.
\<close>

section \<open>State and replies\<close>

record 'd redis_lib =
  stod :: "string \<Rightarrow> cpp_error + 'd"
  to_string_double :: "'d \<Rightarrow> string"
  hash_order :: "string set \<Rightarrow> string list"

record 'd redis =
  data :: "string \<rightharpoonup> string"
  expires :: "string \<rightharpoonup> int"
  hashes :: "string \<rightharpoonup> string \<rightharpoonup> string"
  lists :: "string \<rightharpoonup> string list"
  sets :: "string \<rightharpoonup> string set"
  zsets :: "string \<rightharpoonup> ('d \<times> string) list"

definition redis_init :: "'d redis" where
  "redis_init = \<lparr>data = Map.empty, expires = Map.empty, hashes = Map.empty, lists = Map.empty, sets = Map.empty,
     zsets = Map.empty\<rparr>"

definition redis_disconnect :: "'d redis \<Rightarrow> 'd redis" where
  "redis_disconnect st = st\<lparr>data := Map.empty, expires := Map.empty, hashes := Map.empty, lists := Map.empty,
     sets := Map.empty, zsets := Map.empty\<rparr>"

datatype reply_type = STRING | INTEGER | ARRAY | NIL | ERROR | STATUS

datatype redis_reply = Reply (r_type: reply_type) (r_str: string) (r_integer: int) (r_elements: "redis_reply list")

definition reply_ok :: "redis_reply \<Rightarrow> bool" where
  "reply_ok r \<longleftrightarrow> r_type r \<noteq> ERROR \<and> r_type r \<noteq> NIL"

abbreviation status_reply :: "string \<Rightarrow> redis_reply" where
  "status_reply s \<equiv> Reply STATUS s 0 []"

abbreviation integer_reply :: "int \<Rightarrow> redis_reply" where
  "integer_reply n \<equiv> Reply INTEGER [] n []"

abbreviation string_reply :: "string \<Rightarrow> redis_reply" where
  "string_reply s \<equiv> Reply STRING s 0 []"

abbreviation nil_reply :: redis_reply where
  "nil_reply \<equiv> Reply NIL [] 0 []"

abbreviation array_reply :: "string list \<Rightarrow> redis_reply" where
  "array_reply xs \<equiv> Reply ARRAY [] 0 (map string_reply xs)"

abbreviation error_reply :: "string \<Rightarrow> redis_reply" where
  "error_reply s \<equiv> Reply ERROR s 0 []"

type_synonym 'd redis_outcome = "(cpp_error + redis_reply) \<times> 'd redis"

section \<open>Numbers as text\<close>

text \<open>\<^verbatim>\<open>std::stoll\<close> throws when there is no number or it does not fit 64 bits.\<close>

definition stoll :: "string \<Rightarrow> cpp_error + int" where
  "stoll s =
     (let t = dropWhile is_space s;
          neg = (t \<noteq> [] \<and> hd t = CHR ''-'');
          ds = (if t \<noteq> [] \<and> (hd t = CHR ''-'' \<or> hd t = CHR ''+'') then tl t else t);
          v = (if neg then - int (digits_value ds) else int (digits_value ds))
      in if takeWhile is_digit ds = [] then Inl InvalidArgument
         else if v < - (2 ^ 63) \<or> 2 ^ 63 \<le> v then Inl OutOfRange else Inr v)"

definition add64 :: "int \<Rightarrow> int \<Rightarrow> cpp_error + int" where
  "add64 a b = (if - (2 ^ 63) \<le> a + b \<and> a + b < 2 ^ 63 then Inr (a + b) else Inl SignedOverflow)"

definition as_int :: "int \<Rightarrow> int" where
  "as_int v = sint (word_of_int v :: 32 word)"

section \<open>Commands\<close>

definition erase_key :: "'d redis \<Rightarrow> string \<Rightarrow> 'd redis" where
  "erase_key st k = st\<lparr>data := (data st)(k := None), expires := (expires st)(k := None), hashes := (hashes st)(k := None),
     lists := (lists st)(k := None), sets := (sets st)(k := None), zsets := (zsets st)(k := None)\<rparr>"

definition check_expire :: "int \<Rightarrow> 'd redis \<Rightarrow> string \<Rightarrow> 'd redis" where
  "check_expire now st k =
     (case expires st k of None \<Rightarrow> st | Some e \<Rightarrow> if e \<le> now then erase_key st k else st)"

definition cmd_set :: "'d redis \<Rightarrow> string \<Rightarrow> string \<Rightarrow> 'd redis_outcome" where
  "cmd_set st k v = (Inr (status_reply ''OK''), st\<lparr>data := (data st)(k \<mapsto> v)\<rparr>)"

definition deadline :: "int \<Rightarrow> string \<Rightarrow> cpp_error + int" where
  "deadline now secs = (case stoll secs of Inl e \<Rightarrow> Inl e | Inr n \<Rightarrow> add64 now n)"

text \<open>The value is stored before the number of seconds is read: an invalid number throws afterwards.\<close>

definition cmd_setex :: "int \<Rightarrow> 'd redis \<Rightarrow> string \<Rightarrow> string \<Rightarrow> string \<Rightarrow> 'd redis_outcome" where
  "cmd_setex now st k secs v =
     (let st1 = st\<lparr>data := (data st)(k \<mapsto> v)\<rparr>
      in case deadline now secs of
           Inl e \<Rightarrow> (Inl e, st1)
         | Inr e \<Rightarrow> (Inr (status_reply ''OK''), st1\<lparr>expires := (expires st1)(k \<mapsto> e)\<rparr>))"

text \<open>There is no \<^verbatim>\<open>check_expire\<close> here: a key whose time is over still counts as present.\<close>

definition cmd_setnx :: "'d redis \<Rightarrow> string \<Rightarrow> string \<Rightarrow> 'd redis_outcome" where
  "cmd_setnx st k v =
     (if data st k = None then (Inr (integer_reply 1), st\<lparr>data := (data st)(k \<mapsto> v)\<rparr>)
      else (Inr (integer_reply 0), st))"

definition cmd_get :: "int \<Rightarrow> 'd redis \<Rightarrow> string \<Rightarrow> 'd redis_outcome" where
  "cmd_get now st k =
     (let st1 = check_expire now st k
      in (Inr (case data st1 k of None \<Rightarrow> nil_reply | Some v \<Rightarrow> string_reply v), st1))"

definition cmd_del :: "'d redis \<Rightarrow> string list \<Rightarrow> 'd redis_outcome" where
  "cmd_del st ks =
     (let (count, st1) = foldl (\<lambda>(n, st) k. (if data st k = None then n else n + 1, erase_key st k)) (0, st) ks
      in (Inr (integer_reply count), st1))"

definition cmd_exists :: "int \<Rightarrow> 'd redis \<Rightarrow> string \<Rightarrow> 'd redis_outcome" where
  "cmd_exists now st k =
     (let st1 = check_expire now st k in (Inr (integer_reply (if data st1 k = None then 0 else 1)), st1))"

definition cmd_expire :: "int \<Rightarrow> 'd redis \<Rightarrow> string \<Rightarrow> string \<Rightarrow> 'd redis_outcome" where
  "cmd_expire now st k secs =
     (if data st k = None then (Inr (integer_reply 0), st)
      else case deadline now secs of
             Inl e \<Rightarrow> (Inl e, st)
           | Inr e \<Rightarrow> (Inr (integer_reply 1), st\<lparr>expires := (expires st)(k \<mapsto> e)\<rparr>))"

definition cmd_ttl :: "int \<Rightarrow> 'd redis \<Rightarrow> string \<Rightarrow> 'd redis_outcome" where
  "cmd_ttl now st k =
     (Inr (integer_reply
        (if data st k = None then - 2
         else case expires st k of None \<Rightarrow> - 1 | Some e \<Rightarrow> max 0 (e - now))), st)"

definition cmd_incrby :: "'d redis \<Rightarrow> string \<Rightarrow> (cpp_error + int) \<Rightarrow> 'd redis_outcome" where
  "cmd_incrby st k step =
     (case (case data st k of None \<Rightarrow> Inr 0 | Some v \<Rightarrow> stoll v) of
        Inl e \<Rightarrow> (Inl e, st)
      | Inr old \<Rightarrow>
          (case step of
             Inl e \<Rightarrow> (Inl e, st)
           | Inr d \<Rightarrow>
               (case add64 old d of
                  Inl e \<Rightarrow> (Inl e, st)
                | Inr v \<Rightarrow> (Inr (integer_reply v), st\<lparr>data := (data st)(k \<mapsto> to_string_int v)\<rparr>))))"

text \<open>Hashes.\<close>

definition hash_field :: "'d redis \<Rightarrow> string \<Rightarrow> string \<Rightarrow> string option" where
  "hash_field st k f = (case hashes st k of None \<Rightarrow> None | Some h \<Rightarrow> h f)"

definition cmd_hset :: "'d redis \<Rightarrow> string \<Rightarrow> string \<Rightarrow> string \<Rightarrow> 'd redis_outcome" where
  "cmd_hset st k f v =
     (Inr (integer_reply 1),
      st\<lparr>hashes := (hashes st)(k \<mapsto> (case hashes st k of None \<Rightarrow> Map.empty | Some h \<Rightarrow> h)(f \<mapsto> v))\<rparr>)"

definition cmd_hget :: "'d redis \<Rightarrow> string \<Rightarrow> string \<Rightarrow> 'd redis_outcome" where
  "cmd_hget st k f = (Inr (case hash_field st k f of None \<Rightarrow> nil_reply | Some v \<Rightarrow> string_reply v), st)"

definition cmd_hgetall :: "'d redis_lib \<Rightarrow> 'd redis \<Rightarrow> string \<Rightarrow> 'd redis_outcome" where
  "cmd_hgetall L st k =
     (Inr (array_reply
        (case hashes st k of
           None \<Rightarrow> []
         | Some h \<Rightarrow> concat (map (\<lambda>f. [f, the (h f)]) (hash_order L (dom h))))), st)"

definition cmd_hexists :: "'d redis \<Rightarrow> string \<Rightarrow> string \<Rightarrow> 'd redis_outcome" where
  "cmd_hexists st k f = (Inr (integer_reply (if hash_field st k f = None then 0 else 1)), st)"

definition cmd_hdel :: "'d redis \<Rightarrow> string \<Rightarrow> string \<Rightarrow> 'd redis_outcome" where
  "cmd_hdel st k f =
     (case hashes st k of
        None \<Rightarrow> (Inr (integer_reply 0), st)
      | Some h \<Rightarrow>
          if h f = None then (Inr (integer_reply 0), st)
          else (Inr (integer_reply 1), st\<lparr>hashes := (hashes st)(k \<mapsto> h(f := None))\<rparr>))"

definition cmd_hlen :: "'d redis \<Rightarrow> string \<Rightarrow> 'd redis_outcome" where
  "cmd_hlen st k = (Inr (integer_reply (case hashes st k of None \<Rightarrow> 0 | Some h \<Rightarrow> int (card (dom h)))), st)"

text \<open>Lists.\<close>

definition list_at :: "'d redis \<Rightarrow> string \<Rightarrow> string list" where
  "list_at st k = (case lists st k of None \<Rightarrow> [] | Some xs \<Rightarrow> xs)"

definition cmd_lpush :: "'d redis \<Rightarrow> string \<Rightarrow> string \<Rightarrow> 'd redis_outcome" where
  "cmd_lpush st k v =
     (let xs = v # list_at st k in (Inr (integer_reply (int (length xs))), st\<lparr>lists := (lists st)(k \<mapsto> xs)\<rparr>))"

definition cmd_rpush :: "'d redis \<Rightarrow> string \<Rightarrow> string \<Rightarrow> 'd redis_outcome" where
  "cmd_rpush st k v =
     (let xs = list_at st k @ [v] in (Inr (integer_reply (int (length xs))), st\<lparr>lists := (lists st)(k \<mapsto> xs)\<rparr>))"

definition cmd_lpop :: "'d redis \<Rightarrow> string \<Rightarrow> 'd redis_outcome" where
  "cmd_lpop st k =
     (case lists st k of
        Some (x # xs) \<Rightarrow> (Inr (string_reply x), st\<lparr>lists := (lists st)(k \<mapsto> xs)\<rparr>)
      | _ \<Rightarrow> (Inr nil_reply, st))"

definition cmd_rpop :: "'d redis \<Rightarrow> string \<Rightarrow> 'd redis_outcome" where
  "cmd_rpop st k =
     (case lists st k of
        Some (x # xs) \<Rightarrow> (Inr (string_reply (last (x # xs))), st\<lparr>lists := (lists st)(k \<mapsto> butlast (x # xs))\<rparr>)
      | _ \<Rightarrow> (Inr nil_reply, st))"

definition cmd_llen :: "'d redis \<Rightarrow> string \<Rightarrow> 'd redis_outcome" where
  "cmd_llen st k = (Inr (integer_reply (case lists st k of None \<Rightarrow> 0 | Some xs \<Rightarrow> int (length xs))), st)"

text \<open>The elements from \<open>start\<close> to \<open>stop\<close>, negative positions counting from the end.\<close>

definition range_of :: "'a list \<Rightarrow> int \<Rightarrow> int \<Rightarrow> 'a list" where
  "range_of xs start stop =
     (let len = int (length xs);
          a = max 0 (if start < 0 then len + start else start);
          b = min (len - 1) (if stop < 0 then len + stop else stop)
      in map (\<lambda>i. xs ! nat i) [a..b])"

definition parsed_range :: "'a list \<Rightarrow> string \<Rightarrow> string \<Rightarrow> ('a \<Rightarrow> string) \<Rightarrow> cpp_error + redis_reply" where
  "parsed_range xs start stop f =
     (case stoll start of
        Inl e \<Rightarrow> Inl e
      | Inr a \<Rightarrow> (case stoll stop of Inl e \<Rightarrow> Inl e | Inr b \<Rightarrow> Inr (array_reply (map f (range_of xs a b)))))"

definition cmd_lrange :: "'d redis \<Rightarrow> string \<Rightarrow> string \<Rightarrow> string \<Rightarrow> 'd redis_outcome" where
  "cmd_lrange st k start stop =
     (case lists st k of None \<Rightarrow> Inr (array_reply []) | Some xs \<Rightarrow> parsed_range xs start stop id, st)"

text \<open>Sets; \<^verbatim>\<open>SREM\<close> and \<^verbatim>\<open>SISMEMBER\<close> create the set they look into.\<close>

definition set_at :: "'d redis \<Rightarrow> string \<Rightarrow> string set" where
  "set_at st k = (case sets st k of None \<Rightarrow> {} | Some S \<Rightarrow> S)"

definition cmd_sadd :: "'d redis \<Rightarrow> string \<Rightarrow> string \<Rightarrow> 'd redis_outcome" where
  "cmd_sadd st k x =
     (Inr (integer_reply (if x \<in> set_at st k then 0 else 1)), st\<lparr>sets := (sets st)(k \<mapsto> insert x (set_at st k))\<rparr>)"

definition cmd_srem :: "'d redis \<Rightarrow> string \<Rightarrow> string \<Rightarrow> 'd redis_outcome" where
  "cmd_srem st k x =
     (Inr (integer_reply (if x \<in> set_at st k then 1 else 0)), st\<lparr>sets := (sets st)(k \<mapsto> set_at st k - {x})\<rparr>)"

definition cmd_sismember :: "'d redis \<Rightarrow> string \<Rightarrow> string \<Rightarrow> 'd redis_outcome" where
  "cmd_sismember st k x =
     (Inr (integer_reply (if x \<in> set_at st k then 1 else 0)), st\<lparr>sets := (sets st)(k \<mapsto> set_at st k)\<rparr>)"

definition cmd_smembers :: "'d redis \<Rightarrow> string \<Rightarrow> 'd redis_outcome" where
  "cmd_smembers st k = (Inr (array_reply (sorted_list_of_set (set_at st k))), st)"

definition cmd_scard :: "'d redis \<Rightarrow> string \<Rightarrow> 'd redis_outcome" where
  "cmd_scard st k = (Inr (integer_reply (int (card (set_at st k)))), st)"

text \<open>Sorted sets: pairs of score and member, sorted when a member is added but not when its score changes.\<close>

definition zset_at :: "'d redis \<Rightarrow> string \<Rightarrow> ('d \<times> string) list" where
  "zset_at st k = (case zsets st k of None \<Rightarrow> [] | Some zs \<Rightarrow> zs)"

fun zset_rescore :: "'d \<Rightarrow> string \<Rightarrow> ('d \<times> string) list \<Rightarrow> ('d \<times> string) list option" where
  "zset_rescore score x [] = None"
| "zset_rescore score x (p # zs) =
     (if snd p = x then Some ((score, x) # zs) else map_option ((#) p) (zset_rescore score x zs))"

definition cmd_zadd :: "('d :: linorder) redis_lib \<Rightarrow> 'd redis \<Rightarrow> string \<Rightarrow> string \<Rightarrow> string \<Rightarrow> 'd redis_outcome" where
  "cmd_zadd L st k score x =
     (case stod L score of
        Inl e \<Rightarrow> (Inl e, st)
      | Inr d \<Rightarrow>
          (case zset_rescore d x (zset_at st k) of
             Some zs \<Rightarrow> (Inr (integer_reply 0), st\<lparr>zsets := (zsets st)(k \<mapsto> zs)\<rparr>)
           | None \<Rightarrow> (Inr (integer_reply 1), st\<lparr>zsets := (zsets st)(k \<mapsto> sort (zset_at st k @ [(d, x)]))\<rparr>)))"

definition cmd_zrange :: "'d redis \<Rightarrow> string \<Rightarrow> string \<Rightarrow> string \<Rightarrow> 'd redis_outcome" where
  "cmd_zrange st k start stop =
     (case zsets st k of None \<Rightarrow> Inr (array_reply []) | Some zs \<Rightarrow> parsed_range zs start stop snd, st)"

fun zset_erase :: "string \<Rightarrow> ('d \<times> string) list \<Rightarrow> ('d \<times> string) list" where
  "zset_erase x [] = []"
| "zset_erase x (p # zs) = (if snd p = x then zs else p # zset_erase x zs)"

definition cmd_zrem :: "'d redis \<Rightarrow> string \<Rightarrow> string \<Rightarrow> 'd redis_outcome" where
  "cmd_zrem st k x =
     (case zsets st k of
        None \<Rightarrow> (Inr (integer_reply 0), st)
      | Some zs \<Rightarrow>
          if x \<in> snd ` set zs then (Inr (integer_reply 1), st\<lparr>zsets := (zsets st)(k \<mapsto> zset_erase x zs)\<rparr>)
          else (Inr (integer_reply 0), st))"

definition cmd_zscore :: "'d redis_lib \<Rightarrow> 'd redis \<Rightarrow> string \<Rightarrow> string \<Rightarrow> 'd redis_outcome" where
  "cmd_zscore L st k x =
     (Inr (case find (\<lambda>p. snd p = x) (zset_at st k) of
             None \<Rightarrow> nil_reply | Some p \<Rightarrow> string_reply (to_string_double L (fst p))), st)"

fun index_of_member :: "string \<Rightarrow> ('d \<times> string) list \<Rightarrow> int \<Rightarrow> int" where
  "index_of_member x [] i = - 1"
| "index_of_member x (p # zs) i = (if snd p = x then i else index_of_member x zs (i + 1))"

definition cmd_zrank :: "'d redis \<Rightarrow> string \<Rightarrow> string \<Rightarrow> 'd redis_outcome" where
  "cmd_zrank st k x = (Inr (integer_reply (index_of_member x (zset_at st k) 0)), st)"

definition cmd_zcard :: "'d redis \<Rightarrow> string \<Rightarrow> 'd redis_outcome" where
  "cmd_zcard st k = (Inr (integer_reply (int (length (zset_at st k)))), st)"

section \<open>Dispatch\<close>

definition toupper :: "char \<Rightarrow> char" where
  "toupper c = (if 97 \<le> (of_char c :: nat) \<and> (of_char c :: nat) \<le> 122 then char_of (of_char c - 32 :: nat) else c)"

definition redis_execute :: "('d :: linorder) redis_lib \<Rightarrow> int \<Rightarrow> 'd redis \<Rightarrow> string list \<Rightarrow> 'd redis_outcome" where
  "redis_execute L now st args =
     (if args = [] then (Inr (error_reply ''empty command''), st)
      else let cmd = map toupper (args ! 0); n = length args in
        if cmd = ''SET'' \<and> 3 \<le> n then cmd_set st (args ! 1) (args ! 2)
        else if cmd = ''SETEX'' \<and> 4 \<le> n then cmd_setex now st (args ! 1) (args ! 2) (args ! 3)
        else if cmd = ''SETNX'' \<and> 3 \<le> n then cmd_setnx st (args ! 1) (args ! 2)
        else if cmd = ''GET'' \<and> 2 \<le> n then cmd_get now st (args ! 1)
        else if cmd = ''DEL'' \<and> 2 \<le> n then cmd_del st (tl args)
        else if cmd = ''EXISTS'' \<and> 2 \<le> n then cmd_exists now st (args ! 1)
        else if cmd = ''EXPIRE'' \<and> 3 \<le> n then cmd_expire now st (args ! 1) (args ! 2)
        else if cmd = ''TTL'' \<and> 2 \<le> n then cmd_ttl now st (args ! 1)
        else if cmd = ''INCR'' \<and> 2 \<le> n then cmd_incrby st (args ! 1) (Inr 1)
        else if cmd = ''INCRBY'' \<and> 3 \<le> n then cmd_incrby st (args ! 1) (stoll (args ! 2))
        else if cmd = ''HSET'' \<and> 4 \<le> n then cmd_hset st (args ! 1) (args ! 2) (args ! 3)
        else if cmd = ''HGET'' \<and> 3 \<le> n then cmd_hget st (args ! 1) (args ! 2)
        else if cmd = ''HGETALL'' \<and> 2 \<le> n then cmd_hgetall L st (args ! 1)
        else if cmd = ''HEXISTS'' \<and> 3 \<le> n then cmd_hexists st (args ! 1) (args ! 2)
        else if cmd = ''HDEL'' \<and> 3 \<le> n then cmd_hdel st (args ! 1) (args ! 2)
        else if cmd = ''HLEN'' \<and> 2 \<le> n then cmd_hlen st (args ! 1)
        else if cmd = ''LPUSH'' \<and> 3 \<le> n then cmd_lpush st (args ! 1) (args ! 2)
        else if cmd = ''RPUSH'' \<and> 3 \<le> n then cmd_rpush st (args ! 1) (args ! 2)
        else if cmd = ''LPOP'' \<and> 2 \<le> n then cmd_lpop st (args ! 1)
        else if cmd = ''RPOP'' \<and> 2 \<le> n then cmd_rpop st (args ! 1)
        else if cmd = ''LRANGE'' \<and> 4 \<le> n then cmd_lrange st (args ! 1) (args ! 2) (args ! 3)
        else if cmd = ''SADD'' \<and> 3 \<le> n then cmd_sadd st (args ! 1) (args ! 2)
        else if cmd = ''SREM'' \<and> 3 \<le> n then cmd_srem st (args ! 1) (args ! 2)
        else if cmd = ''SISMEMBER'' \<and> 3 \<le> n then cmd_sismember st (args ! 1) (args ! 2)
        else if cmd = ''SMEMBERS'' \<and> 2 \<le> n then cmd_smembers st (args ! 1)
        else if cmd = ''SCARD'' \<and> 2 \<le> n then cmd_scard st (args ! 1)
        else if cmd = ''ZADD'' \<and> 4 \<le> n then cmd_zadd L st (args ! 1) (args ! 2) (args ! 3)
        else if cmd = ''ZRANGE'' \<and> 4 \<le> n then cmd_zrange st (args ! 1) (args ! 2) (args ! 3)
        else if cmd = ''ZREM'' \<and> 3 \<le> n then cmd_zrem st (args ! 1) (args ! 2)
        else if cmd = ''ZSCORE'' \<and> 3 \<le> n then cmd_zscore L st (args ! 1) (args ! 2)
        else if cmd = ''ZRANK'' \<and> 3 \<le> n then cmd_zrank st (args ! 1) (args ! 2)
        else if cmd = ''ZCARD'' \<and> 2 \<le> n then cmd_zcard st (args ! 1)
        else if cmd = ''LLEN'' \<and> 2 \<le> n then cmd_llen st (args ! 1)
        else if cmd = ''PING'' then (Inr (status_reply ''PONG''), st)
        else (Inr (error_reply (''unsupported command: '' @ cmd)), st))"

section \<open>Typed client functions\<close>

text \<open>\<open>reading f\<close> applies to the reply what a client function makes of it; exceptions pass through.\<close>

definition reading :: "(redis_reply \<Rightarrow> 'a) \<Rightarrow> 'd redis_outcome \<Rightarrow> (cpp_error + 'a) \<times> 'd redis" where
  "reading f r = map_prod (map_sum id f) id r"

definition integer_or :: "int \<Rightarrow> redis_reply \<Rightarrow> int" where
  "integer_or z r = (if r_type r = INTEGER then r_integer r else z)"

definition is_one :: "redis_reply \<Rightarrow> bool" where
  "is_one r \<longleftrightarrow> r_type r = INTEGER \<and> r_integer r = 1"

definition string_or_empty :: "redis_reply \<Rightarrow> string" where
  "string_or_empty r = (if r_type r = STRING then r_str r else [])"

definition string_option :: "redis_reply \<Rightarrow> string option" where
  "string_option r = (if r_type r = STRING then Some (r_str r) else None)"

definition strings_of :: "redis_reply \<Rightarrow> string list" where
  "strings_of r = (if r_type r = ARRAY then map r_str (r_elements r) else [])"

fun pairs_of :: "string list \<Rightarrow> (string \<rightharpoonup> string)" where
  "pairs_of (f # v # xs) = (\<lambda>x. case pairs_of xs x of None \<Rightarrow> if x = f then Some v else None | Some w \<Rightarrow> Some w)"
| "pairs_of _ = Map.empty"

definition redis_set :: "('d :: linorder) redis_lib \<Rightarrow> int \<Rightarrow> 'd redis \<Rightarrow> string \<Rightarrow> string \<Rightarrow> (cpp_error + bool) \<times> 'd redis" where
  "redis_set L now st k v = reading reply_ok (redis_execute L now st [''SET'', k, v])"

definition redis_setex :: "('d :: linorder) redis_lib \<Rightarrow> int \<Rightarrow> 'd redis \<Rightarrow> string \<Rightarrow> int \<Rightarrow> string \<Rightarrow> (cpp_error + bool) \<times> 'd redis" where
  "redis_setex L now st k secs v = reading reply_ok (redis_execute L now st [''SETEX'', k, to_string_int secs, v])"

definition redis_setnx :: "('d :: linorder) redis_lib \<Rightarrow> int \<Rightarrow> 'd redis \<Rightarrow> string \<Rightarrow> string \<Rightarrow> (cpp_error + bool) \<times> 'd redis" where
  "redis_setnx L now st k v = reading is_one (redis_execute L now st [''SETNX'', k, v])"

definition redis_get :: "('d :: linorder) redis_lib \<Rightarrow> int \<Rightarrow> 'd redis \<Rightarrow> string \<Rightarrow> (cpp_error + string) \<times> 'd redis" where
  "redis_get L now st k = reading string_or_empty (redis_execute L now st [''GET'', k])"

definition redis_get_value :: "('d :: linorder) redis_lib \<Rightarrow> int \<Rightarrow> 'd redis \<Rightarrow> string \<Rightarrow> (cpp_error + string option) \<times> 'd redis" where
  "redis_get_value L now st k = reading string_option (redis_execute L now st [''GET'', k])"

definition redis_del :: "('d :: linorder) redis_lib \<Rightarrow> int \<Rightarrow> 'd redis \<Rightarrow> string \<Rightarrow> (cpp_error + int) \<times> 'd redis" where
  "redis_del L now st k = reading (as_int \<circ> integer_or 0) (redis_execute L now st [''DEL'', k])"

definition redis_exists :: "('d :: linorder) redis_lib \<Rightarrow> int \<Rightarrow> 'd redis \<Rightarrow> string \<Rightarrow> (cpp_error + bool) \<times> 'd redis" where
  "redis_exists L now st k = reading is_one (redis_execute L now st [''EXISTS'', k])"

definition redis_expire :: "('d :: linorder) redis_lib \<Rightarrow> int \<Rightarrow> 'd redis \<Rightarrow> string \<Rightarrow> int \<Rightarrow> (cpp_error + bool) \<times> 'd redis" where
  "redis_expire L now st k secs = reading is_one (redis_execute L now st [''EXPIRE'', k, to_string_int secs])"

definition redis_ttl :: "('d :: linorder) redis_lib \<Rightarrow> int \<Rightarrow> 'd redis \<Rightarrow> string \<Rightarrow> (cpp_error + int) \<times> 'd redis" where
  "redis_ttl L now st k = reading (as_int \<circ> integer_or (- 2)) (redis_execute L now st [''TTL'', k])"

definition redis_incr :: "('d :: linorder) redis_lib \<Rightarrow> int \<Rightarrow> 'd redis \<Rightarrow> string \<Rightarrow> (cpp_error + int) \<times> 'd redis" where
  "redis_incr L now st k = reading (integer_or 0) (redis_execute L now st [''INCR'', k])"

definition redis_incrby :: "('d :: linorder) redis_lib \<Rightarrow> int \<Rightarrow> 'd redis \<Rightarrow> string \<Rightarrow> int \<Rightarrow> (cpp_error + int) \<times> 'd redis" where
  "redis_incrby L now st k d = reading (integer_or 0) (redis_execute L now st [''INCRBY'', k, to_string_int d])"

definition redis_hset :: "('d :: linorder) redis_lib \<Rightarrow> int \<Rightarrow> 'd redis \<Rightarrow> string \<Rightarrow> string \<Rightarrow> string \<Rightarrow> (cpp_error + bool) \<times> 'd redis" where
  "redis_hset L now st k f v = reading reply_ok (redis_execute L now st [''HSET'', k, f, v])"

definition redis_hget :: "('d :: linorder) redis_lib \<Rightarrow> int \<Rightarrow> 'd redis \<Rightarrow> string \<Rightarrow> string \<Rightarrow> (cpp_error + string) \<times> 'd redis" where
  "redis_hget L now st k f = reading string_or_empty (redis_execute L now st [''HGET'', k, f])"

definition redis_hget_value :: "('d :: linorder) redis_lib \<Rightarrow> int \<Rightarrow> 'd redis \<Rightarrow> string \<Rightarrow> string \<Rightarrow> (cpp_error + string option) \<times> 'd redis" where
  "redis_hget_value L now st k f = reading string_option (redis_execute L now st [''HGET'', k, f])"

definition redis_hexists :: "('d :: linorder) redis_lib \<Rightarrow> int \<Rightarrow> 'd redis \<Rightarrow> string \<Rightarrow> string \<Rightarrow> (cpp_error + bool) \<times> 'd redis" where
  "redis_hexists L now st k f = reading is_one (redis_execute L now st [''HEXISTS'', k, f])"

definition redis_hdel :: "('d :: linorder) redis_lib \<Rightarrow> int \<Rightarrow> 'd redis \<Rightarrow> string \<Rightarrow> string \<Rightarrow> (cpp_error + int) \<times> 'd redis" where
  "redis_hdel L now st k f = reading (as_int \<circ> integer_or 0) (redis_execute L now st [''HDEL'', k, f])"

definition redis_hlen :: "('d :: linorder) redis_lib \<Rightarrow> int \<Rightarrow> 'd redis \<Rightarrow> string \<Rightarrow> (cpp_error + int) \<times> 'd redis" where
  "redis_hlen L now st k = reading (integer_or 0) (redis_execute L now st [''HLEN'', k])"

definition redis_hgetall :: "('d :: linorder) redis_lib \<Rightarrow> int \<Rightarrow> 'd redis \<Rightarrow> string \<Rightarrow> (cpp_error + (string \<rightharpoonup> string)) \<times> 'd redis" where
  "redis_hgetall L now st k = reading (pairs_of \<circ> strings_of) (redis_execute L now st [''HGETALL'', k])"

definition redis_lpush :: "('d :: linorder) redis_lib \<Rightarrow> int \<Rightarrow> 'd redis \<Rightarrow> string \<Rightarrow> string \<Rightarrow> (cpp_error + int) \<times> 'd redis" where
  "redis_lpush L now st k v = reading (integer_or 0) (redis_execute L now st [''LPUSH'', k, v])"

definition redis_rpush :: "('d :: linorder) redis_lib \<Rightarrow> int \<Rightarrow> 'd redis \<Rightarrow> string \<Rightarrow> string \<Rightarrow> (cpp_error + int) \<times> 'd redis" where
  "redis_rpush L now st k v = reading (integer_or 0) (redis_execute L now st [''RPUSH'', k, v])"

definition redis_lpop :: "('d :: linorder) redis_lib \<Rightarrow> int \<Rightarrow> 'd redis \<Rightarrow> string \<Rightarrow> (cpp_error + string) \<times> 'd redis" where
  "redis_lpop L now st k = reading string_or_empty (redis_execute L now st [''LPOP'', k])"

definition redis_rpop :: "('d :: linorder) redis_lib \<Rightarrow> int \<Rightarrow> 'd redis \<Rightarrow> string \<Rightarrow> (cpp_error + string) \<times> 'd redis" where
  "redis_rpop L now st k = reading string_or_empty (redis_execute L now st [''RPOP'', k])"

definition redis_llen :: "('d :: linorder) redis_lib \<Rightarrow> int \<Rightarrow> 'd redis \<Rightarrow> string \<Rightarrow> (cpp_error + int) \<times> 'd redis" where
  "redis_llen L now st k = reading (integer_or 0) (redis_execute L now st [''LLEN'', k])"

definition redis_lrange :: "('d :: linorder) redis_lib \<Rightarrow> int \<Rightarrow> 'd redis \<Rightarrow> string \<Rightarrow> int \<Rightarrow> int \<Rightarrow> (cpp_error + string list) \<times> 'd redis" where
  "redis_lrange L now st k start stop = reading strings_of (redis_execute L now st [''LRANGE'', k, to_string_int start, to_string_int stop])"

definition redis_sadd :: "('d :: linorder) redis_lib \<Rightarrow> int \<Rightarrow> 'd redis \<Rightarrow> string \<Rightarrow> string \<Rightarrow> (cpp_error + int) \<times> 'd redis" where
  "redis_sadd L now st k x = reading (as_int \<circ> integer_or 0) (redis_execute L now st [''SADD'', k, x])"

definition redis_srem :: "('d :: linorder) redis_lib \<Rightarrow> int \<Rightarrow> 'd redis \<Rightarrow> string \<Rightarrow> string \<Rightarrow> (cpp_error + int) \<times> 'd redis" where
  "redis_srem L now st k x = reading (as_int \<circ> integer_or 0) (redis_execute L now st [''SREM'', k, x])"

definition redis_sismember :: "('d :: linorder) redis_lib \<Rightarrow> int \<Rightarrow> 'd redis \<Rightarrow> string \<Rightarrow> string \<Rightarrow> (cpp_error + bool) \<times> 'd redis" where
  "redis_sismember L now st k x = reading is_one (redis_execute L now st [''SISMEMBER'', k, x])"

definition redis_scard :: "('d :: linorder) redis_lib \<Rightarrow> int \<Rightarrow> 'd redis \<Rightarrow> string \<Rightarrow> (cpp_error + int) \<times> 'd redis" where
  "redis_scard L now st k = reading (integer_or 0) (redis_execute L now st [''SCARD'', k])"

definition redis_smembers :: "('d :: linorder) redis_lib \<Rightarrow> int \<Rightarrow> 'd redis \<Rightarrow> string \<Rightarrow> (cpp_error + string list) \<times> 'd redis" where
  "redis_smembers L now st k = reading strings_of (redis_execute L now st [''SMEMBERS'', k])"

definition redis_zadd :: "('d :: linorder) redis_lib \<Rightarrow> int \<Rightarrow> 'd redis \<Rightarrow> string \<Rightarrow> 'd \<Rightarrow> string \<Rightarrow> (cpp_error + int) \<times> 'd redis" where
  "redis_zadd L now st k score x = reading (as_int \<circ> integer_or 0) (redis_execute L now st [''ZADD'', k, to_string_double L score, x])"

definition redis_zrem :: "('d :: linorder) redis_lib \<Rightarrow> int \<Rightarrow> 'd redis \<Rightarrow> string \<Rightarrow> string \<Rightarrow> (cpp_error + int) \<times> 'd redis" where
  "redis_zrem L now st k x = reading (as_int \<circ> integer_or 0) (redis_execute L now st [''ZREM'', k, x])"

text \<open>\<^verbatim>\<open>zscore\<close> reads the printed score back; a missing member has score 0.\<close>

definition redis_zscore :: "('d :: {linorder, zero}) redis_lib \<Rightarrow> int \<Rightarrow> 'd redis \<Rightarrow> string \<Rightarrow> string \<Rightarrow> (cpp_error + 'd) \<times> 'd redis" where
  "redis_zscore L now st k x =
     (case redis_execute L now st [''ZSCORE'', k, x] of
        (Inl e, st1) \<Rightarrow> (Inl e, st1)
      | (Inr r, st1) \<Rightarrow> (if r_type r = STRING then stod L (r_str r) else Inr 0, st1))"

definition redis_zrank :: "('d :: linorder) redis_lib \<Rightarrow> int \<Rightarrow> 'd redis \<Rightarrow> string \<Rightarrow> string \<Rightarrow> (cpp_error + int) \<times> 'd redis" where
  "redis_zrank L now st k x = reading (integer_or (- 1)) (redis_execute L now st [''ZRANK'', k, x])"

definition redis_zcard :: "('d :: linorder) redis_lib \<Rightarrow> int \<Rightarrow> 'd redis \<Rightarrow> string \<Rightarrow> (cpp_error + int) \<times> 'd redis" where
  "redis_zcard L now st k = reading (integer_or 0) (redis_execute L now st [''ZCARD'', k])"

definition redis_zrange :: "('d :: linorder) redis_lib \<Rightarrow> int \<Rightarrow> 'd redis \<Rightarrow> string \<Rightarrow> int \<Rightarrow> int \<Rightarrow> (cpp_error + string list) \<times> 'd redis" where
  "redis_zrange L now st k start stop = reading strings_of (redis_execute L now st [''ZRANGE'', k, to_string_int start, to_string_int stop])"

section \<open>Commands and keys\<close>

text \<open>A command works on the key in its first argument; \<^verbatim>\<open>DEL\<close> on all its arguments.\<close>

definition names_key :: "string list \<Rightarrow> string \<Rightarrow> bool" where
  "names_key args k \<longleftrightarrow>
     (if args \<noteq> [] \<and> map toupper (args ! 0) = ''DEL'' then k \<in> set (tl args)
      else 2 \<le> length args \<and> args ! 1 = k)"

definition same_key :: "string \<Rightarrow> 'd redis \<Rightarrow> 'd redis \<Rightarrow> bool" where
  "same_key k st st' \<longleftrightarrow> data st' k = data st k \<and> expires st' k = expires st k \<and> hashes st' k = hashes st k \<and>
     lists st' k = lists st k \<and> sets st' k = sets st k \<and> zsets st' k = zsets st k"

lemma same_key_refl [simp]: "same_key k st st"
  by (simp add: same_key_def)

lemma same_key_trans: "same_key k st st1 \<Longrightarrow> same_key k st1 st2 \<Longrightarrow> same_key k st st2"
  by (simp add: same_key_def)

lemma same_key_erase: "k \<noteq> k' \<Longrightarrow> same_key k st (erase_key st k')"
  by (simp add: same_key_def erase_key_def)

lemma same_key_check_expire: "k \<noteq> k' \<Longrightarrow> same_key k st (check_expire now st k')"
  by (simp add: check_expire_def same_key_erase split: option.split)

lemma cmd_del_frame: "k \<notin> set ks \<Longrightarrow> same_key k st (snd (cmd_del st ks))"
proof -
  have "k \<notin> set ks \<Longrightarrow>
      same_key k st (snd (foldl (\<lambda>(n, st) k. (if data st k = None then n else n + 1, erase_key st k)) (n :: int, st) ks))" for n
  proof (induction ks arbitrary: n st)
    case (Cons k' ks)
    then show ?case using same_key_trans [OF same_key_erase [of k k' st]] by simp
  qed simp
  then show "k \<notin> set ks \<Longrightarrow> same_key k st (snd (cmd_del st ks))"
    by (simp add: cmd_del_def Let_def case_prod_beta' [of "\<lambda>count st1. (Inr (integer_reply count), st1)"])
qed

lemma string_frame:
  assumes "k \<noteq> k'"
  shows "same_key k st (snd (cmd_set st k' v))" "same_key k st (snd (cmd_setex now st k' secs v))"
    "same_key k st (snd (cmd_setnx st k' v))" "same_key k st (snd (cmd_get now st k'))"
    "same_key k st (snd (cmd_exists now st k'))" "same_key k st (snd (cmd_expire now st k' secs))"
    "same_key k st (snd (cmd_ttl now st k'))" "same_key k st (snd (cmd_incrby st k' step))"
  using assms same_key_check_expire [OF assms]
  by (auto simp: cmd_set_def cmd_setex_def cmd_setnx_def cmd_get_def cmd_exists_def cmd_expire_def cmd_ttl_def
      cmd_incrby_def Let_def same_key_def split: sum.split option.split)

lemma container_frame:
  assumes "k \<noteq> k'"
  shows "same_key k st (snd (cmd_hset st k' f v))" "same_key k st (snd (cmd_hget st k' f))"
    "same_key k st (snd (cmd_hgetall L st k'))" "same_key k st (snd (cmd_hexists st k' f))"
    "same_key k st (snd (cmd_hdel st k' f))" "same_key k st (snd (cmd_hlen st k'))"
    "same_key k st (snd (cmd_lpush st k' v))" "same_key k st (snd (cmd_rpush st k' v))"
    "same_key k st (snd (cmd_lpop st k'))" "same_key k st (snd (cmd_rpop st k'))"
    "same_key k st (snd (cmd_lrange st k' a b))" "same_key k st (snd (cmd_llen st k'))"
  using assms
  by (auto simp: cmd_hset_def cmd_hget_def cmd_hgetall_def cmd_hexists_def cmd_hdel_def cmd_hlen_def cmd_lpush_def
      cmd_rpush_def cmd_lpop_def cmd_rpop_def cmd_lrange_def cmd_llen_def Let_def same_key_def
      split: option.split list.split)

lemma set_frame:
  assumes "k \<noteq> k'"
  shows "same_key k st (snd (cmd_sadd st k' x))" "same_key k st (snd (cmd_srem st k' x))"
    "same_key k st (snd (cmd_sismember st k' x))" "same_key k st (snd (cmd_smembers st k'))"
    "same_key k st (snd (cmd_scard st k'))" "same_key k st (snd (cmd_zadd L st k' score x))"
    "same_key k st (snd (cmd_zrange st k' a b))" "same_key k st (snd (cmd_zrem st k' x))"
    "same_key k st (snd (cmd_zscore L st k' x))" "same_key k st (snd (cmd_zrank st k' x))"
    "same_key k st (snd (cmd_zcard st k'))"
  using assms
  by (auto simp: cmd_sadd_def cmd_srem_def cmd_sismember_def cmd_smembers_def cmd_scard_def cmd_zadd_def cmd_zrange_def
      cmd_zrem_def cmd_zscore_def cmd_zrank_def cmd_zcard_def same_key_def split: sum.split option.split)

lemmas command_frames = string_frame container_frame set_frame cmd_del_frame

lemma if_case: "(P \<Longrightarrow> Q a) \<Longrightarrow> (\<not> P \<Longrightarrow> Q b) \<Longrightarrow> Q (if P then a else b)"
  by simp

lemma execute_frame:
  assumes "\<not> names_key args k"
  shows "same_key k st (snd (redis_execute L now st args))"
  unfolding redis_execute_def Let_def
  by (intro if_case [where Q = "\<lambda>r. same_key k st (snd r)"] command_frames)
    (use assms in \<open>auto simp: names_key_def split: if_splits\<close>)

lemma toupper_commands:
  "map toupper ''SETEX'' = ''SETEX''" "map toupper ''SETNX'' = ''SETNX''" "map toupper ''GET'' = ''GET''"
  "map toupper ''DEL'' = ''DEL''" "map toupper ''EXPIRE'' = ''EXPIRE''" "map toupper ''LPUSH'' = ''LPUSH''"
  "map toupper ''RPUSH'' = ''RPUSH''" "map toupper ''LPOP'' = ''LPOP''" "map toupper ''RPOP'' = ''RPOP''"
  "map toupper ''LLEN'' = ''LLEN''" "map toupper ''LRANGE'' = ''LRANGE''" "map toupper ''ZADD'' = ''ZADD''"
  "map toupper ''ZRANGE'' = ''ZRANGE''"
  by (simp_all add: toupper_def)

lemma execute_commands:
  "redis_execute L now st [''SETEX'', k, secs, v] = cmd_setex now st k secs v"
  "redis_execute L now st [''SETNX'', k, v] = cmd_setnx st k v"
  "redis_execute L now st [''GET'', k] = cmd_get now st k"
  "redis_execute L now st [''DEL'', k] = cmd_del st [k]"
  "redis_execute L now st [''EXPIRE'', k, secs] = cmd_expire now st k secs"
  "redis_execute L now st [''LPUSH'', k, v] = cmd_lpush st k v"
  "redis_execute L now st [''RPUSH'', k, v] = cmd_rpush st k v"
  "redis_execute L now st [''LPOP'', k] = cmd_lpop st k"
  "redis_execute L now st [''RPOP'', k] = cmd_rpop st k"
  "redis_execute L now st [''LLEN'', k] = cmd_llen st k"
  "redis_execute L now st [''LRANGE'', k, a, b] = cmd_lrange st k a b"
  "redis_execute L now st [''ZADD'', k, a, b] = cmd_zadd L st k a b"
  "redis_execute L now st [''ZRANGE'', k, a, b] = cmd_zrange st k a b"
  by (simp_all only: redis_execute_def Let_def nth_Cons_0 toupper_commands) simp_all

text \<open>The client functions print a number and the command reads it back.\<close>

lemma stoll_to_string_int:
  assumes "- (2 ^ 63) \<le> v" and "v < 2 ^ 63"
  shows "stoll (to_string_int v) = Inr v"
proof (cases "v < 0")
  case True
  have "\<not> is_space (CHR ''-'')" by (simp add: is_space_def)
  moreover have "takeWhile is_digit (dec (nat (- v))) \<noteq> []"
    using dec_nonempty [of "nat (- v)"] dec_digits [of _ "nat (- v)"] by (cases "dec (nat (- v))") auto
  ultimately show ?thesis using True assms by (simp add: stoll_def to_string_int_def digits_value_dec Let_def)
next
  case False
  obtain c cs where c: "dec (nat v) = c # cs" using dec_nonempty [of "nat v"] by (cases "dec (nat v)") auto
  then have d: "is_digit c" using dec_digits [of c "nat v"] by simp
  then have "dropWhile is_space (dec (nat v)) = dec (nat v)" "c \<noteq> CHR ''-''" "c \<noteq> CHR ''+''"
    using digit_chars [of c] c by auto
  then show ?thesis using False assms digits_value_dec [of "nat v"] d
    by (simp add: stoll_def to_string_int_def c Let_def)
qed

section \<open>Keys with a time to live\<close>

fun run_commands :: "('d :: linorder) redis_lib \<Rightarrow> 'd redis \<Rightarrow> (int \<times> string list) list \<Rightarrow> 'd redis" where
  "run_commands L st [] = st"
| "run_commands L st ((now, args) # cs) = run_commands L (snd (redis_execute L now st args)) cs"

lemma run_commands_frame:
  "(\<forall>c\<in>set cs. \<not> names_key (snd c) k) \<Longrightarrow> same_key k st (run_commands L st cs)"
proof (induction L st cs rule: run_commands.induct)
  case (2 L st now args cs)
  then show ?case using same_key_trans [OF execute_frame] by fastforce
qed simp

section \<open>Lists\<close>

text \<open>The calls on lists and what they promise: every key holds a double-ended queue.\<close>

datatype list_call = LPush string | RPush string | LPop | RPop | LLen | LRange int int

datatype list_answer = Count int | Popped string | Items "string list"

definition slice :: "'a list \<Rightarrow> int \<Rightarrow> int \<Rightarrow> 'a list" where
  "slice xs start stop =
     (let pos = (\<lambda>i. if i < 0 then int (length xs) + i else i)
      in drop (nat (pos start)) (take (nat (pos stop + 1)) xs))"

fun deque_step :: "string list \<Rightarrow> list_call \<Rightarrow> list_answer \<times> string list" where
  "deque_step xs (LPush v) = (Count (int (length xs) + 1), v # xs)"
| "deque_step xs (RPush v) = (Count (int (length xs) + 1), xs @ [v])"
| "deque_step [] LPop = (Popped [], [])"
| "deque_step (x # xs) LPop = (Popped x, xs)"
| "deque_step [] RPop = (Popped [], [])"
| "deque_step (x # xs) RPop = (Popped (last (x # xs)), butlast (x # xs))"
| "deque_step xs LLen = (Count (int (length xs)), xs)"
| "deque_step xs (LRange start stop) = (Items (slice xs start stop), xs)"

fun run_deques :: "(string \<Rightarrow> string list) \<Rightarrow> (int \<times> string \<times> list_call) list \<Rightarrow> list_answer list" where
  "run_deques f [] = []"
| "run_deques f ((now, k, c) # cs) = fst (deque_step (f k) c) # run_deques (f(k := snd (deque_step (f k) c))) cs"

fun do_list_call :: "('d :: linorder) redis_lib \<Rightarrow> int \<Rightarrow> 'd redis \<Rightarrow> string \<Rightarrow> list_call \<Rightarrow> (cpp_error + list_answer) \<times> 'd redis" where
  "do_list_call L now st k (LPush v) = map_prod (map_sum id Count) id (redis_lpush L now st k v)"
| "do_list_call L now st k (RPush v) = map_prod (map_sum id Count) id (redis_rpush L now st k v)"
| "do_list_call L now st k LPop = map_prod (map_sum id Popped) id (redis_lpop L now st k)"
| "do_list_call L now st k RPop = map_prod (map_sum id Popped) id (redis_rpop L now st k)"
| "do_list_call L now st k LLen = map_prod (map_sum id Count) id (redis_llen L now st k)"
| "do_list_call L now st k (LRange start stop) = map_prod (map_sum id Items) id (redis_lrange L now st k start stop)"

fun run_list_calls :: "('d :: linorder) redis_lib \<Rightarrow> 'd redis \<Rightarrow> (int \<times> string \<times> list_call) list \<Rightarrow> (cpp_error + list_answer) list" where
  "run_list_calls L st [] = []"
| "run_list_calls L st ((now, k, c) # cs) = fst (do_list_call L now st k c) # run_list_calls L (snd (do_list_call L now st k c)) cs"

fun int64_args :: "list_call \<Rightarrow> bool" where
  "int64_args (LRange start stop) \<longleftrightarrow> - (2 ^ 63) \<le> start \<and> start < 2 ^ 63 \<and> - (2 ^ 63) \<le> stop \<and> stop < 2 ^ 63"
| "int64_args _ \<longleftrightarrow> True"

lemma map_nth_upto: "0 \<le> a \<Longrightarrow> b < int (length xs) \<Longrightarrow> map (\<lambda>i. xs ! nat i) [a..b] = drop (nat a) (take (nat (b + 1)) xs)"
  by (rule nth_equalityI) (auto simp: nat_add_distrib)

lemma range_of_slice: "range_of xs start stop = slice xs start stop"
proof -
  let ?pos = "\<lambda>i. if i < 0 then int (length xs) + i else i"
  let ?a = "max 0 (?pos start)" and ?b = "min (int (length xs) - 1) (?pos stop)"
  have "map (\<lambda>i. xs ! nat i) [?a..?b] = drop (nat ?a) (take (nat (?b + 1)) xs)"
    by (rule map_nth_upto) auto
  moreover have "take (nat (?b + 1)) xs = take (nat (?pos stop + 1)) xs"
    by (cases "?pos stop \<le> int (length xs) - 1") auto
  moreover have "nat ?a = nat (?pos start)" by auto
  ultimately show ?thesis by (simp add: range_of_def slice_def Let_def)
qed

lemmas list_call_defs =
  redis_lpush_def redis_rpush_def redis_lpop_def redis_rpop_def redis_llen_def redis_lrange_def execute_commands
  cmd_lpush_def cmd_rpush_def cmd_lpop_def cmd_rpop_def cmd_llen_def cmd_lrange_def
  reading_def integer_or_def string_or_empty_def strings_of_def

lemma list_call_refines:
  assumes "int64_args c"
  shows "fst (do_list_call L now st k c) = Inr (fst (deque_step (list_at st k) c)) \<and>
    list_at (snd (do_list_call L now st k c)) = (list_at st)(k := snd (deque_step (list_at st k) c))"
proof (cases c)
  case (LRange start stop)
  then show ?thesis using assms
    by (auto simp: list_call_defs list_at_def parsed_range_def stoll_to_string_int range_of_slice slice_def comp_def fun_eq_iff
        split: option.split)
qed (auto simp: list_call_defs list_at_def Let_def fun_eq_iff split: option.split list.split)

text \<open>
  After \<^verbatim>\<open>setex(key, seconds, value)\<close> at time \<open>t\<close> a \<^verbatim>\<open>get(key)\<close> at time \<open>t'\<close> returns the value if
  \<open>t' < t + seconds\<close> and finds no key otherwise, whatever commands on other keys ran in between and
  whatever those commands did or threw.
\<close>

lemma setex_then_get:
  assumes "- (2 ^ 31) \<le> secs" and "secs < 2 ^ 31" and "0 \<le> t" and "t < 2 ^ 62"
    and "\<forall>c\<in>set cs. \<not> names_key (snd c) k"
  shows "fst (redis_setex L t st k secs v) = Inr True \<and>
    fst (redis_get_value L t' (run_commands L (snd (redis_setex L t st k secs v)) cs) k) =
      Inr (if t' < t + secs then Some v else None)"
proof -
  have "deadline t (to_string_int secs) = Inr (t + secs)"
    using assms(1-4) by (simp add: deadline_def stoll_to_string_int add64_def)
  then have st: "redis_setex L t st k secs v =
      (Inr True, st\<lparr>data := (data st)(k \<mapsto> v), expires := (expires st)(k \<mapsto> t + secs)\<rparr>)" (is "_ = (_, ?st1)")
    by (simp add: redis_setex_def execute_commands cmd_setex_def reading_def reply_ok_def)
  have "same_key k ?st1 (run_commands L ?st1 cs)" by (rule run_commands_frame [OF assms(5)])
  then show ?thesis
    by (simp add: st redis_get_value_def execute_commands cmd_get_def reading_def string_option_def check_expire_def
        erase_key_def same_key_def)
qed

text \<open>
  The list functions of the client, on any number of keys in any order, answer as one
  double-ended queue per key: pushes and pops at both ends, the length, and ranges with negative
  positions counted from the end.
\<close>

lemma list_calls_are_deques:
  assumes "\<forall>c\<in>set cs. int64_args (snd (snd c))"
  shows "run_list_calls L st cs = map Inr (run_deques (list_at st) cs)"
  using assms
proof (induction cs arbitrary: st)
  case (Cons c cs)
  obtain now k x where c: "c = (now, k, x)" by (cases c)
  then show ?case using Cons list_call_refines [of x L now st k] by simp
qed simp

definition example_lib :: "nat redis_lib" where
  "example_lib = \<lparr>stod = \<lambda>s. Inr (length s), to_string_double = \<lambda>n. replicate n (CHR ''x''), hash_order = sorted_list_of_set\<rparr>"

text \<open>
  Changing the score of a member leaves it where it is: with scores 2 for \<open>b\<close> and 3 for \<open>a\<close> the
  range still lists \<open>a\<close> first.
\<close>

lemma zadd_rescore_unsorted:
  defines "add \<equiv> (\<lambda>st s x. snd (redis_zadd example_lib 0 st ''z'' s x))"
  shows "zset_at (add (add (add redis_init 1 ''a'') 2 ''b'') 3 ''a'') ''z'' = [(3, ''a''), (2, ''b'')]"
  by (simp add: add_def redis_zadd_def execute_commands cmd_zadd_def reading_def example_lib_def redis_init_def zset_at_def)

text \<open>\<^verbatim>\<open>SETNX\<close> refuses a key whose time is over, which \<^verbatim>\<open>GET\<close> at the same moment no longer finds.\<close>

lemma setnx_ignores_expiry:
  assumes "data st k = Some w" and "expires st k = Some e" and "e \<le> now"
  shows "redis_setnx L now st k v = (Inr False, st)" and "fst (redis_get_value L now st k) = Inr None"
  using assms
  by (simp_all add: redis_setnx_def redis_get_value_def execute_commands cmd_setnx_def cmd_get_def check_expire_def
      erase_key_def reading_def is_one_def string_option_def)

end
