(* ===== verification/DistributedLock.thy ===== *)
theory DistributedLock
  imports Redis
begin

text \<open>
  \<^verbatim>\<open>redis/distributed_lock.h\<close>: a lock kept as a key of the Redis stand-in, with a thread that renews
  its time to live. Each Redis command is atomic; between two commands of one lock object, other
  lock objects and its own renewal thread may run. The methods are therefore split at their
  commands: \<open>main_pc\<close> and \<open>renew_pc\<close> say where the calling thread and the renewal thread are.
\<close>

section \<open>State\<close>

datatype main_pc =
    Outside            \<comment> \<open>in no method\<close>
  | Expiring string    \<comment> \<open>\<^verbatim>\<open>try_lock\<close> after a successful \<^verbatim>\<open>SETNX\<close> with this token\<close>
  | Joining            \<comment> \<open>\<^verbatim>\<open>unlock\<close> waiting for the renewal thread\<close>
  | Getting            \<comment> \<open>\<^verbatim>\<open>unlock\<close> before \<^verbatim>\<open>GET\<close>\<close>
  | Deleting           \<comment> \<open>\<^verbatim>\<open>unlock\<close> before \<^verbatim>\<open>DEL\<close>\<close>
  | Finishing bool     \<comment> \<open>\<^verbatim>\<open>unlock\<close> with the value to return\<close>

datatype renew_pc =
    NoThread           \<comment> \<open>not joinable\<close>
  | Waiting            \<comment> \<open>in \<^verbatim>\<open>wait_for\<close>\<close>
  | Checking           \<comment> \<open>before \<^verbatim>\<open>GET\<close>\<close>
  | Renewing           \<comment> \<open>before \<^verbatim>\<open>EXPIRE\<close>\<close>
  | Losing             \<comment> \<open>about to clear \<^verbatim>\<open>locked_\<close>\<close>
  | Ended              \<comment> \<open>returned but not joined\<close>

record dlock =
  lock_key :: string
  ttl_seconds :: int
  lock_token :: string
  locked :: bool
  fencing_token :: nat
  renew_running :: bool
  at_main :: main_pc
  at_renew :: renew_pc

definition dlock_init :: "string \<Rightarrow> int \<Rightarrow> dlock" where
  "dlock_init k ttl = \<lparr>lock_key = k, ttl_seconds = ttl, lock_token = [], locked = False, fencing_token = 0,
     renew_running = False, at_main = Outside, at_renew = NoThread\<rparr>"

section \<open>Atomic pieces of the methods\<close>

text \<open>
  A piece that is not enabled is \<open>None\<close>; an exception or the end of the process is \<open>Inl\<close>.
  Assigning to a \<^verbatim>\<open>std::thread\<close> that is still joinable ends the process.
\<close>

type_synonym 'd piece = "(cpp_error + dlock \<times> 'd redis) option"

definition start_renew_thread :: "dlock \<Rightarrow> cpp_error + dlock" where
  "start_renew_thread l =
     (if at_renew l = NoThread then Inr (l\<lparr>renew_running := True, at_renew := Waiting\<rparr>) else Inl Terminate)"

definition try_setnx :: "('d :: linorder) redis_lib \<Rightarrow> int \<Rightarrow> string \<Rightarrow> dlock \<Rightarrow> 'd redis \<Rightarrow> 'd piece" where
  "try_setnx L now tok l st =
     (if at_main l \<noteq> Outside then None
      else case redis_setnx L now st (lock_key l) tok of
             (Inl e, st1) \<Rightarrow> Some (Inl e)
           | (Inr ok, st1) \<Rightarrow> Some (Inr (if ok then l\<lparr>at_main := Expiring tok\<rparr> else l, st1)))"

definition try_finish :: "('d :: linorder) redis_lib \<Rightarrow> int \<Rightarrow> dlock \<Rightarrow> 'd redis \<Rightarrow> 'd piece" where
  "try_finish L now l st =
     (case at_main l of
        Expiring tok \<Rightarrow>
          (case redis_expire L now st (lock_key l) (ttl_seconds l) of
             (Inl e, st1) \<Rightarrow> Some (Inl e)
           | (Inr b, st1) \<Rightarrow>
               Some (map_sum id (\<lambda>l1. (l1, st1)) (start_renew_thread (l\<lparr>lock_token := tok, locked := True,
                 fencing_token := fencing_token l + 1, at_main := Outside\<rparr>))))
      | _ \<Rightarrow> None)"

definition unlock_start :: "dlock \<Rightarrow> 'd redis \<Rightarrow> 'd piece" where
  "unlock_start l st =
     (if at_main l \<noteq> Outside then None
      else if \<not> locked l then Some (Inr (l, st))
      else Some (Inr (l\<lparr>renew_running := False, at_main := Joining\<rparr>, st)))"

definition unlock_join :: "dlock \<Rightarrow> 'd redis \<Rightarrow> 'd piece" where
  "unlock_join l st =
     (if at_main l = Joining \<and> at_renew l \<in> {NoThread, Ended}
      then Some (Inr (l\<lparr>at_renew := NoThread, at_main := Getting\<rparr>, st)) else None)"

definition unlock_get :: "('d :: linorder) redis_lib \<Rightarrow> int \<Rightarrow> dlock \<Rightarrow> 'd redis \<Rightarrow> 'd piece" where
  "unlock_get L now l st =
     (if at_main l \<noteq> Getting then None
      else case redis_get L now st (lock_key l) of
             (Inl e, st1) \<Rightarrow> Some (Inl e)
           | (Inr v, st1) \<Rightarrow> Some (Inr (l\<lparr>at_main := (if v = lock_token l then Deleting else Finishing False)\<rparr>, st1)))"

definition unlock_del :: "('d :: linorder) redis_lib \<Rightarrow> int \<Rightarrow> dlock \<Rightarrow> 'd redis \<Rightarrow> 'd piece" where
  "unlock_del L now l st =
     (if at_main l \<noteq> Deleting then None
      else case redis_del L now st (lock_key l) of
             (Inl e, st1) \<Rightarrow> Some (Inl e)
           | (Inr n, st1) \<Rightarrow> Some (Inr (l\<lparr>at_main := Finishing (0 < n)\<rparr>, st1)))"

definition unlock_finish :: "dlock \<Rightarrow> 'd redis \<Rightarrow> 'd piece" where
  "unlock_finish l st =
     (case at_main l of
        Finishing released \<Rightarrow> Some (Inr (l\<lparr>locked := False, lock_token := [], at_main := Outside\<rparr>, st))
      | _ \<Rightarrow> None)"

text \<open>The renewal thread.\<close>

definition renew_wake :: "dlock \<Rightarrow> 'd redis \<Rightarrow> 'd piece" where
  "renew_wake l st =
     (if at_renew l \<noteq> Waiting then None
      else Some (Inr (l\<lparr>at_renew := (if \<not> renew_running l \<or> \<not> locked l then Ended else Checking)\<rparr>, st)))"

definition renew_get :: "('d :: linorder) redis_lib \<Rightarrow> int \<Rightarrow> dlock \<Rightarrow> 'd redis \<Rightarrow> 'd piece" where
  "renew_get L now l st =
     (if at_renew l \<noteq> Checking then None
      else case redis_get L now st (lock_key l) of
             (Inl e, st1) \<Rightarrow> Some (Inl e)
           | (Inr v, st1) \<Rightarrow> Some (Inr (l\<lparr>at_renew := (if v = lock_token l then Renewing else Losing)\<rparr>, st1)))"

definition renew_expire :: "('d :: linorder) redis_lib \<Rightarrow> int \<Rightarrow> dlock \<Rightarrow> 'd redis \<Rightarrow> 'd piece" where
  "renew_expire L now l st =
     (if at_renew l \<noteq> Renewing then None
      else case redis_expire L now st (lock_key l) (ttl_seconds l) of
             (Inl e, st1) \<Rightarrow> Some (Inl e)
           | (Inr b, st1) \<Rightarrow> Some (Inr (l\<lparr>at_renew := (if renew_running l then Waiting else Ended)\<rparr>, st1)))"

definition renew_lose :: "dlock \<Rightarrow> 'd redis \<Rightarrow> 'd piece" where
  "renew_lose l st = (if at_renew l \<noteq> Losing then None else Some (Inr (l\<lparr>locked := False, at_renew := Ended\<rparr>, st)))"

text \<open>The destructor without a preceding \<^verbatim>\<open>unlock\<close>: a thread that is still joinable ends the process.\<close>

definition destroy :: "dlock \<Rightarrow> 'd redis \<Rightarrow> 'd piece" where
  "destroy l st =
     (if at_main l \<noteq> Outside \<or> locked l then None
      else if at_renew l = NoThread then Some (Inr (l, st)) else Some (Inl Terminate))"

section \<open>Methods as called without interference\<close>

definition try_lock :: "('d :: linorder) redis_lib \<Rightarrow> int \<Rightarrow> string \<Rightarrow> dlock \<Rightarrow> 'd redis \<Rightarrow> (cpp_error + bool) \<times> dlock \<times> 'd redis" where
  "try_lock L now tok l st =
     (case try_setnx L now tok l st of
        Some (Inr (l1, st1)) \<Rightarrow>
          (case try_finish L now l1 st1 of
             Some (Inr (l2, st2)) \<Rightarrow> (Inr True, l2, st2)
           | Some (Inl e) \<Rightarrow> (Inl e, l1, st1)
           | None \<Rightarrow> (Inr False, l1, st1))
      | Some (Inl e) \<Rightarrow> (Inl e, l, st)
      | None \<Rightarrow> (Inr False, l, st))"

text \<open>
  \<^verbatim>\<open>lock\<close>: one element of the list per round, with the second and the token of the attempt and the
  millisecond at which the deadline is checked; \<open>None\<close> when it is still waiting after them.
\<close>

definition lock_deadline :: "int \<Rightarrow> int \<Rightarrow> int option" where
  "lock_deadline start_ms timeout_ms = (if 0 < timeout_ms then Some (start_ms + timeout_ms) else None)"

fun lock_loop :: "('d :: linorder) redis_lib \<Rightarrow> int option \<Rightarrow> (int \<times> string \<times> int) list \<Rightarrow> dlock \<Rightarrow> 'd redis \<Rightarrow>
    (cpp_error + bool) option \<times> dlock \<times> 'd redis" where
  "lock_loop L dl [] l st = (None, l, st)"
| "lock_loop L dl ((now, tok, ms) # rounds) l st =
     (case try_lock L now tok l st of
        (Inr False, l1, st1) \<Rightarrow>
          if (case dl of None \<Rightarrow> False | Some d \<Rightarrow> d \<le> ms) then (Some (Inr False), l1, st1)
          else lock_loop L dl rounds l1 st1
      | (r, l1, st1) \<Rightarrow> (Some r, l1, st1))"

definition dlock_lock :: "('d :: linorder) redis_lib \<Rightarrow> int \<Rightarrow> int \<Rightarrow> (int \<times> string \<times> int) list \<Rightarrow> dlock \<Rightarrow> 'd redis \<Rightarrow>
    (cpp_error + bool) option \<times> dlock \<times> 'd redis" where
  "dlock_lock L start_ms timeout_ms rounds l st = lock_loop L (lock_deadline start_ms timeout_ms) rounds l st"

text \<open>\<^verbatim>\<open>unlock\<close> when the renewal thread is waiting or has ended; it is woken and joined.\<close>

definition unlock :: "('d :: linorder) redis_lib \<Rightarrow> int \<Rightarrow> dlock \<Rightarrow> 'd redis \<Rightarrow> (cpp_error + bool) \<times> dlock \<times> 'd redis" where
  "unlock L now l st =
     (if \<not> locked l then (Inr False, l, st)
      else let l1 = l\<lparr>renew_running := False, at_renew := NoThread\<rparr> in
        case redis_get L now st (lock_key l1) of
          (Inl e, st1) \<Rightarrow> (Inl e, l1, st1)
        | (Inr v, st1) \<Rightarrow>
            let l2 = l1\<lparr>locked := False, lock_token := []\<rparr> in
            if v \<noteq> lock_token l1 then (Inr False, l2, st1)
            else (case redis_del L now st1 (lock_key l1) of
                    (Inl e, st2) \<Rightarrow> (Inl e, l1, st2)
                  | (Inr n, st2) \<Rightarrow> (Inr (0 < n), l2, st2)))"

text \<open>The guard object: locks in its constructor, unlocks in its destructor if the lock is still held.\<close>

record guard =
  guarded :: dlock
  acquired :: bool

definition guard_init :: "('d :: linorder) redis_lib \<Rightarrow> string \<Rightarrow> int \<Rightarrow> int \<Rightarrow> int \<Rightarrow> (int \<times> string \<times> int) list \<Rightarrow> 'd redis \<Rightarrow>
    (cpp_error + guard) option \<times> 'd redis" where
  "guard_init L k ttl start_ms timeout_ms rounds st =
     (case dlock_lock L start_ms timeout_ms rounds (dlock_init k ttl) st of
        (r, l, st1) \<Rightarrow> (map_option (map_sum id (\<lambda>ok. \<lparr>guarded = l, acquired = ok\<rparr>)) r, st1))"

definition guard_destroy :: "('d :: linorder) redis_lib \<Rightarrow> int \<Rightarrow> guard \<Rightarrow> 'd redis \<Rightarrow> cpp_error + 'd redis" where
  "guard_destroy L now g st =
     (case (if acquired g \<and> locked (guarded g) then unlock L now (guarded g) st else (Inr False, guarded g, st)) of
        (Inl e, l, st1) \<Rightarrow> Inl e
      | (Inr b, l, st1) \<Rightarrow> (case destroy l st1 of Some (Inl e) \<Rightarrow> Inl e | _ \<Rightarrow> Inr st1))"

section \<open>Interleavings\<close>

record 'd lock_system =
  server :: "'d redis"
  locks :: "nat \<Rightarrow> dlock"

definition lease_ok :: "int \<Rightarrow> 'd redis \<Rightarrow> string \<Rightarrow> bool" where
  "lease_ok now st k \<longleftrightarrow> (case expires st k of None \<Rightarrow> True | Some e \<Rightarrow> now < e)"

text \<open>
  The pieces of any number of lock objects on the key \<open>k\<close>, and commands of other clients on other
  keys, in any order, at times at which the lease of the key has not run out.
\<close>

inductive lock_reach :: "('d :: linorder) redis_lib \<Rightarrow> string \<Rightarrow> 'd lock_system \<Rightarrow> bool" for L k where
  init: "data st k = None \<Longrightarrow> expires st k = None \<Longrightarrow> (\<And>i. \<exists>ttl. ls i = dlock_init k ttl) \<Longrightarrow>
    lock_reach L k \<lparr>server = st, locks = ls\<rparr>"
| step: "lock_reach L k s \<Longrightarrow> lease_ok now (server s) k \<Longrightarrow>
    p \<in> {try_setnx L now tok, try_finish L now, unlock_start, unlock_join, unlock_get L now, unlock_del L now, unlock_finish,
         renew_wake, renew_get L now, renew_expire L now, renew_lose, destroy} \<Longrightarrow>
    p (locks s i) (server s) = Some (Inr (l', st')) \<Longrightarrow>
    lock_reach L k \<lparr>server = st', locks = (locks s)(i := l')\<rparr>"
| other: "lock_reach L k s \<Longrightarrow> \<not> names_key args k \<Longrightarrow>
    lock_reach L k (s\<lparr>server := snd (redis_execute L now (server s) args)\<rparr>)"

section \<open>Who owns the key\<close>

definition owner :: "dlock \<Rightarrow> bool" where
  "owner l \<longleftrightarrow> (case at_main l of Expiring t \<Rightarrow> True | Finishing b \<Rightarrow> False | _ \<Rightarrow> locked l)"

definition owner_token :: "dlock \<Rightarrow> string" where
  "owner_token l = (case at_main l of Expiring t \<Rightarrow> t | _ \<Rightarrow> lock_token l)"

text \<open>The caller holds the lock: \<^verbatim>\<open>lock\<close> has returned true and \<^verbatim>\<open>unlock\<close> has not been called.\<close>

definition in_critical :: "dlock \<Rightarrow> bool" where
  "in_critical l \<longleftrightarrow> locked l \<and> at_main l = Outside"

definition dlock_ok :: "string \<Rightarrow> dlock \<Rightarrow> bool" where
  "dlock_ok k l \<longleftrightarrow> lock_key l = k \<and> at_renew l \<noteq> Losing \<and>
     (at_renew l \<noteq> NoThread \<longrightarrow> locked l \<and> at_main l \<in> {Outside, Joining}) \<and>
     (case at_main l of Expiring t \<Rightarrow> \<not> locked l | Outside \<Rightarrow> True | _ \<Rightarrow> locked l)"

text \<open>What one piece does to ownership: it keeps it, takes a free key, or gives it up.\<close>

definition effect :: "string \<Rightarrow> dlock \<Rightarrow> 'd redis \<Rightarrow> dlock \<Rightarrow> 'd redis \<Rightarrow> bool" where
  "effect k l st l' st' \<longleftrightarrow>
     data st' k = data st k \<and> (owner l' \<longrightarrow> owner l \<and> owner_token l' = owner_token l)
   \<or> data st k = None \<and> data st' k = Some (owner_token l')
   \<or> owner l \<and> \<not> owner l'"

lemmas lock_commands =
  redis_setnx_def redis_expire_def redis_get_def redis_del_def execute_commands cmd_setnx_def cmd_expire_def cmd_get_def
  reading_def is_one_def string_or_empty_def

lemma redis_get_live:
  assumes "lease_ok now st k" and "data st k = Some v"
  shows "redis_get L now st k = (Inr v, st)"
  using assms by (auto simp: lock_commands lease_ok_def check_expire_def split: option.splits)

lemma redis_expire_data: "data (snd (redis_expire L now st k secs)) = data st"
  by (auto simp: lock_commands split: sum.splits)

lemma caller_piece:
  assumes "dlock_ok k l" and "owner l \<longrightarrow> data st k = Some (owner_token l)" and "lease_ok now st k"
  shows "try_setnx L now tok l st = Some (Inr (l', st')) \<Longrightarrow> dlock_ok k l' \<and> effect k l st l' st'"
    and "unlock_start l st = Some (Inr (l', st')) \<Longrightarrow> dlock_ok k l' \<and> effect k l st l' st'"
    and "unlock_join l st = Some (Inr (l', st')) \<Longrightarrow> dlock_ok k l' \<and> effect k l st l' st'"
    and "unlock_finish l st = Some (Inr (l', st')) \<Longrightarrow> dlock_ok k l' \<and> effect k l st l' st'"
    and "destroy l st = Some (Inr (l', st')) \<Longrightarrow> dlock_ok k l' \<and> effect k l st l' st'"
  using assms
  by (auto simp: try_setnx_def unlock_start_def unlock_join_def unlock_finish_def destroy_def lock_commands
      dlock_ok_def effect_def owner_def owner_token_def split: if_splits main_pc.splits)

lemma caller_commands:
  assumes "dlock_ok k l" and "owner l \<longrightarrow> data st k = Some (owner_token l)" and "lease_ok now st k"
  shows "try_finish L now l st = Some (Inr (l', st')) \<Longrightarrow> dlock_ok k l' \<and> effect k l st l' st'"
    and "unlock_get L now l st = Some (Inr (l', st')) \<Longrightarrow> dlock_ok k l' \<and> effect k l st l' st'"
    and "unlock_del L now l st = Some (Inr (l', st')) \<Longrightarrow> dlock_ok k l' \<and> effect k l st l' st'"
  using assms redis_get_live [OF assms(3)] redis_expire_data [of L now st k "ttl_seconds l"]
  by (auto simp: try_finish_def unlock_get_def unlock_del_def start_renew_thread_def
      dlock_ok_def effect_def owner_def owner_token_def split: if_splits main_pc.splits prod.splits sum.splits)

lemma renew_piece:
  assumes "dlock_ok k l" and "owner l \<longrightarrow> data st k = Some (owner_token l)" and "lease_ok now st k"
  shows "renew_wake l st = Some (Inr (l', st')) \<Longrightarrow> dlock_ok k l' \<and> effect k l st l' st'"
    and "renew_get L now l st = Some (Inr (l', st')) \<Longrightarrow> dlock_ok k l' \<and> effect k l st l' st'"
    and "renew_expire L now l st = Some (Inr (l', st')) \<Longrightarrow> dlock_ok k l' \<and> effect k l st l' st'"
    and "renew_lose l st = Some (Inr (l', st')) \<Longrightarrow> dlock_ok k l' \<and> effect k l st l' st'"
  using assms redis_get_live [OF assms(3)] redis_expire_data [of L now st k "ttl_seconds l"]
  by (auto simp: renew_wake_def renew_get_def renew_expire_def renew_lose_def
      dlock_ok_def effect_def owner_def owner_token_def split: if_splits main_pc.splits prod.splits sum.splits)

definition lock_inv :: "string \<Rightarrow> 'd lock_system \<Rightarrow> bool" where
  "lock_inv k s \<longleftrightarrow> (\<forall>i. dlock_ok k (locks s i) \<and>
       (owner (locks s i) \<longrightarrow> data (server s) k = Some (owner_token (locks s i)))) \<and>
     (\<forall>i j. owner (locks s i) \<longrightarrow> owner (locks s j) \<longrightarrow> i = j)"

lemma lock_inv_effect:
  assumes "lock_inv k s" and "dlock_ok k l'" and "effect k (locks s i) (server s) l' st'"
  shows "lock_inv k \<lparr>server = st', locks = (locks s)(i := l')\<rparr>"
  using assms unfolding lock_inv_def effect_def by (auto; metis option.distinct(1))

lemma lock_reach_inv: "lock_reach L k s \<Longrightarrow> lock_inv k s"
proof (induction rule: lock_reach.induct)
  case (init st ls)
  have "dlock_ok k (ls i) \<and> \<not> owner (ls i)" for i
    using init(3) [of i] by (auto simp: dlock_init_def dlock_ok_def owner_def)
  then show ?case by (simp add: lock_inv_def)
next
  case (step s now p tok i l' st')
  have i: "dlock_ok k (locks s i)" "owner (locks s i) \<longrightarrow> data (server s) k = Some (owner_token (locks s i))"
    using step.IH by (auto simp: lock_inv_def)
  have "dlock_ok k l' \<and> effect k (locks s i) (server s) l' st'"
    using step.hyps(3,4) caller_piece [OF i step.hyps(2)] caller_commands [OF i step.hyps(2)] renew_piece [OF i step.hyps(2)]
    by auto
  then show ?case using lock_inv_effect [OF step.IH] by blast
next
  case (other s args now)
  then show ?case using execute_frame [of args k "server s" L now] by (simp add: lock_inv_def same_key_def)
qed

section \<open>Waiting for a lock\<close>

lemma try_lock_taken:
  assumes "data st (lock_key l) \<noteq> None" and "at_main l = Outside"
  shows "try_lock L now tok l st = (Inr False, l, st)"
  using assms by (auto simp: try_lock_def try_setnx_def try_finish_def lock_commands)

lemma lock_loop_taken:
  "data st (lock_key l) \<noteq> None \<Longrightarrow> at_main l = Outside \<Longrightarrow> fst (lock_loop L dl rounds l st) \<in> {None, Some (Inr False)}"
  by (induction L dl rounds l st rule: lock_loop.induct) (auto simp: try_lock_taken split: option.split)

lemma try_lock_key:
  assumes "try_lock L t tok l st = (Inr True, l1, st1)"
  shows "data st1 (lock_key l) = Some tok"
proof -
  have o: "at_main l = Outside" using assms by (auto simp: try_lock_def try_setnx_def split: if_splits)
  have n: "data st (lock_key l) = None"
    using assms o try_lock_taken [of st l L t tok] by (cases "data st (lock_key l)") auto
  show ?thesis
    using assms o n redis_expire_data [of L t "st\<lparr>data := (data st)(lock_key l \<mapsto> tok)\<rparr>" "lock_key l" "ttl_seconds l"]
    by (auto simp: try_lock_def try_setnx_def try_finish_def start_renew_thread_def redis_setnx_def execute_commands
        cmd_setnx_def reading_def is_one_def split: sum.splits prod.splits if_splits)
qed

text \<open>
  A renewal that finds the lease gone leaves a thread that nobody joins: \<^verbatim>\<open>unlock\<close> returns at
  once, and destroying the object or acquiring the lock again ends the process.
\<close>

lemma lost_lock_terminates:
  assumes "at_renew l = Losing" and "at_main l = Outside" and "renew_lose l st = Some (Inr (l', st'))"
  shows "unlock L now l' st' = (Inr False, l', st')" and "destroy l' st' = Some (Inl Terminate)"
    and "start_renew_thread l' = Inl Terminate"
  using assms by (auto simp: renew_lose_def unlock_def destroy_def start_renew_thread_def)

text \<open>
  C5. Mutual exclusion: while the lease of the key does not run out, at most one lock object on the
  key is held, in every interleaving of the atomic commands of any number of lock objects, their
  renewal threads and other clients of other keys; the key then holds the token of the holder.
\<close>

theorem lock_mutual_exclusion:
  assumes "lock_reach L k s" and "in_critical (locks s i)" and "in_critical (locks s j)"
  shows "i = j \<and> data (server s) k = Some (lock_token (locks s i))"
  using lock_reach_inv [OF assms(1)] assms(2,3)
  by (auto simp: lock_inv_def in_critical_def owner_def owner_token_def dest!: spec [where x = i])

text \<open>
  A lock whose holder is gone is never available again: after a successful \<^verbatim>\<open>try_lock\<close> every
  \<^verbatim>\<open>lock\<close> of another object on the key, at whatever times it tries, those after the time to live
  included, returns false or keeps waiting.
\<close>

lemma dead_holder_blocks_forever:
  assumes "try_lock L t tok l st = (Inr True, l1, st1)" and "\<forall>c\<in>set cs. \<not> names_key (snd c) (lock_key l)"
    and "lock_key l2 = lock_key l" and "at_main l2 = Outside"
  shows "fst (dlock_lock L ms timeout_ms rounds l2 (run_commands L st1 cs)) \<in> {None, Some (Inr False)}"
proof -
  have "data (run_commands L st1 cs) (lock_key l) = Some tok"
    using run_commands_frame [OF assms(2), of st1 L] try_lock_key [OF assms(1)] by (simp add: same_key_def)
  then show ?thesis unfolding dlock_lock_def using assms(3,4) by (intro lock_loop_taken) auto
qed

definition held_server :: "nat redis" where
  "held_server = redis_init\<lparr>data := [''k'' \<mapsto> ''7''], expires := [''k'' \<mapsto> 130]\<rparr>"

definition held_lock :: dlock where
  "held_lock = \<lparr>lock_key = ''k'', ttl_seconds = 30, lock_token = ''7'', locked = True, fencing_token = 1, renew_running = True,
     at_main = Outside, at_renew = Waiting\<rparr>"

lemma deadline_example: "deadline 100 (to_string_int 30) = Inr 130"
  by (simp add: deadline_def stoll_to_string_int add64_def)

lemma acquire_example:
  "try_setnx example_lib 100 ''7'' (dlock_init ''k'' 30) redis_init =
     Some (Inr ((dlock_init ''k'' 30)\<lparr>at_main := Expiring ''7''\<rparr>, redis_init\<lparr>data := [''k'' \<mapsto> ''7'']\<rparr>))"
  "try_finish example_lib 100 ((dlock_init ''k'' 30)\<lparr>at_main := Expiring ''7''\<rparr>) (redis_init\<lparr>data := [''k'' \<mapsto> ''7'']\<rparr>) =
     Some (Inr (held_lock, held_server))"
  by (simp_all add: try_setnx_def try_finish_def lock_commands dlock_init_def redis_init_def deadline_example
      start_renew_thread_def held_lock_def held_server_def)

lemma try_lock_example: "try_lock example_lib 100 ''7'' (dlock_init ''k'' 30) redis_init = (Inr True, held_lock, held_server)"
  by (simp add: try_lock_def acquire_example)

theorem lock_mutual_exclusion_witness:
  "\<exists>s. lock_reach example_lib ''k'' s \<and> in_critical (locks s 0) \<and>
     (\<forall>j. in_critical (locks s j) \<longrightarrow> 0 = j \<and> data (server s) ''k'' = Some (lock_token (locks s 0)))"
proof -
  let ?s0 = "\<lparr>server = redis_init, locks = \<lambda>i. dlock_init ''k'' 30\<rparr> :: nat lock_system"
  let ?s1 = "\<lparr>server = redis_init\<lparr>data := [''k'' \<mapsto> ''7'']\<rparr>,
    locks = (\<lambda>i. dlock_init ''k'' 30)(0 := (dlock_init ''k'' 30)\<lparr>at_main := Expiring ''7''\<rparr>)\<rparr> :: nat lock_system"
  let ?s2 = "\<lparr>server = held_server, locks = (\<lambda>i. dlock_init ''k'' 30)(0 := held_lock)\<rparr> :: nat lock_system"
  have "lock_reach example_lib ''k'' ?s0" by (rule lock_reach.init) (auto simp: redis_init_def)
  then have "lock_reach example_lib ''k'' ?s1"
    using lock_reach.step [of example_lib "''k''" ?s0 100 "try_setnx example_lib 100 ''7''" "''7''" 0
      "(dlock_init ''k'' 30)\<lparr>at_main := Expiring ''7''\<rparr>" "redis_init\<lparr>data := [''k'' \<mapsto> ''7'']\<rparr>"]
    by (simp add: acquire_example(1) lease_ok_def) (simp add: redis_init_def)
  then have r: "lock_reach example_lib ''k'' ?s2"
    using lock_reach.step [of example_lib "''k''" ?s1 100 "try_finish example_lib 100" "''7''" 0 held_lock held_server]
    by (simp add: acquire_example(2) lease_ok_def) (simp add: redis_init_def)
  have c: "in_critical (locks ?s2 0)" by (simp add: in_critical_def held_lock_def)
  show ?thesis using r c lock_mutual_exclusion [OF r c] by blast
qed

end
