(* ===== verification/SlgMap.thy ===== *)
theory SlgMap
  imports GridAoi Document
begin

text \<open>
  \<^verbatim>\<open>src/slg/map.cpp\<close>: the strategy map with its cells, cities and troops, on top of the grid of
  \<open>GridAoi\<close>. \<^verbatim>\<open>rand()\<close> is a function \<open>rnd\<close> from the number of the draw to the value drawn; the
  state keeps how many were made. Clock readings (milliseconds) are arguments. The callbacks are
  represented by whether they are set: operations return what they pass to them. Reading
  \<^verbatim>\<open>cells_\<close> outside the vector is \<open>OutOfBounds\<close>. Coordinates and counts are assumed
  to stay within \<^verbatim>\<open>int\<close>, the sizes of the map not to be negative.
\<close>

section \<open>Data\<close>

datatype terrain_type = PLAIN | FOREST | MOUNTAIN | WATER | CITY | RESOURCE | CAMP

record grid_cell =
  gc_x :: int
  gc_y :: int
  terrain :: terrain_type
  cell_owner :: nat
  alliance_id :: nat
  building_type :: int
  building_level :: int
  building_complete_time :: int
  resource_type :: int
  resource_amount :: int
  resource_gather_rate :: int
  cell_troops :: "nat list"

definition grid_cell_init :: grid_cell where
  "grid_cell_init = \<lparr>gc_x = 0, gc_y = 0, terrain = PLAIN, cell_owner = 0, alliance_id = 0, building_type = 0,
     building_level = 0, building_complete_time = 0, resource_type = 0, resource_amount = 0, resource_gather_rate = 0,
     cell_troops = []\<rparr>"

definition has_building :: "grid_cell \<Rightarrow> bool" where
  "has_building c \<longleftrightarrow> 0 < building_type c"

definition has_resource :: "grid_cell \<Rightarrow> bool" where
  "has_resource c \<longleftrightarrow> 0 < resource_type c"

definition has_owner :: "grid_cell \<Rightarrow> bool" where
  "has_owner c \<longleftrightarrow> 0 < cell_owner c"

record city =
  city_id :: nat
  city_owner :: nat
  city_alliance :: nat
  city_x :: int
  city_y :: int
  city_name :: string
  city_level :: int
  durability :: int
  max_durability :: int
  food_production :: int
  wood_production :: int
  stone_production :: int
  iron_production :: int
  territory_range :: int

definition city_init :: city where
  "city_init = \<lparr>city_id = 0, city_owner = 0, city_alliance = 0, city_x = 0, city_y = 0, city_name = [], city_level = 1,
     durability = 100, max_durability = 100, food_production = 100, wood_production = 50, stone_production = 30,
     iron_production = 20, territory_range = 3\<rparr>"

datatype troop_state = IDLE | MARCHING | GATHERING | BATTLE | RETURNING

record troop =
  troop_id :: nat
  troop_owner :: nat
  from_x :: int
  from_y :: int
  to_x :: int
  to_y :: int
  current_x :: int
  current_y :: int
  t_state :: troop_state
  start_time :: int
  arrive_time :: int
  infantry :: int
  cavalry :: int
  archer :: int
  siege :: int
  carry_food :: int
  carry_wood :: int
  carry_stone :: int
  carry_iron :: int

definition troop_init :: troop where
  "troop_init = \<lparr>troop_id = 0, troop_owner = 0, from_x = 0, from_y = 0, to_x = 0, to_y = 0, current_x = 0, current_y = 0,
     t_state = IDLE, start_time = 0, arrive_time = 0, infantry = 0, cavalry = 0, archer = 0, siege = 0,
     carry_food = 0, carry_wood = 0, carry_stone = 0, carry_iron = 0\<rparr>"

definition total_soldiers :: "troop \<Rightarrow> int" where
  "total_soldiers t = infantry t + cavalry t + archer t + siege t"

definition total_carry :: "troop \<Rightarrow> int" where
  "total_carry t = carry_food t + carry_wood t + carry_stone t + carry_iron t"

definition march_speed :: "troop \<Rightarrow> cpp_error + int" where
  "march_speed t =
     (if 0 < cavalry t
      then (if total_soldiers t + 1 = 0 then Inl DivisionByZero
            else Inr (100 + 20 * cavalry t sdiv (total_soldiers t + 1)))
      else Inr 100)"

record slg_config =
  map_w :: int
  map_h :: int
  cell_size :: int
  slg_view_range :: int

definition default_slg_config :: slg_config where
  "default_slg_config = \<lparr>map_w = 500, map_h = 500, cell_size = 1, slg_view_range = 5\<rparr>"

record slg_map =
  slg_config :: slg_config
  grid_cells :: "grid_cell list"
  cities :: "nat \<rightharpoonup> city"
  troops :: "nat \<rightharpoonup> troop"
  next_city_id :: nat
  next_troop_id :: nat
  slg_aoi :: grid_aoi
  cell_callback :: bool
  troop_callback :: bool
  draws :: nat

definition slg_map_init :: "slg_config \<Rightarrow> slg_map" where
  "slg_map_init c = \<lparr>slg_config = c, grid_cells = [], cities = Map.empty, troops = Map.empty, next_city_id = 1,
     next_troop_id = 1, slg_aoi = grid_aoi_init default_aoi_config, cell_callback = False, troop_callback = False, draws = 0\<rparr>"

section \<open>Cells\<close>

definition cell_index :: "slg_config \<Rightarrow> int \<Rightarrow> int \<Rightarrow> int" where
  "cell_index c x y = y * map_w c + x"

definition is_valid_pos :: "slg_config \<Rightarrow> int \<Rightarrow> int \<Rightarrow> bool" where
  "is_valid_pos c x y \<longleftrightarrow> 0 \<le> x \<and> x < map_w c \<and> 0 \<le> y \<and> y < map_h c"

definition read_cell :: "slg_map \<Rightarrow> int \<Rightarrow> int \<Rightarrow> cpp_error + grid_cell" where
  "read_cell s x y =
     (let i = cell_index (slg_config s) x y
      in if 0 \<le> i \<and> i < int (length (grid_cells s)) then Inr (grid_cells s ! nat i) else Inl OutOfBounds)"

definition write_cell :: "slg_map \<Rightarrow> int \<Rightarrow> int \<Rightarrow> grid_cell \<Rightarrow> slg_map" where
  "write_cell s x y c = s\<lparr>grid_cells := (grid_cells s)[nat (cell_index (slg_config s) x y) := c]\<rparr>"

definition init_map :: "slg_map \<Rightarrow> slg_map" where
  "init_map s =
     (let w = map_w (slg_config s); h = map_h (slg_config s);
          n = nat (w * h);
          old = take n (grid_cells s) @ replicate (n - length (grid_cells s)) grid_cell_init
      in s\<lparr>grid_cells := map (\<lambda>i. (old ! i)\<lparr>gc_x := int i mod w, gc_y := int i div w, terrain := PLAIN\<rparr>) [0..<n]\<rparr>)"

definition notify_cell :: "slg_map \<Rightarrow> grid_cell \<Rightarrow> grid_cell list" where
  "notify_cell s c = (if cell_callback s then [c] else [])"

definition notify_troop :: "slg_map \<Rightarrow> troop \<Rightarrow> troop list" where
  "notify_troop s t = (if troop_callback s then [t] else [])"

definition get_cell :: "slg_map \<Rightarrow> int \<Rightarrow> int \<Rightarrow> cpp_error + grid_cell option" where
  "get_cell s x y = (if \<not> is_valid_pos (slg_config s) x y then Inr None else map_sum id Some (read_cell s x y))"

text \<open>The operations that change one cell: \<open>f\<close> computes the new cell, or \<open>None\<close> to refuse.\<close>

definition change_cell :: "slg_map \<Rightarrow> int \<Rightarrow> int \<Rightarrow> (grid_cell \<Rightarrow> grid_cell option) \<Rightarrow> cpp_error + bool \<times> grid_cell list \<times> slg_map" where
  "change_cell s x y f =
     (if \<not> is_valid_pos (slg_config s) x y then Inr (False, [], s)
      else case read_cell s x y of
             Inl e \<Rightarrow> Inl e
           | Inr c \<Rightarrow> (case f c of
                          None \<Rightarrow> Inr (False, [], s)
                        | Some c' \<Rightarrow> Inr (True, notify_cell s c', write_cell s x y c')))"

definition update_cell :: "slg_map \<Rightarrow> int \<Rightarrow> int \<Rightarrow> grid_cell \<Rightarrow> cpp_error + bool \<times> grid_cell list \<times> slg_map" where
  "update_cell s x y c = change_cell s x y (\<lambda>_. Some c)"

definition update_cell_owner :: "slg_map \<Rightarrow> int \<Rightarrow> int \<Rightarrow> nat \<Rightarrow> nat \<Rightarrow> cpp_error + bool \<times> grid_cell list \<times> slg_map" where
  "update_cell_owner s x y ow al = change_cell s x y (\<lambda>c. Some (c\<lparr>cell_owner := ow, alliance_id := al\<rparr>))"

definition add_building :: "slg_map \<Rightarrow> int \<Rightarrow> int \<Rightarrow> int \<Rightarrow> int \<Rightarrow> cpp_error + bool \<times> grid_cell list \<times> slg_map" where
  "add_building s x y ty lvl =
     change_cell s x y (\<lambda>c. if has_building c then None else Some (c\<lparr>building_type := ty, building_level := lvl\<rparr>))"

definition remove_building :: "slg_map \<Rightarrow> int \<Rightarrow> int \<Rightarrow> cpp_error + bool \<times> grid_cell list \<times> slg_map" where
  "remove_building s x y = change_cell s x y (\<lambda>c. Some (c\<lparr>building_type := 0, building_level := 0\<rparr>))"

section \<open>Generation\<close>

definition draw :: "(nat \<Rightarrow> int) \<Rightarrow> slg_map \<Rightarrow> int \<times> slg_map" where
  "draw rnd s = (rnd (draws s), s\<lparr>draws := draws s + 1\<rparr>)"

definition terrain_of :: "int \<Rightarrow> terrain_type" where
  "terrain_of r = (if r < 60 then PLAIN else if r < 75 then FOREST else if r < 85 then MOUNTAIN
     else if r < 95 then WATER else PLAIN)"

definition generate_terrain :: "(nat \<Rightarrow> int) \<Rightarrow> slg_map \<Rightarrow> slg_map" where
  "generate_terrain rnd s =
     s\<lparr>grid_cells := map (\<lambda>i. (grid_cells s ! i)\<lparr>terrain := terrain_of (rnd (draws s + i) mod 100)\<rparr>)
         [0..<length (grid_cells s)],
       draws := draws s + length (grid_cells s)\<rparr>"

fun generate_resources :: "(nat \<Rightarrow> int) \<Rightarrow> nat \<Rightarrow> slg_map \<Rightarrow> cpp_error + slg_map" where
  "generate_resources rnd 0 s = Inr s"
| "generate_resources rnd (Suc n) s =
     (if map_w (slg_config s) = 0 \<or> map_h (slg_config s) = 0 then Inl DivisionByZero
      else let (a, s1) = draw rnd s; (b, s2) = draw rnd s1;
               x = a mod map_w (slg_config s); y = b mod map_h (slg_config s)
           in case read_cell s2 x y of
                Inl e \<Rightarrow> Inl e
              | Inr c \<Rightarrow>
                  if terrain c = PLAIN \<and> \<not> has_resource c \<and> \<not> has_building c
                  then let (t, s3) = draw rnd s2; (m, s4) = draw rnd s3; (r, s5) = draw rnd s4
                       in generate_resources rnd n (write_cell s5 x y
                            (c\<lparr>terrain := RESOURCE, resource_type := t mod 4 + 1, resource_amount := 10000 + m mod 90000,
                               resource_gather_rate := 100 + r mod 200\<rparr>))
                  else generate_resources rnd n s2)"

text \<open>
  \<^verbatim>\<open>generate_cities\<close>: the loop has \<open>n\<close> attempts left and \<open>want\<close> cities to create.
\<close>

definition too_close :: "slg_map \<Rightarrow> int \<Rightarrow> int \<Rightarrow> bool" where
  "too_close s x y \<longleftrightarrow> (\<exists>c\<in>ran (cities s). \<bar>city_x c - x\<bar> < 20 \<and> \<bar>city_y c - y\<bar> < 20)"

fun city_attempts :: "(nat \<Rightarrow> int) \<Rightarrow> int \<Rightarrow> int \<Rightarrow> int \<Rightarrow> nat \<Rightarrow> nat \<Rightarrow> slg_map \<Rightarrow> cpp_error + slg_map" where
  "city_attempts rnd margin xr yr 0 want s = Inr s"
| "city_attempts rnd margin xr yr (Suc n) want s =
     (if want = 0 then Inr s
      else let (a, s1) = draw rnd s; (b, s2) = draw rnd s1; x = margin + a mod xr; y = margin + b mod yr
           in case read_cell s2 x y of
                Inl e \<Rightarrow> Inl e
              | Inr c \<Rightarrow>
                  if \<not> too_close s2 x y \<and> terrain c = PLAIN
                  then let cid = next_city_id s2; (l, s3) = draw rnd s2;
                           ct = city_init\<lparr>city_id := cid, city_x := x, city_y := y,
                                  city_name := ''City_'' @ to_string_int (int cid), city_level := 1 + l mod 5\<rparr>;
                           s4 = write_cell s3 x y (c\<lparr>terrain := CITY, cell_owner := cid\<rparr>)
                       in city_attempts rnd margin xr yr n (want - 1)
                            (s4\<lparr>cities := (cities s4)(cid \<mapsto> ct), next_city_id := cid + 1\<rparr>)
                  else city_attempts rnd margin xr yr n want s2)"

definition generate_cities :: "(nat \<Rightarrow> int) \<Rightarrow> nat \<Rightarrow> slg_map \<Rightarrow> cpp_error + slg_map" where
  "generate_cities rnd count s =
     (let w = map_w (slg_config s); h = map_h (slg_config s); margin = min 50 (min w h sdiv 4);
          xr = w - 2 * margin; yr = h - 2 * margin
      in if xr \<le> 0 \<or> yr \<le> 0 then Inr s else city_attempts rnd margin xr yr (count * 100) count s)"

section \<open>Cities\<close>

definition create_city :: "slg_map \<Rightarrow> int \<Rightarrow> int \<Rightarrow> string \<Rightarrow> nat \<Rightarrow> cpp_error + bool \<times> grid_cell list \<times> slg_map" where
  "create_city s x y nm ow =
     (if \<not> is_valid_pos (slg_config s) x y then Inr (False, [], s)
      else case read_cell s x y of
             Inl e \<Rightarrow> Inl e
           | Inr c \<Rightarrow>
               if terrain c \<noteq> PLAIN then Inr (False, [], s)
               else let cid = next_city_id s; c' = c\<lparr>terrain := CITY, cell_owner := ow\<rparr>;
                        ct = city_init\<lparr>city_id := cid, city_x := x, city_y := y, city_name := nm, city_owner := ow, city_level := 1\<rparr>;
                        s1 = write_cell s x y c'
                    in Inr (True, notify_cell s c', s1\<lparr>cities := (cities s1)(cid \<mapsto> ct), next_city_id := cid + 1\<rparr>))"

definition get_city :: "slg_map \<Rightarrow> nat \<Rightarrow> city option" where
  "get_city s cid = cities s cid"

definition get_city_at :: "(nat set \<Rightarrow> nat list) \<Rightarrow> slg_map \<Rightarrow> int \<Rightarrow> int \<Rightarrow> city option" where
  "get_city_at order s x y =
     find (\<lambda>c. city_x c = x \<and> city_y c = y) (map (\<lambda>i. the (cities s i)) (order (dom (cities s))))"

definition update_city :: "slg_map \<Rightarrow> city \<Rightarrow> bool \<times> slg_map" where
  "update_city s c = (case cities s (city_id c) of
     None \<Rightarrow> (False, s) | Some _ \<Rightarrow> (True, s\<lparr>cities := (cities s)(city_id c \<mapsto> c)\<rparr>))"

section \<open>Troops\<close>

definition calculate_distance :: "int \<Rightarrow> int \<Rightarrow> int \<Rightarrow> int \<Rightarrow> int" where
  "calculate_distance x1 y1 x2 y2 = max \<bar>x2 - x1\<bar> \<bar>y2 - y1\<bar>"

definition calculate_march_time :: "int \<Rightarrow> int \<Rightarrow> int \<Rightarrow> int \<Rightarrow> int \<Rightarrow> cpp_error + int" where
  "calculate_march_time fx fy tx ty speed =
     (if speed = 0 then Inl DivisionByZero else Inr (calculate_distance fx fy tx ty * 1000 sdiv speed))"

definition troop_entity :: "nat \<Rightarrow> int \<Rightarrow> int \<Rightarrow> entity" where
  "troop_entity tid x y = \<lparr>e_id = tid, e_x = x, e_y = y, e_type = OTHER, user_data = 0\<rparr>"

definition create_troop :: "(nat set \<Rightarrow> nat list) \<Rightarrow> slg_map \<Rightarrow> nat \<Rightarrow> int \<Rightarrow> int \<Rightarrow> int \<Rightarrow> int \<Rightarrow> int \<Rightarrow> int \<Rightarrow>
    cpp_error + nat \<times> troop list \<times> slg_map" where
  "create_troop order s ow x y foot cav arc sie =
     (let tid = next_troop_id s;
          t = troop_init\<lparr>troop_id := tid, troop_owner := ow, from_x := x, from_y := y, current_x := x, current_y := y,
                infantry := foot, cavalry := cav, archer := arc, siege := sie, t_state := IDLE\<rparr>
      in case add_entity order (slg_aoi s) (troop_entity tid x y) of
           Inl e \<Rightarrow> Inl e
         | Inr (ok, evs, a) \<Rightarrow> Inr (tid, notify_troop s t,
             s\<lparr>troops := (troops s)(tid \<mapsto> t), next_troop_id := tid + 1, slg_aoi := a\<rparr>))"

definition move_troop :: "int \<Rightarrow> slg_map \<Rightarrow> nat \<Rightarrow> int \<Rightarrow> int \<Rightarrow> cpp_error + bool \<times> troop list \<times> slg_map" where
  "move_troop now s tid tx ty =
     (case troops s tid of
        None \<Rightarrow> Inr (False, [], s)
      | Some t \<Rightarrow>
          if t_state t \<noteq> IDLE then Inr (False, [], s)
          else case march_speed t of
                 Inl e \<Rightarrow> Inl e
               | Inr speed \<Rightarrow>
                   (case calculate_march_time (from_x t) (from_y t) tx ty speed of
                      Inl e \<Rightarrow> Inl e
                    | Inr d \<Rightarrow>
                        let t' = t\<lparr>to_x := tx, to_y := ty, t_state := MARCHING, start_time := now, arrive_time := now + d\<rparr>
                        in Inr (True, notify_troop s t', s\<lparr>troops := (troops s)(tid \<mapsto> t')\<rparr>)))"

definition cancel_troop :: "slg_map \<Rightarrow> nat \<Rightarrow> bool \<times> troop list \<times> slg_map" where
  "cancel_troop s tid =
     (case troops s tid of
        None \<Rightarrow> (False, [], s)
      | Some t \<Rightarrow>
          if t_state t \<noteq> MARCHING then (False, [], s)
          else let t' = t\<lparr>to_x := from_x t, to_y := from_y t, t_state := RETURNING\<rparr>
               in (True, notify_troop s t', s\<lparr>troops := (troops s)(tid \<mapsto> t')\<rparr>))"

definition get_troop :: "slg_map \<Rightarrow> nat \<Rightarrow> troop option" where
  "get_troop s tid = troops s tid"

text \<open>
  \<open>interp d elapsed total\<close> is \<^verbatim>\<open>(int)(d * ((double)elapsed / total))\<close>, a parameter for its rounding.
\<close>

definition halt_troop :: "troop \<Rightarrow> troop" where
  "halt_troop t = t\<lparr>t_state := IDLE, from_x := to_x t, from_y := to_y t\<rparr>"

definition arrive_troop :: "slg_map \<Rightarrow> troop \<Rightarrow> cpp_error + troop" where
  "arrive_troop s t =
     (let t1 = t\<lparr>current_x := to_x t, current_y := to_y t\<rparr>
      in if t_state t = RETURNING then Inr (halt_troop t1)
         else case read_cell s (to_x t) (to_y t) of
                Inl e \<Rightarrow> Inl e
              | Inr c \<Rightarrow> Inr (if has_resource c then t1\<lparr>t_state := GATHERING\<rparr>
                             else if has_owner c \<and> cell_owner c \<noteq> troop_owner t then t1\<lparr>t_state := BATTLE\<rparr>
                             else halt_troop t1))"

definition march_on :: "(int \<Rightarrow> int \<Rightarrow> int \<Rightarrow> int) \<Rightarrow> int \<Rightarrow> troop \<Rightarrow> troop" where
  "march_on interp now t =
     (let elapsed = now - start_time t; total = arrive_time t - start_time t
      in if 0 < total
         then t\<lparr>current_x := from_x t + interp (to_x t - from_x t) elapsed total,
                current_y := from_y t + interp (to_y t - from_y t) elapsed total\<rparr>
         else t)"

definition update_troop :: "(nat set \<Rightarrow> nat list) \<Rightarrow> (int \<Rightarrow> int \<Rightarrow> int \<Rightarrow> int) \<Rightarrow> int \<Rightarrow> slg_map \<Rightarrow> nat \<Rightarrow>
    cpp_error + troop list \<times> slg_map" where
  "update_troop order interp now s tid =
     (case troops s tid of
        None \<Rightarrow> Inr ([], s)
      | Some t \<Rightarrow>
          if t_state t \<noteq> MARCHING \<and> t_state t \<noteq> RETURNING then Inr ([], s)
          else if arrive_time t \<le> now
          then (case arrive_troop s t of
                  Inl e \<Rightarrow> Inl e
                | Inr t' \<Rightarrow>
                    (case update_entity order (slg_aoi s) (troop_id t') (current_x t') (current_y t') of
                       Inl e \<Rightarrow> Inl e
                     | Inr (ok, evs, a) \<Rightarrow> Inr (notify_troop s t', s\<lparr>troops := (troops s)(tid \<mapsto> t'), slg_aoi := a\<rparr>)))
          else Inr ([], s\<lparr>troops := (troops s)(tid \<mapsto> march_on interp now t)\<rparr>))"

fun update_troop_list :: "(nat set \<Rightarrow> nat list) \<Rightarrow> (int \<Rightarrow> int \<Rightarrow> int \<Rightarrow> int) \<Rightarrow> int \<Rightarrow> slg_map \<Rightarrow> nat list \<Rightarrow>
    cpp_error + troop list \<times> slg_map" where
  "update_troop_list order interp now s [] = Inr ([], s)"
| "update_troop_list order interp now s (tid # tids) =
     (case update_troop order interp now s tid of
        Inl e \<Rightarrow> Inl e
      | Inr (notes, s1) \<Rightarrow>
          (case update_troop_list order interp now s1 tids of
             Inl e \<Rightarrow> Inl e
           | Inr (later, s2) \<Rightarrow> Inr (notes @ later, s2)))"

definition update_troops :: "(nat set \<Rightarrow> nat list) \<Rightarrow> (int \<Rightarrow> int \<Rightarrow> int \<Rightarrow> int) \<Rightarrow> int \<Rightarrow> slg_map \<Rightarrow>
    cpp_error + troop list \<times> slg_map" where
  "update_troops order interp now s = update_troop_list order interp now s (order (dom (troops s)))"

section \<open>Queries\<close>

definition get_cells_in_range :: "slg_map \<Rightarrow> int \<Rightarrow> int \<Rightarrow> int \<Rightarrow> cpp_error + grid_cell list" where
  "get_cells_in_range s x y r =
     (let found = map (\<lambda>(nx, ny). read_cell s nx ny)
        (filter (\<lambda>(nx, ny). is_valid_pos (slg_config s) nx ny)
          (concat (map (\<lambda>dy. map (\<lambda>dx. (x + dx, y + dy)) [- r..r]) [- r..r])))
      in if list_all (\<lambda>f. \<not> isl f) found then Inr (map projr found) else Inl OutOfBounds)"

definition get_troops_in_range :: "(nat set \<Rightarrow> nat list) \<Rightarrow> slg_map \<Rightarrow> int \<Rightarrow> int \<Rightarrow> int \<Rightarrow> troop list" where
  "get_troops_in_range order s x y r =
     filter (\<lambda>t. calculate_distance x y (current_x t) (current_y t) \<le> r) (map (\<lambda>i. the (troops s i)) (order (dom (troops s))))"

definition get_cities_in_range :: "(nat set \<Rightarrow> nat list) \<Rightarrow> slg_map \<Rightarrow> int \<Rightarrow> int \<Rightarrow> int \<Rightarrow> city list" where
  "get_cities_in_range order s x y r =
     filter (\<lambda>c. calculate_distance x y (city_x c) (city_y c) \<le> r) (map (\<lambda>i. the (cities s i)) (order (dom (cities s))))"

definition get_player_territory :: "slg_map \<Rightarrow> nat \<Rightarrow> grid_cell list" where
  "get_player_territory s pid = filter (\<lambda>c. cell_owner c = pid) (grid_cells s)"

definition total_cells :: "slg_map \<Rightarrow> int" where
  "total_cells s = map_w (slg_config s) * map_h (slg_config s)"

definition total_cities :: "slg_map \<Rightarrow> nat" where
  "total_cities s = card (dom (cities s))"

definition total_troops :: "slg_map \<Rightarrow> nat" where
  "total_troops s = card (dom (troops s))"

text \<open>\<^verbatim>\<open>find_path\<close>: along the row first, then along the column.\<close>

partial_function (option) path_loop :: "int \<Rightarrow> int \<Rightarrow> int \<Rightarrow> int \<Rightarrow> int \<Rightarrow> int \<Rightarrow> (int \<times> int) list \<Rightarrow> (int \<times> int) list option" where
  "path_loop tx ty dx dy x y path =
     (if x \<noteq> tx \<or> y \<noteq> ty
      then (if x \<noteq> tx then path_loop tx ty dx dy (x + dx) y (path @ [(x, y)])
            else path_loop tx ty dx dy x (y + dy) (path @ [(x, y)]))
      else Some (path @ [(tx, ty)]))"

definition find_path :: "slg_config \<Rightarrow> int \<Rightarrow> int \<Rightarrow> int \<Rightarrow> int \<Rightarrow> (int \<times> int) list option" where
  "find_path c fx fy tx ty =
     (if \<not> is_valid_pos c fx fy \<or> \<not> is_valid_pos c tx ty then Some []
      else path_loop tx ty (if fx < tx then 1 else if tx < fx then - 1 else 0)
             (if fy < ty then 1 else if ty < fy then - 1 else 0) fx fy [])"

section \<open>Calls\<close>

datatype slg_call =
    InitMap | GenerateTerrain | GenerateResources nat | GenerateCities nat
  | UpdateCell int int grid_cell | UpdateCellOwner int int nat nat | AddBuilding int int int int | RemoveBuilding int int
  | CreateCity int int string nat | UpdateCity city
  | CreateTroop nat int int int int int int | MoveTroop int nat int int | CancelTroop nat | UpdateTroops int
  | SetCallbacks bool bool

fun slg_step :: "(nat set \<Rightarrow> nat list) \<Rightarrow> (int \<Rightarrow> int \<Rightarrow> int \<Rightarrow> int) \<Rightarrow> (nat \<Rightarrow> int) \<Rightarrow> slg_map \<Rightarrow> slg_call \<Rightarrow> cpp_error + slg_map" where
  "slg_step order interp rnd s InitMap = Inr (init_map s)"
| "slg_step order interp rnd s GenerateTerrain = Inr (generate_terrain rnd s)"
| "slg_step order interp rnd s (GenerateResources n) = generate_resources rnd n s"
| "slg_step order interp rnd s (GenerateCities n) = generate_cities rnd n s"
| "slg_step order interp rnd s (UpdateCell x y c) = map_sum id (\<lambda>r. snd (snd r)) (update_cell s x y c)"
| "slg_step order interp rnd s (UpdateCellOwner x y ow al) = map_sum id (\<lambda>r. snd (snd r)) (update_cell_owner s x y ow al)"
| "slg_step order interp rnd s (AddBuilding x y ty lvl) = map_sum id (\<lambda>r. snd (snd r)) (add_building s x y ty lvl)"
| "slg_step order interp rnd s (RemoveBuilding x y) = map_sum id (\<lambda>r. snd (snd r)) (remove_building s x y)"
| "slg_step order interp rnd s (CreateCity x y nm ow) = map_sum id (\<lambda>r. snd (snd r)) (create_city s x y nm ow)"
| "slg_step order interp rnd s (UpdateCity c) = Inr (snd (update_city s c))"
| "slg_step order interp rnd s (CreateTroop ow x y a b c d) = map_sum id (\<lambda>r. snd (snd r)) (create_troop order s ow x y a b c d)"
| "slg_step order interp rnd s (MoveTroop now tid x y) = map_sum id (\<lambda>r. snd (snd r)) (move_troop now s tid x y)"
| "slg_step order interp rnd s (CancelTroop tid) = Inr (snd (snd (cancel_troop s tid)))"
| "slg_step order interp rnd s (UpdateTroops now) = map_sum id snd (update_troops order interp now s)"
| "slg_step order interp rnd s (SetCallbacks a b) = Inr (s\<lparr>cell_callback := a, troop_callback := b\<rparr>)"

fun slg_run :: "(nat set \<Rightarrow> nat list) \<Rightarrow> (int \<Rightarrow> int \<Rightarrow> int \<Rightarrow> int) \<Rightarrow> (nat \<Rightarrow> int) \<Rightarrow> slg_map \<Rightarrow> slg_call list \<Rightarrow> cpp_error + slg_map" where
  "slg_run order interp rnd s [] = Inr s"
| "slg_run order interp rnd s (c # cs) =
     (case slg_step order interp rnd s c of Inl e \<Rightarrow> Inl e | Inr s1 \<Rightarrow> slg_run order interp rnd s1 cs)"

section \<open>Troops and the grid of entities\<close>

text \<open>What the troops, their numbering and the grid of entities have in common with another state.\<close>

definition same_troops :: "slg_map \<Rightarrow> slg_map \<Rightarrow> bool" where
  "same_troops s s' \<longleftrightarrow> troops s' = troops s \<and> next_troop_id s' = next_troop_id s \<and> slg_aoi s' = slg_aoi s"

lemma same_troops_refl [simp]: "same_troops s s"
  by (simp add: same_troops_def)

lemma same_troops_trans: "same_troops s s1 \<Longrightarrow> same_troops s1 s2 \<Longrightarrow> same_troops s s2"
  by (simp add: same_troops_def)

lemma same_troops_write [simp]: "same_troops s (write_cell s' x y c) \<longleftrightarrow> same_troops s s'"
  by (simp add: same_troops_def write_cell_def)

lemma same_troops_draws [simp]: "same_troops s (s'\<lparr>draws := n\<rparr>) \<longleftrightarrow> same_troops s s'"
  by (simp add: same_troops_def)

lemma same_troops_cities [simp]: "same_troops s (s'\<lparr>cities := m, next_city_id := n\<rparr>) \<longleftrightarrow> same_troops s s'"
  by (simp add: same_troops_def)

lemma same_troops_from [simp]:
  "same_troops (write_cell s x y c) s' \<longleftrightarrow> same_troops s s'"
  "same_troops (s\<lparr>draws := n\<rparr>) s' \<longleftrightarrow> same_troops s s'"
  "same_troops (s\<lparr>cities := m, next_city_id := k\<rparr>) s' \<longleftrightarrow> same_troops s s'"
  by (simp_all add: same_troops_def write_cell_def)

lemma generate_resources_troops: "generate_resources rnd n s = Inr s' \<Longrightarrow> same_troops s s'"
proof (induction n arbitrary: s)
  case (Suc n)
  then show ?case by (fastforce simp: draw_def Let_def split: if_splits sum.splits)
qed simp

lemma city_attempts_troops: "city_attempts rnd m xr yr n want s = Inr s' \<Longrightarrow> same_troops s s'"
proof (induction n arbitrary: want s)
  case (Suc n)
  then show ?case by (fastforce simp: draw_def Let_def split: if_splits sum.splits)
qed simp

lemma generate_cities_troops: "generate_cities rnd n s = Inr s' \<Longrightarrow> same_troops s s'"
  by (auto simp: generate_cities_def Let_def split: if_splits dest: city_attempts_troops)

lemma change_cell_troops: "map_sum id (\<lambda>r. snd (snd r)) (change_cell s x y f) = Inr s' \<Longrightarrow> same_troops s s'"
  by (auto simp: change_cell_def split: if_splits sum.splits option.splits)

lemma create_city_troops: "map_sum id (\<lambda>r. snd (snd r)) (create_city s x y nm ow) = Inr s' \<Longrightarrow> same_troops s s'"
  by (auto simp: create_city_def Let_def split: if_splits sum.splits)

fun troop_call :: "slg_call \<Rightarrow> bool" where
  "troop_call (CreateTroop ow x y a b c d) \<longleftrightarrow> True"
| "troop_call (MoveTroop now tid x y) \<longleftrightarrow> True"
| "troop_call (CancelTroop tid) \<longleftrightarrow> True"
| "troop_call (UpdateTroops now) \<longleftrightarrow> True"
| "troop_call _ \<longleftrightarrow> False"

lemma other_call_troops:
  assumes "\<not> troop_call c" and "slg_step order interp rnd s c = Inr s'"
  shows "same_troops s s'"
proof (cases c)
  case InitMap
  then show ?thesis using assms by (auto simp: init_map_def Let_def same_troops_def)
next
  case GenerateTerrain
  then show ?thesis using assms by (auto simp: generate_terrain_def same_troops_def)
next
  case (UpdateCity c)
  then show ?thesis using assms by (auto simp: update_city_def same_troops_def split: option.splits)
next
  case (SetCallbacks a b)
  then show ?thesis using assms by (auto simp: same_troops_def)
qed (use assms in \<open>simp_all add: update_cell_def update_cell_owner_def add_building_def remove_building_def
    generate_resources_troops generate_cities_troops change_cell_troops create_city_troops\<close>)

text \<open>
  Every troop is an entity of the grid under its id, and stands there at its own position unless it
  is under way.
\<close>

definition standing :: "troop \<Rightarrow> bool" where
  "standing t \<longleftrightarrow> t_state t \<noteq> MARCHING \<and> t_state t \<noteq> RETURNING"

definition on_grid :: "grid_aoi \<Rightarrow> nat \<Rightarrow> troop \<Rightarrow> bool" where
  "on_grid a i t \<longleftrightarrow> (\<exists>e. entities a i = Some e \<and> (standing t \<longrightarrow> e_x e = current_x t \<and> e_y e = current_y t))"

definition tracked :: "slg_map \<Rightarrow> bool" where
  "tracked s \<longleftrightarrow> aoi_inv (slg_aoi s) \<and> config (slg_aoi s) = default_aoi_config \<and> 0 < next_troop_id s \<and>
     (\<forall>i. entities (slg_aoi s) i \<noteq> None \<longrightarrow> i < next_troop_id s) \<and>
     (\<forall>i t. troops s i = Some t \<longrightarrow> troop_id t = i \<and> i < next_troop_id s \<and>
        on_grid (slg_aoi s) i t)"

lemma trackedD:
  assumes "tracked s" and "troops s i = Some t"
  shows "troop_id t = i" and "i < next_troop_id s" and "on_grid (slg_aoi s) i t" and "\<exists>e. entities (slg_aoi s) i = Some e"
proof -
  show "troop_id t = i" "i < next_troop_id s" and g: "on_grid (slg_aoi s) i t" using assms unfolding tracked_def by blast+
  show "\<exists>e. entities (slg_aoi s) i = Some e" using g unfolding on_grid_def by blast
qed

lemma on_grid_other: "entities a' = (entities a)(j \<mapsto> e) \<Longrightarrow> i \<noteq> j \<Longrightarrow> on_grid a' i t \<longleftrightarrow> on_grid a i t"
  by (simp add: on_grid_def)

lemma on_grid_under_way: "\<not> standing t \<Longrightarrow> entities a i = Some e \<Longrightarrow> on_grid a i t"
  by (simp add: on_grid_def)

lemma tracked_same: "tracked s \<Longrightarrow> same_troops s s' \<Longrightarrow> tracked s'"
  by (simp add: tracked_def same_troops_def)

lemma default_aoi_wf: "wf_config default_aoi_config"
  by (simp add: wf_config_def default_aoi_config_def grid_x_count_def grid_y_count_def)

lemma tracked_init: "tracked (slg_map_init c)"
  using aoi_inv_init [OF default_aoi_wf] by (simp add: tracked_def slg_map_init_def grid_aoi_init_def)

lemma create_troop_tracked:
  assumes "tracked s" and "enumerates order" and "create_troop order s ow x y a b c d = Inr (tid, ns, s')"
  shows "tracked s'"
proof -
  let ?e = "troop_entity (next_troop_id s) x y"
  have fresh: "entities (slg_aoi s) (next_troop_id s) = None" using assms(1) by (auto simp: tracked_def)
  obtain ok evs a' where a: "add_entity order (slg_aoi s) ?e = Inr (ok, evs, a')" "aoi_inv a'"
    "config a' = config (slg_aoi s)" "entities a' = (entities (slg_aoi s))(next_troop_id s \<mapsto> ?e)"
    using add_entity_inv [of "slg_aoi s" order ?e] assms(1,2) fresh
    by (auto simp: tracked_def table_step_def troop_entity_def)
  let ?t = "troop_init\<lparr>troop_id := next_troop_id s, troop_owner := ow, from_x := x, from_y := y, current_x := x,
    current_y := y, infantry := a, cavalry := b, archer := c, siege := d, t_state := IDLE\<rparr>"
  have s': "s' = s\<lparr>troops := (troops s)(next_troop_id s \<mapsto> ?t), next_troop_id := next_troop_id s + 1, slg_aoi := a'\<rparr>"
    using assms(3) a(1) by (auto simp: create_troop_def Let_def)
  have "on_grid a' (next_troop_id s) ?t" by (simp add: on_grid_def a(4) troop_entity_def)
  moreover have "troop_id t = i \<and> i < next_troop_id s \<and> on_grid a' i t" if "troops s i = Some t" for i t
    using trackedD [OF assms(1) that] on_grid_other [OF a(4)] by auto
  ultimately show ?thesis using assms(1) a(2,3,4) unfolding s' tracked_def by (auto simp: less_SucI)
qed

lemma tracked_under_way:
  assumes "tracked s" and "troops s i = Some t" and "troop_id t' = i" and "\<not> standing t'"
  shows "tracked (s\<lparr>troops := (troops s)(i \<mapsto> t')\<rparr>)"
proof -
  obtain e where "entities (slg_aoi s) i = Some e" using trackedD(4) [OF assms(1,2)] by blast
  then have "on_grid (slg_aoi s) i t'" using on_grid_under_way [OF assms(4)] by simp
  then show ?thesis using assms(1,3) trackedD(2) [OF assms(1,2)] by (simp add: tracked_def)
qed

lemma move_troop_tracked: "tracked s \<Longrightarrow> move_troop now s tid x y = Inr (b, ns, s') \<Longrightarrow> tracked s'"
  by (auto simp: move_troop_def Let_def standing_def trackedD split: option.splits if_splits sum.splits
      intro!: tracked_under_way)

lemma cancel_troop_tracked: "tracked s \<Longrightarrow> tracked (snd (snd (cancel_troop s tid)))"
  by (auto simp: cancel_troop_def Let_def standing_def trackedD split: option.splits intro!: tracked_under_way)

lemma arrive_troop_facts:
  assumes "arrive_troop s t = Inr t'"
  shows "standing t'" and "troop_id t' = troop_id t" and "current_x t' = to_x t" and "current_y t' = to_y t"
  using assms by (auto simp: arrive_troop_def halt_troop_def standing_def Let_def split: if_splits sum.splits)

lemma update_troop_tracked:
  assumes "tracked s" and "enumerates order" and "update_troop order interp now s tid = Inr (ns, s')"
  shows "tracked s'"
proof (cases "troops s tid")
  case (Some t)
  obtain e where t: "troop_id t = tid" "entities (slg_aoi s) tid = Some e" using trackedD [OF assms(1) Some] by auto
  show ?thesis
  proof (cases "\<not> standing t \<and> arrive_time t \<le> now")
    case True
    then obtain t' where t': "arrive_troop s t = Inr t'"
      using assms(3) Some by (cases "arrive_troop s t") (auto simp: update_troop_def standing_def)
    obtain evs a where a: "update_entity order (slg_aoi s) tid (current_x t') (current_y t') = Inr (True, evs, a)" "aoi_inv a"
      "config a = config (slg_aoi s)" "entities a = (entities (slg_aoi s))(tid \<mapsto> e\<lparr>e_x := current_x t', e_y := current_y t'\<rparr>)"
      using update_entity_moves [OF _ assms(2) t(2), of "current_x t'" "current_y t'"] assms(1) by (auto simp: tracked_def)
    have "s' = s\<lparr>troops := (troops s)(tid \<mapsto> t'), slg_aoi := a\<rparr>"
      using assms(3) True Some t' a(1) arrive_troop_facts(2) [OF t'] t(1) by (auto simp: update_troop_def standing_def)
    moreover have "on_grid a tid t'" using a(4) by (simp add: on_grid_def)
    moreover have "on_grid a i k" if "troops s i = Some k" "i \<noteq> tid" for i k
      using trackedD(3) [OF assms(1) that(1)] on_grid_other [OF a(4) that(2)] by simp
    ultimately show ?thesis
      using assms(1) a(2-4) t arrive_troop_facts(2) [OF t'] trackedD(2) [OF assms(1) Some] by (auto simp: tracked_def)
  next
    case False
    then have "s' = s \<or> s' = s\<lparr>troops := (troops s)(tid \<mapsto> march_on interp now t)\<rparr> \<and> \<not> standing t"
      using assms(3) Some by (auto simp: update_troop_def standing_def split: if_splits)
    moreover have "troop_id (march_on interp now t) = tid" "standing (march_on interp now t) = standing t"
      using t(1) by (auto simp: march_on_def standing_def Let_def)
    ultimately show ?thesis using tracked_under_way [OF assms(1) Some] assms(1) by auto
  qed
qed (use assms in \<open>simp add: update_troop_def\<close>)

lemma update_troop_list_tracked:
  "tracked s \<Longrightarrow> enumerates order \<Longrightarrow> update_troop_list order interp now s tids = Inr (ns, s') \<Longrightarrow> tracked s'"
  by (induction tids arbitrary: s ns) (auto split: sum.splits prod.splits dest: update_troop_tracked)

lemma slg_step_tracked:
  assumes "tracked s" and "enumerates order" and "slg_step order interp rnd s c = Inr s'"
  shows "tracked s'"
proof (cases c)
  case (CreateTroop ow x y p q r w)
  then show ?thesis using assms create_troop_tracked [OF assms(1,2), of ow x y p q r w]
    by (cases "create_troop order s ow x y p q r w") auto
next
  case (MoveTroop now tid x y)
  then show ?thesis using assms move_troop_tracked [OF assms(1), of now tid x y] by (cases "move_troop now s tid x y") auto
next
  case (CancelTroop tid)
  then show ?thesis using assms cancel_troop_tracked by auto
next
  case (UpdateTroops now)
  then show ?thesis using assms update_troop_list_tracked [OF assms(1,2)]
    by (cases "update_troops order interp now s") (auto simp: update_troops_def)
qed (use assms tracked_same [OF assms(1) other_call_troops [OF _ assms(3)]] in auto)

lemma slg_run_tracked:
  "enumerates order \<Longrightarrow> tracked s \<Longrightarrow> slg_run order interp rnd s cs = Inr s' \<Longrightarrow> tracked s'"
  by (induction cs arbitrary: s) (auto split: sum.splits dest: slg_step_tracked)

section \<open>Troops that gather or fight\<close>

definition engaged :: "troop \<Rightarrow> bool" where
  "engaged t \<longleftrightarrow> t_state t = GATHERING \<or> t_state t = BATTLE"

lemma update_troop_engaged:
  "troops s tid = Some t \<Longrightarrow> engaged t \<Longrightarrow> update_troop order interp now s i = Inr (ns, s') \<Longrightarrow> troops s' tid = Some t"
  by (cases "i = tid") (auto simp: update_troop_def engaged_def split: option.splits if_splits sum.splits)

lemma update_troop_list_engaged:
  "troops s tid = Some t \<Longrightarrow> engaged t \<Longrightarrow> update_troop_list order interp now s is = Inr (ns, s') \<Longrightarrow> troops s' tid = Some t"
  by (induction "is" arbitrary: s ns) (auto split: sum.splits prod.splits dest: update_troop_engaged)

lemma slg_step_engaged:
  assumes "tracked s" and t: "troops s tid = Some t" "engaged t" and step: "slg_step order interp rnd s c = Inr s'"
  shows "troops s' tid = Some t"
proof (cases c)
  case (CreateTroop ow x y p q r w)
  then show ?thesis using step t trackedD(2) [OF assms(1) t(1)]
    by (auto simp: create_troop_def Let_def split: sum.splits prod.splits)
next
  case (MoveTroop now i x y)
  then show ?thesis using step t
    by (cases "i = tid") (auto simp: move_troop_def engaged_def Let_def split: option.splits if_splits sum.splits)
next
  case (CancelTroop i)
  then show ?thesis using step t
    by (cases "i = tid") (auto simp: cancel_troop_def engaged_def Let_def split: option.splits if_splits)
next
  case (UpdateTroops now)
  then show ?thesis using step update_troop_list_engaged [OF t]
    by (cases "update_troops order interp now s") (auto simp: update_troops_def)
qed (use other_call_troops [OF _ step] t in \<open>auto simp: same_troops_def\<close>)

text \<open>A march may lead anywhere: on arrival outside the map the cell is read out of bounds.\<close>

lemma march_off_map:
  assumes "troops s tid = Some t" and "t_state t = MARCHING" and "arrive_time t \<le> now"
    and "int (length (grid_cells s)) \<le> cell_index (slg_config s) (to_x t) (to_y t)"
  shows "update_troop order interp now s tid = Inl OutOfBounds"
  using assms by (simp add: update_troop_def arrive_troop_def read_cell_def Let_def)

section \<open>Paths\<close>

lemma map_upt_shift: "map f [0..<Suc n] = f 0 # map (\<lambda>i. f (Suc i)) [0..<n]"
  by (simp add: upt_conv_Cons map_Suc_upt [symmetric] comp_def del: upt_Suc)

lemma path_loop_column:
  assumes "dy \<noteq> 0" and "ty = y + dy * int n"
  shows "path_loop tx ty dx dy tx y path = Some (path @ map (\<lambda>i. (tx, y + dy * int i)) [0..<n] @ [(tx, ty)])"
  using assms(2)
proof (induction n arbitrary: y path)
  case (Suc n)
  have "y \<noteq> ty" using Suc.prems assms(1) by simp
  then have "path_loop tx ty dx dy tx y path = path_loop tx ty dx dy tx (y + dy) (path @ [(tx, y)])"
    by (subst path_loop.simps) simp
  also have "\<dots> = Some ((path @ [(tx, y)]) @ map (\<lambda>i. (tx, y + dy + dy * int i)) [0..<n] @ [(tx, ty)])"
    using Suc.prems by (intro Suc.IH) (simp add: algebra_simps)
  finally show ?case by (simp add: map_upt_shift algebra_simps del: upt_Suc)
qed (simp add: path_loop.simps)

lemma path_loop_row:
  assumes "dx \<noteq> 0" and "tx = x + dx * int n"
  shows "path_loop tx ty dx dy x y path = path_loop tx ty dx dy tx y (path @ map (\<lambda>i. (x + dx * int i, y)) [0..<n])"
  using assms(2)
proof (induction n arbitrary: x path)
  case (Suc n)
  have "x \<noteq> tx" using Suc.prems assms(1) by simp
  then have "path_loop tx ty dx dy x y path = path_loop tx ty dx dy (x + dx) y (path @ [(x, y)])"
    by (subst path_loop.simps) simp
  also have "\<dots> = path_loop tx ty dx dy tx y ((path @ [(x, y)]) @ map (\<lambda>i. (x + dx + dx * int i, y)) [0..<n])"
    using Suc.prems by (intro Suc.IH) (simp add: algebra_simps)
  finally show ?case by (simp add: map_upt_shift algebra_simps del: upt_Suc)
qed simp

lemma successively_map_upt:
  "(\<And>i. Suc i < n \<Longrightarrow> P (f i) (f (Suc i))) \<Longrightarrow> successively P (map f [0..<n])"
proof (induction n)
  case (Suc n)
  then show ?case by (cases n) (auto simp: successively_append_iff)
qed simp

definition line_path :: "int \<Rightarrow> int \<Rightarrow> int \<Rightarrow> int \<Rightarrow> (int \<times> int) list" where
  "line_path fx fy tx ty =
     map (\<lambda>i. (fx + sgn (tx - fx) * int i, fy)) [0..<nat \<bar>tx - fx\<bar>] @
     map (\<lambda>i. (tx, fy + sgn (ty - fy) * int i)) [0..<nat \<bar>ty - fy\<bar>] @ [(tx, ty)]"

lemma sgn_steps: "(b :: int) = a + sgn (b - a) * int (nat \<bar>b - a\<bar>)"
  by (simp add: sgn_if)

lemma path_loop_line: "path_loop tx ty (sgn (tx - fx)) (sgn (ty - fy)) fx fy [] = Some (line_path fx fy tx ty)"
proof -
  let ?dx = "sgn (tx - fx)" and ?dy = "sgn (ty - fy)"
  let ?row = "map (\<lambda>i. (fx + ?dx * int i, fy)) [0..<nat \<bar>tx - fx\<bar>]"
  have "path_loop tx ty ?dx ?dy fx fy [] = path_loop tx ty ?dx ?dy tx fy ?row"
  proof (cases "fx = tx")
    case False
    then show ?thesis using path_loop_row [OF _ sgn_steps, of tx fx ty ?dy fy "[]"] by (simp add: sgn_0_0)
  qed simp
  also have "\<dots> = Some (?row @ map (\<lambda>i. (tx, fy + ?dy * int i)) [0..<nat \<bar>ty - fy\<bar>] @ [(tx, ty)])"
  proof (cases "fy = ty")
    case True
    then show ?thesis by (simp add: path_loop.simps)
  next
    case False
    then show ?thesis using path_loop_column [OF _ sgn_steps, of ty fy tx ?dx ?row] by (simp add: sgn_0_0)
  qed
  finally show ?thesis by (simp add: line_path_def)
qed

lemma find_path_line:
  assumes "is_valid_pos c fx fy" and "is_valid_pos c tx ty"
  shows "find_path c fx fy tx ty = Some (line_path fx fy tx ty)"
proof -
  have "(if a < b then 1 else if b < a then - 1 else 0) = sgn (b - a)" for a b :: int by (simp add: sgn_if)
  then show ?thesis using assms path_loop_line by (simp add: find_path_def)
qed

definition adjacent :: "int \<times> int \<Rightarrow> int \<times> int \<Rightarrow> bool" where
  "adjacent p q \<longleftrightarrow> \<bar>fst p - fst q\<bar> + \<bar>snd p - snd q\<bar> = 1"

lemma line_path_steps: "successively adjacent (line_path fx fy tx ty)"
proof -
  let ?row = "map (\<lambda>i. (fx + sgn (tx - fx) * int i, fy)) [0..<nat \<bar>tx - fx\<bar>]"
  let ?col = "map (\<lambda>i. (tx, fy + sgn (ty - fy) * int i)) [0..<nat \<bar>ty - fy\<bar>]"
  have "successively adjacent ?row" "successively adjacent ?col"
    by (rule successively_map_upt, auto simp: adjacent_def sgn_if algebra_simps)+
  moreover have "adjacent (last ?col) (tx, ty)" if "ty \<noteq> fy"
    using that by (simp add: last_map last_upt adjacent_def sgn_if of_nat_diff)
  moreover have "adjacent (last ?row) (tx, fy)" if "tx \<noteq> fx"
    using that by (simp add: last_map last_upt adjacent_def sgn_if of_nat_diff)
  moreover have "ty \<noteq> fy \<Longrightarrow> hd ?col = (tx, fy)" by (simp add: hd_map)
  ultimately show ?thesis
    by (cases "tx = fx"; cases "ty = fy") (simp_all add: line_path_def successively_append_iff)
qed

lemma walk_length:
  assumes "successively adjacent q" and "q \<noteq> []"
  shows "\<bar>fst (last q) - fst (hd q)\<bar> + \<bar>snd (last q) - snd (hd q)\<bar> < int (length q)"
  using assms
proof (induction q rule: induct_list012)
  case (3 a b q)
  then have "adjacent a b" and "\<bar>fst (last (b # q)) - fst b\<bar> + \<bar>snd (last (b # q)) - snd b\<bar> < int (length (b # q))"
    by simp_all
  then show ?case unfolding adjacent_def by (simp del: last.simps add: last_ConsR)
qed simp_all

lemma line_path_minimal:
  assumes "q \<noteq> []" "hd q = (fx, fy)" "last q = (tx, ty)" "successively adjacent q"
  shows "length (line_path fx fy tx ty) \<le> length q"
  using walk_length [OF assms(4,1)] assms(2,3) by (simp add: line_path_def nat_add_distrib)

lemma between_valid:
  assumes "is_valid_pos c fx fy" and "is_valid_pos c tx ty"
  shows "list_all (\<lambda>p. is_valid_pos c (fst p) (snd p)) (line_path fx fy tx ty)"
proof -
  have "0 \<le> a + sgn (b - a) * int i \<and> a + sgn (b - a) * int i < m" if "0 \<le> a" "a < m" "0 \<le> b" "b < m" "i < nat \<bar>b - a\<bar>"
    for a b m :: int and i using that by (auto simp: sgn_if)
  then show ?thesis using assms unfolding line_path_def is_valid_pos_def by (auto simp: list_all_iff)
qed

section \<open>Properties\<close>

text \<open>
  C36. Between two positions of the map \<^verbatim>\<open>find_path\<close> always returns, with a path that starts at the
  one and ends at the other, stays on the map and moves to one of the four neighbouring cells at a time.
  No path that moves in this way has fewer cells. Measured with \<^verbatim>\<open>calculate_distance\<close>, which counts a
  diagonal move as one, the path takes at least as many steps as the distance and at most twice as many.
  For a position off the map the path is empty.
\<close>

theorem find_path_correct:
  shows "if is_valid_pos c fx fy \<and> is_valid_pos c tx ty
    then \<exists>p. find_path c fx fy tx ty = Some p \<and> hd p = (fx, fy) \<and> last p = (tx, ty) \<and>
      successively adjacent p \<and> list_all (\<lambda>q. is_valid_pos c (fst q) (snd q)) p \<and>
      (\<forall>q. q \<noteq> [] \<and> hd q = (fx, fy) \<and> last q = (tx, ty) \<and> successively adjacent q \<longrightarrow> length p \<le> length q) \<and>
      int (length p) - 1 \<in> {calculate_distance fx fy tx ty..2 * calculate_distance fx fy tx ty}
    else find_path c fx fy tx ty = Some []"
proof (cases "is_valid_pos c fx fy \<and> is_valid_pos c tx ty")
  case True
  let ?p = "line_path fx fy tx ty"
  have l: "int (length ?p) - 1 = \<bar>tx - fx\<bar> + \<bar>ty - fy\<bar>" by (simp add: line_path_def nat_add_distrib)
  have "find_path c fx fy tx ty = Some ?p" using True by (simp add: find_path_line)
  moreover have "hd ?p = (fx, fy)"
    by (cases "tx = fx"; cases "ty = fy") (simp_all add: line_path_def hd_append hd_map)
  moreover have "last ?p = (tx, ty)" by (simp add: line_path_def)
  moreover have "list_all (\<lambda>q. is_valid_pos c (fst q) (snd q)) ?p" using True between_valid by blast
  moreover have "int (length ?p) - 1 \<in> {calculate_distance fx fy tx ty..2 * calculate_distance fx fy tx ty}"
    unfolding l by (auto simp: calculate_distance_def max_def)
  ultimately show ?thesis using True line_path_steps [of fx fy tx ty] line_path_minimal [of _ fx fy tx ty] by auto
next
  case False
  then show ?thesis by (auto simp: find_path_def)
qed

text \<open>
  C35. After any calls, in any order, a view query of the grid of entities reports a troop that is
  not under way exactly when the queried position is within view of the position of the troop.
\<close>

theorem troops_on_grid:
  assumes "enumerates order" and "slg_run order interp rnd (slg_map_init c) cs = Inr s"
    and "troops s tid = Some t" and "standing t"
  shows "\<exists>ids. get_entity_ids_in_view order (slg_aoi s) x y = Inr ids \<and>
    (tid \<in> set ids \<longleftrightarrow> near default_aoi_config (pos_to_grid default_aoi_config x y)
       (pos_to_grid default_aoi_config (current_x t) (current_y t)))"
proof -
  have tr: "tracked s" by (rule slg_run_tracked [OF assms(1) tracked_init assms(2)])
  then have inv: "aoi_inv (slg_aoi s)" "config (slg_aoi s) = default_aoi_config" by (simp_all add: tracked_def)
  obtain e where "entities (slg_aoi s) tid = Some e" "e_x e = current_x t" "e_y e = current_y t"
    using trackedD(3) [OF tr assms(3)] assms(4) by (auto simp: on_grid_def)
  then show ?thesis using ids_in_view [OF inv(1) assms(1), of x y] inv(2)
    by (auto simp: get_entity_ids_in_view_def view_set_def cell_of_def)
qed

text \<open>
  A troop that has started to gather or to fight never leaves that state: after any further
  calls it is unchanged.
\<close>

lemma engaged_troop_stuck:
  assumes "enumerates order" and "slg_run order interp rnd (slg_map_init c) cs = Inr s"
    and "troops s tid = Some t" and "engaged t" and "slg_run order interp rnd s later = Inr s'"
  shows "troops s' tid = Some t"
proof -
  have "tracked s" by (rule slg_run_tracked [OF assms(1) tracked_init assms(2)])
  then show ?thesis using assms(3,5)
  proof (induction later arbitrary: s)
    case (Cons c cs)
    obtain s1 where s1: "slg_step order interp rnd s c = Inr s1" "slg_run order interp rnd s1 cs = Inr s'"
      using Cons.prems(3) by (auto split: sum.splits)
    show ?case
      by (rule Cons.IH [OF slg_step_tracked [OF Cons.prems(1) assms(1) s1(1)]
            slg_step_engaged [OF Cons.prems(1,2) assms(4) s1(1)] s1(2)])
  qed simp
qed

theorem find_path_correct_witness:
  "\<exists>p. find_path default_slg_config 3 4 1 6 = Some p \<and> hd p = (3, 4) \<and> last p = (1, 6) \<and> successively adjacent p \<and>
     length p \<le> length [(3 :: int, 4 :: int), (2, 4), (2, 5), (2, 6), (1, 6)] \<and> int (length p) - 1 \<in> {2..4}"
proof -
  have "is_valid_pos default_slg_config 3 4 \<and> is_valid_pos default_slg_config 1 6"
    by (simp add: is_valid_pos_def default_slg_config_def)
  then obtain p where p: "find_path default_slg_config 3 4 1 6 = Some p" "hd p = (3, 4)" "last p = (1, 6)" "successively adjacent p"
      "int (length p) - 1 \<in> {calculate_distance 3 4 1 6..2 * calculate_distance 3 4 1 6}"
      "\<forall>q. q \<noteq> [] \<and> hd q = (3, 4) \<and> last q = (1, 6) \<and> successively adjacent q \<longrightarrow> length p \<le> length q"
    using find_path_correct [of default_slg_config 3 4 1 6] by auto
  from p(5) have "int (length p) - 1 \<in> {2..4}" by (simp add: calculate_distance_def)
  moreover have "length p \<le> length [(3 :: int, 4 :: int), (2, 4), (2, 5), (2, 6), (1, 6)]"
    using p(6) [rule_format, of "[(3, 4), (2, 4), (2, 5), (2, 6), (1, 6)]"] by (simp add: adjacent_def)
  ultimately show ?thesis using p(1-4) by blast
qed

text \<open>A map of one cell that belongs to player 5, and a troop of player 7 that marches onto it.\<close>

definition tiny_config :: slg_config where
  "tiny_config = \<lparr>map_w = 1, map_h = 1, cell_size = 1, slg_view_range = 5\<rparr>"

definition tiny_map :: slg_map where
  "tiny_map = (slg_map_init tiny_config)\<lparr>grid_cells := [grid_cell_init\<lparr>cell_owner := 5\<rparr>]\<rparr>"

definition tiny_troop :: troop where
  "tiny_troop = troop_init\<lparr>troop_id := 1, troop_owner := 7, infantry := 1\<rparr>"

abbreviation tiny_step :: "slg_map \<Rightarrow> slg_call \<Rightarrow> cpp_error + slg_map" where
  "tiny_step \<equiv> slg_step sorted_list_of_set (\<lambda>d e n. d * e sdiv n) (\<lambda>i. 0)"

abbreviation tiny_run :: "slg_map \<Rightarrow> slg_call list \<Rightarrow> cpp_error + slg_map" where
  "tiny_run \<equiv> slg_run sorted_list_of_set (\<lambda>d e n. d * e sdiv n) (\<lambda>i. 0)"

lemma tiny_start: "tiny_run (slg_map_init tiny_config) [InitMap, UpdateCellOwner 0 0 5 0] = Inr tiny_map"
  by (simp add: tiny_map_def slg_map_init_def tiny_config_def init_map_def update_cell_owner_def change_cell_def
      is_valid_pos_def read_cell_def cell_index_def write_cell_def grid_cell_init_def)

lemma tiny_created: "\<exists>a. tiny_step tiny_map (CreateTroop 7 0 0 1 0 0 0) =
  Inr (tiny_map\<lparr>troops := [1 \<mapsto> tiny_troop], next_troop_id := 2, slg_aoi := a\<rparr>)"
proof -
  have "tracked tiny_map" using tracked_init by (simp add: tracked_def tiny_map_def)
  then obtain ok evs a where "add_entity sorted_list_of_set (slg_aoi tiny_map) (troop_entity 1 0 0) = Inr (ok, evs, a)"
    using add_entity_inv [of "slg_aoi tiny_map" sorted_list_of_set "troop_entity 1 0 0"] enumerates_sorted_list
    by (auto simp: tracked_def)
  then show ?thesis by (auto simp: create_troop_def Let_def tiny_troop_def tiny_map_def slg_map_init_def troop_init_def eval_nat_numeral)
qed

lemma tiny_battle:
  "\<exists>s t. tiny_run (slg_map_init tiny_config) [InitMap, UpdateCellOwner 0 0 5 0, CreateTroop 7 0 0 1 0 0 0, MoveTroop 0 1 0 0, UpdateTroops 0] =
     Inr s \<and> troops s 1 = Some t \<and> engaged t"
proof -
  let ?start = "[InitMap, UpdateCellOwner 0 0 5 0]"
  obtain a where a: "tiny_step tiny_map (CreateTroop 7 0 0 1 0 0 0) =
      Inr (tiny_map\<lparr>troops := [1 \<mapsto> tiny_troop], next_troop_id := 2, slg_aoi := a\<rparr>)" (is "_ = Inr ?s1")
    using tiny_created by blast
  let ?t = "tiny_troop\<lparr>t_state := MARCHING\<rparr>" and ?b = "tiny_troop\<lparr>t_state := BATTLE\<rparr>"
  let ?s2 = "?s1\<lparr>troops := [1 \<mapsto> ?t]\<rparr>"
  have m: "tiny_step ?s1 (MoveTroop 0 1 0 0) = Inr ?s2"
    by (simp add: move_troop_def Let_def tiny_troop_def troop_init_def march_speed_def calculate_march_time_def calculate_distance_def)
  have "tracked tiny_map" using tracked_init by (simp add: tracked_def tiny_map_def)
  then have tr: "tracked ?s1" by (rule slg_step_tracked [OF _ enumerates_sorted_list a])
  then obtain e where "entities a 1 = Some e" using trackedD(4) [of ?s1 1 tiny_troop] by auto
  then obtain evs a' where "update_entity sorted_list_of_set a 1 0 0 = Inr (True, evs, a')"
    using update_entity_moves [of a sorted_list_of_set 1 e 0 0] tr enumerates_sorted_list by (auto simp: tracked_def)
  then have "tiny_step ?s2 (UpdateTroops 0) = Inr (?s2\<lparr>troops := [1 \<mapsto> ?b], slg_aoi := a'\<rparr>)"
    by (simp add: update_troops_def update_troop_def Let_def arrive_troop_def read_cell_def cell_index_def tiny_troop_def troop_init_def
        tiny_map_def slg_map_init_def tiny_config_def has_resource_def has_owner_def grid_cell_init_def)
  then show ?thesis using tiny_start a m by (auto simp: engaged_def split: sum.splits)
qed

theorem troops_on_grid_witness:
  "\<exists>s t ids. tiny_run (slg_map_init tiny_config) [InitMap, UpdateCellOwner 0 0 5 0, CreateTroop 7 0 0 1 0 0 0, MoveTroop 0 1 0 0, UpdateTroops 0] =
     Inr s \<and> troops s 1 = Some t \<and> get_entity_ids_in_view sorted_list_of_set (slg_aoi s) (current_x t) (current_y t) = Inr ids \<and> 1 \<in> set ids"
proof -
  obtain s t where s: "tiny_run (slg_map_init tiny_config) [InitMap, UpdateCellOwner 0 0 5 0, CreateTroop 7 0 0 1 0 0 0,
      MoveTroop 0 1 0 0, UpdateTroops 0] = Inr s" "troops s 1 = Some t" "engaged t" using tiny_battle by blast
  have "standing t" using s(3) by (auto simp: engaged_def standing_def)
  moreover have "near default_aoi_config g g" for g by (simp add: near_def default_aoi_config_def)
  ultimately show ?thesis using troops_on_grid [OF enumerates_sorted_list s(1,2), of "current_x t" "current_y t"] s by blast
qed

end
