(* ===== verification/Battle.thy ===== *)
theory Battle
  imports Document "HOL-Library.Signed_Division"
begin

text \<open>
  \<^verbatim>\<open>src/slg/battle.cpp\<close>: rounds of attacks between two sides. The generator \<^verbatim>\<open>rng_\<close> and \<^verbatim>\<open>rand()\<close> are
  functions from the number of the draw; the numbers of draws made so far are threaded through.
  The truncated floating-point products are the fields of \<open>battle_fp\<close>. The report
  callback receives the report that is returned. Damages are assumed to fit an \<^verbatim>\<open>int\<close>.
\<close>

section \<open>Data\<close>

record general =
  general_id :: nat
  g_name :: string
  rarity :: int
  g_level :: int
  force :: int
  intelligence :: int
  command :: int
  charm :: int
  speed :: int
  skill_id :: int
  skill_level :: int

definition general_init :: general where
  "general_init = \<lparr>general_id = 0, g_name = [], rarity = 1, g_level = 1, force = 50, intelligence = 50, command = 50,
     charm = 50, speed = 50, skill_id = 0, skill_level = 1\<rparr>"

record battle_action =
  act_attacker :: nat
  act_target :: nat
  act_damage :: int
  act_skill_id :: int
  is_skill :: bool
  desc :: string

record battle_round =
  round_no :: int
  attacker_actions :: "battle_action list"
  defender_actions :: "battle_action list"
  attacker_remaining :: int
  defender_remaining :: int

datatype battle_result = ATTACKER_WIN | DEFENDER_WIN | DRAW

record battle_side =
  side_id :: nat
  side_name :: string
  side_generals :: "general list"
  side_initial :: int

record battle_report =
  report_id :: nat
  timestamp :: nat
  rep_attacker :: battle_side
  rep_defender :: battle_side
  attacker_final :: int
  defender_final :: int
  rep_result :: battle_result
  rounds :: "battle_round list"
  food_loss :: int
  wood_loss :: int
  stone_loss :: int
  iron_loss :: int

record battle_config =
  max_rounds :: int
  use_skills :: bool
  base_damage :: int

text \<open>
  \<open>by_force n\<close> is \<^verbatim>\<open>(int)(n * force_ratio)\<close>, \<open>by_skill n\<close> is \<^verbatim>\<open>(int)(n * intel_ratio * 50 / 100)\<close>, \<open>vary n k\<close> is
  \<^verbatim>\<open>(int)(n * (0.8 + k / 100.0))\<close>, \<open>dodged n\<close> is \<^verbatim>\<open>(int)(n * 0.3)\<close>.
\<close>

record battle_fp =
  by_force :: "int \<Rightarrow> int"
  by_skill :: "int \<Rightarrow> int"
  vary :: "int \<Rightarrow> nat \<Rightarrow> int"
  dodged :: "int \<Rightarrow> int"

record battle_env =
  b_config :: battle_config
  b_fp :: battle_fp
  b_rng :: "nat \<Rightarrow> nat"
  b_rand :: "nat \<Rightarrow> nat"

type_synonym draws = "nat \<times> nat"

section \<open>Formulas\<close>

definition formula_base_damage :: "int \<Rightarrow> int \<Rightarrow> int \<Rightarrow> int" where
  "formula_base_damage attacker_force defender_command base =
     base + max 0 ((attacker_force - defender_command sdiv 2) * 2)"

definition formula_skill_damage :: "int \<Rightarrow> int \<Rightarrow> int \<Rightarrow> int" where
  "formula_skill_damage intel pw lvl = intel * pw * lvl sdiv 100"

definition check_critical :: "battle_env \<Rightarrow> int \<Rightarrow> int \<Rightarrow> draws \<Rightarrow> bool \<times> draws" where
  "check_critical E attacker_force defender_speed d =
     (let total = attacker_force + defender_speed
      in if total \<le> 0 then (False, d)
         else (int (b_rand E (snd d) mod 100) < attacker_force * 30 sdiv total, (fst d, snd d + 1)))"

definition critical_multiplier :: int where
  "critical_multiplier = 150"

definition check_dodge :: "battle_env \<Rightarrow> int \<Rightarrow> int \<Rightarrow> draws \<Rightarrow> bool \<times> draws" where
  "check_dodge E defender_speed attacker_force d =
     (let total = defender_speed + attacker_force
      in if total \<le> 0 then (False, d)
         else (int (b_rand E (snd d) mod 100) < defender_speed * 20 sdiv total, (fst d, snd d + 1)))"

definition calculate_general_power :: "general \<Rightarrow> int" where
  "calculate_general_power g = force g + intelligence g + command g + speed g sdiv 2"

definition calculate_power :: "general list \<Rightarrow> int \<Rightarrow> int" where
  "calculate_power gs troops = foldl (\<lambda>n g. n + calculate_general_power g) 0 gs + troops * 10"

definition calculate_skill_damage :: "battle_env \<Rightarrow> general \<Rightarrow> int \<Rightarrow> int \<Rightarrow> int" where
  "calculate_skill_damage E attacker sid lvl = by_skill (b_fp E) (intelligence attacker * lvl)"

definition calculate_damage :: "battle_env \<Rightarrow> general \<Rightarrow> general \<Rightarrow> bool \<Rightarrow> draws \<Rightarrow> int \<times> draws" where
  "calculate_damage E attacker defender use_skill d =
     (let base = base_damage (b_config E);
          force_damage = by_force (b_fp E) (force attacker - command defender sdiv 2);
          intel_damage = (if use_skill then calculate_skill_damage E attacker (skill_id attacker) (skill_level attacker) else 0);
          total = vary (b_fp E) (base + force_damage + intel_damage) (b_rng E (fst d) mod 41);
          (dodge, d1) = check_dodge E (speed defender) (force attacker) (fst d + 1, snd d);
          total1 = (if dodge then dodged (b_fp E) total else total);
          (critical, d2) = check_critical E (force attacker) (speed defender) d1;
          total2 = (if critical then total1 * critical_multiplier else total1)
      in (max 1 total2, d2))"

text \<open>The fixed parts of the text are Chinese, given by their UTF-8 bytes.\<close>

definition utf8 :: "nat list \<Rightarrow> string" where
  "utf8 bs = map char_of bs"

definition generate_action_desc :: "general \<Rightarrow> general \<Rightarrow> int \<Rightarrow> bool \<Rightarrow> string" where
  "generate_action_desc attacker defender damage skill =
     g_name attacker @
     (if skill
      then utf8 [32, 229, 143, 145, 229, 138, 168, 230, 138, 128, 232, 131, 189, 239, 188, 140, 229, 175, 185, 32] @
        g_name defender @ utf8 [32, 233, 128, 160, 230, 136, 144, 32] @ to_string_int damage @
        utf8 [32, 231, 130, 185, 228, 188, 164, 229, 174, 179, 239, 188, 129]
      else utf8 [32, 230, 148, 187, 229, 135, 187, 32] @ g_name defender @
        utf8 [239, 188, 140, 233, 128, 160, 230, 136, 144, 32] @ to_string_int damage @
        utf8 [32, 231, 130, 185, 228, 188, 164, 229, 174, 179, 227, 128, 130])"

section \<open>The battle\<close>

text \<open>
  The actions of one side in a round: each general in turn, until one of the sides has no soldiers.
\<close>

definition general_acts :: "battle_env \<Rightarrow> general list \<Rightarrow> int \<Rightarrow> general \<Rightarrow> draws \<Rightarrow> cpp_error + battle_action \<times> int \<times> draws" where
  "general_acts E targets enemy g d =
     (let idx = b_rng E (fst d) mod max 1 (length targets)
      in if length targets \<le> idx then Inl OutOfBounds
         else let target = targets ! idx; d1 = (fst d + 1, snd d);
                  (use_skill, d2) = (if use_skills (b_config E) then (b_rng E (fst d1) mod 100 < 30, (fst d1 + 1, snd d1)) else (False, d1));
                  (damage, d3) = calculate_damage E g target use_skill d2;
                  actual = min damage enemy
              in Inr (\<lparr>act_attacker = general_id g, act_target = general_id target, act_damage = actual,
                       act_skill_id = (if use_skill then skill_id g else 0), is_skill = use_skill,
                       desc = generate_action_desc g target actual use_skill\<rparr>, enemy - actual, d3))"

fun side_acts :: "battle_env \<Rightarrow> general list \<Rightarrow> int \<Rightarrow> general list \<Rightarrow> int \<Rightarrow> draws \<Rightarrow> cpp_error + battle_action list \<times> int \<times> draws" where
  "side_acts E targets own [] enemy d = Inr ([], enemy, d)"
| "side_acts E targets own (g # gs) enemy d =
     (if enemy \<le> 0 \<or> own \<le> 0 then Inr ([], enemy, d)
      else case general_acts E targets enemy g d of
             Inl e \<Rightarrow> Inl e
           | Inr (a, enemy1, d1) \<Rightarrow>
               (case side_acts E targets own gs enemy1 d1 of
                  Inl e \<Rightarrow> Inl e
                | Inr (as, enemy2, d2) \<Rightarrow> Inr (a # as, enemy2, d2)))"

definition attacker_phase :: "battle_env \<Rightarrow> battle_side \<Rightarrow> battle_side \<Rightarrow> int \<Rightarrow> int \<Rightarrow> draws \<Rightarrow> cpp_error + battle_action list \<times> int \<times> draws" where
  "attacker_phase E att def a b d = side_acts E (side_generals def) a (side_generals att) b d"

definition defender_phase :: "battle_env \<Rightarrow> battle_side \<Rightarrow> battle_side \<Rightarrow> int \<Rightarrow> int \<Rightarrow> draws \<Rightarrow> cpp_error + battle_action list \<times> int \<times> draws" where
  "defender_phase E att def a b d =
     (if 0 < b then side_acts E (side_generals att) b (side_generals def) a d else Inr ([], a, d))"

definition battle_round_step :: "battle_env \<Rightarrow> battle_side \<Rightarrow> battle_side \<Rightarrow> int \<Rightarrow> int \<Rightarrow> int \<Rightarrow> draws \<Rightarrow>
    cpp_error + battle_round \<times> draws" where
  "battle_round_step E att def r a b d =
     (case attacker_phase E att def a b d of
        Inl e \<Rightarrow> Inl e
      | Inr (aa, b1, d1) \<Rightarrow>
          (case defender_phase E att def a b1 d1 of
             Inl e \<Rightarrow> Inl e
           | Inr (da, a1, d2) \<Rightarrow> Inr (\<lparr>round_no = r, attacker_actions = aa, defender_actions = da,
               attacker_remaining = a1, defender_remaining = b1\<rparr>, d2)))"

text \<open>\<open>n\<close> rounds are left; the result is the rounds fought and the soldiers remaining on both sides.\<close>

fun battle_loop :: "battle_env \<Rightarrow> battle_side \<Rightarrow> battle_side \<Rightarrow> nat \<Rightarrow> int \<Rightarrow> int \<Rightarrow> int \<Rightarrow> draws \<Rightarrow>
    cpp_error + battle_round list \<times> int \<times> int \<times> draws" where
  "battle_loop E att def 0 r a b d = Inr ([], a, b, d)"
| "battle_loop E att def (Suc n) r a b d =
     (case battle_round_step E att def r a b d of
        Inl e \<Rightarrow> Inl e
      | Inr (br, d1) \<Rightarrow>
          if attacker_remaining br \<le> 0 \<or> defender_remaining br \<le> 0
          then Inr ([br], attacker_remaining br, defender_remaining br, d1)
          else (case battle_loop E att def n (r + 1) (attacker_remaining br) (defender_remaining br) d1 of
                  Inl e \<Rightarrow> Inl e
                | Inr (brs, a2, b2, d2) \<Rightarrow> Inr (br # brs, a2, b2, d2)))"

definition battle_execute :: "battle_env \<Rightarrow> nat \<Rightarrow> battle_side \<Rightarrow> battle_side \<Rightarrow> draws \<Rightarrow> cpp_error + battle_report \<times> draws" where
  "battle_execute E rid att def d =
     (case battle_loop E att def (nat (max_rounds (b_config E))) 1 (side_initial att) (side_initial def) d of
        Inl e \<Rightarrow> Inl e
      | Inr (brs, a, b, d1) \<Rightarrow>
          let loss = side_initial att - a
          in Inr (\<lparr>report_id = rid, timestamp = rid, rep_attacker = att, rep_defender = def, attacker_final = a, defender_final = b,
                rep_result = (if b < a then ATTACKER_WIN else if a < b then DEFENDER_WIN else DRAW), rounds = brs,
                food_loss = loss * 10, wood_loss = loss * 5, stone_loss = loss * 3, iron_loss = loss * 2\<rparr>, d1))"

section \<open>Bookkeeping of soldiers\<close>

abbreviation total_damage :: "battle_action list \<Rightarrow> int" where
  "total_damage as \<equiv> sum_list (map act_damage as)"

lemma general_acts_spec:
  assumes "targets \<noteq> []" and "0 < enemy"
  shows "\<exists>a d'. general_acts E targets enemy g d = Inr (a, enemy - act_damage a, d') \<and> 1 \<le> act_damage a \<and> act_damage a \<le> enemy"
proof -
  have "b_rng E (fst d) mod max 1 (length targets) < length targets"
    using assms(1) mod_less_divisor [of "length targets" "b_rng E (fst d)"] by (cases targets) auto
  moreover have "1 \<le> fst (calculate_damage E g t u d0)" for t u d0
    by (simp add: calculate_damage_def Let_def split: prod.split)
  ultimately show ?thesis using assms(2)
    by (auto simp: general_acts_def Let_def split: prod.split) (metis fst_conv)+
qed

lemma side_acts_spec:
  assumes "targets \<noteq> []"
  shows "0 \<le> enemy \<Longrightarrow> \<exists>as e' d'. side_acts E targets own gs enemy d = Inr (as, e', d') \<and> 0 \<le> e' \<and>
    e' = enemy - total_damage as \<and> list_all (\<lambda>a. 1 \<le> act_damage a) as"
proof (induction gs arbitrary: enemy d)
  case (Cons g gs)
  show ?case
  proof (cases "enemy \<le> 0 \<or> own \<le> 0")
    case True
    then show ?thesis using Cons.prems by (intro exI [where x = "[]"]) auto
  next
    case False
    then obtain a d1 where a: "general_acts E targets enemy g d = Inr (a, enemy - act_damage a, d1)" "1 \<le> act_damage a"
      "act_damage a \<le> enemy" using general_acts_spec [OF assms, of enemy E g d] by auto
    then obtain as e' d' where "side_acts E targets own gs (enemy - act_damage a) d1 = Inr (as, e', d')" "0 \<le> e'"
      "e' = enemy - act_damage a - total_damage as" "list_all (\<lambda>a. 1 \<le> act_damage a) as"
      using Cons.IH [of "enemy - act_damage a" d1] by auto
    then show ?thesis using False a by (intro exI [where x = "a # as"]) auto
  qed
qed auto

text \<open>A round: what the sides lose is what the actions of the other side report.\<close>

definition round_ok :: "int \<Rightarrow> int \<Rightarrow> battle_round \<Rightarrow> bool" where
  "round_ok a b br \<longleftrightarrow> 0 \<le> attacker_remaining br \<and> 0 \<le> defender_remaining br \<and>
     defender_remaining br = b - total_damage (attacker_actions br) \<and>
     attacker_remaining br = a - total_damage (defender_actions br) \<and>
     list_all (\<lambda>x. 1 \<le> act_damage x) (attacker_actions br @ defender_actions br)"

lemma battle_round_spec:
  assumes "side_generals att \<noteq> []" and "side_generals def \<noteq> []" and "0 \<le> a" and "0 \<le> b"
  shows "\<exists>br d'. battle_round_step E att def r a b d = Inr (br, d') \<and> round_no br = r \<and> round_ok a b br"
proof -
  obtain aa b1 d1 where a1: "attacker_phase E att def a b d = Inr (aa, b1, d1)" "0 \<le> b1" "b1 = b - total_damage aa"
    "list_all (\<lambda>a. 1 \<le> act_damage a) aa"
    using side_acts_spec [OF assms(2,4), of E a "side_generals att" d] by (auto simp: attacker_phase_def)
  obtain da a2 d2 where "defender_phase E att def a b1 d1 = Inr (da, a2, d2)" "0 \<le> a2" "a2 = a - total_damage da"
    "list_all (\<lambda>a. 1 \<le> act_damage a) da"
  proof (cases "0 < b1")
    case True
    then show ?thesis
      using that side_acts_spec [OF assms(1,3), of E b1 "side_generals def" d1] by (auto simp: defender_phase_def)
  next
    case False
    then show ?thesis using that [of "[]" a d1] assms(3) by (simp add: defender_phase_def)
  qed
  then show ?thesis using a1 by (auto simp: battle_round_step_def round_ok_def)
qed

definition damage_by :: "(battle_round \<Rightarrow> battle_action list) \<Rightarrow> battle_round list \<Rightarrow> int" where
  "damage_by side brs = sum_list (map (\<lambda>br. total_damage (side br)) brs)"

lemma battle_loop_spec:
  assumes "side_generals att \<noteq> []" and "side_generals def \<noteq> []"
  shows "0 \<le> a \<Longrightarrow> 0 \<le> b \<Longrightarrow> \<exists>brs a' b' d'. battle_loop E att def n r a b d = Inr (brs, a', b', d') \<and> 0 \<le> a' \<and> 0 \<le> b' \<and>
    a' = a - damage_by defender_actions brs \<and> b' = b - damage_by attacker_actions brs \<and> length brs \<le> n \<and>
    (length brs < n \<longrightarrow> a' = 0 \<or> b' = 0) \<and> map round_no brs = map (\<lambda>i. r + int i) [0..<length brs] \<and>
    list_all (\<lambda>br. list_all (\<lambda>x. 1 \<le> act_damage x) (attacker_actions br @ defender_actions br)) brs"
proof (induction n arbitrary: r a b d)
  case 0
  then show ?case by (simp add: damage_by_def)
next
  case (Suc n)
  obtain br d1 where br: "battle_round_step E att def r a b d = Inr (br, d1)" "round_no br = r" "round_ok a b br"
    using battle_round_spec [OF assms Suc.prems] by blast
  show ?case
  proof (cases "attacker_remaining br \<le> 0 \<or> defender_remaining br \<le> 0")
    case True
    then show ?thesis using br by (intro exI [where x = "[br]"]) (auto simp: round_ok_def damage_by_def)
  next
    case False
    then obtain brs a' b' d' where l: "battle_loop E att def n (r + 1) (attacker_remaining br) (defender_remaining br) d1 =
        Inr (brs, a', b', d')" "0 \<le> a'" "0 \<le> b'" "a' = attacker_remaining br - damage_by defender_actions brs"
      "b' = defender_remaining br - damage_by attacker_actions brs" "length brs \<le> n" "length brs < n \<longrightarrow> a' = 0 \<or> b' = 0"
      "map round_no brs = map (\<lambda>i. r + 1 + int i) [0..<length brs]"
      "list_all (\<lambda>br. list_all (\<lambda>x. 1 \<le> act_damage x) (attacker_actions br @ defender_actions br)) brs"
      using Suc.IH [of "attacker_remaining br" "defender_remaining br" "r + 1" d1] br(3) unfolding round_ok_def by blast
    have "map round_no (br # brs) = map (\<lambda>i. r + int i) [0..<length (br # brs)]"
      using l(8) br(2) by (simp add: upt_conv_Cons map_Suc_upt [symmetric] algebra_simps del: upt_Suc)
    then show ?thesis using False l br
      by (intro exI [where x = "br # brs"] exI [where x = a'] exI [where x = b'] exI [where x = d'])
        (auto simp: round_ok_def damage_by_def simp del: upt_Suc)
  qed
qed

text \<open>A side with soldiers but no generals: the first attack on it reads past the end of its list.\<close>

lemma no_generals_oob:
  assumes "side_generals att = g # gs" and "side_generals def = []" and "0 < side_initial att" and "0 < side_initial def"
    and "1 \<le> max_rounds (b_config E)"
  shows "battle_execute E rid att def d = Inl OutOfBounds"
proof -
  obtain n where "nat (max_rounds (b_config E)) = Suc n" using assms(5) by (cases "nat (max_rounds (b_config E))") auto
  then show ?thesis using assms(1-4)
    by (simp add: battle_execute_def battle_round_step_def attacker_phase_def general_acts_def)
qed

text \<open>A critical hit multiplies by 150, not by one and a half.\<close>

lemma critical_damage:
  assumes "fst (check_critical E (force g) (speed t) (snd (check_dodge E (speed t) (force g) (fst d + 1, snd d))))"
    and "\<not> fst (check_dodge E (speed t) (force g) (fst d + 1, snd d))"
  shows "fst (calculate_damage E g t False d) =
    max 1 (150 * vary (b_fp E) (base_damage (b_config E) + by_force (b_fp E) (force g - command t sdiv 2)) (b_rng E (fst d) mod 41))"
  using assms by (auto simp: calculate_damage_def Let_def critical_multiplier_def split: prod.split)

text \<open>
  C34. A battle between two sides with generals always ends with a report that accounts for every
  soldier: what a side has left is what it started with less the damage of the recorded actions of
  the other side, never below zero; every action does some damage; the rounds are numbered from 1,
  there are at most \<^verbatim>\<open>max_rounds\<close>, fewer only if one side has no soldiers left; and the winner is the
  side with more soldiers left.
\<close>

theorem battle_report_accounts:
  assumes "side_generals att \<noteq> []" and "side_generals def \<noteq> []" and "0 \<le> side_initial att" and "0 \<le> side_initial def"
    and "0 \<le> max_rounds (b_config E)"
  shows "\<exists>rep d'. battle_execute E rid att def d = Inr (rep, d') \<and> 0 \<le> attacker_final rep \<and> 0 \<le> defender_final rep \<and>
    attacker_final rep = side_initial att - damage_by defender_actions (rounds rep) \<and>
    defender_final rep = side_initial def - damage_by attacker_actions (rounds rep) \<and>
    list_all (\<lambda>br. list_all (\<lambda>x. 1 \<le> act_damage x) (attacker_actions br @ defender_actions br)) (rounds rep) \<and>
    map round_no (rounds rep) = map (\<lambda>i. 1 + int i) [0..<length (rounds rep)] \<and>
    int (length (rounds rep)) \<le> max_rounds (b_config E) \<and>
    (int (length (rounds rep)) < max_rounds (b_config E) \<longrightarrow> attacker_final rep = 0 \<or> defender_final rep = 0) \<and>
    rep_result rep = (if defender_final rep < attacker_final rep then ATTACKER_WIN
      else if attacker_final rep < defender_final rep then DEFENDER_WIN else DRAW)"
proof -
  obtain brs a b d' where l: "battle_loop E att def (nat (max_rounds (b_config E))) 1 (side_initial att) (side_initial def) d =
      Inr (brs, a, b, d')" "0 \<le> a" "0 \<le> b" "a = side_initial att - damage_by defender_actions brs"
    "b = side_initial def - damage_by attacker_actions brs" "length brs \<le> nat (max_rounds (b_config E))"
    "length brs < nat (max_rounds (b_config E)) \<longrightarrow> a = 0 \<or> b = 0" "map round_no brs = map (\<lambda>i. 1 + int i) [0..<length brs]"
    "list_all (\<lambda>br. list_all (\<lambda>x. 1 \<le> act_damage x) (attacker_actions br @ defender_actions br)) brs"
    using battle_loop_spec [OF assms(1-4)] by blast
  have "int (length brs) \<le> max_rounds (b_config E)" using l(6) assms(5) by linarith
  moreover have "int (length brs) < max_rounds (b_config E) \<longrightarrow> a = 0 \<or> b = 0" using l(7) by linarith
  ultimately show ?thesis using l(2-5,8,9) by (simp add: battle_execute_def l(1) Let_def)
qed

definition demo_env :: battle_env where
  "demo_env = \<lparr>b_config = \<lparr>max_rounds = 8, use_skills = True, base_damage = 100\<rparr>,
     b_fp = \<lparr>by_force = \<lambda>n. 2 * n, by_skill = \<lambda>n. n * 75 sdiv 100, vary = \<lambda>n k. n * (80 + int k) sdiv 100, dodged = \<lambda>n. n * 3 sdiv 10\<rparr>,
     b_rng = \<lambda>i. i, b_rand = \<lambda>i. 7 * i\<rparr>"

definition demo_side :: "nat \<Rightarrow> int \<Rightarrow> battle_side" where
  "demo_side i n = \<lparr>side_id = i, side_name = ''side'', side_generals = [general_init\<lparr>general_id := i\<rparr>], side_initial = n\<rparr>"

theorem battle_report_accounts_witness:
  "\<exists>rep d'. battle_execute demo_env 1 (demo_side 1 1000) (demo_side 2 800) (0, 0) = Inr (rep, d') \<and>
     0 \<le> attacker_final rep \<and> attacker_final rep = 1000 - damage_by defender_actions (rounds rep) \<and>
     defender_final rep = 800 - damage_by attacker_actions (rounds rep) \<and> int (length (rounds rep)) \<le> 8"
proof -
  have "side_generals (demo_side 1 1000) \<noteq> []" "side_generals (demo_side 2 800) \<noteq> []" "0 \<le> side_initial (demo_side 1 1000)"
    "0 \<le> side_initial (demo_side 2 800)" "0 \<le> max_rounds (b_config demo_env)" and
    v: "side_initial (demo_side 1 1000) = 1000" "side_initial (demo_side 2 800) = 800" "max_rounds (b_config demo_env) = 8"
    by (simp_all add: demo_side_def demo_env_def)
  from battle_report_accounts [OF this(1-5), of 1 "(0, 0)"] show ?thesis unfolding v by blast
qed

end
