(* ===== verification/ObjectPool.thy ===== *)
theory ObjectPool
  imports Chwell_Prelude
begin

text \<open>
  \<^verbatim>\<open>pool/object_pool.h\<close>: pools of objects and of buffers. The factory of an object pool is a
  parameter: \<open>create n\<close> is what its \<open>n\<close>-th call returns, \<open>None\<close> for a null pointer; \<open>reset\<close> the state
  it leaves an object in. The pool is a stack, its top at the head of the list. Each operation
  holds the mutex while it uses the stack.
\<close>

section \<open>Object pool\<close>

record pool_config =
  initial_size :: int
  max_size :: int
  expand_size :: int

definition default_pool_config :: pool_config where
  "default_pool_config = \<lparr>initial_size = 10, max_size = 1000, expand_size = 10\<rparr>"

record 'a factory =
  create :: "nat \<Rightarrow> 'a option"
  reset :: "'a \<Rightarrow> 'a"

record 'a object_pool =
  op_config :: pool_config
  pool :: "'a list"
  created_count :: int
  borrowed_count :: int
  creations :: nat

text \<open>One call of \<^verbatim>\<open>factory_.create()\<close>.\<close>

definition call_create :: "'a factory \<Rightarrow> 'a object_pool \<Rightarrow> 'a option \<times> 'a object_pool" where
  "call_create F p = (create F (creations p), p\<lparr>creations := creations p + 1\<rparr>)"

definition add_created :: "'a factory \<Rightarrow> 'a object_pool \<Rightarrow> 'a object_pool" where
  "add_created F p =
     (case call_create F p of
        (None, p1) \<Rightarrow> p1
      | (Some x, p1) \<Rightarrow> p1\<lparr>pool := x # pool p1, created_count := created_count p1 + 1\<rparr>)"

text \<open>The constructor creates \<^verbatim>\<open>initial_size\<close> objects, without regard to \<^verbatim>\<open>max_size\<close>.\<close>

definition object_pool_init :: "'a factory \<Rightarrow> pool_config \<Rightarrow> 'a object_pool" where
  "object_pool_init F c = (add_created F ^^ nat (initial_size c))
     \<lparr>op_config = c, pool = [], created_count = 0, borrowed_count = 0, creations = 0\<rparr>"

text \<open>\<^verbatim>\<open>acquire\<close> and \<^verbatim>\<open>acquire_raw\<close> differ in the kind of pointer they return.\<close>

definition acquire :: "'a factory \<Rightarrow> 'a object_pool \<Rightarrow> 'a option \<times> 'a object_pool" where
  "acquire F p =
     (case pool p of
        x # xs \<Rightarrow> (Some x, p\<lparr>pool := xs, borrowed_count := borrowed_count p + 1\<rparr>)
      | [] \<Rightarrow>
          if created_count p < max_size (op_config p)
          then (case call_create F p of
                  (None, p1) \<Rightarrow> (None, p1)
                | (Some x, p1) \<Rightarrow> (Some x, p1\<lparr>created_count := created_count p1 + 1, borrowed_count := borrowed_count p1 + 1\<rparr>))
          else (None, p))"

definition release :: "'a factory \<Rightarrow> 'a object_pool \<Rightarrow> 'a option \<Rightarrow> 'a object_pool" where
  "release F p obj =
     (case obj of
        None \<Rightarrow> p
      | Some x \<Rightarrow>
          if int (length (pool p)) < max_size (op_config p)
          then p\<lparr>borrowed_count := borrowed_count p - 1, pool := reset F x # pool p\<rparr>
          else p\<lparr>borrowed_count := borrowed_count p - 1, created_count := created_count p - 1\<rparr>)"

definition available_count :: "'a object_pool \<Rightarrow> nat" where
  "available_count p = length (pool p)"

fun expand_loop :: "'a factory \<Rightarrow> nat \<Rightarrow> 'a object_pool \<Rightarrow> 'a object_pool" where
  "expand_loop F 0 p = p"
| "expand_loop F (Suc n) p =
     (if created_count p < max_size (op_config p) then expand_loop F n (add_created F p) else p)"

definition expand :: "'a factory \<Rightarrow> 'a object_pool \<Rightarrow> int \<Rightarrow> 'a object_pool" where
  "expand F p count = expand_loop F (nat count) p"

text \<open>\<^verbatim>\<open>shrink\<close>: with a negative target the loop takes the top of an empty stack.\<close>

fun shrink_loop :: "int \<Rightarrow> 'a list \<Rightarrow> int \<Rightarrow> cpp_error + 'a list \<times> int" where
  "shrink_loop target [] n = (if target < 0 then Inl OutOfBounds else Inr ([], n))"
| "shrink_loop target (x # xs) n =
     (if target < int (length (x # xs)) then shrink_loop target xs (n - 1) else Inr (x # xs, n))"

definition shrink :: "'a object_pool \<Rightarrow> int \<Rightarrow> cpp_error + 'a object_pool" where
  "shrink p target = map_sum id (\<lambda>(xs, n). p\<lparr>pool := xs, created_count := n\<rparr>) (shrink_loop target (pool p) (created_count p))"

section \<open>Buffer pools\<close>

record buffer_pool =
  buffer_size :: nat
  max_count :: int
  buffers :: "bytes list"
  buf_created :: int
  buf_borrowed :: int

fun buffer_fill :: "nat \<Rightarrow> buffer_pool \<Rightarrow> buffer_pool" where
  "buffer_fill 0 p = p"
| "buffer_fill (Suc n) p =
     (if buf_created p < max_count p
      then buffer_fill n (p\<lparr>buffers := replicate (buffer_size p) 0 # buffers p, buf_created := buf_created p + 1\<rparr>)
      else p)"

definition buffer_pool_init :: "nat \<Rightarrow> int \<Rightarrow> int \<Rightarrow> buffer_pool" where
  "buffer_pool_init sz initial maxc =
     buffer_fill (nat initial) \<lparr>buffer_size = sz, max_count = maxc, buffers = [], buf_created = 0, buf_borrowed = 0\<rparr>"

text \<open>A pooled buffer is handed out empty, a new one with \<^verbatim>\<open>buffer_size\<close> zero bytes.\<close>

definition buffer_acquire :: "buffer_pool \<Rightarrow> bytes option \<times> buffer_pool" where
  "buffer_acquire p =
     (case buffers p of
        b # bs \<Rightarrow> (Some [], p\<lparr>buffers := bs, buf_borrowed := buf_borrowed p + 1\<rparr>)
      | [] \<Rightarrow>
          if buf_created p < max_count p
          then (Some (replicate (buffer_size p) 0), p\<lparr>buf_created := buf_created p + 1, buf_borrowed := buf_borrowed p + 1\<rparr>)
          else (None, p))"

definition buffer_release :: "buffer_pool \<Rightarrow> bytes option \<Rightarrow> buffer_pool" where
  "buffer_release p buf =
     (case buf of
        None \<Rightarrow> p
      | Some b \<Rightarrow>
          if int (length (buffers p)) < max_count p
          then p\<lparr>buf_borrowed := buf_borrowed p - 1, buffers := [] # buffers p\<rparr>
          else p\<lparr>buf_borrowed := buf_borrowed p - 1, buf_created := buf_created p - 1\<rparr>)"

text \<open>The process-wide pools by buffer size.\<close>

type_synonym global_pools = "nat \<rightharpoonup> buffer_pool"

definition get_pool :: "global_pools \<Rightarrow> nat \<Rightarrow> buffer_pool \<times> global_pools" where
  "get_pool g sz = (case g sz of
     Some p \<Rightarrow> (p, g) | None \<Rightarrow> (let p = buffer_pool_init sz 10 1000 in (p, g(sz \<mapsto> p))))"

definition global_acquire :: "global_pools \<Rightarrow> nat \<Rightarrow> bytes option \<times> global_pools" where
  "global_acquire g sz =
     (let (p, g1) = get_pool g sz; (b, p') = buffer_acquire p in (b, g1(sz \<mapsto> p')))"

definition global_release :: "global_pools \<Rightarrow> bytes option \<Rightarrow> nat \<Rightarrow> global_pools" where
  "global_release g buf sz = (let (p, g1) = get_pool g sz in g1(sz \<mapsto> buffer_release p buf))"

section \<open>The counters\<close>

text \<open>
  A history of an object pool in which objects given back are objects taken from it: \<open>out\<close> are the
  objects in the hands of callers.
\<close>

datatype pool_call = Acquire | Release nat | Expand int | Shrink int

fun pool_step :: "'a factory \<Rightarrow> 'a object_pool \<times> 'a list \<Rightarrow> pool_call \<Rightarrow> cpp_error + 'a object_pool \<times> 'a list" where
  "pool_step F (p, out) Acquire =
     (case acquire F p of (None, p1) \<Rightarrow> Inr (p1, out) | (Some x, p1) \<Rightarrow> Inr (p1, out @ [x]))"
| "pool_step F (p, out) (Release i) =
     (if i < length out then Inr (release F p (Some (out ! i)), take i out @ drop (Suc i) out) else Inr (p, out))"
| "pool_step F (p, out) (Expand n) = Inr (expand F p n, out)"
| "pool_step F (p, out) (Shrink n) = map_sum id (\<lambda>p1. (p1, out)) (shrink p n)"

fun pool_run :: "'a factory \<Rightarrow> 'a object_pool \<times> 'a list \<Rightarrow> pool_call list \<Rightarrow> cpp_error + 'a object_pool \<times> 'a list" where
  "pool_run F s [] = Inr s"
| "pool_run F s (c # cs) = (case pool_step F s c of Inl e \<Rightarrow> Inl e | Inr s1 \<Rightarrow> pool_run F s1 cs)"

definition pool_inv :: "'a object_pool \<times> 'a list \<Rightarrow> bool" where
  "pool_inv s \<longleftrightarrow> (case s of (p, out) \<Rightarrow> borrowed_count p = int (length out) \<and>
     created_count p = int (length (pool p)) + borrowed_count p \<and>
     created_count p \<le> max 0 (max (initial_size (op_config p)) (max_size (op_config p))))"

lemma add_created_facts:
  "op_config (add_created F p) = op_config p" "borrowed_count (add_created F p) = borrowed_count p"
  "created_count (add_created F p) - int (length (pool (add_created F p))) = created_count p - int (length (pool p))"
  "created_count (add_created F p) \<le> created_count p + 1"
  by (auto simp: add_created_def call_create_def split: option.splits)

lemma pool_init_inv: "pool_inv (object_pool_init F c, [])"
proof -
  let ?s = "\<lambda>n. (add_created F ^^ n) \<lparr>op_config = c, pool = [], created_count = 0, borrowed_count = 0, creations = 0\<rparr>"
  have "op_config (?s n) = c \<and> borrowed_count (?s n) = 0 \<and> created_count (?s n) = int (length (pool (?s n))) \<and>
      created_count (?s n) \<le> int n" for n
  proof (induction n)
    case (Suc n)
    then show ?case using add_created_facts [of F "?s n"] by simp
  qed simp
  from this [of "nat (initial_size c)"] show ?thesis by (auto simp: pool_inv_def object_pool_init_def split: if_splits)
qed

lemma expand_loop_inv: "pool_inv (p, out) \<Longrightarrow> pool_inv (expand_loop F n p, out)"
proof (induction n arbitrary: p)
  case (Suc n)
  have "created_count p < max_size (op_config p) \<Longrightarrow> pool_inv (add_created F p, out)"
    using Suc.prems add_created_facts [of F p] by (auto simp: pool_inv_def)
  then show ?case using Suc by simp
qed simp

lemma shrink_loop_counts:
  "shrink_loop target xs n = Inr (ys, m) \<Longrightarrow> m - int (length ys) = n - int (length xs) \<and> m \<le> n"
  by (induction target xs n rule: shrink_loop.induct) (auto split: if_splits)

lemma pool_step_inv:
  assumes "pool_inv s" and "pool_step F s c = Inr s'"
  shows "pool_inv s'"
proof -
  obtain p out where s: "s = (p, out)" by (cases s)
  show ?thesis
  proof (cases c)
    case Acquire
    then show ?thesis using assms s
      by (auto simp: pool_inv_def acquire_def call_create_def split: list.splits option.splits if_splits)
  next
    case (Release i)
    then show ?thesis using assms s by (auto simp: pool_inv_def release_def of_nat_diff split: if_splits)
  next
    case (Expand n)
    then show ?thesis using assms s expand_loop_inv [of p out F "nat n"] by (auto simp: expand_def)
  next
    case (Shrink n)
    then obtain ys m where "shrink_loop n (pool p) (created_count p) = Inr (ys, m)" "s' = (p\<lparr>pool := ys, created_count := m\<rparr>, out)"
      using assms(2) s by (cases "shrink_loop n (pool p) (created_count p)") (auto simp: shrink_def)
    then show ?thesis using assms(1) s shrink_loop_counts [of n "pool p" "created_count p" ys m] by (auto simp: pool_inv_def)
  qed
qed

text \<open>
  The counters are right after every history: \<^verbatim>\<open>borrowed_count\<close> is the number of objects in use,
  \<^verbatim>\<open>created_count\<close> that of all objects, at most \<^verbatim>\<open>max_size\<close> unless \<^verbatim>\<open>initial_size\<close> is greater.
\<close>

lemma pool_run_inv: "pool_inv s \<Longrightarrow> pool_run F s cs = Inr s' \<Longrightarrow> pool_inv s'"
  by (induction F s cs rule: pool_run.induct) (auto split: sum.splits dest: pool_step_inv)

lemma pool_counters:
  "pool_run F (object_pool_init F c, []) cs = Inr (p, out) \<Longrightarrow>
     borrowed_count p = int (length out) \<and> created_count p = int (length (pool p)) + int (length out)"
  using pool_run_inv [OF pool_init_inv, of F F c cs "(p, out)"] by (simp add: pool_inv_def)

lemma shrink_negative: "target < 0 \<Longrightarrow> shrink p target = Inl OutOfBounds"
proof -
  have "target < 0 \<Longrightarrow> shrink_loop target xs n = Inl OutOfBounds" for xs :: "'a list" and n
    by (induction xs arbitrary: n) auto
  then show "target < 0 \<Longrightarrow> shrink p target = Inl OutOfBounds" by (simp add: shrink_def)
qed

lemma reused_buffer_empty: "buffers p = b # bs \<Longrightarrow> fst (buffer_acquire p) = Some []"
  by (simp add: buffer_acquire_def)

end
