(* ===== verification/EventBus.thy ===== *)
theory EventBus
  imports Chwell_Prelude "HOL-Library.Multiset"
begin

text \<open>
  \<^verbatim>\<open>event/event_bus.h\<close>: subscriptions by event type with priorities. Event types are values of a type
  \<open>'t\<close>, handlers values of a type \<open>'h\<close>; publishing returns the handlers it invokes, in order.
  \<^verbatim>\<open>std::sort\<close> is a parameter \<open>sort_subs\<close> with its contract: it is not stable, so handlers of equal
  priority may change places.
\<close>

section \<open>Events\<close>

record event =
  ev_timestamp :: int
  ev_cancelled :: bool

definition event_cancel :: "event \<Rightarrow> event" where
  "event_cancel e = e\<lparr>ev_cancelled := True\<rparr>"

section \<open>The bus\<close>

record 'h subscriber =
  sub_id :: nat
  sub_priority :: int
  sub_handler :: 'h

record ('t, 'h) event_bus =
  subscribers :: "'t \<rightharpoonup> 'h subscriber list"
  next_sub_id :: nat

definition event_bus_init :: "('t, 'h) event_bus" where
  "event_bus_init = \<lparr>subscribers = Map.empty, next_sub_id = 1\<rparr>"

definition subs_of :: "('t, 'h) event_bus \<Rightarrow> 't \<Rightarrow> 'h subscriber list" where
  "subs_of b ty = (case subscribers b ty of None \<Rightarrow> [] | Some ss \<Rightarrow> ss)"

definition subscribe :: "('h subscriber list \<Rightarrow> 'h subscriber list) \<Rightarrow> ('t, 'h) event_bus \<Rightarrow> 't \<Rightarrow> 'h \<Rightarrow> int \<Rightarrow>
    nat \<times> ('t, 'h) event_bus" where
  "subscribe sort_subs b ty h p =
     (let i = next_sub_id b; s = \<lparr>sub_id = i, sub_priority = p, sub_handler = h\<rparr>
      in (i, b\<lparr>subscribers := (subscribers b)(ty \<mapsto> sort_subs (subs_of b ty @ [s])), next_sub_id := i + 1\<rparr>))"

text \<open>\<^verbatim>\<open>find_if\<close> and \<^verbatim>\<open>erase\<close> of the first subscriber with the id.\<close>

fun erase_sub :: "nat \<Rightarrow> 'h subscriber list \<Rightarrow> 'h subscriber list" where
  "erase_sub i [] = []"
| "erase_sub i (s # ss) = (if sub_id s = i then ss else s # erase_sub i ss)"

text \<open>The loop over the types, in the order \<open>tys\<close> of the hash table, stops at the first that has the id.\<close>

fun unsubscribe_loop :: "nat \<Rightarrow> 't list \<Rightarrow> ('t, 'h) event_bus \<Rightarrow> ('t, 'h) event_bus" where
  "unsubscribe_loop i [] b = b"
| "unsubscribe_loop i (ty # tys) b =
     (if i \<in> sub_id ` set (subs_of b ty)
      then b\<lparr>subscribers := (subscribers b)(ty \<mapsto> erase_sub i (subs_of b ty))\<rparr>
      else unsubscribe_loop i tys b)"

definition unsubscribe :: "('t set \<Rightarrow> 't list) \<Rightarrow> ('t, 'h) event_bus \<Rightarrow> nat \<Rightarrow> ('t, 'h) event_bus" where
  "unsubscribe order b i = unsubscribe_loop i (order (dom (subscribers b))) b"

text \<open>
  Handlers get a constant reference to the event, so that they cannot cancel it: whether the loop
  stops is decided before it starts. Exceptions of handlers are logged.
\<close>

definition publish :: "int \<Rightarrow> ('t, 'h) event_bus \<Rightarrow> 't \<Rightarrow> event \<Rightarrow> 'h list \<times> event" where
  "publish now b ty e =
     (let e1 = (if ev_timestamp e = 0 then e\<lparr>ev_timestamp := now\<rparr> else e)
      in (if ev_cancelled e1 then [] else map sub_handler (subs_of b ty), e1))"

definition bus_clear :: "('t, 'h) event_bus \<Rightarrow> ('t, 'h) event_bus" where
  "bus_clear b = b\<lparr>subscribers := Map.empty\<rparr>"

definition subscriber_count :: "('t set \<Rightarrow> 't list) \<Rightarrow> ('t, 'h) event_bus \<Rightarrow> nat" where
  "subscriber_count order b = sum_list (map (\<lambda>ty. length (subs_of b ty)) (order (dom (subscribers b))))"

section \<open>Delivery\<close>

definition sorts_desc :: "('h subscriber list \<Rightarrow> 'h subscriber list) \<Rightarrow> bool" where
  "sorts_desc sort_subs \<longleftrightarrow> (\<forall>xs. mset (sort_subs xs) = mset xs \<and>
     sorted_wrt (\<lambda>a b. sub_priority b \<le> sub_priority a) (sort_subs xs))"

datatype ('t, 'h) bus_call = Subscribe 't 'h int | Unsubscribe nat | Clear

fun bus_step :: "('h subscriber list \<Rightarrow> 'h subscriber list) \<Rightarrow> ('t set \<Rightarrow> 't list) \<Rightarrow> ('t, 'h) event_bus \<Rightarrow> ('t, 'h) bus_call \<Rightarrow>
    ('t, 'h) event_bus" where
  "bus_step so order b (Subscribe ty h p) = snd (subscribe so b ty h p)"
| "bus_step so order b (Unsubscribe i) = unsubscribe order b i"
| "bus_step so order b Clear = bus_clear b"

text \<open>What the calls mean: a list of subscriptions with their type, in the order they were made.\<close>

fun book_step :: "nat \<times> ('t \<times> 'h subscriber) list \<Rightarrow> ('t, 'h) bus_call \<Rightarrow> nat \<times> ('t \<times> 'h subscriber) list" where
  "book_step (n, bs) (Subscribe ty h p) = (n + 1, bs @ [(ty, \<lparr>sub_id = n, sub_priority = p, sub_handler = h\<rparr>)])"
| "book_step (n, bs) (Unsubscribe i) = (n, filter (\<lambda>b. sub_id (snd b) \<noteq> i) bs)"
| "book_step (n, bs) Clear = (n, [])"

definition booked :: "('t \<times> 'h subscriber) list \<Rightarrow> 't \<Rightarrow> 'h subscriber multiset" where
  "booked bs ty = mset (map snd (filter (\<lambda>b. fst b = ty) bs))"

definition bus_inv :: "('t, 'h) event_bus \<Rightarrow> nat \<times> ('t \<times> 'h subscriber) list \<Rightarrow> bool" where
  "bus_inv b s \<longleftrightarrow> (case s of (n, bs) \<Rightarrow> next_sub_id b = n \<and> finite (dom (subscribers b)) \<and>
     (\<forall>x\<in>set bs. sub_id (snd x) < n) \<and> distinct (map (sub_id \<circ> snd) bs) \<and>
     (\<forall>ty. mset (subs_of b ty) = booked bs ty \<and> sorted_wrt (\<lambda>x y. sub_priority y \<le> sub_priority x) (subs_of b ty)))"

lemma subscribe_inv:
  assumes "bus_inv b (n, bs)" and "sorts_desc so"
  shows "bus_inv (snd (subscribe so b ty h p)) (book_step (n, bs) (Subscribe ty h p))"
proof -
  have "mset (so (subs_of b ty @ [x])) = add_mset x (booked bs ty)" for x
    using assms by (simp add: bus_inv_def sorts_desc_def)
  then show ?thesis using assms
    by (auto simp: bus_inv_def subscribe_def Let_def subs_of_def booked_def sorts_desc_def)
qed

lemma erase_sub_filter: "distinct (map sub_id ss) \<Longrightarrow> erase_sub i ss = filter (\<lambda>s. sub_id s \<noteq> i) ss"
proof (induction ss)
  case (Cons s ss)
  then show ?case by (auto intro!: filter_True [symmetric]) (metis image_eqI)
qed simp

text \<open>An id is booked once, for one type.\<close>

lemma bus_inv_ids:
  assumes "bus_inv b (n, bs)"
  shows "distinct (map sub_id (subs_of b ty))"
    and "i \<in> sub_id ` set (subs_of b ty) \<Longrightarrow> i \<in> sub_id ` set (subs_of b ty') \<Longrightarrow> ty = ty'"
proof -
  have d: "distinct (map (sub_id \<circ> snd) bs)" and m: "mset (subs_of b ty) = mset (map snd (filter (\<lambda>b. fst b = ty) bs))" for ty
    using assms by (auto simp: bus_inv_def booked_def)
  have "mset (map sub_id (subs_of b ty)) = mset (map sub_id (map snd (filter (\<lambda>b. fst b = ty) bs)))"
    by (simp only: mset_map m)
  moreover have "distinct (map sub_id (map snd (filter (\<lambda>b. fst b = ty) bs)))"
    using distinct_map_filter [OF d, of "\<lambda>b. fst b = ty"] by (simp add: comp_def)
  ultimately show "distinct (map sub_id (subs_of b ty))" using mset_eq_imp_distinct_iff by blast
  have s: "set (subs_of b ty) = snd ` {x \<in> set bs. fst x = ty}" for ty using mset_eq_setD [OF m] by auto
  assume "i \<in> sub_id ` set (subs_of b ty)" "i \<in> sub_id ` set (subs_of b ty')"
  then obtain x y where "x \<in> set bs" "y \<in> set bs" "fst x = ty" "fst y = ty'" "sub_id (snd x) = i" "sub_id (snd y) = i"
    unfolding s by auto
  then show "ty = ty'" using d by (auto simp: distinct_map inj_on_def)
qed

lemma unsubscribe_loop_subs:
  assumes "bus_inv b (n, bs)"
  shows "subs_of (unsubscribe_loop i tys b) ty =
    (if ty \<in> set tys then filter (\<lambda>s. sub_id s \<noteq> i) (subs_of b ty) else subs_of b ty)"
proof (induction tys)
  case (Cons t tys)
  have other: "i \<in> sub_id ` set (subs_of b t) \<Longrightarrow> t \<noteq> ty \<Longrightarrow> filter (\<lambda>s. sub_id s \<noteq> i) (subs_of b ty) = subs_of b ty"
    using bus_inv_ids(2) [OF assms, of i t ty] by (intro filter_True) (metis image_eqI)
  have "i \<notin> sub_id ` set (subs_of b t) \<Longrightarrow> filter (\<lambda>s. sub_id s \<noteq> i) (subs_of b t) = subs_of b t"
    by (intro filter_True) auto
  then show ?case using Cons other erase_sub_filter [OF bus_inv_ids(1) [OF assms], of i t]
    by (cases "t = ty") (auto simp: subs_of_def)
qed simp

lemma unsubscribe_loop_rest:
  "next_sub_id (unsubscribe_loop i tys b) = next_sub_id b"
  "set tys \<subseteq> dom (subscribers b) \<Longrightarrow> dom (subscribers (unsubscribe_loop i tys b)) = dom (subscribers b)"
  by (induction tys) auto

lemma unsubscribe_inv:
  assumes inv: "bus_inv b (n, bs)" and "enumerates order"
  shows "bus_inv (unsubscribe order b i) (book_step (n, bs) (Unsubscribe i))"
proof -
  let ?tys = "order (dom (subscribers b))"
  have tys: "set ?tys = dom (subscribers b)" using assms by (simp add: enumerates_def bus_inv_def)
  have subs: "subs_of (unsubscribe order b i) ty = filter (\<lambda>s. sub_id s \<noteq> i) (subs_of b ty)" for ty
    using unsubscribe_loop_subs [OF inv, of i ?tys ty] tys
    by (cases "subscribers b ty") (auto simp: unsubscribe_def subs_of_def domIff)
  have "mset (filter (\<lambda>s. sub_id s \<noteq> i) (subs_of b ty)) = booked (filter (\<lambda>x. sub_id (snd x) \<noteq> i) bs) ty" for ty
    using inv by (simp add: bus_inv_def booked_def filter_mset_image_mset filter_filter_mset conj_commute)
  then show ?thesis
    using inv unsubscribe_loop_rest [where i = i and tys = ?tys and b = b] tys distinct_map_filter [of "sub_id \<circ> snd" bs "\<lambda>x. sub_id (snd x) \<noteq> i"]
    by (auto simp: bus_inv_def subs unsubscribe_def [symmetric] sorted_wrt_filter)
qed

text \<open>
  After any calls a published event that is not cancelled is delivered to exactly the current
  subscribers of its type, each once, in descending order of priority.
\<close>

lemma bus_run_inv:
  assumes "sorts_desc so" and "enumerates order"
  shows "bus_inv b s \<Longrightarrow> bus_inv (foldl (bus_step so order) b cs) (foldl book_step s cs)"
proof (induction cs arbitrary: b s)
  case (Cons c cs)
  obtain n bs where s: "s = (n, bs)" by (cases s)
  have "bus_inv (bus_step so order b c) (book_step s c)"
  proof (cases c)
    case (Subscribe ty h p)
    then show ?thesis using subscribe_inv [OF _ assms(1)] Cons.prems s by simp
  next
    case (Unsubscribe i)
    then show ?thesis using unsubscribe_inv [OF _ assms(2)] Cons.prems s by simp
  next
    case Clear
    then show ?thesis using Cons.prems s by (simp add: bus_inv_def bus_clear_def subs_of_def booked_def)
  qed
  then show ?case using Cons.IH by simp
qed simp

lemma publish_delivers:
  assumes "sorts_desc so" and "enumerates order" and "foldl book_step (1, []) cs = (n, bs)" and "\<not> ev_cancelled e"
  defines "b \<equiv> foldl (bus_step so order) event_bus_init cs"
  shows "mset (fst (publish now b ty e)) = image_mset sub_handler (booked bs ty)"
    and "sorted_wrt (\<lambda>x y. sub_priority y \<le> sub_priority x) (subs_of b ty)"
proof -
  have "bus_inv event_bus_init (1, [])" by (simp add: bus_inv_def event_bus_init_def subs_of_def booked_def)
  from bus_run_inv [OF assms(1,2) this, of cs] have "bus_inv b (n, bs)" by (simp only: assms(3) b_def)
  then show "mset (fst (publish now b ty e)) = image_mset sub_handler (booked bs ty)"
    "sorted_wrt (\<lambda>x y. sub_priority y \<le> sub_priority x) (subs_of b ty)"
    using assms(4) by (simp_all add: bus_inv_def publish_def mset_map)
qed

section \<open>The events of the framework\<close>

datatype conn_change = CONNECT | DISCONNECT

datatype framework_event =
    ConnectionEvent conn_change "64 word" string
  | LoginEvent "64 word" string bool
  | ChatEvent string string string
  | EntityCreateEvent "64 word" "32 word" "32 word" "32 word"
  | EntityMoveEvent "64 word" "32 word" "32 word" "32 word" "32 word"
  | EntityDestroyEvent "64 word"

text \<open>The static type under which an event is published.\<close>

datatype event_class = ConnectionClass | LoginClass | ChatClass | EntityCreateClass | EntityMoveClass | EntityDestroyClass

fun class_of :: "framework_event \<Rightarrow> event_class" where
  "class_of (ConnectionEvent _ _ _) = ConnectionClass"
| "class_of (LoginEvent _ _ _) = LoginClass"
| "class_of (ChatEvent _ _ _) = ChatClass"
| "class_of (EntityCreateEvent _ _ _ _) = EntityCreateClass"
| "class_of (EntityMoveEvent _ _ _ _ _) = EntityMoveClass"
| "class_of (EntityDestroyEvent _) = EntityDestroyClass"

fun event_name :: "framework_event \<Rightarrow> string" where
  "event_name (ConnectionEvent t _ _) = (if t = CONNECT then ''ConnectionEvent:Connect'' else ''ConnectionEvent:Disconnect'')"
| "event_name (LoginEvent _ _ _) = ''LoginEvent''"
| "event_name (ChatEvent _ _ _) = ''ChatEvent''"
| "event_name (EntityCreateEvent _ _ _ _) = ''EntityCreateEvent''"
| "event_name (EntityMoveEvent _ _ _ _ _) = ''EntityMoveEvent''"
| "event_name (EntityDestroyEvent _) = ''EntityDestroyEvent''"

fun event_type_id :: "framework_event \<Rightarrow> int" where
  "event_type_id (ConnectionEvent _ _ _) = 1"
| "event_type_id (LoginEvent _ _ _) = 2"
| "event_type_id (ChatEvent _ _ _) = 3"
| "event_type_id (EntityCreateEvent _ _ _ _) = 10"
| "event_type_id (EntityMoveEvent _ _ _ _ _) = 11"
| "event_type_id (EntityDestroyEvent _) = 12"

text \<open>An event of one class with its header: the callbacks that run, an empty one excepted.\<close>

definition publish_event ::
  "int \<Rightarrow> (event_class, (framework_event \<Rightarrow> 'r) option) event_bus \<Rightarrow> framework_event \<Rightarrow> event \<Rightarrow> 'r list \<times> event" where
  "publish_event now b fe e =
     (case publish now b (class_of fe) e of (hs, e1) \<Rightarrow> (concat (map (\<lambda>h. case h of None \<Rightarrow> [] | Some f \<Rightarrow> [f fe]) hs), e1))"

lemma type_id_class: "event_type_id a = event_type_id b \<longleftrightarrow> class_of a = class_of b"
  by (cases a; cases b) simp_all

text \<open>A subscriber for one class sees every event of it that is not cancelled, and no event of another class.\<close>

lemma subscriber_sees_its_class:
  assumes "sorts_desc so" "\<not> ev_cancelled e"
  shows "f fe \<in> set (fst (publish_event now (snd (subscribe so event_bus_init (class_of fe) (Some f) p)) fe e))"
    and "class_of fe \<noteq> class_of fe' \<Longrightarrow> fst (publish_event now (snd (subscribe so event_bus_init (class_of fe) (Some f) p)) fe' e) = []"
proof -
  let ?s = "\<lparr>sub_id = 1, sub_priority = p, sub_handler = Some f\<rparr>"
  have "set (so [?s]) = {?s}" using assms(1) unfolding sorts_desc_def by (metis empty_set list.simps(15) mset_eq_setD)
  then have "Some f \<in> sub_handler ` set (so [?s])" by simp
  then show "f fe \<in> set (fst (publish_event now (snd (subscribe so event_bus_init (class_of fe) (Some f) p)) fe e))"
    using assms(2) by (force simp: publish_event_def publish_def subscribe_def event_bus_init_def subs_of_def Let_def)
  show "fst (publish_event now (snd (subscribe so event_bus_init (class_of fe) (Some f) p)) fe' e) = []" if "class_of fe \<noteq> class_of fe'"
    using that by (simp add: publish_event_def publish_def subscribe_def event_bus_init_def subs_of_def Let_def)
qed

end
