(* ===== verification/ConnectionPool.thy ===== *)
theory ConnectionPool
  imports Chwell_Prelude
begin

text \<open>
  \<^verbatim>\<open>net/connection_pool.{h,cpp}\<close>: a pool of TCP connections to one backend, the manager that keeps
  one pool per name, and the guard that gives a connection back.

  \<^verbatim>\<open>get_connection\<close> holds the pool's mutex only in two of its parts and connects in between without
  it; each part is one definition and \<open>conn_pool_step\<close> interleaves the parts of any number of threads.
  A \<^verbatim>\<open>TcpConnection\<close> object is its address (type \<open>handle\<close>); a callback is a number, \<open>None\<close> for an
  empty \<^verbatim>\<open>std::function\<close>. Calls of callbacks and of \<^verbatim>\<open>close\<close> are the events an operation returns.
  The results of the socket calls are the record \<open>connect_calls\<close>. The millisecond clock is read
  once per critical section, and setting the shutdown flag and the critical section that follows
  it are one step.
\<close>

section \<open>State\<close>

type_synonym handle = nat
type_synonym callback = "nat option"

record conn_config =
  cfg_host :: string
  cfg_port :: "16 word"
  min_connections :: int
  max_connections :: int
  connect_timeout_ms :: int
  idle_timeout_ms :: int
  max_lifetime_ms :: int

definition default_conn_config :: conn_config where
  "default_conn_config = \<lparr>cfg_host = [], cfg_port = 0, min_connections = 2, max_connections = 10,
     connect_timeout_ms = 5000, idle_timeout_ms = 300000, max_lifetime_ms = 0\<rparr>"

record pooled =
  connection :: "handle option"
  create_time :: int
  last_used_time :: int
  in_use :: bool
  is_valid :: bool

definition empty_pooled :: pooled where
  "empty_pooled = \<lparr>connection = None, create_time = 0, last_used_time = 0, in_use = False, is_valid = False\<rparr>"

record conn_pool =
  conn_config :: conn_config
  connections :: "pooled list"
  waiting_callbacks :: "callback list"
  shut_down :: bool
  pending_creates :: int

definition conn_pool_init :: "conn_config \<Rightarrow> conn_pool" where
  "conn_pool_init cfg = \<lparr>conn_config = cfg, connections = [], waiting_callbacks = [], shut_down = False,
     pending_creates = 0\<rparr>"

datatype pool_event =
    Called nat pooled   \<comment> \<open>a callback with its argument\<close>
  | BadFunctionCall     \<comment> \<open>a call of an empty \<^verbatim>\<open>std::function\<close> throws\<close>
  | CloseConn handle

fun invoke :: "callback \<Rightarrow> pooled \<Rightarrow> pool_event" where
  "invoke None c = BadFunctionCall"
| "invoke (Some k) c = Called k c"

fun close_connection :: "pooled \<Rightarrow> pool_event list" where
  "close_connection c = (case connection c of None \<Rightarrow> [] | Some h \<Rightarrow> [CloseConn h])"

section \<open>Opening a connection\<close>

text \<open>
  What the socket calls answer: \<open>poll_result\<close> depends on the timeout it is given; \<open>new_handle\<close> is the
  address of the object \<^verbatim>\<open>make_shared\<close> creates.
\<close>

record connect_calls =
  inet_pton_result :: int
  socket_fd :: int
  connect_result :: int
  connect_errno :: int
  poll_result :: "int \<Rightarrow> int"
  getsockopt_result :: int
  so_error :: int
  new_handle :: handle

definition EINPROGRESS :: int where
  "EINPROGRESS = 115"

text \<open>The result and the descriptor closed on the way, if any.\<close>

definition create_connection ::
    "conn_config \<Rightarrow> connect_calls \<Rightarrow> int \<Rightarrow> pooled option \<times> int option" where
  "create_connection cfg os now =
     (if cfg_host cfg = [] \<or> cfg_port cfg = 0 then (None, None)
      else if inet_pton_result os \<le> 0 then (None, None)
      else if socket_fd os < 0 then (None, None)
      else if connect_result os < 0 \<and> connect_errno os \<noteq> EINPROGRESS then (None, Some (socket_fd os))
      else if connect_result os < 0 \<and>
          poll_result os (if 0 < connect_timeout_ms cfg then connect_timeout_ms cfg else 5000) \<le> 0
        then (None, Some (socket_fd os))
      else if connect_result os < 0 \<and> (getsockopt_result os < 0 \<or> so_error os \<noteq> 0)
        then (None, Some (socket_fd os))
      else (Some \<lparr>connection = Some (new_handle os), create_time = now, last_used_time = now,
                  in_use = False, is_valid = True\<rparr>, None))"

section \<open>Pool operations\<close>

text \<open>\<^verbatim>\<open>init\<close>: one attempt per required connection, each with the answers \<open>oss i\<close> and clock \<open>now i\<close>.\<close>

fun init_attempts :: "conn_pool \<Rightarrow> (connect_calls \<times> int) list \<Rightarrow> conn_pool" where
  "init_attempts p [] = p"
| "init_attempts p ((os, now) # rest) =
     (case fst (create_connection (conn_config p) os now) of
        None \<Rightarrow> init_attempts p rest
      | Some c \<Rightarrow> init_attempts (p\<lparr>connections := connections p @ [c]\<rparr>) rest)"

definition pool_init :: "conn_pool \<Rightarrow> (nat \<Rightarrow> connect_calls \<times> int) \<Rightarrow> bool \<times> conn_pool" where
  "pool_init p oss =
     (if shut_down p then (False, p)
      else (True, init_attempts p (map oss [0..<nat (min_connections (conn_config p))])))"

fun call_waiting :: "callback list \<Rightarrow> pool_event list" where
  "call_waiting [] = []"
| "call_waiting (cb # cbs) = (if cb = None then [] else [invoke cb empty_pooled]) @ call_waiting cbs"

definition pool_shutdown :: "conn_pool \<Rightarrow> conn_pool \<times> pool_event list" where
  "pool_shutdown p =
     (if shut_down p then (p, [])
      else (p\<lparr>shut_down := True, connections := [], waiting_callbacks := []\<rparr>,
            concat (map close_connection (connections p)) @ call_waiting (waiting_callbacks p)))"

definition validate_connection :: "conn_config \<Rightarrow> int \<Rightarrow> pooled \<Rightarrow> bool \<times> pooled" where
  "validate_connection cfg now c =
     (if connection c = None \<or> \<not> is_valid c then (False, c)
      else if 0 < max_lifetime_ms cfg \<and> max_lifetime_ms cfg < now - create_time c
        then (False, c\<lparr>is_valid := False\<rparr>)
      else if \<not> in_use c \<and> idle_timeout_ms cfg < now - last_used_time c then (False, c\<lparr>is_valid := False\<rparr>)
      else (True, c))"

fun cleanup_expired :: "conn_config \<Rightarrow> int \<Rightarrow> pooled list \<Rightarrow> pooled list \<times> pool_event list" where
  "cleanup_expired cfg now [] = ([], [])"
| "cleanup_expired cfg now (c # cs) =
     (let (ok, c') = validate_connection cfg now c; (cs', evs) = cleanup_expired cfg now cs
      in if \<not> ok \<and> \<not> in_use c' then (cs', close_connection c' @ evs) else (c' # cs', evs))"

fun try_get_idle :: "conn_config \<Rightarrow> int \<Rightarrow> pooled list \<Rightarrow> pooled option \<times> pooled list" where
  "try_get_idle cfg now [] = (None, [])"
| "try_get_idle cfg now (c # cs) =
     (if \<not> in_use c \<and> is_valid c then
        (case validate_connection cfg now c of
           (True, c') \<Rightarrow>
             (let c'' = c'\<lparr>in_use := True, last_used_time := now\<rparr> in (Some c'', c'' # cs))
         | (False, c') \<Rightarrow> (let (r, cs') = try_get_idle cfg now cs in (r, c' # cs')))
      else (let (r, cs') = try_get_idle cfg now cs in (r, c # cs')))"

text \<open>
  The parts of \<^verbatim>\<open>get_connection\<close>: the test before the lock; the first critical section, whose last
  result says that the caller goes on to connect; the attempt with the decrement that follows it;
  the second critical section with the callback.
\<close>

definition get_enter :: "conn_pool \<Rightarrow> callback \<Rightarrow> pool_event list \<times> bool" where
  "get_enter p cb = (if shut_down p then ([invoke cb empty_pooled], False) else ([], True))"

definition pool_total :: "conn_pool \<Rightarrow> int" where
  "pool_total p = int (length (connections p)) + pending_creates p"

definition get_locked :: "conn_pool \<Rightarrow> callback \<Rightarrow> int \<Rightarrow> int \<Rightarrow> conn_pool \<times> pool_event list \<times> bool" where
  "get_locked p cb timeout_ms now =
     (let (cs, closed) = cleanup_expired (conn_config p) now (connections p);
          (found, cs') = try_get_idle (conn_config p) now cs;
          q = p\<lparr>connections := cs'\<rparr>
      in case found of
           Some c \<Rightarrow> (q, closed @ [invoke cb c], False)
         | None \<Rightarrow>
             if pool_total q < max_connections (conn_config q)
               then (q\<lparr>pending_creates := pending_creates q + 1\<rparr>, closed, True)
             else if timeout_ms \<noteq> 0
               then (q\<lparr>waiting_callbacks := waiting_callbacks q @ [cb]\<rparr>, closed, False)
             else (q, closed @ [invoke cb empty_pooled], False))"

definition get_create :: "conn_pool \<Rightarrow> callback \<Rightarrow> connect_calls \<Rightarrow> int \<Rightarrow>
    conn_pool \<times> pool_event list \<times> pooled option" where
  "get_create p cb os now =
     (let q = p\<lparr>pending_creates := pending_creates p - 1\<rparr>
      in case fst (create_connection (conn_config p) os now) of
           None \<Rightarrow> (q, [invoke cb empty_pooled], None)
         | Some c \<Rightarrow> (q, [], Some c))"

definition get_publish :: "conn_pool \<Rightarrow> callback \<Rightarrow> pooled \<Rightarrow> int \<Rightarrow> conn_pool \<times> pool_event list" where
  "get_publish p cb c now =
     (if shut_down p then (p, [invoke cb c])
      else let c' = c\<lparr>in_use := True, last_used_time := now\<rparr>
           in (p\<lparr>connections := connections p @ [c']\<rparr>, [invoke cb c']))"

text \<open>The whole function when no other thread runs: the clock shows \<open>t1\<close>, \<open>t2\<close>, \<open>t3\<close> in its parts.\<close>

definition get_connection :: "conn_pool \<Rightarrow> callback \<Rightarrow> int \<Rightarrow> connect_calls \<Rightarrow> int \<Rightarrow> int \<Rightarrow> int \<Rightarrow>
    conn_pool \<times> pool_event list" where
  "get_connection p cb timeout_ms os t1 t2 t3 =
     (let (evs0, enter) = get_enter p cb
      in if \<not> enter then (p, evs0)
         else let (p1, evs1, go) = get_locked p cb timeout_ms t1
              in if \<not> go then (p1, evs1)
                 else case get_create p1 cb os t2 of
                        (p2, evs2, None) \<Rightarrow> (p2, evs1 @ evs2)
                      | (p2, evs2, Some c) \<Rightarrow>
                          (let (p3, evs3) = get_publish p2 cb c t3 in (p3, evs1 @ evs2 @ evs3)))"

text \<open>
  \<^verbatim>\<open>get_connection_sync\<close> passes a callback that stores its argument and wakes the caller: \<open>None\<close> when
  that callback (number 0) has not been called on return, where the caller blocks.
\<close>

fun sync_result :: "pool_event list \<Rightarrow> pooled option" where
  "sync_result [] = None"
| "sync_result (e # es) = (case e of Called k c \<Rightarrow> if k = 0 then Some c else sync_result es | _ \<Rightarrow> sync_result es)"

definition get_connection_sync :: "conn_pool \<Rightarrow> int \<Rightarrow> connect_calls \<Rightarrow> int \<Rightarrow> int \<Rightarrow> int \<Rightarrow>
    conn_pool \<times> pooled option" where
  "get_connection_sync p timeout_ms os t1 t2 t3 =
     (let (p', evs) = get_connection p (Some 0) timeout_ms os t1 t2 t3 in (p', sync_result evs))"

text \<open>\<^verbatim>\<open>return_connection\<close>: the loop over the pool, then the reset of the argument, then one waiter.\<close>

fun give_back :: "handle \<Rightarrow> int \<Rightarrow> pooled list \<Rightarrow> pooled list \<times> pool_event list" where
  "give_back h now [] = ([], [])"
| "give_back h now (c # cs) =
     (if connection c = Some h then
        (c\<lparr>in_use := False, last_used_time := now\<rparr> # cs, if is_valid c then [] else close_connection c)
      else let (cs', evs) = give_back h now cs in (c # cs', evs))"

definition serve_waiter :: "conn_pool \<Rightarrow> int \<Rightarrow> conn_pool \<times> pool_event list" where
  "serve_waiter p now =
     (case waiting_callbacks p of
        [] \<Rightarrow> (p, [])
      | cb # cbs \<Rightarrow>
          (case try_get_idle (conn_config p) now (connections p) of
             (None, cs) \<Rightarrow> (p\<lparr>connections := cs\<rparr>, [])
           | (Some c, cs) \<Rightarrow> (p\<lparr>connections := cs, waiting_callbacks := cbs\<rparr>,
                              if cb = None then [] else [invoke cb c])))"

definition return_connection :: "conn_pool \<Rightarrow> pooled \<Rightarrow> int \<Rightarrow> conn_pool \<times> pooled \<times> pool_event list" where
  "return_connection p conn now =
     (case connection conn of
        None \<Rightarrow> (p, conn, [])
      | Some h \<Rightarrow>
          (let (cs, evs) = give_back h now (connections p);
               (p', evs') = serve_waiter (p\<lparr>connections := cs\<rparr>) now
           in (p', conn\<lparr>connection := None, is_valid := False\<rparr>, evs @ evs')))"

definition total_connections :: "conn_pool \<Rightarrow> int" where
  "total_connections p = int (length (connections p))"

definition idle_connections :: "conn_pool \<Rightarrow> int" where
  "idle_connections p = int (length (filter (\<lambda>c. \<not> in_use c \<and> is_valid c) (connections p)))"

definition active_connections :: "conn_pool \<Rightarrow> int" where
  "active_connections p = int (length (filter in_use (connections p)))"

text \<open>\<^verbatim>\<open>maybe_expand\<close>, a private function nothing calls: the test, and the body of the thread it starts.\<close>

definition maybe_expand :: "conn_pool \<Rightarrow> conn_pool \<times> bool" where
  "maybe_expand p =
     (if min_connections (conn_config p) \<le> pool_total p \<or> max_connections (conn_config p) \<le> pool_total p
        then (p, False)
      else (p\<lparr>pending_creates := pending_creates p + 1\<rparr>, True))"

definition expand_thread :: "conn_pool \<Rightarrow> connect_calls \<Rightarrow> int \<Rightarrow> conn_pool" where
  "expand_thread p os now =
     (let q = (case fst (create_connection (conn_config p) os now) of
                 None \<Rightarrow> p
               | Some c \<Rightarrow> if shut_down p then p else p\<lparr>connections := connections p @ [c]\<rparr>)
      in q\<lparr>pending_creates := pending_creates q - 1\<rparr>)"

section \<open>Manager and guard\<close>

text \<open>The manager's hash map is an association list in the order its walk visits it.\<close>

type_synonym pool_manager = "(string \<times> conn_pool) list"

definition find_pool :: "pool_manager \<Rightarrow> string \<Rightarrow> conn_pool option" where
  "find_pool m n = map_of m n"

definition get_or_create_pool :: "pool_manager \<Rightarrow> string \<Rightarrow> conn_config \<Rightarrow> (nat \<Rightarrow> connect_calls \<times> int) \<Rightarrow>
    pool_manager \<times> conn_pool option" where
  "get_or_create_pool m n cfg oss =
     (case map_of m n of
        Some p \<Rightarrow> (m, Some p)
      | None \<Rightarrow> (let (ok, p) = pool_init (conn_pool_init cfg) oss
                 in if ok then ((n, p) # m, Some p) else (m, None)))"

definition remove_pool :: "pool_manager \<Rightarrow> string \<Rightarrow> pool_manager \<times> pool_event list" where
  "remove_pool m n =
     (case map_of m n of
        None \<Rightarrow> (m, [])
      | Some p \<Rightarrow> (filter (\<lambda>e. fst e \<noteq> n) m, snd (pool_shutdown p)))"

definition shutdown_all :: "pool_manager \<Rightarrow> pool_manager \<times> pool_event list" where
  "shutdown_all m = ([], concat (map (\<lambda>e. snd (pool_shutdown (snd e))) m))"

text \<open>\<^verbatim>\<open>ConnectionGuard\<close>: whether it refers to the pool, and its copy of the connection. The
  assignment is between two different guards.\<close>

record conn_guard =
  guard_pool :: bool
  guard_conn :: pooled

definition guard_make :: "pooled \<Rightarrow> conn_guard" where
  "guard_make c = \<lparr>guard_pool = True, guard_conn = c\<rparr>"

definition guard_release :: "conn_pool \<Rightarrow> conn_guard \<Rightarrow> int \<Rightarrow> conn_pool \<times> conn_guard \<times> pool_event list" where
  "guard_release p g now =
     (let (p', c, evs) = (if guard_pool g \<and> connection (guard_conn g) \<noteq> None
                          then return_connection p (guard_conn g) now else (p, guard_conn g, []))
      in (p', \<lparr>guard_pool = False, guard_conn = c\<lparr>connection := None\<rparr>\<rparr>, evs))"

definition guard_move :: "conn_guard \<Rightarrow> conn_guard \<times> conn_guard" where
  "guard_move other = (other, other\<lparr>guard_pool := False\<rparr>)"

definition guard_assign :: "conn_pool \<Rightarrow> conn_guard \<Rightarrow> conn_guard \<Rightarrow> int \<Rightarrow>
    conn_pool \<times> conn_guard \<times> conn_guard \<times> pool_event list" where
  "guard_assign p g other now =
     (let (p', _, evs) = guard_release p g now in (p', other, other\<lparr>guard_pool := False\<rparr>, evs))"

definition guard_valid :: "conn_guard \<Rightarrow> bool" where
  "guard_valid g = (connection (guard_conn g) \<noteq> None \<and> is_valid (guard_conn g))"

section \<open>Threads\<close>

text \<open>
  Where a thread inside \<^verbatim>\<open>get_connection\<close> is between its parts. A world is the pool, these threads,
  and the leases: the connections callbacks have received and not given back. \<open>conn_pool_step\<close> runs one
  part of one thread; a client gives back only what it holds, and a new \<^verbatim>\<open>TcpConnection\<close> has an
  address that no live one has.
\<close>

datatype getter =
    Entered callback int
  | Connecting callback
  | Connected callback pooled

record pool_world =
  pool :: conn_pool
  getters :: "getter list"
  leases :: "handle list"

fun conn_handles :: "pooled list \<Rightarrow> handle list" where
  "conn_handles [] = []"
| "conn_handles (c # cs) = (case connection c of None \<Rightarrow> conn_handles cs | Some h \<Rightarrow> h # conn_handles cs)"

fun getter_conn :: "getter \<Rightarrow> pooled list" where
  "getter_conn (Connected cb c) = [c]"
| "getter_conn g = []"

definition held :: "getter list \<Rightarrow> handle list" where
  "held gs = conn_handles (concat (map getter_conn gs))"

fun called_conn :: "pool_event \<Rightarrow> pooled list" where
  "called_conn (Called k c) = [c]"
| "called_conn e = []"

definition lent :: "pool_event list \<Rightarrow> handle list" where
  "lent evs = conn_handles (concat (map called_conn evs))"

fun is_connecting :: "getter \<Rightarrow> bool" where
  "is_connecting (Connecting cb) = True"
| "is_connecting g = False"

definition fresh_handle :: "pool_world \<Rightarrow> handle \<Rightarrow> bool" where
  "fresh_handle w h = (h \<notin> set (leases w) \<union> set (held (getters w)) \<union> set (conn_handles (connections (pool w))))"

inductive conn_pool_step :: "pool_world \<Rightarrow> pool_event list \<Rightarrow> pool_world \<Rightarrow> bool" where
  step_enter: "get_enter (pool w) cb = (evs, go) \<Longrightarrow>
    conn_pool_step w evs (w\<lparr>getters := (if go then [Entered cb t] else []) @ getters w, leases := lent evs @ leases w\<rparr>)"
| step_lock: "getters w = xs @ Entered cb t # ys \<Longrightarrow> get_locked (pool w) cb t now = (p, evs, go) \<Longrightarrow>
    conn_pool_step w evs \<lparr>pool = p, getters = xs @ (if go then [Connecting cb] else []) @ ys,
      leases = lent evs @ leases w\<rparr>"
| step_connect: "getters w = xs @ Connecting cb # ys \<Longrightarrow> fresh_handle w (new_handle os) \<Longrightarrow>
    get_create (pool w) cb os now = (p, evs, r) \<Longrightarrow>
    conn_pool_step w evs \<lparr>pool = p, getters = xs @ (case r of None \<Rightarrow> [] | Some c \<Rightarrow> [Connected cb c]) @ ys,
      leases = lent evs @ leases w\<rparr>"
| step_publish: "getters w = xs @ Connected cb c # ys \<Longrightarrow> get_publish (pool w) cb c now = (p, evs) \<Longrightarrow>
    conn_pool_step w evs \<lparr>pool = p, getters = xs @ ys, leases = lent evs @ leases w\<rparr>"
| step_return: "connection c = Some h \<Longrightarrow> h \<in> set (leases w) \<Longrightarrow>
    return_connection (pool w) c now = (p, c', evs) \<Longrightarrow>
    conn_pool_step w evs \<lparr>pool = p, getters = getters w, leases = lent evs @ remove1 h (leases w)\<rparr>"
| step_init: "fresh_handle w (new_handle os) \<Longrightarrow>
    conn_pool_step w [] (w\<lparr>pool := init_attempts (pool w) [(os, now)]\<rparr>)"
| step_shutdown: "pool_shutdown (pool w) = (p, evs) \<Longrightarrow>
    conn_pool_step w evs \<lparr>pool = p, getters = getters w, leases = lent evs @ leases w\<rparr>"

inductive pool_reachable :: "conn_config \<Rightarrow> pool_world \<Rightarrow> bool" for cfg where
  start: "pool_reachable cfg \<lparr>pool = conn_pool_init cfg, getters = [], leases = []\<rparr>"
| step: "pool_reachable cfg w \<Longrightarrow> conn_pool_step w evs w' \<Longrightarrow> pool_reachable cfg w'"

section \<open>What the helpers keep\<close>

named_theorems pool_simps \<open>effects of the pool's helpers on the connections\<close>

lemma validate_keeps [pool_simps]:
  "connection (snd (validate_connection cfg now c)) = connection c"
  "in_use (snd (validate_connection cfg now c)) = in_use c"
  by (simp_all add: validate_connection_def)

lemma conn_handles_append [simp]: "conn_handles (cs @ ds) = conn_handles cs @ conn_handles ds"
  by (induction cs) (simp_all split: option.split)

lemma conn_handles_same: "map connection cs = map connection ds \<Longrightarrow> conn_handles cs = conn_handles ds"
proof (induction cs arbitrary: ds)
  case (Cons c cs)
  then show ?case by (cases ds) (auto split: option.split)
qed simp

lemma in_conn_handles: "h \<in> set (conn_handles cs) \<longleftrightarrow> (\<exists>c\<in>set cs. connection c = Some h)"
  by (induction cs) (auto split: option.split)

text \<open>No leased connection counts as idle.\<close>

definition lease_safe :: "handle set \<Rightarrow> pooled list \<Rightarrow> bool" where
  "lease_safe ls cs = (\<forall>c\<in>set cs. \<forall>h\<in>ls. connection c = Some h \<longrightarrow> in_use c)"

lemma lease_safe_simps [simp]:
  "lease_safe ls []"
  "lease_safe ls (c # cs) \<longleftrightarrow> (\<forall>h\<in>ls. connection c = Some h \<longrightarrow> in_use c) \<and> lease_safe ls cs"
  "lease_safe ls (cs @ ds) \<longleftrightarrow> lease_safe ls cs \<and> lease_safe ls ds"
  by (auto simp: lease_safe_def)

lemma lease_safe_mono: "lease_safe ls cs \<Longrightarrow> ms \<subseteq> ls \<Longrightarrow> lease_safe ms cs"
  by (auto simp: lease_safe_def)

lemma lease_safe_fresh: "lease_safe ls cs \<Longrightarrow> h \<notin> set (conn_handles cs) \<Longrightarrow> lease_safe (insert h ls) cs"
  by (auto simp: lease_safe_def in_conn_handles)

lemma cleanup_handles:
  "cleanup_expired cfg now cs = (cs', evs) \<Longrightarrow> distinct (conn_handles cs) \<Longrightarrow>
   distinct (conn_handles cs') \<and> set (conn_handles cs') \<subseteq> set (conn_handles cs)"
proof (induction cs arbitrary: cs' evs)
  case (Cons c cs)
  obtain ds es where d: "cleanup_expired cfg now cs = (ds, es)" by fastforce
  show ?case
    using Cons.prems Cons.IH [OF d] validate_keeps(1) [of cfg now c]
    by (auto simp: d Let_def split: prod.splits option.splits if_splits)
qed simp

lemma cleanup_safe: "cleanup_expired cfg now cs = (cs', evs) \<Longrightarrow> lease_safe ls cs \<Longrightarrow> lease_safe ls cs'"
proof (induction cs arbitrary: cs' evs)
  case (Cons c cs)
  obtain ds es where d: "cleanup_expired cfg now cs = (ds, es)" by fastforce
  show ?case
    using Cons.prems Cons.IH [OF d] validate_keeps [of cfg now c]
    by (auto simp: d Let_def split: prod.splits if_splits)
qed simp

lemma cleanup_length: "cleanup_expired cfg now cs = (cs', evs) \<Longrightarrow> length cs' \<le> length cs"
proof (induction cs arbitrary: cs' evs)
  case (Cons c cs)
  obtain ds es where d: "cleanup_expired cfg now cs = (ds, es)" by fastforce
  show ?case using Cons.prems Cons.IH [OF d] by (auto simp: d Let_def split: prod.splits if_splits)
qed simp

lemma idle_connections_same: "map connection (snd (try_get_idle cfg now cs)) = map connection cs"
proof (induction cs)
  case (Cons c cs)
  then show ?case
    using validate_keeps(1) [of cfg now c] by (auto simp: Let_def split: prod.splits bool.splits)
qed simp

lemma idle_handles: "try_get_idle cfg now cs = (r, cs') \<Longrightarrow> conn_handles cs' = conn_handles cs"
  using conn_handles_same [OF idle_connections_same [of cfg now cs]] by simp

lemma idle_length: "try_get_idle cfg now cs = (r, cs') \<Longrightarrow> length cs' = length cs"
  by (metis idle_connections_same length_map snd_conv)

lemma validate_connected: "validate_connection cfg now c = (True, c') \<Longrightarrow> c' = c \<and> (\<exists>h. connection c = Some h)"
  by (auto simp: validate_connection_def split: if_splits)

lemma idle_found:
  "try_get_idle cfg now cs = (Some c, cs') \<Longrightarrow> distinct (conn_handles cs) \<Longrightarrow> lease_safe ls cs \<Longrightarrow>
   \<exists>h. connection c = Some h \<and> h \<notin> ls \<and> h \<in> set (conn_handles cs) \<and> lease_safe (insert h ls) cs'"
proof (induction cs arbitrary: cs')
  case (Cons a cs)
  show ?case
  proof (cases "\<not> in_use a \<and> is_valid a \<and> fst (validate_connection cfg now a)")
    case True
    then obtain h where "validate_connection cfg now a = (True, a)" "connection a = Some h"
      using validate_connected [of cfg now a] by (cases "validate_connection cfg now a") auto
    then show ?thesis using Cons.prems True by (auto simp: Let_def lease_safe_fresh)
  next
    case False
    then obtain a' ds where d: "try_get_idle cfg now cs = (Some c, ds)" "cs' = a' # ds"
        "connection a' = connection a" "in_use a' = in_use a"
      using Cons.prems(1) validate_keeps [of cfg now a]
      by (auto split: if_splits prod.splits bool.splits)
    have "distinct (conn_handles cs)" "lease_safe ls cs" using Cons.prems by (auto split: option.splits)
    from Cons.IH [OF d(1) this] obtain h where h: "connection c = Some h" "h \<notin> ls" "h \<in> set (conn_handles cs)"
        "lease_safe (insert h ls) ds" by blast
    then have "connection a \<noteq> Some h" using Cons.prems(2) by (auto split: option.splits)
    then show ?thesis using h d Cons.prems(3) by (auto split: option.splits)
  qed
qed simp

lemma idle_not_found: "try_get_idle cfg now cs = (None, cs') \<Longrightarrow> lease_safe ls cs \<Longrightarrow> lease_safe ls cs'"
proof (induction cs arbitrary: cs')
  case (Cons a cs)
  then show ?case
    using validate_keeps [of cfg now a] by (auto simp: Let_def split: if_splits prod.splits bool.splits)
qed simp

lemma give_back_connections: "map connection (fst (give_back h now cs)) = map connection cs"
  by (induction cs) (auto split: prod.splits)

lemma give_back_handles: "give_back h now cs = (cs', evs) \<Longrightarrow> conn_handles cs' = conn_handles cs"
  using conn_handles_same [OF give_back_connections [of h now cs]] by simp

lemma give_back_length: "give_back h now cs = (cs', evs) \<Longrightarrow> length cs' = length cs"
  by (metis give_back_connections length_map fst_conv)

lemma give_back_safe: "give_back h now cs = (cs', evs) \<Longrightarrow> lease_safe ls cs \<Longrightarrow> lease_safe (ls - {h}) cs'"
proof (induction cs arbitrary: cs' evs)
  case (Cons c cs)
  then show ?case by (auto split: prod.splits if_splits intro: lease_safe_mono)
qed simp

section \<open>Leases are exclusive\<close>

text \<open>The invariant of the interleaved pool.\<close>

definition leases_ok :: "conn_pool \<Rightarrow> getter list \<Rightarrow> handle list \<Rightarrow> bool" where
  "leases_ok p gs ls =
     (distinct (conn_handles (connections p)) \<and> distinct ls \<and> distinct (held gs) \<and>
      set ls \<inter> set (held gs) = {} \<and> set (conn_handles (connections p)) \<inter> set (held gs) = {} \<and>
      lease_safe (set ls) (connections p) \<and> pending_creates p = int (length (filter is_connecting gs)))"

lemma held_simps [simp]:
  "held [] = []"
  "held (g # gs) = conn_handles (getter_conn g) @ held gs"
  "held (gs @ hs) = held gs @ held hs"
  by (simp_all add: held_def)

lemma lent_simps [simp]:
  "lent [] = []"
  "lent (e # es) = conn_handles (called_conn e) @ lent es"
  "lent (es @ fs) = lent es @ lent fs"
  by (simp_all add: lent_def)

lemma lent_empty_call [simp]: "conn_handles (called_conn (invoke cb empty_pooled)) = []"
  by (cases cb) (simp_all add: empty_pooled_def)

lemma lent_call: "conn_handles (called_conn (invoke cb c)) = (if cb = None then [] else conn_handles [c])"
  by (cases cb) simp_all

lemma lent_close [simp]: "lent (close_connection c) = []"
  by (simp split: option.split)

lemma lent_closes [simp]: "lent (concat (map close_connection cs)) = []"
  by (induction cs) (simp_all del: close_connection.simps)

lemma lent_waiting [simp]: "lent (call_waiting cbs) = []"
  by (induction cbs) simp_all

lemma lent_cleanup [simp]: "cleanup_expired cfg now cs = (cs', evs) \<Longrightarrow> lent evs = []"
proof (induction cs arbitrary: cs' evs)
  case (Cons c cs)
  obtain ds es where d: "cleanup_expired cfg now cs = (ds, es)" by fastforce
  show ?case
    using Cons.prems Cons.IH [OF d]
    by (auto simp: d Let_def simp del: close_connection.simps split: prod.splits if_splits)
qed simp

lemma lent_give_back [simp]: "give_back h now cs = (cs', evs) \<Longrightarrow> lent evs = []"
  by (induction cs arbitrary: cs' evs) (auto simp del: close_connection.simps split: prod.splits if_splits)

text \<open>A connection found idle goes to at most one more holder.\<close>

lemma lease_ok_found:
  assumes "leases_ok p gs ls" "try_get_idle cfg now (connections p) = (Some c, cs)"
  shows "leases_ok (p\<lparr>connections := cs\<rparr>) gs ((if deliver then conn_handles [c] else []) @ ls)"
proof -
  have d: "distinct (conn_handles (connections p))" "lease_safe (set ls) (connections p)"
    using assms(1) by (simp_all add: leases_ok_def)
  obtain h where h: "connection c = Some h" "h \<notin> set ls" "h \<in> set (conn_handles (connections p))"
      "lease_safe (insert h (set ls)) cs"
    using idle_found [OF assms(2) d] by blast
  moreover have "lease_safe (set ls) cs" using h(4) by (rule lease_safe_mono) auto
  ultimately show ?thesis
    using assms(1) idle_handles [OF assms(2)] by (auto simp: leases_ok_def)
qed

lemma lease_ok_not_found:
  assumes "leases_ok p gs ls" "try_get_idle cfg now (connections p) = (None, cs)"
  shows "leases_ok (p\<lparr>connections := cs\<rparr>) gs ls"
  using assms(1) idle_handles [OF assms(2)] idle_not_found [OF assms(2)] by (simp add: leases_ok_def)

lemma lease_ok_cleanup:
  assumes "leases_ok p gs ls" "cleanup_expired cfg now (connections p) = (cs, evs)"
  shows "leases_ok (p\<lparr>connections := cs\<rparr>) gs ls"
  using assms(1) cleanup_handles [OF assms(2)] cleanup_safe [OF assms(2)] by (auto simp: leases_ok_def)

lemma lease_ok_give_back:
  assumes "leases_ok p gs ls" "give_back h now (connections p) = (cs, evs)" "h \<in> set ls"
  shows "leases_ok (p\<lparr>connections := cs\<rparr>) gs (remove1 h ls)"
  using assms(1) give_back_handles [OF assms(2)] give_back_safe [OF assms(2)]
  by (auto simp: leases_ok_def set_remove1_eq)

lemma lease_ok_serve:
  assumes "leases_ok p gs ls" "serve_waiter p now = (p', evs)"
  shows "leases_ok p' gs (lent evs @ ls)"
proof (cases "waiting_callbacks p")
  case (Cons cb cbs)
  obtain r cs where r: "try_get_idle (conn_config p) now (connections p) = (r, cs)" by fastforce
  have keep: "leases_ok (q\<lparr>waiting_callbacks := cbs\<rparr>) gs ms = leases_ok q gs ms" for q ms
    by (simp add: leases_ok_def)
  show ?thesis
  proof (cases r)
    case None
    then show ?thesis using assms Cons r lease_ok_not_found [OF assms(1)] by (auto simp: serve_waiter_def)
  next
    case (Some c)
    note f = lease_ok_found [OF assms(1) r [unfolded Some], of "cb \<noteq> None"]
    have "p' = p\<lparr>connections := cs\<rparr>\<lparr>waiting_callbacks := cbs\<rparr>"
      "lent evs = (if cb \<noteq> None then conn_handles [c] else [])"
      using assms(2) Cons r Some by (auto simp: serve_waiter_def lent_call)
    then show ?thesis using f by (simp only: keep)
  qed
next
  case Nil
  then show ?thesis using assms by (simp add: serve_waiter_def)
qed

lemma created_handle:
  "fst (create_connection cfg os now) = Some c \<Longrightarrow> connection c = Some (new_handle os) \<and> \<not> in_use c"
  by (auto simp: create_connection_def split: if_splits)

lemma lease_ok_locked:
  assumes "leases_ok p (xs @ Entered cb t # ys) ls" "get_locked p cb t now = (p', evs, go)"
  shows "leases_ok p' (xs @ (if go then [Connecting cb] else []) @ ys) (lent evs @ ls)"
proof -
  obtain cs closed where c: "cleanup_expired (conn_config p) now (connections p) = (cs, closed)" by fastforce
  obtain found ds where f: "try_get_idle (conn_config p) now cs = (found, ds)" by fastforce
  let ?q = "p\<lparr>connections := cs\<rparr>"
  have q: "leases_ok ?q (xs @ ys) ls"
    using lease_ok_cleanup [OF assms(1) c] by (simp add: leases_ok_def)
  show ?thesis
  proof (cases found)
    case (Some d)
    have f': "try_get_idle (conn_config p) now (connections ?q) = (Some d, ds)" using f Some by simp
    show ?thesis
      using lease_ok_found [OF q f', of "cb \<noteq> None"] assms(2) c f Some
      by (auto simp: get_locked_def lent_call split: if_splits)
  next
    case None
    have f': "try_get_idle (conn_config p) now (connections ?q) = (None, ds)" using f None by simp
    show ?thesis
      using lease_ok_not_found [OF q f'] assms(2) c f None
      by (auto simp: get_locked_def Let_def leases_ok_def split: if_splits)
  qed
qed

lemma lease_ok_create:
  assumes "leases_ok p (xs @ Connecting cb # ys) ls" "get_create p cb os now = (p', evs, r)"
    "new_handle os \<notin> set ls \<union> set (held (xs @ ys)) \<union> set (conn_handles (connections p))"
  shows "leases_ok p' (xs @ (case r of None \<Rightarrow> [] | Some c \<Rightarrow> [Connected cb c]) @ ys) (lent evs @ ls)"
  using assms created_handle [of "conn_config p" os now]
  by (auto simp: get_create_def leases_ok_def Let_def split: option.splits)

lemma lease_ok_publish:
  assumes "leases_ok p (xs @ Connected cb c # ys) ls" "get_publish p cb c now = (p', evs)"
  shows "leases_ok p' (xs @ ys) (lent evs @ ls)"
proof (cases "connection c")
  case None
  then show ?thesis using assms by (auto simp: get_publish_def leases_ok_def lent_call Let_def split: if_splits)
next
  case (Some h)
  have "h \<notin> set (conn_handles (connections p))" "h \<notin> set ls" "h \<notin> set (held (xs @ ys))"
    using assms(1) Some by (auto simp: leases_ok_def)
  then show ?thesis
    using assms Some
    by (auto simp: get_publish_def leases_ok_def lent_call Let_def lease_safe_fresh split: if_splits)
qed

lemma lease_ok_return:
  assumes "leases_ok p gs ls" "connection c = Some h" "h \<in> set ls" "return_connection p c now = (p', c', evs)"
  shows "leases_ok p' gs (lent evs @ remove1 h ls)"
proof -
  obtain cs evs1 where g: "give_back h now (connections p) = (cs, evs1)" by fastforce
  obtain q evs2 where s: "serve_waiter (p\<lparr>connections := cs\<rparr>) now = (q, evs2)" by fastforce
  have "p' = q" "evs = evs1 @ evs2" using assms(2,4) g s by (auto simp: return_connection_def)
  then show ?thesis
    using lease_ok_serve [OF lease_ok_give_back [OF assms(1) g assms(3)] s] lent_give_back [OF g] by simp
qed

lemma lease_ok_step:
  "conn_pool_step w evs w' \<Longrightarrow> leases_ok (pool w) (getters w) (leases w) \<Longrightarrow> leases_ok (pool w') (getters w') (leases w')"
proof (induction rule: conn_pool_step.induct)
  case (step_enter w cb evs go t)
  then show ?case by (auto simp: get_enter_def leases_ok_def split: if_splits)
next
  case (step_lock w xs cb t ys now p evs go)
  then show ?case using lease_ok_locked [of "pool w" xs cb t ys "leases w" now p evs go] by simp
next
  case (step_connect w xs cb ys os now p evs r)
  then show ?case
    using lease_ok_create [of "pool w" xs cb ys "leases w" os now p evs r] by (simp add: fresh_handle_def)
next
  case (step_publish w xs cb c ys now p evs)
  then show ?case using lease_ok_publish [of "pool w" xs cb c ys "leases w" now p evs] by simp
next
  case (step_return c h w now p c' evs)
  then show ?case using lease_ok_return [of "pool w" "getters w" "leases w" c h now p c' evs] by simp
next
  case (step_init w os now)
  then show ?case
    using created_handle [of "conn_config (pool w)" os now]
    by (auto simp: leases_ok_def fresh_handle_def split: option.splits)
next
  case (step_shutdown w p evs)
  then show ?case by (auto simp: pool_shutdown_def leases_ok_def split: if_splits)
qed

lemma lease_ok_reachable: "pool_reachable cfg w \<Longrightarrow> leases_ok (pool w) (getters w) (leases w)"
proof (induction rule: pool_reachable.induct)
  case start
  then show ?case by (simp add: leases_ok_def conn_pool_init_def)
next
  case (step w evs w')
  then show ?case by (blast intro: lease_ok_step)
qed

section \<open>Size of the pool\<close>

text \<open>A client that calls the pool from one thread.\<close>

datatype conn_pool_call =
    Get callback int connect_calls int int int
  | Return pooled int
  | Shutdown

fun run_call :: "conn_pool_call \<Rightarrow> conn_pool \<Rightarrow> conn_pool" where
  "run_call (Get cb timeout_ms os t1 t2 t3) p = fst (get_connection p cb timeout_ms os t1 t2 t3)"
| "run_call (Return c now) p = fst (return_connection p c now)"
| "run_call Shutdown p = fst (pool_shutdown p)"

definition within :: "conn_config \<Rightarrow> int \<Rightarrow> conn_pool \<Rightarrow> bool" where
  "within cfg b p = (conn_config p = cfg \<and> pending_creates p = 0 \<and> int (length (connections p)) \<le> b)"

lemma within_get:
  assumes "within cfg b p" "max_connections cfg \<le> b"
  shows "within cfg b (fst (get_connection p cb timeout_ms os t1 t2 t3))"
proof -
  obtain cs closed where c: "cleanup_expired (conn_config p) t1 (connections p) = (cs, closed)" by fastforce
  obtain found ds where f: "try_get_idle (conn_config p) t1 cs = (found, ds)" by fastforce
  have "length ds \<le> length (connections p)" using cleanup_length [OF c] idle_length [OF f] by simp
  then show ?thesis
    using assms c f
    by (auto simp: within_def get_connection_def get_enter_def get_locked_def get_create_def get_publish_def
        pool_total_def Let_def split: option.splits prod.splits if_splits)
qed

lemma within_return:
  assumes "within cfg b p"
  shows "within cfg b (fst (return_connection p c now))"
proof (cases "connection c")
  case (Some h)
  obtain cs evs where g: "give_back h now (connections p) = (cs, evs)" by fastforce
  obtain found ds where f: "try_get_idle (conn_config p) now cs = (found, ds)" by fastforce
  show ?thesis
    using assms Some g f give_back_length [OF g] idle_length [OF f]
    by (auto simp: within_def return_connection_def serve_waiter_def split: list.splits option.splits)
qed (use assms in \<open>simp add: return_connection_def\<close>)

lemma within_call:
  assumes "within cfg b p" "max_connections cfg \<le> b" "0 \<le> b"
  shows "within cfg b (run_call call p)"
proof (cases call)
  case (Get cb timeout_ms os t1 t2 t3)
  then show ?thesis using within_get [OF assms(1,2)] by simp
next
  case (Return c now)
  then show ?thesis using within_return [OF assms(1)] by simp
next
  case Shutdown
  then show ?thesis using assms by (simp add: within_def pool_shutdown_def)
qed

lemma within_init:
  "conn_config p = cfg \<Longrightarrow> pending_creates p = 0 \<Longrightarrow>
   within cfg (int (length (connections p)) + int (length as)) (init_attempts p as)"
proof (induction p as rule: init_attempts.induct)
  case (2 p os now rest)
  show ?case
  proof (cases "fst (create_connection (conn_config p) os now)")
    case None
    then show ?thesis using 2 by (fastforce simp: within_def)
  next
    case (Some c)
    then show ?thesis using 2 by (fastforce simp: within_def)
  qed
qed (simp add: within_def)

lemma within_calls:
  "within cfg b p \<Longrightarrow> max_connections cfg \<le> b \<Longrightarrow> 0 \<le> b \<Longrightarrow> within cfg b (fold run_call calls p)"
  by (induction calls arbitrary: p) (simp_all add: within_call)

section \<open>Waiting callers\<close>

text \<open>What makes a pooled connection usable at a time.\<close>

definition usable :: "conn_config \<Rightarrow> int \<Rightarrow> pooled \<Rightarrow> bool" where
  "usable cfg now c =
     (connection c \<noteq> None \<and> is_valid c \<and> (0 < max_lifetime_ms cfg \<longrightarrow> now - create_time c \<le> max_lifetime_ms cfg))"

lemma idle_some_usable:
  assumes "c \<in> set cs" "\<not> in_use c" "usable cfg now c" "now - last_used_time c \<le> idle_timeout_ms cfg"
  shows "\<exists>d cs'. try_get_idle cfg now cs = (Some d, cs') \<and> in_use d \<and> is_valid d"
  using assms(1)
proof (induction cs)
  case (Cons a cs)
  have v: "validate_connection cfg now c = (True, c)"
    using assms(2-4) by (auto simp: validate_connection_def usable_def)
  show ?case
  proof (cases "\<not> in_use a \<and> is_valid a \<and> fst (validate_connection cfg now a)")
    case True
    then show ?thesis
      using validate_connected [of cfg now a]
      by (cases "validate_connection cfg now a") (auto simp: Let_def)
  next
    case False
    then have "a \<noteq> c" using v assms(2,3) by (auto simp: usable_def)
    then obtain d cs' where "try_get_idle cfg now cs = (Some d, cs')" "in_use d" "is_valid d"
      using Cons by auto
    then show ?thesis using False by (auto simp: Let_def split: prod.splits bool.splits)
  qed
qed simp

lemma give_back_frees:
  "c \<in> set cs \<Longrightarrow> connection c = Some h \<Longrightarrow> distinct (conn_handles cs) \<Longrightarrow>
   c\<lparr>in_use := False, last_used_time := now\<rparr> \<in> set (fst (give_back h now cs))"
proof (induction cs)
  case (Cons a cs)
  then show ?case
    by (auto simp: in_conn_handles split: option.splits prod.splits)
qed simp

section \<open>Findings\<close>

text \<open>
  The counter of attempts under way is decremented before the new connection enters the pool: a
  second caller in between sees room for one more.
\<close>

definition one_config :: conn_config where
  "one_config = default_conn_config\<lparr>cfg_host := ''10.0.0.1'', cfg_port := 80, max_connections := 1\<rparr>"

definition connects :: "handle \<Rightarrow> connect_calls" where
  "connects h = \<lparr>inet_pton_result = 1, socket_fd = 5, connect_result = 0, connect_errno = 0,
     poll_result = (\<lambda>_. 1), getsockopt_result = 0, so_error = 0, new_handle = h\<rparr>"

definition used :: "handle \<Rightarrow> bool \<Rightarrow> pooled" where
  "used h u = \<lparr>connection = Some h, create_time = 0, last_used_time = 0, in_use = u, is_valid = True\<rparr>"

definition two_lent :: pool_world where
  "two_lent = \<lparr>pool = (conn_pool_init one_config)\<lparr>connections := [used 1 True, used 2 True]\<rparr>, getters = [], leases = [2, 1]\<rparr>"

lemma two_lent_reachable: "pool_reachable one_config two_lent"
proof -
  let ?c = used
  let ?p = "\<lambda>cs n. \<lparr>conn_config = one_config, connections = cs, waiting_callbacks = [], shut_down = False,
      pending_creates = n\<rparr>"
  let ?w = "\<lambda>cs n gs ls. \<lparr>pool = ?p cs n, getters = gs, leases = ls\<rparr>"
  have cr: "fst (create_connection one_config (connects h) 0) = Some (?c h False)" for h
    by (simp add: create_connection_def connects_def used_def one_config_def default_conn_config_def)
  have lock: "get_locked (?p [] 0) cb 1 0 = (?p [] 1, [], True)" for cb
    by (simp add: get_locked_def pool_total_def one_config_def default_conn_config_def)
  have mk: "get_create (?p [] 1) cb (connects h) 0 = (?p [] 0, [], Some (?c h False))" for cb h
    using cr by (simp add: get_create_def)
  have pub: "get_publish (?p cs 0) (Some k) (?c h False) 0 = (?p (cs @ [?c h True]) 0, [Called k (?c h True)])" for cs k h
    by (simp add: get_publish_def used_def Let_def)
  have r0: "pool_reachable one_config (?w [] 0 [] [])"
    using pool_reachable.start by (simp add: conn_pool_init_def)
  have r1: "pool_reachable one_config (?w [] 0 [Entered (Some 1) 1] [])"
    using pool_reachable.step [OF r0 step_enter [of _ "Some 1" "[]" True 1]] by (simp add: get_enter_def)
  have r2: "pool_reachable one_config (?w [] 1 [Connecting (Some 1)] [])"
    using pool_reachable.step [OF r1 step_lock [of _ "[]" "Some 1" 1 "[]" 0]] lock by simp
  have r3: "pool_reachable one_config (?w [] 0 [Connected (Some 1) (?c 1 False)] [])"
    using pool_reachable.step [OF r2 step_connect [of _ "[]" "Some 1" "[]" "connects 1" 0]] mk
    by (simp add: fresh_handle_def)
  have r4: "pool_reachable one_config (?w [] 0 [Entered (Some 2) 1, Connected (Some 1) (?c 1 False)] [])"
    using pool_reachable.step [OF r3 step_enter [of _ "Some 2" "[]" True 1]] by (simp add: get_enter_def)
  have r5: "pool_reachable one_config (?w [] 1 [Connecting (Some 2), Connected (Some 1) (?c 1 False)] [])"
    using pool_reachable.step [OF r4 step_lock [of _ "[]" "Some 2" 1 "[Connected (Some 1) (?c 1 False)]" 0]] lock
    by simp
  have r6: "pool_reachable one_config
      (?w [] 0 [Connected (Some 2) (?c 2 False), Connected (Some 1) (?c 1 False)] [])"
    using pool_reachable.step [OF r5 step_connect
        [of _ "[]" "Some 2" "[Connected (Some 1) (?c 1 False)]" "connects 2" 0]] mk
    by (simp add: fresh_handle_def connects_def used_def)
  have r7: "pool_reachable one_config (?w [?c 1 True] 0 [Connected (Some 2) (?c 2 False)] [1])"
    using pool_reachable.step [OF r6 step_publish
        [of _ "[Connected (Some 2) (?c 2 False)]" "Some 1" "?c 1 False" "[]" 0]] pub by (simp add: used_def)
  have r8: "pool_reachable one_config (?w [?c 1 True, ?c 2 True] 0 [] [2, 1])"
    using pool_reachable.step [OF r7 step_publish [of _ "[]" "Some 2" "?c 2 False" "[]" 0]] pub by (simp add: used_def)
  then show ?thesis by (simp add: two_lent_def conn_pool_init_def)
qed

lemma max_connections_exceeded:
  "\<exists>w. pool_reachable one_config w \<and> max_connections one_config < total_connections (pool w) \<and> length (leases w) = 2"
  by (rule exI [of _ two_lent])
    (simp add: two_lent_reachable, simp add: two_lent_def total_connections_def one_config_def
      default_conn_config_def conn_pool_init_def)

text \<open>
  The timeout is only compared with 0: a caller that has to wait stays queued whatever time passes,
  and the blocking variant does not return.
\<close>

lemma sync_result_append: "sync_result (xs @ ys) = (case sync_result xs of None \<Rightarrow> sync_result ys | Some c \<Rightarrow> Some c)"
  by (induction xs) (auto split: pool_event.split)

lemma sync_close [simp]: "sync_result (close_connection c) = None"
  by (simp split: option.split)

lemma sync_cleanup: "cleanup_expired cfg now cs = (cs', evs) \<Longrightarrow> sync_result evs = None"
proof (induction cs arbitrary: cs' evs)
  case (Cons c cs)
  obtain ds es where d: "cleanup_expired cfg now cs = (ds, es)" by fastforce
  show ?case
    using Cons.prems Cons.IH [OF d]
    by (auto simp: d Let_def sync_result_append simp del: close_connection.simps split: prod.splits if_splits)
qed simp

lemma sync_waits_without_limit:
  assumes "\<not> shut_down p" "timeout_ms \<noteq> 0" "cleanup_expired (conn_config p) t1 (connections p) = (ds, closed)"
    "try_get_idle (conn_config p) t1 ds = (None, cs)"
    "max_connections (conn_config p) \<le> int (length cs) + pending_creates p"
  shows "snd (get_connection_sync p timeout_ms os t1 t2 t3) = None"
  using assms sync_cleanup [OF assms(3)]
  by (auto simp: get_connection_sync_def get_connection_def get_enter_def get_locked_def pool_total_def Let_def)

text \<open>
  A connection that has passed its lifetime is given back while a caller waits: the caller stays in
  the queue although the pool holds no usable connection, and only a further return or the shutdown
  would look at the queue again.
\<close>

lemma expired_return_strands_waiter:
  assumes "connections p = [c]" "connection c = Some h" "waiting_callbacks p = cb # cbs"
    "0 < max_lifetime_ms (conn_config p)" "max_lifetime_ms (conn_config p) < now - create_time c"
  shows "waiting_callbacks (fst (return_connection p c now)) = cb # cbs \<and>
    idle_connections (fst (return_connection p c now)) = 0 \<and>
    active_connections (fst (return_connection p c now)) = 0"
  using assms
  by (auto simp: return_connection_def serve_waiter_def validate_connection_def idle_connections_def
      active_connections_def split: list.splits prod.splits)

text \<open>
  A client that returns a copy of a connection it has already returned frees the connection of the
  caller that holds it now: the next caller gets it too.
\<close>

lemma double_return_shares:
  fixes p defines "p \<equiv> (conn_pool_init one_config)\<lparr>connections := [used 1 True]\<rparr>"
  defines "q \<equiv> fst (return_connection p (used 1 True) 0)"
  defines "r \<equiv> fst (return_connection (fst (get_connection q (Some 1) 0 (connects 7) 0 0 0)) (used 1 True) 0)"
  shows "lent (snd (get_connection q (Some 1) 0 (connects 7) 0 0 0)) = [1] \<and>
    lent (snd (get_connection r (Some 2) 0 (connects 7) 0 0 0)) = [1]"
  by (simp add: assms used_def return_connection_def serve_waiter_def conn_pool_init_def get_connection_def
      get_enter_def get_locked_def validate_connection_def one_config_def default_conn_config_def Let_def)

text \<open>A failed attempt leaves no descriptor open, and a successful one closes none.\<close>

lemma create_connection_descriptors:
  assumes "create_connection cfg os now = (r, closed)"
  shows "(r \<noteq> None \<longrightarrow> closed = None) \<and>
    (r = None \<and> cfg_host cfg \<noteq> [] \<and> cfg_port cfg \<noteq> 0 \<and> 0 < inet_pton_result os \<and> 0 \<le> socket_fd os
       \<longrightarrow> closed = Some (socket_fd os))"
  using assms by (auto simp: create_connection_def split: if_splits)

text \<open>A guard gives its connection back once, and a guard that was moved from never does.\<close>

lemma guard_releases_once:
  "guard_release q (fst (snd (guard_release p g now))) now' = (q, fst (snd (guard_release p g now)), [])"
  "fst (guard_release q (snd (guard_move g)) now') = q"
  by (auto simp: guard_release_def guard_move_def Let_def split: prod.splits)

section \<open>Properties\<close>

text \<open>
  C11. Whatever the interleaving of callers, returns, pre-creation and shutdown, no connection is
  lent to two holders at once, every lent connection still in the pool is marked as in use, and the
  counter of attempts under way is the number of threads that are connecting.
\<close>

theorem pool_leases_exclusive:
  assumes "pool_reachable cfg w"
  shows "distinct (leases w) \<and>
    (\<forall>c\<in>set (connections (pool w)). \<forall>h. connection c = Some h \<and> h \<in> set (leases w) \<longrightarrow> in_use c) \<and>
    pending_creates (pool w) = int (length (filter is_connecting (getters w)))"
  using lease_ok_reachable [OF assms] by (auto simp: leases_ok_def lease_safe_def)

theorem pool_leases_exclusive_witness:
  "pool_reachable one_config two_lent \<and> distinct (leases two_lent) \<and> leases two_lent = [2, 1] \<and>
   list_all in_use (connections (pool two_lent)) \<and> pending_creates (pool two_lent) = 0"
proof -
  note w = pool_leases_exclusive [OF two_lent_reachable]
  have "set (connections (pool two_lent)) = {used 1 True, used 2 True}" "leases two_lent = [2, 1]"
      "getters two_lent = []" "connection (used h u) = Some h" for h u
    by (simp_all add: two_lent_def used_def)
  with w two_lent_reachable show ?thesis by (simp add: list_all_iff)
qed

text \<open>
  Called from one thread, the pool never holds more connections than the larger of
  \<^verbatim>\<open>min_connections\<close>, which \<^verbatim>\<open>init\<close> creates without looking at the maximum, and
  \<^verbatim>\<open>max_connections\<close>; no attempt stays counted.
\<close>

lemma pool_size_bounded:
  "let p = fold run_call calls (snd (pool_init (conn_pool_init cfg) oss))
   in total_connections p \<le> max 0 (max (min_connections cfg) (max_connections cfg)) \<and> pending_creates p = 0"
proof -
  let ?p = "fold run_call calls (snd (pool_init (conn_pool_init cfg) oss))"
  let ?b = "max 0 (max (min_connections cfg) (max_connections cfg))"
  have "within cfg ?b (snd (pool_init (conn_pool_init cfg) oss))"
    using within_init [of "conn_pool_init cfg" cfg "map oss [0..<nat (min_connections cfg)]"]
    by (auto simp: pool_init_def conn_pool_init_def within_def max_def split: if_splits)
  then have "within cfg ?b ?p" by (intro within_calls) auto
  then show ?thesis by (simp add: within_def total_connections_def Let_def)
qed

text \<open>
  Giving back a connection that is valid and within its lifetime serves the caller that has
  waited longest: its callback is called with a connection that is marked as in use, and it leaves
  the queue.
\<close>

lemma return_serves_waiter:
  assumes "c \<in> set (connections p)" "connection c = Some h" "connection conn = Some h"
    "distinct (conn_handles (connections p))" "usable (conn_config p) now c" "0 \<le> idle_timeout_ms (conn_config p)"
    "waiting_callbacks p = Some k # cbs"
  shows "\<exists>p' conn' evs d. return_connection p conn now = (p', conn', evs @ [Called k d]) \<and> in_use d \<and> is_valid d \<and>
    waiting_callbacks p' = cbs"
proof -
  obtain cs evs where g: "give_back h now (connections p) = (cs, evs)" by fastforce
  let ?c = "c\<lparr>in_use := False, last_used_time := now\<rparr>"
  have "?c \<in> set cs" using give_back_frees [OF assms(1,2,4), of now] g by simp
  moreover have "usable (conn_config p) now ?c" using assms(5) by (simp add: usable_def)
  ultimately obtain d ds where "try_get_idle (conn_config p) now cs = (Some d, ds)" "in_use d" "is_valid d"
    using idle_some_usable [of ?c cs "conn_config p" now] assms(6) by auto
  then show ?thesis using assms(3,7) g by (simp add: return_connection_def serve_waiter_def)
qed

end
