(* ===== verification/Rpc.thy ===== *)
theory Rpc
  imports Protocol CircuitBreaker RateLimiter "HOL-Library.Multiset"
begin

text \<open>
  \<^verbatim>\<open>rpc/rpc_client.{h,cpp}\<close> and \<^verbatim>\<open>rpc/rpc_server.{h,cpp}\<close>: calls matched to responses by a four-byte
  request id in front of the body. The client composes the circuit breaker, a rate limiter and the
  message format; the server dispatches to registered methods. Both keep their own receive buffer
  and run a fresh parser over it at each read.

  The rate limiter is an abstract class: its two virtual functions are the record \<open>limiter\<close>, with
  the clock inside. A method of the server is a function of the request and of a state \<open>'s\<close> that all
  methods share. The walk over the hash map of pending requests has no fixed order; the list keeps
  the order of the calls.
\<close>

section \<open>Bodies with a request id\<close>

definition encode_rpc_body :: "32 word \<Rightarrow> bytes \<Rightarrow> bytes" where
  "encode_rpc_body request_id payload = put_be32 request_id @ payload"

definition decode_rpc_body :: "bytes \<Rightarrow> (32 word \<times> bytes) option" where
  "decode_rpc_body bs = (if length bs < 4 then None else Some (get_be32 bs 0, drop 4 bs))"

text \<open>
  The receive path of both sides: append the read, parse the whole buffer with a new parser, and
  remove the bytes of the messages found.
\<close>

definition consumed_bytes :: "message list \<Rightarrow> nat" where
  "consumed_bytes ms = sum_list (map (\<lambda>m. 4 + length (body m)) ms)"

definition reparse :: "bytes \<Rightarrow> bytes \<Rightarrow> message list \<times> bytes" where
  "reparse buffer data =
     (let buf = buffer @ data; ms = fst (feed parser_init buf)
      in (ms, if ms \<noteq> [] \<and> consumed_bytes ms \<le> length buf then drop (consumed_bytes ms) buf else buf))"

section \<open>Client\<close>

type_synonym rpc_callback = "nat option"

datatype rpc_event =
    Answer nat bool message   \<comment> \<open>a callback with its arguments\<close>
  | Send bytes                \<comment> \<open>bytes for the connection\<close>

record pending_request =
  req_callback :: rpc_callback
  deadline :: int

record 'r limiter =
  lim_check :: "'r \<Rightarrow> string \<Rightarrow> rate_limit_result \<times> 'r"
  lim_consume :: "'r \<Rightarrow> string \<Rightarrow> int \<Rightarrow> bool \<times> 'r"

text \<open>The virtual functions of \<^verbatim>\<open>TokenBucketRateLimiter\<close>.\<close>

definition token_bucket_limiter :: "(real \<Rightarrow> real) \<Rightarrow> clock \<Rightarrow> token_bucket limiter" where
  "token_bucket_limiter rnd clk =
     \<lparr>lim_check = (\<lambda>l key. tb_check rnd l clk key), lim_consume = (\<lambda>l key n. tb_consume rnd l clk key n)\<rparr>"

record 'r rpc_client =
  connected :: bool
  next_request_id :: "32 word"
  default_timeout_seconds :: int
  pending_requests :: "(32 word \<times> pending_request) list"
  cleanup_joinable :: bool
  recv_buffer :: bytes
  circuit_breaker :: "(cb_config \<times> breaker) option"
  rate_limiter :: "'r option"

definition rpc_client_init :: "int \<Rightarrow> 'r rpc_client" where
  "rpc_client_init t = \<lparr>connected = False, next_request_id = 1, default_timeout_seconds = t,
     pending_requests = [], cleanup_joinable = False, recv_buffer = [], circuit_breaker = None,
     rate_limiter = None\<rparr>"

definition empty_message :: message where
  "empty_message = \<lparr>cmd = 0, body = []\<rparr>"

fun answer :: "rpc_callback \<Rightarrow> bool \<Rightarrow> message \<Rightarrow> rpc_event list" where
  "answer None ok m = []"
| "answer (Some k) ok m = [Answer k ok m]"

text \<open>Assigning a thread to a \<^verbatim>\<open>std::thread\<close> that is still joinable ends the process.\<close>

definition start_cleanup_thread :: "'r rpc_client \<Rightarrow> cpp_error + 'r rpc_client" where
  "start_cleanup_thread c =
     (if cleanup_joinable c then Inl Terminate else Inr (c\<lparr>cleanup_joinable := True\<rparr>))"

definition stop_cleanup_thread :: "'r rpc_client \<Rightarrow> 'r rpc_client" where
  "stop_cleanup_thread c = c\<lparr>cleanup_joinable := False\<rparr>"

text \<open>The arguments are what \<^verbatim>\<open>socket\<close>, \<^verbatim>\<open>inet_pton\<close> and \<^verbatim>\<open>connect\<close> return.\<close>

definition rpc_connect :: "'r rpc_client \<Rightarrow> int \<Rightarrow> int \<Rightarrow> int \<Rightarrow> cpp_error + bool \<times> 'r rpc_client" where
  "rpc_connect c fd pton conn =
     (if fd < 0 then Inr (False, c)
      else if pton \<le> 0 then Inr (False, c)
      else if conn < 0 then Inr (False, c)
      else case start_cleanup_thread (c\<lparr>connected := True\<rparr>) of
             Inl e \<Rightarrow> Inl e
           | Inr c' \<Rightarrow> Inr (True, c'))"

definition fail_all :: "(32 word \<times> pending_request) list \<Rightarrow> rpc_event list" where
  "fail_all ps = concat (map (\<lambda>p. answer (req_callback (snd p)) False empty_message) ps)"

definition rpc_disconnect :: "'r rpc_client \<Rightarrow> 'r rpc_client \<times> rpc_event list" where
  "rpc_disconnect c =
     ((stop_cleanup_thread c)\<lparr>connected := False, pending_requests := []\<rparr>, fail_all (pending_requests c))"

definition breaker_open :: "'r rpc_client \<Rightarrow> bool" where
  "breaker_open c = (case circuit_breaker c of None \<Rightarrow> False | Some (_, b) \<Rightarrow> cb_state b = OPEN)"

text \<open>The check and the consumption; \<open>False\<close> when the call is rejected.\<close>

definition pass_limiter :: "'r limiter \<Rightarrow> 'r rpc_client \<Rightarrow> bool \<times> 'r rpc_client" where
  "pass_limiter L c =
     (case rate_limiter c of
        None \<Rightarrow> (True, c)
      | Some r \<Rightarrow>
          (let (res, r1) = lim_check L r ''rpc''
           in if \<not> allowed res then (False, c\<lparr>rate_limiter := Some r1\<rparr>)
              else (True, c\<lparr>rate_limiter := Some (snd (lim_consume L r1 ''rpc'' 1))\<rparr>)))"

fun put_pending :: "32 word \<Rightarrow> pending_request \<Rightarrow> (32 word \<times> pending_request) list \<Rightarrow>
    (32 word \<times> pending_request) list" where
  "put_pending i r [] = [(i, r)]"
| "put_pending i r (p # ps) = (if fst p = i then (i, r) # ps else p # put_pending i r ps)"

text \<open>The clock is in nanoseconds, the timeout in seconds.\<close>

definition rpc_call :: "'r limiter \<Rightarrow> int \<Rightarrow> 'r rpc_client \<Rightarrow> 16 word \<Rightarrow> bytes \<Rightarrow> rpc_callback \<Rightarrow> int \<Rightarrow>
    'r rpc_client \<times> rpc_event list" where
  "rpc_call L now c command request cb timeout_seconds =
     (if \<not> connected c then (c, answer cb False empty_message)
      else if breaker_open c then (c, answer cb False empty_message)
      else let (ok, c1) = pass_limiter L c
           in if \<not> ok then (c1, answer cb False empty_message)
              else let request_id = next_request_id c1;
                       t = (if timeout_seconds < 0 then default_timeout_seconds c1 else timeout_seconds);
                       req = \<lparr>req_callback = cb, deadline = now + t * 1000000000\<rparr>
                   in (c1\<lparr>next_request_id := request_id + 1,
                         pending_requests := put_pending request_id req (pending_requests c1)\<rparr>,
                       [Send (serialize \<lparr>cmd = command, body = encode_rpc_body request_id request\<rparr>)]))"

text \<open>One message of \<^verbatim>\<open>on_message\<close>, and the whole function.\<close>

definition take_pending :: "32 word \<Rightarrow> (32 word \<times> pending_request) list \<Rightarrow>
    (pending_request \<times> (32 word \<times> pending_request) list) option" where
  "take_pending i ps =
     (case map_of ps i of None \<Rightarrow> None | Some r \<Rightarrow> Some (r, filter (\<lambda>p. fst p \<noteq> i) ps))"

fun handle_response :: "(32 word \<times> pending_request) list \<Rightarrow> message \<Rightarrow>
    (32 word \<times> pending_request) list \<times> rpc_event list" where
  "handle_response ps m =
     (case decode_rpc_body (body m) of
        None \<Rightarrow> (ps, [])
      | Some (request_id, payload) \<Rightarrow>
          (case take_pending request_id ps of
             None \<Rightarrow> (ps, [])
           | Some (req, ps') \<Rightarrow> (ps', answer (req_callback req) True \<lparr>cmd = cmd m, body = payload\<rparr>)))"

fun handle_responses :: "(32 word \<times> pending_request) list \<Rightarrow> message list \<Rightarrow>
    (32 word \<times> pending_request) list \<times> rpc_event list" where
  "handle_responses ps [] = (ps, [])"
| "handle_responses ps (m # ms) =
     (let (ps1, es) = handle_response ps m; (ps2, es') = handle_responses ps1 ms in (ps2, es @ es'))"

definition client_on_message :: "'r rpc_client \<Rightarrow> bytes \<Rightarrow> 'r rpc_client \<times> rpc_event list" where
  "client_on_message c data =
     (let (ms, buf) = reparse (recv_buffer c) data; (ps, es) = handle_responses (pending_requests c) ms
      in (c\<lparr>recv_buffer := buf, pending_requests := ps\<rparr>, es))"

definition client_on_disconnect :: "'r rpc_client \<Rightarrow> 'r rpc_client \<times> rpc_event list" where
  "client_on_disconnect c = (c\<lparr>connected := False, pending_requests := []\<rparr>, fail_all (pending_requests c))"

text \<open>
  The cleanup thread: every expired request is reported to the breaker as a failure, by executing
  a function that throws, and then to its callback. \<open>clk\<close> are the breaker's clock readings.
\<close>

definition report_timeout :: "(real \<Rightarrow> real) \<Rightarrow> (nat \<Rightarrow> int) \<Rightarrow> (cb_config \<times> breaker) option \<Rightarrow>
    (cb_config \<times> breaker) option" where
  "report_timeout rnd clk cb =
     (case cb of None \<Rightarrow> None
      | Some (cfg, b) \<Rightarrow> Some (cfg, snd (execute rnd cfg clk (\<lambda>b. (Throws ''rpc timeout'', b)) b)))"

definition cleanup_expired_requests :: "(real \<Rightarrow> real) \<Rightarrow> (nat \<Rightarrow> int) \<Rightarrow> int \<Rightarrow> 'r rpc_client \<Rightarrow>
    'r rpc_client \<times> rpc_event list" where
  "cleanup_expired_requests rnd clk now c =
     (let expired = filter (\<lambda>p. deadline (snd p) \<le> now) (pending_requests c)
      in (c\<lparr>pending_requests := filter (\<lambda>p. \<not> deadline (snd p) \<le> now) (pending_requests c),
            circuit_breaker := fold (\<lambda>_. report_timeout rnd clk) expired (circuit_breaker c)\<rparr>,
          fail_all expired))"

text \<open>
  \<^verbatim>\<open>call_sync\<close>: its callback (number 0) writes to local variables. \<open>events\<close> are the events until the
  wait ends; the wait lasts \<open>timeout_seconds + 1\<close> seconds.
\<close>

definition call_sync_wait_ns :: "int \<Rightarrow> int" where
  "call_sync_wait_ns timeout_seconds = (timeout_seconds + 1) * 1000000000"

fun call_sync_result :: "rpc_event list \<Rightarrow> (bool \<times> message) option" where
  "call_sync_result [] = None"
| "call_sync_result (e # es) =
     (case e of Answer k ok m \<Rightarrow> if k = 0 then Some (ok, m) else call_sync_result es | _ \<Rightarrow> call_sync_result es)"

definition call_sync :: "'r limiter \<Rightarrow> int \<Rightarrow> 'r rpc_client \<Rightarrow> 16 word \<Rightarrow> bytes \<Rightarrow> int \<Rightarrow> rpc_event list \<Rightarrow>
    'r rpc_client \<times> rpc_event list \<times> bool \<times> message option" where
  "call_sync L now c command request timeout_seconds events =
     (if \<not> connected c then (c, [], False, None)
      else let (c', es) = rpc_call L now c command request (Some 0) timeout_seconds
           in (c', es, (case call_sync_result (es @ events) of
                 None \<Rightarrow> (False, None)
               | Some (ok, m) \<Rightarrow> (ok, Some m))))"

section \<open>Server\<close>

type_synonym 's rpc_handler = "bytes \<Rightarrow> 's \<Rightarrow> bytes outcome \<times> 's"

record 's rpc_server =
  methods :: "16 word \<rightharpoonup> 's rpc_handler"
  buffers :: "nat \<rightharpoonup> bytes"
  total_requests :: int
  active_connections :: int

definition rpc_server_init :: "'s rpc_server" where
  "rpc_server_init = \<lparr>methods = Map.empty, buffers = Map.empty, total_requests = 0, active_connections = 0\<rparr>"

definition register_method :: "'s rpc_server \<Rightarrow> 16 word \<Rightarrow> 's rpc_handler \<Rightarrow> 's rpc_server" where
  "register_method s i h = s\<lparr>methods := (methods s)(i \<mapsto> h)\<rparr>"

definition unregister_method :: "'s rpc_server \<Rightarrow> 16 word \<Rightarrow> 's rpc_server" where
  "unregister_method s i = s\<lparr>methods := (methods s)(i := None)\<rparr>"

definition handle_connect :: "'s rpc_server \<Rightarrow> 's rpc_server" where
  "handle_connect s = s\<lparr>active_connections := active_connections s + 1\<rparr>"

definition handle_disconnect :: "'s rpc_server \<Rightarrow> nat \<Rightarrow> 's rpc_server" where
  "handle_disconnect s conn =
     s\<lparr>active_connections := active_connections s - 1, buffers := (buffers s)(conn := None)\<rparr>"

text \<open>The text of an exception ends at its first zero byte.\<close>

definition what_bytes :: "string \<Rightarrow> bytes" where
  "what_bytes e = takeWhile (\<lambda>b. b \<noteq> 0) (map (\<lambda>ch. word_of_nat (of_char ch)) e)"

text \<open>
  One request: the response sent, or \<open>None\<close> when the handler throws something that is not a
  \<^verbatim>\<open>std::exception\<close>, which leaves \<^verbatim>\<open>handle_message\<close>.
\<close>

definition serve_message :: "(16 word \<rightharpoonup> 's rpc_handler) \<Rightarrow> message \<Rightarrow> 's \<Rightarrow> message option \<times> 's" where
  "serve_message meths m st =
     (let (prefix, request) = (if 4 \<le> length (body m) then (take 4 (body m), drop 4 (body m)) else ([], body m))
      in case meths (cmd m) of
           None \<Rightarrow> (Some \<lparr>cmd = cmd m, body = prefix\<rparr>, st)
         | Some h \<Rightarrow>
             (case h request st of
                (Returns response, st') \<Rightarrow> (Some \<lparr>cmd = cmd m, body = prefix @ response\<rparr>, st')
              | (Throws e, st') \<Rightarrow> (Some \<lparr>cmd = cmd m, body = prefix @ what_bytes e\<rparr>, st')
              | (ThrowsOther, st') \<Rightarrow> (None, st')))"

text \<open>The loop: requests counted, bytes sent, state of the methods, and whether it ran to the end.\<close>

fun serve_messages :: "(16 word \<rightharpoonup> 's rpc_handler) \<Rightarrow> message list \<Rightarrow> 's \<Rightarrow> int \<times> bytes \<times> 's \<times> bool" where
  "serve_messages meths [] st = (0, [], st, True)"
| "serve_messages meths (m # ms) st =
     (case serve_message meths m st of
        (None, st') \<Rightarrow> (1, [], st', False)
      | (Some resp, st') \<Rightarrow>
          (let (n, out, st'', ok) = serve_messages meths ms st' in (n + 1, serialize resp @ out, st'', ok)))"

definition entry_buffer :: "'s rpc_server \<Rightarrow> nat \<Rightarrow> bytes" where
  "entry_buffer s conn = (case buffers s conn of None \<Rightarrow> [] | Some b \<Rightarrow> b)"

text \<open>The buffer is trimmed after the loop, so an escaping exception leaves it whole.\<close>

definition handle_message :: "'s rpc_server \<Rightarrow> nat \<Rightarrow> bytes \<Rightarrow> 's \<Rightarrow> 's rpc_server \<times> bytes \<times> 's \<times> bool" where
  "handle_message s conn data st =
     (let (ms, rest) = reparse (entry_buffer s conn) data;
          (n, out, st', ok) = serve_messages (methods s) ms st
      in (s\<lparr>buffers := (buffers s)(conn \<mapsto> if ok then rest else entry_buffer s conn @ data),
            total_requests := total_requests s + n\<rparr>, out, st', ok))"

section \<open>The receive path is a decoder\<close>

lemma frame_step_length:
  "frame_step bs = Some (m, r) \<Longrightarrow> r = drop (4 + length (body m)) bs \<and> 4 + length (body m) \<le> length bs"
  by (auto simp: frame_step_def Let_def split: if_splits)

lemma drain_consumed:
  "proto.drain bs = (ms, r) \<Longrightarrow> r = drop (consumed_bytes ms) bs \<and> consumed_bytes ms \<le> length bs"
proof (induction bs arbitrary: ms rule: proto.frame_induct)
  case (incomplete bs)
  then show ?case by (simp add: proto.drain_None consumed_bytes_def)
next
  case (frame bs m r0)
  obtain ms0 r1 where d: "proto.drain r0 = (ms0, r1)" by fastforce
  then have "ms = m # ms0" "r = r1" using frame.prems proto.drain_Some [OF frame.hyps d] by auto
  then show ?case
    using frame.IH [of ms0] d frame_step_length [OF frame.hyps] by (auto simp: consumed_bytes_def ac_simps)
qed

lemma reparse_drains: "proto.drain (buffer @ data) = reparse buffer data"
proof -
  have "parser_inv parser_init" "parser_pending parser_init = []"
    by (simp_all add: parser_init_def parser_inv_def parser_pending_def)
  then obtain ms p where f: "feed parser_init (buffer @ data) = (ms, p)"
      "proto.drain (buffer @ data) = (ms, parser_pending p)"
    using feed_drain [of parser_init "buffer @ data"] by auto
  show ?thesis
    using f drain_consumed [OF f(2)] by (auto simp: reparse_def Let_def consumed_bytes_def)
qed

interpretation rpc: buffered_decoder frame_step "\<lambda>_. True" serialize wire_valid
  "\<lambda>b data. Inr (reparse b data)" "\<lambda>b. b" "\<lambda>_. True"
  by unfold_locales (metis reparse_drains surj_pair)

section \<open>Runs\<close>

text \<open>A sequence of asynchronous calls, and the reads each side takes from its connection.\<close>

record rcall =
  r_cmd :: "16 word"
  r_request :: bytes
  r_callback :: nat
  r_timeout :: int
  r_now :: int

fun rpc_run_calls :: "'r limiter \<Rightarrow> 'r rpc_client \<Rightarrow> rcall list \<Rightarrow> 'r rpc_client \<times> rpc_event list" where
  "rpc_run_calls L c [] = (c, [])"
| "rpc_run_calls L c (r # rs) =
     (let (c1, es) = rpc_call L (r_now r) c (r_cmd r) (r_request r) (Some (r_callback r)) (r_timeout r);
          (c2, es') = rpc_run_calls L c1 rs
      in (c2, es @ es'))"

fun sent :: "rpc_event list \<Rightarrow> bytes" where
  "sent [] = []"
| "sent (e # es) = (case e of Send bs \<Rightarrow> bs @ sent es | _ \<Rightarrow> sent es)"

fun serve_reads :: "'s rpc_server \<Rightarrow> nat \<Rightarrow> bytes list \<Rightarrow> 's \<Rightarrow> 's rpc_server \<times> bytes \<times> 's \<times> bool" where
  "serve_reads s conn [] st = (s, [], st, True)"
| "serve_reads s conn (d # ds) st =
     (let (s1, out, st1, ok) = handle_message s conn d st
      in if \<not> ok then (s1, out, st1, False)
         else let (s2, out', st2, ok') = serve_reads s1 conn ds st1 in (s2, out @ out', st2, ok'))"

fun client_reads :: "'r rpc_client \<Rightarrow> bytes list \<Rightarrow> 'r rpc_client \<times> rpc_event list" where
  "client_reads c [] = (c, [])"
| "client_reads c (d # ds) =
     (let (c1, es) = client_on_message c d; (c2, es') = client_reads c1 ds in (c2, es @ es'))"

section \<open>Specification: calls without a network\<close>

definition respond :: "(16 word \<rightharpoonup> 's rpc_handler) \<Rightarrow> 16 word \<Rightarrow> bytes \<Rightarrow> 's \<Rightarrow> bytes option \<times> 's" where
  "respond meths command request st =
     (case meths command of
        None \<Rightarrow> (Some [], st)
      | Some h \<Rightarrow> (case h request st of
            (Returns r, st') \<Rightarrow> (Some r, st')
          | (Throws e, st') \<Rightarrow> (Some (what_bytes e), st')
          | (ThrowsOther, st') \<Rightarrow> (None, st')))"

fun direct_calls :: "(16 word \<rightharpoonup> 's rpc_handler) \<Rightarrow> rcall list \<Rightarrow> 's \<Rightarrow> rpc_event list \<times> 's" where
  "direct_calls meths [] st = ([], st)"
| "direct_calls meths (r # rs) st =
     (case respond meths (r_cmd r) (r_request r) st of
        (None, st') \<Rightarrow> ([], st')
      | (Some resp, st') \<Rightarrow>
          (let (es, st'') = direct_calls meths rs st'
           in (Answer (r_callback r) True \<lparr>cmd = r_cmd r, body = resp\<rparr> # es, st'')))"

text \<open>Requests and responses fit into a frame with the request id.\<close>

fun calls_fit :: "(16 word \<rightharpoonup> 's rpc_handler) \<Rightarrow> rcall list \<Rightarrow> 's \<Rightarrow> bool" where
  "calls_fit meths [] st = True"
| "calls_fit meths (r # rs) st =
     (length (r_request r) < 65532 \<and>
      (case respond meths (r_cmd r) (r_request r) st of
         (None, st') \<Rightarrow> False
       | (Some resp, st') \<Rightarrow> length resp < 65532 \<and> calls_fit meths rs st'))"

fun requests :: "32 word \<Rightarrow> rcall list \<Rightarrow> message list" where
  "requests i [] = []"
| "requests i (r # rs) = \<lparr>cmd = r_cmd r, body = encode_rpc_body i (r_request r)\<rparr> # requests (i + 1) rs"

fun responses :: "(16 word \<rightharpoonup> 's rpc_handler) \<Rightarrow> 32 word \<Rightarrow> rcall list \<Rightarrow> 's \<Rightarrow> message list" where
  "responses meths i [] st = []"
| "responses meths i (r # rs) st =
     (case respond meths (r_cmd r) (r_request r) st of
        (None, st') \<Rightarrow> []
      | (Some resp, st') \<Rightarrow> \<lparr>cmd = r_cmd r, body = encode_rpc_body i resp\<rparr> # responses meths (i + 1) rs st')"

fun ids :: "32 word \<Rightarrow> nat \<Rightarrow> 32 word list" where
  "ids i 0 = []"
| "ids i (Suc n) = i # ids (i + 1) n"

section \<open>Each side against the specification\<close>

lemma length_encode [simp]: "length (encode_rpc_body i p) = 4 + length p"
  by (simp add: encode_rpc_body_def)

lemma decode_encode [simp]: "decode_rpc_body (encode_rpc_body i p) = Some (i, p)"
  using get_put_be32 [of "[]" i p] by (simp add: decode_rpc_body_def encode_rpc_body_def)

lemma encode_parts [simp]:
  "take 4 (encode_rpc_body i p) = put_be32 i" "drop 4 (encode_rpc_body i p) = p"
  by (simp_all add: encode_rpc_body_def)

lemma set_ids: "set (ids i n) = (\<lambda>j. i + word_of_nat j) ` {..<n}"
proof (induction n arbitrary: i)
  case (Suc n)
  show ?case by (simp add: Suc.IH lessThan_Suc_eq_insert_0 image_image add.assoc)
qed simp

lemma distinct_ids: "n \<le> 2 ^ 32 \<Longrightarrow> distinct (ids i n)"
proof (induction n arbitrary: i)
  case (Suc n)
  have "i \<notin> set (ids (i + 1) n)"
  proof
    assume "i \<in> set (ids (i + 1) n)"
    then obtain j where j: "i = i + 1 + word_of_nat j" "j < n" by (auto simp: set_ids)
    then have "word_of_nat (Suc j) = (0 :: 32 word)" by (simp add: algebra_simps)
    then have "2 ^ LENGTH(32) dvd Suc j" by (simp only: word_of_nat_eq_0_iff)
    then show False using j(2) Suc.prems by (auto dest: dvd_imp_le)
  qed
  then show ?case using Suc by simp
qed simp

lemma filter_other_keys: "i \<notin> set (map fst ps) \<Longrightarrow> filter (\<lambda>p. fst p \<noteq> i) ps = ps"
  by (force simp: filter_id_conv)

lemma put_pending_new: "i \<notin> fst ` set ps \<Longrightarrow> put_pending i r ps = ps @ [(i, r)]"
  by (induction ps) auto

text \<open>What the calls leave in the client, and what they send.\<close>

lemma run_calls_sends:
  assumes "connected c" "circuit_breaker c = None" "rate_limiter c = None"
    "distinct (map fst (pending_requests c) @ ids (next_request_id c) (length rs))"
    "rpc_run_calls L c rs = (c', evs)"
  shows "sent evs = concat (map serialize (requests (next_request_id c) rs)) \<and> recv_buffer c' = recv_buffer c \<and>
    map (\<lambda>p. (fst p, req_callback (snd p))) (pending_requests c') =
    map (\<lambda>p. (fst p, req_callback (snd p))) (pending_requests c) @
    zip (ids (next_request_id c) (length rs)) (map (\<lambda>r. Some (r_callback r)) rs)"
  using assms
proof (induction rs arbitrary: c evs)
  case (Cons r rs)
  let ?t = "if r_timeout r < 0 then default_timeout_seconds c else r_timeout r"
  let ?q = "\<lparr>req_callback = Some (r_callback r), deadline = r_now r + ?t * 1000000000\<rparr>"
  let ?c = "c\<lparr>next_request_id := next_request_id c + 1,
      pending_requests := pending_requests c @ [(next_request_id c, ?q)]\<rparr>"
  have new: "next_request_id c \<notin> fst ` set (pending_requests c)" using Cons.prems(4) by auto
  have call: "rpc_call L (r_now r) c (r_cmd r) (r_request r) (Some (r_callback r)) (r_timeout r) =
      (?c, [Send (serialize \<lparr>cmd = r_cmd r, body = encode_rpc_body (next_request_id c) (r_request r)\<rparr>)])"
    using Cons.prems(1-3) put_pending_new [OF new]
    by (simp add: rpc_call_def breaker_open_def pass_limiter_def Let_def)
  obtain evs' where run: "rpc_run_calls L ?c rs = (c', evs')"
    and evs: "evs = Send (serialize \<lparr>cmd = r_cmd r, body = encode_rpc_body (next_request_id c) (r_request r)\<rparr>) # evs'"
    using Cons.prems(5) call by (auto simp: Let_def split: prod.splits)
  have "distinct (map fst (pending_requests ?c) @ ids (next_request_id ?c) (length rs))"
    using Cons.prems(4) by auto
  from Cons.IH [OF _ _ _ this run] Cons.prems(1-3) show ?case by (simp add: evs)
qed simp

lemma serve_request:
  "respond meths (cmd m) p st = (Some resp, st') \<Longrightarrow> body m = encode_rpc_body i p \<Longrightarrow>
   serve_message meths m st = (Some \<lparr>cmd = cmd m, body = encode_rpc_body i resp\<rparr>, st')"
  by (auto simp: respond_def serve_message_def encode_rpc_body_def
      split: option.splits prod.splits outcome.splits)

lemma serve_requests:
  "calls_fit meths rs st \<Longrightarrow>
   serve_messages meths (requests i rs) st =
     (int (length rs), concat (map serialize (responses meths i rs st)), snd (direct_calls meths rs st), True) \<and>
   list_all wire_valid (requests i rs) \<and> list_all wire_valid (responses meths i rs st)"
proof (induction rs arbitrary: i st)
  case (Cons r rs)
  then obtain resp st' where r: "respond meths (r_cmd r) (r_request r) st = (Some resp, st')"
      "length resp < 65532" "calls_fit meths rs st'" "length (r_request r) < 65532"
    by (auto split: prod.splits option.splits)
  have s: "serve_message meths \<lparr>cmd = r_cmd r, body = encode_rpc_body i (r_request r)\<rparr> st =
      (Some \<lparr>cmd = r_cmd r, body = encode_rpc_body i resp\<rparr>, st')"
    using serve_request [of meths "\<lparr>cmd = r_cmd r, body = encode_rpc_body i (r_request r)\<rparr>"] r(1) by simp
  show ?case using Cons.IH [OF r(3), of "i + 1"] r s by (simp add: Let_def wire_valid_def split: prod.splits)
qed simp

lemma serve_messages_append:
  "serve_messages meths (ms @ ms') st =
     (let (n, out, st1, ok) = serve_messages meths ms st
      in if \<not> ok then (n, out, st1, False)
         else let (n', out', st2, ok') = serve_messages meths ms' st1 in (n + n', out @ out', st2, ok'))"
  by (induction ms arbitrary: st) (auto simp: Let_def split: prod.splits option.splits if_splits)

lemma serve_messages_ok_prefix:
  "serve_messages meths (ms @ ms') st = (n, out, st', True) \<Longrightarrow>
   \<exists>n1 out1 st1 n2 out2. serve_messages meths ms st = (n1, out1, st1, True) \<and>
     serve_messages meths ms' st1 = (n2, out2, st', True) \<and> out = out1 @ out2 \<and> n = n1 + n2"
  by (auto simp: serve_messages_append Let_def split: prod.splits if_splits)

lemma serve_reads_ok:
  assumes "rpc.feed_all (entry_buffer s conn) ds = Inr (ms, rest)"
    "serve_messages (methods s) ms st = (n, out, st', True)"
  shows "\<exists>s'. serve_reads s conn ds st = (s', out, st', True) \<and> total_requests s' = total_requests s + n"
  using assms
proof (induction ds arbitrary: s ms st n out)
  case (Cons d ds)
  obtain ms1 b where r: "reparse (entry_buffer s conn) d = (ms1, b)" by fastforce
  then obtain ms2 where f: "rpc.feed_all b ds = Inr (ms2, rest)" "ms = ms1 @ ms2"
    using Cons.prems(1) by (auto split: sum.splits)
  obtain n1 out1 st1 n2 out2 where v: "serve_messages (methods s) ms1 st = (n1, out1, st1, True)"
      "serve_messages (methods s) ms2 st1 = (n2, out2, st', True)" "out = out1 @ out2" "n = n1 + n2"
    using serve_messages_ok_prefix [OF Cons.prems(2) [unfolded f(2)]] by blast
  let ?s = "s\<lparr>buffers := (buffers s)(conn \<mapsto> b), total_requests := total_requests s + n1\<rparr>"
  have h: "handle_message s conn d st = (?s, out1, st1, True)" using r v(1) by (simp add: handle_message_def)
  have "entry_buffer ?s conn = b" "methods ?s = methods s" by (simp_all add: entry_buffer_def)
  then obtain s' where "serve_reads ?s conn ds st1 = (s', out2, st', True)" "total_requests s' = total_requests ?s + n2"
    using Cons.IH [of ?s ms2 st1 n2 out2] f(1) v(2) by auto
  then show ?case using h v(3,4) by simp
qed simp

lemma handle_responses_append:
  "handle_responses ps (ms @ ms') =
     (let (ps1, es) = handle_responses ps ms; (ps2, es') = handle_responses ps1 ms' in (ps2, es @ es'))"
  by (induction ms arbitrary: ps) (auto simp: Let_def simp del: handle_response.simps split: prod.splits)

lemma client_reads_handle:
  assumes "rpc.feed_all (recv_buffer c) ds = Inr (ms, rest)"
  shows "client_reads c ds = (c\<lparr>recv_buffer := rest, pending_requests := fst (handle_responses (pending_requests c) ms)\<rparr>,
    snd (handle_responses (pending_requests c) ms))"
  using assms
proof (induction ds arbitrary: c ms)
  case (Cons d ds)
  obtain ms1 b where r: "reparse (recv_buffer c) d = (ms1, b)" by fastforce
  then obtain ms2 where f: "rpc.feed_all b ds = Inr (ms2, rest)" "ms = ms1 @ ms2"
    using Cons.prems by (auto split: sum.splits)
  obtain ps es where h: "handle_responses (pending_requests c) ms1 = (ps, es)" by fastforce
  have m: "client_on_message c d = (c\<lparr>recv_buffer := b, pending_requests := ps\<rparr>, es)"
    using r h by (simp add: client_on_message_def)
  show ?case
    using Cons.IH [of "c\<lparr>recv_buffer := b, pending_requests := ps\<rparr>" ms2] f m h
    by (simp add: handle_responses_append Let_def split: prod.splits)
qed simp

text \<open>Every pending request is answered by its response, once.\<close>

lemma responses_answered:
  assumes "calls_fit meths rs st" "distinct (ids i (length rs))"
    "map (\<lambda>p. (fst p, req_callback (snd p))) ps = zip (ids i (length rs)) (map (\<lambda>r. Some (r_callback r)) rs)"
  shows "handle_responses ps (responses meths i rs st) = ([], fst (direct_calls meths rs st))"
  using assms
proof (induction rs arbitrary: i st ps)
  case (Cons r rs)
  then obtain resp st' where r: "respond meths (r_cmd r) (r_request r) st = (Some resp, st')"
      "calls_fit meths rs st'"
    by (auto split: prod.splits option.splits)
  obtain q qs where ps: "ps = (i, q) # qs" "req_callback q = Some (r_callback r)"
    "map (\<lambda>p. (fst p, req_callback (snd p))) qs = zip (ids (i + 1) (length rs)) (map (\<lambda>r. Some (r_callback r)) rs)"
    using Cons.prems(3) by (cases ps) auto
  have len: "length (ids j n) = n" for j n by (induction n arbitrary: j) simp_all
  have "map fst qs = ids (i + 1) (length rs)"
    using arg_cong [OF ps(3), of "map fst"] by (simp add: len comp_def)
  then have "i \<notin> set (map fst qs)" using Cons.prems(2) by simp
  then have "filter (\<lambda>p. fst p \<noteq> i) qs = qs" by (rule filter_other_keys)
  then have h: "handle_response ps \<lparr>cmd = r_cmd r, body = encode_rpc_body i resp\<rparr> =
      (qs, [Answer (r_callback r) True \<lparr>cmd = r_cmd r, body = resp\<rparr>])"
    using ps by (simp add: take_pending_def)
  show ?case
    using Cons.IH [OF r(2) _ ps(3)] Cons.prems(2) r(1) h by (simp del: handle_response.simps split: prod.splits)
qed simp

section \<open>Callbacks and requests\<close>

text \<open>Everything that can happen to a client between its connection and its end.\<close>

datatype rpc_op =
    Call rcall
  | Read bytes
  | Expire "nat \<Rightarrow> int" int
  | Lost
  | Disconnect

fun run_op :: "'r limiter \<Rightarrow> (real \<Rightarrow> real) \<Rightarrow> rpc_op \<Rightarrow> 'r rpc_client \<Rightarrow> 'r rpc_client \<times> rpc_event list" where
  "run_op L rnd (Call r) c = rpc_call L (r_now r) c (r_cmd r) (r_request r) (Some (r_callback r)) (r_timeout r)"
| "run_op L rnd (Read d) c = client_on_message c d"
| "run_op L rnd (Expire clk now) c = cleanup_expired_requests rnd clk now c"
| "run_op L rnd Lost c = client_on_disconnect c"
| "run_op L rnd Disconnect c = rpc_disconnect c"

fun run_ops :: "'r limiter \<Rightarrow> (real \<Rightarrow> real) \<Rightarrow> rpc_op list \<Rightarrow> 'r rpc_client \<Rightarrow> 'r rpc_client \<times> rpc_event list" where
  "run_ops L rnd [] c = (c, [])"
| "run_ops L rnd (x # xs) c =
     (let (c1, es) = run_op L rnd x c; (c2, es') = run_ops L rnd xs c1 in (c2, es @ es'))"

fun called :: "rpc_op list \<Rightarrow> nat multiset" where
  "called [] = {#}"
| "called (x # xs) = (case x of Call r \<Rightarrow> {#r_callback r#} | _ \<Rightarrow> {#}) + called xs"

fun answered :: "rpc_event list \<Rightarrow> nat multiset" where
  "answered [] = {#}"
| "answered (e # es) = (case e of Answer k ok m \<Rightarrow> {#k#} | _ \<Rightarrow> {#}) + answered es"

definition waiting_callers :: "(32 word \<times> pending_request) list \<Rightarrow> nat multiset" where
  "waiting_callers ps = (\<Sum>p\<leftarrow>ps. case req_callback (snd p) of None \<Rightarrow> {#} | Some k \<Rightarrow> {#k#})"

text \<open>The keys of the pending requests are distinct and among the \<open>n\<close> ids given out so far.\<close>

definition ids_ok :: "32 word \<Rightarrow> nat \<Rightarrow> 'r rpc_client \<Rightarrow> bool" where
  "ids_ok i n c =
     (next_request_id c = i + word_of_nat n \<and> distinct (map fst (pending_requests c)) \<and>
      fst ` set (pending_requests c) \<subseteq> set (ids i n))"

lemma answered_append [simp]: "answered (es @ fs) = answered es + answered fs"
  by (induction es) (simp_all split: rpc_event.split)

lemma answered_answer: "answered (answer cb ok m) = (case cb of None \<Rightarrow> {#} | Some k \<Rightarrow> {#k#})"
  by (cases cb) simp_all

lemma waiting_simps [simp]:
  "waiting_callers [] = {#}"
  "waiting_callers (p # ps) = (case req_callback (snd p) of None \<Rightarrow> {#} | Some k \<Rightarrow> {#k#}) + waiting_callers ps"
  "waiting_callers (ps @ qs) = waiting_callers ps + waiting_callers qs"
  by (simp_all add: waiting_callers_def)

lemma answered_fail_all: "answered (fail_all ps) = waiting_callers ps"
  by (induction ps) (simp_all add: fail_all_def answered_answer)

lemma waiting_partition: "waiting_callers (filter P ps) + waiting_callers (filter (\<lambda>p. \<not> P p) ps) = waiting_callers ps"
  by (induction ps) (auto simp: ac_simps)

lemma ids_snoc: "ids i (Suc n) = ids i n @ [i + word_of_nat n]"
proof (induction n arbitrary: i)
  case (Suc n)
  show ?case using Suc.IH [of "i + 1"] by (simp add: add.assoc)
qed simp

lemma new_id: "n < 2 ^ 32 \<Longrightarrow> (i :: 32 word) + word_of_nat n \<notin> set (ids i n)"
  using distinct_ids [of "Suc n" i] by (simp add: ids_snoc del: ids.simps)

lemma ids_mono: "m \<le> n \<Longrightarrow> set (ids i m) \<subseteq> set (ids i n)"
  by (auto simp: set_ids)

lemma take_pending_waiting:
  "distinct (map fst ps) \<Longrightarrow> map_of ps i = Some r \<Longrightarrow>
   waiting_callers ps = (case req_callback r of None \<Rightarrow> {#} | Some k \<Rightarrow> {#k#}) + waiting_callers (filter (\<lambda>p. fst p \<noteq> i) ps)"
proof (induction ps)
  case (Cons p ps)
  show ?case
  proof (cases "fst p = i")
    case True
    then have "filter (\<lambda>p. fst p \<noteq> i) ps = ps" using Cons.prems(1) by (intro filter_other_keys) auto
    then show ?thesis using True Cons.prems(2) by simp
  next
    case False
    then show ?thesis using Cons by (simp add: ac_simps)
  qed
qed simp

lemma handle_response_account:
  assumes "handle_response ps m = (ps', es)" "distinct (map fst ps)"
  shows "waiting_callers ps = answered es + waiting_callers ps' \<and> distinct (map fst ps') \<and> set ps' \<subseteq> set ps"
  using assms take_pending_waiting [OF assms(2)]
  by (auto simp: take_pending_def answered_answer distinct_map_filter split: option.splits)

lemma handle_responses_account:
  "handle_responses ps ms = (ps', es) \<Longrightarrow> distinct (map fst ps) \<Longrightarrow>
   waiting_callers ps = answered es + waiting_callers ps' \<and> distinct (map fst ps') \<and> set ps' \<subseteq> set ps"
proof (induction ms arbitrary: ps es)
  case (Cons m ms)
  obtain ps1 es1 where 1: "handle_response ps m = (ps1, es1)" by fastforce
  obtain es2 where 2: "handle_responses ps1 ms = (ps', es2)" "es = es1 @ es2"
    using Cons.prems(1) 1 by (auto split: prod.splits)
  show ?case
    using Cons.IH [OF 2(1)] handle_response_account [OF 1 Cons.prems(2)] 2(2) by (auto simp: ac_simps)
qed simp

text \<open>
  One operation: the callbacks called and those still waiting_callers are those that waited before and the
  new one.
\<close>

lemma call_account:
  assumes "ids_ok i n c" "n < 2 ^ 32" "rpc_call L now c command request (Some k) t = (c', es)"
  shows "ids_ok i (if next_request_id c' = next_request_id c then n else Suc n) c' \<and>
    waiting_callers (pending_requests c) + {#k#} = answered es + waiting_callers (pending_requests c')"
proof -
  obtain ok c1 where l: "pass_limiter L c = (ok, c1)" by fastforce
  have same: "pending_requests c1 = pending_requests c" "next_request_id c1 = next_request_id c"
    using l by (auto simp: pass_limiter_def Let_def split: option.splits prod.splits if_splits)
  have new: "next_request_id c \<notin> fst ` set (pending_requests c)"
    using assms(1) new_id [OF assms(2), of i] by (auto simp: ids_ok_def)
  have sub: "set (ids i n) \<subseteq> set (ids i (Suc n))" by (rule ids_mono) simp
  have mem: "i + word_of_nat n \<in> set (ids i (Suc n))" by (simp add: ids_snoc del: ids.simps)
  show ?thesis
  proof (cases "connected c \<and> \<not> breaker_open c \<and> ok")
    case True
    then have "pending_requests c' = pending_requests c @
        [(next_request_id c, \<lparr>req_callback = Some k, deadline = now +
          (if t < 0 then default_timeout_seconds c1 else t) * 1000000000\<rparr>)]"
      "next_request_id c' = next_request_id c + 1" "answered es = {#}"
      using assms(3) l same put_pending_new [OF new] by (auto simp: rpc_call_def Let_def)
    moreover have "next_request_id c + 1 \<noteq> next_request_id c" by simp
    ultimately show ?thesis
      using assms(1) new sub mem by (auto simp: ids_ok_def ac_simps)
  next
    case False
    then have "pending_requests c' = pending_requests c" "next_request_id c' = next_request_id c" "answered es = {#k#}"
      using assms(3) l same by (auto simp: rpc_call_def Let_def split: if_splits)
    then show ?thesis using assms(1) by (simp add: ids_ok_def)
  qed
qed

lemma ids_ok_fewer:
  assumes "ids_ok i n c" "next_request_id c' = next_request_id c"
    "set (pending_requests c') \<subseteq> set (pending_requests c)" "distinct (map fst (pending_requests c'))"
  shows "ids_ok i n c'"
  using assms image_mono [OF assms(3), of fst] unfolding ids_ok_def by auto

lemma op_account:
  assumes "ids_ok i n c" "n < 2 ^ 32" "run_op L rnd x c = (c', es)"
  shows "\<exists>m \<le> n + size (called [x]). ids_ok i m c' \<and>
    waiting_callers (pending_requests c) + called [x] = answered es + waiting_callers (pending_requests c')"
proof (cases x)
  case (Call r)
  then show ?thesis
    using call_account [OF assms(1,2), of L "r_now r" "r_cmd r" "r_request r" "r_callback r" "r_timeout r" c' es] assms(3)
    by (cases "next_request_id c' = next_request_id c") (auto intro: exI [of _ n] exI [of _ "Suc n"])
next
  case (Read d)
  obtain ms buf where r: "reparse (recv_buffer c) d = (ms, buf)" by fastforce
  obtain ps es' where h: "handle_responses (pending_requests c) ms = (ps, es')" by fastforce
  have "c' = c\<lparr>recv_buffer := buf, pending_requests := ps\<rparr>" "es = es'"
    using Read assms(3) r h by (simp_all add: client_on_message_def)
  moreover have "waiting_callers (pending_requests c) = answered es' + waiting_callers ps" "distinct (map fst ps)"
      "set ps \<subseteq> set (pending_requests c)"
    using handle_responses_account [OF h] assms(1) by (auto simp: ids_ok_def)
  ultimately show ?thesis
    using Read ids_ok_fewer [OF assms(1), of c'] by (intro exI [of _ n]) simp
next
  case (Expire clk now)
  let ?ps = "filter (\<lambda>p. \<not> deadline (snd p) \<le> now) (pending_requests c)"
  have "pending_requests c' = ?ps" "next_request_id c' = next_request_id c"
      "es = fail_all (filter (\<lambda>p. deadline (snd p) \<le> now) (pending_requests c))"
    using Expire assms(3) by (auto simp: cleanup_expired_requests_def Let_def)
  moreover have "distinct (map fst ?ps)" using assms(1) by (simp add: ids_ok_def distinct_map_filter)
  ultimately show ?thesis
    using Expire ids_ok_fewer [OF assms(1), of c']
      waiting_partition [of "\<lambda>p. deadline (snd p) \<le> now" "pending_requests c"]
    by (intro exI [of _ n]) (simp add: answered_fail_all)
next
  case Lost
  then show ?thesis
    using assms ids_ok_fewer [OF assms(1), of c']
    by (intro exI [of _ n]) (auto simp: client_on_disconnect_def answered_fail_all)
next
  case Disconnect
  then show ?thesis
    using assms ids_ok_fewer [OF assms(1), of c']
    by (intro exI [of _ n]) (auto simp: rpc_disconnect_def stop_cleanup_thread_def answered_fail_all)
qed

lemma ops_account:
  "ids_ok i n c \<Longrightarrow> n + size (called xs) < 2 ^ 32 \<Longrightarrow> run_ops L rnd xs c = (c', es) \<Longrightarrow>
   waiting_callers (pending_requests c) + called xs = answered es + waiting_callers (pending_requests c')"
proof (induction xs arbitrary: n c es)
  case (Cons x xs)
  obtain c1 es1 where 1: "run_op L rnd x c = (c1, es1)" by fastforce
  obtain es2 where 2: "run_ops L rnd xs c1 = (c', es2)" "es = es1 @ es2"
    using Cons.prems(3) 1 by (auto split: prod.splits)
  have "n < 2 ^ 32" using Cons.prems(2) by simp
  from op_account [OF Cons.prems(1) this 1] obtain m where m: "m \<le> n + size (called [x])" "ids_ok i m c1"
      "waiting_callers (pending_requests c) + called [x] = answered es1 + waiting_callers (pending_requests c1)" by blast
  have x: "called (x # xs) = called [x] + called xs" by simp
  then have "m + size (called xs) < 2 ^ 32" using m(1) Cons.prems(2) by (simp del: called.simps)
  from Cons.IH [OF m(2) this 2(1)] have "waiting_callers (pending_requests c) + called [x] + called xs =
      answered es + waiting_callers (pending_requests c')"
    by (simp only: m(3) 2(2) answered_append) (simp add: ac_simps)
  then show ?case by (simp only: x add.assoc)
qed simp

section \<open>Findings\<close>

text \<open>
  When the peer closes the connection the cleanup thread keeps running: the next successful connect
  assigns to a joinable \<^verbatim>\<open>std::thread\<close> and ends the process.
\<close>

lemma reconnect_terminates:
  assumes "cleanup_joinable c" "0 \<le> fd" "0 < pton" "0 \<le> conn"
  shows "rpc_connect (fst (client_on_disconnect c)) fd pton conn = Inl Terminate"
  using assms by (simp add: rpc_connect_def client_on_disconnect_def start_cleanup_thread_def)

text \<open>The bytes of a half-received response survive the loss of the connection.\<close>

lemma disconnect_keeps_buffer:
  "recv_buffer (fst (client_on_disconnect c)) = recv_buffer c" "recv_buffer (fst (rpc_disconnect c)) = recv_buffer c"
  by (simp_all add: client_on_disconnect_def rpc_disconnect_def stop_cleanup_thread_def)

text \<open>A call with the default timeout \<open>-1\<close> waits for no time in \<^verbatim>\<open>call_sync\<close>.\<close>

lemma call_sync_default_no_wait: "call_sync_wait_ns (- 1) = 0"
  by (simp add: call_sync_wait_ns_def)

text \<open>Responses never reach the breaker: its success counter stands still, so the failure rate is 1 after any timeout.\<close>

lemma responses_not_reported: "circuit_breaker (fst (client_on_message c d)) = circuit_breaker c"
  by (simp add: client_on_message_def split: prod.splits)

text \<open>An open breaker stops every call before it is sent.\<close>

lemma open_breaker_rejects:
  assumes "connected c" "breaker_open c"
  shows "rpc_call L now c command request cb t = (c, answer cb False empty_message)"
  using assms by (simp add: rpc_call_def)

text \<open>
  \<^verbatim>\<open>check\<close> of the token bucket already takes a token, and the client calls \<^verbatim>\<open>consume\<close> as well: each call
  costs two.
\<close>

lemma call_costs_two_tokens:
  assumes "rate_limiter c = Some l" "buckets l ''rpc'' = Some b" "2 \<le> tokens b" "last_refill_time_ms b = now"
  shows "pass_limiter (token_bucket_limiter rnd (\<lambda>_. now)) c =
    (True, c\<lparr>rate_limiter := Some (l\<lparr>buckets := (buckets l)(''rpc'' \<mapsto> b\<lparr>tokens := tokens b - 2\<rparr>)\<rparr>)\<rparr>)"
  using assms
  by (simp add: pass_limiter_def token_bucket_limiter_def tb_check_def tb_consume_def tb_get_remaining_def
      refill_tokens_def Let_def)

section \<open>Properties\<close>

text \<open>A server with one method that counts its calls and returns the request reversed.\<close>

definition demo_server :: "nat rpc_server" where
  "demo_server = register_method rpc_server_init 7 (\<lambda>req n. (Returns (rev req), n + 1))"

definition demo_limiter :: "token_bucket limiter" where
  "demo_limiter = token_bucket_limiter (\<lambda>x. x) (\<lambda>_. 0)"

definition demo_client :: "token_bucket rpc_client" where
  "demo_client = (rpc_client_init 5)\<lparr>connected := True\<rparr>"

definition demo_calls :: "rcall list" where
  "demo_calls = [\<lparr>r_cmd = 7, r_request = [1, 2], r_callback = 3, r_timeout = 5, r_now = 0\<rparr>,
     \<lparr>r_cmd = 8, r_request = [], r_callback = 4, r_timeout = 5, r_now = 0\<rparr>]"

text \<open>
  C10. For a connected client that has neither a circuit breaker nor a rate limiter, with nothing
  pending and nothing buffered on either side, a sequence of at most \<open>2 ^ 32\<close> calls whose requests and
  responses fit the 16-bit length field is the same as calling the methods directly: whatever way
  the request bytes and the response bytes are cut into reads, the server runs each request
  once and in order, and the client calls each callback once, in order, with what the method
  returned, the text of its exception, or nothing for an unknown method; no request stays pending.
\<close>

theorem rpc_is_direct_call:
  assumes "connected c" "circuit_breaker c = None" "rate_limiter c = None" "pending_requests c = []"
    "recv_buffer c = []" "entry_buffer s conn = []" "length rs \<le> 2 ^ 32" "calls_fit (methods s) rs st"
    "rpc_run_calls L c rs = (c1, evs)" "concat request_reads = sent evs"
    "serve_reads s conn request_reads st = (s1, out, st1, ok)" "concat response_reads = out"
    "client_reads c1 response_reads = (c2, answers)"
  shows "ok \<and> total_requests s1 = total_requests s + int (length rs) \<and>
    (answers, st1) = direct_calls (methods s) rs st \<and> pending_requests c2 = []"
proof -
  let ?i = "next_request_id c"
  have d: "distinct (ids ?i (length rs))" using assms(7) by (rule distinct_ids)
  have c1: "sent evs = concat (map serialize (requests ?i rs))" "recv_buffer c1 = []"
      "map (\<lambda>p. (fst p, req_callback (snd p))) (pending_requests c1) =
       zip (ids ?i (length rs)) (map (\<lambda>r. Some (r_callback r)) rs)"
    using run_calls_sends [OF assms(1-3) _ assms(9)] d assms(4,5) by simp_all
  note sv = serve_requests [OF assms(8), of ?i]
  obtain b where "rpc.feed_all (entry_buffer s conn) request_reads = Inr (requests ?i rs, b)"
    using rpc.feed_all_roundtrip [of "[]" "requests ?i rs" request_reads] sv assms(6,10) c1(1) by auto
  from serve_reads_ok [OF this] sv assms(11) have s1: "ok" "st1 = snd (direct_calls (methods s) rs st)"
      "out = concat (map serialize (responses (methods s) ?i rs st))"
      "total_requests s1 = total_requests s + int (length rs)"
    by fastforce+
  obtain b' where "rpc.feed_all (recv_buffer c1) response_reads = Inr (responses (methods s) ?i rs st, b')"
    using rpc.feed_all_roundtrip [of "[]" "responses (methods s) ?i rs st" response_reads] sv assms(12) s1(3) c1(2)
    by auto
  from client_reads_handle [OF this] responses_answered [OF assms(8) d c1(3)] assms(13) s1
  show ?thesis by (cases "direct_calls (methods s) rs st") auto
qed

theorem rpc_is_direct_call_witness:
  "\<exists>c1 evs s1 out st1 ok c2 answers. rpc_run_calls demo_limiter demo_client demo_calls = (c1, evs) \<and>
    serve_reads demo_server 1 [sent evs] 0 = (s1, out, st1, ok) \<and> client_reads c1 [out] = (c2, answers) \<and>
    st1 = 1 \<and> answers = [Answer 3 True \<lparr>cmd = 7, body = [2, 1]\<rparr>, Answer 4 True \<lparr>cmd = 8, body = []\<rparr>]"
proof -
  obtain c1 evs where 1: "rpc_run_calls demo_limiter demo_client demo_calls = (c1, evs)" by fastforce
  obtain s1 out st1 ok where 2: "serve_reads demo_server 1 [sent evs] 0 = (s1, out, st1, ok)"
    using prod_cases4 by blast
  obtain c2 answers where 3: "client_reads c1 [out] = (c2, answers)" by fastforce
  have m: "methods demo_server 7 = Some (\<lambda>req n. (Returns (rev req), n + 1))" "methods demo_server 8 = None"
    by (simp_all add: demo_server_def register_method_def rpc_server_init_def)
  have fit: "calls_fit (methods demo_server) demo_calls 0"
    by (simp add: demo_calls_def respond_def m)
  have dir: "direct_calls (methods demo_server) demo_calls 0 =
      ([Answer 3 True \<lparr>cmd = 7, body = [2, 1]\<rparr>, Answer 4 True \<lparr>cmd = 8, body = []\<rparr>], 1)"
    by (simp add: demo_calls_def respond_def m)
  have "(answers, st1) = direct_calls (methods demo_server) demo_calls 0"
    using rpc_is_direct_call [OF _ _ _ _ _ _ _ fit 1 _ 2 _ 3]
    by (simp add: demo_client_def rpc_client_init_def entry_buffer_def demo_server_def register_method_def
        rpc_server_init_def demo_calls_def)
  then show ?thesis using 1 2 3 dir by simp
qed

text \<open>
  C12. Whatever responses arrive, however requests expire and the connection is lost, every callback
  handed to \<^verbatim>\<open>call\<close> is called exactly once or is still pending, as long as fewer than \<open>2 ^ 32\<close> calls
  have been made; after a disconnect all have been called.
\<close>

theorem rpc_callbacks_once:
  assumes "pending_requests c = []" "size (called xs) < 2 ^ 32" "run_ops L rnd xs c = (c', es)"
  shows "called xs = answered es + waiting_callers (pending_requests c') \<and>
    called xs = answered es + answered (snd (rpc_disconnect c'))"
proof -
  have "ids_ok (next_request_id c) 0 c" using assms(1) by (simp add: ids_ok_def)
  from ops_account [OF this _ assms(3)] assms(1,2) show ?thesis
    by (simp add: rpc_disconnect_def answered_fail_all)
qed

theorem rpc_callbacks_once_witness:
  "\<exists>c' es. run_ops demo_limiter (\<lambda>x. x) (map Call demo_calls @ [Read [], Lost]) demo_client = (c', es) \<and>
    answered es + waiting_callers (pending_requests c') = {#3, 4#}"
proof -
  let ?xs = "map Call demo_calls @ [Read [], Lost]"
  obtain c' es where r: "run_ops demo_limiter (\<lambda>x. x) ?xs demo_client = (c', es)" by fastforce
  have p: "pending_requests demo_client = []" by (simp add: demo_client_def rpc_client_init_def)
  have x: "called ?xs = {#3, 4#}" by (simp add: demo_calls_def)
  have "size (called ?xs) < 2 ^ 32" by (simp add: x)
  from rpc_callbacks_once [OF p this r] r show ?thesis unfolding x by metis
qed

end
