(* ===== verification/Gateway.thy ===== *)
theory Gateway
  imports GameService ConsistentHash
begin

text \<open>
  \<^verbatim>\<open>gateway/gateway_forwarder.{h,cpp}\<close>: a component of a gateway service that opens one backend
  connection per client, sends the client's messages there and the backend's bytes back. In the
  node-type mode the backend is chosen by the consistent hash of the client's address.

  Connections are addresses. A client's handlers run in its own read loop and the two maps are only
  touched under the mutex, so each handler is one step. The results of the socket calls are the
  record \<open>backend_calls\<close>; \<open>yaml\<close> is what \<^verbatim>\<open>yaml-cpp\<close> reads from a file, \<open>None\<close> when it throws or is not
  compiled in; \<open>show\<close> is \<^verbatim>\<open>std::to_string\<close> of an address.
\<close>

section \<open>State\<close>

record gateway =
  backend_host :: string
  backend_port :: "16 word"
  backend_node_type :: string
  cluster_config_path :: string
  registry_loaded :: bool
  gw_registry :: registry
  client_to_backend :: "nat \<rightharpoonup> nat"
  backend_to_client :: "nat \<rightharpoonup> nat"

definition gateway_direct :: "string \<Rightarrow> 16 word \<Rightarrow> gateway" where
  "gateway_direct host port = \<lparr>backend_host = host, backend_port = port, backend_node_type = [],
     cluster_config_path = [], registry_loaded = False, gw_registry = registry_init,
     client_to_backend = Map.empty, backend_to_client = Map.empty\<rparr>"

definition gateway_by_type :: "string \<Rightarrow> string \<Rightarrow> gateway" where
  "gateway_by_type ty path = \<lparr>backend_host = [], backend_port = 0, backend_node_type = ty,
     cluster_config_path = (if path = [] then ''config/cluster.yaml'' else path), registry_loaded = False,
     gw_registry = registry_init, client_to_backend = Map.empty, backend_to_client = Map.empty\<rparr>"

record gateway_env =
  sort_ring :: "vnode list \<Rightarrow> vnode list"
  yaml :: "string \<Rightarrow> node_info list option option"
  show_address :: "nat \<Rightarrow> string"

record backend_calls =
  gw_socket_fd :: int
  gw_inet_pton :: int
  gw_connect :: int
  gw_backend :: nat

section \<open>Operations\<close>

text \<open>The bytes a handler sends, and the connections it closes.\<close>

definition load_from_yaml_file :: "gateway_env \<Rightarrow> registry \<Rightarrow> string \<Rightarrow> bool \<times> registry" where
  "load_from_yaml_file E g path =
     (case yaml E path of
        None \<Rightarrow> (False, g)
      | Some doc \<Rightarrow> load_from_yaml_node (sort_ring E) g doc)"

definition gw_on_disconnect :: "gateway \<Rightarrow> nat \<Rightarrow> gateway \<times> nat list" where
  "gw_on_disconnect g conn =
     (case client_to_backend g conn of
        None \<Rightarrow> (g, [])
      | Some backend \<Rightarrow>
          (g\<lparr>backend_to_client := (backend_to_client g)(backend := None),
             client_to_backend := (client_to_backend g)(conn := None)\<rparr>, [backend]))"

definition has_backend :: "gateway \<Rightarrow> nat \<Rightarrow> bool" where
  "has_backend g client = (client_to_backend g client \<noteq> None)"

definition do_connect :: "gateway \<Rightarrow> nat \<Rightarrow> string \<Rightarrow> 16 word \<Rightarrow> backend_calls \<Rightarrow> gateway \<times> nat option" where
  "do_connect g client host port os =
     (if host = [] \<or> port = 0 then (g, None)
      else if gw_socket_fd os < 0 then (g, None)
      else if gw_inet_pton os \<le> 0 then (g, None)
      else if gw_connect os < 0 then (g, None)
      else (g\<lparr>client_to_backend := (client_to_backend g)(client \<mapsto> gw_backend os),
              backend_to_client := (backend_to_client g)(gw_backend os \<mapsto> client)\<rparr>, Some (gw_backend os)))"

definition ensure_registry :: "gateway_env \<Rightarrow> gateway \<Rightarrow> gateway" where
  "ensure_registry E g =
     (if registry_loaded g then g
      else g\<lparr>gw_registry := snd (load_from_yaml_file E (gw_registry g) (cluster_config_path g)),
             registry_loaded := True\<rparr>)"

definition backend_address :: "gateway_env \<Rightarrow> gateway \<Rightarrow> nat \<Rightarrow> string \<times> 16 word" where
  "backend_address E g client =
     (if backend_node_type g = [] then (backend_host g, backend_port g)
      else case select_node_by_hash (gw_registry g) (show_address E client) (backend_node_type g) of
             Some info \<Rightarrow> (listen_addr info, listen_port info)
           | None \<Rightarrow> (backend_host g, backend_port g))"

definition connect_backend :: "gateway_env \<Rightarrow> gateway \<Rightarrow> nat \<Rightarrow> backend_calls \<Rightarrow> gateway \<times> nat option" where
  "connect_backend E g client os =
     (let g1 = (if backend_node_type g = [] then g else ensure_registry E g);
          (host, port) = backend_address E g1 client
      in do_connect g1 client host port os)"

definition forward :: "gateway_env \<Rightarrow> gateway \<Rightarrow> nat \<Rightarrow> message \<Rightarrow> backend_calls \<Rightarrow> gateway \<times> sends" where
  "forward E g client msg os =
     (case client_to_backend g client of
        Some backend \<Rightarrow> (g, [(backend, serialize msg)])
      | None \<Rightarrow>
          (case connect_backend E g client os of
             (g', None) \<Rightarrow> (g', send_message client \<lparr>cmd = cmd msg, body = ascii ''gateway: backend unavailable''\<rparr>)
           | (g', Some backend) \<Rightarrow> (g', [(backend, serialize msg)])))"

definition on_backend_message :: "gateway \<Rightarrow> nat \<Rightarrow> bytes \<Rightarrow> sends" where
  "on_backend_message g backend data =
     (case backend_to_client g backend of None \<Rightarrow> [] | Some client \<Rightarrow> [(client, data)])"

text \<open>In the node-type mode the function only logs that the next message will reconnect.\<close>

definition on_backend_close :: "gateway \<Rightarrow> nat \<Rightarrow> gateway" where
  "on_backend_close g backend =
     (case backend_to_client g backend of
        None \<Rightarrow> g
      | Some client \<Rightarrow> g\<lparr>client_to_backend := (client_to_backend g)(client := None),
                         backend_to_client := (backend_to_client g)(backend := None)\<rparr>)"

section \<open>Runs\<close>

datatype gw_op =
    Forward nat message backend_calls
  | ClientGone nat
  | BackendData nat bytes
  | BackendGone nat

fun gw_op_run :: "gateway_env \<Rightarrow> gw_op \<Rightarrow> gateway \<Rightarrow> gateway \<times> sends" where
  "gw_op_run E (Forward client msg os) g = forward E g client msg os"
| "gw_op_run E (ClientGone client) g = (fst (gw_on_disconnect g client), [])"
| "gw_op_run E (BackendData b data) g = (g, on_backend_message g b data)"
| "gw_op_run E (BackendGone b) g = (on_backend_close g b, [])"

fun gw_run :: "gateway_env \<Rightarrow> gw_op list \<Rightarrow> gateway \<Rightarrow> gateway \<times> sends" where
  "gw_run E [] g = (g, [])"
| "gw_run E (x # xs) g = (let (g1, out) = gw_op_run E x g; (g2, out') = gw_run E xs g1 in (g2, out @ out'))"

text \<open>
  Live connection objects have different addresses: a client is no backend connection, and a new
  backend connection is neither a known one nor a client.
\<close>

fun op_fresh :: "gateway \<Rightarrow> gw_op \<Rightarrow> bool" where
  "op_fresh g (Forward client msg os) =
     (backend_to_client g client = None \<and> backend_to_client g (gw_backend os) = None \<and>
      client_to_backend g (gw_backend os) = None \<and> gw_backend os \<noteq> client)"
| "op_fresh g x = True"

fun run_fresh :: "gateway_env \<Rightarrow> gw_op list \<Rightarrow> gateway \<Rightarrow> bool" where
  "run_fresh E [] g = True"
| "run_fresh E (x # xs) g = (op_fresh g x \<and> run_fresh E xs (fst (gw_op_run E x g)))"

text \<open>The two maps are inverse to each other, and no address is in both.\<close>

definition paired :: "gateway \<Rightarrow> bool" where
  "paired g = ((\<forall>c b. client_to_backend g c = Some b \<longleftrightarrow> backend_to_client g b = Some c) \<and>
     (\<forall>x. client_to_backend g x = None \<or> backend_to_client g x = None))"

lemma paired_pair:
  assumes "paired g" "client_to_backend g c = None" "backend_to_client g b = None"
    "backend_to_client g c = None" "client_to_backend g b = None" "b \<noteq> c"
  shows "paired (g\<lparr>client_to_backend := (client_to_backend g)(c \<mapsto> b), backend_to_client := (backend_to_client g)(b \<mapsto> c)\<rparr>)"
  using assms unfolding paired_def by (simp, metis option.distinct(1))

lemma paired_unpair:
  assumes "paired g" "client_to_backend g c = Some b"
  shows "paired (g\<lparr>client_to_backend := (client_to_backend g)(c := None), backend_to_client := (backend_to_client g)(b := None)\<rparr>)"
proof -
  have "client_to_backend g x = Some b \<longleftrightarrow> x = c" "backend_to_client g y = Some c \<longleftrightarrow> y = b" for x y
    using assms unfolding paired_def by (metis option.inject)+
  then show ?thesis using assms(1) by (auto simp: paired_def)
qed

lemma connect_outcome:
  assumes "connect_backend E g client os = (g', r)"
  shows "(r = None \<and> client_to_backend g' = client_to_backend g \<and> backend_to_client g' = backend_to_client g) \<or>
    (r = Some (gw_backend os) \<and> client_to_backend g' = (client_to_backend g)(client \<mapsto> gw_backend os) \<and>
     backend_to_client g' = (backend_to_client g)(gw_backend os \<mapsto> client))"
  using assms by (auto simp: connect_backend_def do_connect_def ensure_registry_def Let_def split: prod.splits if_splits)

lemma paired_maps:
  "paired g \<Longrightarrow> client_to_backend g' = client_to_backend g \<Longrightarrow> backend_to_client g' = backend_to_client g \<Longrightarrow> paired g'"
  by (simp add: paired_def)

lemma paired_op:
  assumes "paired g" "op_fresh g x" "gw_op_run E x g = (g', out)"
  shows "paired g'"
proof (cases x)
  case (Forward client msg os)
  show ?thesis
  proof (cases "client_to_backend g client")
    case None
    obtain g1 r where c: "connect_backend E g client os = (g1, r)" by fastforce
    have "g' = g1" using assms(3) Forward None c by (auto simp: forward_def split: option.splits)
    moreover have "paired g1"
      using connect_outcome [OF c]
    proof
      assume "r = None \<and> client_to_backend g1 = client_to_backend g \<and> backend_to_client g1 = backend_to_client g"
      then show ?thesis using paired_maps [OF assms(1)] by simp
    next
      assume "r = Some (gw_backend os) \<and> client_to_backend g1 = (client_to_backend g)(client \<mapsto> gw_backend os) \<and>
        backend_to_client g1 = (backend_to_client g)(gw_backend os \<mapsto> client)"
      then show ?thesis
        using paired_maps [OF paired_pair [OF assms(1) None, of "gw_backend os"], of g1] assms(2) Forward by simp
    qed
    ultimately show ?thesis by simp
  qed (use assms Forward in \<open>simp add: forward_def\<close>)
next
  case (ClientGone client)
  show ?thesis
  proof (cases "client_to_backend g client")
    case None
    then show ?thesis using assms(1,3) ClientGone by (simp add: gw_on_disconnect_def)
  next
    case (Some b)
    then have "client_to_backend g' = (client_to_backend g)(client := None)"
        "backend_to_client g' = (backend_to_client g)(b := None)"
      using assms(3) ClientGone by (auto simp: gw_on_disconnect_def)
    then show ?thesis using paired_maps [OF paired_unpair [OF assms(1) Some], of g'] by simp
  qed
next
  case (BackendGone b)
  show ?thesis
  proof (cases "backend_to_client g b")
    case None
    then show ?thesis using assms(1,3) BackendGone by (simp add: on_backend_close_def)
  next
    case (Some c)
    then have "client_to_backend g c = Some b" using assms(1) by (simp add: paired_def)
    from paired_unpair [OF assms(1) this] show ?thesis
      using assms(3) BackendGone Some by (simp add: on_backend_close_def)
  qed
qed (use assms in simp)

lemma paired_run: "paired g \<Longrightarrow> run_fresh E xs g \<Longrightarrow> paired (fst (gw_run E xs g))"
proof (induction xs arbitrary: g)
  case (Cons x xs)
  obtain g1 out where 1: "gw_op_run E x g = (g1, out)" by fastforce
  then have "paired g1" "run_fresh E xs g1" using paired_op [of g x E] Cons.prems by auto
  then show ?case using Cons.IH [of g1] 1 by (simp add: case_prod_beta)
qed simp

text \<open>The bytes sent to one connection, and the messages one client forwards.\<close>

definition bytes_to :: "nat \<Rightarrow> sends \<Rightarrow> bytes" where
  "bytes_to x out = concat (map snd (filter (\<lambda>e. fst e = x) out))"

fun forwarded :: "nat \<Rightarrow> gw_op list \<Rightarrow> message list" where
  "forwarded c [] = []"
| "forwarded c (x # xs) =
     (case x of Forward d m os \<Rightarrow> if d = c then m # forwarded c xs else forwarded c xs | _ \<Rightarrow> forwarded c xs)"

lemma bytes_to_simps [simp]:
  "bytes_to x [] = []" "bytes_to x ((y, bs) # out) = (if x = y then bs else []) @ bytes_to x out"
  "bytes_to x (out @ out') = bytes_to x out @ bytes_to x out'"
  by (auto simp: bytes_to_def)

lemma pair_kept_op:
  assumes "paired g" "op_fresh g x" "client_to_backend g c = Some b" "x \<noteq> ClientGone c" "x \<noteq> BackendGone b"
    "gw_op_run E x g = (g', out)"
  shows "client_to_backend g' c = Some b \<and> bytes_to b out = concat (map serialize (forwarded c [x]))"
proof (cases x)
  case (Forward d m os)
  have b: "backend_to_client g b = Some c" using assms(1,3) by (simp add: paired_def)
  show ?thesis
  proof (cases "client_to_backend g d")
    case (Some e)
    moreover have "e = b \<longleftrightarrow> d = c" using assms(1,3) Some b by (metis option.inject paired_def)
    ultimately show ?thesis using assms(3,6) Forward by (auto simp: forward_def)
  next
    case None
    then have "d \<noteq> c" "d \<noteq> b" "gw_backend os \<noteq> b" using assms(2,3) Forward b by auto
    then show ?thesis
      using None assms(3,6) Forward connect_outcome [of E g d os]
      by (auto simp: forward_def send_message_def split: prod.splits option.splits)
  qed
next
  case (ClientGone d)
  then show ?thesis using assms(3,4,6) by (auto simp: gw_on_disconnect_def split: option.splits)
next
  case (BackendData e data)
  have "backend_to_client g e \<noteq> Some b" using assms(1,3) unfolding paired_def by (metis option.distinct(1))
  then have "bytes_to b (on_backend_message g e data) = []"
    by (auto simp: on_backend_message_def split: option.splits)
  then show ?thesis using assms(3,6) BackendData by auto
next
  case (BackendGone e)
  have "backend_to_client g e \<noteq> Some c"
    using assms(1,3,5) BackendGone unfolding paired_def by (metis option.inject)
  then show ?thesis
    using assms(3,6) BackendGone by (auto simp: on_backend_close_def split: option.splits)
qed

lemma pair_kept_run:
  "paired g \<Longrightarrow> run_fresh E xs g \<Longrightarrow> client_to_backend g c = Some b \<Longrightarrow> ClientGone c \<notin> set xs \<Longrightarrow>
   BackendGone b \<notin> set xs \<Longrightarrow> gw_run E xs g = (g', out) \<Longrightarrow>
   client_to_backend g' c = Some b \<and> bytes_to b out = concat (map serialize (forwarded c xs))"
proof (induction xs arbitrary: g out)
  case (Cons x xs)
  obtain g1 out1 where 1: "gw_op_run E x g = (g1, out1)" by fastforce
  obtain out2 where 2: "gw_run E xs g1 = (g', out2)" "out = out1 @ out2"
    using Cons.prems(6) 1 by (auto split: prod.splits)
  have fresh: "op_fresh g x" "run_fresh E xs g1" using Cons.prems(2) 1 by simp_all
  have k: "client_to_backend g1 c = Some b" "bytes_to b out1 = concat (map serialize (forwarded c [x]))"
    using pair_kept_op [OF Cons.prems(1) fresh(1) Cons.prems(3) _ _ 1] Cons.prems(4,5) by auto
  have f: "forwarded c (x # xs) = forwarded c [x] @ forwarded c xs" by (simp split: gw_op.split)
  show ?case
    using Cons.IH [OF paired_op [OF Cons.prems(1) fresh(1) 1] fresh(2) k(1) _ _ 2(1)] Cons.prems(4,5) k(2) 2(2)
    by (simp del: forwarded.simps add: f)
qed simp

lemma parser_reads_frames:
  assumes "list_all wire_valid ms" "concat cs = concat (map serialize ms)"
  shows "fst (feed_reads parser_init cs) = ms"
proof -
  have "parser_inv parser_init" "parser_pending parser_init = []"
    by (simp_all add: parser_init_def parser_inv_def parser_pending_def)
  from parser.feed_all_roundtrip [OF this assms] show ?thesis by (auto simp: feed_all_reads)
qed

lemma paired_init: "paired (gateway_direct host port)" "paired (gateway_by_type ty path)"
  by (simp_all add: paired_def gateway_direct_def gateway_by_type_def)

section \<open>Findings\<close>

text \<open>
  A failed load is remembered as a load: the gateway never reads its configuration again, and in the
  node-type mode there is no host to fall back to, so every client is refused from then on.
\<close>

lemma failed_load_is_final:
  assumes "ty \<noteq> []" "yaml E (cluster_config_path (gateway_by_type ty path)) = None"
    "g = fst (connect_backend E (gateway_by_type ty path) client os)"
  shows "snd (connect_backend E g client' os') = None"
proof -
  have none: "select_node_by_hash registry_init k ty = None" for k
    by (simp add: select_node_by_hash_def select_instance_def registry_init_def ring_init_def Let_def)
  have "g = (gateway_by_type ty path)\<lparr>registry_loaded := True\<rparr>"
    using assms(1-3) none
    by (auto simp: connect_backend_def ensure_registry_def load_from_yaml_file_def backend_address_def
        do_connect_def gateway_by_type_def Let_def)
  then show ?thesis
    using assms(1) none
    by (simp add: connect_backend_def ensure_registry_def backend_address_def do_connect_def gateway_by_type_def Let_def)
qed

section \<open>Properties\<close>

definition demo_backend :: "nat \<Rightarrow> backend_calls" where
  "demo_backend b = \<lparr>gw_socket_fd = 5, gw_inet_pton = 1, gw_connect = 0, gw_backend = b\<rparr>"

definition gateway_demo_env :: gateway_env where
  "gateway_demo_env = \<lparr>sort_ring = (\<lambda>vs. vs), yaml = (\<lambda>_. None), show_address = (\<lambda>_. [])\<rparr>"

text \<open>
  At every moment the gateway's two maps are inverse to each other: every client has at most one
  backend connection, that connection serves only this client, and what it sends goes to this
  client and to nobody else.
\<close>

lemma gateway_pairs:
  assumes "g0 = gateway_direct host port \<or> g0 = gateway_by_type ty path" "run_fresh E xs g0"
  defines "g \<equiv> fst (gw_run E xs g0)"
  shows "(client_to_backend g c = Some b) = (backend_to_client g b = Some c) \<and>
    (client_to_backend g c = Some b \<longrightarrow> on_backend_message g b data = [(c, data)])"
proof -
  have "paired g" using paired_run [OF _ assms(2)] paired_init assms(1) by (auto simp: g_def)
  then show ?thesis by (auto simp: paired_def on_backend_message_def)
qed

text \<open>
  C13. The gateway forwards a client's messages faithfully: from the message that opens the backend
  connection until either side goes away, and whatever other clients and backends do meanwhile, the
  backend's parser gets exactly the client's messages, in order, however the bytes are cut.
\<close>

theorem gateway_forwards_messages:
  assumes "paired g" "client_to_backend g c = None" "run_fresh E (Forward c m os # xs) g"
    "forward E g c m os = (g1, out0)" "client_to_backend g1 c = Some b"
    "ClientGone c \<notin> set xs" "BackendGone b \<notin> set xs" "gw_run E (Forward c m os # xs) g = (g', out)"
    "list_all wire_valid (m # forwarded c xs)" "concat reads = bytes_to b out"
  shows "fst (feed_reads parser_init reads) = m # forwarded c xs"
proof -
  obtain out1 where r: "gw_run E xs g1 = (g', out1)" "out = out0 @ out1"
    using assms(4,8) by (auto split: prod.splits)
  have fresh: "op_fresh g (Forward c m os)" "run_fresh E xs g1" using assms(3,4) by simp_all
  have "paired g1" using paired_op [OF assms(1) fresh(1), of E] assms(4) by simp
  then have b1: "bytes_to b out1 = concat (map serialize (forwarded c xs))"
    using pair_kept_run [OF _ fresh(2) assms(5-7) r(1)] by simp
  have "bytes_to b out0 = serialize m"
    using assms(2,4,5) connect_outcome [of E g c os]
    by (auto simp: forward_def split: prod.splits option.splits)
  then have "concat reads = concat (map serialize (m # forwarded c xs))" using assms(10) r(2) b1 by simp
  then show ?thesis by (rule parser_reads_frames [OF assms(9)])
qed

theorem gateway_forwards_messages_witness:
  "fst (feed_reads parser_init [[0, 7, 0], [1, 5, 0, 8], [0, 0]]) = [\<lparr>cmd = 7, body = [5]\<rparr>, \<lparr>cmd = 8, body = []\<rparr>]"
proof -
  let ?g = "gateway_direct ''10.0.0.1'' 80" and ?m = "\<lparr>cmd = 7, body = [5]\<rparr>" and ?n = "\<lparr>cmd = 8, body = []\<rparr>"
  let ?xs = "[BackendData 2 [9], Forward 4 ?n (demo_backend 3)]"
  let ?g1 = "?g\<lparr>client_to_backend := [4 \<mapsto> 2], backend_to_client := [2 \<mapsto> 4]\<rparr>"
  have f: "forward gateway_demo_env ?g 4 ?m (demo_backend 2) = (?g1, [(2, serialize ?m)])"
    by (simp add: gateway_direct_def demo_backend_def forward_def connect_backend_def backend_address_def do_connect_def)
  have r: "gw_run gateway_demo_env (Forward 4 ?m (demo_backend 2) # ?xs) ?g =
      (?g1, [(2, serialize ?m), (4, [9]), (2, serialize ?n)])"
    by (simp add: f) (simp add: on_backend_message_def forward_def)
  have fresh: "run_fresh gateway_demo_env (Forward 4 ?m (demo_backend 2) # ?xs) ?g"
    by (simp add: f) (simp add: gateway_direct_def demo_backend_def)
  have "fst (feed_reads parser_init [[0, 7, 0], [1, 5, 0, 8], [0, 0]]) = ?m # forwarded 4 ?xs"
    by (rule gateway_forwards_messages [OF paired_init(1) _ fresh f _ _ _ r, of 2])
      (simp_all add: gateway_direct_def wire_valid_def serialize_def put_be16_eq)
  then show ?thesis by simp
qed

end
