(* ===== verification/PlayerMove.thy ===== *)
theory PlayerMove
  imports GameService
begin

text \<open>
  \<^verbatim>\<open>game/player_move.{h,cpp}\<close>: the component that keeps the players' positions and tells the room when
  one moves. It reads the sessions and the rooms of the game service. A \<^verbatim>\<open>float\<close> is only copied
  between the wire and the position, so it is its 32 bits. The string helpers of the file are those
  of the other game components.
\<close>

definition C2S_PLAYER_MOVE :: "16 word" where "C2S_PLAYER_MOVE = 0x0081"
definition S2C_PLAYER_POS :: "16 word" where "S2C_PLAYER_POS = 0x0083"

record position =
  pos_x :: "32 word"
  pos_y :: "32 word"
  pos_z :: "32 word"

record mover =
  in_service :: bool
  move_handler :: bool
  player_positions :: "bytes \<rightharpoonup> position"

definition mover_init :: mover where
  "mover_init = \<lparr>in_service = False, move_handler = False, player_positions = Map.empty\<rparr>"

section \<open>Wire format\<close>

definition encode_float :: "32 word \<Rightarrow> bytes" where
  "encode_float value = store32 value"

definition decode_float :: "bytes \<Rightarrow> nat \<Rightarrow> (32 word \<times> nat) option" where
  "decode_float data offset =
     (if length data < offset + 4 then None
      else Some (load32 (data ! offset) (data ! (offset + 1)) (data ! (offset + 2)) (data ! (offset + 3)),
                 offset + 4))"

definition position_body :: "bytes \<Rightarrow> position \<Rightarrow> bytes" where
  "position_body pid pos =
     encode_string pid @ encode_float (pos_x pos) @ encode_float (pos_y pos) @ encode_float (pos_z pos)"

section \<open>Operations\<close>

definition move_on_register :: "mover \<Rightarrow> game \<Rightarrow> mover" where
  "move_on_register m g = m\<lparr>in_service := True, move_handler := move_handler m \<or> get_component g Router\<rparr>"

definition move_room_id :: "mover \<Rightarrow> game \<Rightarrow> nat \<Rightarrow> bytes" where
  "move_room_id m g conn = (if in_service m \<and> get_component g SessionMgr then get_room_id g conn else [])"

definition move_player_id :: "mover \<Rightarrow> game \<Rightarrow> nat \<Rightarrow> bytes" where
  "move_player_id m g conn = (if in_service m \<and> get_component g SessionMgr then get_player_id g conn else [])"

definition send_player_position :: "nat \<Rightarrow> bytes \<Rightarrow> position \<Rightarrow> sends" where
  "send_player_position conn pid pos = send_message conn \<lparr>cmd = S2C_PLAYER_POS, body = position_body pid pos\<rparr>"

definition update_player_position :: "mover \<Rightarrow> bytes \<Rightarrow> position \<Rightarrow> mover" where
  "update_player_position m pid pos = m\<lparr>player_positions := (player_positions m)(pid \<mapsto> pos)\<rparr>"

definition get_player_position :: "mover \<Rightarrow> bytes \<Rightarrow> position option" where
  "get_player_position m pid = player_positions m pid"

definition broadcast_player_position ::
    "(nat set \<Rightarrow> nat list) \<Rightarrow> mover \<Rightarrow> game \<Rightarrow> bytes \<Rightarrow> bytes \<Rightarrow> position \<Rightarrow> sends" where
  "broadcast_player_position order m g rid pid pos =
     (if in_service m \<and> get_component g Room
      then concat (map (\<lambda>c. send_player_position c pid pos) (get_connections_in_room order g rid))
      else [])"

definition handle_player_move ::
    "(nat set \<Rightarrow> nat list) \<Rightarrow> mover \<Rightarrow> game \<Rightarrow> nat \<Rightarrow> bytes \<Rightarrow> sends \<times> mover" where
  "handle_player_move order m g conn data =
     (case decode_float data 0 of
        None \<Rightarrow> ([], m)
      | Some (x, o1) \<Rightarrow>
          (case decode_float data o1 of
             None \<Rightarrow> ([], m)
           | Some (y, o2) \<Rightarrow>
               (case decode_float data o2 of
                  None \<Rightarrow> ([], m)
                | Some (z, _) \<Rightarrow>
                    (let pid = move_player_id m g conn
                     in if pid = [] then ([], m)
                        else let pos = \<lparr>pos_x = x, pos_y = y, pos_z = z\<rparr>;
                                 m' = update_player_position m pid pos;
                                 rid = move_room_id m g conn
                             in (if rid = [] then [] else broadcast_player_position order m' g rid pid pos, m')))))"

definition move_on_disconnect :: "mover \<Rightarrow> game \<Rightarrow> nat \<Rightarrow> mover" where
  "move_on_disconnect m g conn =
     (let pid = move_player_id m g conn
      in if pid = [] then m else m\<lparr>player_positions := (player_positions m)(pid := None)\<rparr>)"

section \<open>Lemmas\<close>

lemma decode_encode_float: "decode_float (xs @ encode_float v @ ys) (length xs) = Some (v, length xs + 4)"
  by (simp add: decode_float_def encode_float_def nth_append store32_def)

text \<open>The client's decoding of a position message.\<close>

definition decode_position :: "bytes \<Rightarrow> (bytes \<times> position) option" where
  "decode_position data =
     (case decode_string data 0 of
        None \<Rightarrow> None
      | Some (pid, o0) \<Rightarrow>
          (case decode_float data o0 of
             None \<Rightarrow> None
           | Some (x, o1) \<Rightarrow>
               (case decode_float data o1 of
                  None \<Rightarrow> None
                | Some (y, o2) \<Rightarrow>
                    (case decode_float data o2 of
                       None \<Rightarrow> None
                     | Some (z, _) \<Rightarrow> Some (pid, \<lparr>pos_x = x, pos_y = y, pos_z = z\<rparr>)))))"

lemma decode_position_body: "length pid < 65536 \<Longrightarrow> decode_position (position_body pid pos) = Some (pid, pos)"
proof -
  assume l: "length pid < 65536"
  let ?s = "encode_string pid" and ?x = "encode_float (pos_x pos)" and ?y = "encode_float (pos_y pos)"
  have len: "length ?s = 2 + length pid" "length (encode_float v) = 4" for v
    by (simp_all add: encode_string_def encode_float_def)
  have "decode_float (position_body pid pos) (2 + length pid) = Some (pos_x pos, 6 + length pid)"
    "decode_float (position_body pid pos) (6 + length pid) = Some (pos_y pos, 10 + length pid)"
    "decode_float (position_body pid pos) (10 + length pid) = Some (pos_z pos, 14 + length pid)"
    using decode_encode_float [of ?s] decode_encode_float [of "?s @ ?x"]
      decode_encode_float [of "?s @ ?x @ ?y" "pos_z pos" "[]"]
    by (simp_all add: position_body_def len)
  then show ?thesis
    using decode_encode_string [OF l, of "[]"] by (simp add: decode_position_def position_body_def)
qed

lemma short_move_ignored: "length data < 12 \<Longrightarrow> handle_player_move order m g conn data = ([], m)"
  by (auto simp: handle_player_move_def decode_float_def)

lemma move_needs_session: "move_player_id m g conn = [] \<Longrightarrow> handle_player_move order m g conn data = ([], m)"
  by (simp add: handle_player_move_def split: option.splits prod.splits)

text \<open>
  The service disconnects its components in the order they were added. When the session manager
  comes first, the session is gone before the position is looked up and the position stays.
\<close>

lemma position_leaks:
  "move_on_disconnect m (on_disconnect now conn g SessionMgr) conn = m"
  by (simp add: move_on_disconnect_def move_player_id_def get_player_id_def on_disconnect_def get_component_def)

section \<open>Properties\<close>

text \<open>
  A move of a logged-in player is stored under the player's id and sent to exactly the
  connections of the player's room, and each of them decodes the player's id and the same
  coordinates, bit for bit.
\<close>

lemma move_reaches_room:
  assumes "in_service m" "get_component g SessionMgr" "get_component g Room"
    "get_player_id g conn = pid" "pid \<noteq> []" "get_room_id g conn = rid" "rid \<noteq> []" "length pid < 65522"
    "data = encode_float (pos_x pos) @ encode_float (pos_y pos) @ encode_float (pos_z pos) @ rest"
    "handle_player_move order m g conn data = (out, m')"
  shows "get_player_position m' pid = Some pos \<and> map fst out = get_connections_in_room order g rid \<and>
    (\<forall>bs \<in> set (map snd out). \<exists>msg. frame_step bs = Some (msg, []) \<and> cmd msg = S2C_PLAYER_POS \<and>
       decode_position (body msg) = Some (pid, pos))"
proof -
  let ?msg = "\<lparr>cmd = S2C_PLAYER_POS, body = position_body pid pos\<rparr>"
  have len: "length (encode_float v) = 4" for v by (simp add: encode_float_def)
  have d: "decode_float data 0 = Some (pos_x pos, 4)" "decode_float data 4 = Some (pos_y pos, 8)"
      "decode_float data 8 = Some (pos_z pos, 12)"
    using decode_encode_float [of "[]"] decode_encode_float [of "encode_float (pos_x pos)"]
      decode_encode_float [of "encode_float (pos_x pos) @ encode_float (pos_y pos)"]
    by (simp_all add: assms(9) len)
  have eta: "\<lparr>pos_x = pos_x pos, pos_y = pos_y pos, pos_z = pos_z pos\<rparr> = pos" by simp
  have out: "out = map (\<lambda>c. (c, serialize ?msg)) (get_connections_in_room order g rid)"
      "m' = update_player_position m pid pos"
    using assms(1-8,10) d
    by (auto simp: handle_player_move_def move_player_id_def move_room_id_def broadcast_player_position_def
        send_player_position_def send_message_def update_player_position_def Let_def concat_map_singleton eta)
  have "wire_valid ?msg" using assms(8) len by (simp add: wire_valid_def position_body_def encode_string_def)
  then have "frame_step (serialize ?msg) = Some (?msg, [])" using frame_step_serialize [of ?msg "[]"] by simp
  moreover have "decode_position (position_body pid pos) = Some (pid, pos)"
    using decode_position_body assms(8) by simp
  ultimately show ?thesis
    by (auto simp: out get_player_position_def update_player_position_def comp_def)
qed

definition demo_game :: game where
  "demo_game = game_init\<lparr>components := [Router, SessionMgr, Room],
     sessions := [1 \<mapsto> \<lparr>player_id = [65], room_id = [66], gateway_id = [], authed = True, last_active_time = 0\<rparr>],
     rooms := [[66] \<mapsto> {1, 2}], connections_map := {1, 2}\<rparr>"

end
