(* ===== verification/WorkQueue.thy ===== *)
theory WorkQueue
  imports Chwell_Prelude "HOL-Library.Multiset"
begin

text \<open>
  Queues of functions with a mutex, a condition variable and worker threads: \<^verbatim>\<open>core/thread_pool.cpp\<close>,
  \<^verbatim>\<open>IoService\<close> of \<^verbatim>\<open>net/posix_io.cpp\<close> and the queue of \<^verbatim>\<open>storage/async_storage_adapter.cpp\<close>. The three
  classes differ in when a worker sleeps, takes a task or leaves, in what posting does, and in
  whether stopping takes the mutex; the steps of threads are common to them. A worker tests its
  condition with the mutex held (\<open>Deciding\<close>) and releases it when it falls asleep; a call of
  \<^verbatim>\<open>notify_one\<close> or \<^verbatim>\<open>notify_all\<close> comes after the mutex is released and is a step of its own; threads
  may also wake up without being notified. The last four fields record the history.
\<close>

section \<open>State\<close>

datatype 'a worker_pc = Ready | Deciding | Asleep | Running 'a | Exited

datatype decision = Sleep | Take | Leave

record 'a work_queue =
  wq_tasks :: "'a list"
  wq_stopped :: bool
  wq_workers :: "'a worker_pc list"
  wq_waiting :: "'a list"   \<comment> \<open>callers asleep because the queue is full, by their tasks\<close>
  wq_woken :: "'a list"     \<comment> \<open>callers that test the queue again\<close>
  wq_notes :: nat           \<comment> \<open>calls of \<^verbatim>\<open>notify_one\<close> still to be made\<close>
  wq_stop_note :: bool      \<comment> \<open>\<^verbatim>\<open>notify_all\<close> of the stop still to be made\<close>
  wq_accepted :: "'a list"
  wq_refused :: "'a list"
  wq_started :: "'a list"
  wq_finished :: "'a list"

definition wq_init :: "nat \<Rightarrow> 'a work_queue" where
  "wq_init threads = \<lparr>wq_tasks = [], wq_stopped = False, wq_workers = replicate threads Ready, wq_waiting = [],
     wq_woken = [], wq_notes = 0, wq_stop_note = False, wq_accepted = [], wq_refused = [], wq_started = [],
     wq_finished = []\<rparr>"

definition wq_push :: "'a \<Rightarrow> 'a work_queue \<Rightarrow> 'a work_queue" where
  "wq_push t q = q\<lparr>wq_tasks := wq_tasks q @ [t], wq_notes := wq_notes q + 1,
     wq_accepted := wq_accepted q @ [t]\<rparr>"

definition refuse_task :: "'a \<Rightarrow> 'a work_queue \<Rightarrow> 'a work_queue" where
  "refuse_task t q = q\<lparr>wq_refused := wq_refused q @ [t]\<rparr>"

definition block_caller :: "'a \<Rightarrow> 'a work_queue \<Rightarrow> 'a work_queue" where
  "block_caller t q = q\<lparr>wq_waiting := wq_waiting q @ [t]\<rparr>"

section \<open>The three classes\<close>

text \<open>\<open>q_after\<close> is the number of \<^verbatim>\<open>notify_one\<close> calls a worker makes after it has taken a task.\<close>

record 'a queue_class =
  q_decide :: "bool \<Rightarrow> 'a list \<Rightarrow> decision"
  q_post :: "'a \<Rightarrow> 'a work_queue \<Rightarrow> 'a work_queue"
  q_after :: nat
  q_stop_locks :: bool

definition pool_decide :: "bool \<Rightarrow> 'a list \<Rightarrow> decision" where
  "pool_decide stopped tasks =
     (if \<not> (stopped \<or> tasks \<noteq> []) then Sleep else if stopped \<and> tasks = [] then Leave else Take)"

definition pool_post :: "'a \<Rightarrow> 'a work_queue \<Rightarrow> 'a work_queue" where
  "pool_post t q = (if wq_stopped q then refuse_task t q else wq_push t q)"

definition thread_pool :: "'a queue_class" where
  "thread_pool = \<lparr>q_decide = pool_decide, q_post = pool_post, q_after = 0, q_stop_locks = True\<rparr>"

definition io_decide :: "bool \<Rightarrow> 'a list \<Rightarrow> decision" where
  "io_decide stopped tasks = (if stopped then Leave else if tasks = [] then Sleep else Take)"

definition io_service :: "'a queue_class" where
  "io_service = \<lparr>q_decide = io_decide, q_post = wq_push, q_after = 0, q_stop_locks = False\<rparr>"

definition adapter_decide :: "bool \<Rightarrow> 'a list \<Rightarrow> decision" where
  "adapter_decide stopping tasks =
     (if \<not> (stopping \<or> tasks \<noteq> []) then Sleep else if tasks = [] then Leave else Take)"

text \<open>\<^verbatim>\<open>enqueue\<close> makes the same test when it is called and whenever its wait is over.\<close>

definition enqueue :: "nat \<Rightarrow> 'a \<Rightarrow> 'a work_queue \<Rightarrow> 'a work_queue" where
  "enqueue max_queue_size t q =
     (if wq_stopped q then refuse_task t q
      else if 0 < max_queue_size \<and> max_queue_size \<le> length (wq_tasks q) then block_caller t q
      else wq_push t q)"

definition storage_queue :: "nat \<Rightarrow> 'a queue_class" where
  "storage_queue max_queue_size =
     \<lparr>q_decide = adapter_decide, q_post = enqueue max_queue_size, q_after = 1, q_stop_locks = True\<rparr>"

section \<open>Steps\<close>

definition unlocked :: "'a work_queue \<Rightarrow> bool" where
  "unlocked q \<longleftrightarrow> Deciding \<notin> set (wq_workers q)"

definition worker_check :: "'a queue_class \<Rightarrow> nat \<Rightarrow> 'a work_queue \<Rightarrow> 'a work_queue" where
  "worker_check C i q =
     (case q_decide C (wq_stopped q) (wq_tasks q) of
        Sleep \<Rightarrow> q\<lparr>wq_workers := (wq_workers q)[i := Deciding]\<rparr>
      | Leave \<Rightarrow> q\<lparr>wq_workers := (wq_workers q)[i := Exited]\<rparr>
      | Take \<Rightarrow> (case wq_tasks q of
            [] \<Rightarrow> q
          | t # ts \<Rightarrow> q\<lparr>wq_tasks := ts, wq_workers := (wq_workers q)[i := Running t],
                        wq_notes := wq_notes q + q_after C, wq_started := wq_started q @ [t]\<rparr>))"

definition worker_finish :: "nat \<Rightarrow> 'a \<Rightarrow> 'a work_queue \<Rightarrow> 'a work_queue" where
  "worker_finish i t q = q\<lparr>wq_workers := (wq_workers q)[i := Ready], wq_finished := wq_finished q @ [t]\<rparr>"

definition request_stop :: "'a work_queue \<Rightarrow> 'a work_queue" where
  "request_stop q = q\<lparr>wq_stopped := True, wq_stop_note := True\<rparr>"

definition notify_all :: "'a work_queue \<Rightarrow> 'a work_queue" where
  "notify_all q = q\<lparr>wq_workers := map (\<lambda>w. if w = Asleep then Ready else w) (wq_workers q),
     wq_woken := wq_woken q @ wq_waiting q, wq_waiting := [], wq_stop_note := False\<rparr>"

inductive wq_step :: "'a queue_class \<Rightarrow> 'a work_queue \<Rightarrow> 'a work_queue \<Rightarrow> bool" for C where
  wq_post: "unlocked q \<Longrightarrow> wq_step C q (q_post C t q)"
| wq_retry: "unlocked q \<Longrightarrow> wq_woken q = us @ t # vs \<Longrightarrow> wq_step C q (q_post C t (q\<lparr>wq_woken := us @ vs\<rparr>))"
| wq_check: "unlocked q \<Longrightarrow> i < length (wq_workers q) \<Longrightarrow> wq_workers q ! i = Ready \<Longrightarrow>
     wq_step C q (worker_check C i q)"
| wq_sleep: "i < length (wq_workers q) \<Longrightarrow> wq_workers q ! i = Deciding \<Longrightarrow>
     wq_step C q (q\<lparr>wq_workers := (wq_workers q)[i := Asleep]\<rparr>)"
| wq_finish: "i < length (wq_workers q) \<Longrightarrow> wq_workers q ! i = Running t \<Longrightarrow> wq_step C q (worker_finish i t q)"
| wq_note_worker: "wq_notes q = Suc n \<Longrightarrow> i < length (wq_workers q) \<Longrightarrow> wq_workers q ! i = Asleep \<Longrightarrow>
     wq_step C q (q\<lparr>wq_notes := n, wq_workers := (wq_workers q)[i := Ready]\<rparr>)"
| wq_note_caller: "wq_notes q = Suc n \<Longrightarrow> wq_waiting q = us @ t # vs \<Longrightarrow>
     wq_step C q (q\<lparr>wq_notes := n, wq_waiting := us @ vs, wq_woken := wq_woken q @ [t]\<rparr>)"
| wq_note_none: "wq_notes q = Suc n \<Longrightarrow> Asleep \<notin> set (wq_workers q) \<Longrightarrow> wq_waiting q = [] \<Longrightarrow>
     wq_step C q (q\<lparr>wq_notes := n\<rparr>)"
| wq_spurious_worker: "i < length (wq_workers q) \<Longrightarrow> wq_workers q ! i = Asleep \<Longrightarrow>
     wq_step C q (q\<lparr>wq_workers := (wq_workers q)[i := Ready]\<rparr>)"
| wq_spurious_caller: "wq_waiting q = us @ t # vs \<Longrightarrow>
     wq_step C q (q\<lparr>wq_waiting := us @ vs, wq_woken := wq_woken q @ [t]\<rparr>)"
| wq_stop: "(q_stop_locks C \<longrightarrow> unlocked q) \<Longrightarrow> wq_step C q (request_stop q)"
| wq_stop_notify: "wq_stop_note q \<Longrightarrow> wq_step C q (notify_all q)"

definition wq_reachable :: "'a queue_class \<Rightarrow> nat \<Rightarrow> 'a work_queue \<Rightarrow> bool" where
  "wq_reachable C threads q \<longleftrightarrow> (wq_step C)\<^sup>*\<^sup>* (wq_init threads) q"

text \<open>Nothing moves any more unless somebody calls the object again or a thread wakes by accident.\<close>

definition parked :: "'a work_queue \<Rightarrow> bool" where
  "parked q \<longleftrightarrow> set (wq_workers q) \<subseteq> {Asleep, Exited} \<and> wq_notes q = 0 \<and> wq_woken q = [] \<and> \<not> wq_stop_note q"

definition ready_count :: "'a worker_pc list \<Rightarrow> nat" where
  "ready_count ws = length (filter (\<lambda>w. w = Ready) ws)"

fun running_of :: "'a worker_pc \<Rightarrow> 'a list" where
  "running_of (Running t) = [t]"
| "running_of _ = []"

definition running_tasks :: "'a worker_pc list \<Rightarrow> 'a multiset" where
  "running_tasks ws = mset (concat (map running_of ws))"

lemma wq_reachable_invariant:
  assumes "wq_reachable C threads q" and "P (wq_init threads)" and "\<And>q q'. P q \<Longrightarrow> wq_step C q q' \<Longrightarrow> P q'"
  shows "P q"
  using assms(1) unfolding wq_reachable_def
  by (induction rule: rtranclp_induct) (use assms(2,3) in auto)

lemma worker_split:
  assumes "i < length ws"
  obtains us vs where "ws = us @ ws ! i # vs" and "ws[i := w] = us @ w # vs"
  using that [of "take i ws" "drop (Suc i) ws"] id_take_nth_drop [OF assms] upd_conv_take_nth_drop [OF assms] by blast

lemma ready_count_update:
  assumes "i < length ws"
  shows "ready_count (ws[i := w]) + ready_count [ws ! i] = ready_count ws + ready_count [w]"
proof -
  obtain us vs where 1: "ws = us @ ws ! i # vs" and 2: "ws[i := w] = us @ w # vs" using worker_split [OF assms] .
  have "ready_count ws = ready_count (us @ ws ! i # vs)" using 1 by simp
  then show ?thesis unfolding 2 by (simp add: ready_count_def)
qed

lemma ready_count_single [simp]: "ready_count [w] = (if w = Ready then 1 else 0)"
  by (simp add: ready_count_def)

lemma running_tasks_update:
  assumes "i < length ws"
  shows "running_tasks (ws[i := w]) + mset (running_of (ws ! i)) = running_tasks ws + mset (running_of w)"
proof -
  obtain us vs where 1: "ws = us @ ws ! i # vs" and 2: "ws[i := w] = us @ w # vs" using worker_split [OF assms] .
  have "running_tasks ws = running_tasks (us @ ws ! i # vs)" using 1 by simp
  then show ?thesis unfolding 2 by (simp add: running_tasks_def)
qed

lemma set_update_subset: "x \<in> set (ws[i := w]) \<Longrightarrow> x = w \<or> x \<in> set ws"
  using set_update_subset_insert [of ws i w] by auto

section \<open>What every such queue guarantees\<close>

text \<open>
  Tasks start in the order of acceptance, each accepted task once; what has started is running or
  finished; a worker that decides to sleep saw an empty queue.
\<close>

definition accounted :: "'a work_queue \<Rightarrow> bool" where
  "accounted q \<longleftrightarrow> wq_accepted q = wq_started q @ wq_tasks q \<and>
     mset (wq_started q) = mset (wq_finished q) + running_tasks (wq_workers q) \<and>
     (Deciding \<in> set (wq_workers q) \<longrightarrow> wq_tasks q = [])"

text \<open>Before a stop, a worker sleeps only while every queued task has a wake-up of its own.\<close>

definition awake_enough :: "'a work_queue \<Rightarrow> bool" where
  "awake_enough q \<longleftrightarrow> wq_waiting q = [] \<and> wq_woken q = [] \<and>
     (Asleep \<in> set (wq_workers q) \<and> \<not> wq_stopped q \<longrightarrow>
        length (wq_tasks q) \<le> wq_notes q + ready_count (wq_workers q))"

text \<open>A stop reaches everybody, and workers leave an empty queue behind.\<close>

definition stop_heard :: "'a work_queue \<Rightarrow> bool" where
  "stop_heard q \<longleftrightarrow>
     (wq_stopped q \<longrightarrow> Deciding \<notin> set (wq_workers q) \<and>
        (Asleep \<in> set (wq_workers q) \<or> wq_waiting q \<noteq> [] \<longrightarrow> wq_stop_note q)) \<and>
     (Exited \<in> set (wq_workers q) \<longrightarrow> wq_stopped q \<and> wq_tasks q = [])"

locale queue_laws =
  fixes C :: "'a queue_class"
  assumes sleep_law: "q_decide C s ts = Sleep \<Longrightarrow> \<not> s \<and> ts = []"
    and take_law: "q_decide C s ts = Take \<Longrightarrow> ts \<noteq> []"
    and post_law: "q_post C t q = wq_push t q \<or> q_post C t q = refuse_task t q \<or>
      \<not> wq_stopped q \<and> q_post C t q = block_caller t q"
begin

lemma accounted_step:
  assumes "accounted q" and "wq_step C q q'"
  shows "accounted q'"
  using assms(2,1)
proof (cases rule: wq_step.cases)
  case (wq_post t)
  then show ?thesis using assms(1) post_law [of t q]
    by (auto simp: accounted_def wq_push_def refuse_task_def block_caller_def unlocked_def)
next
  case (wq_retry us t vs)
  then show ?thesis using assms(1) post_law [of t "q\<lparr>wq_woken := us @ vs\<rparr>"]
    by (auto simp: accounted_def wq_push_def refuse_task_def block_caller_def unlocked_def)
next
  case (wq_check i)
  note r = running_tasks_update [OF wq_check(3)]
  show ?thesis using wq_check assms(1) sleep_law [of "wq_stopped q" "wq_tasks q"] take_law [of "wq_stopped q" "wq_tasks q"]
      r [of Deciding] r [of Exited] r [of "Running (hd (wq_tasks q))"]
    by (auto simp: worker_check_def accounted_def unlocked_def split: decision.splits list.splits dest!: set_update_subset)
next
  case (wq_sleep i)
  then show ?thesis using assms(1) running_tasks_update [OF wq_sleep(2), of Asleep]
    by (auto simp: accounted_def dest!: set_update_subset)
next
  case (wq_finish i t)
  then show ?thesis using assms(1) running_tasks_update [OF wq_finish(2), of Ready]
    by (auto simp: accounted_def worker_finish_def dest!: set_update_subset)
next
  case (wq_note_worker n i)
  then show ?thesis using assms(1) running_tasks_update [OF wq_note_worker(3), of Ready]
    by (auto simp: accounted_def dest!: set_update_subset)
next
  case (wq_spurious_worker i)
  then show ?thesis using assms(1) running_tasks_update [OF wq_spurious_worker(2), of Ready]
    by (auto simp: accounted_def dest!: set_update_subset)
next
  case wq_stop_notify
  have "running_tasks (map (\<lambda>w. if w = Asleep then Ready else w) ws) = running_tasks ws" for ws :: "'a worker_pc list"
    by (induction ws) (auto simp: running_tasks_def)
  then show ?thesis using wq_stop_notify assms(1) by (auto simp: accounted_def notify_all_def)
qed (auto simp: accounted_def request_stop_def)

lemma accounted_init: "accounted (wq_init threads)"
  by (simp add: accounted_def wq_init_def running_tasks_def)

lemma accounted_reachable: "wq_reachable C threads q \<Longrightarrow> accounted q"
  using wq_reachable_invariant [of C threads q accounted] accounted_init accounted_step by blast

end

locale wakeful_queue = queue_laws +
  assumes leaves_stopped: "q_decide C s ts = Leave \<Longrightarrow> s"
    and never_blocks: "q_post C t q = wq_push t q \<or> q_post C t q = refuse_task t q"
begin

lemma awake_step:
  assumes "awake_enough q" and "accounted q" and "wq_step C q q'"
  shows "awake_enough q'"
  using assms(3,1,2)
proof (cases rule: wq_step.cases)
  case (wq_post t)
  then show ?thesis using assms(1) never_blocks [of t q]
    by (auto simp: awake_enough_def wq_push_def refuse_task_def)
next
  case (wq_check i)
  note r = ready_count_update [OF wq_check(3)]
  show ?thesis using wq_check assms(1) sleep_law [of "wq_stopped q" "wq_tasks q"] take_law [of "wq_stopped q" "wq_tasks q"]
      leaves_stopped [of "wq_stopped q" "wq_tasks q"] r [of Deciding] r [of Exited] r [of "Running (hd (wq_tasks q))"]
    by (auto simp: worker_check_def awake_enough_def split: decision.splits list.splits dest!: set_update_subset)
next
  case (wq_sleep i)
  then have "wq_tasks q = []" using assms(2) nth_mem [OF wq_sleep(2)] by (simp add: accounted_def)
  then show ?thesis using assms(1) wq_sleep by (simp add: awake_enough_def)
next
  case (wq_finish i t)
  then show ?thesis using assms(1) ready_count_update [OF wq_finish(2), of Ready]
    by (auto simp: awake_enough_def worker_finish_def ready_count_def dest!: set_update_subset)
next
  case (wq_note_worker n i)
  then show ?thesis using assms(1) ready_count_update [OF wq_note_worker(3), of Ready]
    by (auto simp: awake_enough_def ready_count_def dest!: set_update_subset)
next
  case (wq_spurious_worker i)
  then show ?thesis using assms(1) ready_count_update [OF wq_spurious_worker(2), of Ready]
    by (auto simp: awake_enough_def ready_count_def dest!: set_update_subset)
qed (auto simp: awake_enough_def request_stop_def notify_all_def)

lemma awake_init: "awake_enough (wq_init threads)"
  by (simp add: awake_enough_def wq_init_def)

lemma awake_reachable:
  assumes "wq_reachable C threads q"
  shows "awake_enough q"
proof -
  have "accounted q \<and> awake_enough q"
    using assms by (rule wq_reachable_invariant) (auto simp: accounted_init awake_init accounted_step awake_step)
  then show ?thesis by simp
qed

lemma parked_idle:
  assumes "wq_reachable C threads q" and "parked q" and "\<not> wq_stopped q" and "Asleep \<in> set (wq_workers q)"
  shows "wq_tasks q = [] \<and> mset (wq_finished q) = mset (wq_accepted q)"
proof -
  have n: "Ready \<notin> set (wq_workers q)" "\<And>t. Running t \<notin> set (wq_workers q)" using assms(2) by (auto simp: parked_def)
  then have "ready_count (wq_workers q) = 0" by (auto simp: ready_count_def filter_empty_conv)
  then have e: "wq_tasks q = []"
    using awake_reachable [OF assms(1)] assms(2-4) by (simp add: awake_enough_def parked_def)
  have "running_of w = []" if "w \<in> set (wq_workers q)" for w using n that by (cases w) auto
  then have "running_tasks (wq_workers q) = {#}" by (simp add: running_tasks_def)
  then show ?thesis using e accounted_reachable [OF assms(1)] by (simp add: accounted_def)
qed

end

locale draining_queue = queue_laws +
  assumes leave_law: "q_decide C s ts = Leave \<Longrightarrow> s \<and> ts = []"
    and closed_law: "wq_stopped q \<Longrightarrow> q_post C t q = refuse_task t q"
    and stop_law: "q_stop_locks C"
begin

lemma stop_heard_step:
  assumes "stop_heard q" and "accounted q" and "wq_step C q q'"
  shows "stop_heard q'"
  using assms(3,1,2)
proof (cases rule: wq_step.cases)
  case (wq_post t)
  then show ?thesis using assms(1) post_law [of t q] closed_law [of q t]
    by (auto simp: stop_heard_def wq_push_def refuse_task_def block_caller_def unlocked_def)
next
  case (wq_retry us t vs)
  let ?q = "q\<lparr>wq_woken := us @ vs\<rparr>"
  show ?thesis using assms(1) wq_retry post_law [of t ?q] closed_law [of ?q t]
    by (auto simp: stop_heard_def wq_push_def refuse_task_def block_caller_def unlocked_def)
next
  case (wq_check i)
  show ?thesis using wq_check assms(1) sleep_law [of "wq_stopped q" "wq_tasks q"] leave_law [of "wq_stopped q" "wq_tasks q"]
    by (auto simp: worker_check_def stop_heard_def split: decision.splits list.splits dest!: set_update_subset)
next
  case (wq_sleep i)
  then show ?thesis using assms(1) nth_mem [OF wq_sleep(2)] by (auto simp: stop_heard_def dest!: set_update_subset)
next
  case (wq_finish i t)
  then show ?thesis using assms(1) by (auto simp: stop_heard_def worker_finish_def dest!: set_update_subset)
next
  case (wq_note_worker n i)
  then show ?thesis using assms(1) by (auto simp: stop_heard_def dest!: set_update_subset)
next
  case (wq_note_caller n us t vs)
  then show ?thesis using assms(1) by (auto simp: stop_heard_def)
next
  case (wq_spurious_worker i)
  then show ?thesis using assms(1) by (auto simp: stop_heard_def dest!: set_update_subset)
next
  case wq_stop
  then show ?thesis using assms(1) stop_law by (auto simp: stop_heard_def request_stop_def unlocked_def)
next
  case wq_stop_notify
  then show ?thesis using assms(1) by (auto simp: stop_heard_def notify_all_def)
qed (auto simp: stop_heard_def)

lemma stop_heard_init: "stop_heard (wq_init threads)"
  by (simp add: stop_heard_def wq_init_def)

lemma stop_heard_reachable:
  assumes "wq_reachable C threads q"
  shows "stop_heard q"
proof -
  have "accounted q \<and> stop_heard q"
    using assms by (rule wq_reachable_invariant) (auto simp: accounted_init stop_heard_init accounted_step stop_heard_step)
  then show ?thesis by simp
qed

text \<open>Once the workers have left, which the destructor waits for, every accepted task has been run once.\<close>

lemma joined_all_done:
  assumes "wq_reachable C threads q" and "wq_workers q \<noteq> []" and "set (wq_workers q) \<subseteq> {Exited}"
  shows "mset (wq_finished q) = mset (wq_accepted q)"
proof -
  have "Exited \<in> set (wq_workers q)" using assms(2,3) by (cases "wq_workers q") auto
  then have e: "wq_tasks q = []" using stop_heard_reachable [OF assms(1)] by (simp add: stop_heard_def)
  have "running_of w = []" if "w \<in> set (wq_workers q)" for w using assms(3) that by auto
  then have "running_tasks (wq_workers q) = {#}" by (simp add: running_tasks_def)
  then show ?thesis using e accounted_reachable [OF assms(1)] by (simp add: accounted_def)
qed

lemma stop_not_stuck:
  assumes "wq_reachable C threads q" and "wq_stopped q" and "parked q"
  shows "set (wq_workers q) \<subseteq> {Exited} \<and> wq_waiting q = []"
  using assms(2,3) stop_heard_reachable [OF assms(1)] by (auto simp: stop_heard_def parked_def)

end

interpretation pool_wakeful: wakeful_queue "thread_pool :: 'a queue_class"
  by unfold_locales (auto simp: thread_pool_def pool_decide_def pool_post_def split: if_splits)

interpretation pool_drains: draining_queue "thread_pool :: 'a queue_class"
  by unfold_locales (auto simp: thread_pool_def pool_decide_def pool_post_def split: if_splits)

interpretation io_wakeful: wakeful_queue "io_service :: 'a queue_class"
  by unfold_locales (auto simp: io_service_def io_decide_def split: if_splits)

interpretation adapter_wakeful: wakeful_queue "storage_queue 0 :: 'a queue_class"
  by unfold_locales (auto simp: storage_queue_def adapter_decide_def enqueue_def split: if_splits)

interpretation adapter_drains: draining_queue "storage_queue m :: 'a queue_class" for m
  by unfold_locales (auto simp: storage_queue_def adapter_decide_def enqueue_def split: if_splits)

section \<open>Accepted tasks are run, and in time\<close>

lemma queue_runs_all:
  assumes "C = thread_pool \<or> C = storage_queue m" and "wq_reachable C threads q"
  shows "accounted q \<and> stop_heard q \<and>
    (wq_workers q \<noteq> [] \<and> set (wq_workers q) \<subseteq> {Exited} \<longrightarrow> mset (wq_finished q) = mset (wq_accepted q)) \<and>
    (wq_stopped q \<and> parked q \<longrightarrow> set (wq_workers q) \<subseteq> {Exited} \<and> wq_waiting q = [])"
  using assms(1)
proof
  assume C: "C = thread_pool"
  note r = assms(2) [unfolded C]
  show ?thesis using pool_wakeful.accounted_reachable [OF r] pool_drains.stop_heard_reachable [OF r]
    pool_drains.joined_all_done [OF r] pool_drains.stop_not_stuck [OF r] by blast
next
  assume C: "C = storage_queue m"
  note r = assms(2) [unfolded C]
  show ?thesis using adapter_drains.accounted_reachable [OF r] adapter_drains.stop_heard_reachable [OF r]
    adapter_drains.joined_all_done [OF r] adapter_drains.stop_not_stuck [OF r] by blast
qed

text \<open>
  C7. Of the thread pool and of the queue of the storage adapter, bounded or not, under every
  interleaving of callers, workers, notifications and the stop: tasks start in the order in which
  they were accepted, none twice; when the workers have left, which the destructor waits for, every
  accepted task has been run exactly once; and after a stop no worker and no caller stays asleep.
\<close>

theorem stopped_queue_drained:
  assumes "C = thread_pool \<or> C = storage_queue m" and "wq_reachable C threads q"
  shows "wq_accepted q = wq_started q @ wq_tasks q \<and>
    mset (wq_started q) = mset (wq_finished q) + running_tasks (wq_workers q) \<and>
    (wq_workers q \<noteq> [] \<and> set (wq_workers q) \<subseteq> {Exited} \<longrightarrow> mset (wq_finished q) = mset (wq_accepted q)) \<and>
    (wq_stopped q \<and> parked q \<longrightarrow> set (wq_workers q) \<subseteq> {Exited} \<and> wq_waiting q = [])"
  using queue_runs_all [OF assms] unfolding accounted_def by blast

text \<open>Concrete runs: the steps as an executable function.\<close>

datatype 'a wq_move = Post 'a | Retry | Check nat | FallAsleep nat | Finish nat | NoteWorker nat | NoteCaller | Stop | StopNotify

definition do_move :: "'a queue_class \<Rightarrow> 'a work_queue \<Rightarrow> 'a wq_move \<Rightarrow> 'a work_queue option" where
  "do_move C q m = (case m of
     Post t \<Rightarrow> if unlocked q then Some (q_post C t q) else None
   | Retry \<Rightarrow> (case wq_woken q of t # ts \<Rightarrow> if unlocked q then Some (q_post C t (q\<lparr>wq_woken := ts\<rparr>)) else None | [] \<Rightarrow> None)
   | Check i \<Rightarrow> if unlocked q \<and> i < length (wq_workers q) \<and> wq_workers q ! i = Ready then Some (worker_check C i q) else None
   | FallAsleep i \<Rightarrow> if i < length (wq_workers q) \<and> wq_workers q ! i = Deciding
        then Some (q\<lparr>wq_workers := (wq_workers q)[i := Asleep]\<rparr>) else None
   | Finish i \<Rightarrow> if i < length (wq_workers q)
        then (case wq_workers q ! i of Running t \<Rightarrow> Some (worker_finish i t q) | _ \<Rightarrow> None) else None
   | NoteWorker i \<Rightarrow> if 0 < wq_notes q \<and> i < length (wq_workers q) \<and> wq_workers q ! i = Asleep
        then Some (q\<lparr>wq_notes := wq_notes q - 1, wq_workers := (wq_workers q)[i := Ready]\<rparr>) else None
   | NoteCaller \<Rightarrow> (case wq_waiting q of
        t # ts \<Rightarrow> if 0 < wq_notes q
          then Some (q\<lparr>wq_notes := wq_notes q - 1, wq_waiting := ts, wq_woken := wq_woken q @ [t]\<rparr>) else None
      | [] \<Rightarrow> None)
   | Stop \<Rightarrow> if q_stop_locks C \<longrightarrow> unlocked q then Some (request_stop q) else None
   | StopNotify \<Rightarrow> if wq_stop_note q then Some (notify_all q) else None)"

lemma do_move_sound:
  assumes "do_move C q m = Some q'"
  shows "wq_step C q q'"
proof (cases m)
  case Retry
  then show ?thesis using assms wq_retry [of q "[]" _ _ C] by (auto simp: do_move_def split: list.splits if_splits)
next
  case NoteCaller
  then show ?thesis using assms wq_note_caller [of q "wq_notes q - 1" "[]" _ _ C]
    by (auto simp: do_move_def split: list.splits if_splits)
qed (use assms in \<open>auto simp: do_move_def intro: wq_step.intros split: list.splits if_splits worker_pc.splits\<close>)

fun do_moves :: "'a queue_class \<Rightarrow> 'a work_queue \<Rightarrow> 'a wq_move list \<Rightarrow> 'a work_queue option" where
  "do_moves C q [] = Some q"
| "do_moves C q (m # ms) = (case do_move C q m of None \<Rightarrow> None | Some q' \<Rightarrow> do_moves C q' ms)"

lemma do_moves_steps: "do_moves C q ms = Some q' \<Longrightarrow> (wq_step C)\<^sup>*\<^sup>* q q'"
  by (induction ms arbitrary: q)
    (auto split: option.splits intro: converse_rtranclp_into_rtranclp do_move_sound)

lemma do_moves_reachable: "do_moves C (wq_init threads) ms = Some q \<Longrightarrow> wq_reachable C threads q"
  unfolding wq_reachable_def by (rule do_moves_steps)

lemmas wq_run_defs = do_move_def thread_pool_def pool_decide_def pool_post_def io_service_def io_decide_def storage_queue_def
  adapter_decide_def enqueue_def worker_check_def worker_finish_def wq_push_def refuse_task_def block_caller_def
  request_stop_def notify_all_def wq_init_def unlocked_def

text \<open>One worker of the storage queue: a task is accepted, run, and the queue is stopped.\<close>

definition done_queue :: "nat work_queue" where
  "done_queue = the (do_moves (storage_queue 0) (wq_init 1) [Post 7, Check 0, Finish 0, Stop, Check 0])"

lemma done_queue_reachable: "wq_reachable (storage_queue 0) 1 done_queue"
  by (rule do_moves_reachable [of _ _ "[Post 7, Check 0, Finish 0, Stop, Check 0]"])
    (simp add: done_queue_def wq_run_defs)

theorem stopped_queue_drained_witness:
  "wq_accepted done_queue = [7] \<and> mset (wq_finished done_queue) = mset (wq_accepted done_queue)"
  using stopped_queue_drained [OF _ done_queue_reachable] by (simp add: done_queue_def wq_run_defs)

text \<open>
  C30. In a queue that has not been stopped, be it the thread pool,
  \<^verbatim>\<open>IoService\<close> or the unbounded storage queue, a worker
  sleeps only while every queued task has a wake-up of its own under way; when nothing moves any more and
  a worker sleeps, every accepted task is finished. Before a stop no wake-up is lost.
\<close>

theorem no_wakeup_lost:
  assumes "C = thread_pool \<or> C = io_service \<or> C = storage_queue 0" and "wq_reachable C threads q"
    and "\<not> wq_stopped q" and "Asleep \<in> set (wq_workers q)"
  shows "length (wq_tasks q) \<le> wq_notes q + ready_count (wq_workers q) \<and>
    (parked q \<longrightarrow> wq_tasks q = [] \<and> mset (wq_finished q) = mset (wq_accepted q))"
proof -
  have "awake_enough q \<and> (parked q \<longrightarrow> wq_tasks q = [] \<and> mset (wq_finished q) = mset (wq_accepted q))"
    using assms pool_wakeful.awake_reachable io_wakeful.awake_reachable adapter_wakeful.awake_reachable
      pool_wakeful.parked_idle io_wakeful.parked_idle adapter_wakeful.parked_idle by blast
  then show ?thesis using assms(3,4) by (simp add: awake_enough_def)
qed

definition idle_io :: "nat work_queue" where
  "idle_io = the (do_moves io_service (wq_init 1)
     [Check 0, FallAsleep 0, Post 7, NoteWorker 0, Check 0, Finish 0, Check 0, FallAsleep 0])"

lemma idle_io_reachable: "wq_reachable io_service 1 idle_io"
  by (rule do_moves_reachable
      [of _ _ "[Check 0, FallAsleep 0, Post 7, NoteWorker 0, Check 0, Finish 0, Check 0, FallAsleep 0]"])
    (simp add: idle_io_def wq_run_defs)

theorem no_wakeup_lost_witness:
  "wq_accepted idle_io = [7] \<and> mset (wq_finished idle_io) = mset (wq_accepted idle_io)"
  using no_wakeup_lost [OF _ idle_io_reachable]
  by (simp add: idle_io_def wq_run_defs parked_def)

section \<open>The bounded storage queue\<close>

lemma bounded_step:
  assumes "0 < m" and "length (wq_tasks q) \<le> m" and "wq_step (storage_queue m) q q'"
  shows "length (wq_tasks q') \<le> m"
  using assms(3,2,1) by (cases rule: wq_step.cases)
    (auto simp: wq_run_defs split: decision.splits list.splits if_splits)

lemma storage_queue_bounded:
  assumes "0 < m" and "wq_reachable (storage_queue m) threads q"
  shows "length (wq_tasks q) \<le> m"
  using assms(2) by (rule wq_reachable_invariant) (use assms(1) bounded_step in \<open>auto simp: wq_init_def\<close>)

text \<open>
  Callers that wait for room and workers that wait for tasks sleep on the same condition variable, and
  \<^verbatim>\<open>notify_one\<close> wakes any of them. With room for one task and one sleeping worker, the notification
  of the first task can wake the second caller, which goes back to sleep: the queue holds a task, and
  the worker and the caller sleep for ever.
\<close>

lemma bounded_queue_wakeup_lost:
  "\<exists>q. wq_reachable (storage_queue 1) 1 q \<and> parked q \<and> \<not> wq_stopped q \<and> wq_tasks q = [t] \<and> wq_waiting q = [u] \<and>
     wq_workers q = [Asleep]"
proof -
  let ?ms = "[Check 0, FallAsleep 0, Post t, Post u, NoteCaller, Retry]"
  obtain q where q: "do_moves (storage_queue 1) (wq_init 1) ?ms = Some q" by (simp add: wq_run_defs)
  show ?thesis using do_moves_reachable [OF q] q by (auto simp: wq_run_defs parked_def intro!: exI [of _ q])
qed

section \<open>IoService\<close>

text \<open>
  \<^verbatim>\<open>stop\<close> does not take the mutex: it can fall between the test of a worker and its sleep, and its
  notification then wakes nobody.
\<close>

lemma io_stop_missed:
  "\<exists>q. wq_reachable io_service 1 q \<and> parked q \<and> wq_stopped q \<and> wq_workers q = [Asleep]"
proof -
  let ?ms = "[Check 0, Stop, StopNotify, FallAsleep 0] :: 'a wq_move list"
  obtain q :: "'a work_queue" where q: "do_moves io_service (wq_init 1) ?ms = Some q" by (simp add: wq_run_defs)
  show ?thesis using do_moves_reachable [OF q] q by (auto simp: wq_run_defs parked_def intro!: exI [of _ q])
qed

text \<open>A stopped \<^verbatim>\<open>IoService\<close> leaves accepted tasks in the queue, and goes on accepting.\<close>

lemma io_leaves_tasks:
  "\<exists>q. wq_reachable io_service 1 q \<and> wq_workers q = [Exited] \<and> wq_tasks q = [t, u] \<and> wq_accepted q = [t, u]"
proof -
  let ?ms = "[Post t, Stop, StopNotify, Check 0, Post u]"
  obtain q where q: "do_moves io_service (wq_init 1) ?ms = Some q" by (simp add: wq_run_defs)
  show ?thesis using do_moves_reachable [OF q] q by (auto simp: wq_run_defs intro!: exI [of _ q])
qed

text \<open>
  A task that does not return keeps its worker: as long as no running task finishes, nothing that is
  queued behind busy workers starts. The read loop of a connection is such a task.
\<close>

lemma busy_workers_step:
  assumes "set (wq_workers q) \<subseteq> range Running" and "wq_step io_service q q'" and "wq_finished q' = wq_finished q"
  shows "wq_started q' = wq_started q \<and> wq_workers q' = wq_workers q"
proof -
  have w: "\<exists>t. wq_workers q ! i = Running t" if "i < length (wq_workers q)" for i
    using assms(1) nth_mem [OF that] by blast
  have n: "map (\<lambda>w. if w = Asleep then Ready else w) ws = ws" if "set ws \<subseteq> range Running" for ws :: "'a worker_pc list"
    using that by (induction ws) auto
  show ?thesis using assms(2)
  proof (cases rule: wq_step.cases)
    case wq_stop_notify
    then show ?thesis using n [OF assms(1)] by (simp add: notify_all_def)
  qed (use assms(3) w in \<open>force simp: io_service_def wq_push_def request_stop_def worker_finish_def\<close>)+
qed

definition quiet_step :: "'a work_queue \<Rightarrow> 'a work_queue \<Rightarrow> bool" where
  "quiet_step q q' \<longleftrightarrow> wq_step io_service q q' \<and> wq_finished q' = wq_finished q"

lemma io_connections_starve:
  assumes "set (wq_workers q) \<subseteq> range Running" and "quiet_step\<^sup>*\<^sup>* q q'"
  shows "wq_started q' = wq_started q \<and> wq_workers q' = wq_workers q"
  using assms(2)
proof (induction rule: rtranclp_induct)
  case (step y z)
  then show ?case using busy_workers_step [of y z] assms(1) by (simp add: quiet_step_def)
qed simp

end
