(* ===== verification/AsyncStorage.thy ===== *)
theory AsyncStorage
  imports WorkQueue Storage
begin

text \<open>
  \<^verbatim>\<open>storage/async_storage_adapter.cpp\<close>: the operations of a storage as tasks of a work queue, whose
  result reaches the caller through a promise or a callback. \<open>call k st op\<close> is the \<open>k\<close>-th call the workers
  make of the wrapped storage; it returns or throws. A task that has been taken off the queue calls the
  storage, settles its promise and ends in one step. Promises and callbacks are named by numbers.
\<close>

section \<open>Operations and replies\<close>

datatype async_op =
    AsyncGet string
  | AsyncPut string string int
  | AsyncRemove string
  | AsyncExists string
  | AsyncMget "string list"
  | AsyncMput "storage_document list"

datatype reply = ResultReply storage_result | BoolReply bool | VectorReply "storage_result list"

text \<open>A call returns, throws a \<^verbatim>\<open>std::exception\<close> with its text, or throws something else.\<close>

datatype 'v call_outcome = Returned 'v | Threw string | ThrewOther

definition kShutdownMsg :: string where "kShutdownMsg = ''AsyncStorageAdapter is shutting down''"
definition kNullStorageMsg :: string where "kNullStorageMsg = ''AsyncStorageAdapter: storage is null''"

definition fulfill_result_promise :: "storage_result call_outcome \<Rightarrow> storage_result" where
  "fulfill_result_promise r = (case r of
     Returned v \<Rightarrow> v | Threw what \<Rightarrow> failure what | ThrewOther \<Rightarrow> failure ''unknown exception'')"

definition fulfill_bool_promise :: "bool call_outcome \<Rightarrow> bool" where
  "fulfill_bool_promise r = (case r of Returned v \<Rightarrow> v | Threw what \<Rightarrow> False | ThrewOther \<Rightarrow> False)"

definition fulfill_vector_promise :: "storage_result list call_outcome \<Rightarrow> storage_result list" where
  "fulfill_vector_promise r = (case r of
     Returned v \<Rightarrow> v | Threw what \<Rightarrow> [failure what] | ThrewOther \<Rightarrow> [failure ''unknown exception''])"

definition fail_vec :: "string list \<Rightarrow> string \<Rightarrow> storage_result list" where
  "fail_vec keys msg = map (\<lambda>_. failure msg) keys"

section \<open>The wrapped storage\<close>

text \<open>The synchronous functions, which may throw: one field per function of the interface that is used.\<close>

record 'st sync_storage =
  y_get :: "nat \<Rightarrow> 'st \<Rightarrow> string \<Rightarrow> storage_result call_outcome \<times> 'st"
  y_put :: "nat \<Rightarrow> 'st \<Rightarrow> string \<Rightarrow> string \<Rightarrow> int \<Rightarrow> storage_result call_outcome \<times> 'st"
  y_remove :: "nat \<Rightarrow> 'st \<Rightarrow> string \<Rightarrow> storage_result call_outcome \<times> 'st"
  y_exists :: "nat \<Rightarrow> 'st \<Rightarrow> string \<Rightarrow> bool call_outcome \<times> 'st"
  y_mget :: "nat \<Rightarrow> 'st \<Rightarrow> string list \<Rightarrow> storage_result list call_outcome \<times> 'st"
  y_mput :: "nat \<Rightarrow> 'st \<Rightarrow> storage_document list \<Rightarrow> storage_result call_outcome \<times> 'st"

text \<open>The body of the lambda each future-style function gives to \<^verbatim>\<open>enqueue\<close>: what the promise is set to.\<close>

definition run_async_op :: "'st sync_storage \<Rightarrow> nat \<Rightarrow> 'st \<Rightarrow> async_op \<Rightarrow> reply \<times> 'st" where
  "run_async_op Y k st op = (case op of
     AsyncGet key \<Rightarrow> map_prod (ResultReply \<circ> fulfill_result_promise) id (y_get Y k st key)
   | AsyncPut key v e \<Rightarrow> map_prod (ResultReply \<circ> fulfill_result_promise) id (y_put Y k st key v e)
   | AsyncRemove key \<Rightarrow> map_prod (ResultReply \<circ> fulfill_result_promise) id (y_remove Y k st key)
   | AsyncExists key \<Rightarrow> map_prod (BoolReply \<circ> fulfill_bool_promise) id (y_exists Y k st key)
   | AsyncMget keys \<Rightarrow> map_prod (VectorReply \<circ> fulfill_vector_promise) id (y_mget Y k st keys)
   | AsyncMput docs \<Rightarrow> map_prod (ResultReply \<circ> fulfill_result_promise) id (y_mput Y k st docs))"

text \<open>What a promise is set to when \<^verbatim>\<open>enqueue\<close> refuses the task, and when there is no storage.\<close>

definition fail_reply :: "string \<Rightarrow> async_op \<Rightarrow> reply" where
  "fail_reply msg op = (case op of
     AsyncExists key \<Rightarrow> BoolReply False
   | AsyncMget keys \<Rightarrow> VectorReply (fail_vec keys msg)
   | _ \<Rightarrow> ResultReply (failure msg))"

section \<open>The functions of the adapter\<close>

text \<open>Either the promise is settled at once, or a task is handed to \<^verbatim>\<open>enqueue\<close>.\<close>

type_synonym async_task = "nat \<times> async_op"

definition submit_op :: "bool \<Rightarrow> nat \<Rightarrow> async_op \<Rightarrow> reply + async_task" where
  "submit_op has_storage p op = (if \<not> has_storage then Inl (fail_reply kNullStorageMsg op) else Inr (p, op))"

definition async_get :: "bool \<Rightarrow> nat \<Rightarrow> string \<Rightarrow> reply + async_task" where
  "async_get has_storage p key = submit_op has_storage p (AsyncGet key)"

definition async_put :: "bool \<Rightarrow> nat \<Rightarrow> string \<Rightarrow> string \<Rightarrow> int \<Rightarrow> reply + async_task" where
  "async_put has_storage p key v expire_at = submit_op has_storage p (AsyncPut key v expire_at)"

definition async_remove :: "bool \<Rightarrow> nat \<Rightarrow> string \<Rightarrow> reply + async_task" where
  "async_remove has_storage p key = submit_op has_storage p (AsyncRemove key)"

definition async_exists :: "bool \<Rightarrow> nat \<Rightarrow> string \<Rightarrow> reply + async_task" where
  "async_exists has_storage p key = submit_op has_storage p (AsyncExists key)"

definition async_mget :: "bool \<Rightarrow> nat \<Rightarrow> string list \<Rightarrow> reply + async_task" where
  "async_mget has_storage p keys = submit_op has_storage p (AsyncMget keys)"

definition async_mput :: "bool \<Rightarrow> nat \<Rightarrow> storage_document list \<Rightarrow> reply + async_task" where
  "async_mput has_storage p docs = submit_op has_storage p (AsyncMput docs)"

text \<open>The tasks in the order in which the workers execute them, and the values the promises are set to.\<close>

fun execute_tasks :: "'st sync_storage \<Rightarrow> nat \<Rightarrow> 'st \<Rightarrow> async_task list \<Rightarrow> (nat \<times> reply) list \<times> 'st" where
  "execute_tasks Y k st [] = ([], st)"
| "execute_tasks Y k st ((p, op) # ts) =
     (let (r, st1) = run_async_op Y k st op; (rs, st2) = execute_tasks Y (k + 1) st1 ts in ((p, r) # rs, st2))"

definition refusals :: "async_task list \<Rightarrow> (nat \<times> reply) list" where
  "refusals ts = map (\<lambda>(p, op). (p, fail_reply kShutdownMsg op)) ts"

text \<open>All promises set so far when the queue is in state \<open>q\<close>: executed tasks and refused calls.\<close>

definition promise_log :: "'st sync_storage \<Rightarrow> 'st \<Rightarrow> async_task work_queue \<Rightarrow> (nat \<times> reply) list" where
  "promise_log Y st q = fst (execute_tasks Y 0 st (wq_finished q)) @ refusals (wq_refused q)"

section \<open>Callback style\<close>

text \<open>
  The lambda calls the callback inside the \<^verbatim>\<open>try\<close> block, and again in the handler. \<open>cb\<close> says whether a
  call of the callback with a value throws; a callback that throws in the handler ends the thread and
  with it the process.
\<close>

definition cb_handler :: "('v \<Rightarrow> unit call_outcome) \<Rightarrow> 'v list \<Rightarrow> 'v \<Rightarrow> 'v list \<times> (cpp_error + unit)" where
  "cb_handler cb calls v = (calls @ [v], case cb v of Returned _ \<Rightarrow> Inr () | _ \<Rightarrow> Inl Terminate)"

definition run_callback :: "(string \<Rightarrow> 'v) \<Rightarrow> ('v \<Rightarrow> unit call_outcome) \<Rightarrow> 'v call_outcome \<Rightarrow> 'v list \<times> (cpp_error + unit)" where
  "run_callback fail cb r = (case r of
     Returned v \<Rightarrow> (case cb v of
         Returned _ \<Rightarrow> ([v], Inr ())
       | Threw what \<Rightarrow> cb_handler cb [v] (fail what)
       | ThrewOther \<Rightarrow> cb_handler cb [v] (fail ''unknown exception''))
   | Threw what \<Rightarrow> cb_handler cb [] (fail what)
   | ThrewOther \<Rightarrow> cb_handler cb [] (fail ''unknown exception''))"

text \<open>
  The callback-style functions. Without a storage, and when \<^verbatim>\<open>enqueue\<close> refuses (\<open>accepted\<close> is its result), the
  caller's own thread calls the callback, and an exception reaches the caller; otherwise a worker runs the
  lambda. \<open>call\<close> is the call of the storage.
\<close>

datatype 'v callback_run = InCaller 'v "unit call_outcome" | InWorker "'v list \<times> (cpp_error + unit)"

definition submit_callback :: "(string \<Rightarrow> 'v) \<Rightarrow> ('v \<Rightarrow> unit call_outcome) \<Rightarrow> bool \<Rightarrow> bool \<Rightarrow> 'v call_outcome \<times> 'st \<Rightarrow> 'st \<Rightarrow>
    'v callback_run \<times> 'st" where
  "submit_callback fail cb has_storage accepted call st =
     (if \<not> has_storage then (InCaller (fail kNullStorageMsg) (cb (fail kNullStorageMsg)), st)
      else if \<not> accepted then (InCaller (fail kShutdownMsg) (cb (fail kShutdownMsg)), st)
      else map_prod (InWorker \<circ> run_callback fail cb) id call)"

definition async_get_cb :: "'st sync_storage \<Rightarrow> nat \<Rightarrow> 'st \<Rightarrow> bool \<Rightarrow> bool \<Rightarrow> string \<Rightarrow> (storage_result \<Rightarrow> unit call_outcome) \<Rightarrow>
    storage_result callback_run \<times> 'st" where
  "async_get_cb Y k st has_storage accepted key cb =
     submit_callback failure cb has_storage accepted (y_get Y k st key) st"

definition async_put_cb :: "'st sync_storage \<Rightarrow> nat \<Rightarrow> 'st \<Rightarrow> bool \<Rightarrow> bool \<Rightarrow> string \<Rightarrow> string \<Rightarrow> int \<Rightarrow> (storage_result \<Rightarrow> unit call_outcome) \<Rightarrow>
    storage_result callback_run \<times> 'st" where
  "async_put_cb Y k st has_storage accepted key v e cb =
     submit_callback failure cb has_storage accepted (y_put Y k st key v e) st"

definition async_remove_cb :: "'st sync_storage \<Rightarrow> nat \<Rightarrow> 'st \<Rightarrow> bool \<Rightarrow> bool \<Rightarrow> string \<Rightarrow> (storage_result \<Rightarrow> unit call_outcome) \<Rightarrow>
    storage_result callback_run \<times> 'st" where
  "async_remove_cb Y k st has_storage accepted key cb =
     submit_callback failure cb has_storage accepted (y_remove Y k st key) st"

definition async_exists_cb :: "'st sync_storage \<Rightarrow> nat \<Rightarrow> 'st \<Rightarrow> bool \<Rightarrow> bool \<Rightarrow> string \<Rightarrow> (bool \<Rightarrow> unit call_outcome) \<Rightarrow>
    bool callback_run \<times> 'st" where
  "async_exists_cb Y k st has_storage accepted key cb =
     submit_callback (\<lambda>_. False) cb has_storage accepted (y_exists Y k st key) st"

section \<open>A storage interface behind the adapter\<close>

text \<open>The functions of \<^verbatim>\<open>StorageInterface\<close>, none of which throws; \<open>clock k\<close> is the time of the \<open>k\<close>-th call.\<close>

definition sync_of :: "'st storage_interface \<Rightarrow> (nat \<Rightarrow> int) \<Rightarrow> 'st sync_storage" where
  "sync_of S clock = \<lparr>y_get = \<lambda>k st key. map_prod Returned id (s_get S (clock k) st key),
     y_put = \<lambda>k st key v e. map_prod Returned id (s_put S (clock k) st key v e),
     y_remove = \<lambda>k st key. map_prod Returned id (s_remove S (clock k) st key),
     y_exists = \<lambda>k st key. map_prod Returned id (s_exists S (clock k) st key),
     y_mget = \<lambda>k st keys. map_prod Returned id (s_mget S (clock k) st keys),
     y_mput = \<lambda>k st docs. map_prod Returned id (default_mput S (clock k) st docs)\<rparr>"

text \<open>The reference: the caller calls the storage itself.\<close>

definition direct_op :: "'st storage_interface \<Rightarrow> int \<Rightarrow> 'st \<Rightarrow> async_op \<Rightarrow> reply \<times> 'st" where
  "direct_op S now st op = (case op of
     AsyncGet key \<Rightarrow> map_prod ResultReply id (s_get S now st key)
   | AsyncPut key v e \<Rightarrow> map_prod ResultReply id (s_put S now st key v e)
   | AsyncRemove key \<Rightarrow> map_prod ResultReply id (s_remove S now st key)
   | AsyncExists key \<Rightarrow> map_prod BoolReply id (s_exists S now st key)
   | AsyncMget keys \<Rightarrow> map_prod VectorReply id (s_mget S now st keys)
   | AsyncMput docs \<Rightarrow> map_prod ResultReply id (default_mput S now st docs))"

fun direct_storage_calls :: "'st storage_interface \<Rightarrow> (nat \<Rightarrow> int) \<Rightarrow> nat \<Rightarrow> 'st \<Rightarrow> async_task list \<Rightarrow> (nat \<times> reply) list \<times> 'st" where
  "direct_storage_calls S clock k st [] = ([], st)"
| "direct_storage_calls S clock k st ((p, op) # ts) =
     (let (r, st1) = direct_op S (clock k) st op; (rs, st2) = direct_storage_calls S clock (k + 1) st1 ts in ((p, r) # rs, st2))"

text \<open>The batch write of the memory back end is the default one of the interface.\<close>

lemma default_mput_memory: "default_mput (memory_storage order) now m docs = mem_mput m docs"
  by (induction docs arbitrary: m)
    (simp_all add: mem_mput_def put_document_def memory_storage_def mem_put_def success_def)

section \<open>Every promise is settled once, with the result of the call\<close>

lemma run_async_op_sync: "run_async_op (sync_of S clock) k st op = direct_op S (clock k) st op"
  by (cases op) (simp_all add: run_async_op_def direct_op_def sync_of_def fulfill_result_promise_def fulfill_bool_promise_def
    fulfill_vector_promise_def prod.map_comp comp_def map_prod_def split: prod.split)

lemma execute_direct: "execute_tasks (sync_of S clock) k st ts = direct_storage_calls S clock k st ts"
  by (induction ts arbitrary: k st) (auto simp: run_async_op_sync split: prod.split)

lemma execute_names: "map fst (fst (execute_tasks Y k st ts)) = map fst ts"
  by (induction ts arbitrary: k st) (auto simp: case_prod_beta Let_def)

lemma refusals_names: "map fst (refusals ts) = map fst ts"
  by (auto simp: refusals_def)

text \<open>A single worker executes in the order of submission.\<close>

definition in_order :: "'a work_queue \<Rightarrow> bool" where
  "in_order q \<longleftrightarrow> length (wq_workers q) = 1 \<and> wq_started q = wq_finished q @ running_of (wq_workers q ! 0)"

lemma in_order_step:
  assumes "in_order q" and "wq_step (storage_queue m) q q'"
  shows "in_order q'"
proof -
  obtain w where w: "wq_workers q = [w]" and o: "wq_started q = wq_finished q @ running_of w"
    using assms(1) by (auto simp: in_order_def length_Suc_conv)
  show ?thesis using assms(2)
    by (cases rule: wq_step.cases)
      (use w o in \<open>auto simp: in_order_def wq_run_defs split: decision.splits list.splits\<close>)
qed

lemma one_worker_in_order:
  assumes "wq_reachable (storage_queue m) 1 q"
  shows "in_order q"
  using assms by (rule wq_reachable_invariant) (use in_order_step in \<open>auto simp: in_order_def wq_init_def\<close>)

text \<open>
  C16. When the adapter has been shut down, every operation that was submitted through a future has
  its promise set exactly once, for every number of threads, queue limit and interleaving: refused
  operations with the shutdown message, accepted ones with the result of the storage. With one worker
  thread the futures hold exactly what direct calls of the storage in the order of submission return, and
  the storage ends in the same state.
\<close>

theorem async_futures_settled:
  assumes "wq_reachable (storage_queue m) threads q" and "wq_workers q \<noteq> []" and "set (wq_workers q) \<subseteq> {Exited}"
  shows "mset (map fst (promise_log Y st q)) = mset (map fst (wq_accepted q @ wq_refused q)) \<and>
    (threads = 1 \<longrightarrow>
       promise_log (sync_of S clock) st q =
         fst (direct_storage_calls S clock 0 st (wq_accepted q)) @ refusals (wq_refused q) \<and>
       snd (execute_tasks (sync_of S clock) 0 st (wq_finished q)) = snd (direct_storage_calls S clock 0 st (wq_accepted q)))"
proof -
  note d = adapter_drains.joined_all_done [OF assms]
  have e: "wq_finished q = wq_accepted q" if "threads = 1"
  proof -
    have "in_order q" using one_worker_in_order assms(1) that by blast
    moreover have "wq_tasks q = []" using adapter_drains.stop_heard_reachable [OF assms(1)] assms(2,3)
      by (cases "wq_workers q") (auto simp: stop_heard_def)
    ultimately show ?thesis using adapter_drains.accounted_reachable [OF assms(1)] assms(3)
      by (cases "wq_workers q") (auto simp: in_order_def accounted_def)
  qed
  have "mset (map fst (promise_log Y st q)) = mset (map fst (wq_finished q)) + mset (map fst (wq_refused q))"
    by (simp add: promise_log_def execute_names refusals_names flip: mset_map)
  then have "mset (map fst (promise_log Y st q)) = mset (map fst (wq_accepted q @ wq_refused q))" using d by simp
  then show ?thesis using e by (simp add: promise_log_def execute_direct)
qed

text \<open>A write, a read, and a read that comes after the shutdown began.\<close>

definition demo_moves :: "async_task wq_move list" where
  "demo_moves = [Post (4, AsyncPut ''k'' ''v'' 0), Post (5, AsyncGet ''k''), Check 0, Finish 0, Stop,
     Post (6, AsyncGet ''k''), Check 0, Finish 0, Check 0]"

definition demo_queue :: "async_task work_queue" where
  "demo_queue = the (do_moves (storage_queue 0) (wq_init 1) demo_moves)"

lemma demo_queue_reachable: "wq_reachable (storage_queue 0) 1 demo_queue"
  by (rule do_moves_reachable [of _ _ demo_moves]) (simp add: demo_queue_def demo_moves_def wq_run_defs)

lemmas demo_defs = demo_queue_def demo_moves_def wq_run_defs

theorem async_futures_settled_witness:
  "promise_log (sync_of (memory_storage sorted_list_of_set) (\<lambda>_. 0)) Map.empty demo_queue =
     [(4, ResultReply (success [])), (5, ResultReply (success ''v'')), (6, ResultReply (failure kShutdownMsg))]"
proof -
  have w: "wq_workers demo_queue \<noteq> []" "set (wq_workers demo_queue) \<subseteq> {Exited}"
    and a: "wq_accepted demo_queue = [(4, AsyncPut ''k'' ''v'' 0), (5, AsyncGet ''k'')]"
    and r: "wq_refused demo_queue = [(6, AsyncGet ''k'')]" by (simp_all add: demo_defs)
  show ?thesis using async_futures_settled [OF demo_queue_reachable w, of "sync_of (memory_storage sorted_list_of_set) (\<lambda>_. 0)" Map.empty "memory_storage sorted_list_of_set" "\<lambda>_. 0"]
    unfolding a r by (simp add: direct_op_def memory_storage_def mem_put_def mem_get_def mem_result_def prune_expired_def
      refusals_def fail_reply_def)
qed

section \<open>Divergences\<close>

text \<open>With two workers a later write can be applied before an earlier one.\<close>

lemma two_workers_reorder:
  "\<exists>q. wq_reachable (storage_queue 0) 2 q \<and> wq_accepted q = [t, u] \<and> wq_finished q = [u, t]"
proof -
  let ?ms = "[Post t, Post u, Check 0, Check 1, Finish 1, Finish 0]"
  obtain q where q: "do_moves (storage_queue 0) (wq_init 2) ?ms = Some q" by (simp add: wq_run_defs numeral_2_eq_2)
  show ?thesis using do_moves_reachable [OF q] q by (auto simp: wq_run_defs numeral_2_eq_2 intro!: exI [of _ q])
qed

text \<open>A callback that throws on a good result is called again with a failure, although the operation succeeded.\<close>

lemma callback_called_twice:
  assumes "cb v = Threw what" and "cb (fail what) = Returned ()"
  shows "run_callback fail cb (Returned v) = ([v, fail what], Inr ())"
  using assms by (simp add: run_callback_def cb_handler_def)

lemma throwing_callback_terminates:
  assumes "\<And>v. cb v \<noteq> Returned ()"
  shows "snd (run_callback fail cb r) = Inl Terminate"
  using assms by (auto simp: run_callback_def cb_handler_def split: call_outcome.splits)

text \<open>
  A callback that never throws is called exactly once, on every path: with the failure message when nothing
  was queued, otherwise with the result of the storage unless the storage threw.
\<close>

fun callback_calls :: "'v callback_run \<Rightarrow> 'v list" where
  "callback_calls (InCaller v r) = [v]"
| "callback_calls (InWorker (vs, r)) = vs"

lemma callback_once:
  assumes "\<And>v. cb v = Returned ()"
  shows "\<exists>v. callback_calls (fst (submit_callback fail cb has_storage accepted call st)) = [v] \<and>
    (\<forall>x. has_storage \<and> accepted \<and> fst call = Returned x \<longrightarrow> v = x)"
  using assms by (cases call; cases "fst call") (auto simp: submit_callback_def run_callback_def cb_handler_def)

text \<open>A batch read that throws is answered by a single result, whatever the number of keys.\<close>

lemma mget_exception_one_result:
  "fst (y_mget Y k st keys) = Threw what \<Longrightarrow> fst (run_async_op Y k st (AsyncMget keys)) = VectorReply [failure what]"
  by (simp add: run_async_op_def fulfill_vector_promise_def)

end
