(* ===== verification/Transport.thy ===== *)
theory Transport
  imports WorkQueue Protocol "HOL-Library.Sublist"
begin

text \<open>
  Sockets and connections: \<^verbatim>\<open>net/posix_io.h\<close>, \<^verbatim>\<open>net/tcp_connection.cpp\<close>, \<^verbatim>\<open>net/ws_connection.cpp\<close>,
  \<^verbatim>\<open>net/connection_adapter.h\<close>, \<^verbatim>\<open>net/udp_server.cpp\<close>, \<^verbatim>\<open>net/udp_socket.cpp\<close>. What the operating system returns
  is an argument: \<open>wr k len\<close> is the result of the \<open>k\<close>-th write of a call, to which \<open>len\<close> bytes are offered,
  and lists of results stand for the reads a loop makes.
\<close>

section \<open>Sockets\<close>

text \<open>A \<^verbatim>\<open>TcpSocket\<close> is its file descriptor.\<close>

record tcp_socket =
  sock_fd :: int

definition sock_is_open :: "tcp_socket \<Rightarrow> bool" where
  "sock_is_open s \<longleftrightarrow> 0 \<le> sock_fd s"

definition sock_close :: "tcp_socket \<Rightarrow> tcp_socket" where
  "sock_close s = (if 0 \<le> sock_fd s then s\<lparr>sock_fd := -1\<rparr> else s)"

text \<open>\<open>rc\<close> and \<open>errno\<close> are the results of the system call; 0 is success.\<close>

definition sock_shutdown :: "int \<Rightarrow> int \<Rightarrow> tcp_socket \<Rightarrow> int" where
  "sock_shutdown rc errno s = (if 0 \<le> sock_fd s \<and> rc \<noteq> 0 then errno else 0)"

definition sock_write :: "(nat \<Rightarrow> int) \<Rightarrow> tcp_socket \<Rightarrow> nat \<Rightarrow> int" where
  "sock_write os s len = (if 0 \<le> sock_fd s then os len else -1)"

definition sock_read :: "int \<Rightarrow> tcp_socket \<Rightarrow> int" where
  "sock_read os s = (if 0 \<le> sock_fd s then os else -1)"

text \<open>Move construction and assignment: the new owner, and the emptied source.\<close>

definition sock_move :: "tcp_socket \<Rightarrow> tcp_socket \<times> tcp_socket" where
  "sock_move other = (\<lparr>sock_fd = sock_fd other\<rparr>, other\<lparr>sock_fd := -1\<rparr>)"

definition ec_message :: "(int \<Rightarrow> string) \<Rightarrow> int \<Rightarrow> string" where
  "ec_message strerror v = (if v = 0 then ''Success'' else strerror v)"

section \<open>Writing\<close>

text \<open>
  The loop of all senders: the bytes the system took, and whether everything was taken. A write that
  reports more than it was offered is outside the contract of \<^verbatim>\<open>write\<close>.
\<close>

function write_loop :: "(nat \<Rightarrow> nat \<Rightarrow> int) \<Rightarrow> nat \<Rightarrow> 'a list \<Rightarrow> 'a list \<times> bool" where
  "write_loop wr k data =
     (if data = [] then ([], True)
      else let n = wr k (length data)
           in if n \<le> 0 then ([], False)
              else let (sent, ok) = write_loop wr (k + 1) (drop (nat n) data) in (take (nat n) data @ sent, ok))"
  by pat_completeness auto
termination
  by (relation "measure (\<lambda>(wr, k, data). length data)") auto

declare write_loop.simps [simp del]

lemma write_loop_prefix: "prefix (fst (write_loop wr k data)) data"
proof (induction wr k data rule: write_loop.induct)
  case (1 wr k data)
  show ?case
  proof (cases "data = [] \<or> wr k (length data) \<le> 0")
    case True
    then show ?thesis by (subst write_loop.simps) auto
  next
    case False
    let ?n = "nat (wr k (length data))"
    have "prefix (fst (write_loop wr (k + 1) (drop ?n data))) (drop ?n data)" using 1 False by simp
    then obtain r where "drop ?n data = fst (write_loop wr (k + 1) (drop ?n data)) @ r" by (auto simp: prefix_def)
    then have "data = take ?n data @ fst (write_loop wr (k + 1) (drop ?n data)) @ r" by (metis append_take_drop_id)
    then have "prefix (take ?n data @ fst (write_loop wr (k + 1) (drop ?n data))) data" by (auto simp: prefix_def)
    then show ?thesis using False by (subst write_loop.simps) (simp add: case_prod_beta Let_def)
  qed
qed

lemma write_loop_complete: "snd (write_loop wr k data) \<Longrightarrow> fst (write_loop wr k data) = data"
proof (induction wr k data rule: write_loop.induct)
  case (1 wr k data)
  show ?case
  proof (cases "data = [] \<or> wr k (length data) \<le> 0")
    case True
    then show ?thesis using 1(2) by (subst write_loop.simps, subst (asm) write_loop.simps) (auto split: if_splits)
  next
    case False
    let ?n = "nat (wr k (length data))"
    have "snd (write_loop wr (k + 1) (drop ?n data))"
      using 1(2) False by (subst (asm) write_loop.simps) (simp add: case_prod_beta Let_def)
    then have "fst (write_loop wr (k + 1) (drop ?n data)) = drop ?n data" using 1(1) False by simp
    then show ?thesis using False by (subst write_loop.simps) (simp add: case_prod_beta Let_def)
  qed
qed

text \<open>A system that takes at least one byte each time takes everything.\<close>

lemma write_loop_all: "(\<And>k len. 0 < len \<Longrightarrow> 0 < wr k len) \<Longrightarrow> snd (write_loop wr k data)"
proof (induction wr k data rule: write_loop.induct)
  case (1 wr k data)
  show ?case
  proof (cases "data = []")
    case True
    then show ?thesis by (subst write_loop.simps) simp
  next
    case False
    then have "\<not> wr k (length data) \<le> 0" using "1.prems" [of "length data" k] by simp
    then show ?thesis using 1(1) [OF False refl] "1.prems" False
      by (subst write_loop.simps) (simp add: case_prod_beta Let_def)
  qed
qed

section \<open>TcpConnection\<close>

text \<open>\<open>tc_sent\<close> records the bytes the system has taken from this connection.\<close>

record tcp_connection =
  tc_socket :: tcp_socket
  tc_closed :: bool
  tc_sent :: bytes

definition tcp_connection_init :: "tcp_socket \<Rightarrow> tcp_connection" where
  "tcp_connection_init s = \<lparr>tc_socket = s, tc_closed = False, tc_sent = []\<rparr>"

definition tcp_send :: "(nat \<Rightarrow> nat \<Rightarrow> int) \<Rightarrow> bytes \<Rightarrow> tcp_connection \<Rightarrow> tcp_connection" where
  "tcp_send wr data c =
     (if tc_closed c \<or> \<not> sock_is_open (tc_socket c) then c
      else c\<lparr>tc_sent := tc_sent c @ fst (write_loop (\<lambda>k. sock_write (wr k) (tc_socket c)) 0 data)\<rparr>)"

definition tcp_close :: "tcp_connection \<Rightarrow> tcp_connection" where
  "tcp_close c = (if tc_closed c then c else c\<lparr>tc_closed := True, tc_socket := sock_close (tc_socket c)\<rparr>)"

text \<open>
  The read loop. \<open>Got\<close> is a read that returns bytes, \<open>Ended\<close> one that returns 0 or an error. \<open>cb\<close> is the
  message callback: the connection after it, and whether it threw. The result: the events, the
  connection, and whether the loop still waits, has returned or was left by an exception.
\<close>

datatype read_result = Got bytes | Ended

datatype conn_event = Message bytes | Closed

datatype loop_state = Waits | Returns | Throws

type_synonym message_callback = "tcp_connection \<Rightarrow> bytes \<Rightarrow> tcp_connection \<times> bool"

fun run_read_loop ::
    "message_callback option \<Rightarrow> bool \<Rightarrow> tcp_connection \<Rightarrow> read_result list \<Rightarrow> conn_event list \<times> tcp_connection \<times> loop_state" where
  "run_read_loop cb has_close_cb c rs =
     (let finish = (if has_close_cb then [Closed] else [])
      in if tc_closed c \<or> \<not> sock_is_open (tc_socket c) then (finish, c\<lparr>tc_closed := True\<rparr>, Returns)
         else case rs of
             [] \<Rightarrow> ([], c, Waits)
           | Ended # _ \<Rightarrow> (finish, c\<lparr>tc_closed := True\<rparr>, Returns)
           | Got data # rs' \<Rightarrow>
               (case cb of
                  None \<Rightarrow> run_read_loop cb has_close_cb c rs'
                | Some f \<Rightarrow>
                    (let (c1, threw) = f c data
                     in if threw then (Message data # finish, c1\<lparr>tc_closed := True\<rparr>, Throws)
                        else let (es, c2, st) = run_read_loop cb has_close_cb c1 rs' in (Message data # es, c2, st))))"

declare run_read_loop.simps [simp del]

text \<open>The loop of \<^verbatim>\<open>WsConnection\<close> has no guard: when the callback throws, nobody is told of the close.\<close>

fun ws_read_loop ::
    "message_callback option \<Rightarrow> bool \<Rightarrow> tcp_connection \<Rightarrow> read_result list \<Rightarrow> conn_event list \<times> tcp_connection \<times> loop_state" where
  "ws_read_loop cb has_close_cb c rs =
     (let finish = (if has_close_cb then [Closed] else [])
      in if tc_closed c \<or> \<not> sock_is_open (tc_socket c) then (finish, c\<lparr>tc_closed := True\<rparr>, Returns)
         else case rs of
             [] \<Rightarrow> ([], c, Waits)
           | Ended # _ \<Rightarrow> (finish, c\<lparr>tc_closed := True\<rparr>, Returns)
           | Got data # rs' \<Rightarrow>
               (case cb of
                  None \<Rightarrow> ws_read_loop cb has_close_cb c rs'
                | Some f \<Rightarrow>
                    (let (c1, threw) = f c data
                     in if threw then ([Message data], c1, Throws)
                        else let (es, c2, st) = ws_read_loop cb has_close_cb c1 rs' in (Message data # es, c2, st))))"

declare ws_read_loop.simps [simp del]

definition ws_send_text :: "(nat \<Rightarrow> nat \<Rightarrow> int) \<Rightarrow> bytes \<Rightarrow> tcp_connection \<Rightarrow> tcp_connection" where
  "ws_send_text wr text c =
     (if tc_closed c \<or> \<not> sock_is_open (tc_socket c) then c
      else c\<lparr>tc_sent := tc_sent c @ fst (write_loop (\<lambda>k. sock_write (wr k) (tc_socket c)) 0 text)\<rparr>)"

definition ws_send_binary :: "(nat \<Rightarrow> nat \<Rightarrow> int) \<Rightarrow> bytes \<Rightarrow> tcp_connection \<Rightarrow> tcp_connection" where
  "ws_send_binary wr data c =
     (if tc_closed c \<or> \<not> sock_is_open (tc_socket c) then c
      else c\<lparr>tc_sent := tc_sent c @ fst (write_loop (\<lambda>k. sock_write (wr k) (tc_socket c)) 0 data)\<rparr>)"

definition ws_close :: "tcp_connection \<Rightarrow> tcp_connection" where
  "ws_close c = c\<lparr>tc_closed := True, tc_socket := sock_close (tc_socket c)\<rparr>"

section \<open>IConnection\<close>

text \<open>The common interface of connections and its two adapters.\<close>

record iconnection =
  ic_native_handle :: "tcp_connection \<Rightarrow> int"
  ic_send :: "(nat \<Rightarrow> nat \<Rightarrow> int) \<Rightarrow> bytes \<Rightarrow> tcp_connection \<Rightarrow> tcp_connection"
  ic_send_text :: "(nat \<Rightarrow> nat \<Rightarrow> int) \<Rightarrow> bytes \<Rightarrow> tcp_connection \<Rightarrow> tcp_connection"
  ic_close :: "tcp_connection \<Rightarrow> tcp_connection"
  ic_type :: string

definition native_handle :: "tcp_connection \<Rightarrow> int" where
  "native_handle c = sock_fd (tc_socket c)"

definition tcp_adapter :: iconnection where
  "tcp_adapter = \<lparr>ic_native_handle = native_handle, ic_send = tcp_send, ic_send_text = tcp_send,
     ic_close = tcp_close, ic_type = ''tcp''\<rparr>"

definition ws_adapter :: iconnection where
  "ws_adapter = \<lparr>ic_native_handle = native_handle, ic_send = ws_send_binary, ic_send_text = ws_send_text,
     ic_close = ws_close, ic_type = ''ws''\<rparr>"

section \<open>What a receiver makes of a stream\<close>

lemma proto_safe: "proto.safe bs"
  by (induction bs rule: proto.frame_induct) (auto intro: proto.safe_None proto.safe_Some)

lemma feed_reads_drain: "fst (feed_reads parser_init cs) = fst (proto.drain (concat cs))"
proof -
  have i: "parser_inv parser_init" "frame_step (parser_pending parser_init) = None"
    by (simp_all add: parser_init_def parser_inv_def parser_pending_def frame_step_def)
  show ?thesis using parser.feed_all_drains [OF i proto_safe, of cs]
    by (auto simp: feed_all_reads parser_init_def parser_pending_def)
qed

lemma drain_prefix: "prefix a b \<Longrightarrow> prefix (fst (proto.drain a)) (fst (proto.drain b))"
proof -
  assume "prefix a b"
  then obtain r where b: "b = a @ r" by (auto simp: prefix_def)
  obtain ms1 r1 where 1: "proto.drain a = (ms1, r1)" by fastforce
  obtain ms2 r2 where 2: "proto.drain (r1 @ r) = (ms2, r2)" by fastforce
  show ?thesis using proto.drain_append [OF 1 2] 1 by (simp add: b prefix_def)
qed

lemma drain_serialized: "list_all wire_valid ms \<Longrightarrow> fst (proto.drain (concat (map serialize ms))) = ms"
  using proto.drain_encoded by simp

section \<open>The read loop\<close>

definition conn_open :: "tcp_connection \<Rightarrow> bool" where
  "conn_open c \<longleftrightarrow> \<not> tc_closed c \<and> sock_is_open (tc_socket c)"

lemma read_loop_dead:
  "\<not> conn_open c \<Longrightarrow> run_read_loop cb h c rs = (if h then [Closed] else [], c\<lparr>tc_closed := True\<rparr>, Returns)"
  by (subst run_read_loop.simps) (auto simp: conn_open_def)

lemma read_loop_open:
  assumes "conn_open c"
  shows "run_read_loop cb h c [] = ([], c, Waits)"
    and "run_read_loop cb h c (Ended # rs) = (if h then [Closed] else [], c\<lparr>tc_closed := True\<rparr>, Returns)"
    and "run_read_loop None h c (Got d # rs) = run_read_loop None h c rs"
    and "run_read_loop (Some f) h c (Got d # rs) =
      (if snd (f c d) then (Message d # (if h then [Closed] else []), (fst (f c d))\<lparr>tc_closed := True\<rparr>, Throws)
       else apfst (Cons (Message d)) (run_read_loop (Some f) h (fst (f c d)) rs))"
  using assms by (subst run_read_loop.simps, simp add: conn_open_def Let_def case_prod_beta apfst_def map_prod_def)+

lemma ws_read_loop_open:
  assumes "conn_open c"
  shows "ws_read_loop cb h c [] = ([], c, Waits)"
    and "ws_read_loop cb h c (Ended # rs) = (if h then [Closed] else [], c\<lparr>tc_closed := True\<rparr>, Returns)"
    and "ws_read_loop (Some f) h c (Got d # rs) =
      (if snd (f c d) then ([Message d], fst (f c d), Throws) else apfst (Cons (Message d)) (ws_read_loop (Some f) h (fst (f c d)) rs))"
  using assms by (subst ws_read_loop.simps, simp add: conn_open_def Let_def case_prod_beta apfst_def map_prod_def)+

text \<open>What the message callback got; a callback that neither throws nor closes the connection; what may follow the data.\<close>

fun messages_given :: "conn_event list \<Rightarrow> bytes list" where
  "messages_given [] = []"
| "messages_given (Message d # es) = d # messages_given es"
| "messages_given (Closed # es) = messages_given es"

definition harmless :: "message_callback \<Rightarrow> bool" where
  "harmless f \<longleftrightarrow> (\<forall>c d. conn_open c \<longrightarrow> conn_open (fst (f c d)) \<and> \<not> snd (f c d))"

definition stream_end :: "read_result list \<Rightarrow> bool" where
  "stream_end rest \<longleftrightarrow> rest = [] \<or> hd rest = Ended"

lemma run_read_loop_receives:
  "harmless f \<Longrightarrow> stream_end rest \<Longrightarrow> conn_open r \<Longrightarrow> messages_given (fst (run_read_loop (Some f) h r (map Got chunks @ rest))) = chunks"
proof (induction chunks arbitrary: r)
  case Nil
  then show ?case by (cases rest) (auto simp: stream_end_def read_loop_open)
qed (simp add: read_loop_open harmless_def)

lemma ws_read_loop_receives:
  "harmless f \<Longrightarrow> stream_end rest \<Longrightarrow> conn_open r \<Longrightarrow> messages_given (fst (ws_read_loop (Some f) h r (map Got chunks @ rest))) = chunks"
proof (induction chunks arbitrary: r)
  case Nil
  then show ?case by (cases rest) (auto simp: stream_end_def ws_read_loop_open)
qed (simp add: ws_read_loop_open harmless_def)

section \<open>The contract of a connection\<close>

definition takes_all :: "(nat \<Rightarrow> nat \<Rightarrow> int) \<Rightarrow> bool" where
  "takes_all wr \<longleftrightarrow> (\<forall>k len. 0 < len \<longrightarrow> 0 < wr k len \<and> wr k len \<le> int len)"

fun send_messages :: "iconnection \<Rightarrow> ((nat \<Rightarrow> nat \<Rightarrow> int) \<times> message) list \<Rightarrow> tcp_connection \<Rightarrow> tcp_connection" where
  "send_messages I [] c = c"
| "send_messages I ((wr, m) # ms) c = send_messages I ms (ic_send I wr (serialize m) c)"

locale connection =
  fixes I :: iconnection
    and loop :: "message_callback option \<Rightarrow> bool \<Rightarrow> tcp_connection \<Rightarrow> read_result list \<Rightarrow> conn_event list \<times> tcp_connection \<times> loop_state"
  assumes send_law: "conn_open c \<Longrightarrow> \<exists>out. ic_send I wr data c = c\<lparr>tc_sent := tc_sent c @ out\<rparr> \<and> prefix out data \<and>
      (takes_all wr \<longrightarrow> out = data)"
    and text_law: "ic_send_text I = ic_send I"
    and dead_law: "\<not> conn_open c \<Longrightarrow> ic_send I wr data c = c"
    and close_law: "\<not> conn_open (ic_close I c) \<and> tc_sent (ic_close I c) = tc_sent c"
    and loop_law: "harmless f \<Longrightarrow> stream_end rest \<Longrightarrow> conn_open r \<Longrightarrow> messages_given (fst (loop (Some f) h r (map Got chunks @ rest))) = chunks"
begin

lemma send_open: "conn_open c \<Longrightarrow> conn_open (ic_send I wr data c)"
  using send_law [of c wr data] by (auto simp: conn_open_def)

lemma send_messages_open: "conn_open c \<Longrightarrow> conn_open (send_messages I ms c)"
  by (induction ms arbitrary: c) (auto simp: send_open)

lemma send_messages_sent:
  assumes "conn_open c" and "list_all (takes_all \<circ> fst) wms"
  shows "tc_sent (send_messages I wms c) = tc_sent c @ concat (map (serialize \<circ> snd) wms)"
  using assms
proof (induction wms arbitrary: c)
  case (Cons wm wms)
  obtain wr m where wm: "wm = (wr, m)" by fastforce
  have "ic_send I wr (serialize m) c = c\<lparr>tc_sent := tc_sent c @ serialize m\<rparr>"
    using send_law [OF Cons.prems(1), of wr "serialize m"] Cons.prems(2) wm by auto
  then show ?case using Cons.IH [OF send_open [OF Cons.prems(1), of wr "serialize m"]] Cons.prems(2) wm
    by (simp add: comp_def)
qed simp

lemma nothing_after_close: "ic_send I wr data (ic_close I c) = ic_close I c"
  using close_law dead_law by blast

lemma stream_delivers:
  assumes "conn_open c" and "tc_sent c = []" and "list_all (takes_all \<circ> fst) wms"
    and "list_all (wire_valid \<circ> snd) wms" and "wire_valid m"
    and "concat chunks = tc_sent (send_messages I (wms @ [(wr, m)]) c)"
    and "harmless f" and "stream_end rest" and "conn_open r"
    and got: "got = fst (feed_reads parser_init (messages_given (fst (loop (Some f) h r (map Got chunks @ rest)))))"
  shows "prefix (map snd wms) got \<and> prefix got (map snd wms @ [m]) \<and> (takes_all wr \<longrightarrow> got = map snd wms @ [m])"
proof -
  let ?ms = "map snd wms" and ?c = "send_messages I wms c"
  have "send_messages I (wms @ [(wr, m)]) c = ic_send I wr (serialize m) (send_messages I wms c)" for c
    by (induction wms arbitrary: c) auto
  moreover obtain out where out: "ic_send I wr (serialize m) ?c = ?c\<lparr>tc_sent := tc_sent ?c @ out\<rparr>"
      "prefix out (serialize m)" "takes_all wr \<longrightarrow> out = serialize m"
    using send_law [OF send_messages_open [OF assms(1)]] by blast
  ultimately have s: "concat chunks = concat (map serialize ?ms) @ out"
    using assms(6) send_messages_sent [OF assms(1,3)] assms(2) by simp
  have v: "list_all wire_valid ?ms" using assms(4) by (simp add: list_all_iff)
  have "prefix (concat chunks) (concat (map serialize (?ms @ [m])))" using s out(2) by (auto simp: prefix_def)
  from drain_prefix [OF this] have "prefix (fst (feed_reads parser_init chunks)) (?ms @ [m])"
    using drain_serialized [of "?ms @ [m]"] v assms(5) by (simp add: feed_reads_drain)
  moreover have "prefix (concat (map serialize ?ms)) (concat chunks)" using s by (auto simp: prefix_def)
  from drain_prefix [OF this] have "prefix ?ms (fst (feed_reads parser_init chunks))"
    using drain_serialized [OF v] by (simp add: feed_reads_drain)
  moreover have "fst (feed_reads parser_init chunks) = ?ms @ [m]" if "takes_all wr"
    using drain_serialized [of "?ms @ [m]"] v assms(5) s out(3) that by (simp add: feed_reads_drain)
  ultimately show ?thesis unfolding got loop_law [OF assms(7-9)] by blast
qed

end

lemma write_loop_takes_all:
  assumes "takes_all wr" and "sock_is_open s"
  shows "fst (write_loop (\<lambda>k. sock_write (wr k) s) 0 data) = data"
  by (rule write_loop_complete, rule write_loop_all)
    (use assms in \<open>simp add: takes_all_def sock_write_def sock_is_open_def\<close>)

interpretation tcp_conn: connection tcp_adapter run_read_loop
  by unfold_locales (auto simp: tcp_adapter_def tcp_send_def tcp_close_def conn_open_def sock_close_def sock_is_open_def
    write_loop_prefix run_read_loop_receives intro!: write_loop_takes_all exI)

interpretation ws_conn: connection ws_adapter ws_read_loop
  by unfold_locales (auto simp: ws_adapter_def ws_send_binary_def ws_send_text_def ws_close_def conn_open_def
    sock_close_def sock_is_open_def write_loop_prefix fun_eq_iff ws_read_loop_receives intro!: write_loop_takes_all exI)

text \<open>
  C8. Messages with bodies below 64 KiB sent over a fresh open connection of either kind, every write but
  that of the last message being taken whole, however it is split: whatever way the stream is cut into
  the reads of the receiving read loop, with an end of file or an error only after them, and for a message
  callback that does not throw and leaves the connection open, a parser fed with what the callback gets
  delivers the messages, in order: all of them when the last write is taken whole as well, otherwise all
  but possibly the last, and nothing that was not sent.
\<close>

theorem messages_cross_connection:
  assumes "(I, loop) = (tcp_adapter, run_read_loop) \<or> (I, loop) = (ws_adapter, ws_read_loop)"
    and "conn_open c" and "tc_sent c = []"
    and "list_all (takes_all \<circ> fst) wms" and "list_all (wire_valid \<circ> snd) wms" and "wire_valid m"
    and "concat chunks = tc_sent (send_messages I (wms @ [(wr, m)]) c)"
    and "harmless f" and "stream_end rest" and "conn_open r"
    and "got = fst (feed_reads parser_init (messages_given (fst (loop (Some f) h r (map Got chunks @ rest)))))"
  shows "prefix (map snd wms) got \<and> prefix got (map snd wms @ [m]) \<and> (takes_all wr \<longrightarrow> got = map snd wms @ [m])"
  using assms(1)
proof
  assume "(I, loop) = (tcp_adapter, run_read_loop)"
  then show ?thesis using tcp_conn.stream_delivers [OF assms(2-6)] assms(7-11) by blast
next
  assume "(I, loop) = (ws_adapter, ws_read_loop)"
  then show ?thesis using ws_conn.stream_delivers [OF assms(2-6)] assms(7-11) by blast
qed

definition open_conn :: tcp_connection where
  "open_conn = tcp_connection_init \<lparr>sock_fd = 5\<rparr>"

text \<open>A system that takes at most three bytes at a time, and one that fails at the second write.\<close>

definition slow_wr :: "nat \<Rightarrow> nat \<Rightarrow> int" where
  "slow_wr k len = int (min 3 len)"

definition failing_wr :: "nat \<Rightarrow> nat \<Rightarrow> int" where
  "failing_wr k len = (if k = 0 then int (min 4 len) else -1)"

lemma slow_takes_all: "takes_all slow_wr"
  by (simp add: takes_all_def slow_wr_def)

lemmas send_eval = send_messages.simps tcp_adapter_def tcp_send_def open_conn_def tcp_connection_init_def sock_is_open_def
  sock_write_def serialize_def put_be16_eq slow_wr_def failing_wr_def write_loop.simps

text \<open>The receiver does nothing with its data; the sender leaves after its messages.\<close>

definition quiet :: message_callback where
  "quiet c d = (c, False)"

theorem messages_cross_connection_witness:
  "fst (feed_reads parser_init (messages_given (fst (run_read_loop (Some quiet) True open_conn
      (map Got [[0, 7], [0, 2, 1, 2, 0], [8, 0, 0]] @ [Ended]))))) = [\<lparr>cmd = 7, body = [1, 2]\<rparr>, \<lparr>cmd = 8, body = []\<rparr>]"
proof -
  let ?wms = "[(slow_wr, \<lparr>cmd = 7, body = [1, 2]\<rparr>)]" and ?m = "\<lparr>cmd = 8, body = []\<rparr> :: message"
  have "tc_sent (send_messages tcp_adapter (?wms @ [(slow_wr, ?m)]) open_conn) = [0, 7, 0, 2, 1, 2, 0, 8, 0, 0]"
    by (simp add: send_eval)
  moreover have "conn_open open_conn" "harmless quiet" "stream_end [Ended]"
    by (simp_all add: conn_open_def open_conn_def tcp_connection_init_def sock_is_open_def harmless_def quiet_def stream_end_def)
  ultimately show ?thesis
    using messages_cross_connection [of tcp_adapter run_read_loop open_conn ?wms ?m "[[0, 7], [0, 2, 1, 2, 0], [8, 0, 0]]" slow_wr
        quiet "[Ended]" open_conn _ True, OF _ _ _ _ _ _ _ _ _ _ refl]
    by (simp add: slow_takes_all wire_valid_def open_conn_def tcp_connection_init_def)
qed

text \<open>
  A send that fails half-way is reported nowhere and does not close the connection. When the caller sends the
  next message, its bytes complete the torn one: the receiver gets a message that nobody sent.
\<close>

lemma torn_send_corrupts:
  "let c = tcp_send slow_wr (serialize \<lparr>cmd = 8, body = []\<rparr>)
         (tcp_send failing_wr (serialize \<lparr>cmd = 7, body = [1, 2]\<rparr>) open_conn)
   in conn_open c \<and> fst (feed_reads parser_init [tc_sent c]) = [\<lparr>cmd = 7, body = [0, 8]\<rparr>]"
  by (simp add: send_eval conn_open_def feed_def feed_loop.simps parser_init_def get_be16_eq load16_def)

section \<open>The end of a connection\<close>

text \<open>
  However the loop is left, also by an exception of the callback, the close callback is called once, as the
  last thing; as long as the loop waits it is not called.
\<close>

lemma close_reported_once:
  assumes "run_read_loop cb has_close c rs = (es, c', st)"
  shows "\<exists>ds. es = map Message ds @ (if st = Waits \<or> \<not> has_close then [] else [Closed]) \<and>
    (st \<noteq> Waits \<longrightarrow> tc_closed c')"
  using assms
proof (induction rs arbitrary: c es)
  case Nil
  then show ?case by (cases "conn_open c") (auto simp: read_loop_dead read_loop_open)
next
  case (Cons r rs)
  show ?case
  proof (cases "conn_open c \<and> (\<exists>d f. r = Got d \<and> cb = Some f \<and> \<not> snd (f c d))")
    case True
    then obtain d f where r: "r = Got d" "cb = Some f" "\<not> snd (f c d)" and o: "conn_open c" by blast
    obtain es1 where e: "run_read_loop cb has_close (fst (f c d)) rs = (es1, c', st)" "es = Message d # es1"
      using Cons.prems r o by (cases "run_read_loop cb has_close (fst (f c d)) rs") (auto simp: read_loop_open(4))
    from Cons.IH [OF e(1)] obtain ds where "es1 = map Message ds @ (if st = Waits \<or> \<not> has_close then [] else [Closed])"
      "st \<noteq> Waits \<longrightarrow> tc_closed c'" by blast
    then show ?thesis using e(2) by (auto intro!: exI [of _ "d # ds"])
  next
    case False
    show ?thesis
    proof (cases "conn_open c")
      case True
      show ?thesis
      proof (cases r)
        case (Got d)
        then show ?thesis using Cons False True
          by (cases cb) (auto simp: read_loop_open intro!: exI [of _ "[d]"])
      qed (use Cons.prems True in \<open>auto simp: read_loop_open\<close>)
    qed (use Cons.prems in \<open>auto simp: read_loop_dead\<close>)
  qed
qed

text \<open>
  Without an exception the callback gets what the reads returned, in order, up to the first failed read, as
  long as it does not close the connection itself.
\<close>

lemma read_loop_delivers:
  assumes "conn_open c" and "\<And>c d. conn_open c \<Longrightarrow> conn_open (fst (f c d)) \<and> \<not> snd (f c d)"
  shows "fst (run_read_loop (Some f) True c (map Got ds @ Ended # rs)) = map Message ds @ [Closed]"
  using assms(1)
  by (induction ds arbitrary: c) (auto simp: read_loop_open assms(2))

text \<open>Over a WebSocket connection an exception leaves the loop without the close callback.\<close>

lemma ws_exception_unreported:
  assumes "conn_open c" and "f c d = (c', True)"
  shows "ws_read_loop (Some f) True c (Got d # rs) = ([Message d], c', Throws)"
  using assms by (subst ws_read_loop.simps) (simp add: conn_open_def)

section \<open>UdpServer\<close>

text \<open>
  One round of the receive loop: a datagram with its sender, an empty datagram, or an error with its
  \<^verbatim>\<open>errno\<close>. Only a failing call sets \<^verbatim>\<open>errno\<close>; the loop reads it also after an empty datagram. The result:
  the tasks posted to the \<^verbatim>\<open>IoService\<close>, and whether the loop still waits.
\<close>

datatype 'e recv_result = Datagram bytes 'e | EmptyDatagram | RecvFails int

definition EINTR :: int where "EINTR = 4"
definition EAGAIN :: int where "EAGAIN = 11"

record 'e udp_server =
  us_fd :: int
  us_stopped :: bool
  us_thread :: bool   \<comment> \<open>\<^verbatim>\<open>recv_thread_\<close> is joinable\<close>
  us_has_cb :: bool

text \<open>\<open>socket_rc\<close> and \<open>bind_rc\<close> are the results of the system calls of the constructor.\<close>

definition udp_server_init :: "int \<Rightarrow> int \<Rightarrow> 'e udp_server" where
  "udp_server_init socket_rc bind_rc =
     \<lparr>us_fd = (if socket_rc < 0 then socket_rc else if bind_rc < 0 then -1 else socket_rc), us_stopped = False,
      us_thread = False, us_has_cb = False\<rparr>"

definition start_receive :: "'e udp_server \<Rightarrow> cpp_error + 'e udp_server" where
  "start_receive u =
     (if us_fd u < 0 then Inr u
      else if us_thread u then Inl Terminate
      else Inr (u\<lparr>us_stopped := False, us_thread := True\<rparr>))"

definition udp_stop :: "'e udp_server \<Rightarrow> 'e udp_server" where
  "udp_stop u = u\<lparr>us_stopped := True, us_thread := False, us_fd := (if 0 \<le> us_fd u then -1 else us_fd u)\<rparr>"

fun recv_loop :: "bool \<Rightarrow> int \<Rightarrow> 'e recv_result list \<Rightarrow> (bytes \<times> 'e) list \<times> bool" where
  "recv_loop has_cb errno [] = ([], True)"
| "recv_loop has_cb errno (Datagram data remote # rs) =
     (let (out, waits) = recv_loop has_cb errno rs in (if has_cb then (data, remote) # out else out, waits))"
| "recv_loop has_cb errno (EmptyDatagram # rs) =
     (if errno = EINTR \<or> errno = EAGAIN then recv_loop has_cb errno rs else ([], False))"
| "recv_loop has_cb errno (RecvFails e # rs) =
     (if e = EINTR \<or> e = EAGAIN then recv_loop has_cb e rs else ([], False))"

text \<open>What is handed to \<^verbatim>\<open>sendto\<close>; \<open>None\<close> when there is no call.\<close>

definition udp_send_to :: "'e udp_server \<Rightarrow> bytes \<Rightarrow> 'e \<Rightarrow> (bytes \<times> 'e) option" where
  "udp_send_to u data remote = (if us_fd u < 0 \<or> data = [] then None else Some (data, remote))"

text \<open>Datagrams reach the callback in the order of arrival, and interrupted calls are repeated.\<close>

lemma recv_loop_delivers:
  "\<forall>r\<in>set rs. r \<noteq> EmptyDatagram \<and> (\<forall>e. r = RecvFails e \<longrightarrow> e = EINTR \<or> e = EAGAIN) \<Longrightarrow>
     recv_loop True errno rs = (concat (map (\<lambda>r. case r of Datagram d e \<Rightarrow> [(d, e)] | _ \<Rightarrow> []) rs), True)"
  by (induction True errno rs rule: recv_loop.induct) auto

text \<open>
  One empty datagram from anybody ends the loop, and with it all reception: \<^verbatim>\<open>recvfrom\<close> returns 0, which is no
  error, and \<^verbatim>\<open>errno\<close> still has its old value.
\<close>

lemma empty_datagram_ends_server:
  "errno \<noteq> EINTR \<Longrightarrow> errno \<noteq> EAGAIN \<Longrightarrow> recv_loop has_cb errno (EmptyDatagram # rs) = ([], False)"
  by simp

lemma start_receive_twice:
  "0 \<le> us_fd u \<Longrightarrow> us_thread u = False \<Longrightarrow> \<exists>u'. start_receive u = Inr u' \<and> start_receive u' = Inl Terminate"
  by (simp add: start_receive_def)

section \<open>UdpSocket\<close>

text \<open>\<open>uk_closes\<close> counts the calls of the close callback.\<close>

record udp_socket =
  uk_fd :: int
  uk_local_addr :: string
  uk_local_port :: "16 word"
  uk_has_close_cb :: bool
  uk_closes :: nat

definition udp_socket_init :: "int \<Rightarrow> udp_socket" where
  "udp_socket_init fd = \<lparr>uk_fd = fd, uk_local_addr = [], uk_local_port = 0, uk_has_close_cb = False, uk_closes = 0\<rparr>"

definition udp_socket_close :: "udp_socket \<Rightarrow> udp_socket" where
  "udp_socket_close u =
     (if 0 \<le> uk_fd u
      then u\<lparr>uk_fd := -1, uk_closes := uk_closes u + (if uk_has_close_cb u then 1 else 0)\<rparr> else u)"

text \<open>\<open>pton\<close> parses an address; the call of \<^verbatim>\<open>sendto\<close> is made only for a valid one.\<close>

definition udp_socket_send_to ::
    "(string \<Rightarrow> 'ad option) \<Rightarrow> string \<Rightarrow> 16 word \<Rightarrow> bytes \<Rightarrow> (('ad \<times> 16 word) \<times> bytes) option" where
  "udp_socket_send_to pton host port data = (case pton host of None \<Rightarrow> None | Some a \<Rightarrow> Some ((a, port), data))"

text \<open>\<open>bind_rc\<close> and \<open>name\<close> are the results of \<^verbatim>\<open>bind\<close> and of \<^verbatim>\<open>getsockname\<close> (the port bound).\<close>

definition bind_udp_port ::
    "(string \<Rightarrow> 'ad option) \<Rightarrow> int \<Rightarrow> 16 word option \<Rightarrow> udp_socket option \<Rightarrow> string \<Rightarrow> bool \<times> udp_socket option" where
  "bind_udp_port pton bind_rc name socket host =
     (case socket of
        None \<Rightarrow> (False, None)
      | Some u \<Rightarrow>
          if \<not> (host = [] \<or> host = ''0.0.0.0'') \<and> pton host = None then (False, Some u)
          else if bind_rc < 0 then (False, Some u)
          else (case name of
              None \<Rightarrow> (False, Some u)
            | Some port \<Rightarrow> (True, Some (u\<lparr>uk_local_port := port,
                uk_local_addr := (if host = [] then ''0.0.0.0'' else host)\<rparr>))))"

definition create_udp_socket ::
    "(string \<Rightarrow> 'ad option) \<Rightarrow> int \<Rightarrow> int \<Rightarrow> 16 word option \<Rightarrow> string \<Rightarrow> 16 word \<Rightarrow> udp_socket option" where
  "create_udp_socket pton fd bind_rc name host port =
     (if fd < 0 then None
      else let u = udp_socket_init fd
           in if port \<noteq> 0 then (case bind_udp_port pton bind_rc name (Some u) host of
                  (False, _) \<Rightarrow> None | (True, u') \<Rightarrow> u')
              else Some u)"

lemma udp_close_once: "udp_socket_close (udp_socket_close u) = udp_socket_close u"
  by (simp add: udp_socket_close_def)

text \<open>A created socket with a port is bound to it; without a port it is not bound.\<close>

lemma create_udp_bound:
  assumes "create_udp_socket pton fd bind_rc name host port = Some u"
  shows "0 \<le> uk_fd u \<and> (if port = 0 then uk_local_port u = 0 else 0 \<le> bind_rc \<and> name = Some (uk_local_port u))"
  using assms by (auto simp: create_udp_socket_def bind_udp_port_def udp_socket_init_def Let_def
    split: if_splits option.splits)

end
