(* ===== verification/Server.thy ===== *)
theory Server
  imports Transport
begin

text \<open>
  \<^verbatim>\<open>net/tcp_server.cpp\<close>, \<^verbatim>\<open>net/ws_server.cpp\<close> and the start and stop of \<^verbatim>\<open>service/service.h\<close>: an accept thread that
  registers connections and posts their read loops to an \<^verbatim>\<open>IoService\<close>, whose workers run them. Connections are
  named by the objects that stand for them; \<open>sv_log\<close> records the callbacks.
\<close>

section \<open>Starting and stopping\<close>

record server_control =
  sc_listen_fd :: int
  sc_stopped :: bool
  sc_thread :: bool   \<comment> \<open>\<^verbatim>\<open>accept_thread_\<close> is joinable\<close>
  sc_pipe :: bool     \<comment> \<open>\<^verbatim>\<open>wake_pipe_\<close> is open\<close>

text \<open>The constructor of \<^verbatim>\<open>TcpAcceptor\<close>: the results of \<^verbatim>\<open>socket\<close>, \<^verbatim>\<open>bind\<close> and \<^verbatim>\<open>listen\<close>.\<close>

definition tcp_acceptor :: "int \<Rightarrow> int \<Rightarrow> int \<Rightarrow> int" where
  "tcp_acceptor socket_rc bind_rc listen_rc =
     (if socket_rc < 0 then socket_rc else if bind_rc < 0 then -1 else if listen_rc < 0 then -1 else socket_rc)"

definition server_init :: "int \<Rightarrow> server_control" where
  "server_init listen_fd = \<lparr>sc_listen_fd = listen_fd, sc_stopped = False, sc_thread = False, sc_pipe = False\<rparr>"

definition start_accept :: "int \<Rightarrow> server_control \<Rightarrow> cpp_error + server_control" where
  "start_accept pipe_rc s =
     (if sc_listen_fd s < 0 then Inr s
      else if pipe_rc \<noteq> 0 then Inr s
      else if sc_thread s then Inl Terminate
      else Inr (s\<lparr>sc_pipe := True, sc_stopped := False, sc_thread := True\<rparr>))"

definition tcp_server_stop :: "server_control \<Rightarrow> server_control" where
  "tcp_server_stop s = (if sc_stopped s then s else s\<lparr>sc_stopped := True, sc_thread := False, sc_pipe := False\<rparr>)"

definition ws_server_stop :: "server_control \<Rightarrow> server_control" where
  "ws_server_stop s = s\<lparr>sc_stopped := True, sc_thread := False, sc_pipe := False\<rparr>"

text \<open>The implicit destructor: a joinable \<^verbatim>\<open>std::thread\<close> ends the process.\<close>

definition server_destroy :: "server_control \<Rightarrow> cpp_error + unit" where
  "server_destroy s = (if sc_thread s then Inl Terminate else Inr ())"

lemma start_twice_terminates:
  "0 \<le> sc_listen_fd s \<Longrightarrow> \<not> sc_thread s \<Longrightarrow> \<exists>s'. start_accept 0 s = Inr s' \<and> start_accept 0 s' = Inl Terminate"
  by (simp add: start_accept_def)

lemma destroy_running_terminates:
  "0 \<le> sc_listen_fd s \<Longrightarrow> \<not> sc_thread s \<Longrightarrow> \<exists>s'. start_accept 0 s = Inr s' \<and> server_destroy s' = Inl Terminate"
  by (simp add: start_accept_def server_destroy_def)

lemma restart_works:
  "0 \<le> sc_listen_fd s \<Longrightarrow> \<exists>s'. start_accept 0 (ws_server_stop s) = Inr s' \<and> sc_thread s' \<and> \<not> sc_stopped s'"
  by (simp add: start_accept_def ws_server_stop_def)

section \<open>The accept loop\<close>

text \<open>One round: what \<^verbatim>\<open>poll\<close> returned, the readable descriptors, and the result of \<^verbatim>\<open>accept\<close>.\<close>

datatype 'c poll_result = PollFails int | PollTimeout | PollReady bool bool "'c option"

datatype 'c round_action = Again | LeaveLoop | Serve 'c

definition accept_round :: "bool \<Rightarrow> 'c poll_result \<Rightarrow> 'c round_action" where
  "accept_round stopped r =
     (if stopped then LeaveLoop
      else case r of
          PollFails errno \<Rightarrow> if errno = EINTR then Again else LeaveLoop
        | PollTimeout \<Rightarrow> Again
        | PollReady wake listen accepted \<Rightarrow>
            if wake then LeaveLoop
            else if listen then (case accepted of None \<Rightarrow> Again | Some c \<Rightarrow> Serve c)
            else Again)"

text \<open>The connections accepted by a run of the loop; \<open>True\<close> when it still polls.\<close>

fun accept_loop :: "'c poll_result list \<Rightarrow> 'c list \<times> bool" where
  "accept_loop [] = ([], True)"
| "accept_loop (r # rs) =
     (case accept_round False r of
        Again \<Rightarrow> accept_loop rs
      | LeaveLoop \<Rightarrow> ([], False)
      | Serve c \<Rightarrow> (let (cs, polls) = accept_loop rs in (c # cs, polls)))"

section \<open>Server, IoService and read loops together\<close>

datatype 'c server_event = Connected 'c | Received 'c bytes | Disconnected 'c

text \<open>Where the accept thread is with a new connection.\<close>

datatype 'c accept_pc = Polling | Inserted 'c | Announced 'c

text \<open>
  Where the read loop of a connection is: before its test, in \<^verbatim>\<open>read\<close>, with data for the message callback,
  out of the loop, marked closed, erased from \<^verbatim>\<open>connections_\<close>, or reported. (A callback that throws ends the
  process, since \<^verbatim>\<open>IoService::run\<close> does not catch: here the callbacks return.)
\<close>

datatype read_phase = AtTest | Reading | GotData bytes | Leaving | Closing | Erased | Reported

record 'c server =
  sv_connections :: "'c set"
  sv_io :: "'c work_queue"
  sv_accepting :: "'c accept_pc"
  sv_closed :: "'c set"
  sv_known :: "'c set"      \<comment> \<open>all connections accepted so far\<close>
  sv_phase :: "'c \<Rightarrow> read_phase"
  sv_log :: "'c server_event list"

definition server_start :: "nat \<Rightarrow> 'c server" where
  "server_start threads = \<lparr>sv_connections = {}, sv_io = wq_init threads, sv_accepting = Polling, sv_closed = {},
     sv_known = {}, sv_phase = (\<lambda>_. AtTest), sv_log = []\<rparr>"

definition accept_insert :: "'c \<Rightarrow> 'c server \<Rightarrow> 'c server" where
  "accept_insert c s = s\<lparr>sv_connections := insert c (sv_connections s), sv_known := insert c (sv_known s),
     sv_accepting := Inserted c\<rparr>"

definition accept_announce :: "'c \<Rightarrow> 'c server \<Rightarrow> 'c server" where
  "accept_announce c s = s\<lparr>sv_log := sv_log s @ [Connected c], sv_accepting := Announced c\<rparr>"

definition accept_post :: "'c \<Rightarrow> 'c server \<Rightarrow> 'c server" where
  "accept_post c s = s\<lparr>sv_io := q_post io_service c (sv_io s), sv_accepting := Polling\<rparr>"

text \<open>The same for \<^verbatim>\<open>WsServer\<close>, without other threads in between.\<close>

definition ws_accept :: "'c \<Rightarrow> 'c server \<Rightarrow> 'c server" where
  "ws_accept c s = accept_post c (accept_announce c (accept_insert c s))"

text \<open>The read loop, step by step; other threads may close the connection at any time.\<close>

definition set_phase :: "'c \<Rightarrow> read_phase \<Rightarrow> 'c server \<Rightarrow> 'c server" where
  "set_phase c p s = s\<lparr>sv_phase := (sv_phase s)(c := p)\<rparr>"

definition loop_test :: "'c \<Rightarrow> 'c server \<Rightarrow> 'c server" where
  "loop_test c s = set_phase c (if c \<in> sv_closed s then Leaving else Reading) s"

definition read_some :: "'c \<Rightarrow> bytes \<Rightarrow> 'c server \<Rightarrow> 'c server" where
  "read_some c data s = set_phase c (GotData data) s"

definition read_end :: "'c \<Rightarrow> 'c server \<Rightarrow> 'c server" where
  "read_end c s = set_phase c Leaving s"

definition call_message_cb :: "'c \<Rightarrow> bytes \<Rightarrow> 'c server \<Rightarrow> 'c server" where
  "call_message_cb c data s = (set_phase c AtTest s)\<lparr>sv_log := sv_log s @ [Received c data]\<rparr>"

definition mark_closed :: "'c \<Rightarrow> 'c server \<Rightarrow> 'c server" where
  "mark_closed c s = (set_phase c Closing s)\<lparr>sv_closed := insert c (sv_closed s)\<rparr>"

text \<open>
  The close callback the server installs: it forgets the connection while it holds \<^verbatim>\<open>connections_mutex_\<close>, and
  tells the user after it has released it.
\<close>

definition close_erase :: "'c \<Rightarrow> 'c server \<Rightarrow> 'c server" where
  "close_erase c s = (set_phase c Erased s)\<lparr>sv_connections := sv_connections s - {c}\<rparr>"

definition close_report :: "'c \<Rightarrow> 'c server \<Rightarrow> 'c server" where
  "close_report c s = (set_phase c Reported s)\<lparr>sv_log := sv_log s @ [Disconnected c]\<rparr>"

text \<open>The step of the read loop of \<open>c\<close>; \<open>n\<close> is what \<^verbatim>\<open>read\<close> returns, no bytes at the end or on an error.\<close>

definition read_loop_step :: "bytes \<Rightarrow> 'c \<Rightarrow> 'c server \<Rightarrow> 'c server" where
  "read_loop_step n c s =
     (case sv_phase s c of
        AtTest \<Rightarrow> loop_test c s
      | Reading \<Rightarrow> if n = [] then read_end c s else read_some c n s
      | GotData data \<Rightarrow> call_message_cb c data s
      | Leaving \<Rightarrow> mark_closed c s
      | Closing \<Rightarrow> close_erase c s
      | Erased \<Rightarrow> close_report c s
      | Reported \<Rightarrow> s)"

text \<open>
  Steps of the accept thread, of the workers (which take read loops from the queue, run them, and finish), and of
  any thread that closes a connection or stops the \<^verbatim>\<open>IoService\<close>.
\<close>

inductive server_step :: "'c server \<Rightarrow> 'c server \<Rightarrow> bool" where
  sv_accept: "sv_accepting s = Polling \<Longrightarrow> c \<notin> sv_known s \<Longrightarrow> server_step s (accept_insert c s)"
| sv_announce: "sv_accepting s = Inserted c \<Longrightarrow> server_step s (accept_announce c s)"
| sv_post: "sv_accepting s = Announced c \<Longrightarrow> unlocked (sv_io s) \<Longrightarrow> server_step s (accept_post c s)"
| sv_io: "wq_step io_service (sv_io s) q \<Longrightarrow> wq_accepted q = wq_accepted (sv_io s) \<Longrightarrow>
     wq_finished q = wq_finished (sv_io s) \<Longrightarrow> server_step s (s\<lparr>sv_io := q\<rparr>)"
| sv_read: "Running c \<in> set (wq_workers (sv_io s)) \<Longrightarrow> length n \<le> 4096 \<Longrightarrow> server_step s (read_loop_step n c s)"
| sv_end: "i < length (wq_workers (sv_io s)) \<Longrightarrow> wq_workers (sv_io s) ! i = Running c \<Longrightarrow> sv_phase s c = Reported \<Longrightarrow>
     server_step s (s\<lparr>sv_io := worker_finish i c (sv_io s)\<rparr>)"
| sv_close: "c \<in> sv_known s \<Longrightarrow> server_step s (s\<lparr>sv_closed := insert c (sv_closed s)\<rparr>)"

lemmas read_loop_defs = read_loop_step_def loop_test_def read_some_def read_end_def call_message_cb_def mark_closed_def
  close_erase_def close_report_def set_phase_def

definition server_reachable :: "nat \<Rightarrow> 'c server \<Rightarrow> bool" where
  "server_reachable threads s \<longleftrightarrow> server_step\<^sup>*\<^sup>* (server_start threads) s"

text \<open>The events of one connection.\<close>

fun event_of :: "'c server_event \<Rightarrow> 'c" where
  "event_of (Connected c) = c"
| "event_of (Received c d) = c"
| "event_of (Disconnected c) = c"

definition events :: "'c \<Rightarrow> 'c server \<Rightarrow> 'c server_event list" where
  "events c s = filter (\<lambda>e. event_of e = c) (sv_log s)"

section \<open>The life of a connection\<close>

lemma read_loop_step_io:
  "sv_io (read_loop_step n c s) = sv_io s" "sv_accepting (read_loop_step n c s) = sv_accepting s"
  "sv_known (read_loop_step n c s) = sv_known s"
  by (simp_all add: read_loop_defs split: read_phase.split)

lemma server_io_step: "server_step s s' \<Longrightarrow> sv_io s' = sv_io s \<or> wq_step io_service (sv_io s) (sv_io s')"
  by (induction rule: server_step.induct)
    (auto simp: accept_insert_def accept_announce_def accept_post_def read_loop_step_io intro: wq_step.intros)

lemma server_io_reachable:
  assumes "server_reachable threads s"
  shows "wq_reachable io_service threads (sv_io s)"
  using assms unfolding server_reachable_def
proof (induction rule: rtranclp_induct)
  case base
  show ?case by (simp add: server_start_def wq_reachable_def)
next
  case (step y z)
  from server_io_step [OF step(2)] step.IH show ?case
    by (auto simp: wq_reachable_def intro: rtranclp.rtrancl_into_rtrancl)
qed

definition announced :: "'c server \<Rightarrow> 'c set" where
  "announced s = set (wq_accepted (sv_io s)) \<union> (case sv_accepting s of Announced c \<Rightarrow> {c} | _ \<Rightarrow> {})"

definition story :: "'c server \<Rightarrow> 'c \<Rightarrow> bytes list \<Rightarrow> 'c server_event list" where
  "story s c ds =
     (if c \<notin> announced s then []
      else Connected c # map (Received c) ds @ (if sv_phase s c = Reported then [Disconnected c] else []))"

text \<open>What the phase of a connection says about it.\<close>

definition phase_ok :: "'c server \<Rightarrow> 'c \<Rightarrow> bool" where
  "phase_ok s c \<longleftrightarrow>
     (sv_phase s c \<noteq> AtTest \<longrightarrow> c \<in> set (wq_accepted (sv_io s))) \<and>
     (c \<in> set (wq_finished (sv_io s)) \<longrightarrow> sv_phase s c = Reported) \<and>
     (sv_phase s c \<in> {Closing, Erased, Reported} \<longrightarrow> c \<in> sv_closed s) \<and>
     (c \<in> sv_connections s \<longleftrightarrow> c \<in> sv_known s \<and> sv_phase s c \<notin> {Erased, Reported})"

definition server_inv :: "'c server \<Rightarrow> bool" where
  "server_inv s \<longleftrightarrow> accounted (sv_io s) \<and> distinct (wq_accepted (sv_io s)) \<and> announced s \<subseteq> sv_known s \<and>
     (\<forall>c. sv_accepting s = Inserted c \<longrightarrow> c \<in> sv_known s \<and> c \<notin> set (wq_accepted (sv_io s))) \<and>
     (\<forall>c. sv_accepting s = Announced c \<longrightarrow> c \<notin> set (wq_accepted (sv_io s))) \<and>
     (\<forall>c. phase_ok s c) \<and> (\<forall>c. \<exists>ds. events c s = story s c ds)"

lemma finished_accepted: "accounted q \<Longrightarrow> set (wq_finished q) \<subseteq> set (wq_accepted q)"
  by (metis (no_types, lifting) Un_iff accounted_def mset_subset_eq_add_left set_append set_mset_mono set_mset_mset subsetI subsetD)

lemma running_accepted:
  assumes "accounted q" and "distinct (wq_accepted q)" and "Running c \<in> set (wq_workers q)"
  shows "c \<in> set (wq_accepted q) \<and> c \<notin> set (wq_finished q)"
proof -
  have r: "c \<in># running_tasks (wq_workers q)" using assms(3) by (force simp: running_tasks_def)
  have m: "mset (wq_started q) = mset (wq_finished q) + running_tasks (wq_workers q)"
    and a: "wq_accepted q = wq_started q @ wq_tasks q" using assms(1) by (simp_all add: accounted_def)
  have "distinct (wq_started q)" using assms(2) a by simp
  then have "count (mset (wq_started q)) c \<le> 1" by (cases "c \<in> set (wq_started q)") (simp_all add: distinct_count_atmost_1)
  moreover have "0 < count (running_tasks (wq_workers q)) c" using r by simp
  moreover have "count (mset (wq_started q)) c = count (mset (wq_finished q)) c + count (running_tasks (wq_workers q)) c"
    using m by simp
  ultimately have "count (mset (wq_finished q)) c = 0" by linarith
  moreover have "c \<in># mset (wq_started q)" using r m by simp
  ultimately show ?thesis using a by (simp add: count_mset_0_iff)
qed

lemma same_story:
  assumes "server_inv s" and "\<And>x. events x s' = events x s" and "announced s' = announced s" and "sv_phase s' = sv_phase s"
  shows "\<forall>c. \<exists>ds. events c s' = story s' c ds"
proof -
  have "story s' c ds = story s c ds" for c ds using assms(3,4) by (simp add: story_def)
  then show ?thesis using assms(1,2) by (simp add: server_inv_def)
qed

lemma quiet_phase:
  assumes "server_inv s" and "c \<notin> set (wq_accepted (sv_io s))"
  shows "sv_phase s c = AtTest" and "c \<in> sv_connections s \<longleftrightarrow> c \<in> sv_known s"
proof -
  have "phase_ok s c" using assms(1) by (simp add: server_inv_def)
  then show "sv_phase s c = AtTest" "c \<in> sv_connections s \<longleftrightarrow> c \<in> sv_known s" using assms(2) by (auto simp: phase_ok_def)
qed

text \<open>A step of a read loop changes only the phase, the entry, the mark and the events of its connection.\<close>

lemma read_loop_step_others:
  assumes "x \<noteq> c"
  shows "phase_ok (read_loop_step n c s) x = phase_ok s x" and "events x (read_loop_step n c s) = events x s"
    and "sv_phase (read_loop_step n c s) x = sv_phase s x"
  using assms by (auto simp: phase_ok_def events_def read_loop_defs split: read_phase.split)

lemma read_loop_step_own:
  assumes "phase_ok s c" and "c \<in> set (wq_accepted (sv_io s))" and "c \<notin> set (wq_finished (sv_io s))" and "c \<in> sv_known s"
  shows "phase_ok (read_loop_step n c s) c"
  using assms by (auto simp: phase_ok_def read_loop_defs split: read_phase.splits)

lemma read_loop_step_story:
  assumes "events c s = story s c ds" and "c \<in> announced s"
  shows "\<exists>ds'. events c (read_loop_step n c s) = story (read_loop_step n c s) c ds'"
proof -
  have a: "announced (read_loop_step n c s) = announced s" by (simp add: announced_def read_loop_step_io)
  show ?thesis
  proof (cases "sv_phase s c")
    case (GotData data)
    then show ?thesis using assms
      by (intro exI [of _ "ds @ [data]"]) (simp add: story_def a, simp add: events_def read_loop_defs)
  qed (use assms in \<open>intro exI [of _ ds], simp add: story_def a, simp add: events_def read_loop_defs\<close>)+
qed

lemma server_inv_step:
  assumes "server_inv s" and "server_step s s'"
  shows "server_inv s'"
  using assms(2)
proof (cases rule: server_step.cases)
  case (sv_accept c)
  then have "\<forall>x. \<exists>ds. events x s' = story s' x ds"
    by (intro same_story [OF assms(1)]) (simp_all add: accept_insert_def announced_def events_def)
  moreover have n: "c \<notin> set (wq_accepted (sv_io s))" using sv_accept(3) assms(1) by (auto simp: server_inv_def announced_def)
  then have "phase_ok s' x" for x using quiet_phase [OF assms(1) n] sv_accept(1,3) assms(1)
    by (cases "x = c") (auto simp: server_inv_def phase_ok_def accept_insert_def)
  ultimately show ?thesis using sv_accept assms(1) n by (auto simp: server_inv_def accept_insert_def announced_def)
next
  case (sv_announce c)
  have n: "c \<notin> announced s" "c \<notin> set (wq_accepted (sv_io s))"
    using sv_announce assms(1) by (auto simp: server_inv_def announced_def)
  have "\<exists>ds. events x s' = story s' x ds" for x
  proof -
    obtain ds where "events x s = story s x ds" using assms(1) unfolding server_inv_def by blast
    then show ?thesis using sv_announce n(1) quiet_phase [OF assms(1) n(2)]
      by (cases "x = c") (auto simp: accept_announce_def announced_def story_def events_def intro!: exI [of _ "[]"] exI [of _ ds])
  qed
  moreover have "phase_ok s' x" for x using sv_announce(1) assms(1) by (simp add: server_inv_def phase_ok_def accept_announce_def)
  ultimately show ?thesis using sv_announce assms(1)
    by (auto simp: server_inv_def accept_announce_def announced_def)
next
  case (sv_post c)
  then have "\<forall>x. \<exists>ds. events x s' = story s' x ds"
    by (intro same_story [OF assms(1)]) (auto simp: accept_post_def announced_def events_def io_service_def wq_push_def)
  moreover have "accounted (sv_io s')"
    using io_wakeful.accounted_step [of "sv_io s"] wq_post [OF sv_post(3)] sv_post(1) assms(1)
    by (auto simp: server_inv_def accept_post_def)
  moreover have "phase_ok s' x" for x using sv_post(1) assms(1)
    by (auto simp: server_inv_def phase_ok_def accept_post_def io_service_def wq_push_def)
  ultimately show ?thesis using sv_post assms(1)
    by (auto simp: server_inv_def accept_post_def announced_def io_service_def wq_push_def)
next
  case (sv_io q)
  then have "\<forall>x. \<exists>ds. events x s' = story s' x ds"
    by (intro same_story [OF assms(1)]) (simp_all add: announced_def events_def)
  moreover have "phase_ok s' x" for x using sv_io assms(1) by (simp add: server_inv_def phase_ok_def)
  ultimately show ?thesis using sv_io assms(1) io_wakeful.accounted_step
    by (auto simp: server_inv_def announced_def)
next
  case (sv_read c n)
  have r: "c \<in> set (wq_accepted (sv_io s)) \<and> c \<notin> set (wq_finished (sv_io s))"
    using running_accepted [OF _ _ sv_read(2)] assms(1) by (simp add: server_inv_def)
  then have a: "c \<in> announced s" "c \<in> sv_known s" using assms(1) by (auto simp: announced_def server_inv_def)
  have "\<exists>ds. events x s' = story s' x ds" for x
  proof -
    obtain ds where "events x s = story s x ds" using assms(1) unfolding server_inv_def by blast
    then show ?thesis using sv_read(1) read_loop_step_story [OF _ a(1)] read_loop_step_others(2,3) [of x c n s]
      by (cases "x = c") (auto simp: story_def announced_def read_loop_step_io intro!: exI [of _ ds])
  qed
  moreover have "phase_ok s' x" for x
    using assms(1) sv_read(1) read_loop_step_others(1) [of x c n s] read_loop_step_own [of s c n] r a(2)
    by (cases "x = c") (auto simp: server_inv_def)
  ultimately show ?thesis using sv_read(1) assms(1) by (auto simp: server_inv_def announced_def read_loop_step_io)
next
  case (sv_end i c)
  have w: "accounted (worker_finish i c (sv_io s))"
    using io_wakeful.accounted_step [of "sv_io s"] wq_finish [OF sv_end(2,3)] assms(1) by (auto simp: server_inv_def)
  have "\<forall>x. \<exists>ds. events x s' = story s' x ds"
    by (rule same_story [OF assms(1)]) (simp_all add: sv_end(1) events_def announced_def worker_finish_def)
  moreover have "phase_ok s' x" for x
    using assms(1) sv_end(1,4) by (auto simp: server_inv_def phase_ok_def worker_finish_def)
  ultimately show ?thesis using sv_end(1) w assms(1) by (auto simp: server_inv_def announced_def worker_finish_def)
next
  case (sv_close c)
  then have "\<forall>x. \<exists>ds. events x s' = story s' x ds"
    by (intro same_story [OF assms(1)]) (simp_all add: announced_def events_def)
  moreover have "phase_ok s' x" for x using sv_close(1) assms(1) by (auto simp: server_inv_def phase_ok_def)
  ultimately show ?thesis using sv_close assms(1) by (auto simp: server_inv_def announced_def)
qed

lemma server_inv_reachable:
  assumes "server_reachable threads s"
  shows "server_inv s"
  using assms unfolding server_reachable_def
proof (induction rule: rtranclp_induct)
  case base
  show ?case using io_wakeful.accounted_init [of threads]
    by (simp add: server_inv_def server_start_def announced_def story_def events_def wq_init_def phase_ok_def)
next
  case (step y z)
  then show ?case using server_inv_step by blast
qed

lemma disconnected_reported:
  assumes "server_inv s"
  shows "Disconnected c \<in> set (sv_log s) \<longleftrightarrow> sv_phase s c = Reported"
proof -
  obtain ds where e: "events c s = story s c ds" using assms unfolding server_inv_def by blast
  have "Disconnected c \<in> set (sv_log s) \<longleftrightarrow> Disconnected c \<in> set (events c s)" by (auto simp: events_def)
  moreover have "phase_ok s c" using assms by (simp add: server_inv_def)
  then have "sv_phase s c = Reported \<Longrightarrow> c \<in> announced s" by (auto simp: phase_ok_def announced_def)
  ultimately show ?thesis by (auto simp: e story_def)
qed

text \<open>
  C6. The life of a connection under every interleaving of the accept thread, the workers and threads that
  close connections, for callbacks that return: the user sees each connection first as connected, then the
  bytes of its reads, then at most one disconnect and nothing after it. A connection in \<^verbatim>\<open>connections_\<close> has been
  accepted and its disconnect has not been reported; one that was accepted and is not there is closed, and its
  disconnect has been reported or is the next thing its worker does.
\<close>

theorem connection_lifecycle:
  assumes "server_reachable threads s"
  shows "(\<exists>ds. events c s \<in> {[], Connected c # map (Received c) ds, Connected c # map (Received c) ds @ [Disconnected c]}) \<and>
    (c \<in> sv_connections s \<longrightarrow> c \<in> sv_known s \<and> Disconnected c \<notin> set (sv_log s)) \<and>
    (c \<in> sv_known s \<and> c \<notin> sv_connections s \<longrightarrow>
       c \<in> sv_closed s \<and> (Disconnected c \<in> set (sv_log s) \<or> sv_phase s c = Erased))"
proof -
  note i = server_inv_reachable [OF assms]
  obtain ds where e: "events c s = story s c ds" using i unfolding server_inv_def by blast
  have "events c s \<in> {[], Connected c # map (Received c) ds, Connected c # map (Received c) ds @ [Disconnected c]}"
    by (auto simp: e story_def)
  moreover have "phase_ok s c" using i by (simp add: server_inv_def)
  then have "c \<in> sv_connections s \<longleftrightarrow> c \<in> sv_known s \<and> sv_phase s c \<notin> {Erased, Reported}"
      "sv_phase s c \<in> {Erased, Reported} \<longrightarrow> c \<in> sv_closed s" by (auto simp: phase_ok_def)
  ultimately show ?thesis unfolding disconnected_reported [OF i] by blast
qed

lemma server_reach: "server_reachable threads s \<Longrightarrow> server_step s s' \<Longrightarrow> server_reachable threads s'"
  unfolding server_reachable_def by (rule rtranclp.rtrancl_into_rtrancl)

lemma server_reach_io:
  assumes "server_reachable threads s" and "do_move io_service (sv_io s) m = Some q"
    and "wq_accepted q = wq_accepted (sv_io s)" and "wq_finished q = wq_finished (sv_io s)"
  shows "server_reachable threads (s\<lparr>sv_io := q\<rparr>)"
  using server_reach [OF assms(1) sv_io] do_move_sound [OF assms(2)] assms(3,4) by blast

text \<open>One worker; connection 4 is read, and connection 6 is accepted and waits for the worker.\<close>

definition taken_server :: "nat server" where
  "taken_server = (ws_accept 4 (server_start 1))\<lparr>sv_io := worker_check io_service 0 (sv_io (ws_accept 4 (server_start 1)))\<rparr>"

definition reading_server :: "nat server" where
  "reading_server = read_loop_step [] 4 (read_loop_step [1, 2] 4 (read_loop_step [] 4 taken_server))"

definition starved_server :: "nat server" where
  "starved_server = ws_accept 6 reading_server"

lemmas server_run_defs = ws_accept_def accept_post_def accept_announce_def accept_insert_def read_loop_defs server_start_def
  wq_run_defs taken_server_def reading_server_def starved_server_def

lemma ws_accept_reachable:
  assumes "server_reachable threads s" and "sv_accepting s = Polling" and "c \<notin> sv_known s" and "unlocked (sv_io s)"
  shows "server_reachable threads (ws_accept c s)"
proof -
  have "server_reachable threads (accept_insert c s)" using server_reach [OF assms(1) sv_accept] assms(2,3) by blast
  then have "server_reachable threads (accept_announce c (accept_insert c s))"
    by (rule server_reach [OF _ sv_announce]) (simp add: accept_insert_def)
  then show ?thesis unfolding ws_accept_def
    by (rule server_reach [OF _ sv_post]) (use assms(4) in \<open>simp_all add: accept_announce_def accept_insert_def\<close>)
qed

lemma taken_server_reachable: "server_reachable 1 taken_server"
proof -
  have "server_reachable 1 (ws_accept 4 (server_start 1 :: nat server))"
    by (rule ws_accept_reachable) (simp_all add: server_reachable_def server_start_def wq_init_def unlocked_def)
  then show ?thesis unfolding taken_server_def
    by (rule server_reach_io [of _ _ "Check 0"]) (simp_all add: server_run_defs)
qed

lemma reading_server_reachable: "server_reachable 1 reading_server"
proof -
  have r: "Running 4 \<in> set (wq_workers (sv_io taken_server))" by (simp add: server_run_defs)
  have "server_reachable 1 (read_loop_step [] 4 taken_server)"
    by (rule server_reach [OF taken_server_reachable sv_read]) (use r in simp_all)
  then have "server_reachable 1 (read_loop_step [1, 2] 4 (read_loop_step [] 4 taken_server))"
    by (rule server_reach [OF _ sv_read]) (use r in \<open>simp_all add: read_loop_step_io\<close>)
  then show ?thesis unfolding reading_server_def
    by (rule server_reach [OF _ sv_read]) (use r in \<open>simp_all add: read_loop_step_io\<close>)
qed

theorem connection_lifecycle_witness:
  "events 4 reading_server = [Connected 4, Received 4 [1, 2]] \<and> 4 \<in> sv_connections reading_server \<and>
   4 \<in> sv_known reading_server \<and> Disconnected 4 \<notin> set (sv_log reading_server)"
proof -
  have "4 \<in> sv_connections reading_server" by (simp add: server_run_defs)
  then show ?thesis using connection_lifecycle [OF reading_server_reachable, of 4] by (simp add: events_def server_run_defs)
qed

text \<open>
  A worker runs the read loop of one connection until the connection ends. When there are more connections
  than \<^verbatim>\<open>worker_threads\<close>, the others are accepted and announced, but nothing they send is read.
\<close>

lemma starved_server_reachable:
  "server_reachable 1 starved_server \<and> set (wq_workers (sv_io starved_server)) \<subseteq> range Running \<and>
   wq_tasks (sv_io starved_server) = [6] \<and> events 6 starved_server = [Connected 6]"
proof -
  have "server_reachable 1 starved_server" unfolding starved_server_def
    by (rule ws_accept_reachable [OF reading_server_reachable]) (simp_all add: server_run_defs)
  then show ?thesis by (simp add: server_run_defs events_def)
qed

section \<open>Service\<close>

text \<open>
  \<^verbatim>\<open>Service::start\<close> runs \<^verbatim>\<open>io_service_.run()\<close> on every thread of its pool; \<^verbatim>\<open>stop\<close> stops accepting and
  stops the \<^verbatim>\<open>IoService\<close>, but closes no connection. The destructor then waits for the pool, whose
  workers are inside read loops.
\<close>

definition service_start :: "nat \<Rightarrow> nat work_queue \<Rightarrow> nat work_queue" where
  "service_start worker_threads pool = foldl (\<lambda>p i. pool_post i p) pool [0..<worker_threads]"

definition service_stop :: "server_control \<Rightarrow> 'c work_queue \<Rightarrow> server_control \<times> 'c work_queue" where
  "service_stop s io = (tcp_server_stop s, request_stop io)"

lemma stop_keeps_readers:
  "wq_workers (snd (service_stop s io)) = wq_workers io \<and> wq_started (snd (service_stop s io)) = wq_started io"
  by (simp add: service_stop_def request_stop_def)

lemma service_start_fills_pool:
  "\<not> wq_stopped pool \<Longrightarrow> wq_tasks (service_start n pool) = wq_tasks pool @ [0..<n] \<and>
     wq_notes (service_start n pool) = wq_notes pool + n \<and> \<not> wq_stopped (service_start n pool)"
  by (induction n) (auto simp: service_start_def pool_post_def wq_push_def)

end
