(* ===== verification/CppString.thy ===== *)
theory CppString
  imports Document "HOL-Library.Sublist"
begin

text \<open>
  Functions of \<^verbatim>\<open>std::string\<close> and of the C library on strings that several components use: searching,
  substrings, trimming, and conversion of decimal text to \<^verbatim>\<open>int\<close>, which throws or wraps depending on the function.
\<close>

section \<open>Strings\<close>

text \<open>\<^verbatim>\<open>std::string::find\<close>: the first occurrence, from the start and from a position.\<close>

fun str_find :: "string \<Rightarrow> string \<Rightarrow> nat option" where
  "str_find pat [] = (if pat = [] then Some 0 else None)"
| "str_find pat (c # s) = (if prefix pat (c # s) then Some 0 else map_option Suc (str_find pat s))"

definition str_find_from :: "string \<Rightarrow> string \<Rightarrow> nat \<Rightarrow> nat option" where
  "str_find_from pat s i = map_option ((+) i) (str_find pat (drop i s))"

definition substr :: "string \<Rightarrow> nat \<Rightarrow> nat \<Rightarrow> string" where
  "substr s a n = take n (drop a s)"

text \<open>\<^verbatim>\<open>atoi\<close>: the low 32 bits of the 64-bit conversion.\<close>

definition atoi :: "string \<Rightarrow> int" where
  "atoi s = sint (word_of_int (strtoll s) :: 32 word)"

text \<open>\<^verbatim>\<open>std::stoi\<close>: blanks, a sign, digits; it throws without digits and outside the range of \<^verbatim>\<open>int\<close>.\<close>

definition stoi :: "string \<Rightarrow> cpp_error + int" where
  "stoi s =
     (let t = dropWhile is_space s;
          neg = (t \<noteq> [] \<and> hd t = CHR ''-'');
          ds = (if t \<noteq> [] \<and> (hd t = CHR ''-'' \<or> hd t = CHR ''+'') then tl t else t);
          v = (if neg then - int (digits_value ds) else int (digits_value ds))
      in if takeWhile is_digit ds = [] then Inl InvalidArgument
         else if v < - (2 ^ 31) \<or> 2 ^ 31 \<le> v then Inl OutOfRange
         else Inr v)"

text \<open>Removal of blanks at both ends.\<close>

definition trim :: "string \<Rightarrow> string" where
  "trim s = rev (dropWhile is_space (rev (dropWhile is_space s)))"

text \<open>\<^verbatim>\<open>std::getline\<close> until it fails: a last line without line end counts when it is not empty.\<close>

fun getlines :: "string \<Rightarrow> string \<Rightarrow> string list" where
  "getlines cur [] = (if cur = [] then [] else [cur])"
| "getlines cur (c # s) = (if c = newline then cur # getlines [] s else getlines (cur @ [c]) s)"

lemma str_find_from_ge: "str_find_from pat s i = Some j \<Longrightarrow> i \<le> j"
  by (auto simp: str_find_from_def)

section \<open>Searching\<close>

lemma str_find_skip: "c \<notin> set a \<Longrightarrow> str_find (c # p) (a @ s) = map_option ((+) (length a)) (str_find (c # p) s)"
  by (cases "str_find (c # p) s"; induction a) auto

lemma str_find_here: "str_find p (p @ s) = Some 0"
  by (cases "p @ s") (auto, metis prefixI)

lemma str_find_first: "c \<notin> set a \<Longrightarrow> str_find (c # p) (a @ (c # p) @ s) = Some (length a)"
  using str_find_skip [of c a p "(c # p) @ s"] str_find_here [of "c # p" s] by simp

lemma str_find_fits: "str_find p s = Some i \<Longrightarrow> i + length p \<le> length s"
  by (induction s arbitrary: i) (auto split: if_splits dest: prefix_length_le)

lemma str_find_append: "str_find p s = Some i \<Longrightarrow> str_find p (s @ t) = Some i"
proof (induction s arbitrary: i)
  case Nil
  then show ?case by (cases t) (auto split: if_splits)
next
  case (Cons c s)
  have l: "length p \<le> length (c # s)" using str_find_fits [OF Cons.prems] by simp
  have "prefix p (c # s @ t) \<longleftrightarrow> prefix p (c # s)"
    using l by (metis append_Cons prefix_length_prefix prefix_order.dual_order.trans prefix_def)
  then show ?case using Cons by auto
qed

section \<open>Trimming, lines and numbers\<close>

lemma trim_trimmed:
  "s = [] \<or> \<not> is_space (hd s) \<and> \<not> is_space (last s) \<Longrightarrow> trim s = s"
proof (cases "s = []")
  case False
  moreover assume "s = [] \<or> \<not> is_space (hd s) \<and> \<not> is_space (last s)"
  ultimately have h: "\<not> is_space (hd s)" "\<not> is_space (hd (rev s))" by (simp_all add: hd_rev)
  then have "dropWhile is_space s = s" "dropWhile is_space (rev s) = rev s"
    by (simp_all add: dropWhile_eq_self_iff)
  then show ?thesis by (simp add: trim_def)
qed (simp add: trim_def)

lemma getlines_lines:
  "list_all (\<lambda>l. newline \<notin> set l) ls \<Longrightarrow> getlines [] (concat (map (\<lambda>l. l @ [newline]) ls)) = ls"
proof (induction ls)
  case (Cons l ls)
  have "getlines cur (x @ newline # s) = (cur @ x) # getlines [] s" if "newline \<notin> set x" for cur x s
    using that by (induction x arbitrary: cur) auto
  then show ?case using Cons by simp
qed simp

lemma stoi_to_string_int:
  assumes "- (2 ^ 31) \<le> v" and "v < 2 ^ 31"
  shows "stoi (to_string_int v) = Inr v"
proof (cases "v < 0")
  case True
  have "\<not> is_space (CHR ''-'')" by (simp add: is_space_def)
  moreover have "takeWhile is_digit (dec (nat (- v))) \<noteq> []"
    using dec_nonempty [of "nat (- v)"] dec_digits [of _ "nat (- v)"] by (cases "dec (nat (- v))") auto
  ultimately show ?thesis using True assms by (simp add: stoi_def to_string_int_def digits_value_dec Let_def)
next
  case False
  obtain c cs where c: "dec (nat v) = c # cs" using dec_nonempty [of "nat v"] by (cases "dec (nat v)") auto
  then have d: "is_digit c" using dec_digits [of c "nat v"] by simp
  then have "dropWhile is_space (dec (nat v)) = dec (nat v)" "c \<noteq> CHR ''-''" "c \<noteq> CHR ''+''"
    using digit_chars [of c] c by auto
  then show ?thesis using False assms digits_value_dec [of "nat v"] d by (simp add: stoi_def to_string_int_def c Let_def)
qed

end
