(* ===== verification/Http.thy ===== *)
theory Http
  imports Server CppString
begin

text \<open>
  \<^verbatim>\<open>http/http_server.cpp\<close>, \<^verbatim>\<open>http/http_request.h\<close>, \<^verbatim>\<open>http/http_response.cpp\<close>: one request and one response per
  connection. \<^verbatim>\<open>std::map\<close> of headers is a map that is walked in the order of its keys; \<open>None\<close> stands for
  \<^verbatim>\<open>npos\<close>. A session reads until the blank line after the headers has arrived, parses, calls the handler
  and writes the answer.
\<close>

section \<open>Characters\<close>

definition carriage_return :: char where "carriage_return = CHR 0x0D"

definition CRLF :: string where "CRLF = [carriage_return, newline]"

section \<open>Requests and responses\<close>

record http_request =
  rq_method :: string
  rq_path :: string
  rq_version :: string
  rq_headers :: "string \<rightharpoonup> string"
  rq_body :: string

definition rq_header :: "http_request \<Rightarrow> string \<Rightarrow> string" where
  "rq_header req key = (case rq_headers req key of Some v \<Rightarrow> v | None \<Rightarrow> [])"

record http_response =
  rs_status_code :: int
  rs_reason :: string
  rs_headers :: "string \<rightharpoonup> string"
  rs_body :: string

definition http_response_init :: http_response where
  "http_response_init = \<lparr>rs_status_code = 200, rs_reason = ''OK'', rs_headers = Map.empty, rs_body = []\<rparr>"

definition rs_set_header :: "http_response \<Rightarrow> string \<Rightarrow> string \<Rightarrow> http_response" where
  "rs_set_header r key v = r\<lparr>rs_headers := (rs_headers r)(key \<mapsto> v)\<rparr>"

definition header_line :: "string \<times> string \<Rightarrow> string" where
  "header_line kv = fst kv @ '': '' @ snd kv @ CRLF"

definition to_bytes :: "http_response \<Rightarrow> string" where
  "to_bytes r =
     ''HTTP/1.1 '' @ to_string_int (rs_status_code r) @ '' '' @ rs_reason r @ CRLF @
     concat (map (\<lambda>k. header_line (k, the (rs_headers r k))) (sorted_list_of_set (dom (rs_headers r)))) @
     ''Content-Length: '' @ dec (length (rs_body r)) @ CRLF @
     CRLF @ rs_body r"

section \<open>Parsing a request\<close>

text \<open>The body of the loop over the header lines.\<close>

definition header_of_line :: "string \<Rightarrow> (string \<rightharpoonup> string) \<Rightarrow> (string \<rightharpoonup> string)" where
  "header_of_line line headers =
     (case str_find '':'' line of
        None \<Rightarrow> headers
      | Some colon \<Rightarrow>
          headers(take colon line \<mapsto>
            dropWhile (\<lambda>c. c = CHR '' '' \<or> c = CHR 0x09) (drop (colon + 1) line)))"

function header_loop :: "string \<Rightarrow> nat \<Rightarrow> nat \<Rightarrow> (string \<rightharpoonup> string) \<Rightarrow> (string \<rightharpoonup> string)" where
  "header_loop data header_end line_start headers =
     (if line_start < header_end
      then (case str_find_from CRLF data line_start of
              None \<Rightarrow> headers
            | Some line_end \<Rightarrow>
                if header_end < line_end then headers
                else header_loop data header_end (line_end + 2)
                       (header_of_line (substr data line_start (line_end - line_start)) headers))
      else headers)"
  by pat_completeness auto
termination
  by (relation "measure (\<lambda>(data, header_end, line_start, headers). header_end - line_start)")
    (auto dest: str_find_from_ge)

declare header_loop.simps [simp del]

definition parse_request :: "string \<Rightarrow> http_request option" where
  "parse_request data =
     (case str_find CRLF data of
        None \<Rightarrow> None
      | Some pos \<Rightarrow>
          let request_line = substr data 0 pos
          in case str_find '' '' request_line of
               None \<Rightarrow> None
             | Some sp1 \<Rightarrow>
                 (case str_find_from '' '' request_line (sp1 + 1) of
                    None \<Rightarrow> None
                  | Some sp2 \<Rightarrow>
                      (case str_find (CRLF @ CRLF) data of
                         None \<Rightarrow> None
                       | Some header_end \<Rightarrow>
                           let headers = header_loop data header_end (pos + 2) Map.empty;
                               req = \<lparr>rq_method = substr request_line 0 sp1,
                                      rq_path = substr request_line (sp1 + 1) (sp2 - sp1 - 1),
                                      rq_version = drop (sp2 + 1) request_line, rq_headers = headers, rq_body = []\<rparr>;
                               content_length_str = rq_header req ''Content-Length''
                           in if content_length_str \<noteq> []
                              then let len = atoi content_length_str; body_start = header_end + 4
                                   in if 0 < len \<and> body_start + nat len \<le> length data
                                      then Some (req\<lparr>rq_body := substr data body_start (nat len)\<rparr>)
                                      else Some req
                              else Some req)))"

section \<open>A session\<close>

type_synonym http_handler = "http_request \<Rightarrow> http_response \<Rightarrow> http_response"

definition http_respond :: "http_handler option \<Rightarrow> http_request \<Rightarrow> http_response" where
  "http_respond handler req = (case handler of
     Some f \<Rightarrow> f req http_response_init
   | None \<Rightarrow> rs_set_header (http_response_init\<lparr>rs_status_code := 404, rs_reason := ''Not Found'', rs_body := ''No handler''\<rparr>)
              ''Content-Type'' ''text/plain; charset=utf-8'')"

text \<open>\<open>rs\<close> are the reads that return bytes; after the last one the peer has closed or a read failed.\<close>

fun session_loop :: "http_handler option \<Rightarrow> string \<Rightarrow> string list \<Rightarrow> http_response option" where
  "session_loop handler request_data [] = None"
| "session_loop handler request_data (r # rs) =
     (let data = request_data @ r
      in case str_find (CRLF @ CRLF) data of
           None \<Rightarrow> session_loop handler data rs
         | Some _ \<Rightarrow> (case parse_request data of None \<Rightarrow> None | Some req \<Rightarrow> Some (http_respond handler req)))"

text \<open>The bytes the peer gets before the socket is closed.\<close>

definition http_session :: "(nat \<Rightarrow> nat \<Rightarrow> int) \<Rightarrow> http_handler option \<Rightarrow> string list \<Rightarrow> string" where
  "http_session wr handler rs = (case session_loop handler [] rs of
     None \<Rightarrow> [] | Some resp \<Rightarrow> fst (write_loop wr 0 (to_bytes resp)))"

section \<open>HttpServer\<close>

definition http_stop :: "server_control \<Rightarrow> server_control" where
  "http_stop s = s\<lparr>sc_stopped := True, sc_thread := False, sc_pipe := False\<rparr>"

text \<open>The accept loop posts a session for every connection, with the handler of that moment.\<close>

definition http_accept_loop :: "http_handler option \<Rightarrow> 'c poll_result list \<Rightarrow> ('c \<times> http_handler option) work_queue \<Rightarrow>
    ('c \<times> http_handler option) work_queue" where
  "http_accept_loop handler rs io = foldl (\<lambda>q c. q_post io_service (c, handler) q) io (fst (accept_loop rs))"

section \<open>The shape of a head\<close>

text \<open>
  \<open>head rl kvs\<close> is a first line and header lines, with the blank line. In a well-formed one nothing contains a
  carriage return, keys contain no colon, and values do not start with a blank.
\<close>

definition http_head :: "string \<Rightarrow> (string \<times> string) list \<Rightarrow> string" where
  "http_head rl kvs = rl @ CRLF @ concat (map header_line kvs) @ CRLF"

definition header_ok :: "string \<times> string \<Rightarrow> bool" where
  "header_ok kv \<longleftrightarrow> carriage_return \<notin> set (fst kv) \<and> carriage_return \<notin> set (snd kv)"

lemma CRLF_Cons: "CRLF = carriage_return # [newline]"
  by (simp add: CRLF_def)

lemma blank_line_find:
  assumes "carriage_return \<notin> set rl" and "list_all header_ok kvs"
  shows "str_find (CRLF @ CRLF) (http_head rl kvs @ rest) = Some (length (http_head rl kvs) - 4)"
  using assms
proof (induction kvs arbitrary: rl)
  case Nil
  then show ?case
    using str_find_first [of carriage_return rl "[newline] @ CRLF" rest] by (simp add: http_head_def CRLF_Cons)
next
  case (Cons kv kvs)
  let ?l = "fst kv @ '': '' @ snd kv"
  have l: "carriage_return \<notin> set ?l" using Cons.prems(2) by (auto simp: header_ok_def carriage_return_def)
  obtain x xs where x: "?l = x # xs" by (cases ?l) auto
  have xc: "x \<noteq> carriage_return" using l x by (metis list.set_intros(1))
  have h: "http_head rl (kv # kvs) = rl @ CRLF @ http_head ?l kvs" by (simp add: http_head_def header_line_def)
  have "str_find (CRLF @ CRLF) (http_head rl (kv # kvs) @ rest) =
      map_option ((+) (length rl)) (str_find (CRLF @ CRLF) (CRLF @ http_head ?l kvs @ rest))"
    using str_find_skip [OF Cons.prems(1), of "[newline] @ CRLF"] by (simp add: h CRLF_Cons)
  also have "str_find (CRLF @ CRLF) (CRLF @ http_head ?l kvs @ rest) =
      map_option ((+) 2) (str_find (CRLF @ CRLF) (http_head ?l kvs @ rest))"
  proof -
    have "\<exists>ys. http_head ?l kvs @ rest = x # ys" using x by (simp add: http_head_def)
    then show ?thesis using xc by (auto simp: CRLF_def option.map_comp comp_def newline_def carriage_return_def)
  qed
  also have "str_find (CRLF @ CRLF) (http_head ?l kvs @ rest) = Some (length (http_head ?l kvs) - 4)"
    using Cons.IH [OF l] Cons.prems(2) by simp
  finally show ?case by (simp add: h) (simp add: http_head_def CRLF_def)
qed

lemma header_loop_lines:
  assumes "list_all header_ok kvs"
  shows "header_loop (pre @ concat (map header_line kvs) @ CRLF @ rest) (length pre + length (concat (map header_line kvs)) - 2)
      (length pre) hs =
    foldl (\<lambda>h kv. header_of_line (fst kv @ '': '' @ snd kv) h) hs kvs"
  using assms
proof (induction kvs arbitrary: pre hs)
  case Nil
  have "\<not> length pre < length pre - 2" by arith
  then show ?case by (subst header_loop.simps) simp
next
  case (Cons kv kvs)
  let ?l = "fst kv @ '': '' @ snd kv" and ?pre = "pre @ header_line kv"
  let ?data = "pre @ concat (map header_line (kv # kvs)) @ CRLF @ rest"
  have l: "carriage_return \<notin> set ?l" using Cons.prems by (auto simp: header_ok_def carriage_return_def)
  have "str_find CRLF (drop (length pre) ?data) = Some (length ?l)"
    using str_find_first [OF l, of "[newline]"] by (simp add: header_line_def CRLF_Cons)
  then have f: "str_find_from CRLF ?data (length pre) = Some (length pre + length ?l)" by (simp add: str_find_from_def)
  have s: "substr ?data (length pre) (length ?l) = ?l" by (simp add: substr_def header_line_def)
  have e: "length pre + length ?l + 2 = length ?pre" by (simp add: header_line_def CRLF_def)
  have "header_loop ?data (length pre + length (concat (map header_line (kv # kvs))) - 2) (length pre) hs =
      header_loop ?data (length ?pre + length (concat (map header_line kvs)) - 2) (length ?pre) (header_of_line ?l hs)"
    using f s e by (subst header_loop.simps) (simp add: header_line_def CRLF_def add.assoc)
  also have "\<dots> = foldl (\<lambda>h kv. header_of_line (fst kv @ '': '' @ snd kv) h) (header_of_line ?l hs) kvs"
    using Cons.IH [of ?pre "header_of_line ?l hs"] Cons.prems by simp
  finally show ?case by simp
qed

section \<open>Requests are understood\<close>

text \<open>A request in the form clients send it, and what the server should make of it.\<close>

record request_text =
  t_method :: string
  t_path :: string
  t_version :: string
  t_headers :: "(string \<times> string) list"

definition request_line :: "request_text \<Rightarrow> string" where
  "request_line t = t_method t @ '' '' @ t_path t @ '' '' @ t_version t"

definition well_formed :: "request_text \<Rightarrow> bool" where
  "well_formed t \<longleftrightarrow> carriage_return \<notin> set (request_line t) \<and> CHR '' '' \<notin> set (t_method t) \<and> CHR '' '' \<notin> set (t_path t) \<and>
     list_all (\<lambda>kv. header_ok kv \<and> CHR '':'' \<notin> set (fst kv) \<and>
       (snd kv = [] \<or> hd (snd kv) \<noteq> CHR '' '' \<and> hd (snd kv) \<noteq> CHR 0x09)) (t_headers t)"

text \<open>Of several headers with the same name the last one counts; the body is cut out of what has arrived.\<close>

definition request_of :: "request_text \<Rightarrow> string \<Rightarrow> http_request" where
  "request_of t arrived =
     (let hs = map_of (rev (t_headers t));
          n = (case hs ''Content-Length'' of Some v \<Rightarrow> atoi v | None \<Rightarrow> 0)
      in \<lparr>rq_method = t_method t, rq_path = t_path t, rq_version = t_version t, rq_headers = hs,
          rq_body = (if 0 < n \<and> nat n \<le> length arrived then take (nat n) arrived else [])\<rparr>)"

definition text_head :: "request_text \<Rightarrow> string" where
  "text_head t = http_head (request_line t) (t_headers t)"

lemma header_of_line_ok:
  assumes "CHR '':'' \<notin> set k" and "v = [] \<or> hd v \<noteq> CHR '' '' \<and> hd v \<noteq> CHR 0x09"
  shows "header_of_line (k @ '': '' @ v) hs = hs(k \<mapsto> v)"
proof -
  have "str_find '':'' (k @ '': '' @ v) = Some (length k)" using str_find_first [OF assms(1), of "[]" "'' '' @ v"] by simp
  moreover have "dropWhile (\<lambda>c. c = CHR '' '' \<or> c = CHR 0x09) ('' '' @ v) = v" using assms(2) by (cases v) auto
  ultimately show ?thesis by (simp add: header_of_line_def)
qed

lemma headers_fold:
  assumes "list_all (\<lambda>kv. CHR '':'' \<notin> set (fst kv) \<and> (snd kv = [] \<or> hd (snd kv) \<noteq> CHR '' '' \<and> hd (snd kv) \<noteq> CHR 0x09)) kvs"
  shows "foldl (\<lambda>h kv. header_of_line (fst kv @ '': '' @ snd kv) h) hs kvs = hs ++ map_of (rev kvs)"
  using assms
proof (induction kvs arbitrary: hs)
  case (Cons kv kvs)
  then show ?case using header_of_line_ok [of "fst kv" "snd kv" hs] by (simp add: map_add_def fun_eq_iff split: option.split)
qed simp

lemma atoi_empty: "atoi [] = 0"
  by (simp add: atoi_def strtoll_def)

lemma parse_request_head:
  assumes "well_formed t"
  shows "parse_request (text_head t @ arrived) = Some (request_of t arrived)"
proof -
  let ?rl = "request_line t" and ?ls = "concat (map header_line (t_headers t))" and ?d = "text_head t @ arrived"
  have rl: "carriage_return \<notin> set ?rl" and ok: "list_all header_ok (t_headers t)"
    and sp: "CHR '' '' \<notin> set (t_method t)" "CHR '' '' \<notin> set (t_path t)"
    using assms by (auto simp: well_formed_def list_all_iff)
  have d: "?d = ?rl @ CRLF @ ?ls @ CRLF @ arrived" by (simp add: text_head_def http_head_def)
  have f1: "str_find CRLF ?d = Some (length ?rl)"
    using str_find_first [OF rl, of "[newline]"] unfolding d by (simp add: CRLF_Cons)
  have f2: "str_find '' '' ?rl = Some (length (t_method t))"
    using str_find_first [OF sp(1), of "[]" "t_path t @ '' '' @ t_version t"] by (simp add: request_line_def)
  have f3: "str_find_from '' '' ?rl (length (t_method t) + 1) = Some (length (t_method t) + 1 + length (t_path t))"
    using str_find_first [OF sp(2), of "[]" "t_version t"] by (simp add: str_find_from_def request_line_def)
  have he: "length (text_head t) - 4 = length ?rl + length ?ls" by (simp add: text_head_def http_head_def CRLF_def)
  have f4: "str_find (CRLF @ CRLF) ?d = Some (length ?rl + length ?ls)"
    using blank_line_find [OF rl ok, of arrived] he by (simp add: text_head_def)
  have "header_loop ((?rl @ CRLF) @ ?ls @ CRLF @ arrived) (length (?rl @ CRLF) + length ?ls - 2) (length (?rl @ CRLF)) Map.empty =
      Map.empty ++ map_of (rev (t_headers t))"
    using header_loop_lines [OF ok, of "?rl @ CRLF" arrived Map.empty] headers_fold [of "t_headers t" Map.empty] assms
    by (simp add: well_formed_def list_all_iff)
  then have hl: "header_loop ?d (length ?rl + length ?ls) (length ?rl + 2) Map.empty = map_of (rev (t_headers t))"
    unfolding d by (simp add: CRLF_def)
  have th: "length (text_head t) = length ?rl + length ?ls + 4" by (simp add: text_head_def http_head_def CRLF_def)
  have b: "substr ?d (length ?rl + length ?ls + 4) n = take n arrived" for n unfolding th [symmetric] by (simp add: substr_def)
  have l: "length ?rl + length ?ls + 4 + n \<le> length ?d \<longleftrightarrow> n \<le> length arrived" for n using th by simp
  have r0: "substr ?d 0 (length ?rl) = ?rl" unfolding d by (simp add: substr_def)
  have p: "substr ?rl 0 (length (t_method t)) = t_method t"
    "substr ?rl (length (t_method t) + 1) (length (t_path t)) = t_path t"
    "drop (length (t_method t) + 1 + length (t_path t) + 1) ?rl = t_version t"
    by (simp_all add: request_line_def substr_def)
  have m: "length (t_method t) + 1 + length (t_path t) - length (t_method t) - 1 = length (t_path t)" by simp
  show ?thesis
    unfolding parse_request_def f1 option.case Let_def r0 f2 f3 f4 hl p m b l rq_header_def http_request.simps request_of_def
    by (cases "map_of (rev (t_headers t)) ''Content-Length''") (auto simp: atoi_empty)
qed

lemma head_prefix_incomplete:
  assumes "well_formed t" and "strict_prefix s (text_head t)"
  shows "str_find (CRLF @ CRLF) s = None"
proof (rule ccontr)
  assume "str_find (CRLF @ CRLF) s \<noteq> None"
  then obtain i where i: "str_find (CRLF @ CRLF) s = Some i" by blast
  obtain r where r: "text_head t = s @ r" "r \<noteq> []" using assms(2) by (auto simp: strict_prefix_def prefix_def)
  have "str_find (CRLF @ CRLF) (text_head t @ []) = Some (length (text_head t) - 4)"
    using blank_line_find [of "request_line t" "t_headers t" "[]"] assms(1)
    by (simp add: well_formed_def text_head_def list_all_iff)
  then have "i = length (text_head t) - 4" using str_find_append [OF i, of r] r by simp
  moreover have "i + 4 \<le> length s" using str_find_fits [OF i] by (simp add: CRLF_def)
  moreover have "0 < length r" using r by simp
  moreover have "length (text_head t) = length s + length r" using r by simp
  ultimately show False by linarith
qed

lemma request_served:
  assumes "well_formed t" and "strict_prefix (concat before) (text_head t)" and "concat before @ r = text_head t @ arrived"
  shows "session_loop handler [] (before @ r # later) = Some (http_respond handler (request_of t arrived))"
proof -
  have "session_loop handler acc (bs @ r # later) = session_loop handler (acc @ concat bs) (r # later)"
    if "strict_prefix (acc @ concat bs) (text_head t)" for acc bs
    using that
  proof (induction bs arbitrary: acc)
    case (Cons b bs)
    have "strict_prefix (acc @ b) (text_head t)"
      using Cons.prems by (metis append.assoc concat.simps(2) prefixI prefix_order.le_less_trans)
    then have "str_find (CRLF @ CRLF) (acc @ b) = None" by (rule head_prefix_incomplete [OF assms(1)])
    then show ?case using Cons.IH [of "acc @ b"] Cons.prems by simp
  qed simp
  from this [of "[]" before] assms(2)
  have 1: "session_loop handler [] (before @ r # later) = session_loop handler (concat before) (r # later)" by simp
  have "str_find (CRLF @ CRLF) (text_head t @ arrived) = Some (length (text_head t) - 4)"
    using blank_line_find [of "request_line t" "t_headers t" arrived] assms(1)
    by (simp add: well_formed_def text_head_def list_all_iff)
  then show ?thesis using parse_request_head [OF assms(1), of arrived] unfolding 1 by (simp add: assms(3))
qed

text \<open>
  C15. A session on a well-formed request, for every way its bytes arrive: as soon as a read completes the
  head, the handler is called once with the method, path, version and headers that were sent, and its response
  is the answer. The body is what \<^verbatim>\<open>Content-Length\<close> announces, when that much has arrived with the
  read that completed the head, and empty otherwise.
\<close>

theorem http_request_served:
  assumes "well_formed t" and "strict_prefix (concat before) (text_head t)" and "concat before @ r = text_head t @ arrived"
  shows "session_loop handler [] (before @ r # later) = Some (http_respond handler (request_of t arrived))"
  using assms by (rule request_served)

definition demo_request :: request_text where
  "demo_request = \<lparr>t_method = ''POST'', t_path = ''/p'', t_version = ''HTTP/1.1'', t_headers = [(''Content-Length'', ''3'')]\<rparr>"

definition echo_handler :: http_handler where
  "echo_handler req resp = resp\<lparr>rs_body := rq_body req\<rparr>"

lemma demo_request_ok: "well_formed demo_request"
  by (simp add: demo_request_def well_formed_def request_line_def header_ok_def carriage_return_def)

theorem http_request_served_witness:
  "session_loop (Some echo_handler) [] [''POST /p'', drop 7 (text_head demo_request) @ ''abc''] =
     Some \<lparr>rs_status_code = 200, rs_reason = ''OK'', rs_headers = Map.empty, rs_body = ''abc''\<rparr>"
proof -
  have h: "text_head demo_request = ''POST /p'' @ drop 7 (text_head demo_request)"
    by (simp add: demo_request_def text_head_def http_head_def request_line_def)
  have "drop 7 (text_head demo_request) \<noteq> []"
    by (simp add: demo_request_def text_head_def http_head_def request_line_def CRLF_def)
  then have "strict_prefix ''POST /p'' (text_head demo_request)" using h by (metis prefixI append_self_conv strict_prefix_def)
  moreover have "atoi ''3'' = 3" by (simp add: atoi_def strtoll_def digits_value_def is_digit_def is_space_def)
  ultimately show ?thesis
    using http_request_served [OF demo_request_ok, of "[''POST /p'']" "drop 7 (text_head demo_request) @ ''abc''" "''abc''" "Some echo_handler" "[]"] h
    by (simp add: http_respond_def request_of_def echo_handler_def http_response_init_def demo_request_def)
qed

text \<open>
  When the body comes in a read of its own, as clients that send the head first do, the handler sees an empty
  body although \<^verbatim>\<open>Content-Length\<close> announces one.
\<close>

lemma late_body_lost:
  assumes "well_formed t"
  shows "session_loop handler [] [text_head t, later] = Some (http_respond handler (request_of t [])) \<and>
    rq_body (request_of t []) = []"
proof -
  have "text_head t \<noteq> []" by (simp add: text_head_def http_head_def CRLF_def)
  then have "strict_prefix (concat []) (text_head t)" by (cases "text_head t") auto
  from request_served [OF assms this, of "text_head t" "[]" handler "[later]"]
  have "session_loop handler [] [text_head t, later] = Some (http_respond handler (request_of t []))" by simp
  moreover have "rq_body (request_of t []) = []" unfolding request_of_def Let_def http_request.select_convs by simp
  ultimately show ?thesis by blast
qed

section \<open>Responses are understood\<close>

definition response_headers :: "http_response \<Rightarrow> (string \<times> string) list" where
  "response_headers r = map (\<lambda>k. (k, the (rs_headers r k))) (sorted_list_of_set (dom (rs_headers r))) @
     [(''Content-Length'', dec (length (rs_body r)))]"

definition status_line :: "http_response \<Rightarrow> string" where
  "status_line r = ''HTTP/1.1 '' @ to_string_int (rs_status_code r) @ '' '' @ rs_reason r"

lemma to_bytes_head: "to_bytes r = http_head (status_line r) (response_headers r) @ rs_body r"
  by (simp add: to_bytes_def http_head_def status_line_def response_headers_def header_line_def comp_def)

lemma digit_not_cr: "is_digit c \<Longrightarrow> c \<noteq> carriage_return"
  by (auto simp: is_digit_def carriage_return_def)

text \<open>
  A response without carriage returns in its reason and headers: the first blank line is the end of the headers,
  what follows is the body, all of it, and the last header line announces its length.
\<close>

lemma response_body_framed:
  assumes "carriage_return \<notin> set (rs_reason r)" and "finite (dom (rs_headers r))"
    and "\<And>k v. rs_headers r k = Some v \<Longrightarrow> header_ok (k, v)"
  shows "\<exists>e. str_find (CRLF @ CRLF) (to_bytes r) = Some e \<and> drop (e + 4) (to_bytes r) = rs_body r \<and>
    digits_value (snd (last (response_headers r))) = length (rs_body r)"
proof -
  have "carriage_return \<notin> set (to_string_int v)" for v
    using dec_digits digit_not_cr by (auto simp: to_string_int_def carriage_return_def)
  then have rl: "carriage_return \<notin> set (status_line r)" using assms(1) by (auto simp: status_line_def carriage_return_def)
  have "header_ok (''Content-Length'', dec n)" for n
    using dec_digits digit_not_cr by (auto simp: header_ok_def carriage_return_def)
  then have "list_all header_ok (response_headers r)"
    using assms(2,3) by (auto simp: response_headers_def list_all_iff)
  from blank_line_find [OF rl this, of "rs_body r"]
  have f: "str_find (CRLF @ CRLF) (to_bytes r) = Some (length (http_head (status_line r) (response_headers r)) - 4)"
    by (simp add: to_bytes_head)
  have "4 \<le> length (http_head (status_line r) (response_headers r))" by (simp add: http_head_def CRLF_def)
  then show ?thesis using f by (simp add: to_bytes_head response_headers_def digits_value_dec)
qed

text \<open>A handler that sets \<^verbatim>\<open>Content-Length\<close> itself makes the header appear twice.\<close>

lemma content_length_twice:
  assumes "finite (dom (rs_headers r))" and "rs_headers r ''Content-Length'' = Some v"
  shows "length (filter (\<lambda>kv. fst kv = ''Content-Length'') (response_headers r)) = 2"
proof -
  let ?ks = "sorted_list_of_set (dom (rs_headers r))"
  have "distinct ?ks" "''Content-Length'' \<in> set ?ks" using assms by (auto simp: domI)
  then have "length (filter (\<lambda>k. k = ''Content-Length'') ?ks) = 1"
    using distinct_length_filter [of ?ks "\<lambda>k. k = ''Content-Length''"] by simp
  then show ?thesis by (simp add: response_headers_def filter_map comp_def)
qed

text \<open>Everything is written when the socket takes the bytes, and at most a prefix otherwise.\<close>

lemma session_answers:
  assumes "session_loop handler [] rs = Some resp"
  shows "prefix (http_session wr handler rs) (to_bytes resp) \<and>
    (takes_all wr \<longrightarrow> http_session wr handler rs = to_bytes resp)"
proof -
  have "takes_all wr \<Longrightarrow> fst (write_loop wr 0 (to_bytes resp)) = to_bytes resp"
    by (rule write_loop_complete, rule write_loop_all) (simp add: takes_all_def)
  then show ?thesis using assms by (simp add: http_session_def write_loop_prefix)
qed

text \<open>Header names are compared as they are, although HTTP does not distinguish case.\<close>

lemma header_case_matters:
  "rq_body (request_of (demo_request\<lparr>t_headers := [(''content-length'', ''3'')]\<rparr>) ''abc'') = []"
  by (simp add: request_of_def demo_request_def)

end
