(* ===== verification/Config.thy ===== *)
theory Config
  imports CppString
begin

text \<open>
  \<^verbatim>\<open>core/config.cpp\<close>: configuration from several files of \<^verbatim>\<open>key = value\<close> lines, in which later files win, and
  from environment variables. \<open>files p\<close> is the text of a readable file, \<open>env\<close> the environment.
\<close>

section \<open>State and access\<close>

record config =
  cf_listen_port :: int
  cf_worker_threads :: int
  cf_kv :: "string \<rightharpoonup> string"

definition config_init :: config where
  "config_init = \<lparr>cf_listen_port = 9000, cf_worker_threads = 4, cf_kv = Map.empty\<rparr>"

definition cf_get_string :: "config \<Rightarrow> string \<Rightarrow> string \<Rightarrow> string" where
  "cf_get_string c key default_value = (case cf_kv c key of Some v \<Rightarrow> v | None \<Rightarrow> default_value)"

definition cf_get_int :: "config \<Rightarrow> string \<Rightarrow> int \<Rightarrow> int" where
  "cf_get_int c key default_value = (case cf_kv c key of
     None \<Rightarrow> default_value
   | Some v \<Rightarrow> (case stoi v of Inr n \<Rightarrow> n | Inl _ \<Rightarrow> default_value))"

definition apply_kv_to_fields :: "config \<Rightarrow> config" where
  "apply_kv_to_fields c =
     c\<lparr>cf_listen_port := cf_get_int c ''listen_port'' (cf_listen_port c),
       cf_worker_threads := cf_get_int c ''worker_threads'' (cf_worker_threads c)\<rparr>"

definition env_int :: "(string \<rightharpoonup> string) \<Rightarrow> string \<Rightarrow> (int \<Rightarrow> bool) \<Rightarrow> int \<Rightarrow> int" where
  "env_int env name ok old = (case env name of
     None \<Rightarrow> old
   | Some s \<Rightarrow> (case stoi s of Inr v \<Rightarrow> if ok v then v else old | Inl _ \<Rightarrow> old))"

definition apply_env_overrides :: "(string \<rightharpoonup> string) \<Rightarrow> config \<Rightarrow> config" where
  "apply_env_overrides env c =
     c\<lparr>cf_listen_port := env_int env ''CHWELL_LISTEN_PORT'' (\<lambda>v. 0 < v \<and> v \<le> 65535) (cf_listen_port c),
       cf_worker_threads := env_int env ''CHWELL_WORKER_THREADS'' (\<lambda>v. 0 < v) (cf_worker_threads c)\<rparr>"

definition cf_set :: "string \<Rightarrow> string \<Rightarrow> config \<Rightarrow> config" where
  "cf_set key v c = (if key = [] then c else apply_kv_to_fields (c\<lparr>cf_kv := (cf_kv c)(key \<mapsto> v)\<rparr>))"

section \<open>Files\<close>

text \<open>Reading a word with \<^verbatim>\<open>>>\<close>: blanks are skipped; it fails when no character is left.\<close>

definition next_word :: "string \<Rightarrow> (string \<times> string) option" where
  "next_word s = (let t = dropWhile is_space s
     in if t = [] then None else Some (takeWhile (\<lambda>c. \<not> is_space c) t, dropWhile (\<lambda>c. \<not> is_space c) t))"

definition two_words :: "string \<Rightarrow> (string \<times> string) option" where
  "two_words s = (case next_word s of
     None \<Rightarrow> None
   | Some (key, s') \<Rightarrow> (case next_word s' of None \<Rightarrow> None | Some (v, _) \<Rightarrow> Some (key, v)))"

text \<open>What one line of a file defines.\<close>

definition parse_line :: "string \<Rightarrow> (string \<times> string) option" where
  "parse_line line =
     (let t = trim line
      in if t = [] then None
         else if hd t = CHR ''#'' \<or> prefix ''//'' t then None
         else let pos = (case str_find ''='' t of Some i \<Rightarrow> Some i | None \<Rightarrow> str_find '':'' t);
                  kv = (case pos of
                          None \<Rightarrow> two_words t
                        | Some i \<Rightarrow> Some (trim (take i t), trim (drop (i + 1) t)))
              in case kv of None \<Rightarrow> None | Some (key, v) \<Rightarrow> if key = [] then None else Some (key, v))"

fun load_lines :: "string list \<Rightarrow> (string \<rightharpoonup> string) \<Rightarrow> (string \<rightharpoonup> string)" where
  "load_lines [] kv = kv"
| "load_lines (l # ls) kv = load_lines ls (case parse_line l of None \<Rightarrow> kv | Some (k, v) \<Rightarrow> kv(k \<mapsto> v))"

fun load_paths :: "(string \<rightharpoonup> string) \<Rightarrow> string list \<Rightarrow> (string \<rightharpoonup> string) \<Rightarrow> (string \<rightharpoonup> string)" where
  "load_paths files [] kv = kv"
| "load_paths files (p # ps) kv =
     (if p = [] then load_paths files ps kv
      else case files p of
          None \<Rightarrow> load_paths files ps kv
        | Some text \<Rightarrow> load_paths files ps (load_lines (getlines [] text) kv))"

definition load_from_files :: "(string \<rightharpoonup> string) \<Rightarrow> (string \<rightharpoonup> string) \<Rightarrow> string list \<Rightarrow> config \<Rightarrow> bool \<times> config" where
  "load_from_files env files paths c =
     (True, apply_env_overrides env (apply_kv_to_fields (c\<lparr>cf_kv := load_paths files paths Map.empty\<rparr>)))"

definition load_from_file :: "(string \<rightharpoonup> string) \<Rightarrow> (string \<rightharpoonup> string) \<Rightarrow> string \<Rightarrow> config \<Rightarrow> bool \<times> config" where
  "load_from_file env files path c = load_from_files env files [path] c"

section \<open>The last definition wins\<close>

text \<open>The reference: all definitions in the order of the files and lines.\<close>

definition file_definitions :: "(string \<rightharpoonup> string) \<Rightarrow> string list \<Rightarrow> (string \<times> string) list" where
  "file_definitions files paths =
     concat (map (\<lambda>p. case files p of Some text \<Rightarrow> List.map_filter parse_line (getlines [] text) | None \<Rightarrow> [])
       (filter (\<lambda>p. p \<noteq> []) paths))"

lemma load_lines_defs: "load_lines ls kv = kv ++ map_of (rev (List.map_filter parse_line ls))"
  by (induction ls arbitrary: kv) (auto simp: List.map_filter_simps map_add_def fun_eq_iff split: option.splits)

lemma load_paths_defs: "load_paths files ps kv = kv ++ map_of (rev (file_definitions files ps))"
  by (induction ps arbitrary: kv) (auto simp: file_definitions_def load_lines_defs map_of_append map_add_assoc split: option.splits)

text \<open>The effective port, and the effective number of threads, given the definitions of the files and the environment.\<close>

definition effective :: "(string \<rightharpoonup> string) \<Rightarrow> (string \<rightharpoonup> string) \<Rightarrow> string \<Rightarrow> string \<Rightarrow> (int \<Rightarrow> bool) \<Rightarrow> int \<Rightarrow> int" where
  "effective env kv env_name key ok old =
     (case map_option stoi (env env_name) of
        Some (Inr v) \<Rightarrow> if ok v then v else (case map_option stoi (kv key) of Some (Inr n) \<Rightarrow> n | _ \<Rightarrow> old)
      | _ \<Rightarrow> (case map_option stoi (kv key) of Some (Inr n) \<Rightarrow> n | _ \<Rightarrow> old))"

lemma env_effective: "env_int env name ok (cf_get_int c key old) = effective env (cf_kv c) name key ok old"
  by (cases "env name"; cases "cf_kv c key") (auto simp: env_int_def cf_get_int_def effective_def split: sum.split)

text \<open>
  After loading files, every key has the value of its last definition, in the order of the files and of the
  lines in them; the port and the number of threads come from the environment when it holds an acceptable number,
  otherwise from the files when they define a number, and otherwise stay as they were.
\<close>

lemma config_precedence:
  "\<exists>c'. load_from_files env files paths c = (True, c') \<and>
    (let kv = map_of (rev (file_definitions files paths))
     in cf_kv c' = kv \<and>
        cf_listen_port c' = effective env kv ''CHWELL_LISTEN_PORT'' ''listen_port'' (\<lambda>v. 0 < v \<and> v \<le> 65535) (cf_listen_port c) \<and>
        cf_worker_threads c' = effective env kv ''CHWELL_WORKER_THREADS'' ''worker_threads'' (\<lambda>v. 0 < v) (cf_worker_threads c))"
  by (simp add: load_from_files_def load_paths_defs apply_env_overrides_def apply_kv_to_fields_def env_effective)

section \<open>What is written is read\<close>

definition key_ok :: "string \<Rightarrow> bool" where
  "key_ok k \<longleftrightarrow> k \<noteq> [] \<and> \<not> is_space (hd k) \<and> \<not> is_space (last k) \<and> CHR ''='' \<notin> set k \<and> newline \<notin> set k \<and>
     hd k \<noteq> CHR ''#'' \<and> \<not> prefix ''//'' k"

definition value_ok :: "string \<Rightarrow> bool" where
  "value_ok v \<longleftrightarrow> newline \<notin> set v \<and> (v = [] \<or> \<not> is_space (hd v) \<and> \<not> is_space (last v))"

definition config_line :: "string \<times> string \<Rightarrow> string" where
  "config_line kv = fst kv @ ''='' @ snd kv"

lemma parse_config_line:
  assumes "key_ok k" and "value_ok v"
  shows "parse_line (config_line (k, v)) = Some (k, v)"
proof -
  let ?t = "k @ ''='' @ v"
  have eq: "\<not> is_space (CHR ''='')" by (simp add: is_space_def)
  have "\<not> is_space (hd ?t)" "\<not> is_space (last ?t)" using assms eq by (auto simp: key_ok_def value_ok_def)
  then have t: "trim ?t = ?t" using trim_trimmed by blast
  have f: "str_find ''='' ?t = Some (length k)"
    using str_find_first [of "CHR ''=''" k "[]" v] assms(1) by (simp add: key_ok_def)
  have "\<not> prefix ''//'' ?t"
    using assms(1) by (cases k; cases "tl k") (auto simp: key_ok_def)
  moreover have "trim k = k" "trim v = v" using assms trim_trimmed by (auto simp: key_ok_def value_ok_def)
  ultimately show ?thesis using t f assms(1) by (simp add: parse_line_def config_line_def key_ok_def)
qed

lemma parse_config_lines:
  "list_all (\<lambda>(k, v). key_ok k \<and> value_ok v) kvs \<Longrightarrow> List.map_filter parse_line (map config_line kvs) = kvs"
  by (induction kvs) (auto simp: List.map_filter_simps parse_config_line)

text \<open>
  A file of \<^verbatim>\<open>key=value\<close> lines gives every key its value back, whatever the value contains besides line ends
  and blanks at its ends (equal signs and comment marks included).
\<close>

lemma config_roundtrip:
  assumes "list_all (\<lambda>(k, v). key_ok k \<and> value_ok v) kvs" and "path \<noteq> []"
    and "files path = Some (concat (map (\<lambda>kv. config_line kv @ [newline]) kvs))"
  shows "cf_get_string (snd (load_from_file env files path c)) key default_value =
    (case map_of (rev kvs) key of Some v \<Rightarrow> v | None \<Rightarrow> default_value)"
proof -
  have "list_all (\<lambda>l. newline \<notin> set l) (map config_line kvs)"
    using assms(1) by (auto simp: list_all_iff key_ok_def value_ok_def config_line_def newline_def)
  from getlines_lines [OF this] have "getlines [] (concat (map (\<lambda>kv. config_line kv @ [newline]) kvs)) = map config_line kvs"
    by (simp add: comp_def)
  then have "file_definitions files [path] = kvs" using assms(2,3) parse_config_lines [OF assms(1)]
    by (simp add: file_definitions_def)
  then show ?thesis
    by (simp add: load_from_file_def load_from_files_def apply_env_overrides_def apply_kv_to_fields_def cf_get_string_def load_paths_defs)
qed

section \<open>Divergences\<close>

text \<open>The range of the port is checked for the environment only: a file can set any number.\<close>

lemma file_port_unchecked:
  "cf_listen_port (cf_set ''listen_port'' ''-1'' config_init) = -1"
  by (simp add: cf_set_def apply_kv_to_fields_def cf_get_int_def config_init_def stoi_def digits_value_def is_digit_def is_space_def)

text \<open>Setting any key applies the values of the files again, which undoes the environment.\<close>

lemma set_undoes_environment:
  assumes "cf_kv c ''listen_port'' = Some s" and "stoi s = Inr n" and "stoi e = Inr v" and "0 < v" and "v \<le> 65535"
    and "key \<noteq> []" and "key \<noteq> ''listen_port''"
  shows "cf_listen_port (apply_env_overrides [''CHWELL_LISTEN_PORT'' \<mapsto> e] c) = v \<and>
    cf_listen_port (cf_set key x (apply_env_overrides [''CHWELL_LISTEN_PORT'' \<mapsto> e] c)) = n"
  using assms by (simp add: cf_set_def apply_kv_to_fields_def apply_env_overrides_def env_int_def cf_get_int_def)

text \<open>Loading a second time starts from the fields the first load left, not from the defaults.\<close>

lemma reload_keeps_port:
  assumes "map_of (rev (file_definitions files paths)) ''listen_port'' = None"
  shows "cf_listen_port (snd (load_from_files Map.empty files paths c)) = cf_listen_port c"
  using assms by (simp add: load_from_files_def load_paths_defs apply_env_overrides_def apply_kv_to_fields_def env_int_def cf_get_int_def)

text \<open>Loading reports success when no file could be read.\<close>

lemma load_always_succeeds: "fst (load_from_files env (\<lambda>_. None) paths c)"
  by (simp add: load_from_files_def)

end
