(* ===== verification/MysqlStorage.thy ===== *)
theory MysqlStorage
  imports Storage CppString "HOL-Library.Multiset"
begin

text \<open>
  \<^verbatim>\<open>storage/mysql_storage.cpp\<close>: the storage interface over a table of a MySQL server. The client library is a
  parameter, the record \<open>mysql_lib\<close> of the functions the code calls; what the code relies on is the named
  hypothesis \<open>sql_server\<close>, the documented effect of the statements on keys and values that the columns hold faithfully.
\<close>

section \<open>Configuration and library\<close>

record storage_config =
  cfg_type :: string
  cfg_host :: string
  cfg_port :: int
  cfg_database :: string
  cfg_user :: string
  cfg_password :: string
  cfg_extra :: "string \<rightharpoonup> string"

definition default_storage_config :: storage_config where
  "default_storage_config = \<lparr>cfg_type = ''memory'', cfg_host = ''127.0.0.1'', cfg_port = 0, cfg_database = [], cfg_user = [],
     cfg_password = [], cfg_extra = Map.empty\<rparr>"

datatype sql_param = TextParam string | IntParam int

text \<open>One call of \<^verbatim>\<open>mysql_stmt_fetch\<close> on a result of one column: a row, whose value may be NULL, or an error.\<close>

datatype fetch = Row "string option" | FetchFails

text \<open>
  \<open>ml_connect db host user password database port\<close>; \<open>ml_execute now db sql params\<close> prepares nothing: it stands for
  \<^verbatim>\<open>mysql_stmt_execute\<close> and the rows the following fetches return.
\<close>

record 'db mysql_lib =
  ml_init :: "'db \<Rightarrow> bool"
  ml_connect :: "'db \<Rightarrow> string option \<Rightarrow> string option \<Rightarrow> string option \<Rightarrow> string option \<Rightarrow> int \<Rightarrow> bool"
  ml_query :: "'db \<Rightarrow> string \<Rightarrow> bool \<times> 'db"
  ml_stmt_init :: "'db \<Rightarrow> bool"
  ml_error :: "'db \<Rightarrow> string"
  ml_prepare :: "'db \<Rightarrow> string \<Rightarrow> string option"
  ml_execute :: "int \<Rightarrow> 'db \<Rightarrow> string \<Rightarrow> sql_param list \<Rightarrow> (string + fetch list) \<times> 'db"

record 'db mysql =
  my_db :: 'db
  my_conn :: bool

section \<open>Statements\<close>

definition backtick :: string where "backtick = [CHR 0x60]"

definition mysql_table :: "storage_config \<Rightarrow> string" where
  "mysql_table cfg = (case cfg_extra cfg ''table'' of Some t \<Rightarrow> t | None \<Rightarrow> ''kv'')"

definition create_sql :: "string \<Rightarrow> string" where
  "create_sql t = ''CREATE TABLE IF NOT EXISTS '' @ backtick @ t @ backtick @ '' ('' @ backtick @ ''k'' @ backtick @ '' VARCHAR(512) PRIMARY KEY, '' @
     backtick @ ''v'' @ backtick @ '' MEDIUMTEXT NOT NULL, '' @ backtick @ ''expire_at'' @ backtick @ '' BIGINT DEFAULT 0'' @
     '') ENGINE=InnoDB DEFAULT CHARSET=utf8mb4''"

definition select_sql :: "string \<Rightarrow> string" where
  "select_sql t = ''SELECT v FROM '' @ backtick @ t @ backtick @ '' WHERE k=? AND (expire_at=0 OR expire_at>UNIX_TIMESTAMP())''"

definition replace_sql :: "string \<Rightarrow> string" where
  "replace_sql t = ''REPLACE INTO '' @ backtick @ t @ backtick @ '' (k, v, expire_at) VALUES (?, ?, ?)''"

definition delete_sql :: "string \<Rightarrow> string" where
  "delete_sql t = ''DELETE FROM '' @ backtick @ t @ backtick @ '' WHERE k=?''"

definition exists_sql :: "string \<Rightarrow> string" where
  "exists_sql t = ''SELECT 1 FROM '' @ backtick @ t @ backtick @ '' WHERE k=? AND (expire_at=0 OR expire_at>UNIX_TIMESTAMP()) LIMIT 1''"

definition keys_sql :: "string \<Rightarrow> bool \<Rightarrow> string" where
  "keys_sql t has_prefix = ''SELECT k FROM '' @ backtick @ t @ backtick @ '' WHERE (expire_at=0 OR expire_at>UNIX_TIMESTAMP())'' @
     (if has_prefix then '' AND k LIKE ?'' else [])"

text \<open>\<^verbatim>\<open>mysql_stmt_init\<close>, \<^verbatim>\<open>mysql_stmt_prepare\<close>, binding and \<^verbatim>\<open>mysql_stmt_execute\<close>, as every operation begins.\<close>

definition statement :: "'db mysql_lib \<Rightarrow> int \<Rightarrow> 'db mysql \<Rightarrow> string \<Rightarrow> sql_param list \<Rightarrow> (string + fetch list) \<times> 'db mysql" where
  "statement L now st sql params =
     (if \<not> ml_stmt_init L (my_db st) then (Inl (ml_error L (my_db st)), st)
      else case ml_prepare L (my_db st) sql of
          Some e \<Rightarrow> (Inl e, st)
        | None \<Rightarrow> (let (r, db') = ml_execute L now (my_db st) sql params in (r, st\<lparr>my_db := db'\<rparr>)))"

section \<open>MysqlStorage\<close>

text \<open>\<open>built\<close> is whether \<^verbatim>\<open>CHWELL_USE_MYSQL\<close> was defined.\<close>

definition non_empty :: "string \<Rightarrow> string option" where
  "non_empty s = (if s = [] then None else Some s)"

definition mysql_disconnect :: "bool \<Rightarrow> 'db mysql \<Rightarrow> 'db mysql" where
  "mysql_disconnect built st = (if built then st\<lparr>my_conn := False\<rparr> else st)"

definition mysql_connect :: "bool \<Rightarrow> 'db mysql_lib \<Rightarrow> storage_config \<Rightarrow> 'db mysql \<Rightarrow> bool \<times> 'db mysql" where
  "mysql_connect built L cfg st =
     (if \<not> built then (False, st)
      else if \<not> ml_init L (my_db st) then (False, st)
      else if \<not> ml_connect L (my_db st) (non_empty (cfg_host cfg)) (non_empty (cfg_user cfg)) (non_empty (cfg_password cfg))
                  (non_empty (cfg_database cfg)) (if 0 < cfg_port cfg then cfg_port cfg else 3306)
      then (False, st)
      else let (ok, db') = ml_query L (my_db st) (create_sql (mysql_table cfg));
               st' = \<lparr>my_db = db', my_conn = True\<rparr>
           in if \<not> ok then (False, mysql_disconnect built st') else (True, st'))"

definition mysql_unbuilt :: storage_result where
  "mysql_unbuilt = failure ''MysqlStorage not built with MySQL support''"

definition mysql_get :: "bool \<Rightarrow> 'db mysql_lib \<Rightarrow> storage_config \<Rightarrow> int \<Rightarrow> 'db mysql \<Rightarrow> string \<Rightarrow> storage_result \<times> 'db mysql" where
  "mysql_get built L cfg now st key =
     (if \<not> built then (mysql_unbuilt, st)
      else if \<not> my_conn st then (failure ''not connected'', st)
      else case statement L now st (select_sql (mysql_table cfg)) [TextParam key] of
          (Inl e, st') \<Rightarrow> (failure e, st')
        | (Inr (Row None # _), st') \<Rightarrow> (success [], st')
        | (Inr (Row (Some v) # _), st') \<Rightarrow> (success v, st')
        | (Inr _, st') \<Rightarrow> (failure ''key not found'', st'))"

definition mysql_put :: "bool \<Rightarrow> 'db mysql_lib \<Rightarrow> storage_config \<Rightarrow> int \<Rightarrow> 'db mysql \<Rightarrow> string \<Rightarrow> string \<Rightarrow> int \<Rightarrow> storage_result \<times> 'db mysql" where
  "mysql_put built L cfg now st key v expire_at =
     (if \<not> built then (mysql_unbuilt, st)
      else if \<not> my_conn st then (failure ''not connected'', st)
      else case statement L now st (replace_sql (mysql_table cfg)) [TextParam key, TextParam v, IntParam expire_at] of
          (Inl e, st') \<Rightarrow> (failure e, st')
        | (Inr _, st') \<Rightarrow> (success [], st'))"

definition mysql_remove :: "bool \<Rightarrow> 'db mysql_lib \<Rightarrow> storage_config \<Rightarrow> int \<Rightarrow> 'db mysql \<Rightarrow> string \<Rightarrow> storage_result \<times> 'db mysql" where
  "mysql_remove built L cfg now st key =
     (if \<not> built then (mysql_unbuilt, st)
      else if \<not> my_conn st then (failure ''not connected'', st)
      else case statement L now st (delete_sql (mysql_table cfg)) [TextParam key] of
          (Inl e, st') \<Rightarrow> (failure e, st')
        | (Inr _, st') \<Rightarrow> (success [], st'))"

definition mysql_exists :: "bool \<Rightarrow> 'db mysql_lib \<Rightarrow> storage_config \<Rightarrow> int \<Rightarrow> 'db mysql \<Rightarrow> string \<Rightarrow> bool \<times> 'db mysql" where
  "mysql_exists built L cfg now st key =
     (if \<not> built then (False, st)
      else if \<not> my_conn st then (False, st)
      else case statement L now st (exists_sql (mysql_table cfg)) [TextParam key] of
          (Inl e, st') \<Rightarrow> (False, st')
        | (Inr (Row _ # _), st') \<Rightarrow> (True, st')
        | (Inr _, st') \<Rightarrow> (False, st'))"

definition like_escape :: "string \<Rightarrow> string" where
  "like_escape p = concat (map (\<lambda>c. if c = CHR ''%'' \<or> c = CHR ''_'' \<or> c = backslash then [backslash, c] else [c]) p)"

definition like_pat :: "string \<Rightarrow> string" where
  "like_pat p = like_escape p @ ''%''"

text \<open>
  The fetch loop with a buffer of 512 bytes: it ends at the first call that does not return 0, which includes a row
  that does not fit (\<^verbatim>\<open>MYSQL_DATA_TRUNCATED\<close>).
\<close>

fun fetch_keys :: "fetch list \<Rightarrow> string list" where
  "fetch_keys (Row (Some k) # rs) = (if length k \<le> 512 then k # fetch_keys rs else [])"
| "fetch_keys _ = []"

text \<open>
  The parameters of the statement of \<^verbatim>\<open>keys\<close>, each with whether the variable that holds its length still exists when the
  statement is executed: the length of the pattern is bound as the address of \<^verbatim>\<open>pat_len\<close>, whose block has ended by then.
\<close>

definition keys_params :: "string \<Rightarrow> (sql_param \<times> bool) list" where
  "keys_params p = (if p \<noteq> [] then [(TextParam (like_pat p), False)] else [])"

text \<open>\<^verbatim>\<open>mysql_stmt_execute\<close> reads the lengths of the parameters; reading one whose variable is gone is undefined.\<close>

definition mysql_keys :: "bool \<Rightarrow> 'db mysql_lib \<Rightarrow> storage_config \<Rightarrow> int \<Rightarrow> 'db mysql \<Rightarrow> string \<Rightarrow> cpp_error + string list \<times> 'db mysql" where
  "mysql_keys built L cfg now st p =
     (let sql = keys_sql (mysql_table cfg) (p \<noteq> [])
      in if \<not> built then Inr ([], st)
         else if \<not> my_conn st then Inr ([], st)
         else if \<not> ml_stmt_init L (my_db st) \<or> ml_prepare L (my_db st) sql \<noteq> None then Inr ([], st)
         else if \<not> list_all snd (keys_params p) then Inl UseAfterFree
         else case statement L now st sql (map fst (keys_params p)) of
             (Inl e, st') \<Rightarrow> Inr ([], st')
           | (Inr rs, st') \<Rightarrow> Inr (fetch_keys rs, st'))"

section \<open>What the code relies on\<close>

definition live_rows :: "int \<Rightarrow> (string \<rightharpoonup> string \<times> int) \<Rightarrow> string \<rightharpoonup> string" where
  "live_rows now rows k = (case rows k of Some (v, e) \<Rightarrow> if e = 0 \<or> now < e then Some v else None | None \<Rightarrow> None)"

text \<open>
  The server, on a table that no other client writes. \<open>canon\<close> is a set of keys on which the collation of the column is
  equality (the default one of \<^verbatim>\<open>utf8mb4\<close> ignores case) and \<open>texts\<close> a set of values the character set of the column
  can hold; keys have at most 512 bytes and values fit the column. There the statements succeed and do what SQL
  says of them: \<open>rows db\<close> is the table.
\<close>

definition stored_ok :: "string set \<Rightarrow> (string \<rightharpoonup> string \<times> int) \<Rightarrow> bool" where
  "stored_ok canon rows \<longleftrightarrow> finite (dom rows) \<and> dom rows \<subseteq> canon \<and> (\<forall>k\<in>dom rows. length k \<le> 512)"

definition mysql_good_key :: "string set \<Rightarrow> string \<Rightarrow> bool" where
  "mysql_good_key canon k \<longleftrightarrow> k \<in> canon \<and> length k \<le> 512"

definition mysql_good_value :: "string set \<Rightarrow> string \<Rightarrow> bool" where
  "mysql_good_value texts v \<longleftrightarrow> v \<in> texts \<and> length v < 16777216"

definition sql_prepares :: "'db mysql_lib \<Rightarrow> string \<Rightarrow> bool" where
  "sql_prepares L t \<longleftrightarrow> (\<forall>db. ml_stmt_init L db \<and>
     (\<forall>sql\<in>{select_sql t, replace_sql t, delete_sql t, exists_sql t, keys_sql t True, keys_sql t False}. ml_prepare L db sql = None))"

definition sql_row_ops :: "'db mysql_lib \<Rightarrow> string \<Rightarrow> string set \<Rightarrow> string set \<Rightarrow> ('db \<Rightarrow> string \<rightharpoonup> string \<times> int) \<Rightarrow> bool" where
  "sql_row_ops L t canon texts rows \<longleftrightarrow>
     (\<forall>now db k. stored_ok canon (rows db) \<longrightarrow> mysql_good_key canon k \<longrightarrow>
        ml_execute L now db (select_sql t) [TextParam k] =
          (Inr (case live_rows now (rows db) k of Some v \<Rightarrow> [Row (Some v)] | None \<Rightarrow> []), db) \<and>
        (\<exists>one. ml_execute L now db (exists_sql t) [TextParam k] =
          (Inr (case live_rows now (rows db) k of Some v \<Rightarrow> [Row one] | None \<Rightarrow> []), db)) \<and>
        (\<exists>db' rs. ml_execute L now db (delete_sql t) [TextParam k] = (Inr rs, db') \<and> rows db' = (rows db)(k := None)) \<and>
        (\<forall>v e. mysql_good_value texts v \<longrightarrow>
           (\<exists>db' rs. ml_execute L now db (replace_sql t) [TextParam k, TextParam v, IntParam e] = (Inr rs, db') \<and>
              rows db' = (rows db)(k \<mapsto> (v, e)))))"

definition sql_key_ops :: "'db mysql_lib \<Rightarrow> string \<Rightarrow> string set \<Rightarrow> ('db \<Rightarrow> string \<rightharpoonup> string \<times> int) \<Rightarrow> bool" where
  "sql_key_ops L t canon rows \<longleftrightarrow>
     (\<forall>now db. stored_ok canon (rows db) \<longrightarrow>
        (\<exists>ks. ml_execute L now db (keys_sql t False) [] = (Inr (map (Row \<circ> Some) ks), db) \<and> distinct ks \<and>
           set ks = dom (live_rows now (rows db))))"

definition sql_server :: "'db mysql_lib \<Rightarrow> string \<Rightarrow> string set \<Rightarrow> string set \<Rightarrow> ('db \<Rightarrow> string \<rightharpoonup> string \<times> int) \<Rightarrow> bool" where
  "sql_server L t canon texts rows \<longleftrightarrow> sql_prepares L t \<and> sql_row_ops L t canon texts rows \<and> sql_key_ops L t canon rows"

section \<open>Calls of the back end\<close>

text \<open>The calls of a client, and what each returns; the keys without their order, which the server chooses.\<close>

datatype store_call =
    CallGet string
  | CallPut string string int
  | CallRemove string
  | CallExists string
  | CallKeys
  | CallDisconnect

datatype store_answer =
    Answer storage_result
  | Holds bool
  | Listed "string multiset"
  | Undefined cpp_error
  | Nothing

definition mysql_step :: "'db mysql_lib \<Rightarrow> storage_config \<Rightarrow> int \<Rightarrow> 'db mysql \<Rightarrow> store_call \<Rightarrow> store_answer \<times> 'db mysql" where
  "mysql_step L cfg now st c = (case c of
     CallGet k \<Rightarrow> map_prod Answer id (mysql_get True L cfg now st k)
   | CallPut k v e \<Rightarrow> map_prod Answer id (mysql_put True L cfg now st k v e)
   | CallRemove k \<Rightarrow> map_prod Answer id (mysql_remove True L cfg now st k)
   | CallExists k \<Rightarrow> map_prod Holds id (mysql_exists True L cfg now st k)
   | CallKeys \<Rightarrow> (case mysql_keys True L cfg now st [] of
         Inr (ks, st') \<Rightarrow> (Listed (mset ks), st')
       | Inl e \<Rightarrow> (Undefined e, st))
   | CallDisconnect \<Rightarrow> (Nothing, mysql_disconnect True st))"

fun mysql_run :: "'db mysql_lib \<Rightarrow> storage_config \<Rightarrow> 'db mysql \<Rightarrow> (int \<times> store_call) list \<Rightarrow> store_answer list" where
  "mysql_run L cfg st [] = []"
| "mysql_run L cfg st ((now, c) # cs) = (let (a, st') = mysql_step L cfg now st c in a # mysql_run L cfg st' cs)"

text \<open>The specification: a table of values with the time they expire, which answers until it is disconnected.\<close>

definition kv_step :: "int \<Rightarrow> bool \<times> (string \<rightharpoonup> string \<times> int) \<Rightarrow> store_call \<Rightarrow> store_answer \<times> bool \<times> (string \<rightharpoonup> string \<times> int)" where
  "kv_step now = (\<lambda>(conn, T) c. case c of
     CallGet k \<Rightarrow> (Answer (if \<not> conn then failure ''not connected'' else
        case live_rows now T k of Some v \<Rightarrow> success v | None \<Rightarrow> failure ''key not found''), conn, T)
   | CallPut k v e \<Rightarrow> if conn then (Answer (success []), conn, T(k \<mapsto> (v, e))) else (Answer (failure ''not connected''), conn, T)
   | CallRemove k \<Rightarrow> if conn then (Answer (success []), conn, T(k := None)) else (Answer (failure ''not connected''), conn, T)
   | CallExists k \<Rightarrow> (Holds (conn \<and> live_rows now T k \<noteq> None), conn, T)
   | CallKeys \<Rightarrow> (Listed (if conn then mset_set (dom (live_rows now T)) else {#}), conn, T)
   | CallDisconnect \<Rightarrow> (Nothing, False, T))"

fun kv_run :: "bool \<times> (string \<rightharpoonup> string \<times> int) \<Rightarrow> (int \<times> store_call) list \<Rightarrow> store_answer list" where
  "kv_run T [] = []"
| "kv_run T ((now, c) # cs) = (let (a, T') = kv_step now T c in a # kv_run T' cs)"

text \<open>The keys and values of a call.\<close>

definition call_ok :: "string set \<Rightarrow> string set \<Rightarrow> store_call \<Rightarrow> bool" where
  "call_ok canon texts c = (case c of
     CallGet k \<Rightarrow> mysql_good_key canon k | CallPut k v e \<Rightarrow> mysql_good_key canon k \<and> mysql_good_value texts v
   | CallRemove k \<Rightarrow> mysql_good_key canon k | CallExists k \<Rightarrow> mysql_good_key canon k | CallKeys \<Rightarrow> True | CallDisconnect \<Rightarrow> True)"

section \<open>The back end is a table\<close>

lemma like_escape_examples: "like_pat ''a_%'' = [CHR ''a'', backslash, CHR ''_'', backslash, CHR ''%'', CHR ''%'']"
  by (simp add: like_pat_def like_escape_def backslash_def)

lemma fetch_keys_all: "\<forall>k\<in>set ks. length k \<le> 512 \<Longrightarrow> fetch_keys (map (Row \<circ> Some) ks) = ks"
  by (induction ks) auto

lemma live_dom: "live_rows now rows k \<noteq> None \<Longrightarrow> k \<in> dom rows"
  by (auto simp: live_rows_def split: option.splits)

lemma stored_upd:
  "stored_ok canon rows \<Longrightarrow> mysql_good_key canon k \<Longrightarrow> stored_ok canon (rows(k \<mapsto> x))"
  "stored_ok canon rows \<Longrightarrow> stored_ok canon (rows(k := None))"
  by (auto simp: stored_ok_def mysql_good_key_def)

lemma statement_ok:
  assumes "sql_server L t canon texts rows"
    and "sql \<in> {select_sql t, replace_sql t, delete_sql t, exists_sql t, keys_sql t True, keys_sql t False}"
  shows "ml_stmt_init L (my_db st)" and "ml_prepare L (my_db st) sql = None"
    and "statement L now st sql params =
      (fst (ml_execute L now (my_db st) sql params), st\<lparr>my_db := snd (ml_execute L now (my_db st) sql params)\<rparr>)"
proof -
  have p: "sql_prepares L t" using assms(1) by (simp add: sql_server_def)
  show q: "ml_prepare L (my_db st) sql = None"
    by (rule bspec [OF p [unfolded sql_prepares_def, THEN spec [of _ "my_db st"], THEN conjunct2] assms(2)])
  show i: "ml_stmt_init L (my_db st)" using p by (simp add: sql_prepares_def)
  show "statement L now st sql params =
      (fst (ml_execute L now (my_db st) sql params), st\<lparr>my_db := snd (ml_execute L now (my_db st) sql params)\<rparr>)"
    using q i by (simp add: statement_def case_prod_beta Let_def)
qed

text \<open>What the four operations on one key return and leave, on a connection.\<close>

lemma mysql_calls:
  assumes "sql_server L (mysql_table cfg) canon texts rows" and "my_conn st" and "stored_ok canon (rows (my_db st))"
    and "mysql_good_key canon k"
  shows "mysql_get True L cfg now st k =
      ((case live_rows now (rows (my_db st)) k of Some v \<Rightarrow> success v | None \<Rightarrow> failure ''key not found''), st)"
    and "mysql_exists True L cfg now st k = (live_rows now (rows (my_db st)) k \<noteq> None, st)"
    and "\<exists>db'. mysql_remove True L cfg now st k = (success [], st\<lparr>my_db := db'\<rparr>) \<and> rows db' = (rows (my_db st))(k := None)"
    and "mysql_good_value texts v \<Longrightarrow> \<exists>db'. mysql_put True L cfg now st k v e = (success [], st\<lparr>my_db := db'\<rparr>) \<and>
      rows db' = (rows (my_db st))(k \<mapsto> (v, e))"
proof -
  let ?t = "mysql_table cfg"
  have s: "ml_execute L now (my_db st) (select_sql ?t) [TextParam k] =
      (Inr (case live_rows now (rows (my_db st)) k of Some v \<Rightarrow> [Row (Some v)] | None \<Rightarrow> []), my_db st)"
    and x: "\<exists>one. ml_execute L now (my_db st) (exists_sql ?t) [TextParam k] =
      (Inr (case live_rows now (rows (my_db st)) k of Some v \<Rightarrow> [Row one] | None \<Rightarrow> []), my_db st)"
    and d: "\<exists>db' rs. ml_execute L now (my_db st) (delete_sql ?t) [TextParam k] = (Inr rs, db') \<and> rows db' = (rows (my_db st))(k := None)"
    and p: "mysql_good_value texts v \<Longrightarrow> \<exists>db' rs. ml_execute L now (my_db st) (replace_sql ?t) [TextParam k, TextParam v, IntParam e] = (Inr rs, db') \<and>
      rows db' = (rows (my_db st))(k \<mapsto> (v, e))"
    using assms(1,3,4) unfolding sql_server_def sql_row_ops_def by blast+
  show "mysql_get True L cfg now st k =
      ((case live_rows now (rows (my_db st)) k of Some v \<Rightarrow> success v | None \<Rightarrow> failure ''key not found''), st)"
    using statement_ok(3) [OF assms(1), of "select_sql ?t" now st "[TextParam k]"] s assms(2)
    by (simp add: mysql_get_def split: option.split)
  show "mysql_exists True L cfg now st k = (live_rows now (rows (my_db st)) k \<noteq> None, st)"
    using statement_ok(3) [OF assms(1), of "exists_sql ?t" now st "[TextParam k]"] x assms(2)
    by (auto simp: mysql_exists_def split: option.split)
  show "\<exists>db'. mysql_remove True L cfg now st k = (success [], st\<lparr>my_db := db'\<rparr>) \<and> rows db' = (rows (my_db st))(k := None)"
    using statement_ok(3) [OF assms(1), of "delete_sql ?t" now st "[TextParam k]"] d assms(2)
    by (auto simp: mysql_remove_def)
  show "mysql_good_value texts v \<Longrightarrow> \<exists>db'. mysql_put True L cfg now st k v e = (success [], st\<lparr>my_db := db'\<rparr>) \<and>
      rows db' = (rows (my_db st))(k \<mapsto> (v, e))"
    using statement_ok(3) [OF assms(1), of "replace_sql ?t" now st "[TextParam k, TextParam v, IntParam e]"] p assms(2)
    by (auto simp: mysql_put_def)
qed

lemma mysql_keys_exact:
  assumes "sql_server L (mysql_table cfg) canon texts rows" and "my_conn st" and "stored_ok canon (rows (my_db st))"
  shows "\<exists>ks. mysql_keys True L cfg now st [] = Inr (ks, st) \<and> mset ks = mset_set (dom (live_rows now (rows (my_db st))))"
proof -
  let ?t = "mysql_table cfg"
  obtain ks where e: "ml_execute L now (my_db st) (keys_sql ?t False) [] = (Inr (map (Row \<circ> Some) ks), my_db st)"
    and ks: "distinct ks" "set ks = dom (live_rows now (rows (my_db st)))"
    using assms(1,3) unfolding sql_server_def sql_key_ops_def by blast
  have "\<forall>k\<in>set ks. length k \<le> 512" using assms(3) live_dom unfolding ks(2) stored_ok_def by fast
  then have "fetch_keys (map (Row \<circ> Some) ks) = ks" by (rule fetch_keys_all)
  moreover have "mset ks = mset_set (dom (live_rows now (rows (my_db st))))" using ks by (metis mset_set_set)
  ultimately show ?thesis
    using statement_ok [OF assms(1), of "keys_sql ?t False"] e assms(2) by (simp add: mysql_keys_def keys_params_def)
qed

text \<open>One call: the answer is that of the table, and so is the state it leaves.\<close>

lemma mysql_step_table:
  assumes "sql_server L (mysql_table cfg) canon texts rows" and "stored_ok canon (rows (my_db st))" and "call_ok canon texts c"
    and "mysql_step L cfg now st c = (a, st')"
  shows "kv_step now (my_conn st, rows (my_db st)) c = (a, my_conn st', rows (my_db st')) \<and> stored_ok canon (rows (my_db st'))"
proof (cases "my_conn st")
  case False
  then show ?thesis using assms(2,4)
    by (cases c) (auto simp: mysql_step_def kv_step_def mysql_get_def mysql_put_def mysql_remove_def mysql_exists_def
      mysql_keys_def mysql_disconnect_def)
next
  case True
  note calls = mysql_calls [OF assms(1) True assms(2)]
  show ?thesis
  proof (cases c)
    case (CallGet k)
    then show ?thesis using calls(1) [of k now] assms(2,3,4) True by (auto simp: mysql_step_def kv_step_def call_ok_def)
  next
    case (CallPut k v e)
    then show ?thesis using calls(4) [of k v now e] stored_upd(1) [OF assms(2), of k "(v, e)"] assms(3,4) True
      by (auto simp: mysql_step_def kv_step_def call_ok_def)
  next
    case (CallRemove k)
    then show ?thesis using calls(3) [of k now] stored_upd(2) [OF assms(2), of k] assms(3,4) True
      by (auto simp: mysql_step_def kv_step_def call_ok_def)
  next
    case (CallExists k)
    then show ?thesis using calls(2) [of k now] assms(2,3,4) True by (auto simp: mysql_step_def kv_step_def call_ok_def)
  next
    case CallKeys
    then show ?thesis using mysql_keys_exact [OF assms(1) True assms(2), of now] assms(2,4) True
      by (auto simp: mysql_step_def kv_step_def)
  next
    case CallDisconnect
    then show ?thesis using assms(2,4) by (auto simp: mysql_step_def kv_step_def mysql_disconnect_def)
  qed
qed

section \<open>A server that satisfies the hypotheses\<close>

text \<open>A table in memory that recognises the statements by their text.\<close>

definition table_execute :: "string \<Rightarrow> int \<Rightarrow> (string \<rightharpoonup> string \<times> int) \<Rightarrow> string \<Rightarrow> sql_param list \<Rightarrow>
    (string + fetch list) \<times> (string \<rightharpoonup> string \<times> int)" where
  "table_execute t now db sql params = (case params of
          [] \<Rightarrow> (Inr (map (Row \<circ> Some) (sorted_list_of_set (dom (live_rows now db)))), db)
        | TextParam k # ps \<Rightarrow>
            if sql = select_sql t \<or> sql = exists_sql t
            then (Inr (case live_rows now db k of Some v \<Rightarrow> [Row (Some v)] | None \<Rightarrow> []), db)
            else if sql = delete_sql t then (Inr [], db(k := None))
            else (case ps of [TextParam v, IntParam e] \<Rightarrow> (Inr [], db(k \<mapsto> (v, e))) | _ \<Rightarrow> (Inl [], db))
        | _ \<Rightarrow> (Inl [], db))"

definition table_server :: "string \<Rightarrow> (string \<rightharpoonup> string \<times> int) mysql_lib" where
  "table_server t = \<lparr>ml_init = (\<lambda>_. True), ml_connect = (\<lambda>_ _ _ _ _ _. True), ml_query = (\<lambda>db _. (True, db)),
     ml_stmt_init = (\<lambda>_. True), ml_error = (\<lambda>_. []), ml_prepare = (\<lambda>_ _. None), ml_execute = table_execute t\<rparr>"

lemma sql_texts_differ:
  "exists_sql t \<noteq> select_sql t" "delete_sql t \<noteq> select_sql t" "delete_sql t \<noteq> exists_sql t"
  "replace_sql t \<noteq> select_sql t" "replace_sql t \<noteq> exists_sql t" "replace_sql t \<noteq> delete_sql t"
  by (simp_all add: select_sql_def exists_sql_def delete_sql_def replace_sql_def)

lemma live_finite: "stored_ok canon rows \<Longrightarrow> finite (dom (live_rows now rows))"
  using live_dom unfolding stored_ok_def by (metis (no_types, lifting) domIff finite_subset subsetI)

lemma table_server_ok: "sql_server (table_server t) t canon texts (\<lambda>db. db)"
proof -
  have "sql_prepares (table_server t) t" by (simp add: sql_prepares_def table_server_def)
  moreover have "sql_row_ops (table_server t) t canon texts (\<lambda>db. db)"
    by (auto simp: sql_row_ops_def table_server_def table_execute_def sql_texts_differ split: option.split)
  moreover have "sql_key_ops (table_server t) t canon (\<lambda>db. db)"
    by (auto simp: sql_key_ops_def table_server_def table_execute_def live_finite
      intro!: exI [of _ "sorted_list_of_set (dom (live_rows _ _))"])
  ultimately show ?thesis by (simp add: sql_server_def)
qed

section \<open>Properties\<close>



section \<open>Divergences\<close>

text \<open>
  Every listing with a prefix whose statement could be prepared reads the length of the pattern after its variable
  is gone. A repository lists its table with the prefix \<^verbatim>\<open>table:\<close>, so \<^verbatim>\<open>find_all\<close> is such a call.
\<close>

lemma prefix_listing_undefined:
  "my_conn st \<Longrightarrow> sql_prepares L (mysql_table cfg) \<Longrightarrow> p \<noteq> [] \<Longrightarrow> mysql_keys True L cfg now st p = Inl UseAfterFree"
  by (simp add: mysql_keys_def keys_params_def sql_prepares_def)

text \<open>A key that does not fit the buffer of 512 bytes, which the column allows, ends the listing: the keys after it are lost.\<close>

lemma long_key_hides_rest: "512 < length k \<Longrightarrow> fetch_keys (Row (Some k) # rs) = []"
  by simp

text \<open>Removing a key that is not there succeeds here and fails in memory.\<close>

lemma remove_missing_differs:
  assumes "sql_server L (mysql_table cfg) canon texts rows" and "my_conn st" and "stored_ok canon (rows (my_db st))"
    and "mysql_good_key canon k" and "m k = None"
  shows "res_ok (fst (mysql_remove True L cfg now st k)) \<and> \<not> res_ok (fst (mem_remove now m k))"
  using mysql_calls(3) [OF assms(1-4), of now] assms(5) by (auto simp: mem_remove_def success_def failure_def)

text \<open>At the second in which it expires a value is gone here and still there in memory; a negative time never expires there.\<close>

lemma expiry_differs:
  "0 < e \<Longrightarrow> live_rows e [k \<mapsto> (v, e)] k = None \<and> mem_content e [k \<mapsto> \<lparr>me_value = v, me_expire_at = e\<rparr>] k = Some v"
  "e < 0 \<Longrightarrow> 0 \<le> now \<Longrightarrow> live_rows now [k \<mapsto> (v, e)] k = None \<and>
     mem_content now [k \<mapsto> \<lparr>me_value = v, me_expire_at = e\<rparr>] k = Some v"
  by (simp_all add: live_rows_def mem_content_def prune_expired_def)

text \<open>Without the library compiled in, no connection is made and every operation fails.\<close>

lemma mysql_unbuilt_fails:
  "fst (mysql_connect False L cfg st) = False \<and> fst (mysql_get False L cfg now st k) = mysql_unbuilt \<and>
   fst (mysql_put False L cfg now st k v e) = mysql_unbuilt \<and> fst (mysql_remove False L cfg now st k) = mysql_unbuilt \<and>
   \<not> fst (mysql_exists False L cfg now st k) \<and> mysql_keys False L cfg now st p = Inr ([], st)"
  by (simp add: mysql_connect_def mysql_get_def mysql_put_def mysql_remove_def mysql_exists_def mysql_keys_def)

text \<open>A connection is open exactly when \<^verbatim>\<open>connect\<close> has returned true.\<close>

lemma mysql_connect_state:
  "\<not> my_conn st \<Longrightarrow> mysql_connect True L cfg st = (ok, st') \<Longrightarrow> my_conn st' = ok"
  by (auto simp: mysql_connect_def mysql_disconnect_def Let_def split: if_splits prod.splits)

end
