(* ===== verification/MongodbStorage.thy ===== *)
theory MongodbStorage
  imports MysqlStorage
begin

text \<open>
  \<^verbatim>\<open>storage/mongodb_storage.cpp\<close>: the storage interface over a collection of a MongoDB server. The client library
  is a parameter, the record \<open>mongo_lib\<close>; what the code relies on is the named hypothesis \<open>mongo_server\<close>, with
  \<open>regex_laws\<close> for the anchored pattern that lists keys. Strings are passed as C strings: they end at the first NUL.
\<close>

definition cstr :: "string \<Rightarrow> string" where
  "cstr s = takeWhile (\<lambda>c. c \<noteq> CHR 0x00) s"

section \<open>Library\<close>

datatype bson = Utf8 string | Int64 int | OtherBson

type_synonym mongo_doc = "(string \<times> bson) list"

datatype found = Found mongo_doc | NotFound | FindError string

text \<open>
  \<open>mg_garbage\<close> is what an uninitialised \<^verbatim>\<open>bson_error_t\<close> holds: a code and a message. A cursor gives the \<^verbatim>\<open>_id\<close> values
  of its documents and whether it ended with an error.
\<close>

record 'db mongo_lib =
  mg_client_new :: "'db \<Rightarrow> string \<Rightarrow> bool"
  mg_find_one :: "'db \<Rightarrow> string \<Rightarrow> found"
  mg_replace_one :: "'db \<Rightarrow> string \<Rightarrow> mongo_doc \<Rightarrow> string option \<times> 'db"
  mg_delete_one :: "'db \<Rightarrow> string \<Rightarrow> string option \<times> 'db"
  mg_find :: "'db \<Rightarrow> string option \<Rightarrow> bson list \<times> bool"
  mg_garbage :: "int \<times> string"

record 'db mongo =
  mo_db :: 'db
  mo_client :: bool
  mo_collection :: bool
  mo_names :: "string \<times> string"   \<comment> \<open>database and collection; \<open>mo_db\<close> is the content of this collection\<close>

section \<open>Global initialisation\<close>

record mongoc_global =
  g_refcount :: int
  g_inits :: nat     \<comment> \<open>calls of \<^verbatim>\<open>mongoc_init\<close>\<close>
  g_atexit :: nat    \<comment> \<open>registered calls of \<^verbatim>\<open>mongoc_cleanup\<close>\<close>

definition ensure_mongoc_init :: "mongoc_global \<Rightarrow> mongoc_global" where
  "ensure_mongoc_init g =
     (let g1 = g\<lparr>g_refcount := g_refcount g + 1\<rparr>
      in if g_refcount g = 0 then g1\<lparr>g_inits := g_inits g + 1, g_atexit := g_atexit g + 1\<rparr> else g1)"

definition release_mongoc_ref :: "mongoc_global \<Rightarrow> mongoc_global" where
  "release_mongoc_ref g = g\<lparr>g_refcount := g_refcount g - 1\<rparr>"

section \<open>MongodbStorage\<close>

definition mongo_uri :: "storage_config \<Rightarrow> string" where
  "mongo_uri cfg = (case cfg_extra cfg ''uri'' of
     Some u \<Rightarrow> u
   | None \<Rightarrow> if cfg_host cfg \<noteq> []
       then ''mongodb://'' @ cfg_host cfg @ '':'' @ to_string_int (if 0 < cfg_port cfg then cfg_port cfg else 27017)
       else ''mongodb://127.0.0.1:27017'')"

text \<open>Database and collection names.\<close>

definition mongo_names :: "storage_config \<Rightarrow> string \<times> string" where
  "mongo_names cfg = (if cfg_database cfg = [] then ''chwell'' else cfg_database cfg,
     case cfg_extra cfg ''collection'' of Some c \<Rightarrow> c | None \<Rightarrow> ''kv'')"

definition mongo_connect :: "bool \<Rightarrow> 'db mongo_lib \<Rightarrow> storage_config \<Rightarrow> mongoc_global \<Rightarrow> 'db mongo \<Rightarrow> bool \<times> mongoc_global \<times> 'db mongo" where
  "mongo_connect built L cfg g st =
     (if \<not> built then (False, g, st)
      else let g1 = ensure_mongoc_init g
           in if \<not> mg_client_new L (mo_db st) (mongo_uri cfg) then (False, release_mongoc_ref g1, st)
              else (True, g1, st\<lparr>mo_client := True, mo_collection := True, mo_names := mongo_names cfg\<rparr>))"

definition mongo_disconnect :: "bool \<Rightarrow> mongoc_global \<Rightarrow> 'db mongo \<Rightarrow> mongoc_global \<times> 'db mongo" where
  "mongo_disconnect built g st =
     (if \<not> built then (g, st)
      else (if mo_client st then release_mongoc_ref g else g, st\<lparr>mo_collection := False, mo_client := False\<rparr>))"

definition mongo_unbuilt :: storage_result where
  "mongo_unbuilt = failure ''MongodbStorage not built with MongoDB support''"

definition mongo_remove :: "bool \<Rightarrow> 'db mongo_lib \<Rightarrow> int \<Rightarrow> 'db mongo \<Rightarrow> string \<Rightarrow> storage_result \<times> 'db mongo" where
  "mongo_remove built L now st key =
     (if \<not> built then (mongo_unbuilt, st)
      else if \<not> mo_collection st then (failure ''not connected'', st)
      else case mg_delete_one L (mo_db st) (cstr key) of
          (Some e, db') \<Rightarrow> (failure e, st\<lparr>mo_db := db'\<rparr>)
        | (None, db') \<Rightarrow> (success [], st\<lparr>mo_db := db'\<rparr>))"

text \<open>The loops over the fields of a document: the last field of the right name and type counts.\<close>

definition doc_value :: "mongo_doc \<Rightarrow> string" where
  "doc_value doc = foldl (\<lambda>v f. case f of (name, Utf8 s) \<Rightarrow> if name = ''v'' then s else v | _ \<Rightarrow> v) [] doc"

definition doc_expire :: "mongo_doc \<Rightarrow> int" where
  "doc_expire doc = foldl (\<lambda>e f. case f of (name, Int64 n) \<Rightarrow> if name = ''expire_at'' then n else e | _ \<Rightarrow> e) 0 doc"

definition mongo_get :: "bool \<Rightarrow> 'db mongo_lib \<Rightarrow> int \<Rightarrow> 'db mongo \<Rightarrow> string \<Rightarrow> storage_result \<times> 'db mongo" where
  "mongo_get built L now st key =
     (if \<not> built then (mongo_unbuilt, st)
      else if \<not> mo_collection st then (failure ''not connected'', st)
      else case mg_find_one L (mo_db st) (cstr key) of
          FindError e \<Rightarrow> (failure e, st)
        | NotFound \<Rightarrow> (if fst (mg_garbage L) \<noteq> 0 then failure (snd (mg_garbage L)) else failure ''key not found'', st)
        | Found doc \<Rightarrow>
            if 0 < doc_expire doc \<and> doc_expire doc < now
            then (failure ''key expired'', snd (mongo_remove built L now st key))
            else (success (doc_value doc), st))"

definition mongo_put :: "bool \<Rightarrow> 'db mongo_lib \<Rightarrow> int \<Rightarrow> 'db mongo \<Rightarrow> string \<Rightarrow> string \<Rightarrow> int \<Rightarrow> storage_result \<times> 'db mongo" where
  "mongo_put built L now st key v expire_at =
     (if \<not> built then (mongo_unbuilt, st)
      else if \<not> mo_collection st then (failure ''not connected'', st)
      else case mg_replace_one L (mo_db st) (cstr key)
             [(''_id'', Utf8 (cstr key)), (''v'', Utf8 (cstr v)), (''expire_at'', Int64 expire_at)] of
          (Some e, db') \<Rightarrow> (failure e, st\<lparr>mo_db := db'\<rparr>)
        | (None, db') \<Rightarrow> (success [], st\<lparr>mo_db := db'\<rparr>))"

definition mongo_exists :: "bool \<Rightarrow> 'db mongo_lib \<Rightarrow> int \<Rightarrow> 'db mongo \<Rightarrow> string \<Rightarrow> bool \<times> 'db mongo" where
  "mongo_exists built L now st key =
     (if \<not> built then (False, st)
      else if \<not> mo_collection st then (False, st)
      else case mg_find_one L (mo_db st) (cstr key) of
          Found doc \<Rightarrow> (\<not> (0 < doc_expire doc \<and> doc_expire doc < now), st)
        | _ \<Rightarrow> (False, st))"

definition regex_special :: "char \<Rightarrow> bool" where
  "regex_special c \<longleftrightarrow> c \<in> set ''.*+?()[]{}^$|'' \<or> c = backslash"

definition regex_escape :: "string \<Rightarrow> string" where
  "regex_escape p = concat (map (\<lambda>c. if regex_special c then [backslash, c] else [c]) p)"

definition regex_pattern :: "string \<Rightarrow> string" where
  "regex_pattern p = ''^'' @ regex_escape p"

definition mongo_keys :: "bool \<Rightarrow> 'db mongo_lib \<Rightarrow> int \<Rightarrow> 'db mongo \<Rightarrow> string \<Rightarrow> string list \<times> 'db mongo" where
  "mongo_keys built L now st p =
     (if \<not> built then ([], st)
      else if \<not> mo_collection st then ([], st)
      else let (ids, err) = mg_find L (mo_db st) (if p \<noteq> [] then Some (cstr (regex_pattern p)) else None)
           in (if err then [] else concat (map (\<lambda>b. case b of Utf8 s \<Rightarrow> [s] | _ \<Rightarrow> []) ids), st))"

definition mongo_base :: "bool \<Rightarrow> 'db mongo_lib \<Rightarrow> 'db mongo storage_interface" where
  "mongo_base built L = \<lparr>s_get = mongo_get built L, s_put = mongo_put built L, s_remove = mongo_remove built L,
     s_exists = mongo_exists built L, s_keys = mongo_keys built L, s_mget = (\<lambda>now st ks. ([], st))\<rparr>"

definition mongodb_storage :: "bool \<Rightarrow> 'db mongo_lib \<Rightarrow> 'db mongo storage_interface" where
  "mongodb_storage built L = (mongo_base built L)\<lparr>s_mget := default_mget (mongo_base built L)\<rparr>"

section \<open>What the code relies on\<close>

text \<open>
  A pattern that starts with \<^verbatim>\<open>^\<close> is matched at the start of the text; \<open>here p s\<close> is that match. An ordinary
  character and an escaped special one match themselves, unless a quantifier follows; the empty pattern matches.
\<close>

definition quantified :: "string \<Rightarrow> bool" where
  "quantified p \<longleftrightarrow> p \<noteq> [] \<and> hd p \<in> set ''*+?{''"

definition regex_laws :: "(string \<Rightarrow> string \<Rightarrow> bool) \<Rightarrow> (string \<Rightarrow> string \<Rightarrow> bool) \<Rightarrow> bool" where
  "regex_laws rx here \<longleftrightarrow> (\<forall>p s. rx (''^'' @ p) s = here p s) \<and> (\<forall>s. here [] s) \<and>
     (\<forall>c p s. \<not> regex_special c \<and> \<not> quantified p \<longrightarrow> here (c # p) s = (s \<noteq> [] \<and> hd s = c \<and> here p (tl s))) \<and>
     (\<forall>c p s. regex_special c \<and> \<not> quantified p \<longrightarrow> here (backslash # c # p) s = (s \<noteq> [] \<and> hd s = c \<and> here p (tl s)))"

text \<open>The server, on keys without NUL: \<open>docs db\<close> is the collection, by \<^verbatim>\<open>_id\<close>.\<close>

definition nul_free :: "string \<Rightarrow> bool" where
  "nul_free s \<longleftrightarrow> CHR 0x00 \<notin> set s"

definition mongo_server :: "'db mongo_lib \<Rightarrow> (string \<Rightarrow> string \<Rightarrow> bool) \<Rightarrow> ('db \<Rightarrow> string \<rightharpoonup> string \<times> int) \<Rightarrow> bool" where
  "mongo_server L rx docs \<longleftrightarrow>
     (\<forall>db k. nul_free k \<longrightarrow>
        mg_find_one L db k = (case docs db k of
          Some (v, e) \<Rightarrow> Found [(''_id'', Utf8 k), (''v'', Utf8 v), (''expire_at'', Int64 e)] | None \<Rightarrow> NotFound) \<and>
        fst (mg_delete_one L db k) = None \<and> docs (snd (mg_delete_one L db k)) = (docs db)(k := None) \<and>
        (\<forall>v e. let r = mg_replace_one L db k [(''_id'', Utf8 k), (''v'', Utf8 v), (''expire_at'', Int64 e)]
           in fst r = None \<and> docs (snd r) = (docs db)(k \<mapsto> (v, e)))) \<and>
     (\<forall>db pat. finite (dom (docs db)) \<longrightarrow> (\<exists>ks. mg_find L db pat = (map Utf8 ks, False) \<and> distinct ks \<and>
        set ks = {k \<in> dom (docs db). case pat of None \<Rightarrow> True | Some p \<Rightarrow> rx p k}))"

section \<open>The escaped pattern matches exactly the prefix\<close>

lemma escape_not_quantified: "\<not> quantified (regex_escape p)"
  by (cases p) (auto simp: quantified_def regex_escape_def regex_special_def backslash_def)

lemma regex_pattern_prefix:
  assumes "regex_laws rx here"
  shows "rx (regex_pattern p) s \<longleftrightarrow> prefix p s"
proof -
  have "here (regex_escape p) s \<longleftrightarrow> prefix p s"
  proof (induction p arbitrary: s)
    case Nil
    show ?case using assms by (simp add: regex_escape_def regex_laws_def)
  next
    case (Cons c p)
    have "here (regex_escape (c # p)) s \<longleftrightarrow> s \<noteq> [] \<and> hd s = c \<and> here (regex_escape p) (tl s)"
    proof (cases "regex_special c")
      case True
      then have "regex_escape (c # p) = backslash # c # regex_escape p" by (simp add: regex_escape_def)
      then show ?thesis using assms True escape_not_quantified [of p] unfolding regex_laws_def by metis
    next
      case False
      then have "regex_escape (c # p) = c # regex_escape p" by (simp add: regex_escape_def)
      then show ?thesis using assms False escape_not_quantified [of p] unfolding regex_laws_def by metis
    qed
    then show ?case using Cons.IH by (cases s) auto
  qed
  then show ?thesis using assms unfolding regex_laws_def regex_pattern_def by metis
qed

section \<open>The back end meets the contract\<close>

definition live_docs :: "int \<Rightarrow> (string \<rightharpoonup> string \<times> int) \<Rightarrow> string \<rightharpoonup> string" where
  "live_docs now docs k = (case docs k of Some (v, e) \<Rightarrow> if 0 < e \<and> e < now then None else Some v | None \<Rightarrow> None)"

lemma live_docs_upd:
  "live_docs t (docs(k \<mapsto> (v, 0))) = (live_docs t docs)(k \<mapsto> v)"
  "live_docs t (docs(k := None)) = (live_docs t docs)(k := None)"
  by (auto simp: live_docs_def fun_eq_iff)

definition mongo_content :: "('db \<Rightarrow> string \<rightharpoonup> string \<times> int) \<Rightarrow> int \<Rightarrow> 'db mongo \<Rightarrow> string \<rightharpoonup> string" where
  "mongo_content docs now st = live_docs now (docs (mo_db st))"

text \<open>Listing does not look at expiry times, so the contract holds for collections without them.\<close>

definition mongo_ok :: "('db \<Rightarrow> string \<rightharpoonup> string \<times> int) \<Rightarrow> 'db mongo \<Rightarrow> bool" where
  "mongo_ok docs st \<longleftrightarrow> mo_collection st \<and> finite (dom (docs (mo_db st))) \<and>
     (\<forall>k v e. docs (mo_db st) k = Some (v, e) \<longrightarrow> nul_free k \<and> \<not> 0 < e)"

lemma cstr_id: "nul_free s \<Longrightarrow> cstr s = s"
  by (auto simp: nul_free_def cstr_def takeWhile_eq_all_conv)

lemma doc_fields: "doc_value [(''_id'', Utf8 k), (''v'', Utf8 v), (''expire_at'', Int64 e)] = v"
    "doc_expire [(''_id'', Utf8 k), (''v'', Utf8 v), (''expire_at'', Int64 e)] = e"
  by (simp_all add: doc_value_def doc_expire_def)

lemma mongo_calls:
  assumes "mongo_server L rx docs" and "mongo_ok docs st" and "nul_free k"
  shows "\<exists>msg. mongo_get True L now st k = ((case mongo_content docs now st k of Some v \<Rightarrow> success v | None \<Rightarrow> failure msg), st)"
    and "mongo_exists True L now st k = (mongo_content docs now st k \<noteq> None, st)"
    and "\<exists>db'. mongo_remove True L now st k = (success [], st\<lparr>mo_db := db'\<rparr>) \<and> docs db' = (docs (mo_db st))(k := None)"
    and "nul_free v \<Longrightarrow> \<exists>db'. mongo_put True L now st k v e = (success [], st\<lparr>mo_db := db'\<rparr>) \<and>
      docs db' = (docs (mo_db st))(k \<mapsto> (v, e))"
proof -
  have st: "mo_collection st" and e0: "\<And>v e. docs (mo_db st) k = Some (v, e) \<Longrightarrow> \<not> 0 < e"
    using assms(2) unfolding mongo_ok_def by blast+
  have f: "mg_find_one L (mo_db st) k = (case docs (mo_db st) k of
          Some (v, e) \<Rightarrow> Found [(''_id'', Utf8 k), (''v'', Utf8 v), (''expire_at'', Int64 e)] | None \<Rightarrow> NotFound)"
    and d: "fst (mg_delete_one L (mo_db st) k) = None" "docs (snd (mg_delete_one L (mo_db st) k)) = (docs (mo_db st))(k := None)"
    and p: "\<And>v e. fst (mg_replace_one L (mo_db st) k [(''_id'', Utf8 k), (''v'', Utf8 v), (''expire_at'', Int64 e)]) = None"
      "\<And>v e. docs (snd (mg_replace_one L (mo_db st) k [(''_id'', Utf8 k), (''v'', Utf8 v), (''expire_at'', Int64 e)])) =
        (docs (mo_db st))(k \<mapsto> (v, e))"
    using assms(1,3) unfolding mongo_server_def Let_def by blast+
  show "\<exists>msg. mongo_get True L now st k = ((case mongo_content docs now st k of Some v \<Rightarrow> success v | None \<Rightarrow> failure msg), st)"
    using f st e0 by (auto simp: mongo_get_def cstr_id [OF assms(3)] mongo_content_def live_docs_def doc_fields split: option.split)
  show "mongo_exists True L now st k = (mongo_content docs now st k \<noteq> None, st)"
    using f st e0 by (auto simp: mongo_exists_def cstr_id [OF assms(3)] mongo_content_def live_docs_def doc_fields split: option.split)
  show "\<exists>db'. mongo_remove True L now st k = (success [], st\<lparr>mo_db := db'\<rparr>) \<and> docs db' = (docs (mo_db st))(k := None)"
    using d st by (cases "mg_delete_one L (mo_db st) k") (auto simp: mongo_remove_def cstr_id [OF assms(3)])
  show "nul_free v \<Longrightarrow> \<exists>db'. mongo_put True L now st k v e = (success [], st\<lparr>mo_db := db'\<rparr>) \<and>
      docs db' = (docs (mo_db st))(k \<mapsto> (v, e))"
    using p [of v e] st
    by (cases "mg_replace_one L (mo_db st) k [(''_id'', Utf8 k), (''v'', Utf8 v), (''expire_at'', Int64 e)]")
      (auto simp: mongo_put_def cstr_id [OF assms(3)] cstr_id)
qed

lemma regex_pattern_nul: "nul_free p \<Longrightarrow> nul_free (regex_pattern p)"
  by (auto simp: nul_free_def regex_pattern_def regex_escape_def regex_special_def backslash_def split: if_splits)

lemma mongo_keys_exact:
  assumes "mongo_server L rx docs" and "regex_laws rx here" and "mongo_ok docs st" and "nul_free p"
  shows "\<exists>ks. mongo_keys True L now st p = (ks, st) \<and> distinct ks \<and> set ks = {k \<in> dom (mongo_content docs now st). prefix p k}"
proof -
  let ?pat = "if p \<noteq> [] then Some (regex_pattern p) else None"
  have fin: "finite (dom (docs (mo_db st)))" using assms(3) by (simp add: mongo_ok_def)
  then obtain ks where ks: "mg_find L (mo_db st) ?pat = (map Utf8 ks, False)" "distinct ks"
    "set ks = {k \<in> dom (docs (mo_db st)). case ?pat of None \<Rightarrow> True | Some p \<Rightarrow> rx p k}"
    using assms(1) unfolding mongo_server_def by blast
  have "dom (mongo_content docs now st) = dom (docs (mo_db st))"
    using assms(3) by (auto simp: mongo_ok_def mongo_content_def live_docs_def dom_def split: option.splits if_splits)
  moreover have "(case ?pat of None \<Rightarrow> True | Some p \<Rightarrow> rx p k) = prefix p k" for k
    using regex_pattern_prefix [OF assms(2)] by simp
  moreover have "concat (map (\<lambda>b. case b of Utf8 s \<Rightarrow> [s] | _ \<Rightarrow> []) (map Utf8 ks)) = ks" by (induction ks) auto
  ultimately show ?thesis using ks assms(3)
    by (cases "p = []") (simp_all add: mongo_keys_def mongo_ok_def cstr_id [OF regex_pattern_nul [OF assms(4)]])
qed

lemma default_mget_mongo: "default_mget (mongo_base b L) = default_mget (mongodb_storage b L)"
proof (intro ext)
  fix now st ks
  show "default_mget (mongo_base b L) now st ks = default_mget (mongodb_storage b L) now st ks"
    by (induction ks arbitrary: st) (simp_all add: mongodb_storage_def mongo_base_def)
qed

lemma mongodb_storage_core:
  assumes "mongo_server L rx docs" and "regex_laws rx here"
  shows "storage_core (mongodb_storage True L) (mongo_content docs) (mongo_ok docs) nul_free nul_free"
proof (unfold_locales, goal_cases)
  case (1 st now k)
  then show ?case by (auto simp: mongo_content_def live_docs_def mongo_ok_def split: option.splits)
next
  case (2 st k now r st')
  then show ?case using mongo_calls(1) [OF assms(1) 2(1,2), of now]
    by (auto simp: mongodb_storage_def mongo_base_def success_def failure_def split: option.splits)
next
  case (3 st k v now r st')
  then show ?case using mongo_calls(4) [OF assms(1) 3(1,2,3), of now 0]
    by (auto simp: mongodb_storage_def mongo_base_def mongo_ok_def mongo_content_def success_def live_docs_upd split: if_splits)
next
  case (4 st k now r st')
  then show ?case using mongo_calls(3) [OF assms(1) 4(1,2), of now]
    by (auto simp: mongodb_storage_def mongo_base_def mongo_ok_def mongo_content_def success_def live_docs_upd split: if_splits)
next
  case (5 st k now b st')
  then show ?case using mongo_calls(2) [OF assms(1) 5(1,2), of now] by (auto simp: mongodb_storage_def mongo_base_def)
next
  case (6 st p now ks st')
  then show ?case using mongo_keys_exact [OF assms 6(1,2), of now] by (auto simp: mongodb_storage_def mongo_base_def)
qed

text \<open>A repository over MongoDB is a table, by the lemmas of the contract, on keys and texts without NUL.\<close>

lemma mongodb_backend:
  assumes "mongo_server L rx docs" and "regex_laws rx here"
  shows "storage_backend (mongodb_storage True L) (mongo_content docs) (mongo_ok docs) nul_free nul_free"
proof -
  note core = mongodb_storage_core [OF assms]
  show ?thesis
  proof (intro storage_backend.intro core storage_backend_axioms.intro)
    fix st ks now rs st'
    assume "mongo_ok docs st" "list_all nul_free ks" "s_mget (mongodb_storage True L) now st ks = (rs, st')"
    moreover have "s_mget (mongodb_storage True L) = default_mget (mongo_base True L)" by (simp add: mongodb_storage_def)
    ultimately show "mongo_ok docs st' \<and> (\<forall>t\<ge>now. mongo_content docs t st' = mongo_content docs t st) \<and> length rs = length ks \<and>
        (\<forall>i<length ks. res_ok (rs ! i) = (mongo_content docs now st (ks ! i) \<noteq> None) \<and>
          (\<forall>v. mongo_content docs now st (ks ! i) = Some v \<longrightarrow> res_value (rs ! i) = v))"
      using storage_core.default_mget_law [OF core] by (simp add: default_mget_mongo)
  qed
qed

section \<open>Divergences\<close>

text \<open>Initialisation happens again after the last instance has gone, although it must happen once per process.\<close>

lemma mongoc_init_twice:
  "g_refcount g = 0 \<Longrightarrow> g_inits (ensure_mongoc_init (release_mongoc_ref (ensure_mongoc_init g))) = g_inits g + 2 \<and>
     g_atexit (ensure_mongoc_init (release_mongoc_ref (ensure_mongoc_init g))) = g_atexit g + 2"
  by (simp add: ensure_mongoc_init_def release_mongoc_ref_def)

text \<open>A value is cut at its first NUL, and the write reports success.\<close>

lemma nul_truncates_value:
  assumes "mongo_server L rx docs" and "mo_collection st" and "nul_free k"
  shows "\<exists>db'. mongo_put True L now st k (a @ CHR 0x00 # b) e = (success [], st\<lparr>mo_db := db'\<rparr>) \<and> docs db' k = Some (cstr a, e)"
proof -
  have c: "cstr (a @ CHR 0x00 # b) = cstr a" by (induction a) (auto simp: cstr_def)
  have "fst (mg_replace_one L (mo_db st) k [(''_id'', Utf8 k), (''v'', Utf8 (cstr a)), (''expire_at'', Int64 e)]) = None"
    "docs (snd (mg_replace_one L (mo_db st) k [(''_id'', Utf8 k), (''v'', Utf8 (cstr a)), (''expire_at'', Int64 e)])) =
      (docs (mo_db st))(k \<mapsto> (cstr a, e))"
    using assms(1,3) unfolding mongo_server_def Let_def by blast+
  then show ?thesis using assms(2)
    by (cases "mg_replace_one L (mo_db st) k [(''_id'', Utf8 k), (''v'', Utf8 (cstr a)), (''expire_at'', Int64 e)]")
      (auto simp: mongo_put_def cstr_id [OF assms(3)] c)
qed

text \<open>Listing returns keys that have expired, which reading refuses.\<close>

lemma keys_lists_expired:
  assumes "mongo_server L rx docs" and "mo_collection st" and "docs (mo_db st) = [k \<mapsto> (v, e)]" and "nul_free k"
    and "0 < e" and "e < now"
  shows "fst (mongo_keys True L now st []) = [k] \<and> \<not> res_ok (fst (mongo_get True L now st k))"
proof -
  have "finite (dom (docs (mo_db st)))" using assms(3) by simp
  then obtain ks where ks: "mg_find L (mo_db st) None = (map Utf8 ks, False)" "distinct ks"
    "set ks = {k \<in> dom (docs (mo_db st)). case None of None \<Rightarrow> True | Some p \<Rightarrow> rx p k}"
    using assms(1) unfolding mongo_server_def by blast
  then have "set ks = {k}" using assms(3) by simp
  moreover from this have "length ks = 1" using distinct_card [OF ks(2)] by simp
  ultimately have "ks = [k]" by (cases ks) auto
  moreover have "mg_find_one L (mo_db st) k = Found [(''_id'', Utf8 k), (''v'', Utf8 v), (''expire_at'', Int64 e)]"
    using assms(1,3,4) unfolding mongo_server_def by simp
  ultimately show ?thesis using ks(1) assms(2,5,6)
    by (simp add: mongo_keys_def mongo_get_def cstr_id [OF assms(4)] doc_fields failure_def)
qed

text \<open>For a missing key the error is read although the library has not set it: any message can come out.\<close>

lemma missing_key_message:
  assumes "mongo_server L rx docs" and "mo_collection st" and "docs (mo_db st) k = None" and "nul_free k"
    and "mg_garbage L = (n, msg)" and "n \<noteq> 0"
  shows "fst (mongo_get True L now st k) = failure msg"
  using assms unfolding mongo_server_def by (simp add: mongo_get_def cstr_id)

end
