(* ===== verification/StorageFactory.thy ===== *)
theory StorageFactory
  imports MongodbStorage
begin

text \<open>
  \<^verbatim>\<open>storage/storage_factory.cpp\<close>, \<^verbatim>\<open>storage/storage_config_loader.cpp\<close>, \<^verbatim>\<open>storage/storage_component.h\<close>: the choice of a back
  end by configuration, the configuration from a YAML tree, and the component that owns the back end. The tree is
  what yaml-cpp makes of a file; the functions of its nodes are the record \<open>yaml_lib\<close>.
\<close>

section \<open>Configuration from YAML\<close>

text \<open>
  \<open>yl_subscript n key\<close> is \<^verbatim>\<open>n[key]\<close>: it throws, gives no node (which converts to false) or a node. The conversions of a node
  fail with \<open>None\<close>, which throws unless a fallback is given.
\<close>

record 'y yaml_lib =
  yl_subscript :: "'y \<Rightarrow> string \<Rightarrow> cpp_error + 'y option"
  yl_as_string :: "'y \<Rightarrow> string option"
  yl_as_int :: "'y \<Rightarrow> int option"

definition string_field :: "'y yaml_lib \<Rightarrow> string \<Rightarrow> (string \<Rightarrow> storage_config \<Rightarrow> storage_config) \<Rightarrow> 'y \<Rightarrow> storage_config \<Rightarrow>
    cpp_error + storage_config" where
  "string_field Y key store y cfg = (case yl_subscript Y y key of
     Inl e \<Rightarrow> Inl e
   | Inr None \<Rightarrow> Inr cfg
   | Inr (Some n) \<Rightarrow> (case yl_as_string Y n of Some s \<Rightarrow> Inr (store s cfg) | None \<Rightarrow> Inl InvalidArgument))"

definition port_field :: "'y yaml_lib \<Rightarrow> 'y \<Rightarrow> storage_config \<Rightarrow> cpp_error + storage_config" where
  "port_field Y y cfg = (case yl_subscript Y y ''port'' of
     Inl e \<Rightarrow> Inl e
   | Inr None \<Rightarrow> Inr cfg
   | Inr (Some n) \<Rightarrow> Inr (cfg\<lparr>cfg_port := (case yl_as_int Y n of Some i \<Rightarrow> i | None \<Rightarrow> 3306)\<rparr>))"

definition extra_field :: "string \<Rightarrow> string \<Rightarrow> storage_config \<Rightarrow> storage_config" where
  "extra_field key s cfg = cfg\<lparr>cfg_extra := (cfg_extra cfg)(key \<mapsto> s)\<rparr>"

text \<open>The assignments one after the other, until one throws.\<close>

fun assign_all :: "('y \<Rightarrow> storage_config \<Rightarrow> cpp_error + storage_config) list \<Rightarrow> 'y \<Rightarrow> storage_config \<Rightarrow> cpp_error + storage_config" where
  "assign_all [] y cfg = Inr cfg"
| "assign_all (f # fs) y cfg = (case f y cfg of Inl e \<Rightarrow> Inl e | Inr cfg' \<Rightarrow> assign_all fs y cfg')"

definition mysql_fields :: "'y yaml_lib \<Rightarrow> ('y \<Rightarrow> storage_config \<Rightarrow> cpp_error + storage_config) list" where
  "mysql_fields Y =
     [string_field Y ''host'' (\<lambda>s c. c\<lparr>cfg_host := s\<rparr>), port_field Y,
      string_field Y ''database'' (\<lambda>s c. c\<lparr>cfg_database := s\<rparr>), string_field Y ''user'' (\<lambda>s c. c\<lparr>cfg_user := s\<rparr>),
      string_field Y ''password'' (\<lambda>s c. c\<lparr>cfg_password := s\<rparr>), string_field Y ''charset'' (extra_field ''charset''),
      string_field Y ''table'' (extra_field ''table'')]"

definition mongo_fields :: "'y yaml_lib \<Rightarrow> ('y \<Rightarrow> storage_config \<Rightarrow> cpp_error + storage_config) list" where
  "mongo_fields Y =
     [string_field Y ''uri'' (extra_field ''uri''), string_field Y ''database'' (\<lambda>s c. c\<lparr>cfg_database := s\<rparr>),
      string_field Y ''collection'' (extra_field ''collection'')]"

definition is_mongo :: "string \<Rightarrow> bool" where
  "is_mongo t \<longleftrightarrow> t = ''mongodb'' \<or> t = ''mongo''"

text \<open>A branch of the code: whether it is taken, and the configuration with its fields.\<close>

definition backend_section :: "'y yaml_lib \<Rightarrow> 'y \<Rightarrow> bool \<Rightarrow> string \<Rightarrow> ('y \<Rightarrow> storage_config \<Rightarrow> cpp_error + storage_config) list \<Rightarrow>
    storage_config \<Rightarrow> (cpp_error + storage_config) option" where
  "backend_section Y storage wanted key assigns cfg =
     (if \<not> wanted then None
      else case yl_subscript Y storage key of
          Inl e \<Rightarrow> Some (Inl e)
        | Inr None \<Rightarrow> None
        | Inr (Some m) \<Rightarrow> Some (assign_all assigns m cfg))"

definition parse_yaml :: "'y yaml_lib \<Rightarrow> 'y \<Rightarrow> storage_config \<Rightarrow> cpp_error + (bool \<times> storage_config)" where
  "parse_yaml Y root cfg =
     (case yl_subscript Y root ''storage'' of
        Inl e \<Rightarrow> Inl e
      | Inr None \<Rightarrow> Inr (False, cfg)
      | Inr (Some storage) \<Rightarrow>
          (case yl_subscript Y storage ''type'' of
             Inl e \<Rightarrow> Inl e
           | Inr t \<Rightarrow>
               (let cfg1 = (case t of
                      None \<Rightarrow> cfg
                    | Some n \<Rightarrow> cfg\<lparr>cfg_type := (case yl_as_string Y n of Some s \<Rightarrow> s | None \<Rightarrow> ''memory'')\<rparr>)
                in case backend_section Y storage (cfg_type cfg1 = ''mysql'') ''mysql'' (mysql_fields Y) cfg1 of
                     Some r \<Rightarrow> map_sum (\<lambda>e. e) (Pair True) r
                   | None \<Rightarrow>
                       (case backend_section Y storage (is_mongo (cfg_type cfg1)) ''mongodb'' (mongo_fields Y) cfg1 of
                          Some r \<Rightarrow> map_sum (\<lambda>e. e) (Pair True) r
                        | None \<Rightarrow> Inr (True, cfg1)))))"

text \<open>
  \<^verbatim>\<open>load\<close> and \<^verbatim>\<open>load_from_string\<close>: \<open>None\<close> stands for an exception of the parser. Without yaml-cpp nothing can be loaded.
\<close>

definition load_config :: "bool \<Rightarrow> 'y yaml_lib \<Rightarrow> 'y option \<Rightarrow> storage_config option" where
  "load_config use_yaml Y parsed =
     (if \<not> use_yaml then None
      else case parsed of
          None \<Rightarrow> None
        | Some root \<Rightarrow> (case parse_yaml Y root default_storage_config of
              Inr (True, cfg) \<Rightarrow> Some cfg | _ \<Rightarrow> None))"

section \<open>The factory\<close>

datatype ('m, 'g) storage_handle =
    MemoryHandle mem
  | MysqlHandle storage_config "'m mysql"
  | MongodbHandle "'g mongo"

record ('m, 'g) backends =
  bk_order :: "string set \<Rightarrow> string list"
  bk_mysql_built :: bool
  bk_mysql :: "'m mysql_lib"
  bk_mysql_db :: 'm
  bk_mongo_built :: bool
  bk_mongo :: "'g mongo_lib"
  bk_mongo_db :: 'g
  bk_mongoc :: mongoc_global

definition create_storage :: "('m, 'g) backends \<Rightarrow> storage_config \<Rightarrow> ('m, 'g) storage_handle option" where
  "create_storage B cfg =
     (let type = (if cfg_type cfg = [] then ''memory'' else cfg_type cfg)
      in if type = ''memory'' then Some (MemoryHandle Map.empty)
         else if type = ''mysql''
         then (case mysql_connect (bk_mysql_built B) (bk_mysql B) cfg \<lparr>my_db = bk_mysql_db B, my_conn = False\<rparr> of
                 (True, st) \<Rightarrow> Some (MysqlHandle cfg st) | (False, _) \<Rightarrow> None)
         else if type = ''mongodb'' \<or> type = ''mongo''
         then (case mongo_connect (bk_mongo_built B) (bk_mongo B) cfg (bk_mongoc B)
                      \<lparr>mo_db = bk_mongo_db B, mo_client = False, mo_collection = False, mo_names = ([], [])\<rparr> of
                 (True, _, st) \<Rightarrow> Some (MongodbHandle st) | (False, _) \<Rightarrow> None)
         else None)"

definition create_by_type :: "('m, 'g) backends \<Rightarrow> string \<Rightarrow> string \<Rightarrow> int \<Rightarrow> string \<Rightarrow> ('m, 'g) storage_handle option" where
  "create_by_type B type host port database =
     create_storage B (default_storage_config\<lparr>cfg_type := type, cfg_host := (if host = [] then ''127.0.0.1'' else host),
       cfg_port := port, cfg_database := database\<rparr>)"

text \<open>\<open>files\<close> is the YAML tree of a file; the environment variable replaces the path.\<close>

definition create_from_yaml :: "('m, 'g) backends \<Rightarrow> bool \<Rightarrow> 'y yaml_lib \<Rightarrow> (string \<rightharpoonup> string) \<Rightarrow> (string \<rightharpoonup> 'y) \<Rightarrow> string \<Rightarrow>
    ('m, 'g) storage_handle option" where
  "create_from_yaml B use_yaml Y env files yaml_path =
     (let path = (case env ''STORAGE_CONFIG'' of Some p \<Rightarrow> p | None \<Rightarrow> yaml_path)
      in case load_config use_yaml Y (files path) of None \<Rightarrow> None | Some cfg \<Rightarrow> create_storage B cfg)"

section \<open>StorageComponent\<close>

definition not_initialized :: storage_result where
  "not_initialized = failure ''storage not initialized''"

definition handle_get :: "('m, 'g) backends \<Rightarrow> int \<Rightarrow> ('m, 'g) storage_handle \<Rightarrow> string \<Rightarrow> storage_result \<times> ('m, 'g) storage_handle" where
  "handle_get B now h key = (case h of
     MemoryHandle m \<Rightarrow> map_prod id MemoryHandle (mem_get now m key)
   | MysqlHandle cfg st \<Rightarrow> map_prod id (MysqlHandle cfg) (mysql_get (bk_mysql_built B) (bk_mysql B) cfg now st key)
   | MongodbHandle st \<Rightarrow> map_prod id MongodbHandle (mongo_get (bk_mongo_built B) (bk_mongo B) now st key))"

definition handle_put :: "('m, 'g) backends \<Rightarrow> int \<Rightarrow> ('m, 'g) storage_handle \<Rightarrow> string \<Rightarrow> string \<Rightarrow> int \<Rightarrow> storage_result \<times> ('m, 'g) storage_handle" where
  "handle_put B now h key v e = (case h of
     MemoryHandle m \<Rightarrow> map_prod id MemoryHandle (mem_put now m key v e)
   | MysqlHandle cfg st \<Rightarrow> map_prod id (MysqlHandle cfg) (mysql_put (bk_mysql_built B) (bk_mysql B) cfg now st key v e)
   | MongodbHandle st \<Rightarrow> map_prod id MongodbHandle (mongo_put (bk_mongo_built B) (bk_mongo B) now st key v e))"

definition handle_remove :: "('m, 'g) backends \<Rightarrow> int \<Rightarrow> ('m, 'g) storage_handle \<Rightarrow> string \<Rightarrow> storage_result \<times> ('m, 'g) storage_handle" where
  "handle_remove B now h key = (case h of
     MemoryHandle m \<Rightarrow> map_prod id MemoryHandle (mem_remove now m key)
   | MysqlHandle cfg st \<Rightarrow> map_prod id (MysqlHandle cfg) (mysql_remove (bk_mysql_built B) (bk_mysql B) cfg now st key)
   | MongodbHandle st \<Rightarrow> map_prod id MongodbHandle (mongo_remove (bk_mongo_built B) (bk_mongo B) now st key))"

definition handle_exists :: "('m, 'g) backends \<Rightarrow> int \<Rightarrow> ('m, 'g) storage_handle \<Rightarrow> string \<Rightarrow> bool \<times> ('m, 'g) storage_handle" where
  "handle_exists B now h key = (case h of
     MemoryHandle m \<Rightarrow> map_prod id MemoryHandle (mem_exists now m key)
   | MysqlHandle cfg st \<Rightarrow> map_prod id (MysqlHandle cfg) (mysql_exists (bk_mysql_built B) (bk_mysql B) cfg now st key)
   | MongodbHandle st \<Rightarrow> map_prod id MongodbHandle (mongo_exists (bk_mongo_built B) (bk_mongo B) now st key))"

type_synonym ('m, 'g) storage_component = "('m, 'g) storage_handle option"

definition component_get :: "('m, 'g) backends \<Rightarrow> int \<Rightarrow> ('m, 'g) storage_component \<Rightarrow> string \<Rightarrow> storage_result \<times> ('m, 'g) storage_component" where
  "component_get B now c key = (case c of None \<Rightarrow> (not_initialized, None) | Some h \<Rightarrow> map_prod id Some (handle_get B now h key))"

definition component_put :: "('m, 'g) backends \<Rightarrow> int \<Rightarrow> ('m, 'g) storage_component \<Rightarrow> string \<Rightarrow> string \<Rightarrow> int \<Rightarrow> storage_result \<times> ('m, 'g) storage_component" where
  "component_put B now c key v e = (case c of None \<Rightarrow> (not_initialized, None) | Some h \<Rightarrow> map_prod id Some (handle_put B now h key v e))"

definition component_remove :: "('m, 'g) backends \<Rightarrow> int \<Rightarrow> ('m, 'g) storage_component \<Rightarrow> string \<Rightarrow> storage_result \<times> ('m, 'g) storage_component" where
  "component_remove B now c key = (case c of None \<Rightarrow> (not_initialized, None) | Some h \<Rightarrow> map_prod id Some (handle_remove B now h key))"

definition component_exists :: "('m, 'g) backends \<Rightarrow> int \<Rightarrow> ('m, 'g) storage_component \<Rightarrow> string \<Rightarrow> bool \<times> ('m, 'g) storage_component" where
  "component_exists B now c key = (case c of None \<Rightarrow> (False, None) | Some h \<Rightarrow> map_prod id Some (handle_exists B now h key))"

text \<open>A repository on a component without storage is refused with an exception, here \<open>None\<close>.\<close>

definition component_repository :: "('m, 'g) storage_component \<Rightarrow> string \<Rightarrow> (('m, 'g) storage_handle \<times> string) option" where
  "component_repository c table = (case c of None \<Rightarrow> None | Some h \<Rightarrow> Some (h, table))"

text \<open>The destructor disconnects the storage.\<close>

definition component_destroy :: "('m, 'g) backends \<Rightarrow> mongoc_global \<Rightarrow> ('m, 'g) storage_component \<Rightarrow> mongoc_global \<times> ('m, 'g) storage_component" where
  "component_destroy B g c = (case c of
     Some (MysqlHandle cfg st) \<Rightarrow> (g, Some (MysqlHandle cfg (mysql_disconnect (bk_mysql_built B) st)))
   | Some (MongodbHandle st) \<Rightarrow> map_prod id (Some \<circ> MongodbHandle) (mongo_disconnect (bk_mongo_built B) g st)
   | _ \<Rightarrow> (g, c))"

section \<open>What is created is usable\<close>

definition connected :: "('m, 'g) storage_handle \<Rightarrow> bool" where
  "connected h = (case h of MemoryHandle _ \<Rightarrow> True | MysqlHandle _ st \<Rightarrow> my_conn st | MongodbHandle st \<Rightarrow> mo_collection st)"

lemma created_connected:
  assumes "create_storage B cfg = Some h"
  shows "connected h"
proof -
  obtain ok st where m: "mysql_connect (bk_mysql_built B) (bk_mysql B) cfg \<lparr>my_db = bk_mysql_db B, my_conn = False\<rparr> = (ok, st)"
    by fastforce
  obtain ok2 g st2 where g: "mongo_connect (bk_mongo_built B) (bk_mongo B) cfg (bk_mongoc B)
      \<lparr>mo_db = bk_mongo_db B, mo_client = False, mo_collection = False, mo_names = ([], [])\<rparr> = (ok2, g, st2)" by (metis prod_cases3)
  have "my_conn st = ok"
    using m mysql_connect_state [of "\<lparr>my_db = bk_mysql_db B, my_conn = False\<rparr>" "bk_mysql B" cfg ok st]
    by (cases "bk_mysql_built B") (auto simp: mysql_connect_def)
  moreover have "ok2 \<longrightarrow> mo_collection st2" using g by (auto simp: mongo_connect_def Let_def split: if_splits)
  ultimately show ?thesis using assms unfolding create_storage_def m g Let_def
    by (cases ok; cases ok2) (auto simp: connected_def split: if_splits)
qed

text \<open>An unknown type and, in a build without the libraries, every type but memory give no storage; nothing falls back to memory.\<close>

lemma unknown_type_none:
  assumes "\<not> bk_mysql_built B" and "\<not> bk_mongo_built B" and "cfg_type cfg \<noteq> []" and "cfg_type cfg \<noteq> ''memory''"
  shows "create_storage B cfg = None"
  using assms by (simp add: create_storage_def mysql_connect_def mongo_connect_def Let_def)

lemma no_storage_no_data:
  "fst (component_get B now None k) = not_initialized \<and> fst (component_put B now None k v e) = not_initialized \<and>
   fst (component_remove B now None k) = not_initialized \<and> \<not> fst (component_exists B now None k) \<and> component_repository None t = None"
  by (simp add: component_get_def component_put_def component_remove_def component_exists_def component_repository_def)

text \<open>
  The configuration of a MySQL section reaches the connection: present fields replace the defaults, an unreadable port
  becomes 3306, and the exceptions of the library are failures of the load.
\<close>

lemma mysql_section_loaded:
  assumes "yl_subscript Y root ''storage'' = Inr (Some sec)"
    and "yl_subscript Y sec ''type'' = Inr (Some tn)" and "yl_as_string Y tn = Some ''mysql''"
    and "yl_subscript Y sec ''mysql'' = Inr (Some m)"
    and "\<And>key. yl_subscript Y m key = Inr (node key)" and "\<And>key n. node key = Some n \<Longrightarrow> yl_as_string Y n = Some (text key)"
  shows "load_config True Y (Some root) = Some
    \<lparr>cfg_type = ''mysql'',
     cfg_host = (if node ''host'' = None then ''127.0.0.1'' else text ''host''),
     cfg_port = (case node ''port'' of None \<Rightarrow> 0 | Some n \<Rightarrow> (case yl_as_int Y n of Some i \<Rightarrow> i | None \<Rightarrow> 3306)),
     cfg_database = (if node ''database'' = None then [] else text ''database''),
     cfg_user = (if node ''user'' = None then [] else text ''user''),
     cfg_password = (if node ''password'' = None then [] else text ''password''),
     cfg_extra = (\<lambda>k. if k \<in> {''charset'', ''table''} \<and> node k \<noteq> None then Some (text k) else None)\<rparr>"
proof -
  have f: "string_field Y key store m cfg = Inr (if node key = None then cfg else store (text key) cfg)" for key store cfg
    using assms(5,6) by (cases "node key") (auto simp: string_field_def)
  have g:
    "string_field Y ''host'' (\<lambda>s c. c\<lparr>cfg_host := s\<rparr>) m cfg = Inr (cfg\<lparr>cfg_host := if node ''host'' = None then cfg_host cfg else text ''host''\<rparr>)"
    "string_field Y ''database'' (\<lambda>s c. c\<lparr>cfg_database := s\<rparr>) m cfg = Inr (cfg\<lparr>cfg_database := if node ''database'' = None then cfg_database cfg else text ''database''\<rparr>)"
    "string_field Y ''user'' (\<lambda>s c. c\<lparr>cfg_user := s\<rparr>) m cfg = Inr (cfg\<lparr>cfg_user := if node ''user'' = None then cfg_user cfg else text ''user''\<rparr>)"
    "string_field Y ''password'' (\<lambda>s c. c\<lparr>cfg_password := s\<rparr>) m cfg = Inr (cfg\<lparr>cfg_password := if node ''password'' = None then cfg_password cfg else text ''password''\<rparr>)"
    "string_field Y key (extra_field key) m cfg = Inr (cfg\<lparr>cfg_extra := if node key = None then cfg_extra cfg else (cfg_extra cfg)(key \<mapsto> text key)\<rparr>)"
    "port_field Y m cfg = Inr (cfg\<lparr>cfg_port := case node ''port'' of None \<Rightarrow> cfg_port cfg
      | Some n \<Rightarrow> (case yl_as_int Y n of Some i \<Rightarrow> i | None \<Rightarrow> 3306)\<rparr>)" for cfg key
    using assms(5) by (auto simp: f extra_field_def port_field_def split: option.split)
  have e: "(if node ''table'' = None then (if node ''charset'' = None then Map.empty else [''charset'' \<mapsto> text ''charset''])
        else (if node ''charset'' = None then Map.empty else [''charset'' \<mapsto> text ''charset''])(''table'' \<mapsto> text ''table'')) =
      (\<lambda>k. if (k = ''charset'' \<or> k = ''table'') \<and> (\<exists>y. node k = Some y) then Some (text k) else None)"
    by (auto simp: fun_eq_iff)
  obtain cfg where c: "assign_all (mysql_fields Y) m (default_storage_config\<lparr>cfg_type := ''mysql''\<rparr>) = Inr cfg"
    by (simp add: mysql_fields_def g)
  then have "load_config True Y (Some root) = Some cfg"
    using assms(1-4) by (simp add: load_config_def parse_yaml_def backend_section_def Let_def)
  moreover from c have "cfg = \<lparr>cfg_type = ''mysql'',
     cfg_host = (if node ''host'' = None then ''127.0.0.1'' else text ''host''),
     cfg_port = (case node ''port'' of None \<Rightarrow> 0 | Some n \<Rightarrow> (case yl_as_int Y n of Some i \<Rightarrow> i | None \<Rightarrow> 3306)),
     cfg_database = (if node ''database'' = None then [] else text ''database''),
     cfg_user = (if node ''user'' = None then [] else text ''user''),
     cfg_password = (if node ''password'' = None then [] else text ''password''),
     cfg_extra = (\<lambda>k. if k \<in> {''charset'', ''table''} \<and> node k \<noteq> None then Some (text k) else None)\<rparr>"
    by (simp add: mysql_fields_def g default_storage_config_def e cong: if_cong option.case_cong split del: if_split)
  ultimately show ?thesis by simp
qed

end
