(* ===== verification/Node.thy ===== *)
theory Node
  imports Discovery
begin

text \<open>
  \<^verbatim>\<open>cluster/node.cpp\<close>: a node registers itself with the service discovery, sends heartbeats from its own thread, and
  deregisters when it stops. \<^verbatim>\<open>discovery_\<close> is whether the pointer is set; the discovery it points to is passed along.
\<close>

section \<open>Operations\<close>

record node =
  nd_id :: string
  nd_type :: string
  nd_addr :: string
  nd_port :: "16 word"
  nd_interval :: int   \<comment> \<open>seconds\<close>
  nd_discovery :: bool
  nd_running :: bool

definition node_init :: "string \<Rightarrow> string \<Rightarrow> string \<Rightarrow> 16 word \<Rightarrow> int \<Rightarrow> node" where
  "node_init nid type addr p interval = \<lparr>nd_id = nid, nd_type = type, nd_addr = addr, nd_port = p, nd_interval = interval,
     nd_discovery = False, nd_running = False\<rparr>"

definition node_instance :: "node \<Rightarrow> service_instance" where
  "node_instance n = \<lparr>service_id = nd_type n, instance_id = nd_id n, host = nd_addr n, port = nd_port n,
     metadata = [''node_type'' \<mapsto> nd_type n], register_time = 0, heartbeat_time = 0, is_alive_flag = True\<rparr>"

definition node_start :: "bool \<Rightarrow> int \<Rightarrow> node \<Rightarrow> 'l discovery \<Rightarrow> bool \<times> node \<times> 'l discovery" where
  "node_start has_discovery now n d =
     (if nd_running n then (False, n, d)
      else if \<not> has_discovery then (False, n, d)
      else let n1 = n\<lparr>nd_discovery := True\<rparr>;
               (ok, calls, d1) = register_service d now (node_instance n)
           in if \<not> ok then (False, n1, d1) else (True, n1\<lparr>nd_running := True\<rparr>, d1))"

definition node_stop :: "node \<Rightarrow> 'l discovery \<Rightarrow> node \<times> 'l discovery" where
  "node_stop n d =
     (if \<not> nd_running n then (n, d)
      else if nd_discovery n then (n\<lparr>nd_running := False, nd_discovery := False\<rparr>, snd (deregister_service d (nd_id n)))
      else (n\<lparr>nd_running := False\<rparr>, d))"

text \<open>One round of the heartbeat thread after its wait; \<open>None\<close> when it ends.\<close>

definition heartbeat_round :: "int \<Rightarrow> node \<Rightarrow> 'l discovery \<Rightarrow> 'l discovery option" where
  "heartbeat_round now n d =
     (if \<not> nd_running n then None
      else if nd_discovery n
      then (let (ok, d1) = heartbeat d now (nd_id n)
            in if \<not> ok then Some (snd (snd (register_service d1 now (node_instance n)))) else Some d1)
      else Some d)"

section \<open>A node among other users of the discovery\<close>

text \<open>
  \<open>cl_last\<close> is when the node registered or sent its last heartbeat. The heartbeat thread is at most \<open>delay\<close> milliseconds
  late: time does not pass beyond that without a round, the first of which follows the start. Others register, deregister
  and send heartbeats for what they like. \<open>cl_removed\<close> is a ghost: somebody has deregistered the id of the node since its
  last successful start.
\<close>

record 'l cluster =
  cl_node :: node
  cl_disc :: "'l discovery"
  cl_now :: int
  cl_last :: int
  cl_removed :: bool

inductive cluster_step :: "int \<Rightarrow> (string set \<Rightarrow> string list) \<Rightarrow> 'l cluster \<Rightarrow> 'l cluster \<Rightarrow> bool" for delay order where
  c_time: "cl_now s \<le> t \<Longrightarrow> (nd_running (cl_node s) \<longrightarrow> t \<le> cl_last s + 1000 * nd_interval (cl_node s) + delay) \<Longrightarrow>
     cluster_step delay order s (s\<lparr>cl_now := t\<rparr>)"
| c_start: "node_start has_disc (cl_now s) (cl_node s) (cl_disc s) = (ok, n, d) \<Longrightarrow>
     cluster_step delay order s (s\<lparr>cl_node := n, cl_disc := d, cl_last := (if ok then cl_now s else cl_last s),
       cl_removed := (cl_removed s \<and> \<not> ok)\<rparr>)"
| c_beat: "heartbeat_round (cl_now s) (cl_node s) (cl_disc s) = Some d \<Longrightarrow>
     cluster_step delay order s (s\<lparr>cl_disc := d, cl_last := cl_now s\<rparr>)"
| c_stop: "node_stop (cl_node s) (cl_disc s) = (n, d) \<Longrightarrow> cluster_step delay order s (s\<lparr>cl_node := n, cl_disc := d\<rparr>)"
| c_sweep: "cluster_step delay order s (s\<lparr>cl_disc := cleanup_expired_instances order (cl_disc s) (cl_now s)\<rparr>)"
| c_register: "cluster_step delay order s (s\<lparr>cl_disc := snd (snd (register_service (cl_disc s) (cl_now s) inst))\<rparr>)"
| c_heartbeat: "cluster_step delay order s (s\<lparr>cl_disc := snd (heartbeat (cl_disc s) (cl_now s) iid)\<rparr>)"
| c_deregister: "cluster_step delay order s (s\<lparr>cl_disc := snd (deregister_service (cl_disc s) iid),
     cl_removed := (cl_removed s \<or> iid = nd_id (cl_node s))\<rparr>)"

definition cluster_init :: "node \<Rightarrow> int \<Rightarrow> int \<Rightarrow> 'l cluster" where
  "cluster_init n timeout interval = \<lparr>cl_node = n, cl_disc = disc_init timeout interval, cl_now = 0, cl_last = 0,
     cl_removed = False\<rparr>"

section \<open>A running node can be found\<close>

text \<open>The entry of the node, fresh since \<open>t\<close>.\<close>

definition entry_fresh :: "node \<Rightarrow> int \<Rightarrow> 'l discovery \<Rightarrow> bool" where
  "entry_fresh n t d \<longleftrightarrow> (\<exists>inst. instances d (nd_id n) = Some inst \<and> service_id inst = nd_type n \<and> host inst = nd_addr n \<and>
     port inst = nd_port n \<and> t \<le> heartbeat_time inst)"

lemma entry_others:
  assumes "entry_fresh n t d"
  shows "entry_fresh n t (snd (snd (register_service d now inst)))"
    and "t \<le> now \<Longrightarrow> entry_fresh n t (snd (heartbeat d now iid))"
    and "iid \<noteq> nd_id n \<Longrightarrow> entry_fresh n t (snd (deregister_service d iid))"
  using assms by (auto simp: entry_fresh_def register_service_def heartbeat_def deregister_service_def erase_instance_instances
    Let_def split: option.split)

lemma entry_sweep:
  assumes "entry_fresh n t d" and "enumerates order" and "disc_inv d" and "now - t \<le> heartbeat_timeout_ms d"
  shows "entry_fresh n t (cleanup_expired_instances order d now)"
  using assms by (auto simp: entry_fresh_def sweep_instances expired_def)

lemma entry_beat: "entry_fresh n t d \<Longrightarrow> nd_running n \<Longrightarrow> nd_discovery n \<Longrightarrow> \<exists>d'. heartbeat_round now n d = Some d' \<and> entry_fresh n now d'"
  by (auto simp: entry_fresh_def heartbeat_round_def heartbeat_def)

text \<open>An entry that was lost comes back with the next round.\<close>

lemma round_restores:
  assumes "nd_running n" and "nd_discovery n" and "nd_id n \<noteq> []" and "instances d (nd_id n) = None"
  shows "\<exists>d'. heartbeat_round now n d = Some d' \<and> entry_fresh n now d'"
  using assms by (auto simp: heartbeat_round_def heartbeat_def register_service_def entry_fresh_def node_instance_def Let_def)

lemma timeout_kept:
  "heartbeat_timeout_ms (snd (snd (register_service d now inst))) = heartbeat_timeout_ms d"
  "heartbeat_timeout_ms (snd (heartbeat d now iid)) = heartbeat_timeout_ms d"
  "heartbeat_timeout_ms (snd (deregister_service d iid)) = heartbeat_timeout_ms d"
  "heartbeat_timeout_ms (erase_instance d iid) = heartbeat_timeout_ms d"
  by (auto simp: register_service_def heartbeat_def deregister_service_def erase_instance_def Let_def split: option.split)

lemma timeout_sweep: "heartbeat_timeout_ms (cleanup_expired_instances order d now) = heartbeat_timeout_ms d"
proof -
  have "heartbeat_timeout_ms (foldl erase_instance d xs) = heartbeat_timeout_ms d" for xs
    by (induction xs arbitrary: d) (auto simp: timeout_kept)
  then show ?thesis by (simp add: cleanup_expired_instances_def)
qed

lemma deregister_inv: "disc_inv d \<Longrightarrow> disc_inv (snd (deregister_service d iid))"
  by (auto simp: deregister_service_def erase_inv)

text \<open>The invariant: parameters are kept, and a running node that nobody removed has a fresh entry that cannot have expired.\<close>

definition cluster_inv :: "int \<Rightarrow> int \<Rightarrow> node \<Rightarrow> 'l cluster \<Rightarrow> bool" where
  "cluster_inv delay timeout n s \<longleftrightarrow> disc_inv (cl_disc s) \<and> heartbeat_timeout_ms (cl_disc s) = timeout \<and>
     nd_interval (cl_node s) = nd_interval n \<and> node_instance (cl_node s) = node_instance n \<and> cl_last s \<le> cl_now s \<and>
     (nd_running (cl_node s) \<longrightarrow> nd_discovery (cl_node s) \<and> cl_now s \<le> cl_last s + 1000 * nd_interval n + delay \<and>
        (cl_removed s \<or> entry_fresh (cl_node s) (cl_last s) (cl_disc s)))"

lemma node_start_cases:
  assumes "node_start h now n d = (ok, n', d')"
  shows "nd_interval n' = nd_interval n" and "node_instance n' = node_instance n" and "nd_running n' \<longleftrightarrow> nd_running n \<or> ok"
    and "\<not> (nd_running n \<and> ok)" and "ok \<Longrightarrow> nd_discovery n' \<and> entry_fresh n' now d'" and "nd_running n \<Longrightarrow> n' = n \<and> d' = d"
    and "d' = d \<or> d' = snd (snd (register_service d now (node_instance n)))"
  using assms by (auto simp: node_start_def node_instance_def register_service_def entry_fresh_def Let_def split: if_splits prod.splits)

lemma node_stop_cases:
  assumes "node_stop n d = (n', d')"
  shows "nd_interval n' = nd_interval n" and "node_instance n' = node_instance n" and "\<not> nd_running n'"
    and "d' = d \<or> d' = snd (deregister_service d (nd_id n))"
  using assms by (auto simp: node_stop_def node_instance_def split: if_splits)

lemma beat_result:
  assumes "heartbeat_round now n d = Some d'"
  shows "d' = d \<or> d' = snd (heartbeat d now (nd_id n)) \<or>
    d' = snd (snd (register_service (snd (heartbeat d now (nd_id n))) now (node_instance n)))"
  using assms by (auto simp: heartbeat_round_def split: if_splits prod.splits)

lemma cluster_inv_step:
  assumes "cluster_step delay order s s'" and "cluster_inv delay timeout n s" and "enumerates order"
    and "0 \<le> nd_interval n" and "0 \<le> delay" and "1000 * nd_interval n + delay \<le> timeout"
  shows "cluster_inv delay timeout n s'"
  using assms(1)
proof cases
  case (c_start h ok n' d)
  note c = node_start_cases [OF c_start(2)]
  show ?thesis
    using assms(2,4,5) c unfolding c_start(1) cluster_inv_def
    by (auto simp: timeout_kept register_inv)
next
  case (c_beat d)
  note b = beat_result [OF c_beat(2)]
  have "nd_running (cl_node s)" using c_beat(2) by (auto simp: heartbeat_round_def split: if_splits)
  then have "entry_fresh (cl_node s) (cl_now s) d" if "\<not> cl_removed s"
    using entry_beat [of "cl_node s" "cl_last s" "cl_disc s" "cl_now s"] assms(2) c_beat(2) that by (auto simp: cluster_inv_def)
  moreover have "disc_inv d" "heartbeat_timeout_ms d = timeout"
    using b assms(2) by (auto simp: cluster_inv_def timeout_kept intro: register_inv heartbeat_inv)
  ultimately show ?thesis using assms(2,4,5) unfolding c_beat(1) by (auto simp: cluster_inv_def)
next
  case (c_stop n' d)
  note c = node_stop_cases [OF c_stop(2)]
  show ?thesis using assms(2) c unfolding c_stop(1) cluster_inv_def by (auto simp: timeout_kept intro: deregister_inv)
next
  case (c_deregister iid)
  then show ?thesis using assms(2) entry_others(3) [of "cl_node s" "cl_last s" "cl_disc s" iid] unfolding c_deregister(1) cluster_inv_def
    by (auto simp: timeout_kept intro: deregister_inv)
qed (use assms in \<open>auto simp: cluster_inv_def timeout_kept timeout_sweep entry_others intro: register_inv heartbeat_inv
    cleanup_inv deregister_inv intro!: entry_sweep\<close>)

lemma cluster_inv_run:
  assumes "(cluster_step delay order)\<^sup>*\<^sup>* (cluster_init n timeout interval) s" and "\<not> nd_running n" and "enumerates order"
    and "0 \<le> nd_interval n" and "0 \<le> delay" and "1000 * nd_interval n + delay \<le> timeout"
  shows "cluster_inv delay timeout n s"
  using assms(1)
proof (induction rule: rtranclp_induct)
  case base
  then show ?case using assms(2) by (simp add: cluster_inv_def cluster_init_def disc_inv_init) (simp add: disc_init_def)
next
  case (step s s')
  then show ?case using cluster_inv_step assms(3-6) by blast
qed

text \<open>
  C32. While a node runs it can be found: if its heartbeat interval and the delay of its thread stay within the timeout of
  the discovery, then at every moment, whatever sweeps there are and whatever other users register or send heartbeats for, a
  lookup of its type returns an instance with its id, address and port, and no sweep at that moment removes it. The
  exception is a node whose id another user has deregistered since it started: it is missing until a round of its
  heartbeat thread registers it again (\<open>round_restores\<close>).
\<close>

theorem running_node_found:
  assumes "(cluster_step delay order)\<^sup>*\<^sup>* (cluster_init n timeout interval) s" and "\<not> nd_running n" and "enumerates order"
    and "0 \<le> nd_interval n" and "0 \<le> delay" and "1000 * nd_interval n + delay \<le> timeout" and "nd_running (cl_node s)"
    and "\<not> cl_removed s"
  shows "\<exists>inst. inst \<in> set (discover_services order (cleanup_expired_instances order (cl_disc s) (cl_now s)) (nd_type n)) \<and>
    instance_id inst = nd_id n \<and> host inst = nd_addr n \<and> port inst = nd_port n"
proof -
  let ?d = "cleanup_expired_instances order (cl_disc s) (cl_now s)"
  note inv = cluster_inv_run [OF assms(1-6)]
  then have "cl_now s - cl_last s \<le> heartbeat_timeout_ms (cl_disc s)" using assms(6,7) by (auto simp: cluster_inv_def)
  then have "entry_fresh (cl_node s) (cl_last s) ?d" and i: "disc_inv ?d"
    using inv assms(3,7,8) by (auto simp: cluster_inv_def entry_sweep cleanup_inv)
  then obtain inst where e: "instances ?d (nd_id (cl_node s)) = Some inst" "service_id inst = nd_type (cl_node s)"
    "host inst = nd_addr (cl_node s)" "port inst = nd_port (cl_node s)" by (auto simp: entry_fresh_def)
  have n: "nd_id (cl_node s) = nd_id n" "nd_type (cl_node s) = nd_type n" "nd_addr (cl_node s) = nd_addr n" "nd_port (cl_node s) = nd_port n"
    using inv by (auto simp: cluster_inv_def node_instance_def)
  have "instance_id inst = nd_id n" using i e(1) n by (auto simp: disc_inv_def)
  moreover have "inst \<in> set (discover_services order ?d (nd_type n))"
    using e n by (auto simp: discover_set [OF assms(3) i] registered_def)
  ultimately show ?thesis using e n by auto
qed

text \<open>A node started at time 0, a heartbeat after ten seconds, and a sweep nine seconds later.\<close>

definition demo_node :: node where
  "demo_node = node_init ''n1'' ''game'' ''10.0.0.1'' 9000 10"

definition demo_cluster :: "nat cluster" where
  "demo_cluster = \<lparr>cl_node = demo_node\<lparr>nd_discovery := True, nd_running := True\<rparr>,
     cl_disc = the (heartbeat_round 10000 (demo_node\<lparr>nd_discovery := True, nd_running := True\<rparr>)
       (snd (snd (node_start True 0 demo_node (disc_init 15000 1000))))), cl_now = 19000, cl_last = 10000,
     cl_removed = False\<rparr>"

lemma demo_cluster_reachable: "(cluster_step 500 sorted_list_of_set)\<^sup>*\<^sup>* (cluster_init demo_node 15000 1000) demo_cluster"
proof -
  let ?C = "cluster_step 500 sorted_list_of_set :: nat cluster \<Rightarrow> nat cluster \<Rightarrow> bool"
  let ?n = "demo_node\<lparr>nd_discovery := True, nd_running := True\<rparr>"
  let ?d = "snd (snd (node_start True 0 demo_node (disc_init 15000 1000 :: nat discovery)))"
  have st: "node_start True 0 demo_node (disc_init 15000 1000 :: nat discovery) = (True, ?n, ?d)"
    by (simp add: node_start_def register_service_def node_instance_def demo_node_def node_init_def disc_init_def Let_def)
  have h: "\<exists>d. heartbeat_round 10000 ?n ?d = Some d"
    by (simp add: heartbeat_round_def demo_node_def node_init_def case_prod_beta Let_def)
  let ?s1 = "\<lparr>cl_node = ?n, cl_disc = ?d, cl_now = 0, cl_last = 0, cl_removed = False\<rparr>"
  have 1: "?C (cluster_init demo_node 15000 1000) ?s1"
    using c_start [of True "cluster_init demo_node 15000 1000 :: nat cluster" True ?n ?d] st by (simp add: cluster_init_def)
  have 2: "?C ?s1 (?s1\<lparr>cl_now := 10000\<rparr>)" by (rule c_time) (simp_all add: demo_node_def node_init_def)
  have 3: "?C (?s1\<lparr>cl_now := 10000\<rparr>) (?s1\<lparr>cl_now := 10000, cl_disc := the (heartbeat_round 10000 ?n ?d), cl_last := 10000\<rparr>)"
    using c_beat [of "?s1\<lparr>cl_now := 10000\<rparr>"] h by fastforce
  have 4: "?C (?s1\<lparr>cl_now := 10000, cl_disc := the (heartbeat_round 10000 ?n ?d), cl_last := 10000\<rparr>) demo_cluster"
    using c_time [of "?s1\<lparr>cl_now := 10000, cl_disc := the (heartbeat_round 10000 ?n ?d), cl_last := 10000\<rparr>" 19000 500]
    by (simp add: demo_cluster_def) (simp add: demo_node_def node_init_def)
  show ?thesis using 1 2 3 4 by (meson converse_rtranclp_into_rtranclp rtranclp.rtrancl_refl)
qed

theorem running_node_found_witness:
  "\<exists>inst. inst \<in> set (discover_services sorted_list_of_set
      (cleanup_expired_instances sorted_list_of_set (cl_disc demo_cluster) (cl_now demo_cluster)) (nd_type demo_node)) \<and>
    instance_id inst = nd_id demo_node \<and> host inst = nd_addr demo_node \<and> port inst = nd_port demo_node"
proof (rule running_node_found [OF demo_cluster_reachable])
  show "enumerates (sorted_list_of_set :: string set \<Rightarrow> string list)" by (simp add: enumerates_def)
qed (simp_all add: demo_node_def node_init_def demo_cluster_def)

section \<open>Stop and restart\<close>

lemma stop_deregisters:
  assumes "nd_running n" and "nd_discovery n"
  shows "instances (snd (node_stop n d)) (nd_id n) = None"
  using assms by (auto simp: node_stop_def deregister_service_def erase_instance_instances)

text \<open>A node that has died and starts again before its old entry has expired is refused.\<close>

lemma restart_refused: "instances d (nd_id n) \<noteq> None \<Longrightarrow> fst (node_start has_disc now n d) = False"
  by (auto simp: node_start_def register_service_def node_instance_def Let_def)

text \<open>
  When another service has taken the id of the node meanwhile, the heartbeats of the node keep that entry alive, and the
  node, which sees them succeed, is never registered again.
\<close>

lemma foreign_entry_kept_alive:
  assumes "nd_running n" and "nd_discovery n" and "instances d (nd_id n) = Some other"
  shows "\<exists>d'. heartbeat_round now n d = Some d' \<and>
    instances d' (nd_id n) = Some (other\<lparr>heartbeat_time := now, is_alive_flag := True\<rparr>)"
  using assms by (simp add: heartbeat_round_def heartbeat_def)

end
