(* ===== verification/Logger.thy ===== *)
theory Logger
  imports Document
begin

text \<open>
  \<^verbatim>\<open>core/logger.cpp\<close>: the level filter, the choice of the stream and the text of a line. \<open>local_time\<close> is what \<^verbatim>\<open>localtime\<close>
  and \<^verbatim>\<open>strftime\<close> make of a time in seconds; times are milliseconds since the epoch.
\<close>

section \<open>Levels and state\<close>

datatype log_level = Debug | Info | Warn | Error

datatype out_stream = Cout | Cerr

record logger =
  lg_level :: log_level
  lg_use_color :: bool

definition logger_init :: "bool \<Rightarrow> logger" where
  "logger_init is_tty = \<lparr>lg_level = Info, lg_use_color = is_tty\<rparr>"

definition set_level :: "log_level \<Rightarrow> logger \<Rightarrow> logger" where
  "set_level l g = g\<lparr>lg_level := l\<rparr>"

definition set_use_color :: "bool \<Rightarrow> logger \<Rightarrow> logger" where
  "set_use_color b g = g\<lparr>lg_use_color := b\<rparr>"

fun level_number :: "log_level \<Rightarrow> nat" where
  "level_number Debug = 0"
| "level_number Info = 1"
| "level_number Warn = 2"
| "level_number Error = 3"

fun level_to_string :: "log_level \<Rightarrow> string" where
  "level_to_string Debug = ''DEBUG''"
| "level_to_string Info = ''INFO ''"
| "level_to_string Warn = ''WARN ''"
| "level_to_string Error = ''ERROR''"

definition escape_code :: "string \<Rightarrow> string" where
  "escape_code s = CHR 0x1B # CHR ''['' # s"

fun level_color :: "log_level \<Rightarrow> string" where
  "level_color Debug = escape_code ''2m''"
| "level_color Info = escape_code ''0m''"
| "level_color Warn = escape_code ''33m''"
| "level_color Error = escape_code ''31m''"

definition color_reset :: string where
  "color_reset = escape_code ''0m''"

definition stream_for :: "log_level \<Rightarrow> out_stream" where
  "stream_for l = (if l = Error \<or> l = Warn then Cerr else Cout)"

section \<open>A line\<close>

text \<open>\<^verbatim>\<open>setfill('0')\<close> and \<^verbatim>\<open>setw(3)\<close> pad the milliseconds.\<close>

definition now_string :: "(nat \<Rightarrow> string) \<Rightarrow> nat \<Rightarrow> string" where
  "now_string local_time now =
     (let ms = dec (now mod 1000) in local_time (now div 1000) @ ''.'' @ replicate (3 - length ms) (CHR ''0'') @ ms)"

text \<open>What a call writes, and where; \<open>None\<close> when the level is below the current one.\<close>

definition log_message :: "(nat \<Rightarrow> string) \<Rightarrow> nat \<Rightarrow> logger \<Rightarrow> log_level \<Rightarrow> string \<Rightarrow> (out_stream \<times> string) option" where
  "log_message local_time now g l msg =
     (if level_number l < level_number (lg_level g) then None
      else Some (stream_for l, now_string local_time now @ (if lg_use_color g then '' '' @ level_color l else []) @
        '' ['' @ level_to_string l @ ''] '' @ (if lg_use_color g then color_reset else []) @ msg @ [newline]))"

section \<open>Correctness\<close>

lemma level_text_length: "length (level_to_string l) = 5"
  by (cases l) simp_all

lemma level_text_inj: "level_to_string l = level_to_string l' \<Longrightarrow> l = l'"
  by (cases l; cases l') simp_all

lemma dec_ms: "n < 1000 \<Longrightarrow> length (dec n) \<le> 3"
proof -
  assume "n < 1000"
  then have "n div 10 div 10 < 10" by simp
  then show ?thesis by (subst dec.simps) (simp, subst dec.simps, simp, subst dec.simps, simp)
qed

lemma now_string_length: "length (local_time (now div 1000)) = 19 \<Longrightarrow> length (now_string local_time now) = 23"
  using dec_ms [of "now mod 1000"] by (simp add: now_string_def Let_def)

text \<open>
  Without colours the level and the message of a line can be read back from fixed columns, and lines are kept apart by
  them: two calls that write the same line had the same level and message.
\<close>

lemma line_read_back:
  assumes "log_message local_time now g l msg = Some (out, line)" and "\<not> lg_use_color g"
    and "length (local_time (now div 1000)) = 19"
  shows "take 5 (drop 25 line) = level_to_string l \<and> drop 32 line = msg @ [newline]"
proof -
  have n: "length (now_string local_time now) = 23" using now_string_length assms(3) by blast
  have "line = now_string local_time now @ '' ['' @ level_to_string l @ ''] '' @ msg @ [newline]"
    using assms(1,2) by (auto simp: log_message_def split: if_splits)
  then show ?thesis using n level_text_length [of l] by simp
qed

text \<open>Exactly the calls at or above the current level write, warnings and errors to the error stream.\<close>

lemma log_filter:
  "log_message local_time now g l msg \<noteq> None \<longleftrightarrow> level_number (lg_level g) \<le> level_number l"
  "log_message local_time now g l msg = Some (out, line) \<Longrightarrow> out = Cerr \<longleftrightarrow> 2 \<le> level_number l"
  by (cases l; simp add: log_message_def stream_for_def split: if_splits)+

text \<open>A message with a line break writes several lines, and the later ones can look like lines of their own.\<close>

lemma message_forges_line:
  assumes "level_number (lg_level g) \<le> level_number l" and "\<not> lg_use_color g" and "\<not> lg_use_color h"
    and "log_message local_time now2 h l2 msg2 = Some (out2, forged)"
  shows "\<exists>out line. log_message local_time now g l (msg @ newline # butlast forged) = Some (out, line @ forged)"
proof -
  have "forged = butlast forged @ [newline]" using assms(3,4) by (auto simp: log_message_def butlast_append split: if_splits)
  then have "xs @ butlast forged @ [newline] = xs @ forged" for xs by simp
  then show ?thesis using assms(1,2)
    by (auto simp: log_message_def intro!: exI [of _ "now_string local_time now @ '' ['' @ level_to_string l @ ''] '' @ msg @ [newline]"])
qed

end
