(* ===== verification/Metrics.thy ===== *)
theory Metrics
  imports Complex_Main Document "HOL-Library.Multiset"
begin

text \<open>
  \<^verbatim>\<open>metrics/prometheus_metrics.h\<close> and \<^verbatim>\<open>metrics/prometheus_metrics.cpp\<close>: counters, gauges, histograms and summaries, the
  registry that owns them, and the text it exports. Values are \<open>real\<close>; \<open>rnd\<close> is the rounding of an operation on
  \<^verbatim>\<open>double\<close>, and \<open>fmt\<close> the text the stream writes for a \<^verbatim>\<open>double\<close>. NaN is outside the model.
\<close>

section \<open>Counter and gauge\<close>

definition counter_inc :: "(real \<Rightarrow> real) \<Rightarrow> real \<Rightarrow> real \<Rightarrow> real" where
  "counter_inc rnd delta v = rnd (v + delta)"

definition gauge_inc :: "(real \<Rightarrow> real) \<Rightarrow> real \<Rightarrow> real \<Rightarrow> real" where
  "gauge_inc rnd delta v = rnd (v + delta)"

definition gauge_dec :: "(real \<Rightarrow> real) \<Rightarrow> real \<Rightarrow> real \<Rightarrow> real" where
  "gauge_dec rnd delta v = rnd (v - delta)"

definition gauge_set :: "real \<Rightarrow> real \<Rightarrow> real" where
  "gauge_set value v = value"

text \<open>The two comment lines in front of every metric.\<close>

definition metric_head :: "string \<Rightarrow> string \<Rightarrow> string \<Rightarrow> string" where
  "metric_head name help kind =
     ''# HELP '' @ name @ '' '' @ help @ [newline] @ ''# TYPE '' @ name @ '' '' @ kind @ [newline]"

definition counter_text :: "(real \<Rightarrow> string) \<Rightarrow> string \<Rightarrow> string \<Rightarrow> real \<Rightarrow> string" where
  "counter_text fmt name help v = metric_head name help ''counter'' @ name @ '' '' @ fmt v @ [newline]"

definition gauge_text :: "(real \<Rightarrow> string) \<Rightarrow> string \<Rightarrow> string \<Rightarrow> real \<Rightarrow> string" where
  "gauge_text fmt name help v = metric_head name help ''gauge'' @ name @ '' '' @ fmt v @ [newline]"

section \<open>Histogram\<close>

record histogram =
  h_buckets :: "real list"
  h_counts :: "64 word list"
  h_count :: "64 word"
  h_sum :: real

definition histogram_init :: "real list \<Rightarrow> histogram" where
  "histogram_init buckets = \<lparr>h_buckets = buckets, h_counts = replicate (length buckets) 0, h_count = 0, h_sum = 0\<rparr>"

definition histogram_observe :: "(real \<Rightarrow> real) \<Rightarrow> real \<Rightarrow> histogram \<Rightarrow> histogram" where
  "histogram_observe rnd v h =
     h\<lparr>h_counts := map2 (\<lambda>b n. if v \<le> b then n + 1 else n) (h_buckets h) (h_counts h),
       h_count := h_count h + 1, h_sum := rnd (h_sum h + v)\<rparr>"

definition histogram_get_count :: "(real \<Rightarrow> real) \<Rightarrow> histogram \<Rightarrow> real" where
  "histogram_get_count rnd h = rnd (real (unat (h_count h)))"

definition quote :: string where "quote = [CHR 0x22]"

definition histogram_text :: "(real \<Rightarrow> real) \<Rightarrow> (real \<Rightarrow> string) \<Rightarrow> string \<Rightarrow> string \<Rightarrow> histogram \<Rightarrow> string" where
  "histogram_text rnd fmt name help h =
     metric_head name help ''histogram'' @
     name @ ''_sum '' @ fmt (h_sum h) @ [newline] @
     name @ ''_count '' @ fmt (histogram_get_count rnd h) @ [newline] @
     concat (map2 (\<lambda>b n. name @ ''_bucket{le='' @ quote @ fmt b @ quote @ ''} '' @ dec (unat n) @ [newline])
       (h_buckets h) (h_counts h)) @
     name @ ''_bucket{le='' @ quote @ ''+Inf'' @ quote @ ''} '' @ fmt (histogram_get_count rnd h) @ [newline]"

section \<open>Summary\<close>

record summary =
  s_quantiles :: "real list"
  s_values :: "real list"

definition summary_init :: "real list \<Rightarrow> summary" where
  "summary_init quantiles = \<lparr>s_quantiles = quantiles, s_values = []\<rparr>"

definition summary_observe :: "real \<Rightarrow> summary \<Rightarrow> summary" where
  "summary_observe v s =
     (let vs = s_values s @ [v] in s\<lparr>s_values := (if 1000 < length vs then tl vs else vs)\<rparr>)"

definition set_quantiles :: "real list \<Rightarrow> summary \<Rightarrow> summary" where
  "set_quantiles qs s = s\<lparr>s_quantiles := qs\<rparr>"

text \<open>
  The cast of \<^verbatim>\<open>q * size\<close> to \<^verbatim>\<open>size_t\<close>, cut to the last element. The cast is undefined when the product is too
  negative or too large.
\<close>

definition quantile_index :: "(real \<Rightarrow> real) \<Rightarrow> real \<Rightarrow> nat \<Rightarrow> cpp_error + nat" where
  "quantile_index rnd q n =
     (let x = rnd (q * real n)
      in if x \<le> - 1 \<or> 2 ^ 64 \<le> x then Inl InvalidCast
         else let i = nat \<lfloor>x\<rfloor> in Inr (if n \<le> i then n - 1 else i))"

fun quantile_values :: "(real \<Rightarrow> real) \<Rightarrow> real list \<Rightarrow> real list \<Rightarrow> cpp_error + real list" where
  "quantile_values rnd vs [] = Inr []"
| "quantile_values rnd vs (q # qs) =
     (case quantile_index rnd q (length vs) of
        Inl e \<Rightarrow> Inl e
      | Inr i \<Rightarrow> (case quantile_values rnd vs qs of Inl e \<Rightarrow> Inl e | Inr rs \<Rightarrow> Inr (vs ! i # rs)))"

definition get_quantiles :: "(real \<Rightarrow> real) \<Rightarrow> summary \<Rightarrow> cpp_error + real list" where
  "get_quantiles rnd s =
     (if s_values s = [] then Inr (replicate (length (s_quantiles s)) 0)
      else quantile_values rnd (sort (s_values s)) (s_quantiles s))"

definition summary_get_sum :: "(real \<Rightarrow> real) \<Rightarrow> summary \<Rightarrow> real" where
  "summary_get_sum rnd s = foldl (\<lambda>a v. rnd (a + v)) 0 (s_values s)"

text \<open>
  The lines of the quantiles. The results \<open>qs\<close> were computed under the mutex; the loop then walks \<^verbatim>\<open>quantiles_\<close>
  without it.
\<close>

definition quantile_lines :: "(real \<Rightarrow> string) \<Rightarrow> string \<Rightarrow> real list \<Rightarrow> real list \<Rightarrow> cpp_error + string" where
  "quantile_lines fmt name quantiles qs =
     (if length qs < length quantiles then Inl OutOfBounds
      else Inr (concat (map2 (\<lambda>q r. name @ ''{quantile='' @ quote @ fmt q @ quote @ ''} '' @ fmt r @ [newline]) quantiles qs)))"

text \<open>\<open>late\<close> are the quantiles that the loop finds; they differ from those of \<open>s\<close> only if another thread has set them.\<close>

definition summary_text ::
    "(real \<Rightarrow> real) \<Rightarrow> (real \<Rightarrow> string) \<Rightarrow> string \<Rightarrow> string \<Rightarrow> summary \<Rightarrow> real list \<Rightarrow> cpp_error + string" where
  "summary_text rnd fmt name help s late =
     (case (case get_quantiles rnd s of Inl e \<Rightarrow> Inl e | Inr qs \<Rightarrow> quantile_lines fmt name late qs) of
        Inl e \<Rightarrow> Inl e
      | Inr ls \<Rightarrow> Inr (metric_head name help ''summary'' @
          name @ ''_sum '' @ fmt (summary_get_sum rnd s) @ [newline] @
          name @ ''_count '' @ dec (length (s_values s)) @ [newline] @ ls))"

section \<open>The registry\<close>

record metric_info =
  mi_help :: string
  mi_type :: string

record metric_registry =
  r_counters :: "string \<rightharpoonup> real"
  r_gauges :: "string \<rightharpoonup> real"
  r_histograms :: "string \<rightharpoonup> histogram"
  r_summaries :: "string \<rightharpoonup> summary"
  r_infos :: "string \<rightharpoonup> metric_info"

definition metric_registry_init :: metric_registry where
  "metric_registry_init = \<lparr>r_counters = Map.empty, r_gauges = Map.empty, r_histograms = Map.empty, r_summaries = Map.empty,
     r_infos = Map.empty\<rparr>"

definition register_counter :: "string \<Rightarrow> string \<Rightarrow> metric_registry \<Rightarrow> metric_registry" where
  "register_counter name help r =
     (if r_counters r name \<noteq> None then r
      else r\<lparr>r_infos := (r_infos r)(name \<mapsto> \<lparr>mi_help = help, mi_type = ''counter''\<rparr>),
             r_counters := (r_counters r)(name \<mapsto> 0)\<rparr>)"

definition register_gauge :: "string \<Rightarrow> string \<Rightarrow> metric_registry \<Rightarrow> metric_registry" where
  "register_gauge name help r =
     (if r_gauges r name \<noteq> None then r
      else r\<lparr>r_infos := (r_infos r)(name \<mapsto> \<lparr>mi_help = help, mi_type = ''gauge''\<rparr>),
             r_gauges := (r_gauges r)(name \<mapsto> 0)\<rparr>)"

definition register_histogram :: "string \<Rightarrow> real list \<Rightarrow> string \<Rightarrow> metric_registry \<Rightarrow> metric_registry" where
  "register_histogram name buckets help r =
     (if r_histograms r name \<noteq> None then r
      else r\<lparr>r_infos := (r_infos r)(name \<mapsto> \<lparr>mi_help = help, mi_type = ''histogram''\<rparr>),
             r_histograms := (r_histograms r)(name \<mapsto> histogram_init buckets)\<rparr>)"

definition register_summary :: "string \<Rightarrow> real list \<Rightarrow> string \<Rightarrow> metric_registry \<Rightarrow> metric_registry" where
  "register_summary name quantiles help r =
     (if r_summaries r name \<noteq> None then r
      else r\<lparr>r_infos := (r_infos r)(name \<mapsto> \<lparr>mi_help = help, mi_type = ''summary''\<rparr>),
             r_summaries := (r_summaries r)(name \<mapsto> summary_init quantiles)\<rparr>)"

definition reset_registry :: "metric_registry \<Rightarrow> metric_registry" where
  "reset_registry r = r\<lparr>r_counters := Map.empty, r_gauges := Map.empty, r_histograms := Map.empty,
     r_summaries := Map.empty, r_infos := Map.empty\<rparr>"

text \<open>One of the four loops: \<^verbatim>\<open>std::map\<close> is walked in the order of the names; \<^verbatim>\<open>at\<close> throws for a missing name.\<close>

fun export_each :: "(string \<rightharpoonup> metric_info) \<Rightarrow> (string \<Rightarrow> string \<Rightarrow> cpp_error + string) \<Rightarrow> string list \<Rightarrow> cpp_error + string" where
  "export_each infos text [] = Inr []"
| "export_each infos text (name # names) =
     (case infos name of
        None \<Rightarrow> Inl OutOfRange
      | Some i \<Rightarrow>
          (case text name (mi_help i) of
             Inl e \<Rightarrow> Inl e
           | Inr t \<Rightarrow> (case export_each infos text names of Inl e \<Rightarrow> Inl e | Inr ts \<Rightarrow> Inr (t @ ts))))"

definition bind_text :: "cpp_error + string \<Rightarrow> cpp_error + string \<Rightarrow> cpp_error + string" where
  "bind_text a b = (case a of Inl e \<Rightarrow> Inl e | Inr t \<Rightarrow> (case b of Inl e \<Rightarrow> Inl e | Inr u \<Rightarrow> Inr (t @ u)))"

definition to_prometheus :: "(real \<Rightarrow> real) \<Rightarrow> (real \<Rightarrow> string) \<Rightarrow> metric_registry \<Rightarrow> cpp_error + string" where
  "to_prometheus rnd fmt r =
     bind_text (export_each (r_infos r) (\<lambda>n h. Inr (counter_text fmt n h (the (r_counters r n))))
         (sorted_list_of_set (dom (r_counters r))))
      (bind_text (export_each (r_infos r) (\<lambda>n h. Inr (gauge_text fmt n h (the (r_gauges r n))))
           (sorted_list_of_set (dom (r_gauges r))))
        (bind_text (export_each (r_infos r) (\<lambda>n h. Inr (histogram_text rnd fmt n h (the (r_histograms r n))))
             (sorted_list_of_set (dom (r_histograms r))))
          (export_each (r_infos r)
             (\<lambda>n h. summary_text rnd fmt n h (the (r_summaries r n)) (s_quantiles (the (r_summaries r n))))
             (sorted_list_of_set (dom (r_summaries r))))))"

section \<open>Operations through the references the registry hands out\<close>

text \<open>
  A reference stands for the metric that was registered under its name before the next \<^verbatim>\<open>reset\<close>, which destroys the
  metrics: it is the name and the number of resets at the time. The state is the number of resets so far and the
  registry; an update through a reference from before a reset uses an object that no longer exists.
\<close>

type_synonym metric_ref = "string \<times> nat"

datatype metric_op =
    RegCounter string string
  | RegGauge string string
  | RegHistogram string "real list" string
  | RegSummary string "real list" string
  | IncCounter metric_ref real
  | IncGauge metric_ref real
  | DecGauge metric_ref real
  | SetGauge metric_ref real
  | ObserveHistogram metric_ref real
  | ObserveSummary metric_ref real
  | SetQuantiles metric_ref "real list"
  | ResetRegistry

definition update_metric :: "nat \<Rightarrow> metric_ref \<Rightarrow> ('a \<Rightarrow> 'a) \<Rightarrow> (string \<rightharpoonup> 'a) \<Rightarrow> cpp_error + (string \<rightharpoonup> 'a)" where
  "update_metric epoch ref f m =
     (case m (fst ref) of
        None \<Rightarrow> Inl UseAfterFree
      | Some x \<Rightarrow> if snd ref = epoch then Inr (m(fst ref \<mapsto> f x)) else Inl UseAfterFree)"

definition update_counter :: "nat \<Rightarrow> metric_ref \<Rightarrow> (real \<Rightarrow> real) \<Rightarrow> metric_registry \<Rightarrow> cpp_error + metric_registry" where
  "update_counter epoch ref f r = map_sum id (\<lambda>m. r\<lparr>r_counters := m\<rparr>) (update_metric epoch ref f (r_counters r))"

definition update_gauge :: "nat \<Rightarrow> metric_ref \<Rightarrow> (real \<Rightarrow> real) \<Rightarrow> metric_registry \<Rightarrow> cpp_error + metric_registry" where
  "update_gauge epoch ref f r = map_sum id (\<lambda>m. r\<lparr>r_gauges := m\<rparr>) (update_metric epoch ref f (r_gauges r))"

definition update_histogram :: "nat \<Rightarrow> metric_ref \<Rightarrow> (histogram \<Rightarrow> histogram) \<Rightarrow> metric_registry \<Rightarrow> cpp_error + metric_registry" where
  "update_histogram epoch ref f r = map_sum id (\<lambda>m. r\<lparr>r_histograms := m\<rparr>) (update_metric epoch ref f (r_histograms r))"

definition update_summary :: "nat \<Rightarrow> metric_ref \<Rightarrow> (summary \<Rightarrow> summary) \<Rightarrow> metric_registry \<Rightarrow> cpp_error + metric_registry" where
  "update_summary epoch ref f r = map_sum id (\<lambda>m. r\<lparr>r_summaries := m\<rparr>) (update_metric epoch ref f (r_summaries r))"

definition metric_step :: "(real \<Rightarrow> real) \<Rightarrow> nat \<Rightarrow> metric_registry \<Rightarrow> metric_op \<Rightarrow> cpp_error + metric_registry" where
  "metric_step rnd epoch r op = (case op of
     RegCounter n h \<Rightarrow> Inr (register_counter n h r)
   | RegGauge n h \<Rightarrow> Inr (register_gauge n h r)
   | RegHistogram n bs h \<Rightarrow> Inr (register_histogram n bs h r)
   | RegSummary n qs h \<Rightarrow> Inr (register_summary n qs h r)
   | IncCounter ref d \<Rightarrow> update_counter epoch ref (counter_inc rnd d) r
   | IncGauge ref d \<Rightarrow> update_gauge epoch ref (gauge_inc rnd d) r
   | DecGauge ref d \<Rightarrow> update_gauge epoch ref (gauge_dec rnd d) r
   | SetGauge ref v \<Rightarrow> update_gauge epoch ref (gauge_set v) r
   | ObserveHistogram ref v \<Rightarrow> update_histogram epoch ref (histogram_observe rnd v) r
   | ObserveSummary ref v \<Rightarrow> update_summary epoch ref (summary_observe v) r
   | SetQuantiles ref qs \<Rightarrow> update_summary epoch ref (set_quantiles qs) r
   | ResetRegistry \<Rightarrow> Inr (reset_registry r))"

fun metric_run :: "(real \<Rightarrow> real) \<Rightarrow> nat \<Rightarrow> metric_registry \<Rightarrow> metric_op list \<Rightarrow> cpp_error + metric_registry" where
  "metric_run rnd epoch r [] = Inr r"
| "metric_run rnd epoch r (op # ops) =
     (case metric_step rnd epoch r op of
        Inl e \<Rightarrow> Inl e
      | Inr r' \<Rightarrow> metric_run rnd (if op = ResetRegistry then epoch + 1 else epoch) r' ops)"

text \<open>
  Callers that use the interface as meant: updates go through references obtained since the last reset, and
  quantiles lie between 0 and 1. \<open>live\<close> has the kinds and names registered since the last reset.
\<close>

datatype metric_kind = KCounter | KGauge | KHistogram | KSummary

definition unit_quantiles :: "real list \<Rightarrow> bool" where
  "unit_quantiles qs \<longleftrightarrow> list_all (\<lambda>q. 0 \<le> q \<and> q \<le> 1) qs"

text \<open>What an operation asks of its caller, and what is live after it.\<close>

fun metric_op_ok :: "(metric_kind \<times> string) set \<Rightarrow> nat \<Rightarrow> metric_op \<Rightarrow> bool" where
  "metric_op_ok live epoch (RegSummary n qs h) = unit_quantiles qs"
| "metric_op_ok live epoch (IncCounter ref d) = (snd ref = epoch \<and> (KCounter, fst ref) \<in> live)"
| "metric_op_ok live epoch (IncGauge ref d) = (snd ref = epoch \<and> (KGauge, fst ref) \<in> live)"
| "metric_op_ok live epoch (DecGauge ref d) = (snd ref = epoch \<and> (KGauge, fst ref) \<in> live)"
| "metric_op_ok live epoch (SetGauge ref v) = (snd ref = epoch \<and> (KGauge, fst ref) \<in> live)"
| "metric_op_ok live epoch (ObserveHistogram ref v) = (snd ref = epoch \<and> (KHistogram, fst ref) \<in> live)"
| "metric_op_ok live epoch (ObserveSummary ref v) = (snd ref = epoch \<and> (KSummary, fst ref) \<in> live)"
| "metric_op_ok live epoch (SetQuantiles ref qs) = (snd ref = epoch \<and> (KSummary, fst ref) \<in> live \<and> unit_quantiles qs)"
| "metric_op_ok live epoch _ = True"

fun live_after :: "metric_op \<Rightarrow> (metric_kind \<times> string) set \<Rightarrow> (metric_kind \<times> string) set" where
  "live_after (RegCounter n h) live = insert (KCounter, n) live"
| "live_after (RegGauge n h) live = insert (KGauge, n) live"
| "live_after (RegHistogram n bs h) live = insert (KHistogram, n) live"
| "live_after (RegSummary n qs h) live = insert (KSummary, n) live"
| "live_after ResetRegistry live = {}"
| "live_after _ live = live"

fun used_well :: "(metric_kind \<times> string) set \<Rightarrow> nat \<Rightarrow> metric_op list \<Rightarrow> bool" where
  "used_well live epoch [] = True"
| "used_well live epoch (op # ops) =
     (metric_op_ok live epoch op \<and> used_well (live_after op live) (if op = ResetRegistry then epoch + 1 else epoch) ops)"

section \<open>Histograms and summaries count what they should\<close>

definition observed :: "(real \<Rightarrow> real) \<Rightarrow> real list \<Rightarrow> real list \<Rightarrow> histogram" where
  "observed rnd buckets vs = foldl (\<lambda>h v. histogram_observe rnd v h) (histogram_init buckets) vs"

lemma observed_snoc: "observed rnd buckets (vs @ [v]) = histogram_observe rnd v (observed rnd buckets vs)"
  by (simp add: observed_def)

lemma observed_shape: "h_buckets (observed rnd buckets vs) = buckets \<and> length (h_counts (observed rnd buckets vs)) = length buckets"
  by (induction vs rule: rev_induct) (auto simp: observed_snoc histogram_observe_def, auto simp: observed_def histogram_init_def)

lemma histogram_exact:
  "h_counts (observed rnd buckets vs) = map (\<lambda>b. of_nat (length (filter (\<lambda>v. v \<le> b) vs))) buckets \<and>
   h_count (observed rnd buckets vs) = of_nat (length vs) \<and>
   h_sum (observed rnd buckets vs) = foldl (\<lambda>a v. rnd (a + v)) 0 vs"
proof (induction vs rule: rev_induct)
  case Nil
  show ?case by (simp add: observed_def histogram_init_def map_replicate_const)
next
  case (snoc v vs)
  have "map2 (\<lambda>b n. if v \<le> b then n + 1 else n) buckets (map f buckets) = map (\<lambda>b. if v \<le> b then f b + 1 else f b) buckets"
    for f :: "real \<Rightarrow> 64 word" by (induction buckets) auto
  then show ?case using snoc observed_shape [of rnd buckets vs] by (auto simp: observed_snoc histogram_observe_def)
qed

text \<open>With sorted bounds the counts do not decrease from bucket to bucket, and none exceeds the total.\<close>

lemma histogram_cumulative:
  assumes "sorted buckets" and "i \<le> j" and "j < length buckets" and "length vs < 2 ^ 64"
  shows "unat (h_counts (observed rnd buckets vs) ! i) \<le> unat (h_counts (observed rnd buckets vs) ! j) \<and>
    unat (h_counts (observed rnd buckets vs) ! j) \<le> unat (h_count (observed rnd buckets vs))"
proof -
  have b: "buckets ! i \<le> buckets ! j" using assms(1-3) by (simp add: sorted_nth_mono)
  have n: "unat (of_nat (length (filter P vs)) :: 64 word) = length (filter P vs)" for P
    using assms(4) by (intro unat_of_nat64) (simp add: le_less_trans [OF length_filter_le])
  have l: "unat (of_nat (length vs) :: 64 word) = length vs" using assms(4) by (intro unat_of_nat64) simp
  have "length (filter (\<lambda>v. v \<le> buckets ! i) vs) \<le> length (filter (\<lambda>v. v \<le> buckets ! j) vs)"
    using b by (induction vs) auto
  then show ?thesis using assms(2,3) histogram_exact [of rnd buckets vs] by (simp add: n l)
qed

text \<open>A summary keeps the last 1000 values, and every quantile is one of them, of the rank asked for.\<close>

lemma summary_window:
  "s_values (foldl (\<lambda>s v. summary_observe v s) (summary_init qs) vs) = drop (length vs - 1000) vs"
proof (induction vs rule: rev_induct)
  case (snoc v vs)
  show ?case
  proof (cases "1000 \<le> length vs")
    case True
    let ?k = "length vs - 1000"
    have "drop ?k vs \<noteq> []" using True by auto
    then have "tl (drop ?k vs @ [v]) = drop (Suc ?k) vs @ [v]" by (simp add: drop_Suc tl_drop)
    moreover have "Suc (length vs) - 1000 = Suc ?k" using True by (simp add: Suc_diff_le)
    ultimately show ?thesis using snoc True by (simp add: summary_observe_def Let_def)
  qed (use snoc in \<open>simp add: summary_observe_def Let_def\<close>)
qed (simp add: summary_init_def)

lemma quantile_values_nth:
  assumes "quantile_values rnd vs qs = Inr rs"
  shows "length rs = length qs" and "i < length qs \<Longrightarrow> \<exists>k. quantile_index rnd (qs ! i) (length vs) = Inr k \<and> rs ! i = vs ! k"
proof -
  have "length rs = length qs \<and> (\<forall>i<length qs. \<exists>k. quantile_index rnd (qs ! i) (length vs) = Inr k \<and> rs ! i = vs ! k)"
    using assms
  proof (induction qs arbitrary: rs)
    case (Cons q qs)
    then obtain k rs' where "quantile_index rnd q (length vs) = Inr k" "quantile_values rnd vs qs = Inr rs'" "rs = vs ! k # rs'"
      by (auto split: sum.splits)
    then show ?case using Cons.IH [of rs'] by (auto simp: nth_Cons split: nat.split)
  qed simp
  then show "length rs = length qs" "i < length qs \<Longrightarrow> \<exists>k. quantile_index rnd (qs ! i) (length vs) = Inr k \<and> rs ! i = vs ! k" by auto
qed

lemma quantile_ranked:
  assumes "s_values s \<noteq> []" and "i < length (s_quantiles s)" and "get_quantiles rnd s = Inr rs"
  shows "\<exists>k. quantile_index rnd (s_quantiles s ! i) (length (s_values s)) = Inr k \<and> rs ! i \<in> set (s_values s) \<and>
    length (filter (\<lambda>v. v < rs ! i) (s_values s)) \<le> k \<and> k < length (filter (\<lambda>v. v \<le> rs ! i) (s_values s))"
proof -
  let ?s = "sort (s_values s)"
  obtain k where i: "quantile_index rnd (s_quantiles s ! i) (length (s_values s)) = Inr k" and q: "rs ! i = ?s ! k"
    using quantile_values_nth(2) [of rnd ?s "s_quantiles s" rs i] assms by (auto simp: get_quantiles_def)
  have k: "k < length ?s" using i assms(1) by (auto simp: quantile_index_def Let_def split: if_splits)
  have f: "length (filter P (s_values s)) = length (filter P ?s)" for P by (metis mset_filter mset_sort size_mset)
  have "filter (\<lambda>v. v < ?s ! k) (drop k ?s) = []"
  proof -
    have "?s ! k \<le> v" if "v \<in> set (drop k ?s)" for v
      using that k sorted_nth_mono [OF sorted_sort, of k _ "s_values s"] by (auto simp: in_set_conv_nth)
    then show ?thesis by (auto simp: filter_empty_conv not_less)
  qed
  then have 1: "length (filter (\<lambda>v. v < ?s ! k) ?s) \<le> k"
    using filter_append [of "\<lambda>v. v < ?s ! k" "take k ?s" "drop k ?s"] length_filter_le [of "\<lambda>v. v < ?s ! k" "take k ?s"] k
    by simp
  have "v \<le> ?s ! k" if "v \<in> set (take (Suc k) ?s)" for v
    using that k sorted_nth_mono [OF sorted_sort, of _ k "s_values s"] by (auto simp: in_set_conv_nth)
  then have "filter (\<lambda>v. v \<le> ?s ! k) (take (Suc k) ?s) = take (Suc k) ?s" by (simp add: filter_id_conv)
  then have "Suc k \<le> length (filter (\<lambda>v. v \<le> ?s ! k) ?s)"
    using filter_append [of "\<lambda>v. v \<le> ?s ! k" "take (Suc k) ?s" "drop (Suc k) ?s"] k by simp
  moreover have "?s ! k \<in> set (s_values s)" using k by (metis nth_mem set_sort)
  ultimately show ?thesis using 1 i by (simp add: q f)
qed

section \<open>The export never fails\<close>

definition registry_inv :: "metric_registry \<Rightarrow> bool" where
  "registry_inv r \<longleftrightarrow> finite (dom (r_infos r)) \<and> dom (r_counters r) \<subseteq> dom (r_infos r) \<and> dom (r_gauges r) \<subseteq> dom (r_infos r) \<and>
     dom (r_histograms r) \<subseteq> dom (r_infos r) \<and> dom (r_summaries r) \<subseteq> dom (r_infos r) \<and>
     (\<forall>n h. r_histograms r n = Some h \<longrightarrow> length (h_counts h) = length (h_buckets h)) \<and>
     (\<forall>n s. r_summaries r n = Some s \<longrightarrow> length (s_values s) \<le> 1000 \<and> unit_quantiles (s_quantiles s))"

text \<open>The references that are live lead to metrics.\<close>

definition live_ok :: "(metric_kind \<times> string) set \<Rightarrow> metric_registry \<Rightarrow> bool" where
  "live_ok live r \<longleftrightarrow> (\<forall>n. ((KCounter, n) \<in> live \<longrightarrow> r_counters r n \<noteq> None) \<and> ((KGauge, n) \<in> live \<longrightarrow> r_gauges r n \<noteq> None) \<and>
     ((KHistogram, n) \<in> live \<longrightarrow> r_histograms r n \<noteq> None) \<and> ((KSummary, n) \<in> live \<longrightarrow> r_summaries r n \<noteq> None))"

lemma metric_shapes:
  "length (h_counts (histogram_init bs)) = length (h_buckets (histogram_init bs))" "length (s_values (summary_init qs)) \<le> 1000"
  "s_quantiles (summary_init qs) = qs" "s_quantiles (summary_observe v s) = s_quantiles s"
  "s_quantiles (set_quantiles qs s) = qs" "s_values (set_quantiles qs s) = s_values s"
  "length (h_counts h) = length (h_buckets h) \<Longrightarrow>
     length (h_counts (histogram_observe rnd v h)) = length (h_buckets (histogram_observe rnd v h))"
  "length (s_values s) \<le> 1000 \<Longrightarrow> length (s_values (summary_observe v s)) \<le> 1000"
  by (auto simp: histogram_init_def summary_init_def histogram_observe_def summary_observe_def set_quantiles_def Let_def)

lemmas update_defs = update_counter_def update_gauge_def update_histogram_def update_summary_def update_metric_def
  register_counter_def register_gauge_def register_histogram_def register_summary_def reset_registry_def

lemma metric_step_well:
  assumes "metric_op_ok live epoch op" and "live_ok live r" and "registry_inv r"
  shows "\<exists>r'. metric_step rnd epoch r op = Inr r' \<and> live_ok (live_after op live) r' \<and> registry_inv r'"
  using assms
  by (cases op) (auto simp: metric_step_def update_defs live_ok_def registry_inv_def metric_shapes split: option.split,
    (metis domD domI subsetD)+)

lemma metric_run_well:
  "used_well live epoch ops \<Longrightarrow> live_ok live r \<Longrightarrow> registry_inv r \<Longrightarrow>
     \<exists>r'. metric_run rnd epoch r ops = Inr r' \<and> registry_inv r'"
proof (induction ops arbitrary: live epoch r)
  case (Cons op ops)
  obtain r1 where "metric_step rnd epoch r op = Inr r1" "live_ok (live_after op live) r1" "registry_inv r1"
    using metric_step_well [of live epoch op r rnd] Cons.prems by auto
  then show ?case using Cons.IH [of "live_after op live" "if op = ResetRegistry then epoch + 1 else epoch" r1] Cons.prems(1) by simp
qed simp

lemma export_each_total:
  assumes "set names \<subseteq> dom infos" and "\<And>n h. n \<in> set names \<Longrightarrow> \<exists>t. text n h = Inr t"
  shows "\<exists>t. export_each infos text names = Inr t"
  using assms
proof (induction names)
  case (Cons n ns)
  then obtain i t ts where "infos n = Some i" "text n (mi_help i) = Inr t" "export_each infos text ns = Inr ts" by fastforce
  then show ?case by simp
qed simp

text \<open>What is needed of the rounding: it is monotone, and exact at 0 and at 1000.\<close>

definition rounds_counts :: "(real \<Rightarrow> real) \<Rightarrow> bool" where
  "rounds_counts rnd \<longleftrightarrow> mono rnd \<and> rnd 0 = 0 \<and> rnd 1000 = 1000"

lemma quantile_index_ok:
  assumes "rounds_counts rnd" and "0 \<le> q" "q \<le> 1" and "n \<le> 1000"
  shows "\<exists>k. quantile_index rnd q n = Inr k"
proof -
  have m: "mono rnd" "rnd 0 = 0" "rnd 1000 = 1000" using assms(1) by (simp_all add: rounds_counts_def)
  have "0 \<le> q * real n" using assms(2) by simp
  from monoD [OF m(1) this] have "0 \<le> rnd (q * real n)" by (simp add: m(2))
  moreover have "q * real n \<le> 1 * 1000" using assms(2-4) by (intro mult_mono) simp_all
  then have "q * real n \<le> 1000" by simp
  from monoD [OF m(1) this] have "rnd (q * real n) \<le> 1000" by (simp add: m(3))
  ultimately show ?thesis by (simp add: quantile_index_def Let_def)
qed

lemma summary_text_alone:
  assumes "rounds_counts rnd" and "length (s_values s) \<le> 1000" and "unit_quantiles (s_quantiles s)"
  shows "\<exists>t. summary_text rnd fmt n h s (s_quantiles s) = Inr t"
proof -
  have "\<exists>rs. quantile_values rnd (sort (s_values s)) qs = Inr rs" if "unit_quantiles qs" for qs
    using that
  proof (induction qs)
    case (Cons q qs)
    then show ?case using quantile_index_ok [OF assms(1) _ _ assms(2), of q] by (auto simp: unit_quantiles_def)
  qed simp
  then obtain rs where r: "quantile_values rnd (sort (s_values s)) (s_quantiles s) = Inr rs" using assms(3) by blast
  then have "\<exists>rs. get_quantiles rnd s = Inr rs \<and> length rs = length (s_quantiles s)"
    using quantile_values_nth(1) [OF r] by (simp add: get_quantiles_def)
  then show ?thesis by (auto simp: summary_text_def quantile_lines_def)
qed

lemma bind_text_total: "\<exists>t. a = Inr t \<Longrightarrow> \<exists>t. b = Inr t \<Longrightarrow> \<exists>t. bind_text a b = Inr t"
  by (auto simp: bind_text_def)

lemma export_total:
  assumes i: "registry_inv r" and "rounds_counts rnd"
  shows "\<exists>t. to_prometheus rnd fmt r = Inr t"
proof -
  have s: "set (sorted_list_of_set (dom m)) = dom m" if "dom m \<subseteq> dom (r_infos r)" for m :: "string \<rightharpoonup> 'b"
    using i finite_subset [OF that] by (simp add: registry_inv_def)
  show ?thesis unfolding to_prometheus_def
    by (intro bind_text_total export_each_total)
      (use i assms(2) in \<open>auto simp: registry_inv_def s intro!: summary_text_alone\<close>)
qed


text \<open>A summary that is read again after a reset, through a new reference, and whose quantiles are changed.\<close>

definition metric_calls :: "metric_op list" where
  "metric_calls = [RegSummary ''s'' [1 / 2] ''h'', ObserveSummary (''s'', 0) 3, ResetRegistry, RegSummary ''s'' [1 / 2] ''h'',
     ObserveSummary (''s'', 1) 4, SetQuantiles (''s'', 1) [0, 1]]"


text \<open>Registering a name again gives the metric that is there, with its value.\<close>

lemma register_counter_keeps:
  "r_counters r name = Some v \<Longrightarrow> register_counter name help r = r"
  by (simp add: register_counter_def)

section \<open>Divergences\<close>

text \<open>
  The four kinds share one map of descriptions: a gauge with the name of a counter replaces the counter's help text,
  and the export has two \<^verbatim>\<open># TYPE\<close> lines for one name.
\<close>

lemma shared_name_replaces_help:
  "to_prometheus rnd fmt (register_gauge ''x'' ''b'' (register_counter ''x'' ''a'' metric_registry_init)) =
     Inr (counter_text fmt ''x'' ''b'' 0 @ gauge_text fmt ''x'' ''b'' 0)"
  by (simp add: to_prometheus_def register_gauge_def register_counter_def metric_registry_init_def bind_text_def)

text \<open>
  An increment is a load and a store. Two threads that both load before either stores lose one increment.
\<close>

datatype counter_event = Load nat | Store nat real

fun counter_run :: "(real \<Rightarrow> real) \<Rightarrow> (nat \<Rightarrow> real) \<Rightarrow> real \<Rightarrow> counter_event list \<Rightarrow> real" where
  "counter_run rnd regs v [] = v"
| "counter_run rnd regs v (Load t # es) = counter_run rnd (regs(t := v)) v es"
| "counter_run rnd regs v (Store t delta # es) = counter_run rnd regs (counter_inc rnd delta (regs t)) es"

lemma counter_loses_increment:
  "counter_run (\<lambda>x. x) regs 0 [Load 0, Load 1, Store 0 1, Store 1 1] = 1"
  by (simp add: counter_inc_def)

text \<open>A negative increment makes a counter decrease.\<close>

lemma counter_decreases: "counter_inc (\<lambda>x. x) (-1) 5 = 4"
  by (simp add: counter_inc_def)

text \<open>More quantiles set between the computation and the loop make the loop read past the results.\<close>

lemma late_quantiles_out_of_bounds:
  assumes "get_quantiles rnd s = Inr rs" and "length rs < length late"
  shows "summary_text rnd fmt n h s late = Inl OutOfBounds"
  using assms by (simp add: summary_text_def quantile_lines_def)

text \<open>A reference from before a reset dangles.\<close>

lemma stale_reference_dangles:
  "metric_run rnd 0 metric_registry_init [RegCounter n h, ResetRegistry, RegCounter n h, IncCounter (n, 0) d] = Inl UseAfterFree"
  by (simp add: metric_step_def update_defs metric_registry_init_def)

text \<open>A negative quantile makes the cast undefined.\<close>

lemma negative_quantile_undefined: "quantile_index (\<lambda>x. x) (- 1) 5 = Inl InvalidCast"
  by (simp add: quantile_index_def)

text \<open>The count of a summary is that of its window: it stays at 1000, and a monitor sees no further events.\<close>

lemma summary_count_saturates:
  assumes "1000 \<le> length vs"
  shows "length (s_values (foldl (\<lambda>s v. summary_observe v s) (summary_init qs) vs)) = 1000"
  using assms by (simp add: summary_window)

end
