(* ===== verification/Benchmark.thy ===== *)
theory Benchmark
  imports Metrics Protocol
begin

text \<open>
  \<^verbatim>\<open>benchmark/benchmark.cpp\<close>: the suite with its statistics and reports, and the benchmarks of memory and protocol. A measured
  function is its effect on a state; \<open>clock k\<close> is the pair of readings (nanoseconds) around the \<open>k\<close>-th measured call. \<open>rnd\<close> rounds
  to \<^verbatim>\<open>double\<close>; a quotient by zero is an infinity or NaN of that type, which \<open>dnum\<close> keeps apart.
\<close>

section \<open>Statistics\<close>

datatype dnum = Fin real | Infinite | NotANumber

record bench_config =
  warmup_iterations :: nat
  measurement_iterations :: nat
  skip_warmup :: bool

definition default_bench_config :: bench_config where
  "default_bench_config = \<lparr>warmup_iterations = 1000, measurement_iterations = 10000, skip_warmup = False\<rparr>"

record bench_result =
  br_name :: string
  br_description :: string
  br_iterations :: nat
  br_avg_time_ms :: real
  br_min_time_ms :: real
  br_max_time_ms :: real
  br_ops :: dnum
  br_ops_min :: dnum
  br_ops_max :: dnum
  br_ops_stddev :: dnum

definition calculate_avg :: "(real \<Rightarrow> real) \<Rightarrow> real list \<Rightarrow> real" where
  "calculate_avg rnd vs = (if vs = [] then 0 else rnd (foldl (\<lambda>a v. rnd (a + v)) 0 vs / real (length vs)))"

definition calculate_min :: "real list \<Rightarrow> real" where
  "calculate_min vs = (if vs = [] then 0 else foldl min (hd vs) (tl vs))"

definition calculate_max :: "real list \<Rightarrow> real" where
  "calculate_max vs = (if vs = [] then 0 else foldl max (hd vs) (tl vs))"

definition calculate_stddev :: "(real \<Rightarrow> real) \<Rightarrow> real list \<Rightarrow> real \<Rightarrow> real" where
  "calculate_stddev rnd vs avg =
     (if vs = [] then 0
      else rnd (sqrt (rnd (foldl (\<lambda>a v. let diff = rnd (v - avg) in rnd (a + rnd (diff * diff))) 0 vs / real (length vs)))))"

definition per_second :: "(real \<Rightarrow> real) \<Rightarrow> real \<Rightarrow> dnum" where
  "per_second rnd t = (if t = 0 then Infinite else Fin (rnd (1000 / t)))"

text \<open>\<^verbatim>\<open>stddev * ops_per_second / avg_time_ms\<close>; a zero average has made the second factor infinite.\<close>

definition scaled_stddev :: "(real \<Rightarrow> real) \<Rightarrow> real \<Rightarrow> dnum \<Rightarrow> real \<Rightarrow> dnum" where
  "scaled_stddev rnd stddev ops avg = (case ops of
     Fin x \<Rightarrow> Fin (rnd (rnd (stddev * x) / avg))
   | Infinite \<Rightarrow> if stddev = 0 then NotANumber else Infinite
   | NotANumber \<Rightarrow> NotANumber)"

section \<open>Running\<close>

record 's bench_descriptor =
  bd_name :: string
  bd_description :: string
  bd_func :: "'s \<Rightarrow> 's"

record 's suite =
  su_name :: string
  su_results :: "bench_result list"
  su_benchmarks :: "'s bench_descriptor list"

definition add_benchmark :: "string \<Rightarrow> string \<Rightarrow> ('s \<Rightarrow> 's) \<Rightarrow> 's suite \<Rightarrow> 's suite" where
  "add_benchmark name description func su =
     su\<lparr>su_benchmarks := su_benchmarks su @ [\<lparr>bd_name = name, bd_description = description, bd_func = func\<rparr>]\<rparr>"

fun bench_warmup :: "('s \<Rightarrow> 's) \<Rightarrow> nat \<Rightarrow> 's \<Rightarrow> 's" where
  "bench_warmup func 0 s = s"
| "bench_warmup func (Suc n) s = bench_warmup func n (func s)"

fun bench_measure :: "(real \<Rightarrow> real) \<Rightarrow> (nat \<Rightarrow> int \<times> int) \<Rightarrow> ('s \<Rightarrow> 's) \<Rightarrow> nat \<Rightarrow> nat \<Rightarrow> 's \<Rightarrow> real list \<times> 's" where
  "bench_measure rnd clock func k 0 s = ([], s)"
| "bench_measure rnd clock func k (Suc n) s =
     (let (start, end_time) = clock k; (times, s') = bench_measure rnd clock func (k + 1) n (func s)
      in (rnd (rnd (of_int (end_time - start)) / 1000000) # times, s'))"

definition run_single_benchmark :: "(real \<Rightarrow> real) \<Rightarrow> (nat \<Rightarrow> int \<times> int) \<Rightarrow> 's bench_descriptor \<Rightarrow> bench_config \<Rightarrow> 's \<Rightarrow> bench_result \<times> 's" where
  "run_single_benchmark rnd clock desc config s =
     (let s1 = (if \<not> skip_warmup config \<and> 0 < warmup_iterations config
                then bench_warmup (bd_func desc) (warmup_iterations config) s else s);
          (times, s2) = bench_measure rnd clock (bd_func desc) 0 (measurement_iterations config) s1;
          avg = calculate_avg rnd times;
          ops = per_second rnd avg
      in (\<lparr>br_name = bd_name desc, br_description = bd_description desc, br_iterations = measurement_iterations config,
           br_avg_time_ms = avg, br_min_time_ms = calculate_min times, br_max_time_ms = calculate_max times,
           br_ops = ops, br_ops_min = per_second rnd (calculate_max times), br_ops_max = per_second rnd (calculate_min times),
           br_ops_stddev = scaled_stddev rnd (calculate_stddev rnd times avg) ops avg\<rparr>, s2))"

text \<open>\<open>clocks j\<close> are the readings during the \<open>j\<close>-th benchmark of the suite.\<close>

fun run_benchmarks :: "(real \<Rightarrow> real) \<Rightarrow> (nat \<Rightarrow> nat \<Rightarrow> int \<times> int) \<Rightarrow> bench_config \<Rightarrow> nat \<Rightarrow> 's bench_descriptor list \<Rightarrow> 's \<Rightarrow> bench_result list \<times> 's" where
  "run_benchmarks rnd clocks config j [] s = ([], s)"
| "run_benchmarks rnd clocks config j (desc # descs) s =
     (let (r, s1) = run_single_benchmark rnd (clocks j) desc config s;
          (rs, s2) = run_benchmarks rnd clocks config (j + 1) descs s1
      in (r # rs, s2))"

definition run_suite :: "(real \<Rightarrow> real) \<Rightarrow> (nat \<Rightarrow> nat \<Rightarrow> int \<times> int) \<Rightarrow> bench_config \<Rightarrow> 's suite \<Rightarrow> 's \<Rightarrow> bench_result list \<times> 's suite \<times> 's" where
  "run_suite rnd clocks config su s =
     (let (rs, s') = run_benchmarks rnd clocks config 0 (su_benchmarks su) s in (rs, su\<lparr>su_results := rs\<rparr>, s'))"

text \<open>For an unknown name only three fields of the result are set; \<open>garbage\<close> is what the others hold.\<close>

definition run_benchmark :: "(real \<Rightarrow> real) \<Rightarrow> (nat \<Rightarrow> int \<times> int) \<Rightarrow> bench_result \<Rightarrow> string \<Rightarrow> bench_config \<Rightarrow> 's suite \<Rightarrow> 's \<Rightarrow>
    bench_result \<times> 's suite \<times> 's" where
  "run_benchmark rnd clock garbage name config su s =
     (case List.find (\<lambda>desc. bd_name desc = name) (su_benchmarks su) of
        Some desc \<Rightarrow> (let (r, s') = run_single_benchmark rnd clock desc config s
                     in (r, su\<lparr>su_results := su_results su @ [r]\<rparr>, s'))
      | None \<Rightarrow> (garbage\<lparr>br_name := name, br_description := [], br_iterations := 0\<rparr>, su, s))"

section \<open>Reports\<close>

definition csv_row :: "(dnum \<Rightarrow> string) \<Rightarrow> bench_result \<Rightarrow> string" where
  "csv_row fmt r = br_name r @ '','' @ quote @ br_description r @ quote @ '','' @ dec (br_iterations r) @ '','' @
     fmt (Fin (br_avg_time_ms r)) @ '','' @ fmt (Fin (br_min_time_ms r)) @ '','' @ fmt (Fin (br_max_time_ms r)) @ '','' @
     fmt (br_ops r) @ '','' @ fmt (br_ops_min r) @ '','' @ fmt (br_ops_max r) @ '','' @ fmt (br_ops_stddev r) @ [newline]"

definition export_csv :: "(dnum \<Rightarrow> string) \<Rightarrow> 's suite \<Rightarrow> string" where
  "export_csv fmt su =
     ''name,description,iterations,avg_time_ms,min_time_ms,max_time_ms,ops_per_second,ops_per_second_min,ops_per_second_max,ops_per_second_stddev'' @
     [newline] @ concat (map (csv_row fmt) (su_results su))"

definition json_key :: "string \<Rightarrow> string" where
  "json_key k = ''    '' @ quote @ k @ quote @ '': ''"

definition json_object :: "(dnum \<Rightarrow> string) \<Rightarrow> bench_result \<Rightarrow> string" where
  "json_object fmt r = ''  {'' @ [newline] @
     json_key ''name'' @ quote @ br_name r @ quote @ '','' @ [newline] @
     json_key ''description'' @ quote @ br_description r @ quote @ '','' @ [newline] @
     json_key ''iterations'' @ dec (br_iterations r) @ '','' @ [newline] @
     json_key ''avg_time_ms'' @ fmt (Fin (br_avg_time_ms r)) @ '','' @ [newline] @
     json_key ''min_time_ms'' @ fmt (Fin (br_min_time_ms r)) @ '','' @ [newline] @
     json_key ''max_time_ms'' @ fmt (Fin (br_max_time_ms r)) @ '','' @ [newline] @
     json_key ''ops_per_second'' @ fmt (br_ops r) @ '','' @ [newline] @
     json_key ''ops_per_second_min'' @ fmt (br_ops_min r) @ '','' @ [newline] @
     json_key ''ops_per_second_max'' @ fmt (br_ops_max r) @ '','' @ [newline] @
     json_key ''ops_per_second_stddev'' @ fmt (br_ops_stddev r) @ [newline]"

fun json_objects :: "(dnum \<Rightarrow> string) \<Rightarrow> bench_result list \<Rightarrow> string" where
  "json_objects fmt [] = []"
| "json_objects fmt [r] = json_object fmt r @ ''  }'' @ [newline]"
| "json_objects fmt (r # r' # rs) = json_object fmt r @ ''  },'' @ [newline] @ json_objects fmt (r' # rs)"

definition export_json :: "(dnum \<Rightarrow> string) \<Rightarrow> 's suite \<Rightarrow> string" where
  "export_json fmt su = ''['' @ [newline] @ json_objects fmt (su_results su) @ '']'' @ [newline]"

text \<open>The printed report, with the texts of a number at four and at two digits.\<close>

definition print_result :: "(dnum \<Rightarrow> string) \<Rightarrow> (dnum \<Rightarrow> string) \<Rightarrow> bench_result \<Rightarrow> string" where
  "print_result fmt4 fmt2 r = ''Benchmark: '' @ br_name r @ [newline] @
     (if br_description r \<noteq> [] then ''  Description: '' @ br_description r @ [newline] else []) @
     ''  Iterations: '' @ dec (br_iterations r) @ [newline] @
     ''  Avg Time: '' @ fmt4 (Fin (br_avg_time_ms r)) @ '' ms'' @ [newline] @
     ''  Min Time: '' @ fmt4 (Fin (br_min_time_ms r)) @ '' ms'' @ [newline] @
     ''  Max Time: '' @ fmt4 (Fin (br_max_time_ms r)) @ '' ms'' @ [newline] @
     ''  Ops/Sec: '' @ fmt2 (br_ops r) @ [newline] @
     ''  Ops/Sec (min): '' @ fmt2 (br_ops_min r) @ [newline] @
     ''  Ops/Sec (max): '' @ fmt2 (br_ops_max r) @ [newline] @
     ''  Ops/Sec (stddev): '' @ fmt2 (br_ops_stddev r) @ [newline] @ [newline]"

definition rule_line :: string where
  "rule_line = replicate 42 (CHR ''='') @ [newline]"

definition print_results :: "(dnum \<Rightarrow> string) \<Rightarrow> (dnum \<Rightarrow> string) \<Rightarrow> 's suite \<Rightarrow> string" where
  "print_results fmt4 fmt2 su = [newline] @ rule_line @ ''Benchmark Suite: '' @ su_name su @ [newline] @ rule_line @ [newline] @
     concat (map (print_result fmt4 fmt2) (su_results su)) @ rule_line @ [newline]"

section \<open>Benchmarks\<close>

text \<open>What the volatile variable holds at the end.\<close>

definition benchmark_vector_alloc :: "nat \<Rightarrow> nat \<Rightarrow> nat" where
  "benchmark_vector_alloc cap cnt =
     length (foldl (\<lambda>v i. let v' = v @ [of_nat i :: 32 word] in if cap \<le> length v' then [] else v') [] [0..<cnt])"

definition benchmark_map_insert :: "nat \<Rightarrow> nat" where
  "benchmark_map_insert cnt = card (dom (foldl (\<lambda>m i. m((of_nat i :: 32 word) \<mapsto> (of_nat i :: 32 word))) Map.empty [0..<cnt]))"

definition benchmark_string_concat :: "nat \<Rightarrow> nat" where
  "benchmark_string_concat len = length (foldl (\<lambda>s i. s @ [char_of (97 + i mod 26 :: nat)]) [] [0..<len])"

definition bench_body :: "nat \<Rightarrow> bytes" where
  "bench_body cap = replicate cap 120"

definition benchmark_message_serialize :: "nat \<Rightarrow> nat \<Rightarrow> bytes list" where
  "benchmark_message_serialize iterations body_size = map (\<lambda>_. serialize \<lparr>cmd = 1001, body = bench_body body_size\<rparr>) [0..<iterations]"

definition benchmark_message_deserialize :: "nat \<Rightarrow> nat \<Rightarrow> bool list" where
  "benchmark_message_deserialize iterations body_size =
     (let data = serialize \<lparr>cmd = 1001, body = bench_body body_size\<rparr>
      in map (\<lambda>_. fst (deserialize data \<lparr>cmd = 0, body = []\<rparr>)) [0..<iterations])"

definition benchmark_protocol_parser_parse :: "nat \<Rightarrow> nat \<Rightarrow> nat list" where
  "benchmark_protocol_parser_parse iterations body_size =
     (let buffer = concat (map (\<lambda>i. serialize \<lparr>cmd = of_nat (1000 + i), body = bench_body body_size\<rparr>) [0..<10])
      in map (\<lambda>_. length (fst (feed parser_init buffer))) [0..<iterations])"

section \<open>Correctness of the suite\<close>

lemma foldl_min_Min: "foldl min a vs = Min (insert a (set vs))" for a :: real
proof (induction vs arbitrary: a)
  case (Cons v vs)
  then show ?case by (cases "set vs = {}") (simp_all add: min.assoc)
qed simp

lemma foldl_max_Max: "foldl max a vs = Max (insert a (set vs))" for a :: real
proof (induction vs arbitrary: a)
  case (Cons v vs)
  then show ?case by (cases "set vs = {}") (simp_all add: max.assoc)
qed simp

lemma foldl_sum: "foldl (\<lambda>a v. a + v) a vs = a + sum_list vs" for a :: real
  by (induction vs arbitrary: a) simp_all

lemma min_max_member: "v \<in> set vs \<Longrightarrow> calculate_min vs \<le> v \<and> v \<le> calculate_max vs"
  by (cases vs) (auto simp: calculate_min_def calculate_max_def foldl_min_Min foldl_max_Max)

text \<open>With exact arithmetic the average lies between the smallest and the largest time.\<close>

lemma stats_ordered:
  "calculate_min vs \<le> calculate_avg (\<lambda>x. x) vs \<and> calculate_avg (\<lambda>x. x) vs \<le> calculate_max vs"
proof (cases "vs = []")
  case False
  have "real (length ws) * a \<le> sum_list ws" if "\<forall>v\<in>set ws. a \<le> v" for a :: real and ws
    using that by (induction ws) (auto simp: algebra_simps)
  moreover have "sum_list ws \<le> real (length ws) * b" if "\<forall>v\<in>set ws. v \<le> b" for b :: real and ws
    using that by (induction ws) (auto simp: algebra_simps)
  ultimately have "real (length vs) * calculate_min vs \<le> sum_list vs" "sum_list vs \<le> real (length vs) * calculate_max vs"
    using min_max_member by blast+
  then show ?thesis using False by (simp add: calculate_avg_def foldl_sum field_simps)
qed (simp add: calculate_min_def calculate_max_def calculate_avg_def)

lemma warmup_power: "bench_warmup f n s = (f ^^ n) s"
  by (induction n arbitrary: s) (simp_all add: funpow_swap1)

lemma measure_power: "snd (bench_measure rnd clock f k n s) = (f ^^ n) s \<and> length (fst (bench_measure rnd clock f k n s)) = n"
  by (induction n arbitrary: k s) (simp_all add: funpow_swap1 case_prod_beta Let_def)

text \<open>A run gives one result per benchmark in their order, and calls each function the configured number of times.\<close>

lemma single_calls:
  "snd (run_single_benchmark rnd clock desc config s) =
     (bd_func desc ^^ ((if skip_warmup config then 0 else warmup_iterations config) + measurement_iterations config)) s"
  by (simp add: run_single_benchmark_def case_prod_beta Let_def measure_power warmup_power funpow_add add.commute)

lemma run_results_named:
  "map br_name (fst (run_suite rnd clocks config su s)) = map bd_name (su_benchmarks su) \<and>
   su_results (fst (snd (run_suite rnd clocks config su s))) = fst (run_suite rnd clocks config su s)"
proof -
  have "map br_name (fst (run_benchmarks rnd clocks config j ds s)) = map bd_name ds" for j ds
    by (induction ds arbitrary: j s) (simp_all add: case_prod_beta Let_def run_single_benchmark_def)
  then show ?thesis by (simp add: run_suite_def case_prod_beta Let_def)
qed

text \<open>
  When the clock does not advance during the calls, or nothing is measured, the rate is infinite and its deviation not a
  number; the JSON report then holds texts that are no JSON.
\<close>

lemma no_time_no_rate:
  assumes "measurement_iterations config = 0"
  shows "br_ops (fst (run_single_benchmark rnd clock desc config s)) = Infinite \<and>
    br_ops_stddev (fst (run_single_benchmark rnd clock desc config s)) = NotANumber"
  using assms by (simp add: run_single_benchmark_def Let_def per_second_def scaled_stddev_def calculate_avg_def calculate_stddev_def)

lemma unknown_benchmark_garbage:
  assumes "\<forall>desc\<in>set (su_benchmarks su). bd_name desc \<noteq> name"
  shows "br_avg_time_ms (fst (run_benchmark rnd clock garbage name config su s)) = br_avg_time_ms garbage"
proof -
  have "List.find (\<lambda>desc. bd_name desc = name) (su_benchmarks su) = None" using assms by (simp add: find_None_iff)
  then show ?thesis by (simp add: run_benchmark_def)
qed

section \<open>Correctness of the benchmarks\<close>

lemma vector_alloc_size: "benchmark_vector_alloc cap cnt = (if cap = 0 then 0 else cnt mod cap)"
proof -
  let ?f = "\<lambda>v i. let v' = v @ [of_nat i :: 32 word] in if cap \<le> length v' then [] else v'"
  have "length (foldl ?f [] [0..<cnt]) = (if cap = 0 then 0 else cnt mod cap)"
  proof (induction cnt)
    case (Suc c)
    then show ?case by (cases "cap = 0") (auto simp: Let_def mod_Suc dest: mod_less_divisor [of cap c])
  qed simp
  then show ?thesis by (simp add: benchmark_vector_alloc_def)
qed

lemma string_concat_length: "benchmark_string_concat len = len"
  unfolding benchmark_string_concat_def by (induction len) simp_all

lemma map_insert_count: "cnt \<le> 2 ^ 32 \<Longrightarrow> benchmark_map_insert cnt = cnt"
proof -
  assume c: "cnt \<le> 2 ^ 32"
  have "dom (foldl (\<lambda>m i. m((of_nat i :: 32 word) \<mapsto> (of_nat i :: 32 word))) Map.empty [0..<n]) = of_nat ` {0..<n}" for n
    by (induction n) (simp_all add: atLeast0_lessThan_Suc del: fun_upd_apply)
  moreover have "inj_on (of_nat :: nat \<Rightarrow> 32 word) {0..<cnt}"
  proof (rule inj_onI)
    fix x y :: nat
    assume xy: "x \<in> {0..<cnt}" "y \<in> {0..<cnt}" "(of_nat x :: 32 word) = of_nat y"
    then have "unat (of_nat x :: 32 word) = unat (of_nat y :: 32 word)" by simp
    then show "x = y" using xy(1,2) c by (simp add: unat_of_nat take_bit_eq_mod)
  qed
  ultimately show ?thesis by (simp add: benchmark_map_insert_def card_image)
qed

text \<open>Bodies below 64 KiB: every parse of the buffer finds its ten messages, and every message is read.\<close>

lemma parser_bench_counts:
  assumes "body_size < 65536"
  shows "benchmark_protocol_parser_parse iterations body_size = replicate iterations 10"
proof -
  let ?ms = "map (\<lambda>i. \<lparr>cmd = of_nat (1000 + i), body = bench_body body_size\<rparr>) [0..<10]"
  have v: "list_all wire_valid ?ms" using assms by (auto simp: list_all_iff wire_valid_def bench_body_def)
  have "fst (feed_reads parser_init [concat (map serialize ?ms)]) = ?ms"
    using parser.feed_all_roundtrip [of parser_init ?ms "[concat (map serialize ?ms)]"] v
    by (auto simp: feed_all_reads parser_init_def parser_inv_def parser_pending_def)
  then have "length (fst (feed parser_init (concat (map serialize ?ms)))) = 10" by (simp add: case_prod_beta)
  then show ?thesis by (simp add: benchmark_protocol_parser_parse_def Let_def comp_def map_replicate_const)
qed

text \<open>Reading one message succeeds for every size, also where the 16-bit length has cut the body off.\<close>

lemma deserialize_bench_succeeds: "benchmark_message_deserialize iterations body_size = replicate iterations True"
  by (simp add: benchmark_message_deserialize_def Let_def map_replicate_const deserialize_serialize)

end
