(* ===== verification/WsFrame.thy ===== *)
theory WsFrame
  imports Http Protocol
begin

text \<open>
  The WebSocket layer of \<^verbatim>\<open>examples/game_ws_server.cpp\<close> and of \<^verbatim>\<open>examples/ws_tcp_bridge.cpp\<close>, through which browsers reach the game:
  the opening handshake, reading and writing of frames, and the bridge between frames and the TCP stream of the gateway.
  \<^verbatim>\<open>SHA1\<close> is a parameter. A blocking \<^verbatim>\<open>recv\<close> with \<^verbatim>\<open>MSG_WAITALL\<close> takes its bytes from the stream, or fails when the stream ends before.
\<close>

section \<open>Base64\<close>

definition b64_alphabet :: string where
  "b64_alphabet = ''ABCDEFGHIJKLMNOPQRSTUVWXYZabcdefghijklmnopqrstuvwxyz0123456789+/''"

definition b64_group :: "byte \<Rightarrow> byte \<Rightarrow> byte \<Rightarrow> string" where
  "b64_group c0 c1 c2 = map (\<lambda>k. b64_alphabet ! unat k)
     [drop_bit 2 c0, push_bit 4 (c0 AND 3) OR drop_bit 4 c1, push_bit 2 (c1 AND 15) OR drop_bit 6 c2, c2 AND 63]"

fun b64_loop :: "bytes \<Rightarrow> string" where
  "b64_loop [] = []"
| "b64_loop [c0] = b64_group c0 0 0"
| "b64_loop [c0, c1] = b64_group c0 c1 0"
| "b64_loop (c0 # c1 # c2 # cs) = b64_group c0 c1 c2 @ b64_loop cs"

definition base64_encode :: "bytes \<Rightarrow> string" where
  "base64_encode data = (let out = b64_loop data in out @ replicate ((4 - length out mod 4) mod 4) (CHR ''=''))"

text \<open>The standard encoding: a last group of one or two bytes has two or three characters and is padded.\<close>

fun base64 :: "bytes \<Rightarrow> string" where
  "base64 [] = []"
| "base64 [c0] = take 2 (b64_group c0 0 0) @ ''==''"
| "base64 [c0, c1] = take 3 (b64_group c0 c1 0) @ ''=''"
| "base64 (c0 # c1 # c2 # cs) = b64_group c0 c1 c2 @ base64 cs"

lemma b64_group_length: "length (b64_group c0 c1 c2) = 4"
  by (simp add: b64_group_def)

lemma b64_loop_length: "length (b64_loop data) mod 4 = 0"
  by (induction data rule: b64_loop.induct) (simp_all add: b64_group_length)

text \<open>The padding loop never runs: the encoder is right for whole groups only.\<close>

lemma base64_encode_unpadded: "base64_encode data = b64_loop data"
  by (simp add: base64_encode_def Let_def b64_loop_length)

lemma base64_whole_groups: "length data mod 3 = 0 \<Longrightarrow> base64_encode data = base64 data"
  unfolding base64_encode_unpadded by (induction data rule: b64_loop.induct) simp_all

text \<open>Otherwise the result ends in \<^verbatim>\<open>A\<close> where the standard has a padding character. A SHA-1 digest has twenty bytes.\<close>

lemma base64_last:
  "length data mod 3 \<noteq> 0 \<Longrightarrow> b64_loop data \<noteq> [] \<and> last (b64_loop data) = CHR ''A'' \<and> base64 data \<noteq> [] \<and> last (base64 data) = CHR ''=''"
  by (induction data rule: b64_loop.induct) (auto simp: b64_group_def b64_alphabet_def)

lemma base64_wrong: "length data mod 3 \<noteq> 0 \<Longrightarrow> base64_encode data \<noteq> base64 data"
  using base64_last [of data] by (auto simp: base64_encode_unpadded)

section \<open>Handshake\<close>

definition WS_MAGIC :: string where
  "WS_MAGIC = ''258EAFA5-E914-47DA-95CA-C5AB0DC85B11''"

definition ws_accept_key :: "(string \<Rightarrow> bytes) \<Rightarrow> (bytes \<Rightarrow> string) \<Rightarrow> string \<Rightarrow> string" where
  "ws_accept_key sha1 encode key = encode (sha1 (key @ WS_MAGIC))"

definition key_of_line :: "string \<Rightarrow> string" where
  "key_of_line line =
     (let start = (case str_find '':'' line of Some i \<Rightarrow> i + 1 | None \<Rightarrow> 0);
          v = dropWhile (\<lambda>c. c = CHR '' '') (drop start line)
      in rev (dropWhile (\<lambda>c. c = carriage_return) (rev v)))"

function ws_find_key :: "string \<Rightarrow> nat \<Rightarrow> string" where
  "ws_find_key headers pos =
     (case str_find_from CRLF headers pos of
        None \<Rightarrow> []
      | Some e \<Rightarrow>
          let line = substr headers pos (e - pos)
          in if line = [] then []
             else if prefix ''Sec-WebSocket-Key:'' line then key_of_line line
             else ws_find_key headers (e + 2))"
  by pat_completeness auto
termination
proof (relation "measure (\<lambda>(headers, pos). length headers + 2 - pos)")
  fix headers pos e x
  assume e: "str_find_from CRLF headers pos = Some e"
  then have "pos \<le> e" by (rule str_find_from_ge)
  moreover from e obtain k where "str_find CRLF (drop pos headers) = Some k" "e = pos + k" by (auto simp: str_find_from_def)
  with str_find_fits [of CRLF "drop pos headers" k] have "e + 2 \<le> length headers \<or> length headers \<le> pos"
    by (auto simp: CRLF_def)
  moreover have "\<not> length headers \<le> pos"
    using \<open>str_find CRLF (drop pos headers) = Some k\<close> by (auto simp: CRLF_def)
  ultimately show "((headers, e + 2), headers, pos) \<in> measure (\<lambda>(headers, pos). length headers + 2 - pos)" by auto
qed simp

declare ws_find_key.simps [simp del]

definition ws_response :: "string \<Rightarrow> string" where
  "ws_response accept = ''HTTP/1.1 101 Switching Protocols'' @ CRLF @ ''Upgrade: websocket'' @ CRLF @ ''Connection: Upgrade'' @ CRLF @
     ''Sec-WebSocket-Accept: '' @ accept @ CRLF @ CRLF"

text \<open>
  \<open>received\<close> is what the only \<^verbatim>\<open>recv\<close> returned, at most 4095 bytes, and \<open>None\<close> when it failed; the text ends at the first NUL. The
  result: what is handed to \<^verbatim>\<open>send\<close>.
\<close>

definition do_ws_handshake :: "(string \<Rightarrow> bytes) \<Rightarrow> (bytes \<Rightarrow> string) \<Rightarrow> string option \<Rightarrow> string option" where
  "do_ws_handshake sha1 encode received = (case received of
     None \<Rightarrow> None
   | Some buf \<Rightarrow>
       let key = ws_find_key (takeWhile (\<lambda>c. c \<noteq> CHR 0x00) buf) 0
       in if key = [] then None else Some (ws_response (ws_accept_key sha1 encode key)))"

text \<open>The header line with the key is found among the others, whatever follows; a request that has none is refused.\<close>

lemma ws_find_key_line:
  assumes "drop pos headers = line @ CRLF @ rest" "carriage_return \<notin> set line"
  shows "ws_find_key headers pos =
    (if line = [] then [] else if prefix ''Sec-WebSocket-Key:'' line then key_of_line line
     else ws_find_key headers (pos + length line + 2))"
proof -
  have "str_find CRLF (line @ CRLF @ rest) = Some (length line)"
    using str_find_first [OF assms(2), of "tl CRLF" rest] by (simp add: CRLF_def)
  then have "str_find_from CRLF headers pos = Some (pos + length line)"
    by (simp add: str_find_from_def assms(1))
  moreover have "substr headers pos (length line) = line" using assms(1) by (simp add: substr_def)
  ultimately show ?thesis by (subst ws_find_key.simps) (simp add: Let_def)
qed

lemma ws_find_key_lines:
  assumes "list_all (\<lambda>line. line \<noteq> [] \<and> carriage_return \<notin> set line \<and> \<not> prefix ''Sec-WebSocket-Key:'' line) lines"
    and "drop pos headers = concat (map (\<lambda>line. line @ CRLF) lines) @ rest"
  shows "ws_find_key headers pos = ws_find_key headers (pos + length (concat (map (\<lambda>line. line @ CRLF) lines)))"
  using assms
proof (induction lines arbitrary: pos)
  case (Cons line lines)
  let ?tail = "concat (map (\<lambda>line. line @ CRLF) lines) @ rest"
  have d: "drop pos headers = line @ CRLF @ ?tail" using Cons.prems(2) by simp
  have "drop (pos + length line + 2) headers = drop (length line + 2) (line @ CRLF @ ?tail)"
    unfolding d [symmetric] by (simp add: add.commute add.left_commute)
  then have "drop (pos + length line + 2) headers = ?tail" by (simp add: CRLF_def)
  from Cons.IH [OF _ this] Cons.prems(1) ws_find_key_line [OF d]
  show ?case by (simp add: CRLF_def add.assoc)
qed simp

lemma handshake_accepted:
  assumes "list_all (\<lambda>line. line \<noteq> [] \<and> carriage_return \<notin> set line \<and> \<not> prefix ''Sec-WebSocket-Key:'' line) lines"
    and "request = concat (map (\<lambda>line. line @ CRLF) lines) @ ''Sec-WebSocket-Key: '' @ key @ CRLF @ rest"
    and "key \<noteq> []" "carriage_return \<notin> set key" "hd key \<noteq> CHR '' ''" "CHR 0x00 \<notin> set request"
  shows "do_ws_handshake sha1 encode (Some request) = Some (ws_response (encode (sha1 (key @ WS_MAGIC))))"
proof -
  let ?l = "''Sec-WebSocket-Key: '' @ key"
  let ?n = "length (concat (map (\<lambda>line. line @ CRLF) lines))"
  have "drop ?n request = ?l @ CRLF @ rest" unfolding assms(2) by simp
  moreover have "carriage_return \<notin> set ?l" using assms(4) by (simp add: carriage_return_def)
  moreover have "drop 18 ?l = CHR '' '' # key" by simp
  moreover have "str_find '':'' ?l = Some 17" by simp
  moreover have "dropWhile (\<lambda>c. c = CHR '' '') (CHR '' '' # key) = key"
    using assms(3,5) by (cases key) auto
  moreover have "dropWhile (\<lambda>c. c = carriage_return) (rev key) = rev key"
    using assms(4) by (cases "rev key") (auto simp: rev_eq_Cons_iff)
  ultimately have "ws_find_key request ?n = key"
    using ws_find_key_line [of ?n request ?l rest] by (simp add: key_of_line_def)
  moreover have "ws_find_key request 0 = ws_find_key request ?n"
    using ws_find_key_lines [OF assms(1), of 0 request] assms(2) by simp
  moreover have t: "takeWhile (\<lambda>c. c \<noteq> CHR 0x00) request = request"
    using assms(6) unfolding takeWhile_eq_all_conv by blast
  ultimately show ?thesis using assms(3) by (simp add: do_ws_handshake_def ws_accept_key_def t)
qed

section \<open>Frames\<close>

definition wait_all :: "nat \<Rightarrow> bytes \<Rightarrow> (bytes \<times> bytes) option" where
  "wait_all n input = (if n \<le> length input then Some (take n input, drop n input) else None)"

definition shift_in :: "64 word \<Rightarrow> byte \<Rightarrow> 64 word" where
  "shift_in n b = push_bit 8 n OR ucast b"

definition ws_length :: "byte \<Rightarrow> bytes \<Rightarrow> (64 word \<times> bytes) option" where
  "ws_length h1 input =
     (let len = h1 AND 0x7F
      in if len = 126 then map_option (map_prod (foldl shift_in 0) id) (wait_all 2 input)
         else if len = 127 then map_option (map_prod (foldl shift_in 0) id) (wait_all 8 input)
         else Some (ucast len, input))"

definition apply_mask :: "bytes \<Rightarrow> bytes \<Rightarrow> bytes" where
  "apply_mask key out = map (\<lambda>i. out ! i XOR key ! (i mod 4)) [0..<length out]"

text \<open>The payload and the input that is left; \<open>None\<close> when the function returns false.\<close>

definition ws_read_frame :: "bytes \<Rightarrow> (bytes \<times> bytes) option" where
  "ws_read_frame input =
     (case wait_all 2 input of
        None \<Rightarrow> None
      | Some (hdr, rest) \<Rightarrow>
          let op = hdr ! 0 AND 0x0F; mask = (hdr ! 1 AND 0x80 \<noteq> 0)
          in case ws_length (hdr ! 1) rest of
               None \<Rightarrow> None
             | Some (payload_len, rest1) \<Rightarrow>
                 if op = 8 then None
                 else if 4 * 1024 * 1024 < payload_len then None
                 else (case (if mask then wait_all 4 rest1 else Some ([], rest1)) of
                         None \<Rightarrow> None
                       | Some (mask_key, rest2) \<Rightarrow>
                           if payload_len = 0 then Some ([], rest2)
                           else (case wait_all (unat payload_len) rest2 of
                                   None \<Rightarrow> None
                                 | Some (out, rest3) \<Rightarrow> Some (if mask then apply_mask mask_key out else out, rest3))))"

definition length_bytes :: "64 word \<Rightarrow> bytes" where
  "length_bytes len =
     (if len < 126 then [ucast len]
      else if len \<le> 65535 then [126, ucast (drop_bit 8 len), ucast (len AND 0xFF)]
      else 127 # map (\<lambda>i. ucast (drop_bit (i * 8) len AND 0xFF)) [7, 6, 5, 4, 3, 2, 1, 0])"

definition ws_write_frame :: "bytes \<Rightarrow> bytes" where
  "ws_write_frame data = 0x82 # length_bytes (of_nat (length data)) @ data"

text \<open>What a browser sends: the same with the mask bit set, a key, and the masked payload.\<close>

definition client_frame :: "byte \<Rightarrow> bytes \<Rightarrow> bytes \<Rightarrow> bytes" where
  "client_frame h0 key data =
     (case length_bytes (of_nat (length data)) of
        [] \<Rightarrow> []
      | l # ls \<Rightarrow> h0 # (l OR 0x80) # ls @ key @ apply_mask key data)"

section \<open>The bridge\<close>

text \<open>
  \<^verbatim>\<open>ws_to_tcp\<close>: \<open>stop\<close> says what the \<open>i\<close>-th test of \<^verbatim>\<open>done\<close> sees and \<open>send\<close> what the \<open>i\<close>-th call of \<^verbatim>\<open>send\<close> returns. The result is the
  bytes that reached the gateway.
\<close>

lemma ws_length_rest: "ws_length h1 input = Some (n, rest) \<Longrightarrow> length rest \<le> length input"
  by (auto simp: ws_length_def wait_all_def Let_def split: if_splits)

lemma ws_read_frame_shorter: "ws_read_frame input = Some (out, rest) \<Longrightarrow> length rest < length input"
  by (auto simp: ws_read_frame_def wait_all_def Let_def split: option.splits if_splits prod.splits dest!: ws_length_rest)

function ws_to_tcp :: "(nat \<Rightarrow> bool) \<Rightarrow> (nat \<Rightarrow> bytes \<Rightarrow> int) \<Rightarrow> nat \<Rightarrow> bytes \<Rightarrow> bytes" where
  "ws_to_tcp stop send i input =
     (if stop i then []
      else case ws_read_frame input of
             None \<Rightarrow> []
           | Some (buf, rest) \<Rightarrow>
               if buf = [] then ws_to_tcp stop send (i + 1) rest
               else if send i buf \<noteq> int (length buf) then take (nat (send i buf)) buf
               else buf @ ws_to_tcp stop send (i + 1) rest)"
  by pat_completeness auto
termination
  by (relation "measure (\<lambda>(_, _, _, input). length input)") (auto dest: ws_read_frame_shorter)

declare ws_to_tcp.simps [simp del]

text \<open>
  \<^verbatim>\<open>tcp_to_ws\<close>: the list holds what each \<^verbatim>\<open>recv\<close> of at most 4096 bytes returned, an empty chunk when it returned zero or less; \<open>send\<close> is the
  number of bytes the \<open>i\<close>-th frame's \<^verbatim>\<open>send\<close> took.
\<close>

fun tcp_to_ws :: "(nat \<Rightarrow> bool) \<Rightarrow> (nat \<Rightarrow> bytes \<Rightarrow> int) \<Rightarrow> nat \<Rightarrow> bytes list \<Rightarrow> bytes" where
  "tcp_to_ws stop send i [] = []"
| "tcp_to_ws stop send i (buf # chunks) =
     (if stop i \<or> buf = [] then []
      else let frame = ws_write_frame buf
           in if send i frame \<noteq> int (length frame) then take (nat (send i frame)) frame
              else frame @ tcp_to_ws stop send (i + 1) chunks)"

section \<open>Frames are read back\<close>

lemma shift_in_next: "shift_in (drop_bit (n + 8) v) (ucast (drop_bit n v)) = drop_bit n (v :: 64 word)"
proof (rule bit_word_eqI)
  fix k :: nat
  assume "k < LENGTH(64)"
  then have k: "k < 64" by simp
  show "bit (shift_in (drop_bit (n + 8) v) (ucast (drop_bit n v))) k = bit (drop_bit n v) k"
    using k by (cases "k < 8") (simp_all add: shift_in_def bit_simps add.commute add.left_commute)
qed

lemma low_byte: "(ucast (v AND 0xFF) :: byte) = ucast (v :: 64 word)"
proof -
  have m: "(0xFF :: 64 word) = mask 8" by (simp add: mask_eq_exp_minus_1)
  show ?thesis unfolding m by (rule bit_word_eqI) (simp add: bit_simps)
qed

lemma drop_all_bits: "drop_bit 64 (v :: 64 word) = 0"
  by (rule bit_word_eqI) (auto simp: bit_simps dest: bit_imp_le_length)

lemma eight_bytes: "foldl shift_in 0 (map (\<lambda>i. ucast (drop_bit (i * 8) v AND 0xFF)) [7, 6, 5, 4, 3, 2, 1, 0]) = (v :: 64 word)"
  using shift_in_next [of 56 v] shift_in_next [of 48 v] shift_in_next [of 40 v] shift_in_next [of 32 v]
    shift_in_next [of 24 v] shift_in_next [of 16 v] shift_in_next [of 8 v] shift_in_next [of 0 v] drop_all_bits [of v]
  by (simp add: low_byte)

lemma small_drop: "v \<le> 65535 \<Longrightarrow> drop_bit 16 (v :: 64 word) = 0"
proof -
  assume "v \<le> 65535"
  then have "unat (drop_bit 16 v) = 0" by (simp only: unat_drop_bit_eq word_le_nat_alt) (simp add: drop_bit_eq_div)
  then show ?thesis by (intro unsigned_word_eqI) (simp only: unsigned_0)
qed

lemma two_bytes: "v \<le> 65535 \<Longrightarrow> foldl shift_in 0 [ucast (drop_bit 8 v), ucast (v AND 0xFF)] = (v :: 64 word)"
  using shift_in_next [of 8 v] shift_in_next [of 0 v] small_drop [of v] by (simp add: low_byte)

lemma small_byte:
  assumes "(v :: 64 word) < 126"
  shows "(ucast v :: byte) < 126" and "ucast (ucast v :: byte) = v"
proof -
  have u: "unat (ucast v :: byte) = unat v"
    using assms by (simp add: unsigned_ucast_eq take_bit_eq_mod word_less_nat_alt)
  then show "(ucast v :: byte) < 126" using assms by (simp add: word_less_nat_alt)
  have "unat (ucast (ucast v :: byte) :: 64 word) = unat v"
    using u by (simp add: unsigned_ucast_eq) (simp only: unsigned_take_bit_eq)
  then show "ucast (ucast v :: byte) = v" by (rule unsigned_word_eqI)
qed

lemma low_seven: "(l :: byte) < 128 \<Longrightarrow> l AND 0x7F = l"
proof -
  assume l: "l < 128"
  have m: "(0x7F :: byte) = mask 7" by (simp add: mask_eq_exp_minus_1)
  have "unat (take_bit 7 l) = unat l" using l by (simp only: unsigned_take_bit_eq word_less_nat_alt) (simp add: take_bit_eq_mod)
  then show ?thesis unfolding m take_bit_eq_mask [symmetric] by (rule unsigned_word_eqI)
qed

lemma mask_bit_set: "(l OR 0x80) AND 0x7F = l AND 0x7F" "(l OR 0x80) AND 0x80 = (0x80 :: byte)"
  by (simp_all add: bit.conj_disj_distrib2)

lemma mask_bit_clear: "(l :: byte) < 128 \<Longrightarrow> l AND 0x80 = 0"
proof -
  assume "l < 128"
  from low_seven [OF this] have "l AND 0x80 = (l AND 0x7F) AND 0x80" by simp
  also have "\<dots> = 0" by (simp add: ac_simps)
  finally show ?thesis .
qed

text \<open>The length field, whose first byte shares the mask bit, is read back, whatever follows.\<close>

lemma length_bytes_read:
  obtains l ls where "length_bytes v = l # ls" "l < 128"
    "\<And>h1 rest. h1 AND 0x7F = l \<Longrightarrow> ws_length h1 (ls @ rest) = Some (v, rest)"
proof (cases "v < 126")
  case True
  with small_byte [OF True] show ?thesis
    by (intro that [of "ucast v" "[]"]) (auto simp: length_bytes_def ws_length_def Let_def word_less_nat_alt)
next
  case False
  show ?thesis
  proof (cases "v \<le> 65535")
    case True
    with False two_bytes [OF True] show ?thesis
      by (intro that [of 126 "[ucast (drop_bit 8 v), ucast (v AND 0xFF)]"])
        (auto simp: length_bytes_def ws_length_def wait_all_def)
  next
    case small: False
    show ?thesis
      using False small eight_bytes [of v]
      by (intro that [of 127 "map (\<lambda>i. ucast (drop_bit (i * 8) v AND 0xFF)) [7, 6, 5, 4, 3, 2, 1, 0]"])
        (auto simp: length_bytes_def ws_length_def wait_all_def)
  qed
qed

lemma payload_length:
  assumes "length data \<le> 4 * 1024 * 1024"
  obtains v l ls where "(of_nat (length data) :: 64 word) = v" "unat v = length data" "\<not> 4 * 1024 * 1024 < v" "v = 0 \<longleftrightarrow> data = []"
    "length_bytes v = l # ls" "l < 128" "\<And>h1 rest. h1 AND 0x7F = l \<Longrightarrow> ws_length h1 (ls @ rest) = Some (v, rest)"
proof -
  obtain v where v: "(of_nat (length data) :: 64 word) = v" by simp
  have u: "unat v = length data" using assms by (simp add: unat_of_nat flip: v)
  have "\<not> 4 * 1024 * 1024 < v" using assms u by (simp add: word_less_nat_alt)
  moreover have "v = 0 \<longleftrightarrow> data = []" using u by (metis length_0_conv unsigned_0 unsigned_word_eqI)
  ultimately show ?thesis using that v u length_bytes_read [of v] by metis
qed

lemma apply_mask_twice: "length key = 4 \<Longrightarrow> apply_mask key (apply_mask key data) = data"
  by (rule nth_equalityI) (simp_all add: apply_mask_def xor.assoc)

lemma length_apply_mask [simp]: "length (apply_mask key data) = length data"
  by (simp add: apply_mask_def)

lemma ws_read_frame_write:
  assumes "length data \<le> 4 * 1024 * 1024"
  shows "ws_read_frame (ws_write_frame data @ rest) = Some (data, rest)"
proof -
  from payload_length [OF assms] obtain v l ls where v: "(of_nat (length data) :: 64 word) = v" "unat v = length data"
    "\<not> 4 * 1024 * 1024 < v" "v = 0 \<longleftrightarrow> data = []" and l: "length_bytes v = l # ls" "l < 128"
    and r: "\<And>h1 rest. h1 AND 0x7F = l \<Longrightarrow> ws_length h1 (ls @ rest) = Some (v, rest)" by metis
  have w: "ws_write_frame data @ rest = 0x82 # l # ls @ data @ rest" by (simp add: ws_write_frame_def v l)
  have h: "ws_length l (ls @ data @ rest) = Some (v, data @ rest)" by (rule r [OF low_seven [OF l(2)]])
  show ?thesis unfolding w using v mask_bit_clear [OF l(2)] by (simp add: ws_read_frame_def wait_all_def h)
qed

lemma ws_read_frame_client:
  assumes "length data \<le> 4 * 1024 * 1024" "length key = 4" "h0 AND 0x0F \<noteq> 8"
  shows "ws_read_frame (client_frame h0 key data @ rest) = Some (data, rest)"
proof -
  from payload_length [OF assms(1)] obtain v l ls where v: "(of_nat (length data) :: 64 word) = v" "unat v = length data"
    "\<not> 4 * 1024 * 1024 < v" "v = 0 \<longleftrightarrow> data = []" and l: "length_bytes v = l # ls" "l < 128"
    and r: "\<And>h1 rest. h1 AND 0x7F = l \<Longrightarrow> ws_length h1 (ls @ rest) = Some (v, rest)" by metis
  have w: "client_frame h0 key data @ rest = h0 # (l OR 0x80) # ls @ key @ apply_mask key data @ rest"
    by (simp add: client_frame_def v l)
  have h: "ws_length (l OR 0x80) (ls @ key @ apply_mask key data @ rest) = Some (v, key @ apply_mask key data @ rest)"
    by (rule r) (simp only: mask_bit_set low_seven [OF l(2)])
  show ?thesis unfolding w using v assms(2,3)
    by (simp add: ws_read_frame_def wait_all_def h mask_bit_set(2) apply_mask_twice apply_mask_def [of key "[]"])
qed

text \<open>More input does not change a frame that was read, so a frame cut short is never read as another one.\<close>

lemma wait_all_more: "wait_all n input = Some (a, rest) \<Longrightarrow> wait_all n (input @ xs) = Some (a, rest @ xs)"
  by (auto simp: wait_all_def split: if_splits)

lemma ws_length_more: "ws_length h1 input = Some (n, rest) \<Longrightarrow> ws_length h1 (input @ xs) = Some (n, rest @ xs)"
  by (auto simp: ws_length_def Let_def wait_all_more split: if_splits)

lemma ws_read_frame_more:
  "ws_read_frame input = Some (out, rest) \<Longrightarrow> ws_read_frame (input @ xs) = Some (out, rest @ xs)"
  by (auto simp: ws_read_frame_def Let_def wait_all_more ws_length_more split: option.split_asm prod.split_asm if_split_asm)

lemma ws_read_frame_cut:
  assumes "ws_read_frame (p @ q) = Some (out, [])" "q \<noteq> []"
  shows "ws_read_frame p = None"
proof (cases "ws_read_frame p")
  case (Some r)
  with ws_read_frame_more [of p "fst r" "snd r" q] assms show ?thesis by simp
qed

section \<open>The bridge is transparent\<close>

text \<open>What the frame reader takes out of a stream: the payloads up to the first frame it refuses or cannot complete.\<close>

function payloads :: "bytes \<Rightarrow> bytes" where
  "payloads input = (case ws_read_frame input of None \<Rightarrow> [] | Some (buf, rest) \<Rightarrow> buf @ payloads rest)"
  by pat_completeness auto
termination
  by (relation "measure length") (auto dest: ws_read_frame_shorter)

declare payloads.simps [simp del]

lemma ws_to_tcp_all: "ws_to_tcp (\<lambda>_. False) (\<lambda>_ buf. int (length buf)) i input = payloads input"
proof (induction input arbitrary: i rule: payloads.induct)
  case (1 input)
  show ?case
    by (subst ws_to_tcp.simps, subst payloads.simps) (auto simp: 1 split: option.split)
qed

lemma ws_to_tcp_prefix: "prefix (ws_to_tcp stop send i input) (payloads input)"
proof (induction input arbitrary: i rule: payloads.induct)
  case (1 input)
  show ?case
    by (subst ws_to_tcp.simps, subst payloads.simps)
      (auto simp: 1 take_is_prefix prefix_prefix split: option.split)
qed

lemma payloads_client_frames:
  assumes "list_all (\<lambda>(h0, key, data). h0 AND 0x0F \<noteq> 8 \<and> length key = 4 \<and> length data \<le> 4 * 1024 * 1024) frames"
  shows "payloads (concat (map (\<lambda>(h0, key, data). client_frame h0 key data) frames)) = concat (map (\<lambda>(h0, key, data). data) frames)"
  using assms
proof (induction frames)
  case Nil
  show ?case by (subst payloads.simps) (simp add: ws_read_frame_def wait_all_def)
next
  case (Cons f frames)
  then show ?case
    by (cases f, subst payloads.simps) (simp add: ws_read_frame_client)
qed

lemma payloads_written:
  "length data \<le> 4 * 1024 * 1024 \<Longrightarrow> payloads (ws_write_frame data @ rest) = data @ payloads rest"
  by (subst payloads.simps) (simp add: ws_read_frame_write)

lemma payloads_nothing [simp]: "payloads [] = []"
  by (subst payloads.simps) (simp add: ws_read_frame_def wait_all_def)

lemma payloads_cut:
  assumes "length data \<le> 4 * 1024 * 1024" "n < length (ws_write_frame data)"
  shows "payloads (take n (ws_write_frame data)) = []"
proof -
  have "ws_read_frame (take n (ws_write_frame data) @ drop n (ws_write_frame data)) = Some (data, [])"
    using ws_read_frame_write [OF assms(1), of "[]"] by simp
  then have "ws_read_frame (take n (ws_write_frame data)) = None"
    by (rule ws_read_frame_cut) (use assms(2) in simp)
  then show ?thesis by (subst payloads.simps) simp
qed

text \<open>A send takes part of its buffer or fails.\<close>

definition posix_send :: "(nat \<Rightarrow> bytes \<Rightarrow> int) \<Rightarrow> bool" where
  "posix_send send \<longleftrightarrow> (\<forall>i buf. - 1 \<le> send i buf \<and> send i buf \<le> int (length buf))"

lemma posix_send_less:
  assumes "posix_send send" "buf \<noteq> []" "send i buf \<noteq> int (length buf)"
  shows "nat (send i buf) < length buf"
proof -
  have "send i buf \<le> int (length buf)" using assms(1) by (simp add: posix_send_def)
  moreover have "0 < length buf" using assms(2) by simp
  ultimately show ?thesis using assms(3) by arith
qed

lemma ws_write_frame_some [simp]: "ws_write_frame buf \<noteq> []"
  by (simp add: ws_write_frame_def)

lemma tcp_to_ws_prefix:
  assumes "list_all (\<lambda>buf. length buf \<le> 4096) chunks" "posix_send send"
  shows "prefix (payloads (tcp_to_ws stop send i chunks)) (concat chunks)"
  using assms
proof (induction chunks arbitrary: i)
  case (Cons buf chunks)
  let ?f = "ws_write_frame buf"
  have b: "length buf \<le> 4 * 1024 * 1024" using Cons.prems(1) by simp
  have "send i ?f \<noteq> int (length ?f) \<Longrightarrow> nat (send i ?f) < length ?f"
    using posix_send_less [OF Cons.prems(2), of ?f] by simp
  then show ?case
    using Cons payloads_cut [OF b, of "nat (send i ?f)"]
    by (simp add: Let_def payloads_written [OF b])
qed simp

lemma tcp_to_ws_all:
  "list_all (\<lambda>buf. buf \<noteq> [] \<and> length buf \<le> 4096) chunks \<Longrightarrow>
     payloads (tcp_to_ws (\<lambda>_. False) (\<lambda>_ buf. int (length buf)) i chunks) = concat chunks"
  by (induction chunks arbitrary: i) (simp_all add: Let_def payloads_written)

text \<open>
  C14. The bridge between browsers and the gateway is transparent. Client: data frames with any header other than close, any mask and at most
  4 MiB, whose payloads together are a sequence of serialized messages with bodies below 64 KiB, cut as one likes (one message in several frames or several in one).
  Gateway: replies read in chunks of 1 to 4096 bytes. When no send fails, the gateway's parser delivers exactly the messages sent, and the
  payloads of the frames written to the browser are exactly the gateway's bytes. When the bridge is stopped or a send fails or is cut short at
  any point, what arrives in either direction is a prefix of that: nothing is lost in the middle, repeated or reordered, and the browser never
  gets a frame with a wrong payload.
\<close>

theorem bridge_transparent:
  assumes frames: "list_all (\<lambda>(h0, key, data). h0 AND 0x0F \<noteq> 8 \<and> length key = 4 \<and> length data \<le> 4 * 1024 * 1024) frames"
    and stream: "stream = concat (map (\<lambda>(h0, key, data). client_frame h0 key data) frames)"
    and messages: "list_all wire_valid ms" "concat (map (\<lambda>(h0, key, data). data) frames) = concat (map serialize ms)"
    and reads: "concat cs = ws_to_tcp (\<lambda>_. False) (\<lambda>_ buf. int (length buf)) 0 stream"
    and chunks: "list_all (\<lambda>buf. buf \<noteq> [] \<and> length buf \<le> 4096) chunks"
    and send: "posix_send send"
  shows "fst (feed_reads parser_init cs) = ms \<and>
    payloads (tcp_to_ws (\<lambda>_. False) (\<lambda>_ buf. int (length buf)) 0 chunks) = concat chunks \<and>
    prefix (ws_to_tcp stop send 0 stream) (concat (map serialize ms)) \<and>
    prefix (payloads (tcp_to_ws stop send 0 chunks)) (concat chunks)"
proof -
  have p: "payloads stream = concat (map serialize ms)"
    unfolding stream using payloads_client_frames [OF frames] messages(2) by simp
  with reads have c: "concat cs = concat (map serialize ms)" by (simp add: ws_to_tcp_all)
  have "parser_inv parser_init" "parser_pending parser_init = []"
    by (simp_all add: parser_init_def parser_inv_def parser_pending_def)
  from parser.feed_all_roundtrip [OF this messages(1) c] have "fst (feed_reads parser_init cs) = ms"
    by (auto simp: feed_all_reads)
  moreover have "list_all (\<lambda>buf. length buf \<le> 4096) chunks" using chunks by (simp add: list_all_iff)
  ultimately show ?thesis
    using tcp_to_ws_all [OF chunks] ws_to_tcp_prefix [of stop send 0 stream] p tcp_to_ws_prefix [OF _ send] by simp
qed

theorem bridge_transparent_witness:
  "fst (feed_reads parser_init [[0, 7], [0, 1, 9]]) = [\<lparr>cmd = 7, body = [9]\<rparr>] \<and>
   prefix (ws_to_tcp (\<lambda>i. i = 1) (\<lambda>_ buf. int (length buf)) 0
      (client_frame 0x82 [1, 2, 3, 4] [0, 7] @ client_frame 0x82 [0, 0, 0, 5] [0, 1, 9])) [0, 7, 0, 1, 9]"
proof -
  let ?frames = "[(0x82 :: byte, [1 :: byte, 2, 3, 4], [0 :: byte, 7]), (0x82, [0, 0, 0, 5], [0, 1, 9])]"
  have f: "list_all (\<lambda>(h0, key, data). h0 AND 0x0F \<noteq> 8 \<and> length key = 4 \<and> length data \<le> 4 * 1024 * 1024) ?frames" by simp
  have c: "concat [[0, 7], [0, 1, 9]] = ws_to_tcp (\<lambda>_. False) (\<lambda>_ buf. int (length buf)) 0
      (concat (map (\<lambda>(h0, key, data). client_frame h0 key data) ?frames))"
    unfolding ws_to_tcp_all payloads_client_frames [OF f] by simp
  show ?thesis
    using bridge_transparent [OF f refl _ _ c, of "[\<lparr>cmd = 7, body = [9]\<rparr>]" "[[5]]" "\<lambda>_ buf. int (length buf)" "\<lambda>i. i = 1"]
    by (simp add: wire_valid_def serialize_def put_be16_eq posix_send_def)
qed

end
