(* ===== verification/WsGame.thy ===== *)
theory WsGame
  imports WsFrame Codec GameService
begin

text \<open>
  The WebSocket game servers \<^verbatim>\<open>examples/game_ws_server.cpp\<close> (messages with a type name and protobuf-like fields) and
  \<^verbatim>\<open>examples/game_ws_server_json.cpp\<close> (messages as JSON text), on the frames of the WebSocket layer. Clients are file descriptors. An
  exception that leaves a client's thread ends the process: the handlers return \<open>Terminate\<close> for it.
\<close>

section \<open>Fields\<close>

text \<open>\<open>None\<close>: the function throws. Data that ends inside a number is not an error here.\<close>

function readVarint32_loop :: "bytes \<Rightarrow> nat \<Rightarrow> nat \<Rightarrow> 32 word \<Rightarrow> (32 word \<times> nat) option" where
  "readVarint32_loop data offset shift result =
     (if offset < length data
      then let byte = data ! offset; result' = result OR push_bit shift (ucast (byte AND 0x7F))
           in if byte AND 0x80 = 0 then Some (result', offset + 1)
              else if 35 \<le> shift + 7 then None
              else readVarint32_loop data (offset + 1) (shift + 7) result'
      else Some (result, offset))"
  by pat_completeness auto
termination
  by (relation "measure (\<lambda>(data, offset, shift, result). length data - offset)") auto

declare readVarint32_loop.simps [simp del]

definition readVarint32 :: "bytes \<Rightarrow> nat \<Rightarrow> (32 word \<times> nat) option" where
  "readVarint32 data offset = readVarint32_loop data offset 0 0"

function writeVarint32 :: "32 word \<Rightarrow> bytes \<Rightarrow> bytes" where
  "writeVarint32 v out =
     (if 0x80 \<le> v then writeVarint32 (drop_bit 7 v) (out @ [ucast ((v AND 0x7F) OR 0x80)])
      else out @ [ucast v])"
  by pat_completeness auto
termination
proof (relation "measure (\<lambda>(v, out). unat v)")
  fix v :: "32 word" and out :: bytes
  assume "0x80 \<le> v"
  then have "128 \<le> unat v" by (simp add: word_le_nat_alt)
  then have "unat v div 128 < unat v" by simp
  then show "((drop_bit 7 v, out @ [ucast ((v AND 0x7F) OR 0x80)]), (v, out)) \<in> measure (\<lambda>(v, out). unat v)"
    by (simp add: unat_drop_bit_7)
qed simp

declare writeVarint32.simps [simp del]

definition encodeMessageWithType :: "bytes \<Rightarrow> bytes \<Rightarrow> bytes" where
  "encodeMessageWithType typeName content =
     (let result = writeVarint32 (of_nat (length typeName)) [];
          result1 = writeVarint32 (of_nat (length content)) (result @ typeName)
      in result1 @ content)"

definition decodeMessageWithType :: "bytes \<Rightarrow> (bytes \<times> bytes) option" where
  "decodeMessageWithType data = (case readVarint32 data 0 of
     None \<Rightarrow> None
   | Some (typeLen, offset) \<Rightarrow>
       if length data < offset + unat typeLen then None
       else let typeName = take (unat typeLen) (drop offset data); offset1 = offset + unat typeLen
            in case readVarint32 data offset1 of
                 None \<Rightarrow> None
               | Some (contentLen, offset2) \<Rightarrow>
                   if length data < offset2 + unat contentLen then None
                   else Some (typeName, take (unat contentLen) (drop offset2 data)))"

definition proto_string :: "byte \<Rightarrow> bytes \<Rightarrow> bytes \<Rightarrow> bytes" where
  "proto_string tag s result = writeVarint32 (of_nat (length s)) (result @ [tag]) @ s"

definition encodeC2S_Login :: "bytes \<Rightarrow> bytes \<Rightarrow> bytes" where
  "encodeC2S_Login pid token = proto_string 0x12 token (proto_string 0x0A pid [])"

definition encodeC2S_Chat :: "bytes \<Rightarrow> bytes \<Rightarrow> bytes" where
  "encodeC2S_Chat rid content = proto_string 0x12 content (proto_string 0x0A rid [])"

definition le64 :: "64 word \<Rightarrow> bytes" where
  "le64 v = map (\<lambda>i. ucast (signed_drop_bit (i * 8) v AND 0xFF)) [0, 1, 2, 3, 4, 5, 6, 7]"

definition encodeC2S_Heartbeat :: "64 word \<Rightarrow> bytes" where
  "encodeC2S_Heartbeat timestamp_ms = 0x08 # le64 timestamp_ms"

definition encodeS2C_Login :: "bool \<Rightarrow> bytes \<Rightarrow> bytes" where
  "encodeS2C_Login ok text_msg = proto_string 0x12 text_msg [0x08, (if ok then 1 else 0)]"

definition encodeS2C_Chat :: "bytes \<Rightarrow> bytes \<Rightarrow> bytes" where
  "encodeS2C_Chat from_player content = proto_string 0x12 content (proto_string 0x0A from_player [])"

definition encodeS2C_Heartbeat :: "64 word \<Rightarrow> bytes" where
  "encodeS2C_Heartbeat timestamp_ms = 0x08 # le64 timestamp_ms"

section \<open>The server\<close>

record ws_player =
  wp_player_id :: bytes
  wp_room_id :: bytes

record ws_game =
  ws_players :: "int \<rightharpoonup> ws_player"
  ws_rooms :: "bytes \<rightharpoonup> int set"

definition ws_game_init :: ws_game where
  "ws_game_init = \<lparr>ws_players = Map.empty, ws_rooms = Map.empty\<rparr>"

type_synonym ws_sends = "(int \<times> bytes) list"

definition sendLogin :: "int \<Rightarrow> bool \<Rightarrow> string \<Rightarrow> ws_sends" where
  "sendLogin fd ok text_msg = [(fd, ws_write_frame (encodeMessageWithType (ascii ''S2C_Login'') (encodeS2C_Login ok (ascii text_msg))))]"

definition sendHeartbeat :: "int \<Rightarrow> 64 word \<Rightarrow> ws_sends" where
  "sendHeartbeat fd timestamp_ms = [(fd, ws_write_frame (encodeMessageWithType (ascii ''S2C_Heartbeat'') (encodeS2C_Heartbeat timestamp_ms)))]"

text \<open>The two string fields of a login or chat message; \<open>None\<close>: an exception, of \<^verbatim>\<open>readVarint32\<close> or of \<^verbatim>\<open>substr\<close> beyond the end.\<close>

definition field_at :: "bytes \<Rightarrow> nat \<Rightarrow> (bytes \<times> nat) option" where
  "field_at content offset = (case readVarint32 content offset of
     None \<Rightarrow> None
   | Some (len, offset1) \<Rightarrow>
       if length content < offset1 then None else Some (take (unat len) (drop offset1 content), offset1 + unat len))"

definition two_fields :: "bytes \<Rightarrow> (bytes \<times> bytes) option" where
  "two_fields content = (case field_at content 1 of
     None \<Rightarrow> None
   | Some (a, offset) \<Rightarrow> (case field_at content (offset + 1) of None \<Rightarrow> None | Some (b, _) \<Rightarrow> Some (a, b)))"

definition handleLogin :: "int \<Rightarrow> bytes \<Rightarrow> ws_game \<Rightarrow> cpp_error + ws_sends \<times> ws_game" where
  "handleLogin fd content s = (case two_fields content of
     None \<Rightarrow> Inl Terminate
   | Some (pid, token) \<Rightarrow>
       if pid = [] then Inr (sendLogin fd False ''Invalid player_id'', s)
       else Inr (sendLogin fd True ''Login success'',
              s\<lparr>ws_players := (ws_players s)(fd \<mapsto> \<lparr>wp_player_id = pid, wp_room_id = []\<rparr>)\<rparr>))"

text \<open>The set of connections is walked in an unspecified order.\<close>

definition broadcastChat :: "(int set \<Rightarrow> int list) \<Rightarrow> bytes \<Rightarrow> bytes \<Rightarrow> bytes \<Rightarrow> ws_game \<Rightarrow> ws_sends \<times> ws_game" where
  "broadcastChat order rid from_player content s =
     (let s1 = (case ws_rooms s rid of None \<Rightarrow> s\<lparr>ws_rooms := (ws_rooms s)(rid \<mapsto> {})\<rparr> | Some _ \<Rightarrow> s);
          frame = ws_write_frame (encodeMessageWithType (ascii ''S2C_Chat'') (encodeS2C_Chat from_player content))
      in (map (\<lambda>fd. (fd, frame)) (order (the (ws_rooms s1 rid))), s1))"

definition handleChat :: "(int set \<Rightarrow> int list) \<Rightarrow> int \<Rightarrow> bytes \<Rightarrow> ws_game \<Rightarrow> cpp_error + ws_sends \<times> ws_game" where
  "handleChat order fd content s = (case ws_players s fd of
     None \<Rightarrow> Inr ([], s)
   | Some p \<Rightarrow> (case two_fields content of
       None \<Rightarrow> Inl Terminate
     | Some (rid, chat) \<Rightarrow>
         Inr (broadcastChat order rid (wp_player_id p) chat (s\<lparr>ws_players := (ws_players s)(fd \<mapsto> p\<lparr>wp_room_id := rid\<rparr>)\<rparr>))))"

definition heartbeat_value :: "bytes \<Rightarrow> 64 word" where
  "heartbeat_value content = foldl (\<lambda>v i. v OR push_bit (i * 8) (ucast (content ! i))) 0 [0..<min 8 (length content)]"

definition handleHeartbeat :: "int \<Rightarrow> bytes \<Rightarrow> ws_sends" where
  "handleHeartbeat fd content = sendHeartbeat fd (heartbeat_value content)"

definition ws_on_disconnect :: "int \<Rightarrow> ws_game \<Rightarrow> ws_game" where
  "ws_on_disconnect fd s = (case ws_players s fd of
     None \<Rightarrow> s
   | Some p \<Rightarrow>
       let s1 = (case ws_rooms s (wp_room_id p) of
                   None \<Rightarrow> s
                 | Some fds \<Rightarrow> s\<lparr>ws_rooms := (ws_rooms s)(wp_room_id p := (if fds - {fd} = {} then None else Some (fds - {fd})))\<rparr>)
       in s1\<lparr>ws_players := (ws_players s1)(fd := None)\<rparr>)"

definition handle_payload :: "(int set \<Rightarrow> int list) \<Rightarrow> int \<Rightarrow> bytes \<Rightarrow> ws_game \<Rightarrow> cpp_error + ws_sends \<times> ws_game" where
  "handle_payload order fd payload s = (case decodeMessageWithType payload of
     None \<Rightarrow> Inr ([], s)
   | Some (typeName, content) \<Rightarrow>
       if typeName = ascii ''C2S_Login'' then handleLogin fd content s
       else if typeName = ascii ''C2S_Chat'' then handleChat order fd content s
       else if typeName = ascii ''C2S_Heartbeat'' then Inr (handleHeartbeat fd content, s)
       else Inr ([], s))"

text \<open>\<^verbatim>\<open>client_loop\<close> on the bytes a client sends until the connection ends.\<close>

function client_loop :: "(int set \<Rightarrow> int list) \<Rightarrow> int \<Rightarrow> bytes \<Rightarrow> ws_game \<Rightarrow> cpp_error + ws_sends \<times> ws_game" where
  "client_loop order fd input s = (case ws_read_frame input of
     None \<Rightarrow> Inr ([], ws_on_disconnect fd s)
   | Some (payload, rest) \<Rightarrow> (case handle_payload order fd payload s of
       Inl e \<Rightarrow> Inl e
     | Inr (out, s1) \<Rightarrow> map_sum id (map_prod ((@) out) id) (client_loop order fd rest s1)))"
  by pat_completeness auto
termination
  by (relation "measure (\<lambda>(order, fd, input, s). length input)") (auto dest: ws_read_frame_shorter)

declare client_loop.simps [simp del]

section \<open>Messages are read back\<close>

lemma writeVarint32_append: "writeVarint32 v out = append_varint32 out v"
proof (induction v out rule: writeVarint32.induct)
  case (1 v out)
  show ?case
  proof (cases "0x80 \<le> v")
    case True
    with 1 show ?thesis by (subst writeVarint32.simps) (simp add: append_varint32_more)
  next
    case False
    then show ?thesis by (subst writeVarint32.simps) (simp add: append_varint32_last varint_small)
  qed
qed

lemma writeVarint32_out: "writeVarint32 v out = out @ writeVarint32 v []"
  using append_varint32_out [of out "[]" v] by (simp add: writeVarint32_append)

lemma readVarint32_parse: "parse_varint32_loop data offset shift result = Some r \<Longrightarrow> readVarint32_loop data offset shift result = Some r"
proof (induction data offset shift result rule: readVarint32_loop.induct)
  case (1 data offset shift result)
  have p: "offset < length data \<and> shift \<le> 28" using "1.prems" parse_stop by (metis not_le option.distinct(1))
  show ?case
  proof (cases "data ! offset AND 0x80 = 0")
    case True
    with p "1.prems" show ?thesis by (subst readVarint32_loop.simps) (simp add: parse_last)
  next
    case False
    let ?r = "result OR push_bit shift (ucast (data ! offset AND 0x7F))"
    have n: "parse_varint32_loop data (offset + 1) (shift + 7) ?r = Some r"
      using p False "1.prems" by (simp add: parse_more)
    have s: "\<not> 35 \<le> shift + 7"
    proof
      assume "35 \<le> shift + 7"
      then have "parse_varint32_loop data (offset + 1) (shift + 7) ?r = None" by (intro parse_stop) simp
      with n show False by simp
    qed
    have "readVarint32_loop data (offset + 1) (shift + 7) ?r = Some r"
      using p False s n by (intro "1.IH") simp_all
    with p False s show ?thesis by (subst readVarint32_loop.simps) (simp add: Let_def)
  qed
qed

lemma readVarint32_written:
  "readVarint32 (pre @ writeVarint32 v [] @ rest) (length pre) = Some (v, length pre + length (writeVarint32 v []))"
  using parse_varint32_append_varint32 [of pre v rest]
  by (simp add: readVarint32_def writeVarint32_append parse_varint32_def readVarint32_parse)

text \<open>A length-prefixed string at a known position, whatever is around it.\<close>

lemma unat_length32: "length s < 2 ^ 32 \<Longrightarrow> unat (of_nat (length s) :: 32 word) = length s"
  by (simp add: unat_of_nat)

definition lp :: "bytes \<Rightarrow> bytes" where
  "lp s = writeVarint32 (of_nat (length s)) [] @ s"

lemma read_lp:
  "readVarint32 (pre @ lp s @ rest) (length pre) = Some (of_nat (length s), length pre + length (writeVarint32 (of_nat (length s)) []))"
  using readVarint32_written [of pre "of_nat (length s)" "s @ rest"] by (simp add: lp_def)

lemma field_at_lp:
  assumes "length s < 2 ^ 32" "k = length pre"
  shows "field_at (pre @ lp s @ rest) k = Some (s, k + length (lp s))"
  using assms unat_length32 [OF assms(1)] read_lp [of pre s rest] by (simp add: field_at_def lp_def)

lemma proto_string_lp: "proto_string tag s result = result @ [tag] @ lp s"
  by (subst proto_string_def, subst writeVarint32_out) (simp add: lp_def)

lemma two_fields_written:
  assumes "length a < 2 ^ 32" "length b < 2 ^ 32"
  shows "two_fields (proto_string tb b (proto_string ta a [])) = Some (a, b)"
proof -
  let ?m = "[ta] @ lp a @ [tb] @ lp b @ []"
  have 1: "field_at ?m 1 = Some (a, 1 + length (lp a))"
    by (rule field_at_lp) (use assms in simp_all)
  have 2: "field_at (([ta] @ lp a @ [tb]) @ lp b @ []) (2 + length (lp a)) = Some (b, 2 + length (lp a) + length (lp b))"
    by (rule field_at_lp) (use assms in simp_all)
  show ?thesis using 1 2 by (simp add: proto_string_lp two_fields_def)
qed

lemma encodeMessageWithType_lp: "encodeMessageWithType t c = lp t @ lp c"
  by (simp add: encodeMessageWithType_def Let_def writeVarint32_out [of _ "writeVarint32 _ _ @ _"] lp_def)

lemma decode_encode_message:
  assumes "length t < 2 ^ 32" "length c < 2 ^ 32"
  shows "decodeMessageWithType (encodeMessageWithType t c) = Some (t, c)"
  using read_lp [of "[]" t "lp c"] read_lp [of "lp t" c "[]"] unat_length32 [OF assms(1)] unat_length32 [OF assms(2)]
  by (simp add: decodeMessageWithType_def encodeMessageWithType_lp) (simp add: lp_def)

lemma varint_length: "unat v < 128 ^ Suc k \<Longrightarrow> length (writeVarint32 v []) \<le> Suc k"
proof (induction k arbitrary: v)
  case 0
  then have "\<not> 0x80 \<le> v" by (simp add: word_le_nat_alt)
  then show ?case by (subst writeVarint32.simps) simp
next
  case (Suc k)
  show ?case
  proof (cases "0x80 \<le> v")
    case True
    have "unat (drop_bit 7 v) < 128 ^ Suc k"
      using Suc.prems by (simp add: unat_drop_bit_7 less_mult_imp_div_less)
    from Suc.IH [OF this] show ?thesis
      by (subst writeVarint32.simps, subst writeVarint32_out) (simp add: True)
  next
    case False
    then show ?thesis by (subst writeVarint32.simps) simp
  qed
qed

text \<open>A login that arrives in one frame registers the player and is answered.\<close>

lemma login_served:
  assumes "length pid < 2 ^ 16" "length token < 2 ^ 16" "pid \<noteq> []" "length key = 4" "h0 AND 0x0F \<noteq> 8"
  shows "client_loop order fd (client_frame h0 key (encodeMessageWithType (ascii ''C2S_Login'') (encodeC2S_Login pid token)) @ rest) s =
    map_sum id (map_prod ((@) (sendLogin fd True ''Login success'')) id)
      (client_loop order fd rest (s\<lparr>ws_players := (ws_players s)(fd \<mapsto> \<lparr>wp_player_id = pid, wp_room_id = []\<rparr>)\<rparr>))"
proof -
  let ?c = "encodeC2S_Login pid token" and ?t = "ascii ''C2S_Login''"
  have v: "length (writeVarint32 v []) \<le> 5" for v
    using varint_length [of v 4] unat_32_lt [of v] by simp
  have "length (lp x) \<le> 5 + length x" for x using v [of "of_nat (length x)"] by (simp add: lp_def)
  note l = this
  have c: "length ?c \<le> 2 ^ 18" using assms(1,2) l [of pid] l [of token] by (simp add: encodeC2S_Login_def proto_string_lp)
  have t: "length ?t = 9" by (simp add: ascii_def)
  have "length (encodeMessageWithType ?t ?c) \<le> 4 * 1024 * 1024"
    using c t l [of ?t] l [of ?c] by (simp add: encodeMessageWithType_lp)
  moreover have "decodeMessageWithType (encodeMessageWithType ?t ?c) = Some (?t, ?c)"
    using c t by (intro decode_encode_message) simp_all
  moreover have "two_fields ?c = Some (pid, token)"
    unfolding encodeC2S_Login_def using assms(1,2) by (intro two_fields_written) simp_all
  ultimately show ?thesis
    using assms(3-5) by (subst client_loop.simps) (simp add: ws_read_frame_client handle_payload_def handleLogin_def)
qed

text \<open>A login whose token field is absent, as a protobuf encoder writes an empty string, ends the server.\<close>

lemma login_without_token_terminates:
  assumes "length pid < 2 ^ 32"
  shows "handleLogin fd (proto_string 0x0A pid []) s = Inl Terminate"
proof -
  have 1: "field_at ([0x0A] @ lp pid @ []) 1 = Some (pid, 1 + length (lp pid))"
    by (rule field_at_lp) (use assms in simp_all)
  have "readVarint32 ([0x0A] @ lp pid) (2 + length (lp pid)) = Some (0, 2 + length (lp pid))"
    by (simp add: readVarint32_def readVarint32_loop.simps)
  then have "field_at ([0x0A] @ lp pid) (2 + length (lp pid)) = None"
    by (simp add: field_at_def)
  with 1 show ?thesis by (simp add: handleLogin_def two_fields_def proto_string_lp)
qed

text \<open>The heartbeat is decoded from its tag byte on, so the answer is not the time that was sent.\<close>

lemma heartbeat_not_echoed: "heartbeat_value (encodeC2S_Heartbeat 1) = 0x108"
  by code_simp

text \<open>Nobody is ever put into a room, so a chat message reaches nobody.\<close>

definition rooms_empty :: "ws_game \<Rightarrow> bool" where
  "rooms_empty s \<longleftrightarrow> (\<forall>rid fds. ws_rooms s rid = Some fds \<longrightarrow> fds = {})"

lemma rooms_emptyD: "rooms_empty s \<Longrightarrow> ws_rooms s rid = Some fds \<Longrightarrow> fds = {}"
  unfolding rooms_empty_def by blast

lemma rooms_empty_players [simp]: "rooms_empty (s\<lparr>ws_players := ps\<rparr>) \<longleftrightarrow> rooms_empty s"
  by (simp add: rooms_empty_def)

lemma rooms_empty_upd:
  assumes "rooms_empty s" "v = None \<or> v = Some {}"
  shows "rooms_empty (s\<lparr>ws_rooms := (ws_rooms s)(rid := v)\<rparr>)"
  unfolding rooms_empty_def using assms rooms_emptyD by auto

lemma broadcastChat_nobody:
  assumes "rooms_empty s" "order {} = []"
  shows "fst (broadcastChat order rid p content s) = []" "rooms_empty (snd (broadcastChat order rid p content s))"
  using assms rooms_emptyD [OF assms(1), of rid]
  by (auto simp: broadcastChat_def Let_def intro!: rooms_empty_upd split: option.split)

lemma chat_reaches_nobody:
  assumes "rooms_empty s" "order {} = []" "handleChat order fd content s = Inr (out, s')"
  shows "out = [] \<and> rooms_empty s'"
proof -
  from assms(3) consider "out = []" "s' = s"
    | ps rid p c where "broadcastChat order rid p c (s\<lparr>ws_players := ps\<rparr>) = (out, s')"
    by (auto simp: handleChat_def split: option.split_asm)
  then show ?thesis
  proof cases
    case 2
    with broadcastChat_nobody [of "s\<lparr>ws_players := ps\<rparr>" order rid p c] assms(1,2) show ?thesis
      by (metis fst_conv snd_conv rooms_empty_players)
  qed (simp add: assms(1))
qed

lemma handle_payload_rooms:
  assumes "rooms_empty s" "order {} = []" "handle_payload order fd payload s = Inr (out, s')"
  shows "rooms_empty s'"
  using assms(3,1) chat_reaches_nobody [where order = order, OF assms(1,2)]
  by (auto simp: handle_payload_def handleLogin_def split: option.split_asm if_split_asm)

lemma ws_on_disconnect_rooms:
  assumes "rooms_empty s"
  shows "rooms_empty (ws_on_disconnect fd s)"
  using assms rooms_emptyD [OF assms]
  by (auto simp: ws_on_disconnect_def Let_def intro!: rooms_empty_upd split: option.split)

section \<open>The JSON server\<close>

definition dq :: char where "dq = CHR 0x22"

definition key_text :: "string \<Rightarrow> string" where
  "key_text k = dq # k @ [dq]"

text \<open>Frames carry text: one byte per character, with the header of a text frame.\<close>

definition ws_write_text_frame :: "string \<Rightarrow> bytes" where
  "ws_write_text_frame data = 0x81 # length_bytes (of_nat (length data)) @ ascii data"

text \<open>
  \<^verbatim>\<open>payload.find(quote, start) + 1\<close>: the position after the quotation mark, and 0 when there is none, since the sum wraps around. Then the text
  up to the next quotation mark; \<open>skip\<close> is the distance from the key the code adds.
\<close>

definition json_value :: "string \<Rightarrow> nat \<Rightarrow> string \<Rightarrow> string option" where
  "json_value k skip payload = (case str_find (key_text k) payload of
     None \<Rightarrow> None
   | Some start \<Rightarrow>
       let start1 = (case str_find_from [dq] payload (start + skip) of None \<Rightarrow> 0 | Some i \<Rightarrow> i + 1)
       in case str_find_from [dq] payload start1 of
            None \<Rightarrow> None
          | Some e \<Rightarrow> if e < start1 then None else Some (substr payload start1 (e - start1)))"

record json_player =
  jp_player_id :: string
  jp_room_id :: string

record json_game =
  json_players :: "int \<rightharpoonup> json_player"
  json_rooms :: "string \<rightharpoonup> int set"

definition json_handleLogin :: "int \<Rightarrow> string \<Rightarrow> json_game \<Rightarrow> ws_sends \<times> json_game" where
  "json_handleLogin fd payload s = (case json_value ''playerId'' 11 payload of
     None \<Rightarrow> ([], s)
   | Some pid \<Rightarrow>
       ([(fd, ws_write_text_frame (''{'' @ key_text ''type'' @ '':'' @ key_text ''login'' @ '','' @ key_text ''ok'' @ '':true,'' @
            key_text ''message'' @ '':'' @ key_text ''Login success'' @ ''}''))],
        s\<lparr>json_players := (json_players s)(fd \<mapsto> \<lparr>jp_player_id = pid, jp_room_id = []\<rparr>)\<rparr>))"

definition json_broadcastChat :: "(int set \<Rightarrow> int list) \<Rightarrow> string \<Rightarrow> string \<Rightarrow> json_game \<Rightarrow> ws_sends \<times> json_game" where
  "json_broadcastChat order rid text_msg s =
     (let s1 = (case json_rooms s rid of None \<Rightarrow> s\<lparr>json_rooms := (json_rooms s)(rid \<mapsto> {})\<rparr> | Some _ \<Rightarrow> s)
      in (map (\<lambda>fd. (fd, ws_write_text_frame text_msg)) (order (the (json_rooms s1 rid))), s1))"

definition json_handleChat :: "(int set \<Rightarrow> int list) \<Rightarrow> int \<Rightarrow> string \<Rightarrow> json_game \<Rightarrow> ws_sends \<times> json_game" where
  "json_handleChat order fd payload s = (case json_players s fd of
     None \<Rightarrow> ([], s)
   | Some p \<Rightarrow> (case json_value ''content'' 10 payload of
       None \<Rightarrow> ([], s)
     | Some content \<Rightarrow>
         json_broadcastChat order ''main''
           (''{'' @ key_text ''type'' @ '':'' @ key_text ''chat'' @ '','' @ key_text ''fromPlayerId'' @ '':'' @ key_text (jp_player_id p) @
            '','' @ key_text ''content'' @ '':'' @ key_text content @ ''}'')
           (s\<lparr>json_players := (json_players s)(fd \<mapsto> p\<lparr>jp_room_id := ''main''\<rparr>)\<rparr>)))"

definition json_handle_payload :: "(int set \<Rightarrow> int list) \<Rightarrow> int \<Rightarrow> string \<Rightarrow> json_game \<Rightarrow> ws_sends \<times> json_game" where
  "json_handle_payload order fd payload s =
     (if str_find (key_text ''type'' @ '':'' @ key_text ''login'') payload \<noteq> None then json_handleLogin fd payload s
      else if str_find (key_text ''type'' @ '':'' @ key_text ''chat'') payload \<noteq> None then json_handleChat order fd payload s
      else ([], s))"

definition json_on_disconnect :: "int \<Rightarrow> json_game \<Rightarrow> json_game" where
  "json_on_disconnect fd s = (case json_players s fd of
     None \<Rightarrow> s
   | Some p \<Rightarrow>
       let s1 = (case json_rooms s (jp_room_id p) of
                   None \<Rightarrow> s
                 | Some fds \<Rightarrow> s\<lparr>json_rooms := (json_rooms s)(jp_room_id p := (if fds - {fd} = {} then None else Some (fds - {fd})))\<rparr>)
       in s1\<lparr>json_players := (json_players s1)(fd := None)\<rparr>)"

function json_client_loop :: "(int set \<Rightarrow> int list) \<Rightarrow> int \<Rightarrow> bytes \<Rightarrow> json_game \<Rightarrow> ws_sends \<times> json_game" where
  "json_client_loop order fd input s = (case ws_read_frame input of
     None \<Rightarrow> ([], json_on_disconnect fd s)
   | Some (payload, rest) \<Rightarrow>
       let (out, s1) = json_handle_payload order fd (map (\<lambda>b. char_of (unat b)) payload) s; (out', s2) = json_client_loop order fd rest s1
       in (out @ out', s2))"
  by pat_completeness auto
termination
  by (relation "measure (\<lambda>(order, fd, input, s). length input)") (auto dest: ws_read_frame_shorter)

declare json_client_loop.simps [simp del]

text \<open>A login as the web client writes it: the identifier is what stands between the quotation marks.\<close>

definition login_text :: "string \<Rightarrow> string" where
  "login_text pid = ''{'' @ key_text ''type'' @ '':'' @ key_text ''login'' @ '','' @ key_text ''playerId'' @ '':'' @ key_text pid @ ''}''"

lemma json_login:
  assumes "dq \<notin> set pid"
  shows "json_value ''playerId'' 11 (login_text pid) = Some pid"
proof -
  have "str_find (key_text ''playerId'') (login_text pid) = Some 16"
    by (simp add: login_text_def key_text_def dq_def)
  moreover have "str_find_from [dq] (login_text pid) 27 = Some 27"
    by (simp add: str_find_from_def login_text_def key_text_def)
  moreover have "drop 28 (login_text pid) = pid @ [dq] @ ''}''" by (simp add: login_text_def key_text_def)
  then have "str_find_from [dq] (login_text pid) 28 = Some (28 + length pid)" "substr (login_text pid) 28 (length pid) = pid"
    using str_find_first [OF assms, of "[]" "''}''"] by (simp_all add: str_find_from_def substr_def)
  ultimately show ?thesis by (simp add: json_value_def Let_def)
qed

lemma json_login_registers:
  assumes "dq \<notin> set pid"
  shows "map_option jp_player_id (json_players (snd (json_handle_payload order fd (login_text pid) s)) fd) = Some pid"
proof -
  have "str_find (key_text ''type'' @ '':'' @ key_text ''login'') (login_text pid) = Some 1"
    by (simp add: login_text_def key_text_def dq_def)
  with json_login [OF assms] show ?thesis by (simp add: json_handle_payload_def json_handleLogin_def)
qed

text \<open>An identifier that is not a string is accepted: the search wraps around and the player is called by the opening brace.\<close>

lemma json_login_number:
  "json_value ''playerId'' 11 (''{'' @ key_text ''type'' @ '':'' @ key_text ''login'' @ '','' @ key_text ''playerId'' @ '':5}'') = Some ''{''"
  by (simp add: json_value_def key_text_def dq_def str_find_from_def substr_def)

end
