(* ===== verification/GameRooms.thy ===== *)
theory GameRooms
  imports GameService Document
begin

text \<open>
  The duel game of \<^verbatim>\<open>examples/game_server.cpp\<close>: the rooms component with its handlers on top of the router and the session manager of the
  game service. Connections are numbers, as in the service. The time and the value of \<^verbatim>\<open>rand() % 1000\<close> that a handler reads are arguments
  of the event. The handlers run one at a time; the C++ \<^verbatim>\<open>int\<close> counter of rounds is an \<open>int\<close>, it would wrap only after \<open>2 ^ 31\<close> moves
  of one game.
\<close>

section \<open>State\<close>

definition CMD_HEARTBEAT :: "16 word" where "CMD_HEARTBEAT = 3"
definition CMD_LOGIN :: "16 word" where "CMD_LOGIN = 10"
definition CMD_LOGOUT :: "16 word" where "CMD_LOGOUT = 11"
definition CMD_LIST_ROOMS :: "16 word" where "CMD_LIST_ROOMS = 20"
definition CMD_CREATE_ROOM :: "16 word" where "CMD_CREATE_ROOM = 21"
definition CMD_JOIN_ROOM :: "16 word" where "CMD_JOIN_ROOM = 22"
definition CMD_LEAVE_ROOM :: "16 word" where "CMD_LEAVE_ROOM = 23"
definition CMD_ROOM_INFO :: "16 word" where "CMD_ROOM_INFO = 24"
definition CMD_START_GAME :: "16 word" where "CMD_START_GAME = 25"
definition CMD_GAME_STATE :: "16 word" where "CMD_GAME_STATE = 26"
definition CMD_GAME_ACTION :: "16 word" where "CMD_GAME_ACTION = 27"

lemmas duel_cmds = CMD_HEARTBEAT_def CMD_LOGIN_def CMD_LOGOUT_def CMD_LIST_ROOMS_def CMD_CREATE_ROOM_def CMD_JOIN_ROOM_def
  CMD_LEAVE_ROOM_def CMD_ROOM_INFO_def CMD_START_GAME_def CMD_GAME_STATE_def CMD_GAME_ACTION_def

record duel_room =
  dr_room_id :: bytes
  dr_name :: bytes
  owner_conn :: "nat option"
  dr_members :: "nat list"
  dr_state :: int
  hp :: "int list"
  turn :: int
  dr_round :: int
  dr_result :: string

definition new_room :: duel_room where
  "new_room = \<lparr>dr_room_id = [], dr_name = [], owner_conn = None, dr_members = [], dr_state = 0, hp = [100, 100], turn = 0, dr_round = 0, dr_result = []\<rparr>"

record duel =
  svc :: game
  duel_rooms :: "bytes \<rightharpoonup> duel_room"
  conn_to_room :: "nat \<rightharpoonup> bytes"

section \<open>GameRoomComponent\<close>

definition gen_room_id :: "int \<Rightarrow> nat \<Rightarrow> bytes" where
  "gen_room_id now rnd = ascii (CHR ''r'' # dec (unat (of_int now * 1000 + of_nat (rnd mod 1000) :: 32 word)))"

definition quoted :: "bytes \<Rightarrow> bytes" where
  "quoted s = ascii [char_of (34 :: nat)] @ s @ ascii [char_of (34 :: nat)]"

definition room_info_json :: "duel_room \<Rightarrow> bytes" where
  "room_info_json r =
     ascii ''{'' @ quoted (ascii ''roomId'') @ ascii '':'' @ quoted (dr_room_id r) @ ascii '','' @ quoted (ascii ''name'') @ ascii '':'' @ quoted (dr_name r) @
     ascii '','' @ quoted (ascii ''players'') @ ascii ('':'' @ dec (length (dr_members r))) @
     ascii '','' @ quoted (ascii ''state'') @ ascii ('':'' @ to_string_int (dr_state r)) @
     ascii '','' @ quoted (ascii ''result'') @ ascii '':'' @ quoted (ascii (dr_result r)) @ ascii ''}''"

definition game_state_json :: "duel_room \<Rightarrow> bytes" where
  "game_state_json r =
     ascii ''{'' @ quoted (ascii ''hp'') @ ascii ('':['' @ to_string_int (hp r ! 0) @ '','' @ to_string_int (hp r ! 1) @ '']'') @
     ascii '','' @ quoted (ascii ''turn'') @ ascii ('':'' @ to_string_int (turn r)) @
     ascii '','' @ quoted (ascii ''round'') @ ascii ('':'' @ to_string_int (dr_round r)) @
     ascii '','' @ quoted (ascii ''result'') @ ascii '':'' @ quoted (ascii (dr_result r)) @ ascii ''}''"

definition broadcast_room_info :: "duel \<Rightarrow> bytes \<Rightarrow> sends" where
  "broadcast_room_info s rid = (case duel_rooms s rid of
     None \<Rightarrow> []
   | Some r \<Rightarrow> concat (map (\<lambda>c. send_message c \<lparr>cmd = CMD_ROOM_INFO, body = room_info_json r\<rparr>) (dr_members r)))"

definition broadcast_game_state :: "duel \<Rightarrow> bytes \<Rightarrow> sends" where
  "broadcast_game_state s rid = (case duel_rooms s rid of
     None \<Rightarrow> []
   | Some r \<Rightarrow> concat (map (\<lambda>c. send_message c \<lparr>cmd = CMD_GAME_STATE, body = game_state_json r\<rparr>) (dr_members r)))"

text \<open>What leaving does to a room that keeps a member.\<close>

definition room_without :: "nat \<Rightarrow> duel_room \<Rightarrow> duel_room" where
  "room_without conn r =
     (let m = removeAll conn (dr_members r);
          r1 = r\<lparr>dr_members := m\<rparr>;
          r2 = (if owner_conn r1 = Some conn then r1\<lparr>owner_conn := Some (hd m)\<rparr> else r1)
      in if dr_state r2 = 1 then r2\<lparr>dr_state := 0, dr_result := ''opponent_left''\<rparr> else r2)"

definition leave_room_internal :: "duel \<Rightarrow> nat \<Rightarrow> sends \<times> duel" where
  "leave_room_internal s conn = (case conn_to_room s conn of
     None \<Rightarrow> ([], s)
   | Some rid \<Rightarrow>
       let s1 = s\<lparr>conn_to_room := (conn_to_room s)(conn := None)\<rparr>
       in case duel_rooms s1 rid of
            None \<Rightarrow> ([], s1)
          | Some r \<Rightarrow>
              if removeAll conn (dr_members r) = [] then ([], s1\<lparr>duel_rooms := (duel_rooms s1)(rid := None)\<rparr>)
              else let s2 = s1\<lparr>duel_rooms := (duel_rooms s1)(rid \<mapsto> room_without conn r)\<rparr>
                   in (broadcast_room_info s2 rid, s2))"

section \<open>Handlers\<close>

definition send_reply :: "nat \<Rightarrow> 16 word \<Rightarrow> string \<Rightarrow> sends" where
  "send_reply conn c text_msg = send_message conn \<lparr>cmd = c, body = ascii text_msg\<rparr>"

definition duel_login :: "int \<Rightarrow> nat \<Rightarrow> bytes \<Rightarrow> duel \<Rightarrow> sends \<times> duel" where
  "duel_login now conn pid s =
     (if pid = [] then (send_reply conn CMD_LOGIN ''login failed: empty player_id'', s)
      else (send_message conn \<lparr>cmd = CMD_LOGIN, body = ascii ''login ok: '' @ pid\<rparr>, s\<lparr>svc := session_login (svc s) now conn pid\<rparr>))"

definition duel_logout :: "nat \<Rightarrow> duel \<Rightarrow> sends \<times> duel" where
  "duel_logout conn s =
     (if \<not> is_logged_in (svc s) conn then (send_reply conn CMD_LOGOUT ''not logged in'', s)
      else let (out, s1) = leave_room_internal s conn; pid = get_player_id (svc s1) conn
           in (out @ send_message conn \<lparr>cmd = CMD_LOGOUT, body = ascii ''logout ok: '' @ pid\<rparr>, s1\<lparr>svc := session_logout (svc s1) conn\<rparr>))"

definition duel_heartbeat :: "nat \<Rightarrow> duel \<Rightarrow> sends \<times> duel" where
  "duel_heartbeat conn s = (send_reply conn CMD_HEARTBEAT ''pong'', s)"

definition open_room :: "duel_room \<Rightarrow> bool" where
  "open_room r \<longleftrightarrow> \<not> (dr_state r \<noteq> 0 \<or> 2 \<le> length (dr_members r))"

definition list_entry :: "duel_room \<Rightarrow> bytes" where
  "list_entry r =
     ascii ''{'' @ quoted (ascii ''id'') @ ascii '':'' @ quoted (dr_room_id r) @ ascii '','' @ quoted (ascii ''name'') @ ascii '':'' @ quoted (dr_name r) @
     ascii '','' @ quoted (ascii ''players'') @ ascii ('':'' @ dec (length (dr_members r))) @
     ascii '','' @ quoted (ascii ''state'') @ ascii ('':'' @ to_string_int (dr_state r)) @ ascii ''}''"

fun list_entries :: "duel_room list \<Rightarrow> bool \<Rightarrow> bytes" where
  "list_entries [] first = []"
| "list_entries (r # rs) first =
     (if open_room r then (if first then [] else ascii '','') @ list_entry r @ list_entries rs False else list_entries rs first)"

text \<open>The rooms are walked in the order of their identifiers.\<close>

definition duel_list_rooms :: "nat \<Rightarrow> duel \<Rightarrow> sends \<times> duel" where
  "duel_list_rooms conn s =
     (if \<not> is_logged_in (svc s) conn then (send_reply conn CMD_LIST_ROOMS ''[]'', s)
      else (send_message conn \<lparr>cmd = CMD_LIST_ROOMS,
              body = ascii ''['' @ list_entries (map (the \<circ> duel_rooms s) (sorted_list_of_set (dom (duel_rooms s)))) True @ ascii '']''\<rparr>, s))"

definition duel_create_room :: "int \<Rightarrow> nat \<Rightarrow> nat \<Rightarrow> bytes \<Rightarrow> duel \<Rightarrow> sends \<times> duel" where
  "duel_create_room now rnd conn name s =
     (if \<not> is_logged_in (svc s) conn then (send_reply conn CMD_CREATE_ROOM ''err:login'', s)
      else if conn_to_room s conn \<noteq> None then (send_reply conn CMD_CREATE_ROOM ''err:in_room'', s)
      else let rid = gen_room_id now rnd;
               r = new_room\<lparr>dr_room_id := rid, dr_name := (if name = [] then ascii ''room'' else name), owner_conn := Some conn, dr_members := [conn]\<rparr>;
               s1 = s\<lparr>duel_rooms := (duel_rooms s)(rid \<mapsto> r), conn_to_room := (conn_to_room s)(conn \<mapsto> rid)\<rparr>
           in (send_message conn \<lparr>cmd = CMD_CREATE_ROOM, body = rid\<rparr> @ broadcast_room_info s1 rid, s1))"

definition chomp :: "bytes \<Rightarrow> bytes" where
  "chomp s = rev (dropWhile (\<lambda>b. b = 13 \<or> b = 10) (rev s))"

definition duel_join_room :: "nat \<Rightarrow> bytes \<Rightarrow> duel \<Rightarrow> sends \<times> duel" where
  "duel_join_room conn data s =
     (if \<not> is_logged_in (svc s) conn then (send_reply conn CMD_JOIN_ROOM ''err:login'', s)
      else let rid = chomp data
           in case duel_rooms s rid of
                None \<Rightarrow> (send_reply conn CMD_JOIN_ROOM ''err:no_room'', s)
              | Some r \<Rightarrow>
                  if dr_state r \<noteq> 0 \<or> 2 \<le> length (dr_members r) then (send_reply conn CMD_JOIN_ROOM ''err:full'', s)
                  else if conn_to_room s conn \<noteq> None then (send_reply conn CMD_JOIN_ROOM ''err:in_room'', s)
                  else let s1 = s\<lparr>duel_rooms := (duel_rooms s)(rid \<mapsto> r\<lparr>dr_members := dr_members r @ [conn]\<rparr>),
                                  conn_to_room := (conn_to_room s)(conn \<mapsto> rid)\<rparr>
                       in (send_reply conn CMD_JOIN_ROOM ''ok'' @ broadcast_room_info s1 rid, s1))"

definition duel_leave_room :: "nat \<Rightarrow> duel \<Rightarrow> sends \<times> duel" where
  "duel_leave_room conn s =
     (if \<not> is_logged_in (svc s) conn then (send_reply conn CMD_LEAVE_ROOM ''err:login'', s)
      else let (out, s1) = leave_room_internal s conn in (out @ send_reply conn CMD_LEAVE_ROOM ''ok'', s1))"

text \<open>\<^verbatim>\<open>rooms_[id]\<close>: a missing room is created with the default values.\<close>

definition room_at :: "duel \<Rightarrow> bytes \<Rightarrow> duel_room \<times> duel" where
  "room_at s rid = (case duel_rooms s rid of
     Some r \<Rightarrow> (r, s)
   | None \<Rightarrow> (new_room, s\<lparr>duel_rooms := (duel_rooms s)(rid \<mapsto> new_room)\<rparr>))"

definition duel_start_game :: "nat \<Rightarrow> duel \<Rightarrow> sends \<times> duel" where
  "duel_start_game conn s =
     (if \<not> is_logged_in (svc s) conn then (send_reply conn CMD_START_GAME ''err:login'', s)
      else case conn_to_room s conn of
             None \<Rightarrow> (send_reply conn CMD_START_GAME ''err:no_room'', s)
           | Some rid \<Rightarrow>
               let (r, s1) = room_at s rid
               in if owner_conn r \<noteq> Some conn then (send_reply conn CMD_START_GAME ''err:not_owner'', s1)
                  else if length (dr_members r) < 2 then (send_reply conn CMD_START_GAME ''err:need_2'', s1)
                  else if dr_state r \<noteq> 0 then (send_reply conn CMD_START_GAME ''err:playing'', s1)
                  else let s2 = s1\<lparr>duel_rooms := (duel_rooms s1)(rid \<mapsto>
                                 r\<lparr>dr_state := 1, hp := [100, 100], turn := 0, dr_round := 0, dr_result := []\<rparr>)\<rparr>
                       in (send_reply conn CMD_START_GAME ''ok'' @ broadcast_game_state s2 rid, s2))"

fun member_index :: "nat \<Rightarrow> nat list \<Rightarrow> int \<Rightarrow> int" where
  "member_index conn [] i = -1"
| "member_index conn (c # cs) i = (if c = conn then i else member_index conn cs (i + 1))"

text \<open>One move of the player with index \<open>idx\<close>.\<close>

definition game_move :: "int \<Rightarrow> bytes \<Rightarrow> duel_room \<Rightarrow> duel_room" where
  "game_move idx action r =
     (let other = 1 - idx;
          h = (if action = ascii ''attack''
               then (let v = hp r ! nat other - 10 in (hp r)[nat other := (if v < 0 then 0 else v)]) else hp r);
          r1 = r\<lparr>hp := h, turn := other, dr_round := dr_round r + 1\<rparr>
      in if h ! 0 \<le> 0 \<or> h ! 1 \<le> 0 then r1\<lparr>dr_state := 0, dr_result := (if h ! 0 \<le> 0 then ''p2_win'' else ''p1_win'')\<rparr> else r1)"

definition duel_action :: "nat \<Rightarrow> bytes \<Rightarrow> duel \<Rightarrow> sends \<times> duel" where
  "duel_action conn data s =
     (if \<not> is_logged_in (svc s) conn then (send_reply conn CMD_GAME_ACTION ''err:login'', s)
      else case conn_to_room s conn of
             None \<Rightarrow> (send_reply conn CMD_GAME_ACTION ''err:no_room'', s)
           | Some rid \<Rightarrow>
               let (r, s1) = room_at s rid
               in if dr_state r \<noteq> 1 then (send_reply conn CMD_GAME_ACTION ''err:not_playing'', s1)
                  else let idx = member_index conn (dr_members r) 0
                       in if idx < 0 \<or> idx \<noteq> turn r then (send_reply conn CMD_GAME_ACTION ''err:not_turn'', s1)
                          else let s2 = s1\<lparr>duel_rooms := (duel_rooms s1)(rid \<mapsto> game_move idx (chomp data) r)\<rparr>
                               in (send_reply conn CMD_GAME_ACTION ''ok'' @ broadcast_game_state s2 rid, s2))"

section \<open>The server\<close>

definition duel_route :: "int \<Rightarrow> nat \<Rightarrow> nat \<Rightarrow> message \<Rightarrow> duel \<Rightarrow> sends \<times> duel" where
  "duel_route now rnd conn msg s =
     (if cmd msg = CMD_LOGIN then duel_login now conn (body msg) s
      else if cmd msg = CMD_LOGOUT then duel_logout conn s
      else if cmd msg = CMD_HEARTBEAT then duel_heartbeat conn s
      else if cmd msg = CMD_LIST_ROOMS then duel_list_rooms conn s
      else if cmd msg = CMD_CREATE_ROOM then duel_create_room now rnd conn (body msg) s
      else if cmd msg = CMD_JOIN_ROOM then duel_join_room conn (body msg) s
      else if cmd msg = CMD_LEAVE_ROOM then duel_leave_room conn s
      else if cmd msg = CMD_START_GAME then duel_start_game conn s
      else if cmd msg = CMD_GAME_ACTION then duel_action conn (body msg) s
      else ([], s))"

text \<open>A connection closes: router, session manager and rooms component, in the order they were added.\<close>

definition duel_disconnect :: "int \<Rightarrow> nat \<Rightarrow> duel \<Rightarrow> sends \<times> duel" where
  "duel_disconnect now conn s =
     leave_room_internal (s\<lparr>svc := on_disconnect now conn (on_disconnect now conn (svc s) Router) SessionMgr\<rparr>) conn"

text \<open>The components of \<^verbatim>\<open>main\<close>: nobody registers the handlers of the game service in this program.\<close>

definition duel_init :: duel where
  "duel_init = \<lparr>svc = add_component (add_component game_init Router) SessionMgr, duel_rooms = Map.empty, conn_to_room = Map.empty\<rparr>"

datatype duel_event = Incoming int nat nat message | Closed int nat

fun duel_step :: "duel_event \<Rightarrow> duel \<Rightarrow> sends \<times> duel" where
  "duel_step (Incoming now rnd conn msg) s = duel_route now rnd conn msg s"
| "duel_step (Closed now conn) s = duel_disconnect now conn s"

text \<open>Bytes of a connection: its parser cuts them into messages, which are handled in order; \<open>env\<close> has what the \<open>i\<close>-th handler reads.\<close>

fun duel_route_all :: "(nat \<Rightarrow> int \<times> nat) \<Rightarrow> nat \<Rightarrow> nat \<Rightarrow> message list \<Rightarrow> duel \<Rightarrow> sends \<times> duel" where
  "duel_route_all env i conn [] s = ([], s)"
| "duel_route_all env i conn (m # ms) s =
     (let (out, s1) = duel_route (fst (env i)) (snd (env i)) conn m s; (out', s2) = duel_route_all env (i + 1) conn ms s1
      in (out @ out', s2))"

definition duel_on_data :: "(nat \<Rightarrow> int \<times> nat) \<Rightarrow> nat \<Rightarrow> bytes \<Rightarrow> duel \<Rightarrow> sends \<times> duel" where
  "duel_on_data env conn data s =
     (let p = (case parsers (svc s) conn of None \<Rightarrow> parser_init | Some p \<Rightarrow> p); (msgs, p') = feed p data
      in duel_route_all env 0 conn msgs (s\<lparr>svc := (svc s)\<lparr>parsers := (parsers (svc s))(conn \<mapsto> p')\<rparr>\<rparr>))"

section \<open>Invariant\<close>

definition room_ok :: "(nat \<rightharpoonup> bytes) \<Rightarrow> bytes \<Rightarrow> duel_room \<Rightarrow> bool" where
  "room_ok places rid r \<longleftrightarrow>
     dr_room_id r = rid \<and> distinct (dr_members r) \<and> length (dr_members r) \<le> 2 \<and>
     (\<exists>c. owner_conn r = Some c \<and> c \<in> set (dr_members r)) \<and>
     (\<forall>c. c \<in> set (dr_members r) \<longleftrightarrow> places c = Some rid)"

text \<open>The score: two values from 0 to 100; a running game has two players alive and no result, and a result names the player who is left.\<close>

definition score_ok :: "duel_room \<Rightarrow> bool" where
  "score_ok r \<longleftrightarrow>
     (\<exists>a b. hp r = [a, b] \<and> 0 \<le> a \<and> a \<le> 100 \<and> 0 \<le> b \<and> b \<le> 100 \<and>
        (dr_state r = 1 \<longrightarrow> length (dr_members r) = 2 \<and> 0 < a \<and> 0 < b \<and> dr_result r = []) \<and>
        (dr_result r = ''p1_win'' \<longrightarrow> 0 < a \<and> b = 0) \<and> (dr_result r = ''p2_win'' \<longrightarrow> a = 0 \<and> 0 < b)) \<and>
     dr_state r \<in> {0, 1} \<and> turn r \<in> {0, 1} \<and> 0 \<le> dr_round r"

definition duel_inv :: "duel \<Rightarrow> bool" where
  "duel_inv s \<longleftrightarrow>
     (\<forall>rid r. duel_rooms s rid = Some r \<longrightarrow> room_ok (conn_to_room s) rid r \<and> score_ok r) \<and>
     (\<forall>c rid. conn_to_room s c = Some rid \<longrightarrow> duel_rooms s rid \<noteq> None \<and> is_logged_in (svc s) c)"

lemma duel_invI [intro?]:
  assumes "\<And>rid r. duel_rooms s rid = Some r \<Longrightarrow> room_ok (conn_to_room s) rid r \<and> score_ok r"
    and "\<And>c rid. conn_to_room s c = Some rid \<Longrightarrow> duel_rooms s rid \<noteq> None \<and> is_logged_in (svc s) c"
  shows "duel_inv s"
  using assms by (simp add: duel_inv_def)

lemma duel_invD:
  assumes "duel_inv s"
  shows "duel_rooms s rid = Some r \<Longrightarrow> room_ok (conn_to_room s) rid r"
    and "duel_rooms s rid = Some r \<Longrightarrow> score_ok r"
    and "conn_to_room s c = Some rid \<Longrightarrow> \<exists>r. duel_rooms s rid = Some r"
    and "conn_to_room s c = Some rid \<Longrightarrow> is_logged_in (svc s) c"
  using assms by (auto simp: duel_inv_def)

text \<open>A session change keeps the invariant as long as nobody in a room loses the login.\<close>

lemma duel_inv_svc:
  assumes "duel_inv s" "\<And>c. conn_to_room s c \<noteq> None \<Longrightarrow> is_logged_in g c"
  shows "duel_inv (s\<lparr>svc := g\<rparr>)"
  using assms by (auto simp: duel_inv_def)

text \<open>Replacing a room by one with the same identifier, owner and members.\<close>

lemma duel_inv_room:
  assumes inv: "duel_inv s" and r: "duel_rooms s rid = Some r" and score: "score_ok r'"
    and same: "dr_room_id r' = dr_room_id r" "dr_members r' = dr_members r" "owner_conn r' = owner_conn r"
  shows "duel_inv (s\<lparr>duel_rooms := (duel_rooms s)(rid \<mapsto> r')\<rparr>)"
proof -
  have "room_ok (conn_to_room s) rid r'" using duel_invD(1) [OF inv r] same by (auto simp: room_ok_def)
  then show ?thesis using inv score by (auto simp: duel_inv_def)
qed

lemma room_without_fields [simp]:
  "dr_room_id (room_without conn r) = dr_room_id r" "dr_members (room_without conn r) = removeAll conn (dr_members r)"
  "owner_conn (room_without conn r) = (if owner_conn r = Some conn then Some (hd (removeAll conn (dr_members r))) else owner_conn r)"
  "hp (room_without conn r) = hp r" "turn (room_without conn r) = turn r" "dr_round (room_without conn r) = dr_round r"
  "dr_state (room_without conn r) = (if dr_state r = 1 then 0 else dr_state r)"
  "dr_result (room_without conn r) = (if dr_state r = 1 then ''opponent_left'' else dr_result r)"
  by (simp_all add: room_without_def Let_def)

lemma room_without_ok:
  assumes "room_ok places rid r" "score_ok r" "removeAll conn (dr_members r) \<noteq> []"
  shows "room_ok (places(conn := None)) rid (room_without conn r)" "score_ok (room_without conn r)"
proof -
  have l: "length (removeAll conn (dr_members r)) \<le> 2"
    using assms(1) by (intro order.trans [OF length_removeAll_less_eq]) (simp add: room_ok_def)
  have h: "hd (removeAll conn (dr_members r)) \<in> set (removeAll conn (dr_members r))" using assms(3) by (rule hd_in_set)
  from assms(1) obtain c where c: "owner_conn r = Some c" "c \<in> set (dr_members r)" by (auto simp: room_ok_def)
  have "\<exists>c. owner_conn (room_without conn r) = Some c \<and> c \<in> set (removeAll conn (dr_members r))"
    using h c by (cases "c = conn") simp_all
  moreover have "\<forall>c. c \<in> set (removeAll conn (dr_members r)) \<longleftrightarrow> (places(conn := None)) c = Some rid"
    using assms(1) by (simp add: room_ok_def)
  ultimately show "room_ok (places(conn := None)) rid (room_without conn r)"
    using assms(1) l by (auto simp: room_ok_def distinct_removeAll simp del: set_removeAll room_without_fields(3))
  show "score_ok (room_without conn r)"
    using assms(2) by (auto simp: score_ok_def)
qed

lemma leave_room_internal_inv:
  assumes "duel_inv s"
  shows "duel_inv (snd (leave_room_internal s conn))"
proof (cases "conn_to_room s conn")
  case None
  with assms show ?thesis by (simp add: leave_room_internal_def)
next
  case (Some rid)
  with duel_invD(3) [OF assms] obtain r where r: "duel_rooms s rid = Some r" by blast
  note ok = duel_invD(1,2) [OF assms r]
  let ?places = "(conn_to_room s)(conn := None)"
  have other: "room_ok ?places q t" if "duel_rooms s q = Some t" "q \<noteq> rid" for q t
    using duel_invD(1) [OF assms that(1)] that(2) Some by (auto simp: room_ok_def)
  show ?thesis
  proof (cases "removeAll conn (dr_members r) = []")
    case True
    then have "set (dr_members r) \<subseteq> {conn}" by (metis Diff_eq_empty_iff set_empty set_removeAll)
    then have "conn_to_room s c \<noteq> Some rid" if "c \<noteq> conn" for c
      using ok(1) that by (auto simp: room_ok_def)
    with other assms True r Some show ?thesis
      by (auto simp: leave_room_internal_def Let_def duel_inv_def split: if_split_asm)
  next
    case False
    with room_without_ok [OF ok False] other assms r Some show ?thesis
      by (auto simp: leave_room_internal_def Let_def duel_inv_def split: if_split_asm)
  qed
qed

lemma leave_room_internal_svc [simp]: "svc (snd (leave_room_internal s conn)) = svc s"
  by (simp add: leave_room_internal_def Let_def split: option.split)

lemma leave_room_internal_out [simp]: "duel_inv s \<Longrightarrow> conn_to_room (snd (leave_room_internal s conn)) = (conn_to_room s)(conn := None)"
  by (auto simp: leave_room_internal_def Let_def split: option.split)

lemma room_at_inv:
  assumes "duel_inv s" "conn_to_room s c = Some rid"
  obtains r where "duel_rooms s rid = Some r" "room_at s rid = (r, s)"
  using duel_invD(3) [OF assms] by (auto simp: room_at_def)

lemma duel_login_inv:
  assumes "duel_inv s"
  shows "duel_inv (snd (duel_login now conn pid s))"
proof -
  have "is_logged_in (session_login (svc s) now conn pid) c \<longleftrightarrow> c = conn \<or> is_logged_in (svc s) c" for c
    by (auto simp: is_logged_in_def session_login_def Let_def)
  then show ?thesis using assms duel_invD(4) [OF assms]
    by (auto simp: duel_login_def intro!: duel_inv_svc)
qed

lemma duel_logout_inv:
  assumes "duel_inv s"
  shows "duel_inv (snd (duel_logout conn s))"
  using leave_room_internal_inv [OF assms, of conn] assms
  by (auto simp: duel_logout_def Let_def split_beta intro!: duel_inv_svc)
    (auto simp: is_logged_in_def session_logout_def dest: duel_invD(4))

text \<open>A connection that is in no room enters one.\<close>

lemma duel_inv_enter:
  assumes inv: "duel_inv s" and conn: "conn_to_room s conn = None" "is_logged_in (svc s) conn"
    and r: "room_ok ((conn_to_room s)(conn \<mapsto> rid)) rid r" "score_ok r"
  shows "duel_inv (s\<lparr>duel_rooms := (duel_rooms s)(rid \<mapsto> r), conn_to_room := (conn_to_room s)(conn \<mapsto> rid)\<rparr>)"
proof -
  have "room_ok ((conn_to_room s)(conn \<mapsto> rid)) q t" if "duel_rooms s q = Some t" "q \<noteq> rid" for q t
    using duel_invD(1) [OF inv that(1)] that(2) conn(1) by (auto simp: room_ok_def)
  then show ?thesis
    using inv conn(2) r by (auto simp: duel_inv_def split: if_split_asm)
qed

lemma duel_create_room_inv:
  assumes "duel_inv s" "duel_rooms s (gen_room_id now rnd) = None"
  shows "duel_inv (snd (duel_create_room now rnd conn name s))"
proof -
  have "conn_to_room s c \<noteq> Some (gen_room_id now rnd)" for c
    using duel_invD(3) [OF assms(1)] assms(2) by fastforce
  then have "room_ok ((conn_to_room s)(conn \<mapsto> gen_room_id now rnd)) (gen_room_id now rnd)
      (new_room\<lparr>dr_room_id := gen_room_id now rnd, dr_name := n, owner_conn := Some conn, dr_members := [conn]\<rparr>)" for n
    by (simp add: room_ok_def)
  moreover have "score_ok (new_room\<lparr>dr_room_id := i, dr_name := n, owner_conn := Some conn, dr_members := [conn]\<rparr>)" for i n
    by (simp add: score_ok_def new_room_def)
  ultimately show ?thesis
    using assms(1) by (simp add: duel_create_room_def Let_def duel_inv_enter)
qed

lemma duel_join_room_inv:
  assumes "duel_inv s"
  shows "duel_inv (snd (duel_join_room conn data s))"
proof (cases "duel_rooms s (chomp data)")
  case None
  with assms show ?thesis by (simp add: duel_join_room_def Let_def)
next
  case (Some r)
  note ok = duel_invD(1,2) [OF assms Some]
  have "room_ok ((conn_to_room s)(conn \<mapsto> chomp data)) (chomp data) (r\<lparr>dr_members := dr_members r @ [conn]\<rparr>)"
    if "conn_to_room s conn = None" "\<not> 2 \<le> length (dr_members r)"
    using ok(1) that by (auto simp: room_ok_def)
  moreover have "score_ok (r\<lparr>dr_members := dr_members r @ [conn]\<rparr>)" if "dr_state r = 0"
    using ok(2) that by (auto simp: score_ok_def)
  ultimately show ?thesis
    using assms Some by (simp add: duel_join_room_def Let_def duel_inv_enter)
qed

lemma duel_start_game_inv:
  assumes "duel_inv s"
  shows "duel_inv (snd (duel_start_game conn s))"
proof (cases "conn_to_room s conn")
  case None
  with assms show ?thesis by (simp add: duel_start_game_def)
next
  case (Some rid)
  from room_at_inv [OF assms Some] obtain r where r: "duel_rooms s rid = Some r" "room_at s rid = (r, s)" .
  have "score_ok (r\<lparr>dr_state := 1, hp := [100, 100], turn := 0, dr_round := 0, dr_result := []\<rparr>)" if "\<not> length (dr_members r) < 2"
    using duel_invD(1) [OF assms r(1)] that by (auto simp: score_ok_def room_ok_def)
  with assms r Some show ?thesis
    by (simp add: duel_start_game_def Let_def duel_inv_room)
qed

lemma game_move_ok:
  assumes "score_ok r" "dr_state r = 1" "idx \<in> {0, 1}"
  shows "score_ok (game_move idx action r)"
proof -
  from assms(1,2) obtain a b where h: "hp r = [a, b]" "0 < a" "a \<le> 100" "0 < b" "b \<le> 100" "length (dr_members r) = 2" "dr_result r = []"
    "0 \<le> dr_round r" by (auto simp: score_ok_def)
  then show ?thesis using assms(2,3)
    by (auto simp: score_ok_def game_move_def Let_def)
qed

lemma game_move_same [simp]:
  "dr_room_id (game_move idx action r) = dr_room_id r" "dr_members (game_move idx action r) = dr_members r"
  "owner_conn (game_move idx action r) = owner_conn r"
  by (simp_all add: game_move_def Let_def)

lemma duel_action_inv:
  assumes "duel_inv s"
  shows "duel_inv (snd (duel_action conn data s))"
proof (cases "conn_to_room s conn")
  case None
  with assms show ?thesis by (simp add: duel_action_def)
next
  case (Some rid)
  from room_at_inv [OF assms Some] obtain r where r: "duel_rooms s rid = Some r" "room_at s rid = (r, s)" .
  have "score_ok (game_move (turn r) (chomp data) r)" if "dr_state r = 1"
    using duel_invD(2) [OF assms r(1)] that by (intro game_move_ok) (auto simp: score_ok_def)
  with assms r Some show ?thesis
    by (simp add: duel_action_def Let_def duel_inv_room)
qed

lemma duel_disconnect_inv:
  assumes "duel_inv s"
  shows "duel_inv (snd (duel_disconnect now conn s))"
proof -
  let ?g = "on_disconnect now conn (on_disconnect now conn (svc s) Router) SessionMgr"
  have g: "is_logged_in ?g c \<longleftrightarrow> c \<noteq> conn \<and> is_logged_in (svc s) c" for c
    by (simp add: on_disconnect_def is_logged_in_def)
  have same: "snd (leave_room_internal (s\<lparr>svc := ?g\<rparr>) conn) = (snd (leave_room_internal s conn))\<lparr>svc := ?g\<rparr>"
    by (simp add: leave_room_internal_def Let_def split: option.split)
  show ?thesis
    unfolding duel_disconnect_def same
    using leave_room_internal_inv [OF assms, of conn] assms
    by (auto simp: g intro!: duel_inv_svc dest: duel_invD(4) split: if_split_asm)
qed

fun fresh_id :: "duel_event \<Rightarrow> duel \<Rightarrow> bool" where
  "fresh_id (Incoming now rnd conn msg) s \<longleftrightarrow> cmd msg = CMD_CREATE_ROOM \<longrightarrow> duel_rooms s (gen_room_id now rnd) = None"
| "fresh_id (Closed now conn) s \<longleftrightarrow> True"

lemma duel_step_inv:
  assumes "duel_inv s" "fresh_id e s"
  shows "duel_inv (snd (duel_step e s))"
proof (cases e)
  case (Incoming now rnd conn msg)
  have "duel_inv (snd (duel_leave_room conn s))"
    using assms(1) leave_room_internal_inv [OF assms(1), of conn] by (simp add: duel_leave_room_def split_beta)
  with Incoming assms show ?thesis
    by (simp add: duel_route_def duel_login_inv duel_logout_inv duel_create_room_inv duel_join_room_inv duel_start_game_inv
        duel_action_inv duel_heartbeat_def duel_list_rooms_def)
qed (simp add: assms duel_disconnect_inv)

lemma duel_init_inv: "duel_inv duel_init"
  by (simp add: duel_init_def duel_inv_def)

text \<open>The states the server reaches while no generated room identifier is in use already.\<close>

inductive duel_reach :: "duel \<Rightarrow> bool" where
  reach_init: "duel_reach duel_init"
| reach_step: "duel_reach s \<Longrightarrow> fresh_id e s \<Longrightarrow> duel_reach (snd (duel_step e s))"

lemma duel_reach_inv: "duel_reach s \<Longrightarrow> duel_inv s"
  by (induction rule: duel_reach.induct) (simp_all add: duel_init_inv duel_step_inv)

text \<open>The bytes of a connection have the effect of its messages, handled one after the other.\<close>

fun duel_run :: "duel_event list \<Rightarrow> duel \<Rightarrow> sends \<times> duel" where
  "duel_run [] s = ([], s)"
| "duel_run (e # es) s = (let (out, s1) = duel_step e s; (out', s2) = duel_run es s1 in (out @ out', s2))"

lemma duel_route_all_run:
  "duel_route_all env i conn ms s =
     duel_run (map (\<lambda>(k, m). Incoming (fst (env k)) (snd (env k)) conn m) (enumerate i ms)) s"
  by (induction ms arbitrary: i s) (simp_all add: Let_def split: prod.split)

section \<open>A match\<close>

text \<open>How often the player with index \<open>p\<close> attacks in a sequence of moves that the players make in turn.\<close>

definition attacks :: "nat \<Rightarrow> bytes list \<Rightarrow> nat" where
  "attacks p acts = length (filter (\<lambda>i. i mod 2 = p \<and> chomp (acts ! i) = ascii ''attack'') [0..<length acts])"

lemma attacks_snoc:
  "attacks p (acts @ [a]) = attacks p acts + (if length acts mod 2 = p \<and> chomp a = ascii ''attack'' then 1 else 0)"
proof -
  have "filter (\<lambda>i. i mod 2 = p \<and> chomp ((acts @ [a]) ! i) = ascii ''attack'') [0..<length acts] =
      filter (\<lambda>i. i mod 2 = p \<and> chomp (acts ! i) = ascii ''attack'') [0..<length acts]"
    by (rule filter_cong) (simp_all add: nth_append)
  then show ?thesis by (simp add: attacks_def)
qed

definition started :: "duel_room \<Rightarrow> duel_room" where
  "started r = r\<lparr>dr_state := 1, hp := [100, 100], turn := 0, dr_round := 0, dr_result := []\<rparr>"

definition play :: "duel_room \<Rightarrow> bytes list \<Rightarrow> duel_room" where
  "play r acts = foldl (\<lambda>r a. game_move (turn r) (chomp a) r) r acts"

definition moves :: "nat \<Rightarrow> nat \<Rightarrow> bytes list \<Rightarrow> duel_event list" where
  "moves c1 c2 acts = map (\<lambda>i. Incoming 0 0 (if even i then c1 else c2) \<lparr>cmd = CMD_GAME_ACTION, body = acts ! i\<rparr>) [0..<length acts]"

lemma moves_snoc:
  "moves c1 c2 (acts @ [a]) =
     moves c1 c2 acts @ [Incoming 0 0 (if even (length acts) then c1 else c2) \<lparr>cmd = CMD_GAME_ACTION, body = a\<rparr>]"
  by (auto simp: moves_def nth_append)

lemma duel_run_snoc: "snd (duel_run (es @ [e]) s) = snd (duel_step e (snd (duel_run es s)))"
  by (induction es arbitrary: s) (simp_all add: Let_def split_beta)

text \<open>The state of a match while nobody has landed ten attacks.\<close>

lemma play_running:
  assumes "attacks 0 acts < 10" "attacks 1 acts < 10"
  shows "play (started r) acts = (started r)\<lparr>hp := [100 - 10 * int (attacks 1 acts), 100 - 10 * int (attacks 0 acts)],
    turn := int (length acts mod 2), dr_round := int (length acts)\<rparr>"
  using assms
proof (induction acts rule: rev_induct)
  case Nil
  show ?case by (simp add: play_def started_def attacks_def)
next
  case (snoc a acts)
  then have IH: "play (started r) acts = (started r)\<lparr>hp := [100 - 10 * int (attacks 1 acts), 100 - 10 * int (attacks 0 acts)],
      turn := int (length acts mod 2), dr_round := int (length acts)\<rparr>" by (auto simp: attacks_snoc split: if_split_asm)
  have "play (started r) (acts @ [a]) = game_move (int (length acts mod 2)) (chomp a) (play (started r) acts)"
    unfolding play_def by (simp add: IH [unfolded play_def])
  with snoc.prems show ?case unfolding IH
    by (cases "length acts mod 2 = 0"; cases "chomp a = ascii ''attack''")
      (auto simp: attacks_snoc game_move_def started_def Let_def mod_Suc)
qed

lemma play_last:
  assumes "attacks 0 acts < 10" "attacks 1 acts < 10"
    and r': "r' = play (started r) (acts @ [a])"
  shows "hp r' = [100 - 10 * int (attacks 1 (acts @ [a])), 100 - 10 * int (attacks 0 (acts @ [a]))]"
    and "dr_state r' = (if attacks 0 (acts @ [a]) = 10 \<or> attacks 1 (acts @ [a]) = 10 then 0 else 1)"
    and "dr_result r' = (if attacks 0 (acts @ [a]) = 10 then ''p1_win'' else if attacks 1 (acts @ [a]) = 10 then ''p2_win'' else [])"
proof -
  have m: "r' = game_move (int (length acts mod 2)) (chomp a) (play (started r) acts)"
    unfolding r' play_def by (simp add: play_running [OF assms(1,2), unfolded play_def])
  note e = m [unfolded play_running [OF assms(1,2)]]
  show "hp r' = [100 - 10 * int (attacks 1 (acts @ [a])), 100 - 10 * int (attacks 0 (acts @ [a]))]"
    unfolding e using assms(1,2)
    by (cases "length acts mod 2 = 0"; cases "chomp a = ascii ''attack''")
      (auto simp: attacks_snoc game_move_def started_def Let_def)
  show "dr_state r' = (if attacks 0 (acts @ [a]) = 10 \<or> attacks 1 (acts @ [a]) = 10 then 0 else 1)"
    unfolding e using assms(1,2)
    by (cases "length acts mod 2 = 0"; cases "chomp a = ascii ''attack''")
      (auto simp: attacks_snoc game_move_def started_def Let_def)
  show "dr_result r' = (if attacks 0 (acts @ [a]) = 10 then ''p1_win'' else if attacks 1 (acts @ [a]) = 10 then ''p2_win'' else [])"
    unfolding e using assms(1,2)
    by (cases "length acts mod 2 = 0"; cases "chomp a = ascii ''attack''")
      (auto simp: attacks_snoc game_move_def started_def Let_def)
qed

lemma duel_action_in_turn:
  assumes "is_logged_in (svc s) conn" "conn_to_room s conn = Some rid" "duel_rooms s rid = Some r" "dr_state r = 1"
    and "member_index conn (dr_members r) 0 = turn r" "0 \<le> turn r"
  shows "snd (duel_action conn data s) = s\<lparr>duel_rooms := (duel_rooms s)(rid \<mapsto> game_move (turn r) (chomp data) r)\<rparr>"
  using assms by (simp add: duel_action_def room_at_def Let_def)

lemma attacks_prefix: "attacks p acts \<le> attacks p (acts @ [a])"
  by (simp add: attacks_snoc)

text \<open>A start by the owner and moves in turn, as messages of the two connections.\<close>

lemma match_run:
  assumes s: "is_logged_in (svc s) c1" "is_logged_in (svc s) c2" "conn_to_room s c1 = Some rid" "conn_to_room s c2 = Some rid"
    and r: "duel_rooms s rid = Some r" "dr_members r = [c1, c2]" "c1 \<noteq> c2" "owner_conn r = Some c1" "dr_state r = 0"
    and a: "attacks 0 (butlast acts) < 10" "attacks 1 (butlast acts) < 10"
  shows "snd (duel_run (Incoming 0 0 c1 \<lparr>cmd = CMD_START_GAME, body = []\<rparr> # moves c1 c2 acts) s) =
    s\<lparr>duel_rooms := (duel_rooms s)(rid \<mapsto> play (started r) acts)\<rparr>"
  using a
proof (induction acts rule: rev_induct)
  case Nil
  show ?case using s r
    by (simp add: moves_def duel_route_def duel_cmds duel_start_game_def room_at_def Let_def play_def started_def split_beta) (simp add: fun_upd_def)
next
  case (snoc x acts)
  have less: "attacks 0 acts < 10" "attacks 1 acts < 10" using snoc.prems by simp_all
  have "attacks p (butlast acts) < 10" if "attacks p acts < 10" for p
    using that attacks_prefix [of p "butlast acts" "last acts"] by (cases "acts = []") simp_all
  with snoc.IH less have IH: "snd (duel_run (Incoming 0 0 c1 \<lparr>cmd = CMD_START_GAME, body = []\<rparr> # moves c1 c2 acts) s) =
      s\<lparr>duel_rooms := (duel_rooms s)(rid \<mapsto> play (started r) acts)\<rparr>" by blast
  let ?c = "if even (length acts) then c1 else c2" and ?p = "play (started r) acts"
  let ?s = "s\<lparr>duel_rooms := (duel_rooms s)(rid \<mapsto> ?p)\<rparr>"
  have t: "turn ?p = int (length acts mod 2)" "dr_state ?p = 1" "dr_members ?p = [c1, c2]"
    unfolding play_running [OF less] using r by (simp_all add: started_def)
  then have "member_index ?c (dr_members ?p) 0 = turn ?p" using r(3) by (auto simp: even_iff_mod_2_eq_zero odd_iff_mod_2_eq_one)
  then have "snd (duel_action ?c x ?s) = ?s\<lparr>duel_rooms := (duel_rooms ?s)(rid \<mapsto> game_move (turn ?p) (chomp x) ?p)\<rparr>"
    using s t by (intro duel_action_in_turn) auto
  moreover have "game_move (turn ?p) (chomp x) ?p = play (started r) (acts @ [x])" by (simp add: play_def)
  ultimately show ?case
    unfolding moves_snoc append_Cons [symmetric] duel_run_snoc IH by (simp add: duel_route_def duel_cmds) (simp add: fun_upd_def)
qed

text \<open>
  C23. State of the lobby and of every match, whatever messages arrive from whatever connections in whatever order, and whichever
  connections break: a connection is in at most one room, and it is exactly the rooms' member lists that say in which; everybody in a room is
  logged in; a room has one or two distinct members and one of them owns it; the hit points stay between 0 and 100; a running game has two
  members, both alive, and no result; a declared winner is alive and the other has no hit points left. This holds as long as a new room never
  gets the identifier of an existing one.
\<close>

theorem duel_rooms_consistent:
  assumes "duel_reach s" and "duel_rooms s rid = Some r"
  shows "(\<forall>c. conn_to_room s c = Some rid \<longleftrightarrow> c \<in> set (dr_members r)) \<and> list_all (is_logged_in (svc s)) (dr_members r) \<and>
    distinct (dr_members r) \<and> length (dr_members r) \<in> {1, 2} \<and> the (owner_conn r) \<in> set (dr_members r) \<and>
    length (hp r) = 2 \<and> set (hp r) \<subseteq> {0..100} \<and>
    (dr_state r = 1 \<longrightarrow> length (dr_members r) = 2 \<and> 0 \<notin> set (hp r) \<and> dr_result r = []) \<and>
    (dr_result r = ''p1_win'' \<longrightarrow> 0 < hp r ! 0 \<and> hp r ! 1 = 0) \<and> (dr_result r = ''p2_win'' \<longrightarrow> hp r ! 0 = 0 \<and> 0 < hp r ! 1)"
proof -
  note inv = duel_reach_inv [OF assms(1)]
  from duel_invD(1) [OF inv assms(2)] obtain c where c: "owner_conn r = Some c" "c \<in> set (dr_members r)"
    and m: "distinct (dr_members r)" "length (dr_members r) \<le> 2" "\<forall>c. c \<in> set (dr_members r) \<longleftrightarrow> conn_to_room s c = Some rid"
    by (auto simp: room_ok_def)
  have "0 < length (dr_members r)" using c(2) by (rule length_pos_if_in_set)
  then have "length (dr_members r) = 1 \<or> length (dr_members r) = 2" using m(2) by arith
  then have "length (dr_members r) \<in> {1, 2}" by simp
  moreover have "list_all (is_logged_in (svc s)) (dr_members r)" using m(3) duel_invD(4) [OF inv] by (auto simp: list_all_iff)
  moreover have "length (hp r) = 2 \<and> set (hp r) \<subseteq> {0..100} \<and>
    (dr_state r = 1 \<longrightarrow> length (dr_members r) = 2 \<and> 0 \<notin> set (hp r) \<and> dr_result r = []) \<and>
    (dr_result r = ''p1_win'' \<longrightarrow> 0 < hp r ! 0 \<and> hp r ! 1 = 0) \<and> (dr_result r = ''p2_win'' \<longrightarrow> hp r ! 0 = 0 \<and> 0 < hp r ! 1)"
    using duel_invD(2) [OF inv assms(2)] by (auto simp: score_ok_def)
  ultimately show ?thesis using c m by simp
qed

theorem duel_rooms_consistent_witness:
  "conn_to_room (snd (duel_run [Incoming 0 0 1 \<lparr>cmd = CMD_LOGIN, body = [65]\<rparr>, Incoming 5 7 1 \<lparr>cmd = CMD_CREATE_ROOM, body = []\<rparr>] duel_init)) 1 =
     Some (gen_room_id 5 7)"
proof -
  let ?e1 = "Incoming 0 0 1 \<lparr>cmd = CMD_LOGIN, body = [65]\<rparr>" and ?e2 = "Incoming 5 7 1 \<lparr>cmd = CMD_CREATE_ROOM, body = []\<rparr>"
  let ?s1 = "snd (duel_step ?e1 duel_init)"
  have f: "fresh_id ?e1 duel_init" "fresh_id ?e2 ?s1"
    by (simp_all add: duel_cmds duel_init_def duel_route_def duel_login_def)
  have "duel_reach (snd (duel_step ?e2 ?s1))"
    using reach_step [OF reach_step [OF reach_init f(1)] f(2)] .
  moreover have "duel_rooms (snd (duel_step ?e2 ?s1)) (gen_room_id 5 7) =
      Some (new_room\<lparr>dr_room_id := gen_room_id 5 7, dr_name := ascii ''room'', owner_conn := Some 1, dr_members := [1]\<rparr>)"
    by (simp add: duel_cmds duel_init_def duel_route_def duel_login_def duel_create_room_def is_logged_in_def session_login_def Let_def)
  ultimately show ?thesis
    using duel_rooms_consistent [of "snd (duel_step ?e2 ?s1)" "gen_room_id 5 7"] by (simp add: Let_def split_beta)
qed

text \<open>
  C38. A match: the owner of a room with two members starts it and the two make their moves in turn. As long as neither has landed ten
  attacks the game goes on, with ten hit points lost for every attack of the other player; the first to land the tenth attack wins with the
  move, and the room is open for a new game.
\<close>

theorem duel_match_won:
  assumes "is_logged_in (svc s) c1" "is_logged_in (svc s) c2" "conn_to_room s c1 = Some rid" "conn_to_room s c2 = Some rid"
    and "duel_rooms s rid = Some r" "dr_members r = [c1, c2]" "c1 \<noteq> c2" "owner_conn r = Some c1" "dr_state r = 0"
    and "attacks 0 acts < 10" "attacks 1 acts < 10"
  shows "case duel_rooms (snd (duel_run (Incoming 0 0 c1 \<lparr>cmd = CMD_START_GAME, body = []\<rparr> # moves c1 c2 (acts @ [a])) s)) rid of
     None \<Rightarrow> False
   | Some r' \<Rightarrow>
       hp r' = [100 - 10 * int (attacks 1 (acts @ [a])), 100 - 10 * int (attacks 0 (acts @ [a]))] \<and>
       dr_state r' = (if attacks 0 (acts @ [a]) = 10 \<or> attacks 1 (acts @ [a]) = 10 then 0 else 1) \<and>
       dr_result r' = (if attacks 0 (acts @ [a]) = 10 then ''p1_win'' else if attacks 1 (acts @ [a]) = 10 then ''p2_win'' else [])"
  using match_run [OF assms(1-9), of "acts @ [a]"] assms(10,11) play_last [OF assms(10,11) refl, of r a] by simp

definition sample_duel :: duel where
  "sample_duel = \<lparr>svc = session_login (session_login game_init 0 1 [65]) 0 2 [66],
     duel_rooms = [[82] \<mapsto> new_room\<lparr>dr_room_id := [82], owner_conn := Some 1, dr_members := [1, 2]\<rparr>],
     conn_to_room = [1 \<mapsto> [82], 2 \<mapsto> [82]]\<rparr>"

theorem duel_match_won_witness:
  "map_option dr_result (duel_rooms (snd (duel_run (Incoming 0 0 1 \<lparr>cmd = CMD_START_GAME, body = []\<rparr> #
      moves 1 2 (replicate 18 (ascii ''attack'') @ [ascii ''attack'' @ [10]])) sample_duel)) [82]) = Some ''p1_win''"
proof -
  let ?r = "new_room\<lparr>dr_room_id := [82], owner_conn := Some 1, dr_members := [1, 2]\<rparr>"
  have s: "is_logged_in (svc sample_duel) 1" "is_logged_in (svc sample_duel) 2"
    "conn_to_room sample_duel 1 = Some [82]" "conn_to_room sample_duel 2 = Some [82]" "duel_rooms sample_duel [82] = Some ?r"
    by (simp_all add: sample_duel_def is_logged_in_def session_login_def)
  have a: "attacks 0 (replicate 18 (ascii ''attack'')) < 10" "attacks 1 (replicate 18 (ascii ''attack'')) < 10" by code_simp+
  have b: "attacks 0 (replicate 18 (ascii ''attack'') @ [ascii ''attack'' @ [10]]) = 10" by code_simp
  show ?thesis
    using duel_match_won [OF s(1-5) _ _ _ _ a, of "ascii ''attack'' @ [10]"] b
    by (simp add: new_room_def split: option.split_asm)
qed

text \<open>
  Room identifiers are made of the second and a random number below 1000. When two rooms are created in the same second with the same number
  the second replaces the first, whose creator is left in a room of which somebody else is the only member.
\<close>

lemma room_id_collision:
  assumes "is_logged_in (svc s) c1" "is_logged_in (svc s) c2" "c1 \<noteq> c2" "conn_to_room s c1 = None" "conn_to_room s c2 = None"
    and "s' = snd (duel_create_room now rnd c2 n2 (snd (duel_create_room now rnd c1 n1 s)))"
  shows "conn_to_room s' c1 = Some (gen_room_id now rnd) \<and> map_option dr_members (duel_rooms s' (gen_room_id now rnd)) = Some [c2]"
  using assms by (simp add: duel_create_room_def Let_def)

end
