(* ===== verification/GameGateway.thy ===== *)
theory GameGateway
  imports GameRooms Gateway CppString Config
begin

text \<open>
  The servers assembled from the router, the sessions and the forwarder: \<^verbatim>\<open>examples/game_gateway_server.cpp\<close> and
  \<^verbatim>\<open>examples/gateway_server.cpp\<close>, with the servers behind them, \<^verbatim>\<open>examples/game_server.cpp\<close> and \<^verbatim>\<open>examples/protocol_server.cpp\<close>.
  The handlers run one at a time. The last section composes the game gateway with the game server, as the demonstration in
  \<^verbatim>\<open>examples/h5_game\<close> runs them.
\<close>

section \<open>Start-up\<close>

text \<open>The environment variables, when set, and the port of the configuration file.\<close>

definition gateway_port :: "string option \<Rightarrow> int \<Rightarrow> 16 word" where
  "gateway_port env cfg_port =
     of_int (case env of Some e \<Rightarrow> if 0 < atoi e then atoi e else 9001 | None \<Rightarrow> if 0 < cfg_port then cfg_port else 9001)"

definition backend_of_env :: "string option \<Rightarrow> string option \<Rightarrow> string \<times> 16 word" where
  "backend_of_env host port =
     ((case host of Some h \<Rightarrow> h | None \<Rightarrow> ''127.0.0.1''), (case port of Some p \<Rightarrow> of_int (atoi p) | None \<Rightarrow> 9000))"

record gateway_server =
  gs_svc :: game
  gs_forwarder :: gateway

definition gateway_server_init :: "string option \<Rightarrow> string option \<Rightarrow> gateway_server" where
  "gateway_server_init host port =
     \<lparr>gs_svc = add_component (add_component game_init Router) SessionMgr,
      gs_forwarder = (case backend_of_env host port of (h, p) \<Rightarrow> gateway_direct h p)\<rparr>"

section \<open>Handlers\<close>

text \<open>The lambdas for login, logout and heartbeat are the same in the three programs.\<close>

definition local_login :: "int \<Rightarrow> nat \<Rightarrow> bytes \<Rightarrow> game \<Rightarrow> sends \<times> game" where
  "local_login now conn pid g =
     (if pid = [] then (send_reply conn CMD_LOGIN ''login failed: empty player_id'', g)
      else (send_message conn \<lparr>cmd = CMD_LOGIN, body = ascii ''login ok: '' @ pid\<rparr>, session_login g now conn pid))"

definition local_logout :: "nat \<Rightarrow> game \<Rightarrow> sends \<times> game" where
  "local_logout conn g =
     (if \<not> is_logged_in g conn then (send_reply conn CMD_LOGOUT ''not logged in'', g)
      else (send_message conn \<lparr>cmd = CMD_LOGOUT, body = ascii ''logout ok: '' @ get_player_id g conn\<rparr>, session_logout g conn))"

definition local_heartbeat :: "nat \<Rightarrow> sends" where
  "local_heartbeat conn = send_reply conn CMD_HEARTBEAT ''pong''"

definition gs_forward :: "gateway_env \<Rightarrow> nat \<Rightarrow> message \<Rightarrow> backend_calls \<Rightarrow> gateway_server \<Rightarrow> sends \<times> gateway_server" where
  "gs_forward E conn msg os s = (case forward E (gs_forwarder s) conn msg os of (g, out) \<Rightarrow> (out, s\<lparr>gs_forwarder := g\<rparr>))"

definition with_svc :: "gateway_server \<Rightarrow> sends \<times> game \<Rightarrow> sends \<times> gateway_server" where
  "with_svc s r = (fst r, s\<lparr>gs_svc := snd r\<rparr>)"

definition forwarded_cmds :: "16 word list" where
  "forwarded_cmds = [CMD_LIST_ROOMS, CMD_CREATE_ROOM, CMD_JOIN_ROOM, CMD_LEAVE_ROOM, CMD_ROOM_INFO, CMD_START_GAME, CMD_GAME_STATE, CMD_GAME_ACTION]"

definition game_gateway_route :: "gateway_env \<Rightarrow> int \<Rightarrow> nat \<Rightarrow> message \<Rightarrow> backend_calls \<Rightarrow> gateway_server \<Rightarrow> sends \<times> gateway_server" where
  "game_gateway_route E now conn msg os s =
     (if cmd msg = CMD_LOGIN then with_svc s (local_login now conn (body msg) (gs_svc s))
      else if cmd msg = CMD_LOGOUT then with_svc s (local_logout conn (gs_svc s))
      else if cmd msg = CMD_HEARTBEAT then (local_heartbeat conn, s)
      else if cmd msg \<in> set forwarded_cmds then gs_forward E conn msg os s
      else ([], s))"

definition CMD_ECHO :: "16 word" where "CMD_ECHO = 1"
definition CMD_CHAT :: "16 word" where "CMD_CHAT = 2"

lemmas server_cmds = duel_cmds CMD_ECHO_def CMD_CHAT_def forwarded_cmds_def

definition gateway_route :: "gateway_env \<Rightarrow> int \<Rightarrow> nat \<Rightarrow> message \<Rightarrow> backend_calls \<Rightarrow> gateway_server \<Rightarrow> sends \<times> gateway_server" where
  "gateway_route E now conn msg os s =
     (if cmd msg = CMD_LOGIN then with_svc s (local_login now conn (body msg) (gs_svc s))
      else if cmd msg = CMD_LOGOUT then with_svc s (local_logout conn (gs_svc s))
      else if cmd msg = CMD_HEARTBEAT then (local_heartbeat conn, s)
      else if cmd msg = CMD_ECHO then gs_forward E conn msg os s
      else if cmd msg = CMD_CHAT
      then (if \<not> is_logged_in (gs_svc s) conn then (send_reply conn CMD_CHAT ''[Gateway] please login first'', s) else gs_forward E conn msg os s)
      else ([], s))"

section \<open>The protocol server\<close>

definition handle_echo :: "nat \<Rightarrow> bytes \<Rightarrow> sends" where
  "handle_echo conn data = send_message conn \<lparr>cmd = CMD_ECHO, body = ascii ''Echo: '' @ data\<rparr>"

definition handle_chat_reply :: "nat \<Rightarrow> bytes \<Rightarrow> sends" where
  "handle_chat_reply conn data = send_message conn \<lparr>cmd = CMD_CHAT, body = ascii ''[Server] '' @ data\<rparr>"

definition protocol_server_route :: "int \<Rightarrow> nat \<Rightarrow> message \<Rightarrow> game \<Rightarrow> sends \<times> game" where
  "protocol_server_route now conn msg g =
     (if cmd msg = CMD_ECHO then (handle_echo conn (body msg), g)
      else if cmd msg = CMD_CHAT
      then (if \<not> is_logged_in g conn then (send_reply conn CMD_CHAT ''[Server] please login first'', g) else (handle_chat_reply conn (body msg), g))
      else if cmd msg = CMD_LOGIN then local_login now conn (body msg) g
      else if cmd msg = CMD_LOGOUT then local_logout conn g
      else if cmd msg = CMD_HEARTBEAT then (local_heartbeat conn, g)
      else ([], g))"

section \<open>Gateway and game server\<close>

text \<open>
  One message of a client: the gateway handles it; what it sends to a backend connection is read by the game server on that connection, and
  what the game server sends is handed back by the gateway. The result is what the clients get.
\<close>

record demo =
  demo_gateway :: gateway_server
  demo_game :: duel

definition demo_init :: "string option \<Rightarrow> string option \<Rightarrow> demo" where
  "demo_init host port = \<lparr>demo_gateway = gateway_server_init host port, demo_game = duel_init\<rparr>"

definition is_backend :: "gateway_server \<Rightarrow> nat \<Rightarrow> bool" where
  "is_backend G x \<longleftrightarrow> backend_to_client (gs_forwarder G) x \<noteq> None"

fun backend_reads :: "(nat \<Rightarrow> int \<times> nat) \<Rightarrow> sends \<Rightarrow> duel \<Rightarrow> sends \<times> duel" where
  "backend_reads env [] s = ([], s)"
| "backend_reads env ((b, data) # xs) s =
     (let (out, s1) = duel_on_data env b data s; (out', s2) = backend_reads env xs s1 in (out @ out', s2))"

definition demo_message ::
  "gateway_env \<Rightarrow> (nat \<Rightarrow> int \<times> nat) \<Rightarrow> int \<Rightarrow> nat \<Rightarrow> message \<Rightarrow> backend_calls \<Rightarrow> demo \<Rightarrow> sends \<times> demo" where
  "demo_message E env now client msg os d =
     (let (out, G) = game_gateway_route E now client msg os (demo_gateway d);
          (back, s) = backend_reads env (filter (is_backend G \<circ> fst) out) (demo_game d)
      in (filter (\<lambda>x. \<not> is_backend G (fst x)) out @ concat (map (\<lambda>(b, data). on_backend_message (gs_forwarder G) b data) back),
          \<lparr>demo_gateway = G, demo_game = s\<rparr>))"

record gateway_input =
  in_env :: "nat \<Rightarrow> int \<times> nat"
  in_time :: int
  in_client :: nat
  in_message :: message
  in_calls :: backend_calls

fun demo_run :: "gateway_env \<Rightarrow> gateway_input list \<Rightarrow> demo \<Rightarrow> sends \<times> demo" where
  "demo_run E [] d = ([], d)"
| "demo_run E (x # xs) d =
     (let (out, d1) = demo_message E (in_env x) (in_time x) (in_client x) (in_message x) (in_calls x) d; (out', d2) = demo_run E xs d1
      in (out @ out', d2))"

section \<open>The login stays at the gateway\<close>

text \<open>A server on which nobody is logged in; every connection's parser has handled whole messages only.\<close>

definition no_login :: "duel \<Rightarrow> bool" where
  "no_login s \<longleftrightarrow> sessions (svc s) = Map.empty \<and> duel_rooms s = Map.empty \<and> conn_to_room s = Map.empty \<and>
     (\<forall>c p. parsers (svc s) c = Some p \<longrightarrow> parser_inv p \<and> parser_pending p = [])"

definition refused :: "message \<Rightarrow> bool" where
  "refused m \<longleftrightarrow> body m \<in> {ascii ''[]'', ascii ''err:login'', ascii ''gateway: backend unavailable''}"

definition room_replies_refused :: "sends \<Rightarrow> bool" where
  "room_replies_refused out \<longleftrightarrow>
     list_all (\<lambda>x. \<exists>m. snd x = serialize m \<and> (cmd m \<in> set forwarded_cmds \<longrightarrow> refused m)) out"

lemma room_replies_simps [simp]:
  "room_replies_refused []" "room_replies_refused (a @ b) \<longleftrightarrow> room_replies_refused a \<and> room_replies_refused b"
  by (simp_all add: room_replies_refused_def)

definition only_to :: "nat \<Rightarrow> sends \<Rightarrow> bool" where
  "only_to c out \<longleftrightarrow> list_all (\<lambda>x. fst x = c) out"

lemma only_to_nobody [simp]: "only_to c []"
  by (simp add: only_to_def)

lemma room_replies_filter: "room_replies_refused out \<Longrightarrow> room_replies_refused (filter P out)"
  by (simp add: room_replies_refused_def list_all_iff)

lemma send_refused: "refused m \<or> cmd m \<notin> set forwarded_cmds \<Longrightarrow> room_replies_refused (send_message c m)"
  by (auto simp: room_replies_refused_def send_message_def)

lemma reply_refused: "refused \<lparr>cmd = k, body = ascii t\<rparr> \<or> k \<notin> set forwarded_cmds \<Longrightarrow> room_replies_refused (send_reply c k t)"
  unfolding send_reply_def by (rule send_refused) simp

lemma duel_route_refused:
  assumes "sessions (svc s) = Map.empty" "cmd m \<in> set forwarded_cmds"
  shows "snd (duel_route now rnd c m s) = s" "room_replies_refused (fst (duel_route now rnd c m s))"
proof -
  have n: "\<not> is_logged_in (svc s) c" using assms(1) by (simp add: is_logged_in_def)
  show "snd (duel_route now rnd c m s) = s"
    using assms(2) n by (auto simp: duel_route_def server_cmds duel_list_rooms_def duel_create_room_def duel_join_room_def
        duel_leave_room_def duel_start_game_def duel_action_def)
  show "room_replies_refused (fst (duel_route now rnd c m s))"
    using assms(2) n by (auto simp: duel_route_def server_cmds duel_list_rooms_def duel_create_room_def duel_join_room_def
        duel_leave_room_def duel_start_game_def duel_action_def refused_def intro!: reply_refused)
qed

lemma duel_on_data_refused:
  assumes "no_login s" "wire_valid m" "cmd m \<in> set forwarded_cmds"
  shows "no_login (snd (duel_on_data env b (serialize m) s)) \<and> room_replies_refused (fst (duel_on_data env b (serialize m) s))"
proof -
  let ?p = "case parsers (svc s) b of None \<Rightarrow> parser_init | Some p \<Rightarrow> p"
  have "parser_inv ?p" "parser_pending ?p = []"
    using assms(1) by (auto simp: no_login_def parser_init_def parser_inv_def parser_pending_def split: option.split)
  from feed_one [OF this assms(2)] obtain p' where f: "feed ?p (serialize m) = ([m], p')" "parser_inv p'" "parser_pending p' = []" .
  let ?s = "s\<lparr>svc := (svc s)\<lparr>parsers := (parsers (svc s))(b \<mapsto> p')\<rparr>\<rparr>"
  have "no_login ?s" "sessions (svc ?s) = Map.empty" using assms(1) f by (auto simp: no_login_def)
  with duel_route_refused [of ?s m] assms(3) f(1) show ?thesis
    by (simp add: duel_on_data_def split_beta)
qed

lemma backend_reads_refused:
  assumes "no_login s" "list_all (\<lambda>x. \<exists>m. snd x = serialize m \<and> wire_valid m \<and> cmd m \<in> set forwarded_cmds) xs"
  shows "no_login (snd (backend_reads env xs s)) \<and> room_replies_refused (fst (backend_reads env xs s))"
  using assms
proof (induction xs arbitrary: s)
  case (Cons x xs)
  then obtain m where m: "snd x = serialize m" "wire_valid m" "cmd m \<in> set forwarded_cmds" by auto
  from duel_on_data_refused [OF Cons.prems(1) m(2,3), of env "fst x"] Cons.IH Cons.prems(2) m(1)
  show ?case by (cases x) (simp add: split_beta)
qed simp

text \<open>What the gateway sends: replies of its own to the client, or the client's message to its backend connection.\<close>

definition backends_known :: "gateway \<Rightarrow> bool" where
  "backends_known g \<longleftrightarrow> (\<forall>c b. client_to_backend g c = Some b \<longrightarrow> backend_to_client g b \<noteq> None)"

definition gateway_step_ok :: "nat \<Rightarrow> message \<Rightarrow> nat \<Rightarrow> gateway \<Rightarrow> sends \<Rightarrow> gateway \<Rightarrow> bool" where
  "gateway_step_ok c msg b g out g' \<longleftrightarrow>
     (room_replies_refused out \<and> only_to c out \<or>
      cmd msg \<in> set forwarded_cmds \<and> (\<exists>x. out = [(x, serialize msg)] \<and> backend_to_client g' x \<noteq> None)) \<and>
     backends_known g' \<and> dom (backend_to_client g') \<subseteq> insert b (dom (backend_to_client g))"

lemma forward_sends:
  assumes f: "forward E g c msg os = (g', out)" and k: "backends_known g" "cmd msg \<in> set forwarded_cmds"
  shows "gateway_step_ok c msg (gw_backend os) g out g'"
proof (cases "client_to_backend g c")
  case None
  let ?u = "send_message c \<lparr>cmd = cmd msg, body = ascii ''gateway: backend unavailable''\<rparr>"
  obtain r where c: "connect_backend E g c os = (g', r)" and out: "out = (case r of None \<Rightarrow> ?u | Some b \<Rightarrow> [(b, serialize msg)])"
    using f None by (auto simp: forward_def split: option.split_asm prod.split_asm)
  have u: "room_replies_refused ?u" "only_to c ?u"
    by (rule send_refused) (simp_all add: refused_def send_message_def only_to_def)
  from connect_outcome [OF c] show ?thesis
  proof
    assume "r = None \<and> client_to_backend g' = client_to_backend g \<and> backend_to_client g' = backend_to_client g"
    with u out k(1) show ?thesis by (auto simp: gateway_step_ok_def backends_known_def)
  next
    assume "r = Some (gw_backend os) \<and> client_to_backend g' = (client_to_backend g)(c \<mapsto> gw_backend os) \<and>
      backend_to_client g' = (backend_to_client g)(gw_backend os \<mapsto> c)"
    with out k show ?thesis by (auto simp: gateway_step_ok_def backends_known_def)
  qed
next
  case (Some b)
  with f k show ?thesis by (auto simp: forward_def gateway_step_ok_def backends_known_def)
qed

lemma local_sends:
  "room_replies_refused (fst (local_login now c pid g))" "only_to c (fst (local_login now c pid g))"
  "room_replies_refused (fst (local_logout c g))" "only_to c (fst (local_logout c g))"
  "room_replies_refused (local_heartbeat c)" "only_to c (local_heartbeat c)"
  by (auto simp: local_login_def local_logout_def local_heartbeat_def send_reply_def send_message_def room_replies_refused_def only_to_def server_cmds)

lemma gateway_sends:
  assumes "game_gateway_route E now c msg os G = (out, G')" "backends_known (gs_forwarder G)"
  shows "gateway_step_ok c msg (gw_backend os) (gs_forwarder G) out (gs_forwarder G')"
proof (cases "cmd msg \<in> set forwarded_cmds")
  case True
  then have "cmd msg \<notin> {CMD_LOGIN, CMD_LOGOUT, CMD_HEARTBEAT}" by (auto simp: server_cmds)
  then have "gs_forward E c msg os G = (out, G')" using assms(1) True by (simp add: game_gateway_route_def)
  then have "forward E (gs_forwarder G) c msg os = (gs_forwarder G', out)" by (auto simp: gs_forward_def split: prod.split_asm)
  then show ?thesis using assms(2) True by (rule forward_sends)
next
  case False
  then have "gs_forwarder G' = gs_forwarder G \<and> room_replies_refused out \<and> only_to c out"
    using assms(1) local_sends by (auto simp: game_gateway_route_def with_svc_def split: if_split_asm)
  then show ?thesis using assms(2) by (auto simp: gateway_step_ok_def)
qed

text \<open>One message of a client, when backend connections are in a set \<open>B\<close> and the client is not.\<close>

definition demo_inv :: "nat set \<Rightarrow> demo \<Rightarrow> bool" where
  "demo_inv B d \<longleftrightarrow> no_login (demo_game d) \<and> backends_known (gs_forwarder (demo_gateway d)) \<and>
     dom (backend_to_client (gs_forwarder (demo_gateway d))) \<subseteq> B"

lemma on_backend_refused: "room_replies_refused ys \<Longrightarrow> room_replies_refused (concat (map (\<lambda>(b, data). on_backend_message g b data) ys))"
  by (induction ys) (auto simp: room_replies_refused_def on_backend_message_def split: option.split)

lemma demo_message_refused:
  assumes inv: "demo_inv B d" and m: "wire_valid msg" "c \<notin> B" "gw_backend os \<in> B"
  shows "demo_inv B (snd (demo_message E env now c msg os d)) \<and> room_replies_refused (fst (demo_message E env now c msg os d))"
proof -
  obtain out G where r: "game_gateway_route E now c msg os (demo_gateway d) = (out, G)" by fastforce
  have s: "gateway_step_ok c msg (gw_backend os) (gs_forwarder (demo_gateway d)) out (gs_forwarder G)"
    using gateway_sends [OF r] inv by (simp add: demo_inv_def)
  then have B: "backends_known (gs_forwarder G)" "dom (backend_to_client (gs_forwarder G)) \<subseteq> B"
    using inv m(3) unfolding demo_inv_def gateway_step_ok_def by blast+
  then have c: "\<not> is_backend G c" using m(2) by (auto simp: is_backend_def)
  let ?xs = "filter (is_backend G \<circ> fst) out" and ?ys = "filter (\<lambda>x. \<not> is_backend G (fst x)) out"
  have "list_all (\<lambda>x. \<exists>m. snd x = serialize m \<and> wire_valid m \<and> cmd m \<in> set forwarded_cmds) ?xs"
    using s c m(1) by (auto simp: list_all_iff gateway_step_ok_def only_to_def)
  from backend_reads_refused [OF _ this, of "demo_game d" env] inv
  have b: "no_login (snd (backend_reads env ?xs (demo_game d)))" "room_replies_refused (fst (backend_reads env ?xs (demo_game d)))"
    by (simp_all add: demo_inv_def)
  have "room_replies_refused ?ys"
    using s by (auto simp: gateway_step_ok_def is_backend_def intro: room_replies_filter)
  then show ?thesis
    using b B on_backend_refused [OF b(2), of "gs_forwarder G"] by (simp add: demo_message_def r split_beta demo_inv_def)
qed

lemma demo_run_refused:
  assumes "demo_inv B d" "list_all (\<lambda>x. wire_valid (in_message x) \<and> in_client x \<notin> B \<and> gw_backend (in_calls x) \<in> B) xs"
  shows "demo_inv B (snd (demo_run E xs d)) \<and> room_replies_refused (fst (demo_run E xs d))"
  using assms
proof (induction xs arbitrary: d)
  case (Cons x xs)
  then have "demo_inv B (snd (demo_message E (in_env x) (in_time x) (in_client x) (in_message x) (in_calls x) d)) \<and>
      room_replies_refused (fst (demo_message E (in_env x) (in_time x) (in_client x) (in_message x) (in_calls x) d))"
    by (intro demo_message_refused) auto
  with Cons show ?case by (simp add: split_beta)
qed simp

lemma demo_init_inv: "demo_inv B (demo_init host port)"
  by (simp add: demo_inv_def demo_init_def duel_init_def no_login_def gateway_server_init_def gateway_direct_def backends_known_def
      add_component_def on_register_def game_init_def get_component_def split: prod.split)

section \<open>Findings\<close>

text \<open>
  The demonstration as its documentation sets it up: the clients talk to the gateway, which answers logins, logouts and heartbeats itself
  and forwards every other command of the game to the game server. Whatever the clients send, the game server never learns of a login, so
  that no room is ever created, and every answer to a room or game command a client gets is a refusal: an empty list, \<open>err:login\<close>, or
  that the backend is unavailable. (Messages have bodies below 64 KiB; the connections of clients and to the backend are different objects.)
\<close>

lemma demo_game_refused:
  assumes "list_all (\<lambda>x. wire_valid (in_message x)) xs" and "in_client ` set xs \<inter> (gw_backend \<circ> in_calls) ` set xs = {}"
    and "demo_run E xs (demo_init host port) = (out, d)"
  shows "sessions (svc (demo_game d)) = Map.empty \<and> duel_rooms (demo_game d) = Map.empty \<and>
    (\<forall>c m. (c, serialize m) \<in> set out \<longrightarrow> cmd m \<in> set forwarded_cmds \<longrightarrow>
       body m \<in> {ascii ''[]'', ascii ''err:login'', ascii ''gateway: backend unavailable''})"
proof -
  let ?B = "(gw_backend \<circ> in_calls) ` set xs"
  have "list_all (\<lambda>x. wire_valid (in_message x) \<and> in_client x \<notin> ?B \<and> gw_backend (in_calls x) \<in> ?B) xs"
    using assms(1,2) by (auto simp: list_all_iff)
  from demo_run_refused [OF demo_init_inv [of ?B host port] this, of E] assms(3)
  have "no_login (demo_game d)" "room_replies_refused out" by (simp_all add: demo_inv_def)
  then show ?thesis
    by (auto simp: no_login_def room_replies_refused_def list_all_iff refused_def dest!: bspec serialize_inj)
qed

definition backend_up :: backend_calls where
  "backend_up = \<lparr>gw_socket_fd = 3, gw_inet_pton = 1, gw_connect = 0, gw_backend = 9\<rparr>"

definition demo_say :: "16 word \<Rightarrow> bytes \<Rightarrow> gateway_input" where
  "demo_say k data = \<lparr>in_env = (\<lambda>_. (0, 0)), in_time = 0, in_client = 1, in_message = \<lparr>cmd = k, body = data\<rparr>, in_calls = backend_up\<rparr>"

text \<open>
  The client is told that it is logged in all the same, and the room it asks for is then refused.
\<close>

lemma demo_login_then_refused:
  "fst (demo_run E [demo_say CMD_LOGIN [65], demo_say CMD_CREATE_ROOM []] (demo_init None None)) =
     [(1, serialize \<lparr>cmd = CMD_LOGIN, body = ascii ''login ok: '' @ [65]\<rparr>), (1, serialize \<lparr>cmd = CMD_CREATE_ROOM, body = ascii ''err:login''\<rparr>)]"
proof -
  let ?m = "\<lparr>cmd = CMD_CREATE_ROOM, body = []\<rparr>"
  have i: "parser_inv parser_init" "parser_pending parser_init = []" by (simp_all add: parser_init_def parser_inv_def parser_pending_def)
  have "wire_valid ?m" by (simp add: wire_valid_def)
  from feed_one [OF i this] obtain p' where f: "feed parser_init (serialize ?m) = ([?m], p')" .
  show ?thesis
    by (simp add: demo_say_def demo_message_def demo_init_def gateway_server_init_def gateway_direct_def backend_of_env_def game_gateway_route_def
        server_cmds with_svc_def local_login_def send_message_def is_backend_def gs_forward_def forward_def connect_backend_def backend_address_def
        do_connect_def backend_up_def duel_on_data_def duel_init_def add_component_def on_register_def game_init_def get_component_def
        f [unfolded server_cmds] duel_route_def duel_create_room_def is_logged_in_def send_reply_def on_backend_message_def session_login_def)
qed

text \<open>The same for chat behind the plain gateway: it asks for a login, and then the server behind it asks again.\<close>

lemma chat_refused_behind_gateway:
  assumes "sessions g = Map.empty" "cmd msg = CMD_CHAT"
  shows "protocol_server_route now conn msg g = (send_reply conn CMD_CHAT ''[Server] please login first'', g)"
  using assms by (simp add: protocol_server_route_def server_cmds is_logged_in_def)

text \<open>Without the environment variable the gateway takes the default port of the configuration, which is that of the game server.\<close>

lemma gateway_default_port: "gateway_port None (cf_listen_port config_init) = snd (backend_of_env None None)"
  by (simp add: gateway_port_def backend_of_env_def config_init_def)

end
