(* ===== verification/ServerExamples.thy ===== *)
theory ServerExamples
  imports GameGateway WsFrame Codec
begin

text \<open>
  The small servers and clients among the examples: \<^verbatim>\<open>echo_server.cpp\<close>, \<^verbatim>\<open>http_server.cpp\<close>, \<^verbatim>\<open>proto_frame_server.cpp\<close>, and the stress
  client \<^verbatim>\<open>protocol_stress_client.cpp\<close>, which is put together with the protocol server.
\<close>

section \<open>Servers\<close>

definition echo_on_message :: "nat \<Rightarrow> bytes \<Rightarrow> sends" where
  "echo_on_message conn data = [(conn, data)]"

definition example_http_handler :: http_handler where
  "example_http_handler req resp =
     (if rq_path req = ''/''
      then rs_set_header (resp\<lparr>rs_status_code := 200, rs_reason := ''OK''\<rparr>) ''Content-Type'' ''text/plain; charset=utf-8''
             \<lparr>rs_body := ''ChwellFrameCore HTTP Server'' @ [newline]\<rparr>
      else if rq_path req = ''/health''
      then rs_set_header (resp\<lparr>rs_status_code := 200, rs_reason := ''OK''\<rparr>) ''Content-Type'' ''application/json; charset=utf-8''
             \<lparr>rs_body := ''{'' @ [CHR 0x22] @ ''status'' @ [CHR 0x22] @ '':'' @ [CHR 0x22] @ ''ok'' @ [CHR 0x22] @ ''}''\<rparr>
      else rs_set_header (resp\<lparr>rs_status_code := 404, rs_reason := ''Not Found''\<rparr>) ''Content-Type'' ''text/plain; charset=utf-8''
             \<lparr>rs_body := ''404 Not Found''\<rparr>)"

text \<open>Every well-formed request for another path is answered with 404, in whatever pieces it arrives.\<close>

lemma example_http_not_found:
  assumes "well_formed t" "strict_prefix (concat before) (text_head t)" "concat before @ r = text_head t @ arrived"
    and "t_path t \<noteq> ''/''" "t_path t \<noteq> ''/health''"
  shows "map_option rs_status_code (session_loop (Some example_http_handler) [] (before @ r # later)) = Some 404"
  using request_served [OF assms(1-3), of "Some example_http_handler" later] assms(4,5)
  by (simp add: http_respond_def example_http_handler_def rs_set_header_def request_of_def Let_def)

section \<open>Protobuf frames\<close>

type_synonym frame_codecs = "nat \<rightharpoonup> codec"

definition proto_on_message :: "nat \<Rightarrow> bytes \<Rightarrow> frame_codecs \<Rightarrow> sends \<times> frame_codecs" where
  "proto_on_message conn data cs =
     (let c = (case cs conn of None \<Rightarrow> codec_init | Some c \<Rightarrow> c); (messages, c') = pb_decode c data
      in (map (\<lambda>bin. (conn, pb_encode (ascii ''server echo: '' @ bin))) messages, cs(conn \<mapsto> c')))"

definition proto_on_disconnect :: "nat \<Rightarrow> frame_codecs \<Rightarrow> frame_codecs" where
  "proto_on_disconnect conn cs = cs(conn := None)"

text \<open>Every frame of a connection is answered once and in order, however the frames are cut into reads.\<close>

fun proto_reads :: "nat \<Rightarrow> bytes list \<Rightarrow> frame_codecs \<Rightarrow> sends \<times> frame_codecs" where
  "proto_reads conn [] cs = ([], cs)"
| "proto_reads conn (r # rs) cs =
     (let (out, cs1) = proto_on_message conn r cs; (out', cs2) = proto_reads conn rs cs1 in (out @ out', cs2))"

lemma proto_reads_pb:
  assumes "pb_reads c rs = Inr (ms, c')" "c = (case cs conn of None \<Rightarrow> codec_init | Some c \<Rightarrow> c)"
  shows "fst (proto_reads conn rs cs) = map (\<lambda>bin. (conn, pb_encode (ascii ''server echo: '' @ bin))) ms"
  using assms
proof (induction rs arbitrary: c cs ms)
  case (Cons r rs)
  obtain ms1 c1 where d: "pb_decode c r = (ms1, c1)" by fastforce
  then obtain ms2 where "pb_reads c1 rs = Inr (ms2, c')" "ms = ms1 @ ms2"
    using Cons.prems(1) by (auto simp: pb_reads_def split: sum.split_asm prod.split_asm)
  with Cons.IH [of c1 ms2 "cs(conn \<mapsto> c1)"] Cons.prems(2) d show ?case
    by (simp add: proto_on_message_def split_beta) (simp add: fun_upd_def)
qed (simp add: pb_reads_def)

lemma proto_server_answers:
  assumes "list_all pb_valid ms" "concat rs = concat (map pb_encode ms)" "cs conn = None"
  shows "fst (proto_reads conn rs cs) = map (\<lambda>bin. (conn, pb_encode (ascii ''server echo: '' @ bin))) ms"
proof -
  from pb.feed_all_roundtrip [OF codec_init_facts assms(1,2)] obtain c where "pb_reads codec_init rs = Inr (ms, c)"
    by (auto simp: pb_feed_all)
  then show ?thesis by (rule proto_reads_pb) (simp add: assms(3))
qed

section \<open>The stress client\<close>

record stress_stats =
  total_requests :: nat
  total_errors :: nat
  total_bytes :: nat

definition stats_init :: stress_stats where
  "stats_init = \<lparr>total_requests = 0, total_errors = 0, total_bytes = 0\<rparr>"

definition stress_body :: "nat \<Rightarrow> nat \<Rightarrow> nat \<Rightarrow> bytes" where
  "stress_body message_size worker i = replicate message_size 120 @ ascii (''_worker'' @ dec worker @ ''_req'' @ dec i)"

definition protocol_message :: "16 word \<Rightarrow> bytes \<Rightarrow> bytes" where
  "protocol_message c b = store16 (host_to_net16 c) @ store16 (host_to_net16 (of_nat (length b))) @ b"

text \<open>
  One request. \<open>sent\<close> is the result of \<^verbatim>\<open>send\<close>; the server takes what was sent and answers; \<open>inp\<close> is what has arrived and was not read. A
  read with \<^verbatim>\<open>MSG_WAITALL\<close> that times out has taken what there was.
\<close>

definition stress_request ::
  "(bytes \<Rightarrow> 's \<Rightarrow> bytes \<times> 's) \<Rightarrow> int \<Rightarrow> bytes \<Rightarrow> bytes \<times> 's \<times> stress_stats \<Rightarrow> bytes \<times> 's \<times> stress_stats" where
  "stress_request serve sent data st = (case st of (inp, s, stats) \<Rightarrow>
     let (answer, s1) = serve (take (nat sent) data) s; inp1 = inp @ answer
     in if sent \<noteq> int (length data) then (inp1, s1, stats\<lparr>total_errors := total_errors stats + 1\<rparr>)
        else let stats1 = stats\<lparr>total_bytes := total_bytes stats + length data\<rparr>; header = take 4 inp1; inp2 = drop 4 inp1
             in if length header \<noteq> 4 then (inp2, s1, stats1\<lparr>total_errors := total_errors stats1 + 1\<rparr>)
                else let resp_len = unat (get_be16 header 2); resp_body = take resp_len inp2; inp3 = drop resp_len inp2
                     in if length resp_body \<noteq> resp_len then (inp3, s1, stats1\<lparr>total_errors := total_errors stats1 + 1\<rparr>)
                        else (inp3, s1, stats1\<lparr>total_requests := total_requests stats1 + 1, total_bytes := total_bytes stats1 + 4 + resp_len\<rparr>))"

fun client_worker ::
  "(bytes \<Rightarrow> 's \<Rightarrow> bytes \<times> 's) \<Rightarrow> (nat \<Rightarrow> nat \<Rightarrow> int) \<Rightarrow> nat \<Rightarrow> nat \<Rightarrow> nat \<Rightarrow> nat \<Rightarrow> bytes \<times> 's \<times> stress_stats \<Rightarrow> bytes \<times> 's \<times> stress_stats" where
  "client_worker serve send worker message_size i 0 st = st"
| "client_worker serve send worker message_size i (Suc n) st =
     (let data = protocol_message CMD_ECHO (stress_body message_size worker i)
      in client_worker serve send worker message_size (i + 1) n (stress_request serve (send i (length data)) data st))"

text \<open>The protocol server on one connection: its parser, then its handlers.\<close>

fun protocol_server_all :: "int \<Rightarrow> nat \<Rightarrow> message list \<Rightarrow> game \<Rightarrow> sends \<times> game" where
  "protocol_server_all now conn [] g = ([], g)"
| "protocol_server_all now conn (m # ms) g =
     (let (out, g1) = protocol_server_route now conn m g; (out', g2) = protocol_server_all now conn ms g1 in (out @ out', g2))"

definition serve_protocol :: "int \<Rightarrow> nat \<Rightarrow> bytes \<Rightarrow> parser \<times> game \<Rightarrow> bytes \<times> parser \<times> game" where
  "serve_protocol now conn data s =
     (let (msgs, p) = feed (fst s) data; (out, g) = protocol_server_all now conn msgs (snd s) in (concat (map snd out), p, g))"

lemma protocol_message_serialize: "protocol_message c b = serialize \<lparr>cmd = c, body = b\<rparr>"
  by (simp add: protocol_message_def serialize_def put_be16_def)

lemma stress_request_answered:
  assumes p: "parser_inv p" "parser_pending p = []" and b: "length b < 65530"
  obtains p' where "stress_request (serve_protocol now conn) (int (length (protocol_message CMD_ECHO b))) (protocol_message CMD_ECHO b) ([], (p, g), stats) =
      ([], (p', g), stats\<lparr>total_requests := total_requests stats + 1, total_bytes := total_bytes stats + 2 * length b + 14\<rparr>)"
    "parser_inv p'" "parser_pending p' = []"
proof -
  let ?m = "\<lparr>cmd = CMD_ECHO, body = b\<rparr>" and ?a = "\<lparr>cmd = CMD_ECHO, body = ascii ''Echo: '' @ b\<rparr>"
  have "wire_valid ?m" using b by (simp add: wire_valid_def)
  from feed_one [OF p this] obtain p' where f: "feed p (serialize ?m) = ([?m], p')" "parser_inv p'" "parser_pending p' = []" .
  have len: "length (serialize ?m) = 4 + length b" "length (serialize ?a) = 10 + length b"
    by (simp_all add: serialize_def put_be16_eq ascii_def)
  have serve: "serve_protocol now conn (serialize ?m) (p, g) = (serialize ?a, p', g)"
    using f(1) by (simp add: serve_protocol_def protocol_server_route_def handle_echo_def send_message_def)
  have "take 4 (serialize ?a) = put_be16 CMD_ECHO @ put_be16 (of_nat (6 + length b)) @ []"
    by (simp add: serialize_def ascii_def)
  then have "get_be16 (take 4 (serialize ?a)) 2 = of_nat (6 + length b)"
    using get_put_be16 [of "put_be16 CMD_ECHO" "of_nat (6 + length b)" "[]"] unfolding length_put_be16 by simp
  then have head: "unat (get_be16 (take 4 (serialize ?a)) 2) = 6 + length b"
    using b unat_of_nat16 [of "6 + length b"] by simp
  show ?thesis
    by (rule that [OF _ f(2,3)])
      (simp add: stress_request_def protocol_message_serialize len serve head del: of_nat_add)
qed

lemma client_worker_all:
  assumes "parser_inv p" "parser_pending p = []" "\<And>k. k < i + n \<Longrightarrow> length (stress_body message_size worker k) < 65530"
  shows "\<exists>p' stats'. client_worker (serve_protocol now conn) (\<lambda>_ len. int len) worker message_size i n ([], (p, g), stats) = ([], (p', g), stats') \<and>
    total_requests stats' = total_requests stats + n \<and> total_errors stats' = total_errors stats"
  using assms
proof (induction n arbitrary: i p stats)
  case (Suc n)
  from stress_request_answered [OF Suc.prems(1,2) Suc.prems(3) [of i], of now conn g stats] obtain p1 where
    r: "stress_request (serve_protocol now conn) (int (length (protocol_message CMD_ECHO (stress_body message_size worker i))))
        (protocol_message CMD_ECHO (stress_body message_size worker i)) ([], (p, g), stats) =
      ([], (p1, g), stats\<lparr>total_requests := total_requests stats + 1, total_bytes := total_bytes stats + 2 * length (stress_body message_size worker i) + 14\<rparr>)"
    and p1: "parser_inv p1" "parser_pending p1 = []" by auto
  from Suc.IH [OF p1, of "i + 1" "stats\<lparr>total_requests := total_requests stats + 1, total_bytes := total_bytes stats + 2 * length (stress_body message_size worker i) + 14\<rparr>"]
    Suc.prems(3) r show ?case by auto
qed simp

text \<open>
  The stress test against the protocol server, when every send goes through: as long as the messages stay below 65530 bytes, every
  request is answered and counted, and no byte is left over.
\<close>

lemma stress_test_succeeds:
  assumes "\<And>k. k < n \<Longrightarrow> length (stress_body message_size worker k) < 65530"
  shows "\<exists>s stats. client_worker (serve_protocol now conn) (\<lambda>_ len. int len) worker message_size 0 n ([], (parser_init, g), stats_init) = ([], s, stats) \<and>
    total_requests stats = n \<and> total_errors stats = 0"
proof -
  have "parser_inv parser_init" "parser_pending parser_init = []" by (simp_all add: parser_init_def parser_inv_def parser_pending_def)
  from client_worker_all [OF this, of 0 n message_size worker now conn g stats_init] assms show ?thesis by (auto simp: stats_init_def)
qed

text \<open>A size whose message does not fit the 16-bit length: the length on the wire is the remainder.\<close>

lemma stress_length_wraps: "length b = 65536 + k \<Longrightarrow> k < 65536 \<Longrightarrow> unat (get_be16 (protocol_message CMD_ECHO b) 2) = k"
proof -
  assume a: "length b = 65536 + k" "k < 65536"
  have "get_be16 (put_be16 CMD_ECHO @ put_be16 (of_nat (length b)) @ b) 2 = of_nat (length b)"
    using get_put_be16 [of "put_be16 CMD_ECHO" "of_nat (length b)" b] unfolding length_put_be16 .
  moreover have "(of_nat (length b) :: 16 word) = of_nat k" using a(1) by simp
  ultimately show ?thesis using a(2) by (simp add: protocol_message_serialize serialize_def unat_of_nat16)
qed

end
