(* ===== verification/Tls.thy ===== *)
theory Tls
  imports Transport
begin

text \<open>
  TLS on top of sockets: \<^verbatim>\<open>net/tls.h\<close> and \<^verbatim>\<open>net/tls.cpp\<close>, with and without \<^verbatim>\<open>CHWELL_USE_OPENSSL\<close>. OpenSSL is a parameter: the
  record \<open>openssl\<close> has the result of every function the code calls, and an operation returns, besides its result and the new object, the
  calls it made on the library's objects in their order. Contexts and sessions of the library are numbers; \<open>None\<close> is the null pointer.
\<close>

section \<open>The library\<close>

datatype ssl_call =
    CtxNew bool nat | CtxFree nat | CtxUse nat
  | SslNew nat | SslSetFd nat int | SslUse nat | SslShutdown nat | SslFree nat

record openssl =
  ctx_new :: "bool \<Rightarrow> nat option"
  use_certificate_file :: "nat \<Rightarrow> string \<Rightarrow> int"
  use_private_key_file :: "nat \<Rightarrow> string \<Rightarrow> int"
  check_private_key :: "nat \<Rightarrow> bool"
  load_verify_locations :: "nat \<Rightarrow> string \<Rightarrow> bool"
  ssl_new :: "nat option \<Rightarrow> nat option"
  ssl_accept :: "nat \<Rightarrow> int"
  ssl_connect :: "nat \<Rightarrow> int"
  ssl_read :: "nat \<Rightarrow> int \<Rightarrow> int"
  ssl_write :: "nat \<Rightarrow> int \<Rightarrow> int"

section \<open>TlsContext\<close>

text \<open>\<open>verify_peer\<close> is what \<^verbatim>\<open>SSL_CTX_set_verify\<close> left in the library's context; a new context does not verify.\<close>

record tls_context =
  tls_ctx :: "nat option"
  tls_is_server :: bool
  verify_peer :: bool

definition tls_context_init :: tls_context where
  "tls_context_init = \<lparr>tls_ctx = None, tls_is_server = False, verify_peer = False\<rparr>"

definition tls_context_destroy :: "tls_context \<Rightarrow> ssl_call list \<times> tls_context" where
  "tls_context_destroy t = (case tls_ctx t of None \<Rightarrow> ([], t) | Some c \<Rightarrow> ([CtxFree c], t\<lparr>tls_ctx := None\<rparr>))"

definition init_server :: "openssl \<Rightarrow> string \<Rightarrow> string \<Rightarrow> tls_context \<Rightarrow> bool \<times> ssl_call list \<times> tls_context" where
  "init_server lib cert_file key_file t =
     (let t1 = t\<lparr>tls_is_server := True\<rparr>
      in case ctx_new lib True of
           None \<Rightarrow> (False, [], t1)
         | Some c \<Rightarrow>
             if use_certificate_file lib c cert_file \<le> 0 then (False, [CtxNew True c, CtxUse c, CtxFree c], t1)
             else if use_private_key_file lib c key_file \<le> 0 then (False, [CtxNew True c, CtxUse c, CtxUse c, CtxFree c], t1)
             else if \<not> check_private_key lib c then (False, [CtxNew True c, CtxUse c, CtxUse c, CtxUse c, CtxFree c], t1)
             else (True, [CtxNew True c, CtxUse c, CtxUse c, CtxUse c], t1\<lparr>tls_ctx := Some c, verify_peer := False\<rparr>))"

definition init_client :: "openssl \<Rightarrow> string \<Rightarrow> tls_context \<Rightarrow> bool \<times> ssl_call list \<times> tls_context" where
  "init_client lib ca_file t =
     (let t1 = t\<lparr>tls_is_server := False\<rparr>
      in case ctx_new lib False of
           None \<Rightarrow> (False, [], t1)
         | Some c \<Rightarrow>
             if ca_file \<noteq> []
             then (if \<not> load_verify_locations lib c ca_file then (False, [CtxNew False c, CtxUse c, CtxFree c], t1)
                   else (True, [CtxNew False c, CtxUse c, CtxUse c], t1\<lparr>tls_ctx := Some c, verify_peer := True\<rparr>))
             else (True, [CtxNew False c], t1\<lparr>tls_ctx := Some c, verify_peer := False\<rparr>))"

text \<open>Without OpenSSL.\<close>

definition init_server_stub :: "string \<Rightarrow> string \<Rightarrow> tls_context \<Rightarrow> bool \<times> tls_context" where
  "init_server_stub cert_file key_file t = (False, t)"

definition init_client_stub :: "string \<Rightarrow> tls_context \<Rightarrow> bool \<times> tls_context" where
  "init_client_stub ca_file t = (False, t)"

section \<open>TlsConnection\<close>

record tls_connection =
  tls_owner :: tls_context
  tls_socket :: tcp_socket
  ssl :: "nat option"
  established :: bool

definition tls_connection_init :: "openssl \<Rightarrow> tls_context \<Rightarrow> tcp_socket \<Rightarrow> ssl_call list \<times> tls_connection" where
  "tls_connection_init lib t sock =
     (let c = \<lparr>tls_owner = t, tls_socket = fst (sock_move sock), ssl = None, established = False\<rparr>
      in case ssl_new lib (tls_ctx t) of
           None \<Rightarrow> ([], c)
         | Some s \<Rightarrow> ([SslNew s, SslSetFd s (sock_fd (tls_socket c))], c\<lparr>ssl := Some s\<rparr>))"

definition handshake :: "openssl \<Rightarrow> tls_connection \<Rightarrow> bool \<times> ssl_call list \<times> tls_connection" where
  "handshake lib c = (case ssl c of
     None \<Rightarrow> (False, [], c)
   | Some s \<Rightarrow>
       let ret = (if tls_is_server (tls_owner c) then ssl_accept lib s else ssl_connect lib s)
       in if ret \<le> 0 then (False, [SslUse s], c) else (True, [SslUse s], c\<lparr>established := True\<rparr>))"

text \<open>The length is cast to a 32-bit \<^verbatim>\<open>int\<close>. A failed call asks the library for the error, to log it, and the caller gets \<open>-1\<close>.\<close>

definition int_of_len :: "nat \<Rightarrow> int" where
  "int_of_len len = sint (of_nat len :: 32 word)"

definition tls_read :: "openssl \<Rightarrow> nat \<Rightarrow> tls_connection \<Rightarrow> int \<times> ssl_call list" where
  "tls_read lib len c = (case ssl c of
     None \<Rightarrow> (-1, [])
   | Some s \<Rightarrow> let n = ssl_read lib s (int_of_len len) in if n \<le> 0 then (-1, [SslUse s, SslUse s]) else (n, [SslUse s]))"

definition tls_write :: "openssl \<Rightarrow> nat \<Rightarrow> tls_connection \<Rightarrow> int \<times> ssl_call list" where
  "tls_write lib len c = (case ssl c of
     None \<Rightarrow> (-1, [])
   | Some s \<Rightarrow> let n = ssl_write lib s (int_of_len len) in if n \<le> 0 then (-1, [SslUse s, SslUse s]) else (n, [SslUse s]))"

definition close_socket :: "tls_connection \<Rightarrow> tls_connection" where
  "close_socket c = (if sock_is_open (tls_socket c) then c\<lparr>tls_socket := sock_close (tls_socket c)\<rparr> else c)\<lparr>established := False\<rparr>"

definition tls_close :: "tls_connection \<Rightarrow> ssl_call list \<times> tls_connection" where
  "tls_close c = (case ssl c of
     None \<Rightarrow> ([], close_socket c)
   | Some s \<Rightarrow> ([SslShutdown s, SslFree s], close_socket (c\<lparr>ssl := None\<rparr>)))"

definition tls_connection_init_stub :: "tls_context \<Rightarrow> tcp_socket \<Rightarrow> tls_connection" where
  "tls_connection_init_stub t sock = \<lparr>tls_owner = t, tls_socket = fst (sock_move sock), ssl = None, established = False\<rparr>"

definition handshake_stub :: "tls_connection \<Rightarrow> bool" where
  "handshake_stub c = False"

definition tls_read_stub :: "nat \<Rightarrow> tls_connection \<Rightarrow> int" where
  "tls_read_stub len c = -1"

definition tls_write_stub :: "nat \<Rightarrow> tls_connection \<Rightarrow> int" where
  "tls_write_stub len c = -1"

definition tls_close_stub :: "tls_connection \<Rightarrow> tls_connection" where
  "tls_close_stub c = close_socket c"

section \<open>Objects are freed once and not used after\<close>

text \<open>A connection from its constructor to its destructor, with the operations in between in any order.\<close>

datatype tls_op = Handshake | Read nat | Write nat | Close

fun tls_step :: "openssl \<Rightarrow> tls_op \<Rightarrow> tls_connection \<Rightarrow> ssl_call list \<times> tls_connection" where
  "tls_step lib Handshake c = snd (handshake lib c)"
| "tls_step lib (Read len) c = (snd (tls_read lib len c), c)"
| "tls_step lib (Write len) c = (snd (tls_write lib len c), c)"
| "tls_step lib Close c = tls_close c"

fun tls_steps :: "openssl \<Rightarrow> tls_op list \<Rightarrow> tls_connection \<Rightarrow> ssl_call list \<times> tls_connection" where
  "tls_steps lib [] c = ([], c)"
| "tls_steps lib (op # ops) c =
     (let (calls, c1) = tls_step lib op c; (calls', c2) = tls_steps lib ops c1 in (calls @ calls', c2))"

definition tls_lifetime :: "openssl \<Rightarrow> tls_context \<Rightarrow> tcp_socket \<Rightarrow> tls_op list \<Rightarrow> ssl_call list \<times> tls_connection" where
  "tls_lifetime lib t sock ops =
     (let (calls, c) = tls_connection_init lib t sock; (calls', c1) = tls_steps lib ops c; (calls'', c2) = tls_close c1
      in (calls @ calls' @ calls'', c2))"

text \<open>The rules of the library for one session object: it is created, used, shut down and freed, and then left alone.\<close>

fun ssl_rules :: "nat option \<Rightarrow> ssl_call list \<Rightarrow> nat option option" where
  "ssl_rules live [] = Some live"
| "ssl_rules None (SslNew s # calls) = ssl_rules (Some s) calls"
| "ssl_rules (Some s) (SslSetFd s' _ # calls) = (if s = s' then ssl_rules (Some s) calls else None)"
| "ssl_rules (Some s) (SslUse s' # calls) = (if s = s' then ssl_rules (Some s) calls else None)"
| "ssl_rules (Some s) (SslShutdown s' # calls) = (if s = s' then ssl_rules (Some s) calls else None)"
| "ssl_rules (Some s) (SslFree s' # calls) = (if s = s' then ssl_rules None calls else None)"
| "ssl_rules _ _ = None"

lemma ssl_rules_append:
  "ssl_rules live (calls @ calls') = (case ssl_rules live calls of None \<Rightarrow> None | Some live' \<Rightarrow> ssl_rules live' calls')"
  by (induction live calls rule: ssl_rules.induct) auto

lemma close_socket_ssl [simp]: "ssl (close_socket c) = ssl c"
  by (simp add: close_socket_def)

lemma tls_step_rules: "tls_step lib op c = (calls, c') \<Longrightarrow> ssl_rules (ssl c) calls = Some (ssl c')"
  by (cases op; cases "ssl c")
    (auto simp: handshake_def tls_read_def tls_write_def tls_close_def Let_def split: if_split_asm)

lemma tls_steps_rules: "tls_steps lib ops c = (calls, c') \<Longrightarrow> ssl_rules (ssl c) calls = Some (ssl c')"
  by (induction ops arbitrary: c calls)
    (auto simp: Let_def ssl_rules_append split: prod.split_asm dest!: tls_step_rules)

lemma tls_lifetime_rules: "ssl_rules None (fst (tls_lifetime lib t sock ops)) = Some None"
proof -
  obtain calls c where 1: "tls_connection_init lib t sock = (calls, c)" by fastforce
  obtain calls' c1 where 2: "tls_steps lib ops c = (calls', c1)" by fastforce
  have "ssl_rules None calls = Some (ssl c)"
    using 1 by (auto simp: tls_connection_init_def Let_def split: option.split_asm)
  moreover have "ssl_rules (ssl c1) (fst (tls_close c1)) = Some None"
    by (simp add: tls_close_def split: option.split)
  ultimately show ?thesis
    using 1 2 tls_steps_rules [OF 2] by (simp add: tls_lifetime_def ssl_rules_append split_beta)
qed

lemma tls_lifetime_socket: "\<not> sock_is_open (tls_socket (snd (tls_lifetime lib t sock ops)))"
  by (auto simp: tls_lifetime_def tls_close_def close_socket_def sock_is_open_def sock_close_def split_beta Let_def split: option.split)

text \<open>A context that is initialised once frees what it created.\<close>

lemma context_balanced_server:
  assumes "init_server lib cert key tls_context_init = (ok, calls, t)" "tls_context_destroy t = (calls', t')" "ctx_new lib True = Some c"
  shows "filter (\<lambda>x. x = CtxFree c) (calls @ calls') = [CtxFree c]"
  using assms by (auto simp: init_server_def tls_context_init_def tls_context_destroy_def Let_def split: if_split_asm)

lemma context_balanced_client:
  assumes "init_client lib ca tls_context_init = (ok, calls, t)" "tls_context_destroy t = (calls', t')" "ctx_new lib False = Some c"
  shows "filter (\<lambda>x. x = CtxFree c) (calls @ calls') = [CtxFree c]"
  using assms by (auto simp: init_client_def tls_context_init_def tls_context_destroy_def Let_def split: if_split_asm)

text \<open>A second initialisation forgets the context of the first, which is never freed.\<close>

lemma context_reinit_leaks:
  assumes "init_client lib ca t = (True, calls, t1)" "init_client lib' ca' t1 = (True, calls1, t2)" "tls_context_destroy t2 = (calls2, t3)"
    and "ctx_new lib False = Some c" "ctx_new lib' False = Some c'" "c \<noteq> c'"
  shows "CtxFree c \<notin> set (calls @ calls1 @ calls2)"
  using assms by (auto simp: init_client_def tls_context_destroy_def Let_def split: if_split_asm)

text \<open>Without a certificate file the client accepts any server: the system's certificates are not consulted.\<close>

lemma no_ca_no_verification: "init_client lib [] t = (True, calls, t') \<Longrightarrow> \<not> verify_peer t'"
  by (auto simp: init_client_def Let_def split: option.split_asm)

text \<open>The end of the stream and an error are not told apart, unlike a read of a plain socket, which returns 0 at the end.\<close>

lemma tls_read_never_zero: "fst (tls_read lib len c) \<noteq> 0"
  by (auto simp: tls_read_def Let_def split: option.split)

end
