(* ===== verification/BalancerBench.thy ===== *)
theory BalancerBench
  imports Benchmark LoadBalancer ConsistentHash
begin

text \<open>
  The benchmarks of the load balancers and of the router in \<^verbatim>\<open>benchmark/benchmark.cpp\<close>: discovery, balancers, hash ring and parser put
  together as the benchmarks do, with what every measured call returns. A benchmark whose calls fail would measure the error path; the
  lemmas say that they do not.
\<close>

section \<open>The benchmarks\<close>

definition inst_name :: "nat \<Rightarrow> string" where
  "inst_name i = ''inst_'' @ to_string i"

definition bench_instance :: "nat \<Rightarrow> service_instance" where
  "bench_instance i = \<lparr>service_id = ''bench_svc'', instance_id = inst_name i, host = ''127.0.0.1'', port = of_nat (8000 + i), metadata = Map.empty,
     register_time = 0, heartbeat_time = 0, is_alive_flag = True\<rparr>"

definition bench_discovery :: "(nat \<Rightarrow> int) \<Rightarrow> unit discovery" where
  "bench_discovery now = foldl (\<lambda>d i. snd (snd (register_service d (now i) (bench_instance i)))) (disc_init 30000 0) [0..<5]"

definition benchmark_round_robin_select :: "(string set \<Rightarrow> string list) \<Rightarrow> (nat \<Rightarrow> int) \<Rightarrow> nat \<Rightarrow> bool list" where
  "benchmark_round_robin_select order now iterations =
     map (\<lambda>x. x \<noteq> None) (fst (rr_run (discover_services order (bench_discovery now)) rr_init ''bench_svc'' iterations))"

definition benchmark_consistent_hash_select :: "(vnode list \<Rightarrow> vnode list) \<Rightarrow> nat \<Rightarrow> bool list" where
  "benchmark_consistent_hash_select srt iterations =
     (let lb = foldl (\<lambda>r i. add_instance srt r ''bench_svc'' (inst_name i) 1) (ring_init 160) [0..<5]
      in map (\<lambda>i. select_instance lb ''bench_svc'' (''key_'' @ to_string i) \<noteq> None) [0..<iterations])"

definition benchmark_weighted_round_robin_select :: "(string set \<Rightarrow> string list) \<Rightarrow> (nat \<Rightarrow> int) \<Rightarrow> nat \<Rightarrow> bool list" where
  "benchmark_weighted_round_robin_select order now iterations =
     (let lb = foldl (\<lambda>b i. wrr_set_weight b (inst_name i) (int i + 1)) wrr_init [0..<5]
      in map (\<lambda>x. x \<noteq> None)
           (fst (wrr_run (discover_services order (bench_discovery now)) lb ''bench_svc'' iterations)))"

text \<open>Every read of the same connection goes through one parser; the result is the commands that find a handler, call by call.\<close>

definition bench_handlers :: "nat \<Rightarrow> 16 word set" where
  "bench_handlers handlers_count = (\<lambda>i. of_nat (1000 + i)) ` {..<handlers_count}"

fun router_calls :: "16 word set \<Rightarrow> bytes \<Rightarrow> nat \<Rightarrow> parser \<Rightarrow> 16 word list list" where
  "router_calls hs raw 0 p = []"
| "router_calls hs raw (Suc n) p =
     (let (msgs, p') = feed p raw in filter (\<lambda>k. k \<in> hs) (map cmd msgs) # router_calls hs raw n p')"

definition benchmark_protocol_router_dispatch :: "nat \<Rightarrow> nat \<Rightarrow> 16 word list list" where
  "benchmark_protocol_router_dispatch iterations handlers_count =
     router_calls (bench_handlers handlers_count) (serialize \<lparr>cmd = 1000, body = bench_body 100\<rparr>) iterations parser_init"

definition benchmark_message_copy_move :: "nat \<Rightarrow> nat \<Rightarrow> message list list" where
  "benchmark_message_copy_move iterations body_size =
     (let messages = map (\<lambda>i. \<lparr>cmd = of_nat (1000 + i), body = bench_body body_size\<rparr>) [0..<100]
      in map (\<lambda>_. messages) [0..<iterations])"

section \<open>Their calls succeed\<close>

lemma inst_name_digit: "i < 10 \<Longrightarrow> inst_name i = ''inst_'' @ [char_of (48 + i)]"
  by (simp add: inst_name_def to_string.simps)

lemma inst_name_inj: "i < 10 \<Longrightarrow> j < 10 \<Longrightarrow> inst_name i = inst_name j \<Longrightarrow> i = j"
proof -
  assume a: "i < 10" "j < 10" "inst_name i = inst_name j"
  then have "(of_char (char_of (48 + i)) :: nat) = of_char (char_of (48 + j))" by (simp add: inst_name_digit)
  then show ?thesis using a by (simp only: of_char_of) simp
qed

definition bench_registered :: "(nat \<Rightarrow> int) \<Rightarrow> nat \<Rightarrow> service_instance" where
  "bench_registered now i = (bench_instance i)\<lparr>register_time := now i, heartbeat_time := now i, is_alive_flag := True\<rparr>"

definition bench_registrations :: "(nat \<Rightarrow> int) \<Rightarrow> nat \<Rightarrow> unit discovery" where
  "bench_registrations now n = foldl (\<lambda>d i. snd (snd (register_service d (now i) (bench_instance i)))) (disc_init 30000 0) [0..<n]"

lemma bench_registrations_inv: "disc_inv (bench_registrations now n)"
  by (induction n) (simp_all add: bench_registrations_def disc_inv_init register_inv)

lemma bench_registrations_instances:
  "n \<le> 10 \<Longrightarrow> instances (bench_registrations now n) = map_of (map (\<lambda>i. (inst_name i, bench_registered now i)) [0..<n])"
proof (induction n)
  case 0
  show ?case by (simp add: bench_registrations_def disc_init_def)
next
  case (Suc n)
  have new: "map_of (map (\<lambda>i. (inst_name i, bench_registered now i)) [0..<n]) (inst_name n) = None"
  proof -
    have "inst_name n \<noteq> inst_name x" if "x < n" for x using inst_name_inj [of n x] Suc.prems that by auto
    then have "inst_name n \<notin> inst_name ` {0..<n}" by (metis atLeastLessThan_iff imageE)
    then show ?thesis by (simp add: map_of_eq_None_iff image_image)
  qed
  have i: "instance_id (bench_instance n) = inst_name n" "inst_name n \<noteq> []" by (simp_all add: bench_instance_def inst_name_def)
  have s: "bench_registrations now (Suc n) = snd (snd (register_service (bench_registrations now n) (now n) (bench_instance n)))"
    by (simp add: bench_registrations_def)
  have "instances (bench_registrations now (Suc n)) = (instances (bench_registrations now n))(inst_name n \<mapsto> bench_registered now n)"
    using Suc new i unfolding s by (simp add: register_service_def Let_def bench_registered_def)
  then show ?case
    using Suc new by (simp add: map_of_append map_add_upds fun_eq_iff map_add_def split: option.split)
qed

lemma bench_registered_ids [simp]: "service_id (bench_registered now i) = ''bench_svc''" "instance_id (bench_registered now i) = inst_name i"
  by (simp_all add: bench_registered_def bench_instance_def)

lemma bench_names_distinct: "distinct (map inst_name [0..<5])"
  by (simp add: distinct_map inj_on_def inst_name_inj)

lemma bench_registrations_registered:
  "registered (bench_registrations now 5) ''bench_svc'' = bench_registered now ` {..<5}"
  unfolding registered_def bench_registrations_instances [of 5, simplified]
  using bench_names_distinct by (force simp: map_of_eq_Some_iff comp_def image_iff)

lemma bench_discovery_registrations: "bench_discovery now = bench_registrations now 5"
  by (simp add: bench_discovery_def bench_registrations_def)

lemma bench_discovered:
  assumes "enumerates order"
  shows "set (discover_services order (bench_discovery now) ''bench_svc'') = bench_registered now ` {..<5}"
    and "distinct (map instance_id (discover_services order (bench_discovery now) ''bench_svc''))"
  by (simp_all add: bench_discovery_registrations discover_set [OF assms bench_registrations_inv] bench_registrations_registered)

lemma bench_discovered_some: "enumerates order \<Longrightarrow> discover_services order (bench_discovery now) ''bench_svc'' \<noteq> []"
  by (simp add: bench_discovered(1) lessThan_empty_iff flip: set_empty)

text \<open>Round robin.\<close>

lemma rr_run_succeeds:
  assumes "rr_instances b \<noteq> [] \<or> disc sid \<noteq> []"
  shows "list_all (\<lambda>x. x \<noteq> None) (fst (rr_run disc b sid n)) \<and> length (fst (rr_run disc b sid n)) = n"
  using assms
proof (induction n arbitrary: b)
  case (Suc n)
  have "rr_instances (snd (rr_select disc b sid)) \<noteq> []" "fst (rr_select disc b sid) \<noteq> None"
    using Suc.prems by (auto simp: rr_select_def Let_def)
  with Suc.IH [of "snd (rr_select disc b sid)"] show ?case by (simp add: split_beta)
qed simp

lemma all_true: "list_all P xs \<Longrightarrow> length xs = n \<Longrightarrow> map P xs = replicate n True"
  by (induction xs arbitrary: n) auto

lemma round_robin_bench_succeeds:
  assumes "enumerates order"
  shows "benchmark_round_robin_select order now iterations = replicate iterations True"
proof -
  have "rr_instances rr_init \<noteq> [] \<or> discover_services order (bench_discovery now) ''bench_svc'' \<noteq> []"
    by (simp add: bench_discovered_some [OF assms])
  from rr_run_succeeds [where disc = "discover_services order (bench_discovery now)" and sid = "''bench_svc''", OF this] show ?thesis unfolding benchmark_round_robin_select_def by (intro all_true) simp_all
qed

text \<open>Consistent hashing, for any sort.\<close>

lemma hash_bench_ring:
  assumes "std_sort srt"
  shows "ring_inv (foldl (\<lambda>r i. add_instance srt r sid (inst_name i) 1) (ring_init 160) [0..<n]) \<and>
    virtual_nodes (foldl (\<lambda>r i. add_instance srt r sid (inst_name i) 1) (ring_init 160) [0..<n]) = 160 \<and>
    (0 < n \<longrightarrow> entry (service_ring (foldl (\<lambda>r i. add_instance srt r sid (inst_name i) 1) (ring_init 160) [0..<n])) sid \<noteq> [])"
proof (induction n)
  case 0
  show ?case by (simp add: ring_init_def ring_inv_def ring_sorted_def)
next
  case (Suc n)
  let ?r = "foldl (\<lambda>r i. add_instance srt r sid (inst_name i) 1) (ring_init 160) [0..<n]"
  have "set (entry (service_ring (add_instance srt ?r sid (inst_name n) 1)) sid) \<noteq> {}"
    using Suc by (simp add: std_sort.set_add_entry [OF assms])
  moreover have "virtual_nodes (add_instance srt ?r sid (inst_name n) 1) = 160" using Suc by (simp add: add_instance_def Let_def)
  ultimately show ?case using Suc std_sort.add_inv [OF assms] by simp
qed

lemma consistent_hash_bench_succeeds:
  assumes "std_sort srt"
  shows "benchmark_consistent_hash_select srt iterations = replicate iterations True"
proof -
  note r = hash_bench_ring [OF assms, of "''bench_svc''" 5]
  have "list_all (\<lambda>i. select_instance (foldl (\<lambda>r i. add_instance srt r ''bench_svc'' (inst_name i) 1) (ring_init 160) [0..<5])
      ''bench_svc'' (''key_'' @ to_string i) \<noteq> None) [0..<iterations]"
    using r by (simp add: list_all_iff select_entry Let_def)
  then show ?thesis unfolding benchmark_consistent_hash_select_def Let_def by (rule all_true) simp
qed

text \<open>Weighted round robin.\<close>

lemma wrr_run_succeeds:
  assumes "wrr_inv insts b"
  shows "list_all (\<lambda>x. x \<noteq> None) (fst (wrr_run disc b sid n)) \<and> length (fst (wrr_run disc b sid n)) = n"
  using wrr_run_steps [OF assms, of disc sid n] by (auto simp: list_all_iff)

lemma wrr_run_cached:
  assumes "wrr_instances b = []"
  shows "fst (wrr_run disc b sid n) = fst (wrr_run disc (b\<lparr>wrr_instances := sort_key instance_id (disc sid)\<rparr>) sid n)"
proof (cases n)
  case (Suc m)
  have "wrr_select disc b sid = wrr_select disc (b\<lparr>wrr_instances := sort_key instance_id (disc sid)\<rparr>) sid"
    using assms by (simp add: wrr_select_def sort_key_eq_Nil)
  with Suc show ?thesis by simp
qed simp

definition bench_wrr :: wrr_balancer where
  "bench_wrr = foldl (\<lambda>b i. wrr_set_weight b (inst_name i) (int i + 1)) wrr_init [0..<5]"

lemma bench_wrr_weight: "i < 5 \<Longrightarrow> wrr_get_weight bench_wrr (inst_name i) = int i + 1"
proof -
  assume "i < 5"
  then have "i \<in> {0, 1, 2, 3, 4}" by auto
  then show ?thesis
    by (auto simp: bench_wrr_def wrr_set_weight_def wrr_get_weight_def wrr_init_def upt_rec inst_name_digit)
qed

lemma weighted_bench_succeeds:
  assumes "enumerates order"
  shows "benchmark_weighted_round_robin_select order now iterations = replicate iterations True"
proof -
  let ?disc = "discover_services order (bench_discovery now)"
  let ?insts = "sort_key instance_id (?disc ''bench_svc'')" and ?b = "bench_wrr\<lparr>wrr_instances := sort_key instance_id (?disc ''bench_svc'')\<rparr>"
  have empty: "wrr_instances bench_wrr = []" "current_weights bench_wrr = Map.empty"
    by (simp_all add: bench_wrr_def wrr_set_weight_def wrr_init_def upt_rec)
  have set: "set ?insts = bench_registered now ` {..<5}" by (simp add: bench_discovered(1) [OF assms])
  have d: "distinct (map instance_id ?insts)"
    using bench_discovered(2) [OF assms, of now] mset_eq_imp_distinct_iff [of "map instance_id ?insts" "map instance_id (?disc ''bench_svc'')"] by simp
  have inj: "inj_on (bench_registered now) {..<5}"
  proof (rule inj_onI)
    fix i j :: nat
    assume "i \<in> {..<5}" "j \<in> {..<5}" "bench_registered now i = bench_registered now j"
    then show "i = j" using bench_registered_ids(2) [of now i] by (intro inst_name_inj) simp_all
  qed
  have "length ?insts = card (set ?insts)" using d by (simp add: distinct_card distinct_map)
  then have "length ?insts = 5" unfolding set using inj by (simp add: card_image)
  moreover have w: "wrr_get_weight ?b (instance_id (bench_registered now i)) = int i + 1" if "i < 5" for i
    using bench_wrr_weight [OF that] by (simp add: wrr_get_weight_def)
  moreover have "(\<Sum>inst\<in>set ?insts. wrr_get_weight ?b (instance_id inst)) = 15"
    unfolding set using inj w by (simp add: sum.reindex lessThan_nat_numeral lessThan_Suc)
  ultimately have "wrr_inv ?insts ?b"
    using d empty set by (auto simp: wrr_inv_def Let_def cwv_def)
  from wrr_run_succeeds [OF this, of ?disc "''bench_svc''" iterations] show ?thesis
    unfolding benchmark_weighted_round_robin_select_def Let_def bench_wrr_def [symmetric] wrr_run_cached [OF empty(1)]
    by (intro all_true) simp_all
qed

text \<open>The router: every call dispatches the one message of the buffer, and leaves nothing behind in the parser.\<close>

lemma router_calls_each:
  assumes "parser_inv p" "parser_pending p = []" "wire_valid m" "cmd m \<in> hs"
  shows "router_calls hs (serialize m) n p = replicate n [cmd m]"
  using assms(1,2)
proof (induction n arbitrary: p)
  case (Suc n)
  from feed_one [OF Suc.prems assms(3)] obtain p' where "feed p (serialize m) = ([m], p')" "parser_inv p'" "parser_pending p' = []" .
  with Suc.IH [of p'] assms(4) show ?case by simp
qed simp

lemma router_bench_dispatches:
  assumes "0 < handlers_count"
  shows "benchmark_protocol_router_dispatch iterations handlers_count = replicate iterations [1000]"
proof -
  have "(1000 :: 16 word) \<in> bench_handlers handlers_count"
    using assms by (force simp: bench_handlers_def)
  then show ?thesis
    using router_calls_each [of parser_init "\<lparr>cmd = 1000, body = bench_body 100\<rparr>" "bench_handlers handlers_count" iterations]
    by (simp add: benchmark_protocol_router_dispatch_def parser_init_def parser_inv_def parser_pending_def wire_valid_def bench_body_def)
qed

end
