(* ===== verification/Spec2Isabelle.thy ===== *)
theory Spec2Isabelle
  imports Codec RateLimiter CircuitBreaker ConsistentHash LoadBalancer CrossListAoi StateSync Storage TaskQueue
    DistributedLock SlgMap Battle ObjectPool EventBus ConnectionPool Rpc Gateway PlayerMove
    AsyncStorage Http Config StorageFactory Node Logger Benchmark WsGame GameGateway ServerExamples Tls BalancerBench
begin

text \<open>
  Verification library for ChwellCore, a C++ framework for game servers. All paths are below
  \<^verbatim>\<open>src/\<close>: headers in \<^verbatim>\<open>src/include/chwell\<close>, implementations in \<^verbatim>\<open>src/src\<close>, the
  servers put together from them in \<^verbatim>\<open>src/examples\<close>.

  \<^bold>\<open>The program.\<close> A server reads bytes from its connections, cuts them into messages
  (\<^verbatim>\<open>protocol\<close>, \<^verbatim>\<open>codec\<close>), and dispatches each message by its command to the components of a
  \<^verbatim>\<open>Service\<close>: login, chat, rooms, heartbeat (\<^verbatim>\<open>service\<close>, \<^verbatim>\<open>game\<close>), frame and state synchronisation
  (\<^verbatim>\<open>sync\<close>). Behind them stand who-sees-whom (\<^verbatim>\<open>aoi\<close>) and the strategy map and battles that use it
  (\<^verbatim>\<open>slg\<close>). Calls to other nodes go through discovery, consistent hashing and load balancing
  (\<^verbatim>\<open>discovery\<close>, \<^verbatim>\<open>cluster\<close>, \<^verbatim>\<open>loadbalance\<close>), are protected by rate limiters and circuit breakers, and
  travel as RPC requests (\<^verbatim>\<open>rpc\<close>), over pooled connections (\<^verbatim>\<open>net\<close>) or through a gateway (\<^verbatim>\<open>gateway\<close>).
  Data lives in documents and repositories over a storage interface (\<^verbatim>\<open>storage\<close>), and in a Redis
  stand-in that also carries a distributed lock (\<^verbatim>\<open>redis\<close>). Connections are accepted and read by the threads of
  an I/O service (\<^verbatim>\<open>net\<close>), over TCP, WebSocket, UDP or HTTP (\<^verbatim>\<open>http\<close>). Timers, task queues, pools, the event
  bus, configuration, logging and metrics are shared infrastructure (\<^verbatim>\<open>core\<close>, \<^verbatim>\<open>task\<close>, \<^verbatim>\<open>pool\<close>, \<^verbatim>\<open>event\<close>,
  \<^verbatim>\<open>metrics\<close>). The examples are servers: a lobby with two-player matches, gateways in front of it, a bridge that lets browsers
  reach the gateway over WebSocket, and WebSocket servers of their own (\<^verbatim>\<open>examples\<close>).

  \<^bold>\<open>Conventions.\<close> A class is a record, an enumeration a datatype, a method a function from the
  state to its result and the new state. A failure of the C++ abstract machine (a read out of
  bounds, a mutex locked twice, a loop without end, an exception, \<^verbatim>\<open>std::terminate\<close>) is a value of
  \<open>cpp_error\<close> on the left of a sum, so that absence of failures is part of what is proved.
  Integers that the code keeps at a fixed width on the wire, in hashes and in counters that wrap
  are words; other counts are numbers, and each theory says where it assumes that they fit.
  Clock readings are arguments. What the language leaves open is a parameter with its contract:
  the iteration order of hash containers (\<open>enumerates\<close>), \<^verbatim>\<open>std::sort\<close> on a partial key, floating-point
  rounding and text, random draws. A mutex held over a whole method makes the method one step;
  where the code releases it or uses atomics, the steps are split there and all interleavings
  are considered (\<open>CircuitBreaker\<close>, \<open>DistributedLock\<close>, \<open>TaskQueue\<close>, \<open>ConnectionPool\<close>, \<open>WorkQueue\<close>, \<open>Server\<close>).
  Client libraries and system calls are parameters, records of the functions the code calls or the results of the
  calls; what a theorem relies on is a named hypothesis that states their documented effect.

  \<^bold>\<open>Theories, sources and what is shown.\<close>

  \<^item> \<open>Chwell_Prelude\<close>: scalar types, byte order (\<^verbatim>\<open>core/endian.h\<close>), errors, shared lemmas.

  \<^item> \<open>Framing\<close>: three locales. \<open>frame_format\<close> is a format that takes the first frame off a byte
  string, \<open>frame_codec\<close> adds the encoder, \<open>buffered_decoder\<close> a buffer that is fed piece by piece; that
  reading a stream in pieces equals reading it whole is proved once there.

  \<^item> \<open>Protocol\<close> (\<^verbatim>\<open>protocol/message.cpp\<close>, \<^verbatim>\<open>protocol/parser.cpp\<close>) and \<open>Codec\<close>
  (\<^verbatim>\<open>codec/codec.cpp\<close>): the messages sent are the messages received, for every way the stream is
  cut, for bodies below 64 KiB; a 32-bit length near the maximum makes the length codecs read past their buffer; an
  overlong varint wedges the Protobuf codec; bodies of 64 KiB and more are truncated.

  \<^item> \<open>RateLimiter\<close> (\<^verbatim>\<open>ratelimit/rate_limiter.cpp\<close>): bounds on what the three limiters admit, from
  the locale \<open>admission\<close> of a budget that refills and that a reset restores; polling can starve a client.
  \<open>CircuitBreaker\<close> (\<^verbatim>\<open>circuitbreaker/circuit_breaker.cpp\<close>): when it trips, and that it never
  recovers by itself.

  \<^item> \<open>ConsistentHash\<close> (\<^verbatim>\<open>loadbalance/consistent_hash.cpp\<close>, \<^verbatim>\<open>cluster/node_registry.h\<close>): the ring selects
  the first virtual node clockwise (against a reference definition, for the bisection of
  \<^verbatim>\<open>std::lower_bound\<close>), and changes of the membership move only the keys they must.
  \<open>Discovery\<close> (\<^verbatim>\<open>discovery/service_discovery.cpp\<close>): the index invariant and exact lookups.
  \<open>LoadBalancer\<close> (\<^verbatim>\<open>loadbalance/load_balancer.cpp\<close>): the locale \<open>load_balancer\<close> for the three
  strategies, and that one round of smooth weighted round robin is fair.

  \<^item> \<open>GameService\<close> (\<^verbatim>\<open>service/session_manager.h\<close>, \<^verbatim>\<open>service/protocol_router.cpp\<close>,
  \<^verbatim>\<open>game/game_components.cpp\<close>): the byte-level service, whose connections send and leave in any order
  and which reads the clock for every message, refines a service of messages; with a session manager, chat reaches the room
  exactly when its sender is logged in; a disconnected connection is forgotten.

  \<^item> \<open>PlayerMove\<close> (\<^verbatim>\<open>game/player_move.cpp\<close>), on top of \<open>GameService\<close>: a move reaches exactly the
  room and is decoded there bit for bit; positions can outlive their players.

  \<^item> \<open>Rpc\<close> (\<^verbatim>\<open>rpc/rpc_client.cpp\<close>, \<^verbatim>\<open>rpc/rpc_server.cpp\<close>), composed of \<open>Protocol\<close>, \<open>CircuitBreaker\<close> and
  \<open>RateLimiter\<close>: its receive path interprets \<open>buffered_decoder\<close>; without a limiter or a breaker, calls over the network equal direct
  calls of the methods, and every callback is called exactly once; reconnecting ends the process.
  \<open>Gateway\<close> (\<^verbatim>\<open>gateway/gateway_forwarder.cpp\<close>), on top of \<open>GameService\<close> and \<open>ConsistentHash\<close>: clients
  and backend connections are paired, and a backend receives exactly its client's messages.
  \<open>ConnectionPool\<close> (\<^verbatim>\<open>net/connection_pool.cpp\<close>): leases are exclusive under every interleaving; the
  size is bounded for one thread, and two threads can exceed the maximum.

  \<^item> \<open>WorkQueue\<close> (\<^verbatim>\<open>core/thread_pool.cpp\<close>, \<^verbatim>\<open>IoService\<close> of \<^verbatim>\<open>net/posix_io.cpp\<close>, the queue of
  \<^verbatim>\<open>storage/async_storage_adapter.cpp\<close>): three queues with a mutex and a condition variable as one transition system,
  with the locales \<open>queue_laws\<close>, \<open>wakeful_queue\<close> and \<open>draining_queue\<close> and five interpretations: no wake-up is lost
  and a stopped queue runs all it accepted, except where the code loses them. \<open>AsyncStorage\<close>
  (\<^verbatim>\<open>storage/async_storage_adapter.cpp\<close>): every future is settled once, with what a direct call returns.

  \<^item> \<open>Transport\<close> (\<^verbatim>\<open>net/tcp_connection.cpp\<close>, \<^verbatim>\<open>net/ws_connection.cpp\<close>, \<^verbatim>\<open>net/connection_adapter.h\<close>, \<^verbatim>\<open>net/udp_server.cpp\<close>,
  \<^verbatim>\<open>net/udp_socket.cpp\<close>): with the locale \<open>connection\<close> for both kinds, from the writing loop to the
  reading loop, messages cross a connection unchanged however the sockets split them; a torn send corrupts what follows. \<open>Server\<close> (\<^verbatim>\<open>net/tcp_server.cpp\<close>, \<^verbatim>\<open>net/ws_server.cpp\<close>,
  \<^verbatim>\<open>service/service.h\<close>): the read loop of a connection goes through its phases, with the erasure from the table and the report of the
  disconnection as two steps; its callbacks come in order and once, and more connections than workers starve. \<open>CppString\<close> and \<open>Http\<close> (\<^verbatim>\<open>http/http_server.cpp\<close>, \<^verbatim>\<open>http/http_response.cpp\<close>): a request reaches the handler as it
  was sent, however it is cut; a body in a later read is lost. \<open>Tls\<close> (\<^verbatim>\<open>net/tls.cpp\<close>): over any OpenSSL, every life of a
  connection makes and frees its session once and never uses it afterwards; initialising a context twice leaks it, and
  without a CA file the peer is not verified.

  \<^item> \<open>Config\<close> (\<^verbatim>\<open>core/config.cpp\<close>): the last definition wins and the environment overrides. \<open>Logger\<close>
  (\<^verbatim>\<open>core/logger.cpp\<close>): the filter and the text of a line. \<open>Metrics\<close> (\<^verbatim>\<open>metrics/prometheus_metrics.h\<close>): exact histograms,
  ranked quantiles, a well-formed registry whose export never fails as long as no reference is used after a reset. \<open>Benchmark\<close> (\<^verbatim>\<open>benchmark/benchmark.cpp\<close>): statistics,
  runs and reports; \<open>BalancerBench\<close> (the same file) puts discovery, load balancers, ring and router together as its benchmarks
  do, and shows that every measured call succeeds. \<open>Node\<close> (\<^verbatim>\<open>cluster/node.cpp\<close>), on top of \<open>Discovery\<close>: a running node can be found
  as long as no one else removes it.

  \<^item> \<open>GridAoi\<close> and \<open>CrossListAoi\<close> (\<^verbatim>\<open>aoi/aoi.cpp\<close>): exact views and events of the grid; the doubly
  linked lists at the level of pointers; the locale \<open>aoi_manager\<close> states what both promise, the grid for
  every configuration and iteration order, and that they agree follows from it.

  \<^item> \<open>FrameSync\<close> and \<open>StateSync\<close> (\<^verbatim>\<open>sync/frame_sync.cpp\<close>, \<^verbatim>\<open>sync/state_sync.cpp\<close>): lockstep delivery of
  inputs, refinement of a table of values with subscriptions and snapshots, and the handlers that lock a mutex
  twice or are never reached.

  \<^item> \<open>Document\<close> and \<open>Storage\<close> (\<^verbatim>\<open>storage/orm\<close>, \<^verbatim>\<open>storage/memory_storage.cpp\<close>,
  \<^verbatim>\<open>storage/storage_interface.h\<close>): documents survive their text form; over the locale
  \<open>storage_backend\<close>, interpreted by the memory back end, a repository is a table. \<open>MysqlStorage\<close>
  (\<^verbatim>\<open>storage/mysql_storage.cpp\<close>): over any client library with the documented effects, and for keys and values that the columns
  hold faithfully, its calls are those of a table with expiry times; listing with a prefix is undefined behaviour. \<open>MongodbStorage\<close>
  (\<^verbatim>\<open>storage/mongodb_storage.cpp\<close>) satisfies \<open>storage_backend\<close> in the same way; \<open>StorageFactory\<close>
  (\<^verbatim>\<open>storage/storage_factory.cpp\<close>, \<^verbatim>\<open>storage/storage_config_loader.cpp\<close>, \<^verbatim>\<open>storage/storage_component.h\<close>) chooses
  among the three.

  \<^item> \<open>TimerWheel\<close> (\<^verbatim>\<open>core/timer_wheel.cpp\<close>): timers fire once and on time, up to the time that passes between the clock readings of a
  call, except those that hang the wheel. The loop over a slot that grows while it is walked is a partial function; that it
  returns is proved where it does. \<open>TaskQueue\<close> (\<^verbatim>\<open>task/task_queue.cpp\<close>): no accepted task is lost or run
  twice under any interleaving of workers, although cancelling only forgets the id; delayed tasks reach the queue on time.

  \<^item> \<open>Redis\<close> and \<open>DistributedLock\<close> (\<^verbatim>\<open>redis/redis_client.cpp\<close>, \<^verbatim>\<open>redis/distributed_lock.h\<close>): expiry of
  keys, lists as double-ended queues, mutual exclusion while the lease lasts, and that a dead
  holder blocks the lock for ever.

  \<^item> \<open>SlgMap\<close> (\<^verbatim>\<open>slg/map.cpp\<close>), on top of \<open>GridAoi\<close>: paths are found and are shortest among those of
  steps to the four neighbours, troops that
  stand are where the grid of entities says, troops that gather or fight are stuck.
  \<open>Battle\<close> (\<^verbatim>\<open>slg/battle.cpp\<close>): the report accounts for every soldier.

  \<^item> \<open>ObjectPool\<close> (\<^verbatim>\<open>pool/object_pool.h\<close>): the counters match the objects. \<open>EventBus\<close>
  (\<^verbatim>\<open>event/event_bus.h\<close>): delivery to the current subscribers in the order of priority, and that
  a subscriber for one of the framework's event classes sees the events of that class.

  \<^item> \<open>WsFrame\<close> (\<^verbatim>\<open>examples/ws_tcp_bridge.cpp\<close>, and the same functions of \<^verbatim>\<open>examples/game_ws_server.cpp\<close>), on top of \<open>Protocol\<close>
  and \<open>CppString\<close>: handshake, frames and masks; the bridge is transparent in both directions and only ever loses a suffix; the
  hand-written Base64 is wrong for the length of a SHA-1. \<open>WsGame\<close> (\<^verbatim>\<open>examples/game_ws_server.cpp\<close>,
  \<^verbatim>\<open>examples/game_ws_server_json.cpp\<close>): what clients encode is read back and a login is served; a login without a token ends
  the server, and chat reaches nobody.

  \<^item> \<open>GameRooms\<close> (\<^verbatim>\<open>examples/game_server.cpp\<close>), on top of \<open>GameService\<close>: an invariant of the lobby and of every match in all
  reachable states, and who wins a match; two rooms created in one second can collide. \<open>GameGateway\<close>
  (\<^verbatim>\<open>examples/game_gateway_server.cpp\<close>, \<^verbatim>\<open>examples/gateway_server.cpp\<close>, \<^verbatim>\<open>examples/protocol_server.cpp\<close>) puts \<open>Gateway\<close> and
  \<open>GameRooms\<close> together: behind the gateway the game server refuses every command, because no login reaches it.
  \<open>ServerExamples\<close> (\<^verbatim>\<open>examples/echo_server.cpp\<close>, \<^verbatim>\<open>http_server.cpp\<close>, \<^verbatim>\<open>proto_frame_server.cpp\<close>, \<^verbatim>\<open>protocol_stress_client.cpp\<close>): every
  frame is answered once, and the stress client's requests all succeed against the protocol server.

  \<^bold>\<open>Bounds.\<close> Loops over data are structural recursion. Loops that scan a buffer recurse on what is
  left of it; \<open>path_loop\<close> and \<open>process_loop\<close> are partial functions whose results are proved to exist
  (or, for a fast repeating timer, not to exist). The loop that writes to a socket recurses on the bytes
  left, and the one over HTTP headers on the distance to the blank line. Lists of reads, of poll results and of clock
  readings stand for the rounds of
  loops that wait. No result depends on a bound chosen for the model.

  \<^bold>\<open>Not modelled.\<close> OpenSSL, the system calls below the sockets, the client libraries of the databases and YAML parsing are
  parameters. Left out are the two benchmarks of socket pairs, which only call the system; the abstract class of components;
  \<^verbatim>\<open>examples/game_ws_server_simple.cpp\<close>, which does not compile; the other examples, which call modelled operations with fixed
  arguments and print; and the parts of the example programs that set up sockets, wait for a signal or print figures.
\<close>

end
